(* ===== verification/Js_Core.thy ===== *)
theory Js_Core
  imports Complex_Main "HOL-Library.AList" "HOL-Library.Multiset"
begin

text \<open>
  The part of the ECMAScript run-time library the modelled code uses, without strings:
  numbers with infinities and NaN, \<open>Array.prototype.sort\<close>, \<open>Map\<close>, \<open>Set\<close> and plain
  objects, and the generic interfaces (locales) the components rely on.

  Finite numbers are exact reals: rounding of IEEE doubles and the sign of zero are not
  modelled. A \<open>Map\<close> is an association list in insertion order, a \<open>Set\<close> a list without
  duplicates in insertion order.
\<close>

named_theorems js_simps \<open>rewrite rules of the run-time library\<close>
named_theorems inv_intros \<open>invariant preservation rules\<close>


section \<open>Numbers\<close>

datatype jsnum = Fin real | PosInf | NegInf | NaN

fun num_lt :: "jsnum \<Rightarrow> jsnum \<Rightarrow> bool" where
  "num_lt (Fin a) (Fin b) = (a < b)"
| "num_lt (Fin a) PosInf = True"
| "num_lt NegInf (Fin b) = True"
| "num_lt NegInf PosInf = True"
| "num_lt _ _ = False"

fun num_le :: "jsnum \<Rightarrow> jsnum \<Rightarrow> bool" where
  "num_le (Fin a) (Fin b) = (a \<le> b)"
| "num_le NaN _ = False"
| "num_le _ NaN = False"
| "num_le NegInf _ = True"
| "num_le _ PosInf = True"
| "num_le _ _ = False"

fun num_neg :: "jsnum \<Rightarrow> jsnum" where
  "num_neg (Fin a) = Fin (- a)"
| "num_neg PosInf = NegInf"
| "num_neg NegInf = PosInf"
| "num_neg NaN = NaN"

fun num_add :: "jsnum \<Rightarrow> jsnum \<Rightarrow> jsnum" where
  "num_add (Fin a) (Fin b) = Fin (a + b)"
| "num_add NaN _ = NaN"
| "num_add _ NaN = NaN"
| "num_add PosInf NegInf = NaN"
| "num_add NegInf PosInf = NaN"
| "num_add PosInf _ = PosInf"
| "num_add _ PosInf = PosInf"
| "num_add NegInf _ = NegInf"
| "num_add _ NegInf = NegInf"

definition num_sub :: "jsnum \<Rightarrow> jsnum \<Rightarrow> jsnum" where
  "num_sub a b = num_add a (num_neg b)"

text \<open>Quotient of two finite numbers; a zero divisor gives an infinity or NaN.\<close>

definition num_quot :: "real \<Rightarrow> real \<Rightarrow> jsnum" where
  "num_quot a b =
     (if b \<noteq> 0 then Fin (a / b)
      else if a > 0 then PosInf else if a < 0 then NegInf else NaN)"

lemma num_quot_Fin [js_simps]: "b \<noteq> 0 \<Longrightarrow> num_quot a b = Fin (a / b)"
  by (simp add: num_quot_def)

definition is_pos :: "jsnum \<Rightarrow> bool" where
  "is_pos x = num_lt (Fin 0) x"

definition is_neg :: "jsnum \<Rightarrow> bool" where
  "is_neg x = num_lt x (Fin 0)"

lemma is_pos_simps [simp]:
  "is_pos (Fin a) \<longleftrightarrow> 0 < a" "is_pos PosInf" "\<not> is_pos NegInf" "\<not> is_pos NaN"
  by (simp_all add: is_pos_def)

lemma is_neg_simps [simp]:
  "is_neg (Fin a) \<longleftrightarrow> a < 0" "\<not> is_neg PosInf" "is_neg NegInf" "\<not> is_neg NaN"
  by (simp_all add: is_neg_def)

lemma is_pos_neg [simp]: "is_pos (num_neg x) \<longleftrightarrow> is_neg x"
  by (cases x) auto

lemma is_neg_neg [simp]: "is_neg (num_neg x) \<longleftrightarrow> is_pos x"
  by (cases x) auto

text \<open>\<open>Math.round\<close>: the nearest integer, ties towards \<open>+\<infinity>\<close>.\<close>

definition math_round :: "real \<Rightarrow> int" where
  "math_round x = \<lfloor>x + 1 / 2\<rfloor>"

lemma math_round_of_int [simp]: "math_round (of_int n) = n"
  unfolding math_round_def by linarith

lemma math_round_mono: "x \<le> y \<Longrightarrow> math_round x \<le> math_round y"
  unfolding math_round_def by (rule floor_mono) simp

lemma math_round_error: "\<bar>real_of_int (math_round x) - x\<bar> \<le> 1 / 2"
  unfolding math_round_def by linarith


section \<open>Array.prototype.sort\<close>

text \<open>
  The specification asks for a stable sort by a consistent comparator, where a result of
  NaN counts as 0. Insertion sort is the reference: the lemma \<open>js_sort_unique\<close> below shows that
  no other stable sort by a consistent comparator gives a different list.
\<close>

fun js_insort :: "('a \<Rightarrow> 'a \<Rightarrow> jsnum) \<Rightarrow> 'a \<Rightarrow> 'a list \<Rightarrow> 'a list" where
  "js_insort cmp x [] = [x]"
| "js_insort cmp x (y # ys) =
     (if is_pos (cmp x y) then y # js_insort cmp x ys else x # y # ys)"

fun js_sort :: "('a \<Rightarrow> 'a \<Rightarrow> jsnum) \<Rightarrow> 'a list \<Rightarrow> 'a list" where
  "js_sort cmp [] = []"
| "js_sort cmp (x # xs) = js_insort cmp x (js_sort cmp xs)"

lemma mset_js_insort [simp]: "mset (js_insort cmp x xs) = add_mset x (mset xs)"
  by (induction xs) auto

lemma mset_js_sort [simp]: "mset (js_sort cmp xs) = mset xs"
  by (induction xs) auto

lemma set_js_sort [simp]: "set (js_sort cmp xs) = set xs"
  by (metis mset_js_sort set_mset_mset)

lemma length_js_sort [simp]: "length (js_sort cmp xs) = length xs"
  by (metis mset_js_sort size_mset)

lemma js_insort_map: "js_insort cmp (f x) (map f xs) = map f (js_insort (\<lambda>a b. cmp (f a) (f b)) x xs)"
  by (induction xs) auto

lemma js_sort_map: "js_sort cmp (map f xs) = map f (js_sort (\<lambda>a b. cmp (f a) (f b)) xs)"
  by (induction xs) (auto simp: js_insort_map)

lemma distinct_js_sort [simp]: "distinct (js_sort cmp xs) = distinct xs"
  by (metis mset_js_sort mset_eq_imp_distinct_iff)

lemma js_sort_Nil_iff [simp]: "js_sort cmp xs = [] \<longleftrightarrow> xs = []"
  by (metis length_0_conv length_js_sort)

text \<open>A consistent comparator: a total preorder given by the sign of the result.\<close>

locale comparator =
  fixes cmp :: "'a \<Rightarrow> 'a \<Rightarrow> jsnum"
  assumes anti: "is_neg (cmp a b) \<longleftrightarrow> is_pos (cmp b a)"
    and trans: "\<not> is_pos (cmp a b) \<Longrightarrow> \<not> is_pos (cmp b c) \<Longrightarrow> \<not> is_pos (cmp a c)"
begin

lemma asym: "is_pos (cmp a b) \<Longrightarrow> \<not> is_pos (cmp b a)"
  using anti [of a b] by (cases "cmp a b") auto

lemma refl: "\<not> is_pos (cmp a a)"
  using asym by blast

lemma sorted_js_insort:
  "sorted_wrt (\<lambda>a b. \<not> is_pos (cmp a b)) xs \<Longrightarrow>
   sorted_wrt (\<lambda>a b. \<not> is_pos (cmp a b)) (js_insort cmp x xs)"
proof (induction xs)
  case Nil
  then show ?case by simp
next
  case (Cons y ys)
  have eq: "set (js_insort cmp x ys) = insert x (set ys)"
    by (metis mset_js_insort set_mset_add_mset_insert set_mset_mset)
  show ?case
    using Cons by (auto simp: eq dest: asym trans)
qed

lemma sorted_js_sort: "sorted_wrt (\<lambda>a b. \<not> is_pos (cmp a b)) (js_sort cmp xs)"
  by (induction xs) (auto intro: sorted_js_insort)

lemma js_insort_id: "\<forall>y \<in> set ys. \<not> is_pos (cmp x y) \<Longrightarrow> js_insort cmp x ys = x # ys"
  by (cases ys) auto

lemma js_sort_id: "sorted_wrt (\<lambda>a b. \<not> is_pos (cmp a b)) xs \<Longrightarrow> js_sort cmp xs = xs"
  by (induction xs) (auto simp: js_insort_id)

definition tied :: "'a \<Rightarrow> 'a \<Rightarrow> bool" where
  "tied a b \<longleftrightarrow> \<not> is_pos (cmp a b) \<and> \<not> is_pos (cmp b a)"

lemma stable_js_insort:
  "filter (tied a) (js_insort cmp x xs) = filter (tied a) (x # xs)"
proof (induction xs)
  case Nil
  then show ?case by simp
next
  case (Cons y ys)
  show ?case
  proof (cases "is_pos (cmp x y)")
    case True
    then have "\<not> (tied a x \<and> tied a y)"
      using trans [of x a y] by (auto simp: tied_def)
    with True Cons show ?thesis by auto
  next
    case False
    then show ?thesis by simp
  qed
qed

lemma stable_js_sort: "filter (tied a) (js_sort cmp xs) = filter (tied a) xs"
  by (induction xs) (simp_all add: stable_js_insort)

lemma sorted_stable_unique:
  assumes "sorted_wrt (\<lambda>a b. \<not> is_pos (cmp a b)) xs"
    and "sorted_wrt (\<lambda>a b. \<not> is_pos (cmp a b)) ys"
    and "\<And>a. filter (tied a) xs = filter (tied a) ys"
  shows "xs = ys"
  using assms
proof (induction xs arbitrary: ys)
  case Nil
  then have "filter (tied a) ys = []" for a
    by (metis filter.simps(1))
  then have "\<forall>y \<in> set ys. \<not> tied y y" by (metis filter_empty_conv)
  then show ?case by (cases ys) (auto simp: tied_def refl)
next
  case (Cons x xs)
  have tx: "tied x x" by (simp add: tied_def refl)
  have "x \<in> set (filter (tied x) ys)"
    using Cons.prems(3) [of x, symmetric] tx by simp
  then have x_in: "x \<in> set ys" by simp
  then obtain y ys' where ys: "ys = y # ys'" by (cases ys) auto
  have ty: "tied y y" by (simp add: tied_def refl)
  have "y \<in> set (filter (tied y) (x # xs))"
    using Cons.prems(3) [of y] ty ys by simp
  then have y_in: "y \<in> set (x # xs)" by (auto split: if_splits)
  have "tied x y"
    using x_in y_in Cons.prems(1,2) ys refl by (auto simp: tied_def)
  then have "x = y" using Cons.prems(3) [of x] tx ys by simp
  moreover have "filter (tied a) xs = filter (tied a) ys'" for a
    using Cons.prems(3) [of a] ys \<open>x = y\<close> by (simp split: if_splits)
  ultimately show ?case
    using Cons.IH [of ys'] Cons.prems(1,2) ys by simp
qed

lemma js_sort_unique:
  assumes "sorted_wrt (\<lambda>a b. \<not> is_pos (cmp a b)) ys"
    and "\<And>a. filter (tied a) ys = filter (tied a) xs"
  shows "ys = js_sort cmp xs"
  by (rule sorted_stable_unique) (use assms in \<open>auto intro: sorted_js_sort simp: stable_js_sort\<close>)

lemma flip: "comparator (\<lambda>a b. num_neg (cmp a b))"
proof
  show "is_neg (num_neg (cmp a b)) = is_pos (num_neg (cmp b a))" for a b
    by (simp add: anti)
  show "\<not> is_pos (num_neg (cmp a b)) \<Longrightarrow> \<not> is_pos (num_neg (cmp b c)) \<Longrightarrow>
      \<not> is_pos (num_neg (cmp a c))" for a b c
    using trans [of c b a] by (simp add: anti)
qed

lemma on_key: "comparator (\<lambda>a b. cmp (f a) (f b))"
  by unfold_locales (simp add: anti, metis trans)

end

text \<open>The comparators of the code that subtract a numeric key.\<close>

definition key_cmp :: "('a \<Rightarrow> real) \<Rightarrow> 'a \<Rightarrow> 'a \<Rightarrow> jsnum" where
  "key_cmp f a b = Fin (f a - f b)"

interpretation key: comparator "key_cmp f" for f
  by unfold_locales (auto simp: key_cmp_def)

lemma js_insort_key: "js_insort (key_cmp f) x ys = insort_key f x ys"
  by (induction ys) (auto simp: key_cmp_def)

lemma js_sort_key: "js_sort (key_cmp f) xs = sort_key f xs"
  by (induction xs) (simp_all add: js_insort_key)

abbreviation num_sort :: "real list \<Rightarrow> real list" where
  "num_sort \<equiv> js_sort (key_cmp (\<lambda>x. x))"

lemma num_sort_eq: "num_sort xs = sort xs"
  by (rule js_sort_key)


section \<open>Map, Set and plain objects\<close>

text \<open>
  The interface of a key-value container, shared by \<open>Map\<close>, plain objects and the
  registries built on them: a lookup after a store. What the client derives from it is the
  effect of a whole loop of stores, where the last store of a key wins.
\<close>

locale kv_store =
  fixes get :: "'s \<Rightarrow> 'k \<Rightarrow> 'v option"
    and put :: "'k \<Rightarrow> 'v \<Rightarrow> 's \<Rightarrow> 's"
  assumes get_put: "get (put k v s) = (get s)(k \<mapsto> v)"
begin

lemma get_put_same: "get (put k v s) k = Some v"
  by (simp add: get_put)

lemma get_put_other: "k' \<noteq> k \<Longrightarrow> get (put k v s) k' = get s k'"
  by (simp add: get_put)

lemma get_puts: "get (fold (\<lambda>(k, v). put k v) kvs s) = get s ++ map_of (rev kvs)"
  by (induction kvs arbitrary: s) (auto simp: get_put map_add_upd_left map_add_def fun_eq_iff
      split: option.splits)

end

type_synonym ('k, 'v) js_map = "('k \<times> 'v) list"

definition map_set :: "'k \<Rightarrow> 'v \<Rightarrow> ('k, 'v) js_map \<Rightarrow> ('k, 'v) js_map" where
  "map_set k v m = AList.update k v m"

lemma map_set_simps [simp]:
  "map_set k v [] = [(k, v)]"
  "map_set k v (p # m) = (if fst p = k then (k, v) # m else p # map_set k v m)"
  by (simp_all add: map_set_def)

interpretation jm: kv_store map_of map_set
  by unfold_locales (simp add: map_set_def update_conv')

lemma map_of_rev_distinct: "distinct (map fst xs) \<Longrightarrow> map_of (rev xs) = map_of xs"
proof (induction xs)
  case (Cons x xs)
  then have "map_of xs (fst x) = None" by (simp add: map_of_eq_None_iff)
  with Cons show ?case by (cases x) (auto simp: map_add_def fun_eq_iff split: option.split)
qed simp

lemma keys_map_set:
  "map fst (map_set k v m) = (if k \<in> set (map fst m) then map fst m else map fst m @ [k])"
  by (simp add: map_set_def update_keys)

lemma distinct_map_set: "distinct (map fst m) \<Longrightarrow> distinct (map fst (map_set k v m))"
  by (simp add: keys_map_set)

lemma dom_map_set [simp]: "set (map fst (map_set k v m)) = insert k (set (map fst m))"
  by (auto simp: keys_map_set)

type_synonym 'a js_set = "'a list"

definition set_add :: "'a \<Rightarrow> 'a js_set \<Rightarrow> 'a js_set" where
  "set_add x xs = (if x \<in> set xs then xs else xs @ [x])"

definition set_delete :: "'a \<Rightarrow> 'a js_set \<Rightarrow> 'a js_set" where
  "set_delete x xs = filter (\<lambda>y. y \<noteq> x) xs"

definition js_set_of :: "'a list \<Rightarrow> 'a js_set" where
  "js_set_of xs = fold set_add xs []"

lemma set_set_add [simp]: "set (set_add x xs) = insert x (set xs)"
  by (auto simp: set_add_def)

lemma distinct_set_add [simp]: "distinct xs \<Longrightarrow> distinct (set_add x xs)"
  by (simp add: set_add_def)

lemma set_set_delete [simp]: "set (set_delete x xs) = set xs - {x}"
  by (auto simp: set_delete_def)

lemma distinct_set_delete [simp]: "distinct xs \<Longrightarrow> distinct (set_delete x xs)"
  by (simp add: set_delete_def)

lemma set_fold_add: "set (fold set_add ys xs) = set xs \<union> set ys"
  by (induction ys arbitrary: xs) auto

lemma distinct_fold_add: "distinct xs \<Longrightarrow> distinct (fold set_add ys xs)"
  by (induction ys arbitrary: xs) auto

lemma fold_add_distinct:
  "distinct (xs @ ys) \<Longrightarrow> fold set_add ys xs = xs @ ys"
  by (induction ys arbitrary: xs) (auto simp: set_add_def)

lemma set_js_set_of [simp]: "set (js_set_of xs) = set xs"
  by (simp add: js_set_of_def set_fold_add)

lemma distinct_js_set_of [simp]: "distinct (js_set_of xs)"
  by (simp add: js_set_of_def distinct_fold_add)

lemma js_set_of_id: "distinct xs \<Longrightarrow> js_set_of xs = xs"
  by (simp add: js_set_of_def fold_add_distinct)


section \<open>State machines\<close>

text \<open>
  A component driven by events: a step function and an invariant every step keeps. A run is
  the fold of its events; the invariant holds after every run.
\<close>

definition run :: "('s \<Rightarrow> 'e \<Rightarrow> 's) \<Rightarrow> 's \<Rightarrow> 'e list \<Rightarrow> 's" where
  "run step s es = foldl step s es"

lemma run_simps [simp]:
  "run step s [] = s"
  "run step s (e # es) = run step (step s e) es"
  "run step s (es @ fs) = run step (run step s es) fs"
  by (simp_all add: run_def)

locale machine =
  fixes step :: "'s \<Rightarrow> 'e \<Rightarrow> 's"
    and ok :: "'e \<Rightarrow> bool"
    and inv :: "'s \<Rightarrow> bool"
  assumes inv_step: "inv s \<Longrightarrow> ok e \<Longrightarrow> inv (step s e)"
begin

lemma inv_run: "inv s \<Longrightarrow> list_all ok es \<Longrightarrow> inv (run step s es)"
  by (induction es arbitrary: s) (auto intro: inv_step)

end

text \<open>A machine that implements an abstract one: each step, seen through the abstraction, is the abstract
  step.\<close>

locale simulation = machine +
  fixes abstraction :: "'a \<Rightarrow> 'c"
    and abstract_step :: "'c \<Rightarrow> 'b \<Rightarrow> 'c"
  assumes abs_step: "inv s \<Longrightarrow> ok e \<Longrightarrow> abstraction (step s e) = abstract_step (abstraction s) e"
begin

lemma abs_run: "inv s \<Longrightarrow> list_all ok es \<Longrightarrow> abstraction (run step s es) = run abstract_step (abstraction s) es"
  by (induction es arbitrary: s) (simp_all add: abs_step inv_step)

end

end
