(* ===== verification/Js_String.thy ===== *)
theory Js_String
  imports Js_Core "HOL-Library.Sublist" "HOL-Library.Char_ord" "HOL-Library.List_Lexorder"
begin

text \<open>
  Strings of the ECMAScript run-time library. A string is a list of code units below
  U+0100 (a \<open>char\<close> is its code); code units above are outside the model. On that range
  case folding, white space and comparison are the language's own. An index that the
  language reports as \<open>-1\<close> is \<open>None\<close>.
\<close>

section \<open>Characters\<close>

abbreviation code :: "char \<Rightarrow> nat" where
  "code c \<equiv> of_char c"

definition is_digit :: "char \<Rightarrow> bool" where
  "is_digit c \<longleftrightarrow> 48 \<le> code c \<and> code c \<le> 57"

text \<open>White space and line terminators of the language below U+0100.\<close>

definition is_space :: "char \<Rightarrow> bool" where
  "is_space c \<longleftrightarrow> code c \<in> {9, 10, 11, 12, 13, 32, 160}"

definition lower_char :: "char \<Rightarrow> char" where
  "lower_char c =
     (if (65 \<le> code c \<and> code c \<le> 90) \<or> (192 \<le> code c \<and> code c \<le> 222 \<and> code c \<noteq> 215)
      then char_of (code c + 32) else c)"

definition to_lower :: "string \<Rightarrow> string" where
  "to_lower s = map lower_char s"

lemma code_bound: "code c < 256"
  by simp

lemma code_char_of [simp]: "n < 256 \<Longrightarrow> code (char_of n) = n"
  by (simp add: of_char_of)

lemma code_inj: "code c = code d \<Longrightarrow> c = d"
  by (metis char_of_char)

lemmas char_eval = char_of_def bit_Suc_0_iff

lemma lower_char_idem [simp]: "lower_char (lower_char c) = lower_char c"
  using code_bound [of c] by (auto simp: lower_char_def)

lemma to_lower_idem [simp]: "to_lower (to_lower s) = to_lower s"
  by (simp add: to_lower_def)

lemma length_to_lower [simp]: "length (to_lower s) = length s"
  by (simp add: to_lower_def)

lemma to_lower_append [simp]: "to_lower (s @ t) = to_lower s @ to_lower t"
  by (simp add: to_lower_def)

lemma to_lower_Nil_iff [simp]: "to_lower s = [] \<longleftrightarrow> s = []"
  by (simp add: to_lower_def)


section \<open>Searching and slicing\<close>

fun index_of :: "char \<Rightarrow> string \<Rightarrow> nat option" where
  "index_of c [] = None"
| "index_of c (x # xs) = (if x = c then Some 0 else map_option Suc (index_of c xs))"

definition last_index_of :: "char \<Rightarrow> string \<Rightarrow> nat option" where
  "last_index_of c s = map_option (\<lambda>i. length s - 1 - i) (index_of c (rev s))"

fun str_includes :: "string \<Rightarrow> string \<Rightarrow> bool" where
  "str_includes [] t = (t = [])"
| "str_includes (c # cs) t = (prefix t (c # cs) \<or> str_includes cs t)"

definition starts_with :: "string \<Rightarrow> string \<Rightarrow> bool" where
  "starts_with s t = prefix t s"

definition ends_with :: "string \<Rightarrow> string \<Rightarrow> bool" where
  "ends_with s t = suffix t s"

lemma index_of_None [simp]: "index_of c s = None \<longleftrightarrow> c \<notin> set s"
  by (induction s) auto

lemma index_of_append:
  "c \<notin> set s \<Longrightarrow> index_of c (s @ c # t) = Some (length s)"
  by (induction s) auto

lemma index_of_Some:
  "index_of c s = Some i \<Longrightarrow> i < length s \<and> s ! i = c \<and> c \<notin> set (take i s)"
proof (induction s arbitrary: i)
  case Nil
  then show ?case by simp
next
  case (Cons x s)
  then show ?case by (cases "x = c") auto
qed

lemma index_of_split:
  assumes "index_of c s = Some i"
  shows "s = take i s @ c # drop (Suc i) s"
  using index_of_Some [OF assms] by (metis id_take_nth_drop)

lemma last_index_of_append:
  "c \<notin> set t \<Longrightarrow> last_index_of c (s @ c # t) = Some (length s)"
  by (simp add: last_index_of_def index_of_append)

lemma last_index_of_None [simp]: "last_index_of c s = None \<longleftrightarrow> c \<notin> set s"
  by (simp add: last_index_of_def)

lemma includes_sublist: "str_includes s t \<longleftrightarrow> sublist t s"
  by (induction s) (auto simp: sublist_Cons_right)

lemma includes_refl [simp]: "str_includes s s"
  by (simp add: includes_sublist)

lemma includes_append: "str_includes (p @ t @ q) t"
  by (simp add: includes_sublist)


section \<open>split and join\<close>

fun split_on :: "'a \<Rightarrow> 'a list \<Rightarrow> 'a list list" where
  "split_on c [] = [[]]"
| "split_on c (x # xs) =
     (if x = c then [] # split_on c xs
      else (case split_on c xs of [] \<Rightarrow> [[x]] | y # ys \<Rightarrow> (x # y) # ys))"

fun join :: "'a list \<Rightarrow> 'a list list \<Rightarrow> 'a list" where
  "join sep [] = []"
| "join sep [x] = x"
| "join sep (x # y # xs) = x @ sep @ join sep (y # xs)"

lemma split_on_nonempty [simp]: "split_on c s \<noteq> []"
  by (cases s) (auto split: list.splits)

lemma split_on_free: "c \<notin> set s \<Longrightarrow> split_on c s = [s]"
  by (induction s) auto

lemma split_on_append:
  "c \<notin> set s \<Longrightarrow> split_on c (s @ c # t) = s # split_on c t"
  by (induction s) auto

lemma split_on_join:
  "xs \<noteq> [] \<Longrightarrow> \<forall>x \<in> set xs. c \<notin> set x \<Longrightarrow> split_on c (join [c] xs) = xs"
  by (induction "[c]" xs rule: join.induct) (auto simp: split_on_free split_on_append)

lemma split_on_parts: "x \<in> set (split_on c s) \<Longrightarrow> c \<notin> set x"
proof (induction s arbitrary: x)
  case Nil
  then show ?case by simp
next
  case (Cons a s)
  then show ?case by (cases "split_on c s") (auto split: if_splits)
qed

lemma split_on_subset: "x \<in> set (split_on c s) \<Longrightarrow> set x \<subseteq> set s"
proof (induction s arbitrary: x)
  case Nil
  then show ?case by simp
next
  case (Cons a s)
  then show ?case by (cases "split_on c s") (fastforce split: if_splits)+
qed

lemma join_split_on: "join [c] (split_on c s) = s"
proof (induction s)
  case Nil
  then show ?case by simp
next
  case (Cons a s)
  obtain y ys where eq: "split_on c s = y # ys" by (cases "split_on c s") auto
  then show ?case using Cons by (cases ys) auto
qed

lemma set_join: "set (join sep xs) \<subseteq> set sep \<union> \<Union> (set ` set xs)"
  by (induction sep xs rule: join.induct) auto

lemma join_append:
  "xs \<noteq> [] \<Longrightarrow> ys \<noteq> [] \<Longrightarrow> join sep (xs @ ys) = join sep xs @ sep @ join sep ys"
  by (induction sep xs rule: join.induct) (auto simp: neq_Nil_conv)

lemma join_Nil_iff: "sep \<noteq> [] \<Longrightarrow> join sep xs = [] \<longleftrightarrow> xs = [] \<or> xs = [[]]"
  by (induction sep xs rule: join.induct) auto



section \<open>White space\<close>

definition trim_start :: "string \<Rightarrow> string" where
  "trim_start s = dropWhile is_space s"

definition trim :: "string \<Rightarrow> string" where
  "trim s = rev (dropWhile is_space (rev (trim_start s)))"

text \<open>\<open>s.split(/\s+/)\<close>: the pieces between maximal runs of white space.\<close>

function split_ws :: "string \<Rightarrow> string list" where
  "split_ws s =
     (let w = takeWhile (\<lambda>c. \<not> is_space c) s; r = dropWhile (\<lambda>c. \<not> is_space c) s
      in if r = [] then [w] else w # split_ws (dropWhile is_space r))"
  by pat_completeness auto
termination
proof (relation "measure length", goal_cases)
  case 1
  then show ?case by simp
next
  case (2 s w r)
  from 2(3) obtain c cs where r: "r = c # cs" by (meson neq_Nil_conv)
  with 2 have "is_space c" by (metis hd_dropWhile list.sel(1) list.distinct(1))
  then have "length (dropWhile is_space r) < length r"
    using r length_dropWhile_le [of is_space cs] by (simp add: le_imp_less_Suc)
  also have "\<dots> \<le> length s" using 2 by (simp add: length_dropWhile_le)
  finally show ?case by simp
qed

declare split_ws.simps [simp del]

definition word :: "string \<Rightarrow> bool" where
  "word w \<longleftrightarrow> w \<noteq> [] \<and> (\<forall>c \<in> set w. \<not> is_space c)"

lemma dropWhile_none: "\<forall>c \<in> set s. \<not> P c \<Longrightarrow> dropWhile P s = s"
  by (cases s) auto

lemma trim_id: "s = [] \<or> (\<not> is_space (hd s) \<and> \<not> is_space (last s)) \<Longrightarrow> trim s = s"
proof (cases s rule: rev_cases)
  case (snoc ys y)
  assume "s = [] \<or> (\<not> is_space (hd s) \<and> \<not> is_space (last s))"
  with snoc have *: "\<not> is_space (hd s)" "\<not> is_space y" by auto
  from *(1) have "trim_start s = s"
    by (cases s) (auto simp: trim_start_def)
  then show ?thesis using snoc * by (simp add: trim_def)
qed (simp add: trim_def trim_start_def)

lemma trim_word: "word w \<Longrightarrow> trim w = w"
  by (rule trim_id) (auto simp: word_def)

lemma split_ws_word: "word w \<Longrightarrow> split_ws w = [w]"
  by (subst split_ws.simps) (auto simp: word_def Let_def)

lemma space_is_space [simp]: "is_space CHR '' ''"
  by (simp add: is_space_def)

lemma split_ws_words:
  assumes "word w" and "word v"
  shows "split_ws (w @ CHR '' '' # v @ r) = w # split_ws (v @ r)"
proof -
  have "takeWhile (\<lambda>c. \<not> is_space c) (w @ CHR '' '' # v @ r) = w"
    and "dropWhile (\<lambda>c. \<not> is_space c) (w @ CHR '' '' # v @ r) = CHR '' '' # v @ r"
    using assms(1) by (auto simp: word_def takeWhile_append dropWhile_append)
  moreover have "dropWhile is_space (CHR '' '' # v @ r) = v @ r"
    using assms(2) by (cases v) (auto simp: word_def)
  ultimately show ?thesis by (subst split_ws.simps) (simp add: Let_def)
qed

lemma split_ws_join:
  "ws \<noteq> [] \<Longrightarrow> list_all word ws \<Longrightarrow> split_ws (join '' '' ws) = ws"
proof (induction ws rule: induct_list012)
  case (3 w v ws)
  then show ?case
    using split_ws_words [of w v "case ws of [] \<Rightarrow> [] | _ \<Rightarrow> '' '' @ join '' '' ws"]
    by (cases ws) auto
qed (auto simp: split_ws_word)

lemma hd_join: "ws \<noteq> [] \<Longrightarrow> list_all word ws \<Longrightarrow>
    join '' '' ws \<noteq> [] \<and> \<not> is_space (hd (join '' '' ws)) \<and> \<not> is_space (last (join '' '' ws))"
proof (induction ws rule: induct_list012)
  case (3 w v ws)
  then have "join '' '' (v # ws) \<noteq> []" "\<not> is_space (last (join '' '' (v # ws)))" by auto
  with 3 show ?case by (auto simp: word_def)
qed (auto simp: word_def)

lemma trim_join: "list_all word ws \<Longrightarrow> trim (join '' '' ws) = join '' '' ws"
  by (rule trim_id) (use hd_join in \<open>cases ws; auto\<close>)

lemma split_ws_pieces: "w \<in> set (split_ws s) \<Longrightarrow> w = [] \<or> word w"
proof (induction s rule: split_ws.induct)
  case (1 s)
  have tw: "takeWhile (\<lambda>c. \<not> is_space c) s = [] \<or> word (takeWhile (\<lambda>c. \<not> is_space c) s)"
    by (auto simp: word_def dest: set_takeWhileD)
  show ?case
    using 1 tw by (subst (asm) split_ws.simps) (auto simp: Let_def split: if_splits)
qed

end
