(* ===== verification/Js_Text.thy ===== *)
theory Js_Text
  imports Js_String
begin

text \<open>
  Conversions between text and values of the run-time library: \<open>String(n)\<close> on integers,
  \<open>Number(s)\<close>, \<open>toFixed\<close>, \<open>encodeURIComponent\<close> and \<open>decodeURIComponent\<close>, the form
  encoding of \<open>URLSearchParams\<close>, and objects with their key order.
\<close>

section \<open>Integers as decimal text\<close>

fun nat_str :: "nat \<Rightarrow> string" where
  "nat_str n = (if n < 10 then [char_of (48 + n)] else nat_str (n div 10) @ [char_of (48 + n mod 10)])"

declare nat_str.simps [simp del]

definition int_str :: "int \<Rightarrow> string" where
  "int_str i = (if i < 0 then CHR ''-'' # nat_str (nat (- i)) else nat_str (nat i))"

definition digits_val :: "string \<Rightarrow> nat" where
  "digits_val s = foldl (\<lambda>acc c. 10 * acc + (code c - 48)) 0 s"

lemma digits_val_snoc [simp]: "digits_val (s @ [c]) = 10 * digits_val s + (code c - 48)"
  by (simp add: digits_val_def)

lemma digits_val_Nil [simp]: "digits_val [] = 0"
  by (simp add: digits_val_def)

lemma nat_str_neq_Nil [simp]: "nat_str n \<noteq> []"
  by (subst nat_str.simps) simp

lemma nat_str_digits: "c \<in> set (nat_str n) \<Longrightarrow> is_digit c"
proof (induction n rule: nat_str.induct)
  case (1 n)
  show ?case
  proof (cases "n < 10")
    case True
    then show ?thesis using 1(2) by (subst (asm) nat_str.simps) (auto simp: is_digit_def)
  next
    case False
    then have "c \<in> set (nat_str (n div 10)) \<or> c = char_of (48 + n mod 10)"
      using 1(2) by (subst (asm) nat_str.simps) auto
    then show ?thesis using 1(1) False by (auto simp: is_digit_def)
  qed
qed

lemma digits_val_nat_str [simp]: "digits_val (nat_str n) = n"
proof (induction n rule: nat_str.induct)
  case (1 n)
  show ?case
  proof (cases "n < 10")
    case True
    then show ?thesis using digits_val_snoc [of "[]"] by (subst nat_str.simps) simp
  next
    case False
    then show ?thesis using 1 by (subst nat_str.simps) simp
  qed
qed

lemma nat_str_inj [simp]: "nat_str m = nat_str n \<longleftrightarrow> m = n"
  by (metis digits_val_nat_str)

lemma digit_not_space: "is_digit c \<Longrightarrow> \<not> is_space c"
  by (auto simp: is_digit_def is_space_def)

lemma nat_str_free: "\<not> is_digit c \<Longrightarrow> c \<notin> set (nat_str n)"
  using nat_str_digits by blast

lemma word_nat_str: "word (nat_str n)"
  by (auto simp: word_def dest: nat_str_digits digit_not_space)


section \<open>Number(s)\<close>

definition hex_val :: "char \<Rightarrow> nat option" where
  "hex_val c =
     (if is_digit c then Some (code c - 48)
      else if 65 \<le> code c \<and> code c \<le> 70 then Some (code c - 55)
      else if 97 \<le> code c \<and> code c \<le> 102 then Some (code c - 87)
      else None)"

fun radix_val :: "nat \<Rightarrow> nat \<Rightarrow> string \<Rightarrow> nat option" where
  "radix_val b acc [] = Some acc"
| "radix_val b acc (c # cs) =
     (case hex_val c of
        Some d \<Rightarrow> if d < b then radix_val b (b * acc + d) cs else None
      | None \<Rightarrow> None)"

definition radix_literal :: "nat \<Rightarrow> string \<Rightarrow> jsnum" where
  "radix_literal b s =
     (if s = [] then NaN else case radix_val b 0 s of Some n \<Rightarrow> Fin (real n) | None \<Rightarrow> NaN)"

text \<open>The exponent part \<open>e[+-]digits\<close>; the empty text is exponent 0.\<close>

definition exponent_val :: "string \<Rightarrow> int option" where
  "exponent_val s =
     (case s of
        [] \<Rightarrow> Some 0
      | e # r \<Rightarrow>
          if e \<noteq> CHR ''e'' \<and> e \<noteq> CHR ''E'' then None
          else let neg = (r \<noteq> [] \<and> hd r = CHR ''-'');
                   ds = (if r \<noteq> [] \<and> (hd r = CHR ''-'' \<or> hd r = CHR ''+'') then tl r else r)
               in if ds = [] \<or> \<not> list_all is_digit ds then None
                  else Some (if neg then - int (digits_val ds) else int (digits_val ds)))"

definition unsigned_decimal :: "string \<Rightarrow> jsnum" where
  "unsigned_decimal s =
     (let ip = takeWhile is_digit s;
          r = dropWhile is_digit s;
          dot = (r \<noteq> [] \<and> hd r = CHR ''.'');
          fp = (if dot then takeWhile is_digit (tl r) else []);
          r2 = (if dot then dropWhile is_digit (tl r) else r)
      in if s = ''Infinity'' then PosInf
         else if ip = [] \<and> fp = [] then NaN
         else case exponent_val r2 of
                None \<Rightarrow> NaN
              | Some e \<Rightarrow>
                  let m = real (digits_val (ip @ fp)); k = e - int (length fp)
                  in Fin (if 0 \<le> k then m * 10 ^ nat k else m / 10 ^ nat (- k)))"

definition js_Number :: "string \<Rightarrow> jsnum" where
  "js_Number str =
     (let s = trim str in
      if s = [] then Fin 0
      else if starts_with s ''0x'' \<or> starts_with s ''0X'' then radix_literal 16 (drop 2 s)
      else if starts_with s ''0o'' \<or> starts_with s ''0O'' then radix_literal 8 (drop 2 s)
      else if starts_with s ''0b'' \<or> starts_with s ''0B'' then radix_literal 2 (drop 2 s)
      else if hd s = CHR ''+'' then unsigned_decimal (tl s)
      else if hd s = CHR ''-'' then num_neg (unsigned_decimal (tl s))
      else unsigned_decimal s)"

definition is_integer :: "jsnum \<Rightarrow> bool" where
  "is_integer x = (case x of Fin r \<Rightarrow> of_int \<lfloor>r\<rfloor> = r | _ \<Rightarrow> False)"

lemma unsigned_decimal_digits:
  assumes "s \<noteq> []" and "\<forall>c \<in> set s. is_digit c"
  shows "unsigned_decimal s = Fin (real (digits_val s))"
proof -
  have "s \<noteq> ''Infinity''"
    using assms by (auto simp: is_digit_def)
  moreover have split: "takeWhile is_digit s = s" "dropWhile is_digit s = []"
    using assms(2) by auto
  ultimately show ?thesis
    using assms(1) by (simp add: unsigned_decimal_def exponent_val_def Let_def split)
qed

lemma js_Number_digits:
  assumes "s \<noteq> []" and "\<forall>c \<in> set s. is_digit c"
  shows "js_Number s = Fin (real (digits_val s))"
proof -
  have "word s" using assms by (auto simp: word_def dest: digit_not_space)
  then have tr: "trim s = s" by (rule trim_word)
  have second: "\<not> prefix (CHR ''0'' # x # xs) s" if "\<not> is_digit x" for x xs
    using assms(2) that by (auto simp: prefix_def)
  have "hd s \<noteq> CHR ''+''" "hd s \<noteq> CHR ''-''"
    using assms by (cases s; auto simp: is_digit_def)+
  then show ?thesis
    using assms(1) unsigned_decimal_digits [OF assms]
    by (simp add: js_Number_def tr starts_with_def second is_digit_def)
qed

lemma js_Number_nat_str [simp]: "js_Number (nat_str n) = Fin (real n)"
  using js_Number_digits [of "nat_str n"] nat_str_digits by simp


section \<open>toFixed\<close>

text \<open>The integer nearest to \<open>x * 10 ^ f\<close>, the larger one on a tie, printed with \<open>f\<close> decimals.\<close>

definition place_point :: "nat \<Rightarrow> string \<Rightarrow> string" where
  "place_point f ds =
     (if f = 0 then ds
      else let p = replicate (f + 1 - length ds) CHR ''0'' @ ds; k = length p - f
           in take k p @ CHR ''.'' # drop k p)"

definition toFixed :: "nat \<Rightarrow> real \<Rightarrow> string" where
  "toFixed f x =
     (if x < 0 then ''-'' else []) @ place_point f (nat_str (nat \<lfloor>\<bar>x\<bar> * 10 ^ f + 1 / 2\<rfloor>))"

end
