(* ===== verification/Perf_Threshold.thy ===== *)
theory Perf_Threshold
  imports Js_Text
begin

text \<open>
  The slow-threshold model of \<open>ui/src/utils/perfThreshold.ts\<close> and the colours of the group
  heatmap in \<open>ui/src/components/compare/heatmapColor.ts\<close>: a ratio where higher is better
  falls into one of ten steps, from the best (0) to the worst (9).
\<close>

section \<open>The scale\<close>

definition MIN_THRESHOLD :: real where "MIN_THRESHOLD = 1"
definition MAX_THRESHOLD :: real where "MAX_THRESHOLD = 1000"
definition DEFAULT_THRESHOLD :: real where "DEFAULT_THRESHOLD = 60"
definition MIN_SLOW_MS :: real where "MIN_SLOW_MS = 100"
definition MAX_SLOW_MS :: real where "MAX_SLOW_MS = 20000"
definition DEFAULT_SLOW_MS :: real where "DEFAULT_SLOW_MS = 4000"

definition THRESHOLD_COLORS :: "string list" where
  "THRESHOLD_COLORS =
     [''#047857'', ''#16a34a'', ''#32a71b'', ''#84cc16'', ''#eab308'',
      ''#f59e0b'', ''#f97316'', ''#f2542c'', ''#ef4444'', ''#b91c1c'']"

definition THRESHOLD_RATIOS :: "real list" where
  "THRESHOLD_RATIOS = [3, 2, 3/2, 5/4, 1, 4/5, 2/3, 1/2, 1/3, 0]"

definition THRESHOLD_LIMIT_STEP :: nat where "THRESHOLD_LIMIT_STEP = 4"

definition THRESHOLD_TEXT_CLASSES :: "string list" where
  "THRESHOLD_TEXT_CLASSES =
     [''text-green-600 dark:text-green-400'', ''text-green-600 dark:text-green-400'',
      ''text-lime-600 dark:text-lime-400'', ''text-yellow-600 dark:text-yellow-400'',
      ''text-yellow-600 dark:text-yellow-400'', ''text-orange-600 dark:text-orange-400'',
      ''text-orange-600 dark:text-orange-400'', ''text-orange-600 dark:text-orange-400'',
      ''text-red-600 dark:text-red-400'', ''text-red-600 dark:text-red-400'']"

text \<open>The loop of \<open>thresholdStep\<close>: the first index whose bound the ratio reaches.\<close>

fun threshold_loop :: "jsnum \<Rightarrow> nat \<Rightarrow> real list \<Rightarrow> nat" where
  "threshold_loop ratio i [] = length THRESHOLD_RATIOS - 1"
| "threshold_loop ratio i (r # rs) =
     (if num_le (Fin r) ratio then i else threshold_loop ratio (Suc i) rs)"

definition thresholdStep :: "jsnum \<Rightarrow> nat" where
  "thresholdStep ratio = threshold_loop ratio 0 THRESHOLD_RATIOS"

definition durationRatio :: "real \<Rightarrow> real \<Rightarrow> jsnum" where
  "durationRatio ns slowMs = (if ns \<le> 0 then PosInf else num_quot (slowMs * 1000000) ns)"

definition getColorByThreshold :: "real \<Rightarrow> real \<Rightarrow> string" where
  "getColorByThreshold val threshold = THRESHOLD_COLORS ! thresholdStep (num_quot val threshold)"

definition getTextClassByThreshold :: "real \<Rightarrow> real \<Rightarrow> string" where
  "getTextClassByThreshold val threshold =
     THRESHOLD_TEXT_CLASSES ! thresholdStep (num_quot val threshold)"

definition getColorByDuration :: "real \<Rightarrow> real \<Rightarrow> string" where
  "getColorByDuration ns slowMs = THRESHOLD_COLORS ! thresholdStep (durationRatio ns slowMs)"

definition getTextClassByDuration :: "real \<Rightarrow> real \<Rightarrow> string" where
  "getTextClassByDuration ns slowMs =
     THRESHOLD_TEXT_CLASSES ! thresholdStep (durationRatio ns slowMs)"

definition isSlowPayload :: "real \<Rightarrow> real \<Rightarrow> bool" where
  "isSlowPayload ns slowMs \<longleftrightarrow> ns > slowMs * 1000000"

definition formatSlowMs :: "real \<Rightarrow> string" where
  "formatSlowMs slowMs =
     (let seconds = slowMs / 1000
      in (if is_integer (Fin seconds) then int_str \<lfloor>seconds\<rfloor> else toFixed 1 seconds) @ ''s'')"

text \<open>
  The legend texts use the glyphs U+2265 and U+2013, outside the string model; the three
  templates are constructors: \<open>AtLeast l\<close> for the text with the greater-or-equal sign,
  \<open>Below h\<close> for the one with \<open><\<close>, \<open>Between l h\<close> for the one with the dash.
\<close>

datatype step_range = AtLeast string | Below string | Between string string

definition fmt_bound :: "real \<Rightarrow> string" where
  "fmt_bound v = (if v \<ge> 10 then toFixed 0 v else toFixed 1 v)"

definition thresholdStepRange :: "nat \<Rightarrow> real \<Rightarrow> step_range" where
  "thresholdStepRange step threshold =
     (let low = THRESHOLD_RATIOS ! step * threshold
      in if step = 0 then AtLeast (fmt_bound low)
         else let high = THRESHOLD_RATIOS ! (step - 1) * threshold
              in if low = 0 then Below (fmt_bound high)
                 else Between (fmt_bound low) (fmt_bound high))"

lemma threshold_step_cases:
  "thresholdStep ratio =
     (if num_le (Fin 3) ratio then 0 else if num_le (Fin 2) ratio then 1
      else if num_le (Fin (3/2)) ratio then 2 else if num_le (Fin (5/4)) ratio then 3
      else if num_le (Fin 1) ratio then 4 else if num_le (Fin (4/5)) ratio then 5
      else if num_le (Fin (2/3)) ratio then 6 else if num_le (Fin (1/2)) ratio then 7
      else if num_le (Fin (1/3)) ratio then 8 else 9)"
  by (simp add: thresholdStep_def THRESHOLD_RATIOS_def)

lemma thresholdStep_bound: "thresholdStep ratio < 10"
  by (simp add: threshold_step_cases)

lemma num_le_trans: "num_le a b \<Longrightarrow> num_le b c \<Longrightarrow> num_le a c"
  by (cases a; cases b; cases c) auto

lemma thresholdStep_antimono:
  assumes "num_le r r'"
  shows "thresholdStep r' \<le> thresholdStep r"
proof -
  have up: "num_le (Fin x) r \<Longrightarrow> num_le (Fin x) r'" for x
    using num_le_trans [OF _ assms] .
  show ?thesis
    unfolding threshold_step_cases [of r] using up
    by (auto simp: threshold_step_cases [of r'])
qed

lemma thresholdStep_limit: "thresholdStep r \<le> THRESHOLD_LIMIT_STEP \<longleftrightarrow> num_le (Fin 1) r"
  by (cases r) (auto simp: threshold_step_cases THRESHOLD_LIMIT_STEP_def)

lemma colors_length [simp]:
  "length THRESHOLD_COLORS = 10" "length THRESHOLD_TEXT_CLASSES = 10" "length THRESHOLD_RATIOS = 10"
  by (simp_all add: THRESHOLD_COLORS_def THRESHOLD_TEXT_CLASSES_def THRESHOLD_RATIOS_def)

lemma colors_distinct: "distinct THRESHOLD_COLORS"
  by (simp add: THRESHOLD_COLORS_def)

lemma color_step_eq:
  "THRESHOLD_COLORS ! thresholdStep a = THRESHOLD_COLORS ! thresholdStep b \<longleftrightarrow>
   thresholdStep a = thresholdStep b"
  using colors_distinct thresholdStep_bound by (simp add: nth_eq_iff_index_eq)


section \<open>The group heatmap\<close>

datatype HeatmapMetric = Mgas | Duration

datatype HeatmapColorMode = Absolute | Baseline

record HeatmapColorModel =
  hm_metric :: HeatmapMetric
  hm_mode :: HeatmapColorMode
  hm_threshold :: real
  hm_slowMs :: real

definition baselineRatio :: "real \<Rightarrow> real \<Rightarrow> HeatmapMetric \<Rightarrow> jsnum" where
  "baselineRatio val baseValue metric =
     (if metric = Mgas then num_quot val baseValue else num_quot baseValue val)"

definition heatmapColor :: "real option \<Rightarrow> real option \<Rightarrow> HeatmapColorModel \<Rightarrow> string option" where
  "heatmapColor val baseValue model =
     (case val of
        None \<Rightarrow> None
      | Some v \<Rightarrow>
          if hm_mode model = Absolute then
            Some (if hm_metric model = Mgas then getColorByThreshold v (hm_threshold model)
                  else getColorByDuration v (hm_slowMs model))
          else (case baseValue of
                  None \<Rightarrow> None
                | Some b \<Rightarrow>
                    if b \<le> 0 \<or> v \<le> 0 then None
                    else Some (THRESHOLD_COLORS ! thresholdStep (baselineRatio v b (hm_metric model)))))"

definition formatRatio :: "real \<Rightarrow> string" where
  "formatRatio ratio =
     (let percent = (ratio - 1) * 100
      in (if percent > 0 then ''+'' else []) @
         (if \<bar>percent\<bar> < 10 then toFixed 1 percent else toFixed 0 percent) @ ''%'')"

text \<open>At least as good: more throughput, or less time.\<close>

definition at_least_as_good :: "HeatmapMetric \<Rightarrow> real \<Rightarrow> real \<Rightarrow> bool" where
  "at_least_as_good metric v w \<longleftrightarrow> (if metric = Mgas then w \<le> v else v \<le> w)"

definition color_rank :: "string \<Rightarrow> nat" where
  "color_rank c = length (takeWhile (\<lambda>d. d \<noteq> c) THRESHOLD_COLORS)"

lemma takeWhile_neq_nth:
  "distinct xs \<Longrightarrow> i < length xs \<Longrightarrow> length (takeWhile (\<lambda>d. d \<noteq> xs ! i) xs) = i"
proof (induction xs arbitrary: i)
  case (Cons x xs)
  then show ?case by (cases i) auto
qed simp

lemma color_rank_step [simp]: "color_rank (THRESHOLD_COLORS ! thresholdStep r) = thresholdStep r"
  unfolding color_rank_def
  by (rule takeWhile_neq_nth) (use colors_distinct thresholdStep_bound in simp_all)


section \<open>Properties\<close>

lemma num_quot_mono: "0 < t \<Longrightarrow> w \<le> v \<Longrightarrow> num_le (num_quot w t) (num_quot v t)"
  by (simp add: num_quot_def divide_right_mono)

lemma num_quot_antimono: "0 < v \<Longrightarrow> v \<le> w \<Longrightarrow> 0 \<le> b \<Longrightarrow> num_le (num_quot b w) (num_quot b v)"
  by (simp add: num_quot_def divide_left_mono)

lemma durationRatio_antimono:
  "0 < slow \<Longrightarrow> v \<le> w \<Longrightarrow> num_le (durationRatio w slow) (durationRatio v slow)"
proof -
  assume *: "0 < slow" "v \<le> w"
  show ?thesis
  proof (cases "v \<le> 0")
    case True
    then show ?thesis using * by (cases "w \<le> 0") (auto simp: durationRatio_def num_quot_def)
  next
    case False
    then show ?thesis using * num_quot_antimono [of v w "slow * 1000000"]
      by (simp add: durationRatio_def)
  qed
qed

lemma rank_mono: "num_le r r' \<Longrightarrow>
    color_rank (THRESHOLD_COLORS ! thresholdStep r') \<le> color_rank (THRESHOLD_COLORS ! thresholdStep r)"
  by (simp add: thresholdStep_antimono)

text \<open>A tile of the group heatmap never gets a worse colour than another tile of the same
  test whose value is no better, in both modes and for both metrics.\<close>

theorem heatmap_color_monotone:
  assumes "heatmapColor (Some v) base model = Some c"
    and "heatmapColor (Some w) base model = Some d"
    and "at_least_as_good (hm_metric model) v w"
    and "0 < hm_threshold model" and "0 < hm_slowMs model"
  shows "color_rank c \<le> color_rank d"
proof (cases "hm_mode model")
  case Absolute
  then show ?thesis
    using assms rank_mono [OF num_quot_mono] rank_mono [OF durationRatio_antimono]
    by (auto simp: heatmapColor_def at_least_as_good_def getColorByThreshold_def
        getColorByDuration_def split: if_splits)
next
  case Baseline
  then obtain b where b: "base = Some b" "0 < b" "0 < v" "0 < w"
    using assms(1,2) by (auto simp: heatmapColor_def split: option.splits if_splits)
  then show ?thesis
    using assms Baseline rank_mono [OF num_quot_mono [of b w v]]
      rank_mono [OF num_quot_antimono [of v w b]]
    by (auto simp: heatmapColor_def at_least_as_good_def baselineRatio_def split: if_splits)
qed

theorem heatmap_color_monotone_witness:
  "color_rank ''#16a34a'' \<le> color_rank ''#eab308''"
  by (rule heatmap_color_monotone [of 120 "Some 60" "\<lparr>hm_metric = Mgas, hm_mode = Baseline,
      hm_threshold = 60, hm_slowMs = 4000\<rparr>" _ 70])
    (simp_all add: heatmapColor_def baselineRatio_def num_quot_def threshold_step_cases
      THRESHOLD_COLORS_def at_least_as_good_def)

text \<open>The duration colours agree with the slow marker: a payload is marked slow exactly
  when its colour is past the limit step of the scale.\<close>

theorem slow_iff_past_limit:
  assumes "0 < slowMs"
  shows "isSlowPayload ns slowMs \<longleftrightarrow>
    THRESHOLD_LIMIT_STEP < color_rank (getColorByDuration ns slowMs)"
proof -
  have "num_le (Fin 1) (durationRatio ns slowMs) \<longleftrightarrow> ns \<le> slowMs * 1000000"
    using assms
    by (auto simp: durationRatio_def num_quot_def field_simps intro: order_trans [of ns 0])
  then show ?thesis
    by (simp add: isSlowPayload_def getColorByDuration_def thresholdStep_limit not_le [symmetric])
qed

theorem slow_iff_past_limit_witness:
  "isSlowPayload 5000000000 4000 \<longleftrightarrow>
    THRESHOLD_LIMIT_STEP < color_rank (getColorByDuration 5000000000 4000)"
  by (rule slow_iff_past_limit) simp

text \<open>The step of a non-negative ratio is the legend bracket that holds it: at least the
  bound of its own step and below the bound of the step before.\<close>

theorem threshold_step_bracket:
  assumes "0 \<le> r"
  shows "THRESHOLD_RATIOS ! thresholdStep (Fin r) \<le> r \<and>
    (thresholdStep (Fin r) > 0 \<longrightarrow> r < THRESHOLD_RATIOS ! (thresholdStep (Fin r) - 1))"
  using assms by (simp add: threshold_step_cases THRESHOLD_RATIOS_def)

theorem threshold_step_bracket_witness:
  "thresholdStep (Fin (9/5)) = 2 \<and> 3/2 \<le> (9/5 :: real) \<and> 9/5 < THRESHOLD_RATIOS ! 1"
  using threshold_step_bracket [of "9/5"]
  by (simp add: threshold_step_cases THRESHOLD_RATIOS_def)

end
