(* ===== verification/Dashboard_Types.thy ===== *)
theory Dashboard_Types
  imports Js_Text
begin

text \<open>
  The data of the block-log dashboard
  (\<open>ui/src/components/run-detail/block-logs-dashboard/\<close>): \<open>types.ts\<close>, the category list
  and colours of \<open>utils/colors.ts\<close> and the classifier of \<open>utils/categoryParser.ts\<close>.
\<close>

section \<open>Categories\<close>

datatype TestCategory =
    Arithmetic | Memory | Storage | Stack | Control | Keccak | Log | Account
  | CallCat | Context | System | Bn128 | Bls | Precompile | Scenario | Other

fun category_name :: "TestCategory \<Rightarrow> string" where
  "category_name Arithmetic = ''arithmetic''"
| "category_name Memory = ''memory''"
| "category_name Storage = ''storage''"
| "category_name Stack = ''stack''"
| "category_name Control = ''control''"
| "category_name Keccak = ''keccak''"
| "category_name Log = ''log''"
| "category_name Account = ''account''"
| "category_name CallCat = ''call''"
| "category_name Context = ''context''"
| "category_name System = ''system''"
| "category_name Bn128 = ''bn128''"
| "category_name Bls = ''bls''"
| "category_name Precompile = ''precompile''"
| "category_name Scenario = ''scenario''"
| "category_name Other = ''other''"

definition ALL_CATEGORIES :: "TestCategory list" where
  "ALL_CATEGORIES =
     [Arithmetic, Memory, Storage, Stack, Control, Keccak, Log, Account,
      CallCat, Context, System, Bn128, Bls, Precompile, Scenario, Other]"

definition category_of :: "string \<Rightarrow> TestCategory option" where
  "category_of s = find (\<lambda>c. category_name c = s) ALL_CATEGORIES"

fun CATEGORY_COLORS :: "TestCategory \<Rightarrow> string" where
  "CATEGORY_COLORS Arithmetic = ''#3b82f6''"
| "CATEGORY_COLORS Memory = ''#22c55e''"
| "CATEGORY_COLORS Storage = ''#f97316''"
| "CATEGORY_COLORS Stack = ''#a855f7''"
| "CATEGORY_COLORS Control = ''#ec4899''"
| "CATEGORY_COLORS Keccak = ''#14b8a6''"
| "CATEGORY_COLORS Log = ''#eab308''"
| "CATEGORY_COLORS Account = ''#06b6d4''"
| "CATEGORY_COLORS CallCat = ''#8b5cf6''"
| "CATEGORY_COLORS Context = ''#f43f5e''"
| "CATEGORY_COLORS System = ''#84cc16''"
| "CATEGORY_COLORS Bn128 = ''#ef4444''"
| "CATEGORY_COLORS Bls = ''#0ea5e9''"
| "CATEGORY_COLORS Precompile = ''#6366f1''"
| "CATEGORY_COLORS Scenario = ''#78716c''"
| "CATEGORY_COLORS Other = ''#6b7280''"

lemma set_ALL_CATEGORIES [simp]: "set ALL_CATEGORIES = UNIV"
proof -
  have "c \<in> set ALL_CATEGORIES" for c by (cases c) (simp_all add: ALL_CATEGORIES_def)
  then show ?thesis by auto
qed

instance TestCategory :: finite
  by standard (simp flip: set_ALL_CATEGORIES)

lemma distinct_ALL_CATEGORIES [simp]: "distinct ALL_CATEGORIES"
  by (simp add: ALL_CATEGORIES_def)

lemma category_of_name [simp]: "category_of (category_name c) = Some c"
  by (cases c) (simp_all add: category_of_def ALL_CATEGORIES_def)

lemma category_name_inj [simp]: "category_name c = category_name d \<longleftrightarrow> c = d"
  by (metis category_of_name option.inject)

lemma category_name_free [simp]: "CHR '','' \<notin> set (category_name c)" "category_name c \<noteq> []"
  by (cases c; simp)+

lemma sum_categories:
  fixes f :: "TestCategory \<Rightarrow> nat"
  shows "(\<Sum>c\<leftarrow>ALL_CATEGORIES. f c) = (\<Sum>c \<in> UNIV. f c)"
  using sum_list_distinct_conv_sum_set [of ALL_CATEGORIES f] by simp


section \<open>Classification of a test name\<close>

definition parseCategory :: "string \<Rightarrow> TestCategory" where
  "parseCategory testName =
     (let n = to_lower testName in
      if str_includes n ''/scenario/'' then Scenario
      else if str_includes n ''/precompile/'' then
        (if str_includes n ''test_alt_bn128'' \<or> str_includes n ''bn128'' then Bn128
         else if str_includes n ''test_bls12_381'' \<or> str_includes n ''bls12'' then Bls
         else Precompile)
      else if str_includes n ''/instruction/'' then
        (if str_includes n ''test_arithmetic'' \<or> str_includes n ''test_bitwise'' \<or>
            str_includes n ''test_comparison'' then Arithmetic
         else if str_includes n ''test_memory'' then Memory
         else if str_includes n ''test_storage'' then Storage
         else if str_includes n ''test_stack'' then Stack
         else if str_includes n ''test_control_flow'' then Control
         else if str_includes n ''test_keccak'' then Keccak
         else if str_includes n ''test_log'' then Log
         else if str_includes n ''test_account_query'' then Account
         else if str_includes n ''test_call_context'' then CallCat
         else if str_includes n ''test_block_context'' \<or> str_includes n ''test_tx_context'' then Context
         else if str_includes n ''test_system'' then System
         else Other)
      else Other)"

lemma parseCategory_lower [simp]: "parseCategory (to_lower s) = parseCategory s"
  by (simp add: parseCategory_def)


section \<open>Records\<close>

record ProcessedTestData =
  testName :: string
  testOrder :: "real option"
  category :: TestCategory
  throughput :: real
  executionMs :: real
  totalMs :: real
  overheadMs :: real
  stateReadMs :: real
  stateHashMs :: real
  commitMs :: real
  accountCacheHitRate :: real
  storageCacheHitRate :: real
  codeCacheHitRate :: "real option"
  accountCacheHits :: real
  accountCacheMisses :: real
  storageCacheHits :: real
  storageCacheMisses :: real
  codeCacheHits :: "real option"
  codeCacheMisses :: "real option"
  gasUsed :: real
  txCount :: real
  normalizedThroughput :: real
  normalizedSpeed :: real
  normalizedLowOverhead :: real
  normalizedAccountCache :: real
  normalizedCodeCache :: real

record DashboardStats =
  sc_count :: nat
  avgThroughput :: real
  minThroughput :: real
  maxThroughput :: real
  medianThroughput :: real
  avgExecution :: real
  avgOverhead :: real
  categoryBreakdown :: "TestCategory \<Rightarrow> nat"
  outlierCount :: nat

record BoxPlotStats =
  bp_category :: TestCategory
  bp_min :: real
  bp_q1 :: real
  bp_median :: real
  bp_q3 :: real
  bp_max :: real
  bp_outliers :: "real list"

datatype DashboardTab = Overview | CacheTab | Distribution

datatype SortField =
    SfThroughput | SfExecution | SfOverhead | SfName | SfOrder | SfCategory
  | SfAccountCache | SfStorageCache | SfCodeCache | SfGas

datatype SortOrder = Asc | Desc

text \<open>
  The selected categories are texts: besides the sixteen names the state can hold the
  sentinel \<open>__none__\<close>, which the code casts to a category.
\<close>

record DashboardState =
  activeTab :: DashboardTab
  categories :: "string list"
  sortBy :: SortField
  sortOrder :: SortOrder
  stMinThroughput :: "real option"
  stMaxThroughput :: "real option"
  excludeOutliers :: bool
  useLogScale :: bool

end
