(* ===== verification/Stats.thy ===== *)
theory Stats
  imports Dashboard_Types
begin

text \<open>
  Order statistics: \<open>utils/statistics.ts\<close> of the block-log dashboard (percentiles, IQR
  outliers, box plots, histogram bins, normalisation). Every caller passes a natural number
  as the percentage, so it is a \<open>nat\<close>; sums and products are exact.
\<close>

section \<open>Percentiles\<close>

definition percentile :: "real list \<Rightarrow> nat \<Rightarrow> real" where
  "percentile sortedValues p =
     (if sortedValues = [] then 0
      else if length sortedValues = 1 then sortedValues ! 0
      else let index = real p / 100 * (real (length sortedValues) - 1);
               lower = nat \<lfloor>index\<rfloor>;
               upper = nat \<lceil>index\<rceil>;
               weight = index - real lower
           in if upper \<ge> length sortedValues then last sortedValues
              else sortedValues ! lower * (1 - weight) + sortedValues ! upper * weight)"

text \<open>Linear interpolation between the two neighbours of a position.\<close>

definition interp :: "real list \<Rightarrow> real \<Rightarrow> real" where
  "interp xs t =
     xs ! nat \<lfloor>t\<rfloor> + (xs ! nat \<lceil>t\<rceil> - xs ! nat \<lfloor>t\<rfloor>) * (t - real (nat \<lfloor>t\<rfloor>))"

definition rank_pos :: "real list \<Rightarrow> nat \<Rightarrow> real" where
  "rank_pos xs p = real p / 100 * (real (length xs) - 1)"

lemma rank_pos_range:
  assumes "xs \<noteq> []" and "p \<le> 100"
  shows "0 \<le> rank_pos xs p" and "rank_pos xs p \<le> real (length xs) - 1"
proof -
  have n: "0 \<le> real (length xs) - 1" using assms(1) by (cases xs) auto
  then show "0 \<le> rank_pos xs p" by (simp add: rank_pos_def)
  have "real p / 100 \<le> 1" using assms(2) by simp
  then show "rank_pos xs p \<le> real (length xs) - 1"
    unfolding rank_pos_def using n mult_right_mono [of "real p / 100" 1 "real (length xs) - 1"]
    by simp
qed

lemma rank_pos_mono: "xs \<noteq> [] \<Longrightarrow> p \<le> q \<Longrightarrow> rank_pos xs p \<le> rank_pos xs q"
proof -
  assume "xs \<noteq> []" "p \<le> q"
  then have "0 \<le> real (length xs) - 1" by (cases xs) auto
  with \<open>p \<le> q\<close> show ?thesis unfolding rank_pos_def by (intro mult_right_mono) auto
qed

lemma percentile_interp:
  assumes "xs \<noteq> []" and "p \<le> 100"
  shows "percentile xs p = interp xs (rank_pos xs p)"
proof -
  let ?t = "rank_pos xs p"
  have t: "0 \<le> ?t" "?t \<le> real (length xs) - 1" using rank_pos_range [OF assms] .
  show ?thesis
  proof (cases "length xs = 1")
    case True
    then have "?t = 0" by (simp add: rank_pos_def)
    with True assms(1) show ?thesis by (simp add: percentile_def interp_def)
  next
    case False
    have "\<lceil>?t\<rceil> < int (length xs)" using t(2) by linarith
    then have "\<not> nat \<lceil>?t\<rceil> \<ge> length xs" using t(1) by linarith
    then have "percentile xs p =
        xs ! nat \<lfloor>?t\<rfloor> * (1 - (?t - real (nat \<lfloor>?t\<rfloor>))) + xs ! nat \<lceil>?t\<rceil> * (?t - real (nat \<lfloor>?t\<rfloor>))"
      using False assms(1) unfolding percentile_def rank_pos_def [symmetric] Let_def by simp
    then show ?thesis by (simp add: interp_def algebra_simps)
  qed
qed

lemma interp_between:
  assumes "sorted xs" and "0 \<le> t" and "t \<le> real (length xs) - 1"
  shows "xs ! nat \<lfloor>t\<rfloor> \<le> interp xs t" and "interp xs t \<le> xs ! nat \<lceil>t\<rceil>"
proof -
  let ?a = "xs ! nat \<lfloor>t\<rfloor>" and ?b = "xs ! nat \<lceil>t\<rceil>" and ?w = "t - real (nat \<lfloor>t\<rfloor>)"
  have "\<lceil>t\<rceil> < int (length xs)" using assms(3) by linarith
  moreover have "\<lfloor>t\<rfloor> \<le> \<lceil>t\<rceil>" by linarith
  ultimately have ab: "?a \<le> ?b" using assms by (intro sorted_nth_mono nat_mono) auto
  have w: "0 \<le> ?w" "?w \<le> 1" using assms(2) by linarith+
  have "0 \<le> (?b - ?a) * ?w" using ab w by simp
  then show "?a \<le> interp xs t" by (simp add: interp_def)
  have "(?b - ?a) * ?w \<le> (?b - ?a) * 1" using ab w by (intro mult_left_mono) auto
  then show "interp xs t \<le> ?b" by (simp add: interp_def)
qed

lemma interp_mono:
  assumes "sorted xs" and "0 \<le> s" and "s \<le> t" and "t \<le> real (length xs) - 1"
  shows "interp xs s \<le> interp xs t"
proof (cases "\<lfloor>s\<rfloor> = \<lfloor>t\<rfloor>")
  case True
  let ?a = "xs ! nat \<lfloor>t\<rfloor>" and ?b = "xs ! nat \<lceil>t\<rceil>"
  show ?thesis
  proof (cases "s = real_of_int \<lfloor>s\<rfloor>")
    case exact: True
    then have "interp xs s = ?a" using True assms(2) by (simp add: interp_def)
    then show ?thesis using interp_between(1) [of xs t] assms by simp
  next
    case False
    then have "real_of_int \<lfloor>s\<rfloor> < s" using of_int_floor_le [of s] by linarith
    then have "\<lceil>s\<rceil> = \<lfloor>s\<rfloor> + 1" "\<lceil>t\<rceil> = \<lfloor>t\<rfloor> + 1" using True assms(3) by linarith+
    then have "\<lceil>s\<rceil> = \<lceil>t\<rceil>" using True by simp
    moreover have "?a \<le> ?b"
      using interp_between [of xs t] assms by linarith
    ultimately show ?thesis
      using True assms(2,3) by (simp add: interp_def mult_left_mono)
  qed
next
  case False
  with assms(3) have "\<lceil>s\<rceil> \<le> \<lfloor>t\<rfloor>" by linarith
  moreover have "nat \<lfloor>t\<rfloor> < length xs" using assms(2,3,4) by linarith
  ultimately have "xs ! nat \<lceil>s\<rceil> \<le> xs ! nat \<lfloor>t\<rfloor>"
    using assms(1,2) by (intro sorted_nth_mono nat_mono) auto
  then show ?thesis using interp_between [of xs s] interp_between [of xs t] assms by linarith
qed

lemma percentile_mono:
  assumes "sorted xs" and "p \<le> q" and "q \<le> 100"
  shows "percentile xs p \<le> percentile xs q"
proof (cases "xs = []")
  case True
  then show ?thesis by (simp add: percentile_def)
next
  case False
  then show ?thesis
    using assms percentile_interp [of xs p] percentile_interp [of xs q]
      interp_mono [of xs "rank_pos xs p" "rank_pos xs q"] rank_pos_range [of xs p]
      rank_pos_range [of xs q] rank_pos_mono [of xs p q]
    by simp
qed

lemma hd_sorted: "sorted xs \<Longrightarrow> xs \<noteq> [] \<Longrightarrow> hd xs = Min (set xs)" for xs :: "real list"
  by (cases xs) (auto intro!: Min_eqI [symmetric])

lemma last_sorted: "sorted xs \<Longrightarrow> xs \<noteq> [] \<Longrightarrow> last xs = Max (set xs)" for xs :: "real list"
  by (cases xs rule: rev_cases) (auto intro!: Max_eqI [symmetric] simp: sorted_append)

lemma percentile_ends:
  assumes "xs \<noteq> []"
  shows "percentile xs 0 = hd xs" and "percentile xs 100 = last xs"
proof -
  have n: "length xs > 0" using assms by simp
  show "percentile xs 0 = hd xs"
    using assms by (simp add: percentile_interp rank_pos_def interp_def hd_conv_nth)
  have "rank_pos xs 100 = real (length xs - 1)" using n by (cases xs) (simp_all add: rank_pos_def)
  then show "percentile xs 100 = last xs"
    using assms by (simp add: percentile_interp interp_def last_conv_nth)
qed

lemma percentile_range:
  assumes "sorted xs" and "xs \<noteq> []" and "p \<le> 100"
  shows "hd xs \<le> percentile xs p" and "percentile xs p \<le> last xs"
  using percentile_mono [of xs 0 p] percentile_mono [of xs p 100] percentile_ends [of xs] assms
  by auto


section \<open>Outliers\<close>

definition calculateIQRBounds :: "real list \<Rightarrow> jsnum \<times> jsnum" where
  "calculateIQRBounds values =
     (if length values < 4 then (NegInf, PosInf)
      else let sorted = num_sort values;
               q1 = percentile sorted 25;
               q3 = percentile sorted 75;
               iqr = q3 - q1
           in (Fin (q1 - 3/2 * iqr), Fin (q3 + 3/2 * iqr)))"

definition removeOutliers :: "'a list \<Rightarrow> ('a \<Rightarrow> real) \<Rightarrow> 'a list" where
  "removeOutliers data getValue =
     (let (lower, upper) = calculateIQRBounds (map getValue data)
      in filter (\<lambda>item. num_le lower (Fin (getValue item)) \<and> num_le (Fin (getValue item)) upper) data)"

definition countOutliers :: "'a list \<Rightarrow> ('a \<Rightarrow> real) \<Rightarrow> nat" where
  "countOutliers data getValue =
     (let zeroOrNegative = length (filter (\<lambda>item. getValue item \<le> 0) data);
          positiveData = filter (\<lambda>item. getValue item > 0) data
      in if length positiveData \<le> 4 then zeroOrNegative
         else let (lower, upper) = calculateIQRBounds (map getValue positiveData);
                  iqrOutliers = length (filter (\<lambda>item. num_lt (Fin (getValue item)) lower \<or>
                                                      num_lt upper (Fin (getValue item))) positiveData)
              in zeroOrNegative + iqrOutliers)"

lemma bounds_not_nan:
  "calculateIQRBounds xs = (l, u) \<Longrightarrow> l \<noteq> NaN \<and> u \<noteq> NaN"
  by (auto simp: calculateIQRBounds_def Let_def split: if_splits)

lemma num_lt_not_le: "l \<noteq> NaN \<Longrightarrow> num_lt (Fin x) l \<longleftrightarrow> \<not> num_le l (Fin x)"
  "l \<noteq> NaN \<Longrightarrow> num_lt l (Fin x) \<longleftrightarrow> \<not> num_le (Fin x) l"
  by (cases l; auto)+

lemma length_filter_split:
  "length (filter P xs) + length (filter (\<lambda>x. \<not> P x) xs) = length xs"
  using sum_length_filter_compl .

text \<open>The rows the dashboard keeps when it excludes outliers (see \<open>useProcessedData\<close>).\<close>

definition exclude_outliers :: "'a list \<Rightarrow> ('a \<Rightarrow> real) \<Rightarrow> 'a list" where
  "exclude_outliers data getValue =
     (let pos = filter (\<lambda>d. getValue d > 0) data
      in if length pos > 4 then removeOutliers pos getValue else pos)"

lemma count_plus_excluded:
  "countOutliers data f + length (exclude_outliers data f) = length data"
proof -
  let ?pos = "filter (\<lambda>d. f d > 0) data"
  obtain l u where lu: "calculateIQRBounds (map f ?pos) = (l, u)" by fastforce
  note nn = bounds_not_nan [OF lu]
  have np: "length (filter (\<lambda>d. f d \<le> 0) data) + length ?pos = length data"
    using length_filter_split [of "\<lambda>d. f d \<le> 0" data] by (simp add: not_le)
  have out: "length (filter (\<lambda>d. num_lt (Fin (f d)) l \<or> num_lt u (Fin (f d))) ?pos) +
      length (filter (\<lambda>d. num_le l (Fin (f d)) \<and> num_le (Fin (f d)) u) ?pos) = length ?pos"
    using length_filter_split [of "\<lambda>d. num_lt (Fin (f d)) l \<or> num_lt u (Fin (f d))" ?pos] nn
    by (simp add: num_lt_not_le del: filter_filter)
  show ?thesis
    using np out lu
    by (simp add: countOutliers_def exclude_outliers_def removeOutliers_def Let_def del: filter_filter)
qed


section \<open>Box plots\<close>

definition box_of :: "TestCategory \<Rightarrow> real list \<Rightarrow> BoxPlotStats" where
  "box_of cat values =
     (let q1 = percentile values 25;
          q3 = percentile values 75;
          iqr = q3 - q1;
          lowerBound = q1 - 3/2 * iqr;
          upperBound = q3 + 3/2 * iqr;
          nonOutliers = filter (\<lambda>v. v \<ge> lowerBound \<and> v \<le> upperBound) values;
          outliers = filter (\<lambda>v. v < lowerBound \<or> v > upperBound) values
      in \<lparr>bp_category = cat,
          bp_min = (if nonOutliers \<noteq> [] then nonOutliers ! 0 else values ! 0),
          bp_q1 = q1,
          bp_median = percentile values 50,
          bp_q3 = q3,
          bp_max = (if nonOutliers \<noteq> [] then last nonOutliers else last values),
          bp_outliers = outliers\<rparr>)"

definition calculateBoxPlotStats :: "ProcessedTestData list \<Rightarrow> BoxPlotStats list" where
  "calculateBoxPlotStats data =
     concat (map (\<lambda>cat.
       let categoryData = filter (\<lambda>d. category d = cat) data
       in if categoryData = [] then []
          else [box_of cat (num_sort (map throughput categoryData))]) ALL_CATEGORIES)"


section \<open>Histogram\<close>

definition emptyCategoryBreakdown :: "TestCategory \<Rightarrow> nat" where
  "emptyCategoryBreakdown = (\<lambda>c. 0)"

definition bump_category :: "TestCategory \<Rightarrow> (TestCategory \<Rightarrow> nat) \<Rightarrow> (TestCategory \<Rightarrow> nat)" where
  "bump_category c counts = counts(c := counts c + 1)"

definition countByCategory :: "ProcessedTestData list \<Rightarrow> (TestCategory \<Rightarrow> nat)" where
  "countByCategory data = fold (\<lambda>d. bump_category (category d)) data emptyCategoryBreakdown"

lemma fold_bump: "fold (\<lambda>d. bump_category (category d)) data g c =
    g c + length (filter (\<lambda>d. category d = c) data)"
  by (induction data arbitrary: g) (auto simp: bump_category_def)

lemma countByCategory_eq: "countByCategory data c = length (filter (\<lambda>d. category d = c) data)"
  by (simp add: countByCategory_def emptyCategoryBreakdown_def fold_bump)

record hist_bin =
  hb_start :: real
  hb_end :: real
  hb_count :: nat
  hb_byCategory :: "TestCategory \<Rightarrow> nat"

definition clamp_bin :: "nat \<Rightarrow> int \<Rightarrow> nat" where
  "clamp_bin binCount i =
     (let j = (if i \<ge> int binCount then int binCount - 1 else i)
      in nat (if j < 0 then 0 else j))"

definition bin_index :: "real \<Rightarrow> real \<Rightarrow> nat \<Rightarrow> real \<Rightarrow> nat" where
  "bin_index mn binWidth binCount x = clamp_bin binCount \<lfloor>(x - mn) / binWidth\<rfloor>"

definition add_to_bin :: "ProcessedTestData \<Rightarrow> nat \<Rightarrow> hist_bin list \<Rightarrow> hist_bin list" where
  "add_to_bin item i bins =
     bins[i := (bins ! i)\<lparr>hb_count := hb_count (bins ! i) + 1,
                          hb_byCategory := bump_category (category item) (hb_byCategory (bins ! i))\<rparr>]"

text \<open>
  With no bins at all the write \<open>bins[0].count++\<close> throws; otherwise the clamped index is in
  range.
\<close>

datatype 'a throws = Throws | Returns 'a

definition createHistogramBins :: "ProcessedTestData list \<Rightarrow> nat \<Rightarrow> hist_bin list throws" where
  "createHistogramBins data binCount =
     (if data = [] then Returns []
      else let values = map throughput data;
               mn = Min (set values);
               mx = Max (set values)
           in if mn = mx then
                Returns [\<lparr>hb_start = mn, hb_end = mx, hb_count = length data,
                          hb_byCategory = countByCategory data\<rparr>]
              else if binCount = 0 then Throws
              else let binWidth = (mx - mn) / real binCount;
                       bins = map (\<lambda>i. \<lparr>hb_start = mn + real i * binWidth,
                                        hb_end = mn + real (i + 1) * binWidth,
                                        hb_count = 0,
                                        hb_byCategory = emptyCategoryBreakdown\<rparr>) [0..<binCount]
                   in Returns (fold (\<lambda>item. add_to_bin item
                                (bin_index mn binWidth binCount (throughput item))) data bins))"

definition normalizeValue :: "real \<Rightarrow> real \<Rightarrow> real \<Rightarrow> bool \<Rightarrow> real" where
  "normalizeValue val mn mx invert =
     (if mx = mn then 50
      else let normalized = (val - mn) / (mx - mn) * 100
           in if invert then 100 - normalized else normalized)"

lemma normalizeValue_range:
  assumes "mn \<le> val" and "val \<le> mx"
  shows "0 \<le> normalizeValue val mn mx flip \<and> normalizeValue val mn mx flip \<le> 100"
proof (cases "mx = mn")
  case False
  with assms have "0 < mx - mn" by simp
  then obtain q where q: "q = (val - mn) / (mx - mn)" "0 \<le> q" "q \<le> 1" using assms by simp
  show ?thesis using False q(2,3) unfolding normalizeValue_def Let_def q(1) [symmetric] by simp
qed (simp add: normalizeValue_def)


lemma clamp_bin_less: "0 < n \<Longrightarrow> clamp_bin n i < n"
  by (auto simp: clamp_bin_def Let_def)

lemma bin_index_less: "0 < n \<Longrightarrow> bin_index mn w n x < n"
  by (simp add: bin_index_def clamp_bin_less)

lemma length_add_to_bin [simp]: "length (add_to_bin d i bins) = length bins"
  by (simp add: add_to_bin_def)

lemma add_to_bin_nth:
  "i < length bins \<Longrightarrow> add_to_bin d k bins ! i =
    (if k = i then (bins ! i)\<lparr>hb_count := hb_count (bins ! i) + 1,
        hb_byCategory := bump_category (category d) (hb_byCategory (bins ! i))\<rparr>
     else bins ! i)"
  by (cases "k = i") (simp_all add: add_to_bin_def)

lemma length_fold_bins [simp]: "length (fold (\<lambda>d. add_to_bin d (f d)) data bins) = length bins"
  by (induction data arbitrary: bins) simp_all

lemma fold_bins_nth:
  assumes "i < length bins"
  shows "hb_count (fold (\<lambda>d. add_to_bin d (f d)) data bins ! i) =
           hb_count (bins ! i) + length (filter (\<lambda>d. f d = i) data)"
    and "hb_byCategory (fold (\<lambda>d. add_to_bin d (f d)) data bins ! i) c =
           hb_byCategory (bins ! i) c + length (filter (\<lambda>d. f d = i \<and> category d = c) data)"
    and "hb_start (fold (\<lambda>d. add_to_bin d (f d)) data bins ! i) = hb_start (bins ! i)"
    and "hb_end (fold (\<lambda>d. add_to_bin d (f d)) data bins ! i) = hb_end (bins ! i)"
  using assms
  by (induction data arbitrary: bins)
    (simp_all add: add_to_bin_nth bump_category_def)

lemma sum_filter_partition:
  assumes "\<forall>d \<in> set data. f d \<in> A" and "finite A"
  shows "(\<Sum>a \<in> A. length (filter (\<lambda>d. f d = a) data)) = length data"
  using assms
proof (induction data)
  case (Cons d data)
  have "(\<Sum>a \<in> A. length (filter (\<lambda>x. f x = a) (d # data))) =
      (\<Sum>a \<in> A. (if f d = a then 1 else 0) + length (filter (\<lambda>x. f x = a) data))"
    by (rule sum.cong) auto
  also have "\<dots> = 1 + length data"
    using Cons by (simp add: sum.distrib)
  finally show ?case by simp
qed simp

lemma sum_list_nth_upto: "(\<Sum>x\<leftarrow>xs. g x) = (\<Sum>i<length xs. g (xs ! i))" for g :: "'a \<Rightarrow> nat"
  by (simp add: sum_list_sum_nth atLeast0LessThan)

lemma category_partition:
  "(\<Sum>c\<leftarrow>ALL_CATEGORIES. length (filter (\<lambda>d. P d \<and> category d = c) data)) =
   length (filter P data)"
  using sum_filter_partition [of "filter P data" category UNIV]
  by (simp add: sum_categories conj_commute)

text \<open>The value of an item lies in the interval of the bin it is counted in.\<close>

lemma bin_covers:
  assumes "mn < mx" and "mn \<le> x" and "x \<le> mx" and "0 < n"
  defines "w \<equiv> (mx - mn) / real n"
  shows "mn + real (bin_index mn w n x) * w \<le> x \<and> x \<le> mn + real (bin_index mn w n x + 1) * w"
proof -
  have w: "0 < w" using assms by (simp add: w_def)
  define q where "q = (x - mn) / w"
  have x: "x = mn + q * w" using w by (simp add: q_def)
  have q: "0 \<le> q" using assms w by (simp add: q_def)
  have "x - mn \<le> real n * w" using assms by (simp add: w_def)
  then have qn: "q \<le> real n" using w by (simp add: q_def pos_divide_le_eq)
  have i: "bin_index mn w n x = clamp_bin n \<lfloor>q\<rfloor>" by (simp add: bin_index_def q_def)
  have "real (bin_index mn w n x) \<le> q \<and> q \<le> real (bin_index mn w n x + 1)"
  proof (cases "\<lfloor>q\<rfloor> \<ge> int n")
    case True
    then have "q = real n" using qn by linarith
    then show ?thesis using \<open>0 < n\<close> by (simp add: i clamp_bin_def of_nat_diff)
  next
    case False
    then have "real (bin_index mn w n x) = real_of_int \<lfloor>q\<rfloor>" using q by (simp add: i clamp_bin_def)
    then show ?thesis using of_int_floor_le [of q] by linarith
  qed
  then have "real (bin_index mn w n x) * w \<le> q * w" "q * w \<le> real (bin_index mn w n x + 1) * w"
    using w by simp_all
  then show ?thesis unfolding x by simp
qed


lemma histogram_unfold:
  assumes "createHistogramBins data n = Returns bins" and "data \<noteq> []"
    and "Min (set (map throughput data)) \<noteq> Max (set (map throughput data))"
  defines "mn \<equiv> Min (set (map throughput data))" and "mx \<equiv> Max (set (map throughput data))"
  defines "w \<equiv> (mx - mn) / real n"
  shows "0 < n" and "length bins = n"
    and "i < n \<Longrightarrow> hb_count (bins ! i) =
      length (filter (\<lambda>d. bin_index mn w n (throughput d) = i) data)"
    and "i < n \<Longrightarrow> hb_byCategory (bins ! i) c =
      length (filter (\<lambda>d. bin_index mn w n (throughput d) = i \<and> category d = c) data)"
    and "i < n \<Longrightarrow> hb_start (bins ! i) = mn + real i * w"
    and "i < n \<Longrightarrow> hb_end (bins ! i) = mn + real (i + 1) * w"
proof -
  let ?init = "map (\<lambda>i. \<lparr>hb_start = mn + real i * w, hb_end = mn + real (i + 1) * w,
      hb_count = 0, hb_byCategory = emptyCategoryBreakdown\<rparr>) [0..<n]"
  have *: "0 < n \<and> bins = fold (\<lambda>d. add_to_bin d (bin_index mn w n (throughput d))) data ?init"
    using assms(1,2,3) unfolding mn_def mx_def w_def
    by (auto simp: createHistogramBins_def Let_def split: if_splits)
  then show "0 < n" and "length bins = n" by simp_all
  show "i < n \<Longrightarrow> hb_count (bins ! i) =
      length (filter (\<lambda>d. bin_index mn w n (throughput d) = i) data)"
    "i < n \<Longrightarrow> hb_byCategory (bins ! i) c =
      length (filter (\<lambda>d. bin_index mn w n (throughput d) = i \<and> category d = c) data)"
    "i < n \<Longrightarrow> hb_start (bins ! i) = mn + real i * w"
    "i < n \<Longrightarrow> hb_end (bins ! i) = mn + real (i + 1) * w"
    using * by (simp_all add: fold_bins_nth emptyCategoryBreakdown_def)
qed

lemma histogram_total:
  assumes "createHistogramBins data n = Returns bins"
  shows "(\<Sum>b\<leftarrow>bins. hb_count b) = length data"
    and "b \<in> set bins \<Longrightarrow> (\<Sum>c\<leftarrow>ALL_CATEGORIES. hb_byCategory b c) = hb_count b"
proof (atomize (full), cases "data = []")
  case True
  then have "bins = []" using assms by (simp add: createHistogramBins_def)
  with True show "(\<Sum>b\<leftarrow>bins. hb_count b) = length data \<and>
      (b \<in> set bins \<longrightarrow> (\<Sum>c\<leftarrow>ALL_CATEGORIES. hb_byCategory b c) = hb_count b)" by simp
next
  case ne: False
  show "(\<Sum>b\<leftarrow>bins. hb_count b) = length data \<and>
      (b \<in> set bins \<longrightarrow> (\<Sum>c\<leftarrow>ALL_CATEGORIES. hb_byCategory b c) = hb_count b)"
  proof (cases "Min (set (map throughput data)) = Max (set (map throughput data))")
    case True
    then show ?thesis
      using assms ne category_partition [of "\<lambda>_. True" data]
      by (auto simp: createHistogramBins_def Let_def countByCategory_eq)
  next
    case False
    note h = histogram_unfold [OF assms ne False]
    let ?f = "\<lambda>d. bin_index (Min (set (map throughput data)))
      ((Max (set (map throughput data)) - Min (set (map throughput data))) / real n) n (throughput d)"
    have "(\<Sum>b\<leftarrow>bins. hb_count b) = (\<Sum>i<n. length (filter (\<lambda>d. ?f d = i) data))"
      using h(2,3) by (simp add: sum_list_nth_upto)
    also have "\<dots> = length data"
      by (rule sum_filter_partition) (use h(1) in \<open>auto intro: bin_index_less\<close>)
    finally have total: "(\<Sum>b\<leftarrow>bins. hb_count b) = length data" .
    have "(\<Sum>c\<leftarrow>ALL_CATEGORIES. hb_byCategory b c) = hb_count b" if "b \<in> set bins"
    proof -
      from that obtain i where i: "i < n" "b = bins ! i"
        using h(2) by (auto simp: in_set_conv_nth)
      then show ?thesis using h(3,4) [of i] category_partition [of "\<lambda>d. ?f d = i" data] by simp
    qed
    with total show ?thesis by blast
  qed
qed


section \<open>Properties\<close>

definition sample_row :: "real \<Rightarrow> TestCategory \<Rightarrow> ProcessedTestData" where
  "sample_row x c = \<lparr>testName = [], testOrder = None, category = c, throughput = x,
     executionMs = 0, totalMs = 0, overheadMs = 0, stateReadMs = 0, stateHashMs = 0, commitMs = 0,
     accountCacheHitRate = 0, storageCacheHitRate = 0, codeCacheHitRate = None,
     accountCacheHits = 0, accountCacheMisses = 0, storageCacheHits = 0, storageCacheMisses = 0,
     codeCacheHits = None, codeCacheMisses = None, gasUsed = 0, txCount = 0,
     normalizedThroughput = 0, normalizedSpeed = 0, normalizedLowOverhead = 0,
     normalizedAccountCache = 0, normalizedCodeCache = 0\<rparr>"

text \<open>Percentiles of a sample are ordered by their percentage and lie between the smallest
  and the largest value.\<close>

theorem percentile_order:
  assumes "values \<noteq> []" and "p \<le> q" and "q \<le> 100"
  shows "percentile (num_sort values) p \<le> percentile (num_sort values) q \<and>
    Min (set values) \<le> percentile (num_sort values) p \<and>
    percentile (num_sort values) q \<le> Max (set values)"
proof -
  let ?s = "num_sort values"
  have s: "sorted ?s" by (simp add: num_sort_eq)
  have ne: "?s \<noteq> []" using assms(1) by simp
  have "hd ?s = Min (set values)" "last ?s = Max (set values)"
    using hd_sorted [OF s ne] last_sorted [OF s ne] by simp_all
  then show ?thesis
    using assms percentile_mono [OF s] percentile_range [OF s ne] by (metis le_trans)
qed


theorem percentile_order_witness:
  "percentile (num_sort [5, 1, 9, 3]) 25 \<le> percentile (num_sort [5, 1, 9, 3]) 75 \<and>
    Min (set [5, 1, 9, 3]) \<le> percentile (num_sort [5, 1, 9, 3]) 25 \<and>
    percentile (num_sort [5, 1, 9, 3]) 75 \<le> Max (set [5, 1, 9, 3])"
  by (rule percentile_order) simp_all

text \<open>The outlier count the dashboard displays is the number of rows that excluding
  outliers removes: the count and the rows kept add up to all rows.\<close>

theorem outlier_count_agrees:
  "countOutliers data getValue + length (exclude_outliers data getValue) = length data"
  by (rule count_plus_excluded)

text \<open>Every box of the box plot has ordered quartiles, within the range of the category's
  throughputs, and its outliers are exactly the category's values outside the whiskers' fences.\<close>

theorem box_plot_sound:
  assumes "b \<in> set (calculateBoxPlotStats data)"
  defines "vs \<equiv> map throughput (filter (\<lambda>d. category d = bp_category b) data)"
  shows "bp_q1 b \<le> bp_median b \<and> bp_median b \<le> bp_q3 b \<and>
    Min (set vs) \<le> bp_q1 b \<and> bp_q3 b \<le> Max (set vs) \<and>
    mset (bp_outliers b) =
      {# v \<in># mset vs. v < bp_q1 b - 3/2 * (bp_q3 b - bp_q1 b) \<or>
                        v > bp_q3 b + 3/2 * (bp_q3 b - bp_q1 b) #}"
proof -
  obtain cat where ne: "filter (\<lambda>d. category d = cat) data \<noteq> []"
    and b: "b = box_of cat (num_sort (map throughput (filter (\<lambda>d. category d = cat) data)))"
    using assms(1) by (auto simp: calculateBoxPlotStats_def Let_def split: if_splits)
  have vs: "vs = map throughput (filter (\<lambda>d. category d = cat) data)"
    by (simp add: vs_def b box_of_def Let_def)
  then have b': "b = box_of cat (num_sort vs)" and "vs \<noteq> []" using b ne by simp_all
  have s: "sorted (num_sort vs)" by (simp add: num_sort_eq)
  have ne': "num_sort vs \<noteq> []" using \<open>vs \<noteq> []\<close> by simp
  have r: "Min (set vs) \<le> percentile (num_sort vs) 25" "percentile (num_sort vs) 75 \<le> Max (set vs)"
    using percentile_range [OF s ne', of 25] percentile_range [OF s ne', of 75]
      hd_sorted [OF s ne'] last_sorted [OF s ne'] by simp_all
  have "percentile (num_sort vs) 25 \<le> percentile (num_sort vs) 50"
    "percentile (num_sort vs) 50 \<le> percentile (num_sort vs) 75"
    by (rule percentile_mono [OF s]; simp)+
  with r show ?thesis unfolding b' box_of_def Let_def by simp
qed

theorem box_plot_sound_witness:
  "\<exists>b \<in> set (calculateBoxPlotStats [sample_row 3 Memory, sample_row 5 Memory]).
     bp_q1 b \<le> bp_median b \<and> bp_median b \<le> bp_q3 b"
proof
  let ?d = "[sample_row 3 Memory, sample_row 5 Memory]"
  let ?b = "box_of Memory [3, 5]"
  show b: "?b \<in> set (calculateBoxPlotStats ?d)"
    by (simp add: calculateBoxPlotStats_def ALL_CATEGORIES_def sample_row_def key_cmp_def)
  show "bp_q1 ?b \<le> bp_median ?b \<and> bp_median ?b \<le> bp_q3 ?b"
    using box_plot_sound [OF b] by blast
qed

text \<open>The histogram loses nothing: the counts of its bins add up to the number of tests, and
  in every bin the counts per category add up to the count of the bin.\<close>

theorem histogram_complete:
  assumes "0 < binCount"
  shows "\<exists>bins. createHistogramBins data binCount = Returns bins \<and>
    (\<Sum>b\<leftarrow>bins. hb_count b) = length data \<and>
    (\<forall>b \<in> set bins. (\<Sum>c\<leftarrow>ALL_CATEGORIES. hb_byCategory b c) = hb_count b)"
proof -
  have "createHistogramBins data binCount \<noteq> Throws"
    using assms by (auto simp: createHistogramBins_def Let_def split: if_splits)
  then obtain bins where "createHistogramBins data binCount = Returns bins"
    by (meson throws.exhaust)
  with histogram_total [OF this] show ?thesis by blast
qed

theorem histogram_complete_witness:
  "\<exists>bins. createHistogramBins [sample_row 3 Memory, sample_row 5 Bls] 2 = Returns bins \<and>
    (\<Sum>b\<leftarrow>bins. hb_count b) = 2"
  using histogram_complete [of 2 "[sample_row 3 Memory, sample_row 5 Bls]"] by auto

text \<open>Every test is counted in a bin that covers its throughput: bin \<open>i\<close> counts the tests
  whose index is \<open>i\<close>, and their throughput lies between its start and its end.\<close>

theorem histogram_bins_cover:
  assumes "createHistogramBins data binCount = Returns bins"
    and "d \<in> set data"
    and "Min (set (map throughput data)) < Max (set (map throughput data))"
  defines "mn \<equiv> Min (set (map throughput data))"
  defines "w \<equiv> (Max (set (map throughput data)) - mn) / real binCount"
  shows "bin_index mn w binCount (throughput d) < length bins \<and>
    hb_start (bins ! bin_index mn w binCount (throughput d)) \<le> throughput d \<and>
    throughput d \<le> hb_end (bins ! bin_index mn w binCount (throughput d)) \<and>
    hb_count (bins ! bin_index mn w binCount (throughput d)) =
      length (filter (\<lambda>x. bin_index mn w binCount (throughput x) =
                          bin_index mn w binCount (throughput d)) data)"
proof -
  have ne: "data \<noteq> []" using assms(2) by auto
  have neq: "Min (set (map throughput data)) \<noteq> Max (set (map throughput data))"
    using assms(3) by simp
  note h = histogram_unfold [OF assms(1) ne neq, folded mn_def, folded w_def]
  have i: "bin_index mn w binCount (throughput d) < binCount" using h(1) by (rule bin_index_less)
  have "mn \<le> throughput d" "throughput d \<le> Max (set (map throughput data))"
    unfolding mn_def using assms(2) by auto
  then have "mn + real (bin_index mn w binCount (throughput d)) * w \<le> throughput d \<and>
      throughput d \<le> mn + real (bin_index mn w binCount (throughput d) + 1) * w"
    unfolding w_def using assms(3) h(1) by (intro bin_covers) (simp_all add: mn_def)
  then show ?thesis using h i by simp
qed

theorem histogram_bins_cover_witness:
  "\<exists>bins. createHistogramBins [sample_row 3 Memory, sample_row 5 Bls] 2 = Returns bins \<and>
    bin_index 3 1 2 5 < length bins \<and> 5 \<le> hb_end (bins ! bin_index 3 1 2 5)"
proof -
  let ?d = "[sample_row 3 Memory, sample_row 5 Bls]"
  obtain bins where b: "createHistogramBins ?d 2 = Returns bins"
    by (simp add: createHistogramBins_def sample_row_def Let_def)
  show ?thesis
    using histogram_bins_cover [OF b, of "sample_row 5 Bls"] b by (simp add: sample_row_def)
qed

end
