(* ===== verification/Color_Scale.thy ===== *)
theory Color_Scale
  imports Perf_Threshold Stats
begin

text \<open>
  The colour scale of the run heatmaps on the suite page, \<open>ui/src/utils/runColorScale.ts\<close>: a
  run is graded by its shortfall against the robust best of the set.
\<close>

section \<open>The scale\<close>

definition LEVELS :: nat where "LEVELS = length THRESHOLD_COLORS"
definition NEUTRAL_COLOR :: string where "NEUTRAL_COLOR = THRESHOLD_COLORS ! (LEVELS div 2)"
definition MIN_DROP :: real where "MIN_DROP = 15 / 100"

lemma LEVELS_eq [simp]: "LEVELS = 10"
  by (simp add: LEVELS_def)

record ColorScale =
  cs_color :: "real \<Rightarrow> string"
  cs_top :: real
  cs_step :: real
  cs_hasData :: bool

definition EMPTY_SCALE :: ColorScale where
  "EMPTY_SCALE = \<lparr>cs_color = (\<lambda>_. NEUTRAL_COLOR), cs_top = 0,
     cs_step = MIN_DROP / real LEVELS, cs_hasData = False\<rparr>"

text \<open>Reading past the end of the list yields \<open>undefined\<close>, here \<open>None\<close>.\<close>

definition calculatePercentile :: "real list \<Rightarrow> nat \<Rightarrow> real option" where
  "calculatePercentile sortedValues p =
     (if sortedValues = [] then Some 0
      else let index = real p / 100 * (real (length sortedValues) - 1);
               lower = nat \<lfloor>index\<rfloor>;
               upper = nat \<lceil>index\<rceil>
           in if length sortedValues \<le> upper then None
              else if lower = upper then Some (sortedValues ! lower)
              else Some (sortedValues ! lower +
                         (sortedValues ! upper - sortedValues ! lower) * (index - real lower)))"

definition shade :: "real \<Rightarrow> real \<Rightarrow> string" where
  "shade shortfall step =
     (if shortfall \<le> 0 then THRESHOLD_COLORS ! 0
      else THRESHOLD_COLORS ! min (LEVELS - 1) (nat \<lfloor>shortfall / step\<rfloor>))"

definition createColorScale :: "real list \<Rightarrow> bool \<Rightarrow> ColorScale" where
  "createColorScale values higherIsBetter =
     (let usable = filter (\<lambda>v. v > 0) values
      in if usable = [] then EMPTY_SCALE
         else let sorted = num_sort usable;
                  top = the (calculatePercentile sorted (if higherIsBetter then 90 else 10));
                  low = the (calculatePercentile sorted (if higherIsBetter then 10 else 90))
              in if top \<le> 0 then EMPTY_SCALE
                 else let step = max MIN_DROP (\<bar>low - top\<bar> / top) / real LEVELS
                      in \<lparr>cs_color = (\<lambda>v. shade (if higherIsBetter then (top - v) / top
                                                else (v - top) / top) step),
                          cs_top = top, cs_step = step, cs_hasData = True\<rparr>)"

definition formatShortfall :: "real \<Rightarrow> string" where
  "formatShortfall fraction =
     (let percent = fraction * 100
      in (if percent < 10 then toFixed 1 percent else toFixed 0 percent) @ ''%'')"

text \<open>
  A shortfall band: \<open>Within t\<close> for \<open>within t of best\<close>, \<open>Over f\<close> for \<open>over f off\<close>, \<open>FromTo f t\<close>
  for the text with the dash U+2013.
\<close>

datatype band = Within string | Over string | FromTo string string

definition formatShortfallBand :: "nat \<Rightarrow> real \<Rightarrow> band" where
  "formatShortfallBand step stepWidth =
     (let from = real step * stepWidth; to = (real step + 1) * stepWidth
      in if step = 0 then Within (formatShortfall to)
         else if step = LEVELS - 1 then Over (formatShortfall from)
         else FromTo (formatShortfall from) (formatShortfall to))"

text \<open>The legend of an MGas/s scale: the throughput a step covers, when there is data, and its band.\<close>

definition formatMgasStepRange :: "ColorScale \<Rightarrow> nat \<Rightarrow> step_range option \<times> band" where
  "formatMgasStepRange scale step =
     (let bnd = formatShortfallBand step (if cs_hasData scale then cs_step scale
                                          else MIN_DROP / real LEVELS)
      in if \<not> cs_hasData scale then (None, bnd)
         else let top = cs_top scale;
                  from = real step * cs_step scale;
                  to = (real step + 1) * cs_step scale
              in (Some (if step = 0 then AtLeast (toFixed 1 (top * (1 - to)))
                        else if step = LEVELS - 1 then Below (toFixed 1 (max 0 (top * (1 - from))))
                        else Between (toFixed 1 (max 0 (top * (1 - to))))
                                     (toFixed 1 (top * (1 - from)))), bnd))"


section \<open>Lemmas\<close>

lemma calculatePercentile_eq:
  assumes "xs \<noteq> []" and "p \<le> 100"
  shows "calculatePercentile xs p = Some (percentile xs p)"
proof -
  let ?t = "rank_pos xs p"
  have t: "0 \<le> ?t" "?t \<le> real (length xs) - 1" using rank_pos_range [OF assms] by simp_all
  then have "\<lceil>?t\<rceil> \<le> int (length xs) - 1" by linarith
  then have up: "\<not> length xs \<le> nat \<lceil>?t\<rceil>" using assms(1) by (cases xs) auto
  have "nat \<lfloor>?t\<rfloor> = nat \<lceil>?t\<rceil> \<Longrightarrow> interp xs ?t = xs ! nat \<lfloor>?t\<rfloor>"
    by (simp add: interp_def)
  then show ?thesis
    unfolding calculatePercentile_def rank_pos_def [symmetric] Let_def percentile_interp [OF assms]
    using assms(1) up by (auto simp: interp_def)
qed

lemma shade_rank:
  "color_rank (shade s w) = (if s \<le> 0 then 0 else min 9 (nat \<lfloor>s / w\<rfloor>))"
proof -
  have "color_rank (THRESHOLD_COLORS ! i) = i" if "i < 10" for i
    unfolding color_rank_def using that by (intro takeWhile_neq_nth colors_distinct) simp
  then show ?thesis by (simp add: shade_def min_def)
qed

lemma shade_mono: "0 < w \<Longrightarrow> s \<le> t \<Longrightarrow> color_rank (shade s w) \<le> color_rank (shade t w)"
proof -
  assume "0 < w" "s \<le> t"
  then have "nat \<lfloor>s / w\<rfloor> \<le> nat \<lfloor>t / w\<rfloor>" by (intro nat_mono floor_mono divide_right_mono) auto
  then have "min 9 (nat \<lfloor>s / w\<rfloor>) \<le> min 9 (nat \<lfloor>t / w\<rfloor>)" by (intro min.mono) auto
  then show ?thesis using \<open>s \<le> t\<close> by (simp add: shade_rank)
qed

text \<open>What a scale with data is made of.\<close>

lemma positive_nonempty:
  assumes "\<exists>v \<in> set values. (0 :: real) < v"
  shows "filter (\<lambda>v. 0 < v) values \<noteq> []" and "sort (filter (\<lambda>v. 0 < v) values) \<noteq> []"
proof -
  show *: "filter (\<lambda>v. 0 < v) values \<noteq> []" using assms by (auto simp: filter_empty_conv)
  show "sort (filter (\<lambda>v. 0 < v) values) \<noteq> []" by (metis * length_0_conv length_sort)
qed

lemma percentile_pos:
  assumes "\<exists>v \<in> set values. 0 < v" and "p \<le> 100"
  shows "0 < percentile (sort (filter (\<lambda>v. 0 < v) values)) p"
proof -
  let ?s = "sort (filter (\<lambda>v. 0 < v) values)"
  have ne: "?s \<noteq> []" using positive_nonempty [OF assms(1)] by simp
  then have "hd ?s \<in> set ?s" by (rule hd_in_set)
  then have "0 < hd ?s" by simp
  also have "\<dots> \<le> percentile ?s p" using ne assms(2) by (intro percentile_range) auto
  finally show ?thesis .
qed

definition scale_best :: "real list \<Rightarrow> bool \<Rightarrow> real" where
  "scale_best values hib =
     percentile (sort (filter (\<lambda>v. 0 < v) values)) (if hib then 90 else 10)"

definition scale_worst :: "real list \<Rightarrow> bool \<Rightarrow> real" where
  "scale_worst values hib = scale_best values (\<not> hib)"

definition scale_step :: "real list \<Rightarrow> bool \<Rightarrow> real" where
  "scale_step values hib =
     max MIN_DROP (\<bar>scale_worst values hib - scale_best values hib\<bar> / scale_best values hib) / 10"

definition shortfall :: "real list \<Rightarrow> bool \<Rightarrow> real \<Rightarrow> real" where
  "shortfall values hib v =
     (if hib then (scale_best values hib - v) / scale_best values hib
      else (v - scale_best values hib) / scale_best values hib)"

lemma scale_unfold:
  assumes "\<exists>v \<in> set values. 0 < v"
  shows "createColorScale values hib =
      \<lparr>cs_color = (\<lambda>v. shade (shortfall values hib v) (scale_step values hib)),
       cs_top = scale_best values hib, cs_step = scale_step values hib, cs_hasData = True\<rparr>" (is ?A)
    and "0 < scale_best values hib" and "0 < scale_step values hib"
    and "hib \<Longrightarrow> scale_worst values hib \<le> scale_best values hib"
    and "\<not> hib \<Longrightarrow> scale_best values hib \<le> scale_worst values hib"
proof -
  let ?s = "sort (filter (\<lambda>v. 0 < v) values)"
  note ne = positive_nonempty [OF assms(1)]
  show best: "0 < scale_best values hib" using assms(1) by (simp add: scale_best_def percentile_pos)
  show "0 < scale_step values hib" by (simp add: scale_step_def MIN_DROP_def less_max_iff_disj)
  show "hib \<Longrightarrow> scale_worst values hib \<le> scale_best values hib"
    "\<not> hib \<Longrightarrow> scale_best values hib \<le> scale_worst values hib"
    unfolding scale_best_def scale_worst_def using percentile_mono [of ?s 10 90] by simp_all
  have eqs: "the (calculatePercentile ?s (if hib then 90 else 10)) = scale_best values hib"
    "the (calculatePercentile ?s (if hib then 10 else 90)) = scale_worst values hib"
    using ne by (simp_all add: calculatePercentile_eq scale_best_def scale_worst_def)
  show ?A
    unfolding createColorScale_def num_sort_eq Let_def eqs
    using ne(1) best by (simp add: scale_step_def shortfall_def)
qed

lemma shade_worst:
  assumes "\<exists>v \<in> set values. 0 < v"
    and "MIN_DROP \<le> \<bar>scale_worst values hib - scale_best values hib\<bar> / scale_best values hib"
  shows "shade (shortfall values hib (scale_worst values hib)) (scale_step values hib) =
    THRESHOLD_COLORS ! (LEVELS - 1)"
proof -
  note sc = scale_unfold [OF assms(1), of hib]
  define q where "q = \<bar>scale_worst values hib - scale_best values hib\<bar> / scale_best values hib"
  have "shortfall values hib (scale_worst values hib) = q"
    using sc(2,4,5) by (simp add: shortfall_def q_def)
  moreover have "scale_step values hib = q / 10" using assms(2) by (simp add: scale_step_def q_def)
  moreover have "0 < q" using assms(2) unfolding MIN_DROP_def q_def [symmetric] by linarith
  moreover have "shade q (q / 10) = THRESHOLD_COLORS ! (LEVELS - 1)"
  proof -
    have r: "q / (q / 10) = 10" using \<open>0 < q\<close> by simp
    show ?thesis unfolding shade_def r using \<open>0 < q\<close> by simp
  qed
  ultimately show ?thesis by (simp only:)
qed

lemma shade_close:
  assumes "\<exists>v \<in> set values. 0 < v"
    and "\<bar>v - scale_best values hib\<bar> / scale_best values hib < MIN_DROP / 10"
  shows "shade (shortfall values hib v) (scale_step values hib) = THRESHOLD_COLORS ! 0"
proof -
  note sc = scale_unfold [OF assms(1), of hib]
  have "shortfall values hib v \<le> \<bar>v - scale_best values hib\<bar> / scale_best values hib"
    using sc(2) by (auto simp: shortfall_def intro!: divide_right_mono)
  also have "\<dots> < scale_step values hib" using assms(2) by (auto simp: scale_step_def)
  finally have "shortfall values hib v / scale_step values hib < 1" using sc(3) by simp
  then have "nat \<lfloor>shortfall values hib v / scale_step values hib\<rfloor> = 0"
    by (simp add: floor_less_iff)
  then show ?thesis by (simp add: shade_def)
qed


section \<open>Properties\<close>

text \<open>The two percentile routines of the UI, the one of the run colour scale and the one of
  the block-log dashboard, agree on every sample and every percentage up to 100.\<close>

theorem percentile_routines_agree:
  assumes "p \<le> 100"
  shows "calculatePercentile xs p = Some (percentile xs p)"
  using assms calculatePercentile_eq [of xs p]
  by (cases "xs = []") (simp_all add: calculatePercentile_def percentile_def)

theorem percentile_routines_agree_witness:
  "calculatePercentile [1, 2, 4] 75 = Some 3 \<and> percentile [1, 2, 4] 75 = 3"
  using percentile_routines_agree [of 75 "[1, 2, 4]"]
  by (simp add: percentile_def Let_def floor_eq_iff)

text \<open>On a set of runs with at least one finished run the colour scale is sound. The best
  value takes the first colour, a value that is no better never takes a better colour, and the
  spread decides how much of the scale is used: a set that spreads at least 15% takes the last
  colour at its worst end, and a value within 1.5% of the best takes the first colour.\<close>

theorem color_scale_sound:
  assumes "\<exists>v \<in> set values. 0 < v" and "sc = createColorScale values hib"
  shows "cs_color sc (cs_top sc) = THRESHOLD_COLORS ! 0 \<and>
    (\<forall>v w. at_least_as_good (if hib then Mgas else Duration) v w \<longrightarrow>
      color_rank (cs_color sc v) \<le> color_rank (cs_color sc w)) \<and>
    (MIN_DROP \<le> \<bar>scale_worst values hib - cs_top sc\<bar> / cs_top sc \<longrightarrow>
      cs_color sc (scale_worst values hib) = THRESHOLD_COLORS ! (LEVELS - 1)) \<and>
    (\<forall>v. \<bar>v - cs_top sc\<bar> / cs_top sc < MIN_DROP / 10 \<longrightarrow> cs_color sc v = THRESHOLD_COLORS ! 0)"
proof -
  note sc = scale_unfold [OF assms(1), of hib]
  have eqs: "cs_color sc v = shade (shortfall values hib v) (scale_step values hib)"
    "cs_top sc = scale_best values hib" for v
    using assms(2) sc(1) by simp_all
  have "color_rank (cs_color sc v) \<le> color_rank (cs_color sc w)"
    if "at_least_as_good (if hib then Mgas else Duration) v w" for v w
    unfolding eqs using sc(2,3) that
    by (intro shade_mono) (auto simp: shortfall_def at_least_as_good_def divide_right_mono split: if_splits)
  moreover have "cs_color sc (scale_worst values hib) = THRESHOLD_COLORS ! (LEVELS - 1)"
    if "MIN_DROP \<le> \<bar>scale_worst values hib - cs_top sc\<bar> / cs_top sc"
    using that unfolding eqs by (rule shade_worst [OF assms(1)])
  moreover have "cs_color sc v = THRESHOLD_COLORS ! 0"
    if "\<bar>v - cs_top sc\<bar> / cs_top sc < MIN_DROP / 10" for v
    using that unfolding eqs by (rule shade_close [OF assms(1)])
  ultimately show ?thesis by (simp add: eqs shade_def shortfall_def)
qed

theorem color_scale_sound_witness:
  "cs_color (createColorScale [100, 0, 50] True) (cs_top (createColorScale [100, 0, 50] True)) =
    THRESHOLD_COLORS ! 0"
  using color_scale_sound [OF _ refl, of "[100, 0, 50]" True] by simp

text \<open>Runs without a result do not influence the scale: values that are not positive are
  ignored, and the order of the runs is irrelevant.\<close>

theorem color_scale_ignores_unfinished:
  assumes "mset (filter (\<lambda>v. 0 < v) values) = mset (filter (\<lambda>v. 0 < v) values')"
  shows "createColorScale values hib = createColorScale values' hib"
proof -
  have "filter (\<lambda>v. 0 < v) values = [] \<longleftrightarrow> filter (\<lambda>v. 0 < v) values' = []"
    using assms by (metis mset_zero_iff)
  moreover have "sort (filter (\<lambda>v. 0 < v) values) = sort (filter (\<lambda>v. 0 < v) values')"
    using assms by (simp add: properties_for_sort)
  ultimately show ?thesis by (simp add: createColorScale_def num_sort_eq)
qed

theorem color_scale_ignores_unfinished_witness:
  "createColorScale [0, 100, -1, 50] True = createColorScale [50, 100] True"
  by (rule color_scale_ignores_unfinished) simp

end
