(* ===== verification/Js_Uri.thy ===== *)
theory Js_Uri
  imports Js_Text
begin

text \<open>
  Percent encoding (\<open>encodeURIComponent\<close>, \<open>decodeURIComponent\<close>, the form encoding of
  \<open>URLSearchParams\<close>) with its round trip, and plain objects with the key order of
  \<open>Object.entries\<close>.
\<close>

section \<open>Errors\<close>

text \<open>
  What an operation of the program can throw. \<open>WideChar\<close> marks an input outside the model:
  percent-encoded bytes that announce a code point above U+00FF.
\<close>

datatype js_error = URIError | WideChar | TypeError | SyntaxError | Thrown string


section \<open>Percent encoding\<close>

definition unreserved :: "char \<Rightarrow> bool" where
  "unreserved c \<longleftrightarrow>
     is_digit c \<or> (65 \<le> code c \<and> code c \<le> 90) \<or> (97 \<le> code c \<and> code c \<le> 122) \<or>
     code c \<in> {45, 95, 46, 33, 126, 42, 39, 40, 41}"

definition hex_digit :: "nat \<Rightarrow> char" where
  "hex_digit n = char_of (if n < 10 then 48 + n else 55 + n)"

definition pct :: "nat \<Rightarrow> string" where
  "pct b = [CHR ''%'', hex_digit (b div 16), hex_digit (b mod 16)]"

text \<open>The UTF-8 bytes of a code point below U+0100.\<close>

definition utf8 :: "char \<Rightarrow> nat list" where
  "utf8 c = (let n = code c in if n < 128 then [n] else [192 + n div 64, 128 + n mod 64])"

definition enc_char :: "char \<Rightarrow> string" where
  "enc_char c = (if unreserved c then [c] else concat (map pct (utf8 c)))"

definition encodeURIComponent :: "string \<Rightarrow> string" where
  "encodeURIComponent s = concat (map enc_char s)"

fun cons_result :: "char \<Rightarrow> js_error + string \<Rightarrow> js_error + string" where
  "cons_result c (Inl e) = Inl e"
| "cons_result c (Inr s) = Inr (c # s)"

definition hex2 :: "char \<Rightarrow> char \<Rightarrow> nat option" where
  "hex2 h l =
     (case hex_val h of None \<Rightarrow> None
      | Some a \<Rightarrow> (case hex_val l of None \<Rightarrow> None | Some b \<Rightarrow> Some (16 * a + b)))"

fun decodeURIComponent :: "string \<Rightarrow> js_error + string" where
  "decodeURIComponent [] = Inr []"
| "decodeURIComponent (c # cs) =
     (if c \<noteq> CHR ''%'' then cons_result c (decodeURIComponent cs)
      else case cs of
        h # l # r \<Rightarrow>
          (case hex2 h l of
             None \<Rightarrow> Inl URIError
           | Some b \<Rightarrow>
               if b < 128 then cons_result (char_of b) (decodeURIComponent r)
               else if b = 194 \<or> b = 195 then
                 (case r of
                    p # h2 # l2 # r2 \<Rightarrow>
                      (if p \<noteq> CHR ''%'' then Inl URIError
                       else case hex2 h2 l2 of
                         None \<Rightarrow> Inl URIError
                       | Some b2 \<Rightarrow>
                           if 128 \<le> b2 \<and> b2 < 192
                           then cons_result (char_of ((b - 192) * 64 + (b2 - 128)))
                                  (decodeURIComponent r2)
                           else Inl URIError)
                  | _ \<Rightarrow> Inl URIError)
               else if 196 \<le> b \<and> b \<le> 244 then Inl WideChar
               else Inl URIError)
      | _ \<Rightarrow> Inl URIError)"

lemma hex_val_digit: "n < 16 \<Longrightarrow> hex_val (hex_digit n) = Some n"
  by (auto simp: hex_val_def hex_digit_def is_digit_def)

lemma hex2_pct: "b < 256 \<Longrightarrow> hex2 (hex_digit (b div 16)) (hex_digit (b mod 16)) = Some b"
  by (simp add: hex2_def hex_val_digit)

lemma unreserved_not_pct: "unreserved c \<Longrightarrow> c \<noteq> CHR ''%''"
  by (auto simp: unreserved_def is_digit_def)

lemma decode_two:
  assumes "q = 2 \<or> q = 3" and "m < 64"
  shows "decodeURIComponent (pct (192 + q) @ pct (128 + m) @ s) =
    cons_result (char_of (q * 64 + m)) (decodeURIComponent s)"
  using assms hex2_pct [of 194] hex2_pct [of 195] hex2_pct [of "128 + m"]
  by (auto simp: pct_def)

lemma decode_utf8_char:
  "decodeURIComponent (concat (map pct (utf8 c)) @ s) = cons_result c (decodeURIComponent s)"
proof (cases "code c < 128")
  case True
  then show ?thesis by (simp add: utf8_def pct_def hex2_pct)
next
  case big: False
  define q where "q = code c div 64"
  define m where "m = code c mod 64"
  have c: "code c = 64 * q + m" by (simp add: q_def m_def)
  have "code c < 256" by (rule code_bound)
  with big have q: "q = 2 \<or> q = 3" unfolding q_def by linarith
  have m: "m < 64" by (simp add: m_def)
  have "char_of (q * 64 + m) = c" using c by (metis char_of_char mult.commute)
  moreover have "concat (map pct (utf8 c)) = pct (192 + q) @ pct (128 + m)"
    using big by (simp add: utf8_def q_def m_def Let_def)
  ultimately show ?thesis using q m by (simp add: decode_two)
qed

lemma decode_enc_char:
  "decodeURIComponent (enc_char c @ s) = cons_result c (decodeURIComponent s)"
  by (cases "unreserved c") (simp_all add: enc_char_def unreserved_not_pct decode_utf8_char)

lemma decode_encode [simp]: "decodeURIComponent (encodeURIComponent s) = Inr s"
  by (induction s) (simp_all add: encodeURIComponent_def decode_enc_char)

lemma hex_digit_unreserved: "n < 16 \<Longrightarrow> unreserved (hex_digit n)"
  by (auto simp: hex_digit_def unreserved_def is_digit_def)

lemma set_utf8_pct: "x \<in> set (concat (map pct (utf8 c))) \<Longrightarrow> unreserved x \<or> x = CHR ''%''"
proof -
  have "code c div 64 < 4" using code_bound [of c] by (simp add: less_mult_imp_div_less)
  then have utf8_byte: "b \<in> set (utf8 c) \<Longrightarrow> b < 256" for b
    by (auto simp: utf8_def Let_def split: if_splits)
  have "b < 256 \<Longrightarrow> x \<in> set (pct b) \<Longrightarrow> unreserved x \<or> x = CHR ''%''" for b
    using less_mult_imp_div_less [of b 16 16] by (auto simp: pct_def hex_digit_unreserved)
  with utf8_byte show "x \<in> set (concat (map pct (utf8 c))) \<Longrightarrow> unreserved x \<or> x = CHR ''%''" by fastforce
qed

lemma set_encode: "c \<in> set (encodeURIComponent s) \<Longrightarrow> unreserved c \<or> c = CHR ''%''"
proof -
  have "x \<in> set (enc_char d) \<Longrightarrow> unreserved x \<or> x = CHR ''%''" for x d
    using set_utf8_pct by (cases "unreserved d") (auto simp: enc_char_def)
  then show "c \<in> set (encodeURIComponent s) \<Longrightarrow> unreserved c \<or> c = CHR ''%''"
    by (auto simp: encodeURIComponent_def)
qed

lemma encode_Nil_iff [simp]: "encodeURIComponent s = [] \<longleftrightarrow> s = []"
  by (cases s) (auto simp: encodeURIComponent_def enc_char_def utf8_def pct_def Let_def)

lemma encode_without: "\<not> unreserved c \<Longrightarrow> c \<noteq> CHR ''%'' \<Longrightarrow> c \<notin> set (encodeURIComponent s)"
  using set_encode by blast

lemma encode_free [simp]:
  "CHR '','' \<notin> set (encodeURIComponent s)" "CHR '':'' \<notin> set (encodeURIComponent s)"
  "CHR ''|'' \<notin> set (encodeURIComponent s)"
  by (rule encode_without; simp add: unreserved_def is_digit_def)+

text \<open>Mapping the decoder over a list: the first failure is thrown.\<close>

fun map_result :: "('a \<Rightarrow> 'e + 'b) \<Rightarrow> 'a list \<Rightarrow> 'e + 'b list" where
  "map_result f [] = Inr []"
| "map_result f (x # xs) =
     (case f x of Inl e \<Rightarrow> Inl e
      | Inr y \<Rightarrow> (case map_result f xs of Inl e \<Rightarrow> Inl e | Inr ys \<Rightarrow> Inr (y # ys)))"

lemma map_result_decode [simp]:
  "map_result decodeURIComponent (map encodeURIComponent xs) = Inr xs"
  by (induction xs) auto

text \<open>The serialisation of \<open>URLSearchParams\<close>.\<close>

definition form_char :: "char \<Rightarrow> string" where
  "form_char c =
     (if c = CHR '' '' then ''+''
      else if is_digit c \<or> (65 \<le> code c \<and> code c \<le> 90) \<or> (97 \<le> code c \<and> code c \<le> 122) \<or>
              code c \<in> {42, 45, 46, 95} then [c]
      else concat (map pct (utf8 c)))"

definition form_encode :: "string \<Rightarrow> string" where
  "form_encode s = concat (map form_char s)"

definition search_params_str :: "(string \<times> string) list \<Rightarrow> string" where
  "search_params_str ps = join ''&'' (map (\<lambda>(k, v). form_encode k @ ''='' @ form_encode v) ps)"

text \<open>The parser of \<open>URLSearchParams\<close>: pairs joined by ampersands, a plus for a space.\<close>

definition plus_space :: "char \<Rightarrow> char" where
  "plus_space c = (if c = CHR ''+'' then CHR '' '' else c)"

definition form_decode :: "string \<Rightarrow> js_error + string" where
  "form_decode s = decodeURIComponent (map plus_space s)"

definition form_pair :: "string \<Rightarrow> js_error + string \<times> string" where
  "form_pair s =
     (let i = (case index_of CHR ''='' s of None \<Rightarrow> length s | Some i \<Rightarrow> i)
      in case form_decode (take i s) of
           Inl e \<Rightarrow> Inl e
         | Inr k \<Rightarrow> (case form_decode (drop (i + 1) s) of Inl e \<Rightarrow> Inl e | Inr v \<Rightarrow> Inr (k, v)))"

definition form_parse :: "string \<Rightarrow> js_error + (string \<times> string) list" where
  "form_parse qs = map_result form_pair (filter (\<lambda>s. s \<noteq> []) (split_on CHR ''&'' qs))"

lemma map_result_all: "\<forall>x \<in> set xs. f (g x) = Inr (h x) \<Longrightarrow> map_result f (map g xs) = Inr (map h xs)"
  by (induction xs) auto

lemma form_char_cases:
  "c = CHR '' '' \<and> form_char c = ''+'' \<or>
   c \<notin> {CHR ''+'', CHR ''%'', CHR ''&'', CHR ''=''} \<and> form_char c = [c] \<or>
   form_char c = concat (map pct (utf8 c))"
  by (auto simp: form_char_def is_digit_def)

lemma utf8_pct_plain:
  "map plus_space (concat (map pct (utf8 c))) = concat (map pct (utf8 c))"
  "CHR ''&'' \<notin> set (concat (map pct (utf8 c)))" "CHR ''='' \<notin> set (concat (map pct (utf8 c)))"
proof -
  have "x \<noteq> CHR ''+'' \<and> x \<noteq> CHR ''&'' \<and> x \<noteq> CHR ''=''" if "x \<in> set (concat (map pct (utf8 c)))" for x
    using set_utf8_pct [OF that] by (auto simp: unreserved_def is_digit_def)
  then show "map plus_space (concat (map pct (utf8 c))) = concat (map pct (utf8 c))"
    "CHR ''&'' \<notin> set (concat (map pct (utf8 c)))" "CHR ''='' \<notin> set (concat (map pct (utf8 c)))"
    by (auto simp: plus_space_def simp del: set_concat set_map intro!: map_idI)
qed

lemma form_char_decodes:
  "decodeURIComponent (map plus_space (form_char c) @ s) = cons_result c (decodeURIComponent s)"
  using form_char_cases [of c] utf8_pct_plain(1) [of c] decode_utf8_char
  by (auto simp: plus_space_def simp del: map_concat)

lemma form_char_free: "CHR ''&'' \<notin> set (form_char c) \<and> CHR ''='' \<notin> set (form_char c)"
  using form_char_cases [of c] utf8_pct_plain(2,3) [of c] by (auto simp del: set_concat)

lemma form_free: "CHR ''&'' \<notin> set (form_encode s)" "CHR ''='' \<notin> set (form_encode s)"
  using form_char_free by (auto simp: form_encode_def)

lemma form_decodes: "form_decode (form_encode s) = Inr s"
proof -
  have "decodeURIComponent (map plus_space (form_encode s)) = Inr s"
    by (induction s) (simp_all add: form_encode_def form_char_decodes del: map_concat)
  then show ?thesis by (simp add: form_decode_def)
qed

text \<open>The parser reads values encoded by \<open>encodeURIComponent\<close> as well, after keys that are words.\<close>

lemma form_decode_encodeURI [simp]: "form_decode (encodeURIComponent s) = Inr s"
proof -
  have "c \<noteq> CHR ''+''" if "c \<in> set (encodeURIComponent s)" for c
    using set_encode [OF that] by (auto simp: unreserved_def is_digit_def)
  then have "map plus_space (encodeURIComponent s) = encodeURIComponent s"
    by (intro map_idI) (auto simp: plus_space_def)
  then show ?thesis by (simp add: form_decode_def)
qed

lemma encode_amp_free [simp]: "CHR ''&'' \<notin> set (encodeURIComponent s)"
  by (rule encode_without; simp add: unreserved_def is_digit_def)

lemma form_pair_back:
  assumes "CHR ''='' \<notin> set k'" "form_decode k' = Inr k" "form_decode v' = Inr v"
  shows "form_pair (k' @ CHR ''='' # v') = Inr (k, v)"
  using index_of_append [OF assms(1), of v'] assms(2,3) by (simp add: form_pair_def)

lemma form_parse_join:
  assumes "\<forall>p \<in> set ps. CHR ''&'' \<notin> set (f p) \<and> f p \<noteq> [] \<and> form_pair (f p) = Inr p"
  shows "form_parse (join ''&'' (map f ps)) = Inr ps"
proof (cases "ps = []")
  case False
  have "split_on CHR ''&'' (join ''&'' (map f ps)) = map f ps"
    by (rule split_on_join) (use False assms in auto)
  then have "filter (\<lambda>s. s \<noteq> []) (split_on CHR ''&'' (join ''&'' (map f ps))) = map f ps"
    using assms by (simp add: filter_True)
  then show ?thesis using map_result_all [of ps form_pair f "\<lambda>p. p"] assms by (simp add: form_parse_def)
qed (simp add: form_parse_def)

lemma form_parse_back: "form_parse (search_params_str ps) = Inr ps"
  unfolding search_params_str_def
  by (rule form_parse_join) (auto simp: form_free form_pair_back form_decodes)


section \<open>Plain objects\<close>

text \<open>
  A plain object as the list of its own entries in the order \<open>Object.entries\<close> gives:
  array-index keys ascending, then the others in insertion order. The special key
  \<open>__proto__\<close> is not modelled.
\<close>

type_synonym 'v js_object = "(string \<times> 'v) list"

definition index_key :: "string \<Rightarrow> bool" where
  "index_key k \<longleftrightarrow>
     k \<noteq> [] \<and> list_all is_digit k \<and> (hd k = CHR ''0'' \<longrightarrow> length k = 1) \<and>
     int (digits_val k) < 4294967295"

definition key_before :: "string \<Rightarrow> string \<Rightarrow> bool" where
  "key_before k k' \<longleftrightarrow> index_key k \<and> (\<not> index_key k' \<or> digits_val k < digits_val k')"

fun obj_insert :: "string \<Rightarrow> 'v \<Rightarrow> 'v js_object \<Rightarrow> 'v js_object" where
  "obj_insert k v [] = [(k, v)]"
| "obj_insert k v (p # ps) =
     (if key_before k (fst p) then (k, v) # p # ps else p # obj_insert k v ps)"

definition obj_set :: "string \<Rightarrow> 'v \<Rightarrow> 'v js_object \<Rightarrow> 'v js_object" where
  "obj_set k v ob = (if k \<in> set (map fst ob) then map_set k v ob else obj_insert k v ob)"

lemma map_of_obj_insert: "k \<notin> set (map fst ob) \<Longrightarrow> map_of (obj_insert k v ob) = (map_of ob)(k \<mapsto> v)"
  by (induction ob) (auto simp: fun_eq_iff)

interpretation jo: kv_store map_of obj_set
  by unfold_locales (auto simp: obj_set_def map_of_obj_insert jm.get_put)

lemma keys_obj_insert: "set (map fst (obj_insert k v ob)) = insert k (set (map fst ob))"
  by (induction ob) auto

lemma distinct_obj_insert:
  "k \<notin> set (map fst ob) \<Longrightarrow> distinct (map fst ob) \<Longrightarrow> distinct (map fst (obj_insert k v ob))"
proof (induction ob)
  case (Cons p ob)
  then show ?case using keys_obj_insert [of k v ob] by (cases p) auto
qed simp

lemma distinct_obj_set: "distinct (map fst ob) \<Longrightarrow> distinct (map fst (obj_set k v ob))"
  by (auto simp: obj_set_def distinct_map_set distinct_obj_insert)

lemma keys_obj_set [simp]: "set (map fst (obj_set k v ob)) = insert k (set (map fst ob))"
  unfolding obj_set_def using keys_obj_insert [of k v ob] dom_map_set [of k v ob] by auto

lemma obj_set_append:
  assumes "k \<notin> set (map fst ob)" and "\<not> index_key k"
  shows "obj_set k v ob = ob @ [(k, v)]"
proof -
  have "obj_insert k v ob = ob @ [(k, v)]"
    using assms(2) by (induction ob) (auto simp: key_before_def)
  then show ?thesis using assms(1) by (simp add: obj_set_def)
qed

text \<open>Writing the entries of an object again, in order, rebuilds it.\<close>

definition canonical :: "'v js_object \<Rightarrow> bool" where
  "canonical ob \<longleftrightarrow>
     distinct (map fst ob) \<and> sorted_wrt (\<lambda>a b. \<not> key_before b a) (map fst ob)"

definition obj_of :: "(string \<times> 'v) list \<Rightarrow> 'v js_object" where
  "obj_of kvs = fold (\<lambda>(k, v). obj_set k v) kvs []"

lemma key_before_trans: "key_before a b \<Longrightarrow> key_before b c \<Longrightarrow> key_before a c"
  by (auto simp: key_before_def)

lemma key_before_asym: "key_before a b \<Longrightarrow> \<not> key_before b a"
  by (auto simp: key_before_def)

lemma canonical_Nil [simp]: "canonical []"
  by (simp add: canonical_def)

lemma obj_insert_last: "\<forall>p \<in> set ob. \<not> key_before k (fst p) \<Longrightarrow> obj_insert k v ob = ob @ [(k, v)]"
  by (induction ob) auto

lemma obj_set_last:
  assumes "canonical (ob @ [(k, v)])"
  shows "obj_set k v ob = ob @ [(k, v)]"
  using assms by (auto simp: canonical_def sorted_wrt_append obj_set_def obj_insert_last)

lemma obj_of_canonical:
  assumes "canonical ob"
  shows "obj_of ob = ob"
proof -
  have "fold (\<lambda>(k, v). obj_set k v) ps acc = acc @ ps" if "canonical (acc @ ps)" for ps acc :: "'a js_object"
    using that
  proof (induction ps arbitrary: acc)
    case (Cons p ps)
    obtain k v where p: "p = (k, v)" by (cases p)
    have "canonical (acc @ [(k, v)])"
      using Cons.prems by (auto simp: canonical_def sorted_wrt_append p)
    then show ?case using Cons p by (simp add: obj_set_last)
  qed simp
  from this [of "[]" ob] assms show ?thesis by (simp add: obj_of_def)
qed

lemma sorted_obj_insert:
  "sorted_wrt (\<lambda>a b. \<not> key_before b a) (map fst ob) \<Longrightarrow>
   sorted_wrt (\<lambda>a b. \<not> key_before b a) (map fst (obj_insert k v ob))"
proof (induction ob)
  case (Cons p ob)
  show ?case
  proof (cases "key_before k (fst p)")
    case True
    have "\<not> key_before b k" if b: "b = fst p \<or> b \<in> set (map fst ob)" for b
    proof
      assume "key_before b k"
      then have "key_before b (fst p)" using True by (rule key_before_trans)
      then show False using b Cons.prems key_before_asym [of b b] by auto
    qed
    then show ?thesis using True Cons.prems by simp
  next
    case False
    have "\<forall>b \<in> set (map fst (obj_insert k v ob)). \<not> key_before b (fst p)"
      unfolding keys_obj_insert using False Cons.prems by simp
    then show ?thesis using False Cons by simp
  qed
qed simp

lemma canonical_obj_set: "canonical ob \<Longrightarrow> canonical (obj_set k v ob)"
proof (cases "k \<in> set (map fst ob)")
  case True
  assume can: "canonical ob"
  have "map fst (map_set k v ob) = map fst ob" using True by (simp add: keys_map_set)
  moreover have "obj_set k v ob = map_set k v ob" using True by (simp add: obj_set_def)
  ultimately show ?thesis using can by (simp add: canonical_def)
next
  case False
  assume "canonical ob"
  then show ?thesis
    using False by (simp add: canonical_def obj_set_def distinct_obj_insert sorted_obj_insert)
qed

lemma canonical_obj_of: "canonical (obj_of kvs)"
proof -
  have "canonical (fold (\<lambda>(k, v). obj_set k v) kvs ob)" if "canonical ob" for ob :: "'a js_object"
    using that by (induction kvs arbitrary: ob) (auto intro: canonical_obj_set)
  then show ?thesis by (simp add: obj_of_def)
qed

end
