(* ===== verification/Eest_Name.thy ===== *)
theory Eest_Name
  imports Js_Uri
begin

text \<open>
  The parser of execution-spec-test names, \<open>ui/src/utils/eestName.ts\<close>. The regular expression
  \<open>FILE_FN_RE\<close> is a backtracking matcher: a lazy group is the list of its candidate splits in
  the order the engine tries them, and \<open>first_some\<close> commits to the first candidate whose
  continuation matches.
\<close>

section \<open>Matching with backtracking\<close>

fun first_some :: "('a \<Rightarrow> 'b option) \<Rightarrow> 'a list \<Rightarrow> 'b option" where
  "first_some f [] = None"
| "first_some f (x # xs) = (case f x of Some y \<Rightarrow> Some y | None \<Rightarrow> first_some f xs)"

text \<open>The dot matches every code unit but the line terminators.\<close>

definition dot_char :: "char \<Rightarrow> bool" where
  "dot_char c \<longleftrightarrow> code c \<noteq> 10 \<and> code c \<noteq> 13"

text \<open>Candidates of \<open>(.*?)\<close> and \<open>(.+?)\<close>: the splits of the text by a prefix of dot characters.\<close>

definition lazy_star :: "string \<Rightarrow> (string \<times> string) list" where
  "lazy_star s = map (\<lambda>n. (take n s, drop n s)) [0..<Suc (length (takeWhile dot_char s))]"

definition lazy_plus :: "string \<Rightarrow> (string \<times> string) list" where
  "lazy_plus s = tl (lazy_star s)"

definition strip_prefix :: "string \<Rightarrow> string \<Rightarrow> string option" where
  "strip_prefix p s = (if prefix p s then Some (drop (length p) s) else None)"

definition gas_unit :: "char \<Rightarrow> bool" where
  "gas_unit c \<longleftrightarrow> c = CHR ''K'' \<or> c = CHR ''M'' \<or> c = CHR ''G''"

text \<open>\<open>(?:_(\d+[KMG]))?(?:\.txt)?$\<close>: the optional groups are tried first, then skipped.\<close>

definition match_end :: "string \<Rightarrow> bool" where
  "match_end s \<longleftrightarrow> s = ''.txt'' \<or> s = []"

definition gas_prefix :: "string \<Rightarrow> (string \<times> string) option" where
  "gas_prefix s =
     (case s of
        [] \<Rightarrow> None
      | c # r \<Rightarrow>
          if c \<noteq> CHR ''_'' then None
          else let ds = takeWhile is_digit r; r' = dropWhile is_digit r
               in if ds \<noteq> [] \<and> r' \<noteq> [] \<and> gas_unit (hd r') then Some (ds @ [hd r'], tl r') else None)"

definition match_tail :: "string \<Rightarrow> string option option" where
  "match_tail s =
     (case gas_prefix s of
        Some (g, r) \<Rightarrow> if match_end r then Some (Some g) else if match_end s then Some None else None
      | None \<Rightarrow> if match_end s then Some None else None)"

text \<open>\<open>(?:\[(.*?)\])?\<close> and the tail.\<close>

definition match_params :: "string \<Rightarrow> (string option \<times> string option) option" where
  "match_params s =
     (let skip = map_option (\<lambda>g. (None, g)) (match_tail s)
      in case strip_prefix ''['' s of
           None \<Rightarrow> skip
         | Some r \<Rightarrow>
             (case first_some (\<lambda>(p, r'). case strip_prefix '']'' r' of
                      None \<Rightarrow> None
                    | Some r'' \<Rightarrow> map_option (\<lambda>g. (Some p, g)) (match_tail r'')) (lazy_star r) of
                Some m \<Rightarrow> Some m
              | None \<Rightarrow> skip))"

definition match_fn :: "string \<Rightarrow> (string \<times> string option \<times> string option) option" where
  "match_fn s = first_some (\<lambda>(f, r). map_option (Pair f) (match_params r)) (lazy_plus s)"

text \<open>\<open>\.py(?:__|::)test_\<close>.\<close>

definition strip_sep :: "string \<Rightarrow> string option" where
  "strip_sep s =
     (case strip_prefix ''.py__test_'' s of
        Some r \<Rightarrow> Some r
      | None \<Rightarrow> strip_prefix ''.py::test_'' s)"

definition match_file :: "string \<Rightarrow> (string \<times> string \<times> string option \<times> string option) option" where
  "match_file s =
     (case strip_prefix ''test_'' s of
        None \<Rightarrow> None
      | Some r \<Rightarrow>
          first_some (\<lambda>(f, r'). case strip_sep r' of
              None \<Rightarrow> None
            | Some r'' \<Rightarrow> map_option (Pair f) (match_fn r'')) (lazy_plus r))"

definition FILE_FN_RE ::
    "string \<Rightarrow> (string option \<times> string \<times> string \<times> string option \<times> string option) option" where
  "FILE_FN_RE s =
     (case first_some (\<lambda>(p, r). case strip_prefix ''/'' r of
              None \<Rightarrow> None
            | Some r' \<Rightarrow> map_option (Pair (Some p)) (match_file r')) (lazy_plus s) of
        Some m \<Rightarrow> Some m
      | None \<Rightarrow> map_option (Pair None) (match_file s))"

definition BENCHMARK_GAS_RE :: "string \<Rightarrow> bool" where
  "BENCHMARK_GAS_RE s \<longleftrightarrow>
     takeWhile is_digit s \<noteq> [] \<and>
     (dropWhile is_digit s = [] \<or> (\<exists>c. dropWhile is_digit s = [c] \<and> gas_unit c))"

definition VALUE_GAS_RE :: "string \<Rightarrow> bool" where
  "VALUE_GAS_RE s \<longleftrightarrow>
     takeWhile is_digit s \<noteq> [] \<and> length (dropWhile is_digit s) = 1 \<and> gas_unit (hd (dropWhile is_digit s))"

definition IGNORE_TOKENS :: "string list" where
  "IGNORE_TOKENS = [''benchmark_test'', ''blockchain_test'', ''blockchain_test_engine_x'',
     ''benchmark'', ''gas'']"


section \<open>The parser\<close>

record EESTNameParts =
  en_raw :: string
  en_isEEST :: bool
  en_path :: "string option"
  en_file :: "string option"
  en_fn :: "string option"
  en_fork :: "string option"
  en_opcode :: "string option"
  en_benchmark :: "string option"
  en_params :: "(string \<times> string) list"
  en_labels :: "string list"
  en_short :: string

text \<open>The fields the token loop assigns.\<close>

record token_state =
  ts_fork :: "string option"
  ts_opcode :: "string option"
  ts_benchmark :: "string option"
  ts_params :: "(string \<times> string) list"
  ts_labels :: "string list"

definition token_init :: token_state where
  "token_init = \<lparr>ts_fork = None, ts_opcode = None, ts_benchmark = None, ts_params = [], ts_labels = []\<rparr>"

definition key_value :: "string \<Rightarrow> (string \<times> string) option" where
  "key_value tok =
     (case last_index_of CHR ''_'' tok of
        None \<Rightarrow> None
      | Some i \<Rightarrow>
          if i = 0 \<or> i = length tok - 1 \<or> (\<exists>c \<in> set (take i tok). is_space c) then None
          else Some (take i tok, drop (i + 1) tok))"

definition token_step :: "string \<Rightarrow> token_state \<Rightarrow> token_state" where
  "token_step tok s =
     (if tok = [] \<or> tok \<in> set IGNORE_TOKENS then s
      else case key_value tok of
          None \<Rightarrow> s\<lparr>ts_labels := ts_labels s @ [tok]\<rparr>
        | Some (k, v) \<Rightarrow>
            if k = ''fork'' then s\<lparr>ts_fork := Some v\<rparr>
            else if k = ''opcode'' then s\<lparr>ts_opcode := Some v\<rparr>
            else if k = ''benchmark'' then
              (if BENCHMARK_GAS_RE v then s\<lparr>ts_benchmark := Some v\<rparr>
               else if v \<noteq> ''test'' then s\<lparr>ts_params := ts_params s @ [(k, v)]\<rparr>
               else s)
            else if k = ''value'' \<and> VALUE_GAS_RE v then s\<lparr>ts_benchmark := Some v\<rparr>
            else s\<lparr>ts_params := ts_params s @ [(k, v)]\<rparr>)"

definition truthy :: "string option \<Rightarrow> bool" where
  "truthy x \<longleftrightarrow> x \<noteq> None \<and> x \<noteq> Some []"

definition opt_list :: "string option \<Rightarrow> string list" where
  "opt_list x = (if truthy x then [the x] else [])"

definition DOT_SEP :: string where "DOT_SEP = '' '' @ [CHR 0xB7] @ '' ''"

definition parseEESTNameUncached :: "string \<Rightarrow> EESTNameParts" where
  "parseEESTNameUncached raw =
     (case FILE_FN_RE raw of
        None \<Rightarrow> \<lparr>en_raw = raw, en_isEEST = False, en_path = None, en_file = None, en_fn = None,
                 en_fork = None, en_opcode = None, en_benchmark = None, en_params = [],
                 en_labels = [], en_short = raw\<rparr>
      | Some (pathRaw, file, fn, paramBlock, trailingGas) \<Rightarrow>
          let path = (if truthy pathRaw \<and> \<not> list_all is_digit (the pathRaw) then pathRaw else None);
              toks = (if truthy paramBlock then split_on CHR ''-'' (the paramBlock) else []);
              s = fold token_step toks token_init;
              benchmark = (if \<not> truthy (ts_benchmark s) \<and> truthy trailingGas then trailingGas
                           else ts_benchmark s);
              shortParts = opt_list (Some fn) @ opt_list benchmark @ opt_list (ts_opcode s);
              short = (if shortParts \<noteq> [] then join DOT_SEP shortParts else raw)
          in \<lparr>en_raw = raw, en_isEEST = True, en_path = path, en_file = Some file, en_fn = Some fn,
              en_fork = ts_fork s, en_opcode = ts_opcode s, en_benchmark = benchmark,
              en_params = ts_params s, en_labels = ts_labels s, en_short = short\<rparr>)"

text \<open>The cached entry point: the cache is threaded through.\<close>

type_synonym name_cache = "(string, EESTNameParts) js_map"

definition parseEESTName :: "string \<Rightarrow> name_cache \<Rightarrow> EESTNameParts \<times> name_cache" where
  "parseEESTName raw cache =
     (case map_of cache raw of
        Some cached \<Rightarrow> (cached, cache)
      | None \<Rightarrow> let result = parseEESTNameUncached raw in (result, map_set raw result cache))"

datatype NameDisplayMode = Decomposed | Raw

definition formatTestName :: "string \<Rightarrow> NameDisplayMode \<Rightarrow> string" where
  "formatTestName name mode = (if mode = Raw then name else en_short (parseEESTNameUncached name))"

definition formatTestNameLong :: "string \<Rightarrow> NameDisplayMode \<Rightarrow> string" where
  "formatTestNameLong name mode =
     (if mode = Raw then name
      else let p = parseEESTNameUncached name
           in if \<not> en_isEEST p then name
              else let parts = opt_list (en_file p) @ opt_list (en_fn p) @ opt_list (en_benchmark p) @
                               opt_list (en_opcode p) @
                               map (\<lambda>f. ''fork:'' @ f) (opt_list (en_fork p)) @
                               map (\<lambda>(k, v). k @ '':'' @ v) (en_params p) @ en_labels p
                   in if parts \<noteq> [] then join DOT_SEP parts else name)"


section \<open>The matcher\<close>

lemma first_some_None: "first_some f xs = None \<longleftrightarrow> (\<forall>x \<in> set xs. f x = None)"
  by (induction xs) (auto split: option.splits)

lemma first_some_Some: "first_some f xs = Some y \<Longrightarrow> \<exists>x \<in> set xs. f x = Some y"
  by (induction xs) (auto split: option.splits)

lemma first_some_append:
  "first_some f (xs @ ys) = (case first_some f xs of Some y \<Rightarrow> Some y | None \<Rightarrow> first_some f ys)"
  by (induction xs) (auto split: option.splits)

lemma length_takeWhile_prefix: "list_all P p \<Longrightarrow> length p \<le> length (takeWhile P (p @ r))"
  by (induction p) auto

lemma lazy_star_iff: "(p, r) \<in> set (lazy_star s) \<longleftrightarrow> s = p @ r \<and> list_all dot_char p"
proof
  assume "(p, r) \<in> set (lazy_star s)"
  then obtain n where n: "n \<le> length (takeWhile dot_char s)" "p = take n s" "r = drop n s"
    unfolding lazy_star_def set_map set_upt by (force simp: less_Suc_eq_le)
  have "take n s = take n (takeWhile dot_char s)"
    using n(1) takeWhile_dropWhile_id [of dot_char s] by (metis take_append take_eq_Nil2 append_Nil2
        diff_is_0_eq)
  then have "list_all dot_char (take n s)"
    by (auto simp: list_all_iff dest: in_set_takeD set_takeWhileD)
  then show "s = p @ r \<and> list_all dot_char p" using n(2,3) by simp
next
  assume s: "s = p @ r \<and> list_all dot_char p"
  then have "length p < Suc (length (takeWhile dot_char s))"
    using length_takeWhile_prefix [of dot_char p r] by simp
  with s show "(p, r) \<in> set (lazy_star s)"
    unfolding lazy_star_def by (auto simp del: upt_Suc intro!: rev_image_eqI [of "length p"])
qed

lemma lazy_plus_iff: "(p, r) \<in> set (lazy_plus s) \<longleftrightarrow> s = p @ r \<and> list_all dot_char p \<and> p \<noteq> []"
proof -
  have "lazy_star s = ([], s) # lazy_plus s"
    by (simp add: lazy_star_def lazy_plus_def upt_conv_Cons del: upt_Suc)
  moreover have "(p, r) \<in> set (lazy_plus s) \<Longrightarrow> p \<noteq> []"
  proof -
    assume "(p, r) \<in> set (lazy_plus s)"
    then obtain n where n: "1 \<le> n" "n \<le> length (takeWhile dot_char s)" "p = take n s"
      by (auto simp: lazy_plus_def lazy_star_def upt_conv_Cons simp del: upt_Suc)
    then have "s \<noteq> []" using length_takeWhile_le [of dot_char s] by auto
    with n show "p \<noteq> []" by simp
  qed
  ultimately show ?thesis using lazy_star_iff [of p r s] by auto
qed

lemma first_some_cong: "(\<And>x. x \<in> set xs \<Longrightarrow> f x = g x) \<Longrightarrow> first_some f xs = first_some g xs"
  by (induction xs) (auto split: option.split)

text \<open>A lazy group commits to a split when no shorter one lets the rest match.\<close>

lemma lazy_star_commit:
  assumes "list_all dot_char p" and "f (p, r) = Some y"
    and "\<And>a b. p = a @ b \<Longrightarrow> b \<noteq> [] \<Longrightarrow> f (a, b @ r) = None"
  shows "first_some f (lazy_star (p @ r)) = Some y"
proof -
  let ?g = "\<lambda>n. (take n (p @ r), drop n (p @ r))" and ?n = "length (takeWhile dot_char (p @ r))"
  have "length p \<le> ?n" using assms(1) by (rule length_takeWhile_prefix)
  then have "[0..<Suc ?n] = [0..<length p] @ length p # [Suc (length p)..<Suc ?n]"
    by (metis le_imp_less_Suc less_imp_le_nat upt_add_eq_append le_add_diff_inverse upt_conv_Cons
        zero_le)
  then have "lazy_star (p @ r) = map ?g [0..<length p] @ (p, r) # map ?g [Suc (length p)..<Suc ?n]"
    by (simp add: lazy_star_def del: upt_Suc)
  moreover have "first_some f (map ?g [0..<length p]) = None"
    unfolding first_some_None
  proof
    fix x assume "x \<in> set (map ?g [0..<length p])"
    then obtain n where "n < length p" "x = (take n p, drop n p @ r)" by auto
    then show "f x = None" using assms(3) [of "take n p" "drop n p"] by simp
  qed
  ultimately show ?thesis using assms(2) by (simp add: first_some_append)
qed

lemma lazy_plus_commit:
  assumes "list_all dot_char p" and "p \<noteq> []" and "f (p, r) = Some y"
    and "\<And>a b. p = a @ b \<Longrightarrow> a \<noteq> [] \<Longrightarrow> b \<noteq> [] \<Longrightarrow> f (a, b @ r) = None"
  shows "first_some f (lazy_plus (p @ r)) = Some y"
proof -
  define g where "g = (\<lambda>x. if fst x = [] then None else f x)"
  have star: "lazy_star (p @ r) = ([], p @ r) # lazy_plus (p @ r)"
    by (simp add: lazy_star_def lazy_plus_def upt_conv_Cons del: upt_Suc)
  have "first_some g (lazy_star (p @ r)) = Some y"
    using assms by (intro lazy_star_commit) (auto simp: g_def)
  then have "first_some g (lazy_plus (p @ r)) = Some y" by (simp add: star g_def)
  moreover have "first_some g (lazy_plus (p @ r)) = first_some f (lazy_plus (p @ r))"
    by (rule first_some_cong) (auto simp: g_def lazy_plus_iff)
  ultimately show ?thesis by simp
qed

section \<open>The language of the regular expression\<close>

definition opt_text :: "string \<Rightarrow> string option \<Rightarrow> string \<Rightarrow> string" where
  "opt_text pre x post = (case x of None \<Rightarrow> [] | Some t \<Rightarrow> pre @ t @ post)"

definition gas_text :: "string \<Rightarrow> bool" where
  "gas_text g \<longleftrightarrow> g \<noteq> [] \<and> butlast g \<noteq> [] \<and> list_all is_digit (butlast g) \<and> gas_unit (last g)"

definition dots :: "string option \<Rightarrow> bool" where
  "dots x = pred_option (list_all dot_char) x"

text \<open>
  \<open>eest_shape raw path file fn params gas\<close>: the text has the form the expression describes,
  with these groups.
\<close>

definition eest_shape ::
    "string \<Rightarrow> string option \<Rightarrow> string \<Rightarrow> string \<Rightarrow> string option \<Rightarrow> string option \<Rightarrow> bool" where
  "eest_shape raw path file fn ps g \<longleftrightarrow>
     dots path \<and> path \<noteq> Some [] \<and> list_all dot_char file \<and> file \<noteq> [] \<and>
     list_all dot_char fn \<and> fn \<noteq> [] \<and> dots ps \<and> pred_option gas_text g \<and>
     (\<exists>sep ext. sep \<in> {''__'', ''::''} \<and> ext \<in> {[], ''.txt''} \<and>
        raw = opt_text [] path ''/'' @ ''test_'' @ file @ ''.py'' @ sep @ ''test_'' @ fn @
              opt_text ''['' ps '']'' @ opt_text ''_'' g [] @ ext)"

lemma opt_text_simps [simp]:
  "opt_text pre None post = []" "opt_text pre (Some t) post = pre @ t @ post"
  by (simp_all add: opt_text_def)

lemma dots_simps [simp]: "dots None" "dots (Some t) \<longleftrightarrow> list_all dot_char t"
  by (simp_all add: dots_def)

lemma unit_not_digit: "gas_unit c \<Longrightarrow> \<not> is_digit c"
  by (auto simp: gas_unit_def is_digit_def)

lemma strip_prefix_iff [simp]: "strip_prefix p s = Some r \<longleftrightarrow> s = p @ r"
  by (auto simp: strip_prefix_def prefix_def)

lemma strip_prefix_append [simp]: "strip_prefix p (p @ r) = Some r"
  by simp

lemma strip_prefix_Cons [simp]: "strip_prefix [c] (d # t) = (if c = d then Some t else None)"
  by (simp add: strip_prefix_def)

lemma strip_prefix_Nil [simp]: "strip_prefix [c] [] = None"
  by (simp add: strip_prefix_def)

lemma gas_prefix_iff: "gas_prefix s = Some (g, r) \<longleftrightarrow> s = ''_'' @ g @ r \<and> gas_text g"
proof
  assume *: "gas_prefix s = Some (g, r)"
  then obtain t where t: "s = CHR ''_'' # t"
    by (auto simp: gas_prefix_def split: list.splits if_splits)
  let ?d = "takeWhile is_digit t" and ?r = "dropWhile is_digit t"
  have g: "?d \<noteq> []" "?r \<noteq> []" "gas_unit (hd ?r)" "g = ?d @ [hd ?r]" "r = tl ?r"
    using * t by (auto simp: gas_prefix_def Let_def split: if_splits)
  have "t = g @ r" using g takeWhile_dropWhile_id [of is_digit t] by simp
  then show "s = ''_'' @ g @ r \<and> gas_text g"
    using g t by (auto simp: gas_text_def list_all_iff dest: set_takeWhileD)
next
  assume *: "s = ''_'' @ g @ r \<and> gas_text g"
  then obtain ds u where g: "g = ds @ [u]" "ds \<noteq> []" "list_all is_digit ds" "gas_unit u"
    by (metis append_butlast_last_id gas_text_def)
  have "takeWhile is_digit (g @ r) = ds" "dropWhile is_digit (g @ r) = u # r"
    using g unit_not_digit by (auto simp: list_all_iff takeWhile_append dropWhile_append)
  then show "gas_prefix s = Some (g, r)"
    using * g unit_not_digit [OF g(4)] by (simp add: gas_prefix_def Let_def)
qed

lemma match_tail_iff:
  "match_tail s = Some g \<longleftrightarrow>
    pred_option gas_text g \<and> (\<exists>ext. ext \<in> {[], ''.txt''} \<and> s = opt_text ''_'' g [] @ ext)"
proof -
  have end_none: "gas_prefix s = None" if "match_end s"
    using that by (auto simp: match_end_def gas_prefix_def)
  show ?thesis
  proof (cases "gas_prefix s")
    case None
    have "s \<noteq> ''_'' @ x @ r \<or> \<not> gas_text x" for x r
      using None gas_prefix_iff [of s x r] by auto
    then show ?thesis using None by (cases g) (auto simp: match_tail_def match_end_def)
  next
    case (Some y)
    then obtain x r where y: "y = (x, r)" "gas_prefix s = Some (x, r)" by (cases y) auto
    then have s: "s = ''_'' @ x @ r" "gas_text x" using gas_prefix_iff by auto
    have nend: "\<not> match_end s" using end_none y(2) by auto
    have uniq: "x' = x \<and> r' = r" if "s = ''_'' @ x' @ r'" "gas_text x'" for x' r'
      using that gas_prefix_iff [of s x' r'] y(2) by simp
    have tail: "match_tail s = (if match_end r then Some (Some x) else None)"
      using y nend by (simp add: match_tail_def)
    show ?thesis
    proof (cases g)
      case None
      then show ?thesis using nend tail by (auto simp: match_end_def)
    next
      case (Some h)
      have "(\<exists>ext. ext \<in> {[], ''.txt''} \<and> s = ''_'' @ h @ ext) \<and> gas_text h \<longleftrightarrow> h = x \<and> match_end r"
      proof
        assume "(\<exists>ext. ext \<in> {[], ''.txt''} \<and> s = ''_'' @ h @ ext) \<and> gas_text h"
        then show "h = x \<and> match_end r" using uniq [of h] by (auto simp: match_end_def)
      next
        assume "h = x \<and> match_end r"
        then show "(\<exists>ext. ext \<in> {[], ''.txt''} \<and> s = ''_'' @ h @ ext) \<and> gas_text h"
          using s unfolding match_end_def by blast
      qed
      with Some show ?thesis using tail by auto
    qed
  qed
qed

lemma match_params_sound:
  assumes "match_params s = Some (ps, g)"
  shows "\<exists>t. dots ps \<and> s = opt_text ''['' ps '']'' @ t \<and> match_tail t = Some g"
proof (cases ps)
  case None
  then have "match_tail s = Some g"
    using assms
    by (auto simp: match_params_def Let_def split: option.splits dest!: first_some_Some)
  with None show ?thesis by simp
next
  case (Some b)
  then obtain r where r: "s = ''['' @ r"
      "first_some (\<lambda>(p, r'). case strip_prefix '']'' r' of None \<Rightarrow> None
         | Some r'' \<Rightarrow> map_option (\<lambda>g. (Some p, g)) (match_tail r'')) (lazy_star r) = Some (ps, g)"
    using assms by (auto simp: match_params_def Let_def split: option.splits)
  from first_some_Some [OF this(2)] obtain t where "r = b @ '']'' @ t" "list_all dot_char b"
      "match_tail t = Some g"
    using Some by (auto simp: lazy_star_iff split: option.splits)
  with Some r(1) show ?thesis by auto
qed

lemma match_params_complete:
  assumes "dots ps" and "match_tail t = Some g"
  shows "match_params (opt_text ''['' ps '']'' @ t) \<noteq> None"
proof (cases ps)
  case None
  then show ?thesis using assms(2) by (auto simp: match_params_def Let_def split: option.splits)
next
  case (Some b)
  let ?f = "\<lambda>(p, r'). case strip_prefix '']'' r' of None \<Rightarrow> None
         | Some r'' \<Rightarrow> map_option (\<lambda>g. (Some p, g)) (match_tail r'')"
  have "(b, '']'' @ t) \<in> set (lazy_star (b @ '']'' @ t))"
    using assms(1) Some by (simp add: lazy_star_iff)
  moreover have "?f (b, '']'' @ t) \<noteq> None" using assms(2) by simp
  ultimately have "first_some ?f (lazy_star (b @ '']'' @ t)) \<noteq> None"
    unfolding first_some_None by metis
  moreover have "strip_prefix ''['' (opt_text ''['' ps '']'' @ t) = Some (b @ '']'' @ t)"
    using Some by simp
  ultimately show ?thesis unfolding match_params_def Let_def by (auto split: option.splits)
qed

lemma match_fn_sound:
  assumes "match_fn s = Some (fn, m)"
  shows "\<exists>r. s = fn @ r \<and> fn \<noteq> [] \<and> list_all dot_char fn \<and> match_params r = Some m"
  using first_some_Some [OF assms [unfolded match_fn_def]] by (auto simp: lazy_plus_iff)

lemma lazy_plus_complete:
  assumes "list_all dot_char p" and "p \<noteq> []" and "f (p, r) \<noteq> None"
  shows "first_some f (lazy_plus (p @ r)) \<noteq> None"
proof -
  have "(p, r) \<in> set (lazy_plus (p @ r))" using assms(1,2) by (simp add: lazy_plus_iff)
  with assms(3) show ?thesis unfolding first_some_None by metis
qed

lemma match_fn_complete:
  "list_all dot_char fn \<Longrightarrow> fn \<noteq> [] \<Longrightarrow> match_params r \<noteq> None \<Longrightarrow> match_fn (fn @ r) \<noteq> None"
  unfolding match_fn_def by (rule lazy_plus_complete) auto

lemma strip_sep_sound:
  "strip_sep s = Some r \<Longrightarrow> \<exists>sep. sep \<in> {''__'', ''::''} \<and> s = ''.py'' @ sep @ ''test_'' @ r"
  by (auto simp: strip_sep_def split: option.splits)

lemma strip_sep_complete: "sep \<in> {''__'', ''::''} \<Longrightarrow> strip_sep (''.py'' @ sep @ ''test_'' @ r) = Some r"
  by (auto simp: strip_sep_def strip_prefix_def)

lemma match_file_sound:
  assumes "match_file s = Some (file, m)"
  shows "\<exists>sep r. sep \<in> {''__'', ''::''} \<and> s = ''test_'' @ file @ ''.py'' @ sep @ ''test_'' @ r \<and>
    file \<noteq> [] \<and> list_all dot_char file \<and> match_fn r = Some m"
proof -
  obtain r0 where r0: "s = ''test_'' @ r0"
      "first_some (\<lambda>(f, r'). case strip_sep r' of None \<Rightarrow> None
         | Some r'' \<Rightarrow> map_option (Pair f) (match_fn r'')) (lazy_plus r0) = Some (file, m)"
    using assms by (auto simp: match_file_def split: option.splits)
  from first_some_Some [OF this(2)] obtain r1 r where "r0 = file @ r1" "list_all dot_char file"
      "file \<noteq> []" "strip_sep r1 = Some r" "match_fn r = Some m"
    by (auto simp: lazy_plus_iff split: option.splits)
  with r0(1) strip_sep_sound [of r1 r] show ?thesis by auto
qed

lemma match_file_complete:
  assumes "list_all dot_char file" and "file \<noteq> []" and "sep \<in> {''__'', ''::''}" and "match_fn r \<noteq> None"
  shows "match_file (''test_'' @ file @ ''.py'' @ sep @ ''test_'' @ r) \<noteq> None"
proof -
  have "first_some (\<lambda>(f, r'). case strip_sep r' of None \<Rightarrow> None
       | Some r'' \<Rightarrow> map_option (Pair f) (match_fn r''))
     (lazy_plus (file @ ''.py'' @ sep @ ''test_'' @ r)) \<noteq> None"
    using assms(1,2,4) strip_sep_complete [OF assms(3), of r] by (intro lazy_plus_complete) auto
  then show ?thesis unfolding match_file_def strip_prefix_append by simp
qed

theorem FILE_FN_RE_sound:
  assumes "FILE_FN_RE raw = Some (path, file, fn, ps, g)"
  shows "eest_shape raw path file fn ps g"
proof -
  have "\<exists>r. raw = opt_text [] path ''/'' @ r \<and> dots path \<and> path \<noteq> Some [] \<and>
      match_file r = Some (file, fn, ps, g)"
    using assms unfolding FILE_FN_RE_def
    by (force split: option.splits dest!: first_some_Some simp: lazy_plus_iff)
  then obtain r where r: "raw = opt_text [] path ''/'' @ r" "dots path" "path \<noteq> Some []"
      "match_file r = Some (file, fn, ps, g)" by blast
  from match_file_sound [OF r(4)] obtain sep r2 where r2: "sep \<in> {''__'', ''::''}"
      "r = ''test_'' @ file @ ''.py'' @ sep @ ''test_'' @ r2" "file \<noteq> []" "list_all dot_char file"
      "match_fn r2 = Some (fn, ps, g)" by blast
  from match_fn_sound [OF r2(5)] obtain r3 where r3: "r2 = fn @ r3" "fn \<noteq> []" "list_all dot_char fn"
      "match_params r3 = Some (ps, g)" by blast
  from match_params_sound [OF r3(4)] obtain t where t: "dots ps" "r3 = opt_text ''['' ps '']'' @ t"
      "match_tail t = Some g" by blast
  from t(3) obtain ext where "pred_option gas_text g" "ext \<in> {[], ''.txt''}" "t = opt_text ''_'' g [] @ ext"
    unfolding match_tail_iff by blast
  then show ?thesis
    unfolding eest_shape_def using r r2 r3 t by blast
qed

theorem FILE_FN_RE_complete:
  assumes "eest_shape raw path file fn ps g"
  shows "FILE_FN_RE raw \<noteq> None"
proof -
  obtain sep ext where *: "sep \<in> {''__'', ''::''}" "ext \<in> {[], ''.txt''}"
      "raw = opt_text [] path ''/'' @ ''test_'' @ file @ ''.py'' @ sep @ ''test_'' @ fn @
              opt_text ''['' ps '']'' @ opt_text ''_'' g [] @ ext"
    and sh: "dots path" "path \<noteq> Some []" "list_all dot_char file" "file \<noteq> []"
     "list_all dot_char fn" "fn \<noteq> []" "dots ps" "pred_option gas_text g"
    using assms unfolding eest_shape_def by blast
  let ?r = "''test_'' @ file @ ''.py'' @ sep @ ''test_'' @ fn @ opt_text ''['' ps '']'' @
      opt_text ''_'' g [] @ ext"
  have "match_tail (opt_text ''_'' g [] @ ext) = Some g"
    unfolding match_tail_iff using sh(8) *(2) by blast
  then have mf: "match_file ?r \<noteq> None"
    using sh *(1) by (intro match_file_complete match_fn_complete match_params_complete) auto
  let ?f = "\<lambda>(p, r). case strip_prefix ''/'' r of None \<Rightarrow> None
      | Some r' \<Rightarrow> map_option (Pair (Some p)) (match_file r')"
  show ?thesis
  proof (cases path)
    case None
    then show ?thesis using mf *(3) unfolding FILE_FN_RE_def by (auto split: option.splits)
  next
    case (Some p)
    have "first_some ?f (lazy_plus (p @ ''/'' @ ?r)) \<noteq> None"
      using mf sh(1,2) Some by (intro lazy_plus_complete) (auto split: option.splits)
    moreover have "raw = p @ ''/'' @ ?r" using *(3) Some by simp
    ultimately show ?thesis unfolding FILE_FN_RE_def by (auto split: option.splits)
  qed
qed

section \<open>Parts of a name\<close>

definition token_parts :: "token_state \<Rightarrow> string set" where
  "token_parts s = set_option (ts_fork s) \<union> set_option (ts_opcode s) \<union> set_option (ts_benchmark s) \<union>
     fst ` set (ts_params s) \<union> snd ` set (ts_params s) \<union> set (ts_labels s)"

definition eest_parts :: "EESTNameParts \<Rightarrow> string set" where
  "eest_parts p = set_option (en_path p) \<union> set_option (en_file p) \<union> set_option (en_fn p) \<union>
     set_option (en_fork p) \<union> set_option (en_opcode p) \<union> set_option (en_benchmark p) \<union>
     fst ` set (en_params p) \<union> snd ` set (en_params p) \<union> set (en_labels p)"

lemma key_value_Some:
  assumes "key_value tok = Some (k, v)"
  shows "tok = k @ ''_'' @ v \<and> k \<noteq> [] \<and> v \<noteq> [] \<and> CHR ''_'' \<notin> set v \<and> (\<forall>c \<in> set k. \<not> is_space c)"
proof -
  obtain i where i: "last_index_of CHR ''_'' tok = Some i" "i \<noteq> 0" "i \<noteq> length tok - 1"
      "k = take i tok" "v = drop (i + 1) tok" "\<forall>c \<in> set k. \<not> is_space c"
    using assms by (auto simp: key_value_def split: option.splits if_splits)
  have "CHR ''_'' \<in> set tok"
    using i(1) last_index_of_None [of "CHR ''_''" tok] by (metis option.distinct(1))
  then obtain a b where ab: "tok = a @ CHR ''_'' # b" "CHR ''_'' \<notin> set b"
    by (meson split_list_last)
  with last_index_of_append [of "CHR ''_''" b a] i(1) have "i = length a" by simp
  with ab i show ?thesis by auto
qed

lemma key_value_join:
  assumes "k \<noteq> []" and "v \<noteq> []" and "CHR ''_'' \<notin> set v" and "\<forall>c \<in> set k. \<not> is_space c"
  shows "key_value (k @ CHR ''_'' # v) = Some (k, v)"
  using assms by (auto simp: key_value_def last_index_of_append)

lemma token_step_parts:
  assumes "x \<in> token_parts (token_step tok s)"
  shows "x \<in> token_parts s \<or> sublist x tok"
proof (cases "key_value tok")
  case None
  then show ?thesis using assms by (auto simp: token_step_def token_parts_def split: if_splits)
next
  case (Some kv)
  obtain k v where kv: "kv = (k, v)" by (cases kv)
  then have tok: "tok = k @ ''_'' @ v" using Some key_value_Some by blast
  have "suffix v (k @ ''_'' @ v)" by (metis append.assoc suffixI)
  then have sub: "sublist k tok" "sublist v tok"
    unfolding tok by (auto intro: prefix_imp_sublist suffix_imp_sublist)
  show ?thesis
    using assms Some kv sub by (auto simp: token_step_def token_parts_def split: if_splits)
qed

lemma fold_token_parts:
  "x \<in> token_parts (fold token_step toks s) \<Longrightarrow>
     x \<in> token_parts s \<or> (\<exists>tok \<in> set toks. sublist x tok)"
proof (induction toks arbitrary: s)
  case (Cons t ts)
  then show ?case using token_step_parts [of x t s] by auto
qed simp

lemma sublist_join: "x \<in> set xs \<Longrightarrow> sublist x (join sep xs)"
proof (induction sep xs rule: join.induct)
  case (3 sep y z zs)
  then consider "x = y" | "sublist x (join sep (z # zs))" by auto
  then show ?case
  proof cases
    case 2
    then show ?thesis by simp (metis sublist_append)
  qed (simp add: sublist_appendI)
qed auto

lemma sublist_split_on: "x \<in> set (split_on c s) \<Longrightarrow> sublist x s"
  using sublist_join [of x "split_on c s" "[c]"] by (simp add: join_split_on)

text \<open>The fields of a name the expression matches.\<close>

lemma parse_match:
  assumes "FILE_FN_RE raw = Some (path, file, fn, ps, g)"
  defines "toks \<equiv> if truthy ps then split_on CHR ''-'' (the ps) else []"
  defines "s \<equiv> fold token_step toks token_init"
  defines "p \<equiv> parseEESTNameUncached raw"
  shows "en_isEEST p" and "en_raw p = raw" and "en_file p = Some file" and "en_fn p = Some fn"
    and "en_path p = (if truthy path \<and> \<not> list_all is_digit (the path) then path else None)"
    and "en_fork p = ts_fork s" and "en_opcode p = ts_opcode s"
    and "en_benchmark p = (if \<not> truthy (ts_benchmark s) \<and> truthy g then g else ts_benchmark s)"
    and "en_params p = ts_params s" and "en_labels p = ts_labels s"
  using assms by (simp_all add: parseEESTNameUncached_def Let_def)

lemma parse_no_match:
  assumes "FILE_FN_RE raw = None"
  defines "p \<equiv> parseEESTNameUncached raw"
  shows "\<not> en_isEEST p" and "eest_parts p = {}"
  using assms by (simp_all add: parseEESTNameUncached_def eest_parts_def)

text \<open>C2: The name parser recognises exactly the names of the documented form: the backtracking
  search over lazy groups finds a decomposition whenever one exists.\<close>

theorem eest_name_language:
  "en_isEEST (parseEESTNameUncached raw) \<longleftrightarrow> (\<exists>path file fn ps g. eest_shape raw path file fn ps g)"
proof (cases "FILE_FN_RE raw")
  case None
  then show ?thesis using FILE_FN_RE_complete [of raw] parse_no_match(1) by auto
next
  case (Some m)
  obtain path fl fn ps g where "m = (path, fl, fn, ps, g)" by (cases m)
  with Some FILE_FN_RE_sound parse_match(1) show ?thesis by blast
qed

lemma shape_sublists:
  assumes "eest_shape raw path file fn ps g"
  shows "x \<in> set_option path \<union> {file, fn} \<union> set_option ps \<union> set_option g \<Longrightarrow> sublist x raw"
proof -
  obtain sep ext where raw: "raw = opt_text [] path ''/'' @ ''test_'' @ file @ ''.py'' @ sep @ ''test_'' @
      fn @ opt_text ''['' ps '']'' @ opt_text ''_'' g [] @ ext"
    using assms unfolding eest_shape_def by blast
  have mid: "sublist x (a @ x @ b)" for a b :: string by (simp add: sublist_appendI)
  assume "x \<in> set_option path \<union> {file, fn} \<union> set_option ps \<union> set_option g"
  then consider "path = Some x" | "x = file" | "x = fn" | "ps = Some x" | "g = Some x" by auto
  then show ?thesis
  proof cases
    case 1
    with raw show ?thesis using mid [of "[]"] by simp
  next
    case 2
    with raw show ?thesis using mid [of "opt_text [] path ''/'' @ ''test_''"] by simp
  next
    case 3
    with raw show ?thesis
      using mid [of "opt_text [] path ''/'' @ ''test_'' @ file @ ''.py'' @ sep @ ''test_''"] by simp
  next
    case 4
    with raw show ?thesis
      using mid [of "opt_text [] path ''/'' @ ''test_'' @ file @ ''.py'' @ sep @ ''test_'' @ fn @ ''[''"]
      by simp
  next
    case 5
    with raw show ?thesis
      using mid [of "opt_text [] path ''/'' @ ''test_'' @ file @ ''.py'' @ sep @ ''test_'' @ fn @
        opt_text ''['' ps '']'' @ ''_''"] by simp
  qed
qed

lemma eest_parts_sublist:
  assumes "x \<in> eest_parts (parseEESTNameUncached raw)"
  shows "sublist x raw"
proof (cases "FILE_FN_RE raw")
  case None
  then show ?thesis using assms parse_no_match(2) by simp
next
  case (Some m)
  obtain path fl fn ps g where m: "FILE_FN_RE raw = Some (path, fl, fn, ps, g)"
    using Some by (cases m) auto
  note sub = shape_sublists [OF FILE_FN_RE_sound [OF m]]
  let ?toks = "if truthy ps then split_on CHR ''-'' (the ps) else []"
  have toks: "sublist x raw" if it: "x \<in> token_parts (fold token_step ?toks token_init)"
  proof -
    obtain tok where tok: "tok \<in> set ?toks" "sublist x tok"
      using fold_token_parts [OF it] by (auto simp: token_parts_def token_init_def)
    then have "truthy ps" "sublist tok (the ps)" by (auto split: if_splits intro: sublist_split_on)
    moreover from this have "sublist (the ps) raw" by (intro sub) (auto simp: truthy_def)
    ultimately show ?thesis using tok(2) by (meson sublist_order.order.trans)
  qed
  have "x \<in> set_option path \<union> {fl, fn} \<union> set_option g \<union> token_parts (fold token_step ?toks token_init)"
    using assms unfolding eest_parts_def parse_match [OF m] token_parts_def by (auto split: if_splits)
  then show ?thesis using sub toks by auto
qed

section \<open>Round trip\<close>

text \<open>
  The tokens a test generator writes into the brackets, their text and their meaning. A token
  is well-formed when its text is what the documented syntax allows: no separator of an outer
  level in it, and a value without underscore.
\<close>

datatype eest_token = TFork string | TOpcode string | TGas string | TParam string string | TLabel string

fun token_text :: "eest_token \<Rightarrow> string" where
  "token_text (TFork v) = ''fork_'' @ v"
| "token_text (TOpcode v) = ''opcode_'' @ v"
| "token_text (TGas v) = ''benchmark_'' @ v"
| "token_text (TParam k v) = k @ CHR ''_'' # v"
| "token_text (TLabel l) = l"

fun token_meaning :: "eest_token \<Rightarrow> token_state \<Rightarrow> token_state" where
  "token_meaning (TFork v) s = s\<lparr>ts_fork := Some v\<rparr>"
| "token_meaning (TOpcode v) s = s\<lparr>ts_opcode := Some v\<rparr>"
| "token_meaning (TGas v) s = s\<lparr>ts_benchmark := Some v\<rparr>"
| "token_meaning (TParam k v) s = s\<lparr>ts_params := ts_params s @ [(k, v)]\<rparr>"
| "token_meaning (TLabel l) s = s\<lparr>ts_labels := ts_labels s @ [l]\<rparr>"

definition bracket_char :: "char \<Rightarrow> bool" where
  "bracket_char c \<longleftrightarrow> dot_char c \<and> c \<noteq> CHR '']'' \<and> c \<noteq> CHR ''-'' \<and> c \<noteq> CHR ''/''"

definition value_text :: "string \<Rightarrow> bool" where
  "value_text v \<longleftrightarrow> v \<noteq> [] \<and> CHR ''_'' \<notin> set v"

fun wf_token :: "eest_token \<Rightarrow> bool" where
  "wf_token (TFork v) = (value_text v \<and> list_all bracket_char v)"
| "wf_token (TOpcode v) = (value_text v \<and> list_all bracket_char v)"
| "wf_token (TGas v) = (value_text v \<and> list_all bracket_char v \<and> BENCHMARK_GAS_RE v)"
| "wf_token (TParam k v) =
     (value_text v \<and> list_all bracket_char (k @ v) \<and> k \<noteq> [] \<and> (\<forall>c \<in> set k. \<not> is_space c) \<and>
      k \<notin> {''fork'', ''opcode'', ''benchmark''} \<and> \<not> (k = ''value'' \<and> VALUE_GAS_RE v) \<and>
      k @ CHR ''_'' # v \<notin> set IGNORE_TOKENS)"
| "wf_token (TLabel l) =
     (l \<noteq> [] \<and> list_all bracket_char l \<and> key_value l = None \<and> l \<notin> set IGNORE_TOKENS)"

lemma gas_not_test: "BENCHMARK_GAS_RE v \<Longrightarrow> v \<noteq> ''test''"
  by (auto simp: BENCHMARK_GAS_RE_def is_digit_def)

lemma ignored_underscore: "t \<in> set IGNORE_TOKENS \<Longrightarrow> CHR ''_'' \<in> set t \<Longrightarrow>
    t \<in> {''benchmark_test'', ''blockchain_test'', ''blockchain_test_engine_x''}"
  unfolding IGNORE_TOKENS_def list.set insert_iff
  by (elim disjE; simp only: empty_iff simp_thms) simp_all

lemma ignored_key: "k @ CHR ''_'' # v \<in> set IGNORE_TOKENS \<Longrightarrow> value_text v \<Longrightarrow>
    (k = ''benchmark'' \<and> v = ''test'') \<or> (k = ''blockchain'' \<and> v = ''test'') \<or>
    (k = ''blockchain_test_engine'' \<and> v = ''x'')"
proof -
  assume *: "k @ CHR ''_'' # v \<in> set IGNORE_TOKENS" "value_text v"
  have last: "last_index_of CHR ''_'' (k @ CHR ''_'' # v) = Some (length k)"
    using *(2) by (intro last_index_of_append) (simp add: value_text_def)
  have k: "k = take (length k) (k @ CHR ''_'' # v)" "v = drop (Suc (length k)) (k @ CHR ''_'' # v)"
    by simp_all
  have "CHR ''_'' \<in> set (k @ CHR ''_'' # v)" by simp
  from ignored_underscore [OF *(1) this] consider "k @ CHR ''_'' # v = ''benchmark_test''"
    | "k @ CHR ''_'' # v = ''blockchain_test''" | "k @ CHR ''_'' # v = ''blockchain_test_engine_x''"
    by blast
  then show ?thesis
  proof cases
    case 1
    then have "length k = 9" using last by (simp add: last_index_of_def)
    then show ?thesis using k 1 by (simp add: numeral_eq_Suc)
  next
    case 2
    then have "length k = 10" using last by (simp add: last_index_of_def)
    then show ?thesis using k 2 by (simp add: numeral_eq_Suc)
  next
    case 3
    then have "length k = 22" using last by (simp add: last_index_of_def)
    then show ?thesis using k 3 by (simp add: numeral_eq_Suc)
  qed
qed

lemma token_step_text:
  assumes "wf_token t"
  shows "token_step (token_text t) s = token_meaning t s"
proof -
  have kv: "key_value (k @ CHR ''_'' # v) = Some (k, v)"
    if "value_text v" "k \<noteq> []" "\<forall>c \<in> set k. \<not> is_space c" for k v
    using that by (intro key_value_join) (auto simp: value_text_def)
  have ign: "k @ CHR ''_'' # v \<notin> set IGNORE_TOKENS" if "value_text v" "k \<in> {''fork'', ''opcode''}" for k v
    using ignored_key [of k v] that by auto
  show ?thesis
  proof (cases t)
    case (TFork v)
    then show ?thesis using assms kv [of v "''fork''"] ign [of v "''fork''"]
      by (simp add: token_step_def is_space_def)
  next
    case (TOpcode v)
    then show ?thesis using assms kv [of v "''opcode''"] ign [of v "''opcode''"]
      by (simp add: token_step_def is_space_def)
  next
    case (TGas v)
    then have "''benchmark'' @ CHR ''_'' # v \<notin> set IGNORE_TOKENS"
      using assms ignored_key [of "''benchmark''" v] gas_not_test [of v] by auto
    then show ?thesis using assms TGas kv [of v "''benchmark''"]
      by (simp add: token_step_def is_space_def)
  next
    case (TParam k v)
    then show ?thesis using assms kv [of v k] by (auto simp: token_step_def)
  next
    case (TLabel l)
    then show ?thesis using assms by (simp add: token_step_def)
  qed
qed

lemma fold_token_text:
  "list_all wf_token ts \<Longrightarrow> fold token_step (map token_text ts) s = fold token_meaning ts s"
  by (induction ts arbitrary: s) (simp_all add: token_step_text)

lemma token_text_chars: "wf_token t \<Longrightarrow> token_text t \<noteq> [] \<and> list_all bracket_char (token_text t)"
proof -
  have "bracket_char CHR ''_''" "list_all bracket_char ''fork_''" "list_all bracket_char ''opcode_''"
    "list_all bracket_char ''benchmark_''"
    by (simp_all add: bracket_char_def dot_char_def)
  then show "wf_token t \<Longrightarrow> ?thesis" by (cases t) auto
qed

text \<open>The name of a test with a bracketed parameter list.\<close>

definition render_name ::
    "string option \<Rightarrow> string \<Rightarrow> string \<Rightarrow> string \<Rightarrow> eest_token list \<Rightarrow> string option \<Rightarrow> string \<Rightarrow> string" where
  "render_name path sep file fn ts g ext =
     opt_text [] path ''/'' @ ''test_'' @ file @ ''.py'' @ sep @ ''test_'' @ fn @ ''['' @
     join ''-'' (map token_text ts) @ '']'' @ opt_text ''_'' g [] @ ext"

definition slug :: "string \<Rightarrow> bool" where
  "slug s \<longleftrightarrow> s \<noteq> [] \<and>
     (\<forall>c \<in> set s. dot_char c \<and> c \<noteq> CHR ''/'' \<and> c \<noteq> CHR ''.'' \<and> c \<noteq> CHR ''['')"

lemma slug_dots: "slug s \<Longrightarrow> list_all dot_char s \<and> s \<noteq> []"
  by (simp add: slug_def list_all_iff)

lemma slug_slash: "slug s \<Longrightarrow> CHR ''/'' \<notin> set s"
  by (auto simp: slug_def)

lemma match_params_exact:
  assumes "list_all dot_char b" and "CHR '']'' \<notin> set b" and "match_tail t = Some g"
  shows "match_params (''['' @ b @ '']'' @ t) = Some (Some b, g)"
proof -
  have "first_some (\<lambda>(p, r'). case strip_prefix '']'' r' of None \<Rightarrow> None
         | Some r'' \<Rightarrow> map_option (\<lambda>g. (Some p, g)) (match_tail r''))
       (lazy_star (b @ CHR '']'' # t)) = Some (Some b, g)"
  proof (rule lazy_star_commit)
    fix x y :: string assume "b = x @ y" "y \<noteq> []"
    then obtain c y' where "y = c # y'" "c \<noteq> CHR '']''" using assms(2) by (cases y) auto
    then show "(case (x, y @ CHR '']'' # t) of (p, r') \<Rightarrow> case strip_prefix '']'' r' of None \<Rightarrow> None
         | Some r'' \<Rightarrow> map_option (\<lambda>g. (Some p, g)) (match_tail r'')) = None" by simp
  qed (use assms in auto)
  then show ?thesis by (simp add: match_params_def Let_def)
qed

lemma tail_no_bracket:
  assumes "CHR ''['' \<in> set s"
  shows "match_tail s = None"
proof (rule ccontr)
  assume "match_tail s \<noteq> None"
  then obtain g where "match_tail s = Some g" by auto
  then obtain ext where e: "pred_option gas_text g" "ext \<in> {[], ''.txt''}" "s = opt_text ''_'' g [] @ ext"
    unfolding match_tail_iff by blast
  have "CHR ''['' \<notin> set h" if "gas_text h" for h
  proof -
    have "h = butlast h @ [last h]" using that by (simp add: gas_text_def)
    moreover have "CHR ''['' \<notin> set (butlast h)" "last h \<noteq> CHR ''[''"
      using that by (auto simp: gas_text_def list_all_iff is_digit_def gas_unit_def)
    ultimately show ?thesis by (metis Un_iff set_ConsD empty_iff list.set(1) set_append)
  qed
  with e assms show False by (cases g) auto
qed

lemma match_fn_exact:
  assumes "slug fn" and "list_all dot_char b" and "CHR '']'' \<notin> set b" and "match_tail t = Some g"
  shows "match_fn (fn @ ''['' @ b @ '']'' @ t) = Some (fn, Some b, g)"
  unfolding match_fn_def
proof (rule lazy_plus_commit)
  fix x y assume xy: "fn = x @ y" "x \<noteq> []" "y \<noteq> []"
  then obtain c y' where y: "y = c # y'" "c \<noteq> CHR ''[''" using assms(1) by (cases y) (auto simp: slug_def)
  have "match_tail (y @ ''['' @ b @ '']'' @ t) = None" by (rule tail_no_bracket) simp
  then have "match_params (y @ ''['' @ b @ '']'' @ t) = None"
    using y by (auto simp: match_params_def)
  then show "(case (x, y @ ''['' @ b @ '']'' @ t) of (f, r) \<Rightarrow> map_option (Pair f) (match_params r)) = None"
    by simp
qed (use assms slug_dots match_params_exact in auto)

lemma match_file_exact:
  assumes "slug fl" and "sep \<in> {''__'', ''::''}" and "match_fn r = Some m"
  shows "match_file (''test_'' @ fl @ ''.py'' @ sep @ ''test_'' @ r) = Some (fl, m)"
proof -
  have "first_some (\<lambda>(f, r'). case strip_sep r' of None \<Rightarrow> None
       | Some r'' \<Rightarrow> map_option (Pair f) (match_fn r''))
     (lazy_plus (fl @ (''.py'' @ sep @ ''test_'' @ r))) = Some (fl, m)"
  proof (rule lazy_plus_commit)
    fix x y assume xy: "fl = x @ y" "x \<noteq> []" "y \<noteq> []"
    then obtain c y' where y: "y = c # y'" "c \<noteq> CHR ''.''"
      using assms(1) by (cases y) (auto simp: slug_def)
    have "strip_sep (y @ ''.py'' @ sep @ ''test_'' @ r) = None"
      using y by (auto simp: strip_sep_def strip_prefix_def)
    then show "(case (x, y @ ''.py'' @ sep @ ''test_'' @ r) of (f, r') \<Rightarrow>
        case strip_sep r' of None \<Rightarrow> None | Some r'' \<Rightarrow> map_option (Pair f) (match_fn r'')) = None"
      by simp
  next
    show "(case (fl, ''.py'' @ sep @ ''test_'' @ r) of (f, r') \<Rightarrow>
        case strip_sep r' of None \<Rightarrow> None | Some r'' \<Rightarrow> map_option (Pair f) (match_fn r'')) =
      Some (fl, m)"
      using strip_sep_complete [OF assms(2), of r] assms(3) by simp
  qed (use assms slug_dots in auto)
  then show ?thesis unfolding match_file_def strip_prefix_append by simp
qed

text \<open>A path is unambiguous when none of its segments looks like a file name.\<close>

definition plain_path :: "string option \<Rightarrow> bool" where
  "plain_path path = pred_option (\<lambda>p. p \<noteq> [] \<and> list_all dot_char p \<and> \<not> str_includes p ''/test_'') path"

lemma test_prefix:
  assumes "prefix ''test_'' (b @ CHR ''/'' # r)"
  shows "prefix ''test_'' b"
proof -
  have "prefix (b @ ''/'') (b @ CHR ''/'' # r)" by simp
  then have "prefix ''test_'' (b @ ''/'') \<or> prefix (b @ ''/'') ''test_''"
    using assms prefix_same_cases by blast
  moreover have "\<not> prefix (b @ ''/'') ''test_''"
  proof
    assume "prefix (b @ ''/'') ''test_''"
    then have "set (b @ ''/'') \<subseteq> set ''test_''" by (rule set_mono_prefix)
    then show False by simp
  qed
  ultimately have "prefix ''test_'' (b @ [CHR ''/''])" by simp
  then have "''test_'' = b @ [CHR ''/''] \<or> prefix ''test_'' b" by (simp only: prefix_snoc)
  moreover have "''test_'' \<noteq> b @ [CHR ''/'']"
  proof
    assume "''test_'' = b @ [CHR ''/'']"
    then have "last ''test_'' = CHR ''/''" by (metis last_snoc)
    then show False by simp
  qed
  ultimately show ?thesis by blast
qed

lemma FILE_FN_RE_exact:
  assumes "plain_path path" and "CHR ''/'' \<notin> set r" and "match_file r = Some m"
  shows "FILE_FN_RE (opt_text [] path ''/'' @ r) = Some (path, m)"
proof (cases path)
  case None
  have "strip_prefix ''/'' y = None" if "r = x @ y" for x y
    using assms(2) that by (cases y) auto
  then have "first_some (\<lambda>(p, r). case strip_prefix ''/'' r of None \<Rightarrow> None
      | Some r' \<Rightarrow> map_option (Pair (Some p)) (match_file r')) (lazy_plus r) = None"
    unfolding first_some_None by (auto simp: lazy_plus_iff)
  then show ?thesis using None assms(3) by (simp add: FILE_FN_RE_def)
next
  case (Some p)
  have p: "p \<noteq> []" "list_all dot_char p" "\<not> str_includes p ''/test_''"
    using assms(1) Some by (auto simp: plain_path_def)
  have "first_some (\<lambda>(p, r). case strip_prefix ''/'' r of None \<Rightarrow> None
      | Some r' \<Rightarrow> map_option (Pair (Some p)) (match_file r')) (lazy_plus (p @ CHR ''/'' # r)) =
    Some (Some p, m)"
  proof (rule lazy_plus_commit)
    fix x y assume xy: "p = x @ y" "x \<noteq> []" "y \<noteq> []"
    then obtain c y' where y: "y = c # y'" by (cases y) auto
    have "match_file (y' @ CHR ''/'' # r) = None" if "c = CHR ''/''"
    proof (rule ccontr)
      assume "match_file (y' @ CHR ''/'' # r) \<noteq> None"
      then have "prefix ''test_'' (y' @ CHR ''/'' # r)"
        by (auto simp: match_file_def strip_prefix_def split: option.splits if_splits)
      then have "prefix ''test_'' y'" by (rule test_prefix)
      then have "p = x @ ''/test_'' @ drop 5 y'" using xy y that by (auto simp: prefix_def)
      then show False using p(3) includes_append by metis
    qed
    then show "(case (x, y @ CHR ''/'' # r) of (p, r) \<Rightarrow> case strip_prefix ''/'' r of None \<Rightarrow> None
      | Some r' \<Rightarrow> map_option (Pair (Some p)) (match_file r')) = None"
      using y by (cases "c = CHR ''/''") simp_all
  qed (use p assms(3) in auto)
  then show ?thesis using Some by (simp add: FILE_FN_RE_def)
qed

lemma match_tail_Some:
  "pred_option gas_text g \<Longrightarrow> ext \<in> {[], ''.txt''} \<Longrightarrow> match_tail (opt_text ''_'' g [] @ ext) = Some g"
  unfolding match_tail_iff by blast

lemma tail_no_slash:
  assumes "pred_option gas_text g" and "ext \<in> {[], ''.txt''}"
  shows "CHR ''/'' \<notin> set (opt_text ''_'' g [] @ ext)"
proof (cases g)
  case (Some h)
  then have "h = butlast h @ [last h]" "CHR ''/'' \<notin> set (butlast h)" "last h \<noteq> CHR ''/''"
    using assms(1) by (auto simp: gas_text_def list_all_iff is_digit_def gas_unit_def)
  then have "CHR ''/'' \<notin> set h" by (metis Un_iff set_ConsD empty_iff list.set(1) set_append)
  then show ?thesis using Some assms(2) by auto
qed (use assms(2) in auto)

lemma block_chars:
  assumes "list_all wf_token ts"
  shows "list_all dot_char (join ''-'' (map token_text ts))"
    and "CHR '']'' \<notin> set (join ''-'' (map token_text ts))"
    and "CHR ''/'' \<notin> set (join ''-'' (map token_text ts))"
proof -
  have "c \<in> set (join ''-'' (map token_text ts)) \<Longrightarrow> c = CHR ''-'' \<or> bracket_char c" for c
    using set_join [of "''-''" "map token_text ts"] assms token_text_chars
    by (fastforce simp: list_all_iff)
  moreover have "dot_char CHR ''-''" by (simp add: dot_char_def)
  ultimately show "list_all dot_char (join ''-'' (map token_text ts))"
    "CHR '']'' \<notin> set (join ''-'' (map token_text ts))" "CHR ''/'' \<notin> set (join ''-'' (map token_text ts))"
    by (auto simp: list_all_iff bracket_char_def)
qed

lemma FILE_FN_RE_render:
  assumes "plain_path path" and "sep \<in> {''__'', ''::''}" and "slug fl" and "slug fn"
    and "list_all wf_token ts" and "pred_option gas_text g" and "ext \<in> {[], ''.txt''}"
  shows "FILE_FN_RE (render_name path sep fl fn ts g ext) =
    Some (path, fl, fn, Some (join ''-'' (map token_text ts)), g)"
proof -
  let ?b = "join ''-'' (map token_text ts)" and ?t = "opt_text ''_'' g [] @ ext"
  let ?r = "''test_'' @ fl @ ''.py'' @ sep @ ''test_'' @ fn @ ''['' @ ?b @ '']'' @ ?t"
  have "match_fn (fn @ ''['' @ ?b @ '']'' @ ?t) = Some (fn, Some ?b, g)"
    using assms block_chars match_tail_Some by (intro match_fn_exact) auto
  then have "match_file ?r = Some (fl, fn, Some ?b, g)"
    using assms by (intro match_file_exact) auto
  moreover have "CHR ''/'' \<notin> set ?r"
  proof -
    have "CHR ''/'' \<notin> set fl" "CHR ''/'' \<notin> set fn"
      using slug_slash [OF assms(3)] slug_slash [OF assms(4)] by simp_all
    moreover have "CHR ''/'' \<notin> set sep" using assms(2) by fastforce
    ultimately show ?thesis using block_chars(3) [OF assms(5)] tail_no_slash [OF assms(6,7)] by simp
  qed
  ultimately show ?thesis
    using FILE_FN_RE_exact [OF assms(1), of ?r] by (simp add: render_name_def)
qed

text \<open>C1: Parsing a generated name recovers what was written: path (unless it is a numeric run
  id), file and function, and the meaning of the token list; a trailing gas amount counts only
  when the brackets hold none.\<close>

theorem eest_name_roundtrip:
  assumes "plain_path path" and "sep \<in> {''__'', ''::''}" and "slug file" and "slug fn"
    and "list_all wf_token ts" and "pred_option gas_text g" and "ext \<in> {[], ''.txt''}"
    and "p = parseEESTNameUncached (render_name path sep file fn ts g ext)"
    and "s = fold token_meaning ts token_init"
  shows "en_isEEST p \<and> en_file p = Some file \<and> en_fn p = Some fn \<and>
    en_path p = (if pred_option (list_all is_digit) path then None else path) \<and>
    en_fork p = ts_fork s \<and> en_opcode p = ts_opcode s \<and> en_params p = ts_params s \<and>
    en_labels p = ts_labels s \<and>
    en_benchmark p = (if ts_benchmark s = None then g else ts_benchmark s)"
proof -
  let ?b = "join ''-'' (map token_text ts)"
  note m = parse_match [OF FILE_FN_RE_render [OF assms(1-7)], folded assms(8)]
  have toks: "(if truthy (Some ?b) then split_on CHR ''-'' (the (Some ?b)) else []) = map token_text ts"
  proof (cases "ts = []")
    case False
    then have "split_on CHR ''-'' ?b = map token_text ts"
      using assms(5) token_text_chars
      by (intro split_on_join) (fastforce simp: list_all_iff bracket_char_def)+
    moreover have "?b \<noteq> []"
      using False assms(5) token_text_chars by (subst join_Nil_iff) (auto simp: list_all_iff)
    ultimately show ?thesis by (simp add: truthy_def)
  qed (simp add: truthy_def)
  have st: "fold token_step (map token_text ts) token_init = s"
    using assms(5,9) by (simp add: fold_token_text)
  have "ts_benchmark (fold token_meaning ts u) \<noteq> Some []" if "ts_benchmark u \<noteq> Some []" for u
    using assms(5) that
  proof (induction ts arbitrary: u)
    case (Cons t ts)
    then show ?case by (cases t) (auto simp: value_text_def)
  qed simp
  then have bm: "ts_benchmark s \<noteq> Some []" using assms(9) by (simp add: token_init_def)
  have g: "truthy g \<longleftrightarrow> g \<noteq> None" using assms(6) by (cases g) (auto simp: truthy_def gas_text_def)
  have path: "truthy path \<longleftrightarrow> path \<noteq> None"
    using assms(1) by (cases path) (auto simp: truthy_def plain_path_def)
  show ?thesis
    using m unfolding toks st using bm g path
    by (cases path; cases g) (auto simp: truthy_def)
qed

theorem eest_name_roundtrip_witness:
  "en_opcode (parseEESTNameUncached (render_name (Some ''compute'') ''::'' ''log'' ''log''
     [TOpcode ''LOG1'', TParam ''size'' ''32''] (Some ''90M'') ''.txt'')) = Some ''LOG1''"
  using eest_name_roundtrip [of "Some ''compute''" "''::''" "''log''" "''log''"
      "[TOpcode ''LOG1'', TParam ''size'' ''32'']" "Some ''90M''" "''.txt''", OF _ _ _ _ _ _ _ refl refl]
  by (simp add: plain_path_def dot_char_def slug_def value_text_def bracket_char_def is_space_def
      IGNORE_TOKENS_def gas_text_def is_digit_def gas_unit_def token_init_def VALUE_GAS_RE_def)

text \<open>Every part the parser extracts is a piece of the raw name, so free text that is found in
  a part is found in the name.\<close>

theorem eest_parts_are_pieces:
  assumes "x \<in> eest_parts (parseEESTNameUncached raw)"
  shows "str_includes raw x"
  using eest_parts_sublist [OF assms] by (simp add: includes_sublist)

theorem eest_parts_are_pieces_witness:
  "str_includes ''test_a.py__test_b[opcode_ADD]'' ''ADD''"
  by (rule eest_parts_are_pieces) code_simp


section \<open>The parse cache\<close>

definition cache_sound :: "name_cache \<Rightarrow> bool" where
  "cache_sound cache \<longleftrightarrow> (\<forall>raw p. map_of cache raw = Some p \<longrightarrow> p = parseEESTNameUncached raw)"

interpretation parse_cache: machine "\<lambda>cache raw. snd (parseEESTName raw cache)" "\<lambda>_. True" cache_sound
  by unfold_locales
    (auto simp: cache_sound_def parseEESTName_def Let_def jm.get_put split: option.splits if_splits)

text \<open>C3: The cache is transparent: after any sequence of look-ups that started with the empty
  cache, the cached parser answers what the uncached one computes.\<close>

theorem parse_cache_transparent:
  "fst (parseEESTName raw (run (\<lambda>cache name. snd (parseEESTName name cache)) [] names)) =
   parseEESTNameUncached raw"
proof -
  have "cache_sound (run (\<lambda>cache name. snd (parseEESTName name cache)) [] names)"
    by (rule parse_cache.inv_run) (simp_all add: cache_sound_def list_all_iff)
  then show ?thesis
    by (auto simp: parseEESTName_def cache_sound_def Let_def split: option.splits)
qed

end
