(* ===== verification/Eest_Filter.thy ===== *)
theory Eest_Filter
  imports Eest_Name
begin

text \<open>
  The search language over test names, \<open>ui/src/utils/eestNameFilter.ts\<close>. The look-ups of
  \<open>FIELD_ALIASES\<close> are those of its own keys. Parsing a name goes through the cache of
  \<open>Eest_Name\<close>, which is transparent, so the model calls the uncached parser.
\<close>

section \<open>Terms\<close>

definition FIELD_ALIASES :: "string \<Rightarrow> string option" where
  "FIELD_ALIASES = map_of
     [(''fn'', ''fn''), (''function'', ''fn''), (''file'', ''file''), (''path'', ''path''),
      (''fork'', ''fork''), (''opcode'', ''opcode''), (''gas'', ''benchmark''),
      (''benchmark'', ''benchmark''), (''label'', ''label'')]"

record StructuredTerm =
  sm_key :: string
  sm_value :: string
  sm_exact :: bool

definition parseStructuredTerm :: "string \<Rightarrow> StructuredTerm option" where
  "parseStructuredTerm term =
     (let colonIdx = index_of CHR '':'' term;
          eqIdx = index_of CHR ''='' term;
          sep = (case eqIdx of
                   Some e \<Rightarrow>
                     if e > 0 \<and> (case colonIdx of None \<Rightarrow> True | Some c \<Rightarrow> e < c) then Some (e, True)
                     else (case colonIdx of Some c \<Rightarrow> if c > 0 then Some (c, False) else None | None \<Rightarrow> None)
                 | None \<Rightarrow> (case colonIdx of Some c \<Rightarrow> if c > 0 then Some (c, False) else None | None \<Rightarrow> None))
      in case sep of
           None \<Rightarrow> None
         | Some (i, exact) \<Rightarrow>
             if i = length term - 1 then None
             else Some \<lparr>sm_key = to_lower (take i term), sm_value = to_lower (drop (i + 1) term),
                        sm_exact = exact\<rparr>)"

text \<open>The comparison of a field with the value of a term, \<open>cmp\<close> in \<open>matchesField\<close>.\<close>

definition cmp_field :: "StructuredTerm \<Rightarrow> string option \<Rightarrow> bool" where
  "cmp_field t haystack =
     (case haystack of
        None \<Rightarrow> False
      | Some h \<Rightarrow> if sm_exact t then to_lower h = sm_value t else str_includes (to_lower h) (sm_value t))"

definition canonical_key :: "string \<Rightarrow> string" where
  "canonical_key k = (case FIELD_ALIASES k of Some f \<Rightarrow> f | None \<Rightarrow> k)"

definition matchesField :: "EESTNameParts \<Rightarrow> StructuredTerm \<Rightarrow> bool" where
  "matchesField parsed t =
     (if sm_value t = [] then True
      else let k = canonical_key (sm_key t) in
        if k = ''fn'' then cmp_field t (en_fn parsed)
        else if k = ''file'' then cmp_field t (en_file parsed)
        else if k = ''path'' then cmp_field t (en_path parsed)
        else if k = ''fork'' then cmp_field t (en_fork parsed)
        else if k = ''opcode'' then cmp_field t (en_opcode parsed)
        else if k = ''benchmark'' then cmp_field t (en_benchmark parsed)
        else if k = ''label'' then list_ex (\<lambda>l. cmp_field t (Some l)) (en_labels parsed)
        else list_ex (\<lambda>(pk, v). to_lower pk = sm_key t \<and> cmp_field t (Some v)) (en_params parsed))"


section \<open>Queries\<close>

definition add_term :: "string \<Rightarrow> string list \<times> StructuredTerm list \<Rightarrow> string list \<times> StructuredTerm list" where
  "add_term t acc =
     (let (freeText, structured) = acc
      in case parseStructuredTerm t of
           Some s \<Rightarrow> (freeText, structured @ [s])
         | None \<Rightarrow> (freeText @ [to_lower t], structured))"

definition compileQuery :: "string \<Rightarrow> string \<Rightarrow> bool" where
  "compileQuery query =
     (let trimmed = trim query
      in if trimmed = [] then (\<lambda>name. True)
         else let (freeText, structured) = fold add_term (split_ws trimmed) ([], [])
              in (\<lambda>name. list_all (\<lambda>t. str_includes (to_lower name) t) freeText \<and>
                         list_all (matchesField (parseEESTNameUncached name)) structured))"

definition testNameMatches :: "string \<Rightarrow> string \<Rightarrow> bool" where
  "testNameMatches name query = compileQuery query name"

definition splitQuery :: "string \<Rightarrow> string list" where
  "splitQuery query = filter (\<lambda>t. t \<noteq> []) (split_ws (trim query))"

definition queryTermDimension :: "string \<Rightarrow> string option" where
  "queryTermDimension t = map_option (\<lambda>s. canonical_key (sm_key s)) (parseStructuredTerm t)"

definition queryWithoutDimension :: "string \<Rightarrow> string \<Rightarrow> string" where
  "queryWithoutDimension query canonicalDim =
     join '' '' (filter (\<lambda>t. queryTermDimension t \<noteq> Some canonicalDim) (splitQuery query))"

definition searchQueryContains :: "string \<Rightarrow> string \<Rightarrow> bool" where
  "searchQueryContains query t = list_ex (\<lambda>u. to_lower u = to_lower t) (splitQuery query)"

text \<open>\<open>findIndex\<close> and \<open>splice(idx, 1)\<close>: remove the first token the predicate holds of.\<close>

fun remove_first :: "('a \<Rightarrow> bool) \<Rightarrow> 'a list \<Rightarrow> 'a list" where
  "remove_first P [] = []"
| "remove_first P (x # xs) = (if P x then xs else x # remove_first P xs)"

definition toggleSearchTerm :: "string \<Rightarrow> string \<Rightarrow> string" where
  "toggleSearchTerm query t =
     (let toks = splitQuery query; hit = (\<lambda>u. to_lower u = to_lower t)
      in join '' '' (if list_ex hit toks then remove_first hit toks else toks @ [t]))"


section \<open>Tokens of a query\<close>

abbreviation toks :: "string \<Rightarrow> string list" where
  "toks s \<equiv> filter (\<lambda>t. t \<noteq> []) (split_ws s)"

lemma split_ws_step:
  "dropWhile (\<lambda>c. \<not> is_space c) s \<noteq> [] \<Longrightarrow>
    split_ws s = takeWhile (\<lambda>c. \<not> is_space c) s #
      split_ws (dropWhile is_space (dropWhile (\<lambda>c. \<not> is_space c) s))"
  by (subst split_ws.simps) (simp only: Let_def if_False)

lemma toks_Nil [simp]: "toks [] = []"
  by (subst split_ws.simps) simp

lemma toks_skip: "toks (dropWhile is_space s) = toks s"
proof (cases "s \<noteq> [] \<and> is_space (hd s)")
  case True
  then obtain c r where s: "s = c # r" "is_space c" by (cases s) auto
  then have "split_ws s = [] # split_ws (dropWhile is_space s)"
    by (subst split_ws.simps) simp
  then show ?thesis by simp
next
  case False
  then have "dropWhile is_space s = s" by (cases s) auto
  then show ?thesis by simp
qed

lemma toks_space: "is_space c \<Longrightarrow> toks (c # s) = toks s"
  using toks_skip [of "c # s"] toks_skip [of s] by simp

lemma toks_skip_append: "toks (dropWhile is_space r @ s) = toks (r @ s)"
  by (induction r) (simp_all add: toks_space)

lemma toks_append_space: "is_space c \<Longrightarrow> toks (a @ c # b) = toks a @ toks b"
proof (induction a rule: split_ws.induct)
  case (1 a)
  let ?w = "takeWhile (\<lambda>c. \<not> is_space c) a" and ?r = "dropWhile (\<lambda>c. \<not> is_space c) a"
  let ?a = "a @ c # b"
  have tw: "takeWhile (\<lambda>c. \<not> is_space c) ?a = ?w"
    using 1(2) by (induction a) auto
  have dw: "dropWhile (\<lambda>c. \<not> is_space c) ?a = ?r @ c # b"
    using 1(2) by (induction a) auto
  have step: "split_ws ?a = ?w # split_ws (dropWhile is_space (?r @ c # b))"
    using split_ws_step [of ?a] by (simp add: tw dw)
  show ?case
  proof (cases "?r = []")
    case True
    then have "split_ws a = [?w]" by (subst split_ws.simps) (simp add: Let_def)
    moreover have "split_ws ?a = ?w # split_ws (dropWhile is_space b)"
      using step True 1(2) by simp
    ultimately show ?thesis using toks_skip [of b] by simp
  next
    case False
    then have "split_ws a = ?w # split_ws (dropWhile is_space ?r)" by (rule split_ws_step)
    moreover have "toks (?r @ c # b) = toks (dropWhile is_space ?r @ c # b)"
      by (simp add: toks_skip_append)
    moreover have "toks (dropWhile is_space ?r @ c # b) = toks (dropWhile is_space ?r) @ toks b"
      by (rule 1(1) [OF refl refl False 1(2)])
    ultimately show ?thesis using step toks_skip [of "?r @ c # b"] by simp
  qed
qed

lemma toks_trailing: "\<forall>c \<in> set e. is_space c \<Longrightarrow> toks (a @ e) = toks a"
proof (cases e)
  case (Cons c e')
  assume *: "\<forall>c \<in> set e. is_space c"
  then have "toks e' = []" using Cons by (induction e' arbitrary: c e) (auto simp: toks_space)
  then show ?thesis using * Cons toks_append_space [of c a e'] by simp
qed simp

lemma toks_trim: "toks (trim s) = toks s"
proof -
  let ?t = "trim_start s"
  have "rev (dropWhile is_space (rev ?t)) @ rev (takeWhile is_space (rev ?t)) = ?t"
    by (metis rev_append rev_rev_ident takeWhile_dropWhile_id)
  moreover have "\<forall>c \<in> set (rev (takeWhile is_space (rev ?t))). is_space c"
    by (auto dest: set_takeWhileD)
  ultimately have "toks (trim s) = toks ?t" unfolding trim_def by (metis toks_trailing)
  then show ?thesis by (simp add: trim_start_def toks_skip)
qed

lemma splitQuery_toks: "splitQuery q = toks q"
  by (simp add: splitQuery_def toks_trim)

lemma splitQuery_append: "splitQuery (p @ '' '' @ q) = splitQuery p @ splitQuery q"
  by (simp add: splitQuery_toks toks_append_space)

lemma splitQuery_word: "t \<in> set (splitQuery q) \<Longrightarrow> word t"
  using split_ws_pieces by (auto simp: splitQuery_def)

lemma splitQuery_join: "list_all word ws \<Longrightarrow> splitQuery (join '' '' ws) = ws"
proof (cases "ws = []")
  case False
  assume *: "list_all word ws"
  then have "toks (join '' '' ws) = filter (\<lambda>t. t \<noteq> []) ws" using False by (simp add: split_ws_join)
  also have "\<dots> = ws" using * by (auto simp: list_all_iff word_def intro!: filter_True)
  finally show ?thesis by (simp add: splitQuery_toks)
qed (simp add: splitQuery_toks)

lemma splitQuery_words: "list_all word (splitQuery q)"
  using splitQuery_word by (simp add: list_all_iff)


section \<open>What a query means\<close>

definition term_matches :: "string \<Rightarrow> string \<Rightarrow> bool" where
  "term_matches t name =
     (case parseStructuredTerm t of
        Some s \<Rightarrow> matchesField (parseEESTNameUncached name) s
      | None \<Rightarrow> str_includes (to_lower name) (to_lower t))"

lemma fold_add_term:
  "fold add_term ts (f, st) =
     (f @ List.map_filter (\<lambda>t. case parseStructuredTerm t of None \<Rightarrow> Some (to_lower t) | _ \<Rightarrow> None) ts,
      st @ List.map_filter parseStructuredTerm ts)"
  by (induction ts arbitrary: f st) (auto simp: add_term_def map_filter_simps split: option.splits)

lemma list_all_map_filter:
  "list_all P (List.map_filter f xs) \<longleftrightarrow> (\<forall>x \<in> set xs. \<forall>y. f x = Some y \<longrightarrow> P y)"
  by (induction xs) (auto simp: map_filter_simps split: option.splits)

lemma includes_Nil [simp]: "str_includes s []"
  by (cases s) auto

lemma term_matches_Nil: "term_matches [] name"
  by (simp add: term_matches_def parseStructuredTerm_def to_lower_def)

lemma compileQuery_iff: "compileQuery q name \<longleftrightarrow> (\<forall>t \<in> set (splitQuery q). term_matches t name)"
proof (cases "trim q = []")
  case True
  then have "splitQuery q = []" unfolding splitQuery_def by (simp only: toks_Nil)
  then show ?thesis using True by (simp add: compileQuery_def)
next
  case False
  then have "compileQuery q name \<longleftrightarrow> (\<forall>t \<in> set (split_ws (trim q)). term_matches t name)"
    by (auto simp: compileQuery_def Let_def fold_add_term list_all_map_filter term_matches_def
        split: option.splits)
  then show ?thesis using term_matches_Nil by (auto simp: splitQuery_def)
qed

section \<open>Properties\<close>

text \<open>A query is the conjunction of its terms: putting two queries side by side selects the
  names both select, so the order and the spacing of the terms are irrelevant.\<close>

theorem query_conjunction:
  "compileQuery (p @ '' '' @ q) name \<longleftrightarrow> compileQuery p name \<and> compileQuery q name"
  unfolding compileQuery_iff splitQuery_append by auto

lemma remove_first_none: "\<not> list_ex P xs \<Longrightarrow> P x \<Longrightarrow> remove_first P (xs @ [x]) = xs"
  by (induction xs) auto

lemma toggle_absent:
  assumes "word t" and "\<not> searchQueryContains q t"
  shows "splitQuery (toggleSearchTerm q t) = splitQuery q @ [t]"
proof -
  have "toggleSearchTerm q t = join '' '' (splitQuery q @ [t])"
    using assms(2) by (simp add: toggleSearchTerm_def searchQueryContains_def Let_def)
  moreover have "list_all word (splitQuery q @ [t])" using assms(1) splitQuery_words [of q] by simp
  ultimately show ?thesis by (metis splitQuery_join)
qed

text \<open>Toggling a term that a query does not contain adds it: the new query contains it,
  selects the names that also match the term, and toggling again restores the query with its
  spacing normalised.\<close>

theorem toggle_term:
  assumes "word t" and "\<not> searchQueryContains q t"
  shows "searchQueryContains (toggleSearchTerm q t) t \<and>
    (\<forall>name. compileQuery (toggleSearchTerm q t) name \<longleftrightarrow> compileQuery q name \<and> compileQuery t name) \<and>
    toggleSearchTerm (toggleSearchTerm q t) t = join '' '' (splitQuery q)"
proof -
  note sp = toggle_absent [OF assms]
  have t: "splitQuery t = [t]" using splitQuery_join [of "[t]"] assms(1) by simp
  have "remove_first (\<lambda>u. to_lower u = to_lower t) (splitQuery q @ [t]) = splitQuery q"
    using assms(2) by (intro remove_first_none) (simp_all add: searchQueryContains_def)
  then have "toggleSearchTerm (toggleSearchTerm q t) t = join '' '' (splitQuery q)"
    unfolding toggleSearchTerm_def [of "toggleSearchTerm q t"] sp by simp
  then show ?thesis
    by (auto simp: searchQueryContains_def sp compileQuery_iff t)
qed

theorem toggle_term_witness:
  "toggleSearchTerm (toggleSearchTerm ''fork:Osaka   log'' ''opcode=ADD'') ''opcode=ADD'' =
    ''fork:Osaka log''"
proof -
  have sp: "splitQuery ''fork:Osaka   log'' = [''fork:Osaka'', ''log'']" by code_simp
  have "word ''opcode=ADD''" by (simp add: word_def is_space_def)
  moreover have "\<not> searchQueryContains ''fork:Osaka   log'' ''opcode=ADD''" by code_simp
  ultimately show ?thesis
    using toggle_term [of "''opcode=ADD''" "''fork:Osaka   log''"] by (simp add: sp)
qed

text \<open>Dropping a dimension from a query keeps exactly the terms of the other dimensions, in
  order, and splits the query in two: a name matches the query when it matches the rest and the
  dropped terms. So the facet counts computed with the rest are never smaller.\<close>

theorem query_without_dimension:
  "splitQuery (queryWithoutDimension q d) =
     filter (\<lambda>t. queryTermDimension t \<noteq> Some d) (splitQuery q) \<and>
   (compileQuery q name \<longleftrightarrow> compileQuery (queryWithoutDimension q d) name \<and>
     compileQuery (join '' '' (filter (\<lambda>t. queryTermDimension t = Some d) (splitQuery q))) name)"
proof -
  have sub: "splitQuery (join '' '' (filter P (splitQuery q))) = filter P (splitQuery q)" for P
    by (rule splitQuery_join) (use splitQuery_words [of q] in \<open>auto simp: list_all_iff\<close>)
  show ?thesis unfolding queryWithoutDimension_def compileQuery_iff sub by auto
qed

lemma sublist_to_lower: "sublist s t \<Longrightarrow> sublist (to_lower s) (to_lower t)"
  by (simp add: to_lower_def map_mono_sublist)

lemma cmp_field_includes:
  assumes "cmp_field t x" and "\<And>h. x = Some h \<Longrightarrow> sublist h raw"
  shows "str_includes (to_lower raw) (sm_value t)"
proof -
  obtain h where h: "x = Some h" using assms(1) by (cases x) (simp_all add: cmp_field_def)
  then have "sublist (to_lower h) (to_lower raw)" using assms(2) by (simp add: sublist_to_lower)
  moreover have "sublist (sm_value t) (to_lower h)"
    using assms(1) h by (auto simp: cmp_field_def includes_sublist split: if_splits)
  ultimately show ?thesis
    unfolding includes_sublist by (meson sublist_order.order.trans)
qed

lemma matchesField_includes:
  assumes "matchesField (parseEESTNameUncached raw) t"
  shows "str_includes (to_lower raw) (sm_value t)"
proof (cases "sm_value t = []")
  case False
  let ?p = "parseEESTNameUncached raw"
  have "\<exists>x. cmp_field t x \<and> (\<forall>h. x = Some h \<longrightarrow> h \<in> eest_parts ?p)"
    using assms False
    by (force simp: matchesField_def Let_def eest_parts_def list_ex_iff split: if_splits)
  then show ?thesis using cmp_field_includes eest_parts_sublist by blast
qed simp

text \<open>A structured term only narrows free text: a name whose field matches \<open>key:value\<close> or
  \<open>key=value\<close> is also found by typing the value alone, and exact terms select no more than
  substring terms.\<close>

theorem structured_narrows_free_text:
  assumes "parseStructuredTerm t = Some s" and "term_matches t name"
  shows "str_includes (to_lower name) (sm_value s) \<and>
    matchesField (parseEESTNameUncached name) (s\<lparr>sm_exact := False\<rparr>)"
proof -
  let ?p = "parseEESTNameUncached name"
  have m: "matchesField ?p s" using assms by (simp add: term_matches_def)
  have sub: "cmp_field s x \<Longrightarrow> cmp_field (s\<lparr>sm_exact := False\<rparr>) x" for x
    by (cases x) (auto simp: cmp_field_def includes_sublist split: if_splits)
  then have "matchesField ?p (s\<lparr>sm_exact := False\<rparr>)"
    using m unfolding matchesField_def Let_def list_ex_iff
    by (simp split: if_splits) (use sub in blast)+
  then show ?thesis using matchesField_includes [OF m] by simp
qed

theorem structured_narrows_free_text_witness:
  "str_includes (to_lower ''test_a.py__test_b[opcode_ADD]'') ''add''"
proof -
  have p: "parseStructuredTerm ''opcode=ADD'' =
      Some \<lparr>sm_key = ''opcode'', sm_value = ''add'', sm_exact = True\<rparr>" by code_simp
  have "term_matches ''opcode=ADD'' ''test_a.py__test_b[opcode_ADD]''" by code_simp
  from structured_narrows_free_text [OF p this] show ?thesis by simp
qed

end
