(* ===== verification/Dashboard.thy ===== *)
theory Dashboard
  imports Stats Eest_Filter
begin

text \<open>
  The data pipeline of the block-log dashboard, \<open>hooks/useProcessedData.ts\<close>, and its state in
  the URL, \<open>hooks/useDashboardState.ts\<close>. \<open>String.prototype.localeCompare\<close> is the parameter
  \<open>lc\<close>, a comparator of texts.
\<close>

section \<open>Block logs\<close>

record BlockLogBlock =
  bb_number :: real
  bb_hash :: string
  bb_gas_used :: real
  bb_tx_count :: real

record BlockLogTiming =
  bt_execution_ms :: real
  bt_state_read_ms :: real
  bt_state_hash_ms :: real
  bt_commit_ms :: real
  bt_total_ms :: real

record BlockLogCacheEntry =
  ce_hits :: real
  ce_misses :: real
  ce_hit_rate :: real

record BlockLogCodeCache = BlockLogCacheEntry +
  cc_hit_bytes :: real
  cc_miss_bytes :: real

record BlockLogCache =
  bc_account :: BlockLogCacheEntry
  bc_storage :: BlockLogCacheEntry
  bc_code :: "BlockLogCodeCache option"

record BlockLogStateReads =
  br_accounts :: real
  br_storage_slots :: real
  br_code :: "real option"
  br_code_bytes :: "real option"

record BlockLogStateWrites =
  bw_accounts :: real
  bw_accounts_deleted :: "real option"
  bw_storage_slots :: real
  bw_storage_slots_deleted :: "real option"
  bw_code :: "real option"
  bw_code_bytes :: "real option"

record BlockLogEntry =
  be_block :: BlockLogBlock
  be_timing :: "BlockLogTiming option"
  be_mgas_per_sec :: "real option"
  be_state_reads :: "BlockLogStateReads option"
  be_state_writes :: "BlockLogStateWrites option"
  be_cache :: "BlockLogCache option"


section \<open>From block logs to rows\<close>

definition or_zero :: "real option \<Rightarrow> real" where
  "or_zero x = (case x of None \<Rightarrow> 0 | Some v \<Rightarrow> v)"

definition to_row :: "(string \<Rightarrow> real option) \<Rightarrow> string \<times> BlockLogEntry \<Rightarrow> ProcessedTestData" where
  "to_row executionOrder te =
     (let (name, entry) = te;
          timing = be_timing entry; cache = be_cache entry;
          sr = or_zero (map_option bt_state_read_ms timing);
          sh = or_zero (map_option bt_state_hash_ms timing);
          cm = or_zero (map_option bt_commit_ms timing);
          code_cache = Option.bind cache bc_code
      in \<lparr>testName = name,
          testOrder = executionOrder name,
          category = parseCategory name,
          throughput = or_zero (be_mgas_per_sec entry),
          executionMs = or_zero (map_option bt_execution_ms timing),
          totalMs = or_zero (map_option bt_total_ms timing),
          overheadMs = sr + sh + cm,
          stateReadMs = sr, stateHashMs = sh, commitMs = cm,
          accountCacheHitRate = or_zero (map_option (ce_hit_rate \<circ> bc_account) cache),
          storageCacheHitRate = or_zero (map_option (ce_hit_rate \<circ> bc_storage) cache),
          codeCacheHitRate = map_option ce_hit_rate code_cache,
          accountCacheHits = or_zero (map_option (ce_hits \<circ> bc_account) cache),
          accountCacheMisses = or_zero (map_option (ce_misses \<circ> bc_account) cache),
          storageCacheHits = or_zero (map_option (ce_hits \<circ> bc_storage) cache),
          storageCacheMisses = or_zero (map_option (ce_misses \<circ> bc_storage) cache),
          codeCacheHits = map_option ce_hits code_cache,
          codeCacheMisses = map_option ce_misses code_cache,
          gasUsed = bb_gas_used (be_block entry),
          txCount = bb_tx_count (be_block entry),
          normalizedThroughput = 0, normalizedSpeed = 0, normalizedLowOverhead = 0,
          normalizedAccountCache = 0, normalizedCodeCache = 0\<rparr>)"

text \<open>The filters before the outliers are counted: category, search, throughput range.\<close>

definition keep_row :: "DashboardState \<Rightarrow> string \<Rightarrow> ProcessedTestData \<Rightarrow> bool" where
  "keep_row state searchQuery d \<longleftrightarrow>
     (categories state = [] \<or> category_name (category d) \<in> set (categories state)) \<and>
     (searchQuery = [] \<or> compileQuery searchQuery (testName d)) \<and>
     (case stMinThroughput state of None \<Rightarrow> True | Some m \<Rightarrow> throughput d \<ge> m) \<and>
     (case stMaxThroughput state of None \<Rightarrow> True | Some m \<Rightarrow> throughput d \<le> m)"

definition list_min :: "real list \<Rightarrow> real" where "list_min xs = Min (set xs)"
definition list_max :: "real list \<Rightarrow> real" where "list_max xs = Max (set xs)"

definition code_rates :: "ProcessedTestData list \<Rightarrow> real list" where
  "code_rates data = List.map_filter codeCacheHitRate data"

definition normalize_row :: "ProcessedTestData list \<Rightarrow> ProcessedTestData \<Rightarrow> ProcessedTestData" where
  "normalize_row data d =
     (let norm = (\<lambda>f invert. normalizeValue (f d) (list_min (map f data)) (list_max (map f data)) invert);
          cc = code_rates data;
          minCode = (if cc \<noteq> [] then list_min cc else 0);
          maxCode = (if cc \<noteq> [] then list_max cc else 0)
      in d\<lparr>normalizedThroughput := norm throughput False,
           normalizedSpeed := norm executionMs True,
           normalizedLowOverhead := norm overheadMs True,
           normalizedAccountCache := norm accountCacheHitRate False,
           normalizedCodeCache :=
             (case codeCacheHitRate d of None \<Rightarrow> 0 | Some v \<Rightarrow> normalizeValue v minCode maxCode False)\<rparr>)"

definition normalize_rows :: "ProcessedTestData list \<Rightarrow> ProcessedTestData list" where
  "normalize_rows data = (if data = [] then [] else map (normalize_row data) data)"


section \<open>Sorting\<close>

fun compareOptional :: "real option \<Rightarrow> real option \<Rightarrow> jsnum" where
  "compareOptional None None = Fin 0"
| "compareOptional None (Some b) = Fin 1"
| "compareOptional (Some a) None = Fin (-1)"
| "compareOptional (Some a) (Some b) = Fin (a - b)"

text \<open>A test that is not in the suite has the order \<open>Infinity\<close>, here \<open>None\<close>.\<close>

definition order_num :: "real option \<Rightarrow> jsnum" where
  "order_num x = (case x of None \<Rightarrow> PosInf | Some r \<Rightarrow> Fin r)"

definition order_cmp :: "real option \<Rightarrow> real option \<Rightarrow> jsnum" where
  "order_cmp a b = num_sub (order_num a) (order_num b)"

fun field_cmp :: "(string \<Rightarrow> string \<Rightarrow> jsnum) \<Rightarrow> SortField \<Rightarrow>
    ProcessedTestData \<Rightarrow> ProcessedTestData \<Rightarrow> jsnum" where
  "field_cmp lc SfThroughput a b = key_cmp throughput a b"
| "field_cmp lc SfExecution a b = key_cmp executionMs a b"
| "field_cmp lc SfOverhead a b = key_cmp overheadMs a b"
| "field_cmp lc SfName a b = lc (testName a) (testName b)"
| "field_cmp lc SfOrder a b = order_cmp (testOrder a) (testOrder b)"
| "field_cmp lc SfCategory a b = lc (category_name (category a)) (category_name (category b))"
| "field_cmp lc SfAccountCache a b = key_cmp accountCacheHitRate a b"
| "field_cmp lc SfStorageCache a b = key_cmp storageCacheHitRate a b"
| "field_cmp lc SfCodeCache a b = compareOptional (codeCacheHitRate a) (codeCacheHitRate b)"
| "field_cmp lc SfGas a b = key_cmp gasUsed a b"

definition row_cmp :: "(string \<Rightarrow> string \<Rightarrow> jsnum) \<Rightarrow> DashboardState \<Rightarrow>
    ProcessedTestData \<Rightarrow> ProcessedTestData \<Rightarrow> jsnum" where
  "row_cmp lc state a b =
     (let comparison = field_cmp lc (sortBy state) a b
      in if sortOrder state = Asc then comparison else num_neg comparison)"


section \<open>The hook\<close>

definition mean :: "real list \<Rightarrow> real" where
  "mean xs = foldl (+) 0 xs / real (length xs)"

definition dashboard_stats ::
    "ProcessedTestData list \<Rightarrow> (TestCategory \<Rightarrow> nat) \<Rightarrow> nat \<Rightarrow> DashboardStats" where
  "dashboard_stats data breakdown outliers =
     (if data \<noteq> [] then
        let throughputs = num_sort (map throughput data)
        in \<lparr>sc_count = length data,
            avgThroughput = mean throughputs,
            minThroughput = hd throughputs,
            maxThroughput = last throughputs,
            medianThroughput = percentile throughputs 50,
            avgExecution = mean (map executionMs data),
            avgOverhead = mean (map overheadMs data),
            categoryBreakdown = breakdown,
            outlierCount = outliers\<rparr>
      else \<lparr>sc_count = 0, avgThroughput = 0, minThroughput = 0, maxThroughput = 0,
            medianThroughput = 0, avgExecution = 0, avgOverhead = 0,
            categoryBreakdown = breakdown, outlierCount = outliers\<rparr>)"

record processed =
  pd_data :: "ProcessedTestData list"
  pd_stats :: "DashboardStats option"
  pd_allData :: "ProcessedTestData list"

definition useProcessedData ::
    "(string \<Rightarrow> string \<Rightarrow> jsnum) \<Rightarrow> BlockLogEntry js_object option \<Rightarrow> DashboardState \<Rightarrow>
     (string \<Rightarrow> real option) \<Rightarrow> string \<Rightarrow> processed" where
  "useProcessedData lc blockLogs state executionOrder searchQuery =
     (case blockLogs of
        None \<Rightarrow> \<lparr>pd_data = [], pd_stats = None, pd_allData = []\<rparr>
      | Some logs \<Rightarrow>
          if logs = [] then \<lparr>pd_data = [], pd_stats = None, pd_allData = []\<rparr>
          else let allData = map (to_row executionOrder) logs;
                   kept = filter (keep_row state searchQuery) allData;
                   outliers = countOutliers kept throughput;
                   inliers = (if excludeOutliers state then exclude_outliers kept throughput else kept);
                   data = js_sort (row_cmp lc state) (normalize_rows inliers)
               in \<lparr>pd_data = data,
                   pd_stats = Some (dashboard_stats data (countByCategory allData) outliers),
                   pd_allData = allData\<rparr>)"

section \<open>Lemmas\<close>

text \<open>The rows are ordered by a comparator whenever the locale comparison is one.\<close>

lemma comparator_compareOptional: "comparator compareOptional"
proof
  show "is_neg (compareOptional a b) \<longleftrightarrow> is_pos (compareOptional b a)" for a b
    by (cases a; cases b) (auto simp: is_pos_def is_neg_def)
  show "\<not> is_pos (compareOptional a b) \<Longrightarrow> \<not> is_pos (compareOptional b c) \<Longrightarrow>
      \<not> is_pos (compareOptional a c)" for a b c
    by (cases a; cases b; cases c) (auto simp: is_pos_def)
qed

lemma comparator_order: "comparator order_cmp"
proof
  show "is_neg (order_cmp a b) \<longleftrightarrow> is_pos (order_cmp b a)" for a b
    by (cases a; cases b) (auto simp: order_cmp_def order_num_def num_sub_def is_pos_def is_neg_def)
  show "\<not> is_pos (order_cmp a b) \<Longrightarrow> \<not> is_pos (order_cmp b c) \<Longrightarrow> \<not> is_pos (order_cmp a c)" for a b c
    by (cases a; cases b; cases c) (auto simp: order_cmp_def order_num_def num_sub_def is_pos_def)
qed

interpretation opt: comparator compareOptional by (rule comparator_compareOptional)
interpretation ord: comparator order_cmp by (rule comparator_order)

lemma field_cmp_fun:
  "field_cmp lc SfThroughput = key_cmp throughput" "field_cmp lc SfExecution = key_cmp executionMs"
  "field_cmp lc SfOverhead = key_cmp overheadMs"
  "field_cmp lc SfName = (\<lambda>a b. lc (testName a) (testName b))"
  "field_cmp lc SfOrder = (\<lambda>a b. order_cmp (testOrder a) (testOrder b))"
  "field_cmp lc SfCategory = (\<lambda>a b. lc (category_name (category a)) (category_name (category b)))"
  "field_cmp lc SfAccountCache = key_cmp accountCacheHitRate"
  "field_cmp lc SfStorageCache = key_cmp storageCacheHitRate"
  "field_cmp lc SfCodeCache = (\<lambda>a b. compareOptional (codeCacheHitRate a) (codeCacheHitRate b))"
  "field_cmp lc SfGas = key_cmp gasUsed"
  by (simp_all add: fun_eq_iff)

lemma comparator_field:
  assumes "comparator lc"
  shows "comparator (field_cmp lc f)"
  by (cases f) (simp_all only: field_cmp_fun key.comparator_axioms opt.on_key ord.on_key
      comparator.on_key [OF assms])

lemma comparator_row:
  assumes "comparator lc"
  shows "comparator (row_cmp lc state)"
proof -
  have "row_cmp lc state =
      (if sortOrder state = Asc then field_cmp lc (sortBy state)
       else (\<lambda>a b. num_neg (field_cmp lc (sortBy state) a b)))"
    by (simp add: row_cmp_def fun_eq_iff Let_def)
  then show ?thesis
    using comparator_field [OF assms] comparator.flip [OF comparator_field [OF assms]] by simp
qed

lemma length_normalize_rows [simp]: "length (normalize_rows data) = length data"
  by (simp add: normalize_rows_def)

lemma set_exclude: "set (exclude_outliers data f) \<subseteq> set data"
  by (auto simp: exclude_outliers_def removeOutliers_def Let_def split: if_splits prod.splits)

lemma list_min_max: "x \<in> set xs \<Longrightarrow> list_min xs \<le> x \<and> x \<le> list_max xs"
  by (simp add: list_min_def list_max_def)

lemma normalize_row_range:
  assumes "d \<in> set data"
  shows "normalizedThroughput (normalize_row data d) \<in> {0..100}"
    and "normalizedSpeed (normalize_row data d) \<in> {0..100}"
    and "normalizedLowOverhead (normalize_row data d) \<in> {0..100}"
    and "normalizedAccountCache (normalize_row data d) \<in> {0..100}"
    and "normalizedCodeCache (normalize_row data d) \<in> {0..100}"
proof -
  have norm: "normalizeValue (f d) (list_min (map f data)) (list_max (map f data)) inv \<in> {0..100}" for f inv
    using list_min_max [of "f d" "map f data"] assms by (auto simp: normalizeValue_range)
  show "normalizedThroughput (normalize_row data d) \<in> {0..100}"
    "normalizedSpeed (normalize_row data d) \<in> {0..100}"
    "normalizedLowOverhead (normalize_row data d) \<in> {0..100}"
    "normalizedAccountCache (normalize_row data d) \<in> {0..100}"
    using norm by (simp_all add: normalize_row_def Let_def)
  show "normalizedCodeCache (normalize_row data d) \<in> {0..100}"
  proof (cases "codeCacheHitRate d")
    case (Some v)
    then have "v \<in> set (code_rates data)"
      using assms by (force simp: code_rates_def map_filter_def)
    then have "normalizeValue v (list_min (code_rates data)) (list_max (code_rates data)) False \<in> {0..100}"
        "code_rates data \<noteq> []"
      using list_min_max [of v "code_rates data"] by (auto simp: normalizeValue_range)
    then show ?thesis using Some by (simp add: normalize_row_def Let_def)
  qed (simp add: normalize_row_def Let_def)
qed

text \<open>The rows that go into the table.\<close>

definition inliers :: "DashboardState \<Rightarrow> string \<Rightarrow> ProcessedTestData list \<Rightarrow> ProcessedTestData list" where
  "inliers state q allData =
     (let kept = filter (keep_row state q) allData
      in if excludeOutliers state then exclude_outliers kept throughput else kept)"

lemma useProcessedData_data:
  assumes "logs \<noteq> []" and "all = map (to_row order) logs"
  shows "pd_data (useProcessedData lc (Some logs) state order q) =
      js_sort (row_cmp lc state) (normalize_rows (inliers state q all))"
    and "pd_allData (useProcessedData lc (Some logs) state order q) = all"
    and "pd_stats (useProcessedData lc (Some logs) state order q) =
      Some (dashboard_stats (pd_data (useProcessedData lc (Some logs) state order q))
        (countByCategory all) (countOutliers (filter (keep_row state q) all) throughput))"
  using assms by (simp_all add: useProcessedData_def inliers_def Let_def)


section \<open>The table from the block logs\<close>

text \<open>The table, described from the block logs: what a log says about a test, which logs the filters let
  pass, and which of these are no outliers. The quartiles interpolate between the sorted throughputs.\<close>

definition log_throughput :: "BlockLogEntry \<Rightarrow> real" where
  "log_throughput e = (case be_mgas_per_sec e of None \<Rightarrow> 0 | Some t \<Rightarrow> t)"

definition log_passes :: "DashboardState \<Rightarrow> string \<Rightarrow> string \<times> BlockLogEntry \<Rightarrow> bool" where
  "log_passes state q p \<longleftrightarrow>
     (categories state \<noteq> [] \<longrightarrow> category_name (parseCategory (fst p)) \<in> set (categories state)) \<and>
     (q \<noteq> [] \<longrightarrow> compileQuery q (fst p)) \<and>
     (\<forall>m. stMinThroughput state = Some m \<longrightarrow> m \<le> log_throughput (snd p)) \<and>
     (\<forall>m. stMaxThroughput state = Some m \<longrightarrow> log_throughput (snd p) \<le> m)"

definition within_fences :: "real list \<Rightarrow> real \<Rightarrow> bool" where
  "within_fences ts t \<longleftrightarrow>
     (let q1 = interp (sort ts) (rank_pos ts 25); q3 = interp (sort ts) (rank_pos ts 75)
      in q1 - 3/2 * (q3 - q1) \<le> t \<and> t \<le> q3 + 3/2 * (q3 - q1))"

definition shown_logs :: "DashboardState \<Rightarrow> string \<Rightarrow> (string \<times> BlockLogEntry) list \<Rightarrow> (string \<times> BlockLogEntry) list" where
  "shown_logs state q logs =
     (let passing = filter (log_passes state q) logs;
          ts = filter (\<lambda>t. 0 < t) (map (\<lambda>p. log_throughput (snd p)) passing)
      in filter (\<lambda>p. excludeOutliers state \<longrightarrow>
                   0 < log_throughput (snd p) \<and> (4 < length ts \<longrightarrow> within_fences ts (log_throughput (snd p)))) passing)"

definition row_of_log :: "(string \<Rightarrow> real option) \<Rightarrow> string \<times> BlockLogEntry \<Rightarrow> ProcessedTestData \<Rightarrow> bool" where
  "row_of_log order p d \<longleftrightarrow>
     testName d = fst p \<and> testOrder d = order (fst p) \<and> category d = parseCategory (fst p) \<and>
     throughput d = log_throughput (snd p) \<and>
     gasUsed d = bb_gas_used (be_block (snd p)) \<and> txCount d = bb_tx_count (be_block (snd p)) \<and>
     (case be_timing (snd p) of
        None \<Rightarrow> executionMs d = 0 \<and> totalMs d = 0 \<and> stateReadMs d = 0 \<and> stateHashMs d = 0 \<and> commitMs d = 0 \<and>
          overheadMs d = 0
      | Some t \<Rightarrow> executionMs d = bt_execution_ms t \<and> totalMs d = bt_total_ms t \<and>
          stateReadMs d = bt_state_read_ms t \<and> stateHashMs d = bt_state_hash_ms t \<and> commitMs d = bt_commit_ms t \<and>
          overheadMs d = bt_state_read_ms t + bt_state_hash_ms t + bt_commit_ms t) \<and>
     (case be_cache (snd p) of
        None \<Rightarrow> accountCacheHitRate d = 0 \<and> accountCacheHits d = 0 \<and> accountCacheMisses d = 0 \<and>
          storageCacheHitRate d = 0 \<and> storageCacheHits d = 0 \<and> storageCacheMisses d = 0
      | Some c \<Rightarrow> accountCacheHitRate d = ce_hit_rate (bc_account c) \<and> accountCacheHits d = ce_hits (bc_account c) \<and>
          accountCacheMisses d = ce_misses (bc_account c) \<and> storageCacheHitRate d = ce_hit_rate (bc_storage c) \<and>
          storageCacheHits d = ce_hits (bc_storage c) \<and> storageCacheMisses d = ce_misses (bc_storage c)) \<and>
     (case Option.bind (be_cache (snd p)) bc_code of
        None \<Rightarrow> codeCacheHitRate d = None \<and> codeCacheHits d = None \<and> codeCacheMisses d = None
      | Some k \<Rightarrow> codeCacheHitRate d = Some (ce_hit_rate k) \<and> codeCacheHits d = Some (ce_hits k) \<and>
          codeCacheMisses d = Some (ce_misses k))"

text \<open>The ascending order of a column: numbers by size, texts by the locale, a test outside the suite and
  a test without a code cache after the others.\<close>

fun none_last :: "real option \<Rightarrow> real option \<Rightarrow> bool" where
  "none_last x None = True"
| "none_last None (Some y) = False"
| "none_last (Some x) (Some y) = (x \<le> y)"

fun row_le :: "(string \<Rightarrow> string \<Rightarrow> jsnum) \<Rightarrow> SortField \<Rightarrow> ProcessedTestData \<Rightarrow> ProcessedTestData \<Rightarrow> bool" where
  "row_le lc SfThroughput a b = (throughput a \<le> throughput b)"
| "row_le lc SfExecution a b = (executionMs a \<le> executionMs b)"
| "row_le lc SfOverhead a b = (overheadMs a \<le> overheadMs b)"
| "row_le lc SfName a b = (\<not> is_pos (lc (testName a) (testName b)))"
| "row_le lc SfOrder a b = none_last (testOrder a) (testOrder b)"
| "row_le lc SfCategory a b = (\<not> is_pos (lc (category_name (category a)) (category_name (category b))))"
| "row_le lc SfAccountCache a b = (accountCacheHitRate a \<le> accountCacheHitRate b)"
| "row_le lc SfStorageCache a b = (storageCacheHitRate a \<le> storageCacheHitRate b)"
| "row_le lc SfCodeCache a b = none_last (codeCacheHitRate a) (codeCacheHitRate b)"
| "row_le lc SfGas a b = (gasUsed a \<le> gasUsed b)"

lemma none_last_optional: "none_last x y \<longleftrightarrow> \<not> is_pos (compareOptional x y)"
  by (cases x; cases y) auto

lemma none_last_order: "none_last x y \<longleftrightarrow> \<not> is_pos (order_cmp x y)"
  by (cases x; cases y) (auto simp: order_cmp_def order_num_def num_sub_def)

lemma row_le_iff: "row_le lc f a b \<longleftrightarrow> \<not> is_pos (field_cmp lc f a b)"
  by (cases f) (auto simp: key_cmp_def not_less simp flip: none_last_optional none_last_order)

lemma row_cmp_le:
  assumes "comparator lc"
  shows "\<not> is_pos (row_cmp lc state a b) \<longleftrightarrow>
    (if sortOrder state = Asc then row_le lc (sortBy state) a b else row_le lc (sortBy state) b a)"
  using comparator.anti [OF comparator_field [OF assms], of "sortBy state" a b]
  by (simp add: row_cmp_def row_le_iff Let_def)

lemma to_row_fields [simp]: "throughput (to_row order p) = log_throughput (snd p)"
  "testName (to_row order p) = fst p" "category (to_row order p) = parseCategory (fst p)"
  by (cases p; simp add: to_row_def log_throughput_def or_zero_def Let_def)+

lemma keep_row_log: "keep_row state q (to_row order p) \<longleftrightarrow> log_passes state q p"
  by (cases p) (auto simp: keep_row_def log_passes_def split: option.split) 

lemma row_of_to_row: "row_of_log order p (to_row order p)"
  by (cases p) (auto simp: row_of_log_def to_row_def log_throughput_def or_zero_def Let_def split: option.split)

lemma row_of_normalized [simp]: "row_of_log order p (normalize_row data d) = row_of_log order p d"
  by (simp add: row_of_log_def normalize_row_def Let_def cong: option.case_cong)

lemma fences:
  assumes "4 < length ts"
  shows "calculateIQRBounds ts = (l, u) \<Longrightarrow> within_fences ts t \<longleftrightarrow> num_le l (Fin t) \<and> num_le (Fin t) u"
proof -
  have "percentile (sort ts) p = interp (sort ts) (rank_pos ts p)" if "p \<le> 100" for p
  proof -
    have "sort ts \<noteq> []" using assms by (metis length_sort list.size(3) not_less_zero)
    then show ?thesis using percentile_interp [of "sort ts" p] that by (simp add: rank_pos_def)
  qed
  then show "calculateIQRBounds ts = (l, u) \<Longrightarrow> ?thesis"
    using assms by (auto simp: calculateIQRBounds_def within_fences_def num_sort_eq Let_def)
qed

lemma inliers_logs: "inliers state q (map (to_row order) logs) = map (to_row order) (shown_logs state q logs)"
proof -
  define passing where "passing = filter (log_passes state q) logs"
  let ?t = "\<lambda>p :: string \<times> BlockLogEntry. log_throughput (snd p)"
  define ts where "ts = filter (\<lambda>x. 0 < x) (map ?t passing)"
  obtain l u where lu: "calculateIQRBounds ts = (l, u)" by fastforce
  have kept: "filter (keep_row state q) (map (to_row order) logs) = map (to_row order) passing"
    by (simp add: filter_map comp_def keep_row_log passing_def)
  define pos where "pos = filter (\<lambda>p. 0 < ?t p) passing"
  have positive: "filter (\<lambda>d. throughput d > 0) (map (to_row order) passing) = map (to_row order) pos"
    by (simp add: filter_map comp_def pos_def)
  have ts: "map throughput (map (to_row order) pos) = ts" "length pos = length ts"
    by (simp_all add: ts_def pos_def filter_map comp_def)
  have "removeOutliers (map (to_row order) pos) throughput =
      map (to_row order) (filter (\<lambda>p. num_le l (Fin (?t p)) \<and> num_le (Fin (?t p)) u) pos)"
    by (simp only: removeOutliers_def ts(1) lu) (simp add: filter_map comp_def)
  then have out: "exclude_outliers (map (to_row order) passing) throughput =
      map (to_row order) (filter (\<lambda>p. 4 < length ts \<longrightarrow> within_fences ts (?t p)) pos)"
    using fences [OF _ lu] by (auto simp: exclude_outliers_def positive ts(2) Let_def cong: filter_cong)
  show ?thesis
    unfolding inliers_def Let_def kept out shown_logs_def
    by (auto simp: passing_def [symmetric] ts_def [symmetric] pos_def)
qed


section \<open>Properties\<close>

text \<open>C11: The table of the dashboard. Its rows are exactly the tests that pass the filters (one of the
  chosen categories, the search, the bounds of the throughput) and, when outliers are excluded, have a
  positive throughput within one and a half interquartile ranges of the quartiles of these (with more than
  four); each test has one row, and the row says what the block log of that test says, what is missing
  counting as zero or as no code cache, and the overhead being the sum of state read, state hash and commit.
  The rows ascend or descend by the chosen column, as the direction says, and tests that tie keep the order
  of the block logs.\<close>

theorem dashboard_rows:
  assumes "comparator lc"
    and "data = pd_data (useProcessedData lc (Some logs) state order q)"
    and "le = row_le lc (sortBy state)"
  shows "(\<exists>shown. mset shown = mset (shown_logs state q logs) \<and> list_all2 (row_of_log order) shown data) \<and>
    sorted_wrt (\<lambda>a b. if sortOrder state = Asc then le a b else le b a) data \<and>
    (\<forall>d. subseq (map testName (filter (\<lambda>x. le d x \<and> le x d) data)) (map fst logs))"
proof (cases "logs = []")
  case True
  then have "data = []" "shown_logs state q logs = []"
    by (simp_all add: assms(2) useProcessedData_def shown_logs_def Let_def)
  then show ?thesis by simp
next
  case False
  let ?cmp = "row_cmp lc state"
  define inl where "inl = inliers state q (map (to_row order) logs)"
  define row where "row = (\<lambda>p. normalize_row inl (to_row order p))"
  have rows: "normalize_rows inl = map row (shown_logs state q logs)"
    by (simp add: normalize_rows_def row_def) (simp add: inl_def inliers_logs)
  have data: "data = js_sort ?cmp (map row (shown_logs state q logs))"
    using useProcessedData_data(1) [OF False refl] assms(2) rows by (simp add: inl_def)
  have row: "row_of_log order p (row p)" for p by (simp add: row_def row_of_to_row)
  let ?ps = "js_sort (\<lambda>a b. ?cmp (row a) (row b)) (shown_logs state q logs)"
  have "data = map row ?ps" unfolding data by (rule js_sort_map)
  then have "mset ?ps = mset (shown_logs state q logs) \<and> list_all2 (row_of_log order) ?ps data"
    by (simp add: list_all2_conv_all_nth row)
  moreover have "sorted_wrt (\<lambda>a b. if sortOrder state = Asc then le a b else le b a) data"
    using comparator.sorted_js_sort [OF comparator_row [OF assms(1)]]
    unfolding row_cmp_le [OF assms(1)] data assms(3) by blast
  moreover have "subseq (map testName (filter (\<lambda>x. le d x \<and> le x d) data)) (map fst logs)" for d
  proof -
    have "(\<lambda>x. le d x \<and> le x d) = comparator.tied ?cmp d"
      using row_cmp_le [OF assms(1), of state]
      by (auto simp: fun_eq_iff comparator.tied_def [OF comparator_row [OF assms(1)]] assms(3))
    then have "filter (\<lambda>x. le d x \<and> le x d) data =
        filter (\<lambda>x. le d x \<and> le x d) (map row (shown_logs state q logs))"
      using comparator.stable_js_sort [OF comparator_row [OF assms(1)]] by (simp only: data)
    then have "map testName (filter (\<lambda>x. le d x \<and> le x d) data) =
        map fst (filter (\<lambda>p. le d (row p) \<and> le (row p) d) (shown_logs state q logs))"
      using row by (simp add: filter_map comp_def row_of_log_def)
    then show ?thesis by (simp add: subseq_map shown_logs_def Let_def)
  qed
  ultimately show ?thesis by blast
qed


text \<open>Every normalised score of a row in the table lies between 0 and 100.\<close>

theorem dashboard_scores_in_range:
  assumes "d \<in> set (pd_data (useProcessedData lc logs state order q))"
  shows "normalizedThroughput d \<in> {0..100} \<and> normalizedSpeed d \<in> {0..100} \<and>
    normalizedLowOverhead d \<in> {0..100} \<and> normalizedAccountCache d \<in> {0..100} \<and>
    normalizedCodeCache d \<in> {0..100}"
proof -
  obtain ls where ls: "logs = Some ls" "ls \<noteq> []"
    using assms by (auto simp: useProcessedData_def split: option.splits if_splits)
  let ?in = "inliers state q (map (to_row order) ls)"
  have "d \<in> set (normalize_rows ?in)"
    using assms ls useProcessedData_data(1) [OF ls(2) refl] by simp
  then obtain e where "d = normalize_row ?in e" "e \<in> set ?in"
    by (auto simp: normalize_rows_def split: if_splits)
  then show ?thesis using normalize_row_range by simp
qed

text \<open>The statistics of the dashboard describe its table: the number of rows, their smallest,
  median and largest throughput in order, the categories of all tests, and an outlier count that
  completes the rows to all rows that pass the filters when outliers are excluded.\<close>

theorem dashboard_stats_sound:
  assumes "logs \<noteq> []" and "all = map (to_row order) logs"
    and "out = useProcessedData lc (Some logs) state order q"
  shows "\<exists>st. pd_stats out = Some st \<and> sc_count st = length (pd_data out) \<and>
    (\<Sum>c\<leftarrow>ALL_CATEGORIES. categoryBreakdown st c) = length logs \<and>
    (excludeOutliers state \<longrightarrow>
      sc_count st + outlierCount st = length (filter (keep_row state q) all)) \<and>
    (pd_data out \<noteq> [] \<longrightarrow>
      minThroughput st = Min (throughput ` set (pd_data out)) \<and>
      maxThroughput st = Max (throughput ` set (pd_data out)) \<and>
      minThroughput st \<le> medianThroughput st \<and> medianThroughput st \<le> maxThroughput st)"
proof -
  note u = useProcessedData_data [OF assms(1,2), of lc state q, folded assms(3)]
  let ?st = "dashboard_stats (pd_data out) (countByCategory all)
    (countOutliers (filter (keep_row state q) all) throughput)"
  let ?ts = "sort (map throughput (pd_data out))"
  have cat: "(\<Sum>c\<leftarrow>ALL_CATEGORIES. countByCategory all c) = length logs"
    using category_partition [of "\<lambda>d. True" all] assms(2) by (simp add: countByCategory_eq)
  have "length (pd_data out) = length (inliers state q all)" using u(1) by simp
  then have len: "excludeOutliers state \<longrightarrow> length (pd_data out) +
      countOutliers (filter (keep_row state q) all) throughput = length (filter (keep_row state q) all)"
    using count_plus_excluded [of "filter (keep_row state q) all" throughput]
    by (simp add: inliers_def Let_def)
  have "hd ?ts = Min (throughput ` set (pd_data out)) \<and> last ?ts = Max (throughput ` set (pd_data out)) \<and>
      hd ?ts \<le> percentile ?ts 50 \<and> percentile ?ts 50 \<le> last ?ts" if "pd_data out \<noteq> []"
  proof -
    have "?ts \<noteq> []" using that by (metis length_0_conv length_map length_sort)
    then show ?thesis
      using hd_sorted [of ?ts] last_sorted [of ?ts] percentile_range [of ?ts 50] by simp
  qed
  then have "sc_count ?st = length (pd_data out) \<and> categoryBreakdown ?st = countByCategory all \<and>
      outlierCount ?st = countOutliers (filter (keep_row state q) all) throughput \<and>
      (pd_data out \<noteq> [] \<longrightarrow> minThroughput ?st = Min (throughput ` set (pd_data out)) \<and>
        maxThroughput ?st = Max (throughput ` set (pd_data out)) \<and>
        minThroughput ?st \<le> medianThroughput ?st \<and> medianThroughput ?st \<le> maxThroughput ?st)"
    by (auto simp: dashboard_stats_def num_sort_eq Let_def)
  then show ?thesis using u(3) cat len by (intro exI [of _ ?st]) auto
qed


text \<open>A block log of one test, for the examples.\<close>

definition sample_log :: "real \<Rightarrow> BlockLogEntry" where
  "sample_log t = \<lparr>be_block = \<lparr>bb_number = 1, bb_hash = [], bb_gas_used = 5, bb_tx_count = 1\<rparr>,
     be_timing = None, be_mgas_per_sec = Some t, be_state_reads = None, be_state_writes = None,
     be_cache = None\<rparr>"

definition sample_state :: DashboardState where
  "sample_state = \<lparr>activeTab = Overview, categories = [], sortBy = SfThroughput, sortOrder = Desc,
     stMinThroughput = None, stMaxThroughput = None, excludeOutliers = True, useLogScale = False\<rparr>"

lemma comparator_zero: "comparator (\<lambda>a b. Fin 0)"
  by unfold_locales simp_all

lemma sample_inliers:
  "inliers sample_state [] (map (to_row (\<lambda>_. None)) [(''a'', sample_log 10), (''b'', sample_log 20)]) =
    map (to_row (\<lambda>_. None)) [(''a'', sample_log 10), (''b'', sample_log 20)]"
  by (simp add: inliers_def exclude_outliers_def sample_state_def keep_row_def to_row_def
      sample_log_def or_zero_def)

theorem dashboard_rows_witness:
  "\<exists>data. data = pd_data (useProcessedData (\<lambda>a b. Fin 0)
       (Some [(''a'', sample_log 10), (''b'', sample_log 20)]) sample_state (\<lambda>_. None) []) \<and>
     mset (map testName data) = {#''a'', ''b''#} \<and> sorted_wrt (\<lambda>a b. throughput b \<le> throughput a) data"
proof -
  let ?logs = "[(''a'', sample_log 10), (''b'', sample_log 20)]"
  have shown: "shown_logs sample_state [] ?logs = ?logs"
    by (simp add: shown_logs_def log_passes_def sample_state_def sample_log_def log_throughput_def)
  define data where "data = pd_data (useProcessedData (\<lambda>a b. Fin 0) (Some ?logs) sample_state (\<lambda>_. None) [])"
  note table = dashboard_rows [OF comparator_zero data_def refl]
  then obtain ps where ps: "mset ps = mset ?logs" "list_all2 (row_of_log (\<lambda>_. None)) ps data"
    by (auto simp: shown)
  from ps(2) have "map testName data = map fst ps"
    by (induction rule: list_all2_induct) (simp_all add: row_of_log_def)
  then have "mset (map testName data) = image_mset fst (mset ?logs)" unfolding ps(1) [symmetric] by simp
  moreover have "sorted_wrt (\<lambda>a b. throughput b \<le> throughput a) data"
    using table by (simp add: sample_state_def)
  ultimately show ?thesis by (intro exI [of _ data]) (simp add: data_def)
qed

theorem dashboard_scores_in_range_witness:
  "\<exists>d \<in> set (pd_data (useProcessedData (\<lambda>a b. Fin 0)
      (Some [(''a'', sample_log 10), (''b'', sample_log 20)]) sample_state (\<lambda>_. None) [])).
    normalizedThroughput d \<in> {0..100}"
proof -
  let ?l = "[(''a'', sample_log 10), (''b'', sample_log 20)]"
  let ?data = "pd_data (useProcessedData (\<lambda>a b. Fin 0) (Some ?l) sample_state (\<lambda>_. None) [])"
  have ne: "?l \<noteq> []" by simp
  have "normalize_rows (inliers sample_state [] (map (to_row (\<lambda>_. None)) ?l)) \<noteq> []"
    unfolding sample_inliers by (simp add: normalize_rows_def)
  then have "?data \<noteq> []" unfolding useProcessedData_data(1) [OF ne refl] by simp
  then obtain d where "d \<in> set ?data" by (meson ex_in_conv set_empty)
  with dashboard_scores_in_range [OF this] show ?thesis by blast
qed

theorem dashboard_stats_sound_witness:
  "\<exists>st. pd_stats (useProcessedData (\<lambda>a b. Fin 0)
      (Some [(''a'', sample_log 10), (''b'', sample_log 20)]) sample_state (\<lambda>_. None) []) = Some st \<and>
    (\<Sum>c\<leftarrow>ALL_CATEGORIES. categoryBreakdown st c) = 2"
  using dashboard_stats_sound [of "[(''a'', sample_log 10), (''b'', sample_log 20)]", OF _ refl refl]
  by fastforce

end
