(* ===== verification/Dashboard_State.thy ===== *)
theory Dashboard_State
  imports Dashboard_Types Js_Uri
begin

text \<open>
  The state of the block-log dashboard in the search parameters of the page,
  \<open>hooks/useDashboardState.ts\<close>. The search object has the eight \<open>bl*\<close> keys, absent or
  present, and the parameters of the other components of the page.
\<close>

section \<open>State and URL\<close>

record BlockLogsDashboardSearch =
  blTab :: "DashboardTab option"
  blCategories :: "string option"
  blSortBy :: "SortField option"
  blSortOrder :: "SortOrder option"
  blMinThroughput :: "real option"
  blMaxThroughput :: "real option"
  blExcludeOutliers :: "bool option"
  blLogScale :: "bool option"
  blOther :: "string js_object"

definition DEFAULT_STATE :: DashboardState where
  "DEFAULT_STATE = \<lparr>activeTab = Overview, categories = [], sortBy = SfThroughput, sortOrder = Asc,
     stMinThroughput = None, stMaxThroughput = None, excludeOutliers = True, useLogScale = False\<rparr>"

definition parseCategories :: "string option \<Rightarrow> string list" where
  "parseCategories val =
     (case val of
        None \<Rightarrow> []
      | Some v \<Rightarrow>
          if v = [] then []
          else if v = ''__none__'' then [''__none__'']
          else filter (\<lambda>c. category_of c \<noteq> None) (split_on CHR '','' v))"

definition or_default :: "'a option \<Rightarrow> 'a \<Rightarrow> 'a" where
  "or_default x d = (case x of None \<Rightarrow> d | Some v \<Rightarrow> v)"

definition read_state :: "BlockLogsDashboardSearch \<Rightarrow> DashboardState" where
  "read_state search =
     \<lparr>activeTab = or_default (blTab search) (activeTab DEFAULT_STATE),
      categories = parseCategories (blCategories search),
      sortBy = or_default (blSortBy search) (sortBy DEFAULT_STATE),
      sortOrder = or_default (blSortOrder search) (sortOrder DEFAULT_STATE),
      stMinThroughput = blMinThroughput search,
      stMaxThroughput = blMaxThroughput search,
      excludeOutliers = or_default (blExcludeOutliers search) (excludeOutliers DEFAULT_STATE),
      useLogScale = or_default (blLogScale search) (useLogScale DEFAULT_STATE)\<rparr>"

definition unless_default :: "'a \<Rightarrow> 'a \<Rightarrow> 'a option" where
  "unless_default x d = (if x \<noteq> d then Some x else None)"

text \<open>\<open>updateState\<close>: the search object it navigates to.\<close>

definition updateState ::
    "BlockLogsDashboardSearch \<Rightarrow> (DashboardState \<Rightarrow> DashboardState) \<Rightarrow> BlockLogsDashboardSearch" where
  "updateState search updates =
     (let new = updates (read_state search)
      in search\<lparr>
           blTab := unless_default (activeTab new) (activeTab DEFAULT_STATE),
           blCategories := (if categories new \<noteq> [] then Some (join '','' (categories new)) else None),
           blSortBy := unless_default (sortBy new) (sortBy DEFAULT_STATE),
           blSortOrder := unless_default (sortOrder new) (sortOrder DEFAULT_STATE),
           blMinThroughput := stMinThroughput new,
           blMaxThroughput := stMaxThroughput new,
           blExcludeOutliers := unless_default (excludeOutliers new) (excludeOutliers DEFAULT_STATE),
           blLogScale := unless_default (useLogScale new) (useLogScale DEFAULT_STATE)\<rparr>)"


section \<open>Lemmas\<close>

definition category_list :: "string list \<Rightarrow> bool" where
  "category_list cs \<longleftrightarrow> cs = [''__none__''] \<or> list_all (\<lambda>c. category_of c \<noteq> None) cs"

lemma category_of_Some: "category_of s = Some c \<Longrightarrow> s = category_name c"
  by (auto simp: category_of_def find_Some_iff)

lemma category_of_parts: "category_of s \<noteq> None \<Longrightarrow> s \<noteq> [] \<and> CHR '','' \<notin> set s \<and> s \<noteq> ''__none__''"
proof -
  assume "category_of s \<noteq> None"
  then obtain c where "s = category_name c" using category_of_Some by blast
  then show ?thesis by (cases c) simp_all
qed

lemma parse_join_categories:
  assumes "category_list cs"
  shows "parseCategories (if cs \<noteq> [] then Some (join '','' cs) else None) = cs"
proof (cases "cs = [] \<or> cs = [''__none__'']")
  case True
  then show ?thesis by (auto simp: parseCategories_def)
next
  case False
  then have cs: "cs \<noteq> []" "list_all (\<lambda>c. category_of c \<noteq> None) cs"
    using assms by (auto simp: category_list_def)
  have free: "\<forall>x \<in> set cs. CHR '','' \<notin> set x"
    using cs(2) category_of_parts by (auto simp: list_all_iff)
  then have split: "split_on CHR '','' (join '','' cs) = cs" using cs(1) by (intro split_on_join)
  have "join '','' cs \<noteq> []"
    using cs category_of_parts [of "[]"] by (subst join_Nil_iff) (auto simp: list_all_iff)
  moreover have "join '','' cs \<noteq> ''__none__''"
  proof
    assume eq: "join '','' cs = ''__none__''"
    have "split_on CHR '','' ''__none__'' = [''__none__'']" by (rule split_on_free) simp
    then have "cs = [''__none__'']" using split eq by metis
    then show False using False by simp
  qed
  moreover have "filter (\<lambda>c. category_of c \<noteq> None) cs = cs"
    using cs(2) by (simp add: list_all_iff)
  ultimately show ?thesis using cs(1) split by (simp add: parseCategories_def)
qed

lemma or_unless [simp]: "or_default (unless_default x d) d = x"
  by (simp add: or_default_def unless_default_def)

lemma parseCategories_list: "category_list (parseCategories v)"
  by (auto simp: parseCategories_def category_list_def list_all_iff split: option.splits)

lemma read_update:
  assumes "category_list (categories (updates (read_state search)))"
  shows "read_state (updateState search updates) = updates (read_state search)"
  using parse_join_categories [OF assms]
  by (simp add: read_state_def [of "updateState search updates"])
    (simp add: updateState_def Let_def)


section \<open>Properties\<close>

text \<open>The dashboard state survives the URL: after any sequence of updates that keep the
  category list one the controls can produce, reading the search parameters yields the state the
  updates lead to, and the parameters of the other components are untouched.\<close>

theorem dashboard_state_roundtrip:
  assumes "list_all (\<lambda>u. \<forall>s. category_list (categories s) \<longrightarrow> category_list (categories (u s))) us"
  shows "read_state (run updateState search us) = run (\<lambda>s u. u s) (read_state search) us \<and>
    blOther (run updateState search us) = blOther search"
  using assms
proof (induction us arbitrary: search)
  case (Cons u us)
  have "category_list (categories (read_state search))"
    using parseCategories_list by (simp add: read_state_def)
  then have "read_state (updateState search u) = u (read_state search)"
    using Cons.prems by (intro read_update) simp
  moreover have "blOther (updateState search u) = blOther search"
    by (simp add: updateState_def Let_def)
  ultimately show ?case using Cons by simp
qed simp

theorem dashboard_state_roundtrip_witness:
  "categories (read_state (run updateState (updateState
      \<lparr>blTab = None, blCategories = None, blSortBy = None, blSortOrder = None, blMinThroughput = None,
       blMaxThroughput = None, blExcludeOutliers = None, blLogScale = None, blOther = []\<rparr> id)
      [(\<lambda>s. s\<lparr>categories := [''memory'', ''log'']\<rparr>), (\<lambda>s. s\<lparr>sortOrder := Desc\<rparr>)])) =
    [''memory'', ''log'']"
  by (subst dashboard_state_roundtrip [THEN conjunct1])
    (simp_all add: category_list_def category_of_def ALL_CATEGORIES_def)

text \<open>URLs stay clean: resetting the dashboard removes all of its parameters.\<close>

theorem dashboard_reset_clears_url:
  "updateState search (\<lambda>_. DEFAULT_STATE) =
    \<lparr>blTab = None, blCategories = None, blSortBy = None, blSortOrder = None, blMinThroughput = None,
     blMaxThroughput = None, blExcludeOutliers = None, blLogScale = None, blOther = blOther search\<rparr>"
  by (simp add: updateState_def unless_default_def DEFAULT_STATE_def Let_def)

section \<open>The category filter\<close>

text \<open>\<open>components/DashboardFilters.tsx\<close>: the options of the drop-down and its handlers.\<close>

definition CATEGORY_OPTIONS :: "(string \<times> string) list" where
  "CATEGORY_OPTIONS =
     [(''arithmetic'', ''Arithmetic''), (''memory'', ''Memory''), (''storage'', ''Storage''),
      (''stack'', ''Stack''), (''control'', ''Control''), (''keccak'', ''Keccak''), (''log'', ''Log''),
      (''account'', ''Account''), (''call'', ''Call''), (''context'', ''Context''),
      (''system'', ''System''), (''bn128'', ''BN128''), (''bls'', ''BLS''),
      (''precompile'', ''Precompile''), (''scenario'', ''Scenario''), (''other'', ''Other'')]"

definition valid_categories :: "string list \<Rightarrow> string list" where
  "valid_categories cs = filter (\<lambda>c. category_of c \<noteq> None) cs"

definition toggleCategory :: "TestCategory \<Rightarrow> string list \<Rightarrow> string list" where
  "toggleCategory cat current =
     (let c = category_name cat; valid = valid_categories current
      in if current = [] then filter (\<lambda>d. d \<noteq> c) (map category_name ALL_CATEGORIES)
         else if valid = [] then [c]
         else if c \<in> set current then
           (let new = filter (\<lambda>d. d \<noteq> c) current in if new = [] then [''__none__''] else new)
         else (let new = valid @ [c] in if length new = length ALL_CATEGORIES then [] else new))"

datatype category_action = ToggleCategory TestCategory | SelectAll | SelectNone

fun category_step :: "string list \<Rightarrow> category_action \<Rightarrow> string list" where
  "category_step cs (ToggleCategory c) = toggleCategory c cs"
| "category_step cs SelectAll = []"
| "category_step cs SelectNone = [''__none__'']"

definition getCategoryLabel :: "string list \<Rightarrow> string" where
  "getCategoryLabel cs =
     (let valid = valid_categories cs
      in if cs = [] then ''All Categories''
         else if valid = [] then ''None''
         else if length valid = 1 then
           (case map_of CATEGORY_OPTIONS (hd valid) of Some l \<Rightarrow> l | None \<Rightarrow> hd valid)
         else nat_str (length valid) @ '' categories'')"

text \<open>What a list of categories selects: everything when it is empty.\<close>

definition selected :: "string list \<Rightarrow> TestCategory set" where
  "selected cs = (if cs = [] then UNIV else {c. category_name c \<in> set cs})"

fun selected_after :: "TestCategory set \<Rightarrow> category_action \<Rightarrow> TestCategory set" where
  "selected_after S (ToggleCategory c) = (if c \<in> S then S - {c} else insert c S)"
| "selected_after S SelectAll = UNIV"
| "selected_after S SelectNone = {}"

definition category_inv :: "string list \<Rightarrow> bool" where
  "category_inv cs \<longleftrightarrow> category_list cs \<and> distinct cs \<and> length cs < length ALL_CATEGORIES"

lemma selected_none [simp]: "selected [''__none__''] = {}"
proof -
  have "category_name c \<noteq> ''__none__''" for c by (cases c) simp_all
  then show ?thesis by (auto simp: selected_def)
qed

lemma none_no_category [simp]: "category_of ''__none__'' = None"
  by (simp add: category_of_def ALL_CATEGORIES_def)

lemma card_categories: "length ALL_CATEGORIES = 16" "card (UNIV :: TestCategory set) = 16"
proof -
  show *: "length ALL_CATEGORIES = 16" by (simp add: ALL_CATEGORIES_def)
  show "card (UNIV :: TestCategory set) = 16"
    using distinct_card [OF distinct_ALL_CATEGORIES] * by simp
qed

lemma category_inv_cases:
  assumes "category_inv cs"
  obtains "cs = []" | "cs = [''__none__'']" | ds where "cs = map category_name ds" "ds \<noteq> []"
    "distinct ds" "length ds < 16"
proof -
  consider "cs = [''__none__'']" | "list_all (\<lambda>c. category_of c \<noteq> None) cs"
    using assms by (auto simp: category_inv_def category_list_def)
  then show thesis
  proof cases
    case 2
    let ?ds = "map (the \<circ> category_of) cs"
    have "map category_name ?ds = cs"
      using 2 category_of_Some by (auto simp: list_all_iff intro!: map_idI)
    moreover from this have "distinct ?ds" using assms by (metis category_inv_def distinct_map)
    ultimately show thesis
      using that(1) that(3) [of ?ds] assms by (auto simp: category_inv_def card_categories)
  qed (use that in blast)
qed

lemma name_image_iff [simp]: "category_name c \<in> category_name ` S \<longleftrightarrow> c \<in> S"
  by auto

lemma filter_names: "filter (\<lambda>d. d \<noteq> category_name c) (map category_name ds) =
    map category_name (filter (\<lambda>d. d \<noteq> c) ds)"
  by (induction ds) auto

lemma valid_names [simp]: "valid_categories (map category_name ds) = map category_name ds"
  by (auto simp: valid_categories_def intro: filter_True)

lemma inv_names: "category_inv (map category_name ds) \<longleftrightarrow> distinct ds \<and> length ds < 16"
  by (auto simp: category_inv_def category_list_def list_all_iff card_categories distinct_map inj_on_def)

lemma selected_names: "ds \<noteq> [] \<Longrightarrow> selected (map category_name ds) = set ds"
  by (auto simp: selected_def)

lemma toggle_names:
  assumes "ds \<noteq> []" and "distinct ds" and "length ds < 16"
  shows "category_inv (toggleCategory c (map category_name ds)) \<and>
    selected (toggleCategory c (map category_name ds)) = selected_after (set ds) (ToggleCategory c)"
proof (cases "c \<in> set ds")
  case True
  let ?new = "filter (\<lambda>d. d \<noteq> c) ds"
  have t: "toggleCategory c (map category_name ds) =
      (if ?new = [] then [''__none__''] else map category_name ?new)"
    using assms(1) True by (simp add: toggleCategory_def filter_names Let_def del: filter_empty_conv)
  show ?thesis
  proof (cases "?new = []")
    case True
    then have "set ds - {c} = {}" by (auto simp: filter_empty_conv)
    then show ?thesis
      using t True \<open>c \<in> set ds\<close> by (simp add: category_inv_def category_list_def card_categories)
  next
    case False
    have "length ?new < 16" using assms(3) length_filter_le [of "\<lambda>d. d \<noteq> c" ds] by linarith
    then show ?thesis
      using t False assms(2) \<open>c \<in> set ds\<close> selected_names [OF False] inv_names [of ?new] by auto
  qed
next
  case False
  let ?new = "ds @ [c]"
  have t: "toggleCategory c (map category_name ds) =
      (if length ?new = 16 then [] else map category_name ?new)"
    using assms(1) False by (simp add: toggleCategory_def Let_def card_categories)
  have dist: "distinct ?new" using assms(2) False by simp
  show ?thesis
  proof (cases "length ?new = 16")
    case True
    have "card (set ?new) = card (UNIV :: TestCategory set)"
      using distinct_card [OF dist] True card_categories(2) by simp
    then have "set ?new = UNIV" by (intro card_subset_eq) simp_all
    then show ?thesis
      using t True False by (simp add: category_inv_def category_list_def card_categories selected_def)
  next
    case neq: False
    then have "length ?new < 16" using assms(3) by simp
    then show ?thesis
      using t neq False dist inv_names [of ?new] selected_names [of ?new] by auto
  qed
qed

lemma category_step_sound:
  assumes "category_inv cs"
  shows "category_inv (category_step cs a) \<and> selected (category_step cs a) = selected_after (selected cs) a"
proof (cases a)
  case (ToggleCategory c)
  have one: "category_inv [category_name c]" using inv_names [of "[c]"] by simp
  from assms show ?thesis
  proof (cases rule: category_inv_cases)
    case 1
    let ?ds = "filter (\<lambda>d. d \<noteq> c) ALL_CATEGORIES"
    have "length ?ds < length ALL_CATEGORIES" by (rule length_filter_less [of c]) simp_all
    moreover have "toggleCategory c cs = map category_name ?ds"
      using 1 by (simp add: toggleCategory_def filter_names)
    moreover have ne: "?ds \<noteq> []"
      by (cases c) (simp_all add: ALL_CATEGORIES_def)
    moreover have "selected (map category_name ?ds) = UNIV - {c}"
      using selected_names [OF ne] by auto
    ultimately show ?thesis
      using ToggleCategory 1 inv_names [of ?ds] by (simp add: selected_def card_categories)
  next
    case 2
    then show ?thesis using ToggleCategory one
      by (simp add: toggleCategory_def valid_categories_def) (simp add: selected_def)
  next
    case (3 ds)
    then show ?thesis using ToggleCategory toggle_names [of ds c] selected_names [of ds] by simp
  qed
qed (simp_all add: category_inv_def category_list_def card_categories selected_def [of "[]"])

interpretation categories: machine category_step "\<lambda>_. True" category_inv
  by unfold_locales (simp add: category_step_sound)

text \<open>The category filter behaves like a set with one toggle per category: after any sequence
  of clicks from the initial state the list selects what the clicks say, although the code encodes
  "all" as the empty list and "none" as a sentinel.\<close>

theorem category_filter_refines_set:
  "selected (run category_step [] acts) = run selected_after UNIV acts \<and>
   category_list (run category_step [] acts)"
proof -
  have init: "category_inv []" by (simp add: category_inv_def category_list_def card_categories)
  have "selected (run category_step cs acts) = run selected_after (selected cs) acts"
    if "category_inv cs" for cs
    using that
  proof (induction acts arbitrary: cs)
    case (Cons a acts)
    then show ?case using category_step_sound [of cs a] by simp
  qed simp
  from this [OF init] have "selected (run category_step [] acts) = run selected_after UNIV acts"
    by (simp add: selected_def [of "[]"])
  moreover have "category_inv (run category_step [] acts)"
    by (rule categories.inv_run [OF init]) (simp add: list_all_iff)
  ultimately show ?thesis by (simp add: category_inv_def)
qed

text \<open>A list with repetitions, which a hand-written URL can hold, breaks this: with fifteen
  copies of one category, adding a second one selects all of them.\<close>

lemma duplicate_categories_select_all:
  "selected (toggleCategory Stack (replicate 15 ''memory'')) = UNIV"
  by (simp add: toggleCategory_def valid_categories_def category_of_def ALL_CATEGORIES_def
      selected_def numeral_eq_Suc)

end
