(* ===== verification/Api_Types.thy ===== *)
theory Api_Types
  imports Js_Uri
begin

text \<open>
  The documents the UI reads (\<open>ui/src/api/types.ts\<close>) as records and the aggregation of
  their per-step statistics: \<open>getIndexAggregatedStats\<close>, \<open>getRunDurationAggregatedStats\<close>
  and \<open>isPendingDeletion\<close> of that file, and \<open>getAggregatedStats\<close> with the URL form of the
  step filter of \<open>ui/src/pages/RunDetailPage.tsx\<close>. An optional property is an option; a
  \<open>Record\<close> is an object (\<open>js_object\<close>).
\<close>

section \<open>Steps\<close>

datatype step_type = Setup | Test | Cleanup

definition ALL_STEP_TYPES :: "step_type list" where
  "ALL_STEP_TYPES = [Setup, Test, Cleanup]"

definition DEFAULT_STEP_FILTER :: "step_type list" where
  "DEFAULT_STEP_FILTER = [Test]"

fun step_name :: "step_type \<Rightarrow> string" where
  "step_name Setup = ''setup''"
| "step_name Test = ''test''"
| "step_name Cleanup = ''cleanup''"

definition step_of :: "string \<Rightarrow> step_type option" where
  "step_of s = find (\<lambda>t. step_name t = s) ALL_STEP_TYPES"

lemma step_of_name [simp]: "step_of (step_name t) = Some t"
  by (cases t) (simp_all add: step_of_def ALL_STEP_TYPES_def)

lemma step_of_Some: "step_of s = Some t \<longleftrightarrow> s = step_name t"
  by (cases t) (auto simp: step_of_def ALL_STEP_TYPES_def)

text \<open>The shape \<open>{ setup?: X, test?: X, cleanup?: X }\<close> many documents use.\<close>

record 'a steps =
  st_setup :: "'a option"
  st_test :: "'a option"
  st_cleanup :: "'a option"

fun step_get :: "'a steps \<Rightarrow> step_type \<Rightarrow> 'a option" where
  "step_get s Setup = st_setup s"
| "step_get s Test = st_test s"
| "step_get s Cleanup = st_cleanup s"


section \<open>Documents\<close>

datatype run_status = Running | Completed | ContainerDied | Cancelled | TimedOut

record resource_totals =
  cpu_usec :: real
  memory_delta_bytes :: real
  memory_bytes :: "real option"
  disk_read_bytes :: real
  disk_write_bytes :: real
  disk_read_iops :: real
  disk_write_iops :: real

record index_step_stats =
  is_success :: real
  is_fail :: real
  is_duration :: real
  is_gas_used :: real
  is_gas_used_duration :: real
  is_resource_totals :: "resource_totals option"

record index_instance =
  ii_id :: string
  ii_client :: string
  ii_image :: string
  ii_rollback_strategy :: "string option"

record index_tests =
  it_total :: real
  it_passed :: real
  it_failed :: real
  it_steps :: "index_step_stats steps"

record index_entry =
  ie_run_id :: string
  ie_timestamp :: real
  ie_timestamp_end :: "real option"
  ie_suite_hash :: "string option"
  ie_instance :: index_instance
  ie_tests :: index_tests
  ie_status :: "run_status option"
  ie_termination_reason :: "string option"
  ie_metadata :: "string js_object option"
  ie_deletion_requested_at :: "real option"
  ie_deletion_error :: "string option"

record index =
  ix_generated :: real
  ix_entries :: "index_entry list"

record run_duration_step =
  ds_gas_used :: real
  ds_time_ns :: real

record run_duration =
  rd_id :: string
  rd_client :: string
  rd_gas_used :: real
  rd_time_ns :: real
  rd_run_start :: real
  rd_run_end :: "real option"
  rd_steps :: "run_duration_step steps option"

record method_stats =
  ms_count :: real
  ms_last :: real
  ms_min :: "real option"
  ms_max :: "real option"
  ms_mean :: "real option"
  ms_p50 :: "real option"
  ms_p95 :: "real option"
  ms_p99 :: "real option"

record aggregated_stats =
  time_total :: real
  gas_used_total :: real
  gas_used_time_total :: real
  ag_success :: real
  ag_fail :: real
  msg_count :: real
  ag_resource_totals :: "resource_totals option"
  ag_times :: "method_stats js_object"
  ag_mgas_s :: "method_stats js_object"

record step_result =
  sr_aggregated :: "aggregated_stats option"

record test_entry =
  te_dir :: string
  te_filename_hash :: "string option"
  te_steps :: "step_result steps option"

record run_result =
  rr_pre_run_steps :: "step_result js_object option"
  rr_tests :: "test_entry js_object"

record cpu_topology_entry =
  cpu_id :: int
  cpu_core :: int
  cpu_socket :: int
  cpu_numa :: int


section \<open>Deletion queue\<close>

text \<open>\<open>!!entry.deletion_requested_at\<close>: neither absent nor zero.\<close>

definition isPendingDeletion :: "index_entry \<Rightarrow> bool" where
  "isPendingDeletion entry =
     (case ie_deletion_requested_at entry of None \<Rightarrow> False | Some t \<Rightarrow> t \<noteq> 0)"


section \<open>Index statistics\<close>

record index_agg =
  ia_success :: real
  ia_fail :: real
  ia_duration :: real
  ia_gasUsed :: real
  ia_gasUsedDuration :: real

definition zero_agg :: index_agg where
  "zero_agg = \<lparr>ia_success = 0, ia_fail = 0, ia_duration = 0, ia_gasUsed = 0, ia_gasUsedDuration = 0\<rparr>"

fun add_index_step :: "index_agg \<Rightarrow> index_step_stats option \<Rightarrow> index_agg" where
  "add_index_step a None = a"
| "add_index_step a (Some s) =
     \<lparr>ia_success = ia_success a + is_success s,
      ia_fail = ia_fail a + is_fail s,
      ia_duration = ia_duration a + is_duration s,
      ia_gasUsed = ia_gasUsed a + is_gas_used s,
      ia_gasUsedDuration = ia_gasUsedDuration a + is_gas_used_duration s\<rparr>"

definition getIndexAggregatedStats :: "index_entry \<Rightarrow> step_type list \<Rightarrow> index_agg" where
  "getIndexAggregatedStats entry stepFilter =
     (let st = it_steps (ie_tests entry);
          a1 = (if Setup \<in> set stepFilter then add_index_step zero_agg (st_setup st) else zero_agg);
          a2 = (if Test \<in> set stepFilter then add_index_step a1 (st_test st) else a1)
      in if Cleanup \<in> set stepFilter then add_index_step a2 (st_cleanup st) else a2)"

record duration_agg =
  da_gasUsed :: real
  da_timeNs :: real

fun add_duration_step :: "duration_agg \<Rightarrow> run_duration_step option \<Rightarrow> duration_agg" where
  "add_duration_step a None = a"
| "add_duration_step a (Some s) =
     \<lparr>da_gasUsed = da_gasUsed a + ds_gas_used s, da_timeNs = da_timeNs a + ds_time_ns s\<rparr>"

definition getRunDurationAggregatedStats :: "run_duration \<Rightarrow> step_type list \<Rightarrow> duration_agg" where
  "getRunDurationAggregatedStats d stepFilter =
     (case rd_steps d of
        None \<Rightarrow> \<lparr>da_gasUsed = rd_gas_used d, da_timeNs = rd_time_ns d\<rparr>
      | Some st \<Rightarrow>
          let a0 = \<lparr>da_gasUsed = 0, da_timeNs = 0\<rparr>;
              a1 = (if Setup \<in> set stepFilter then add_duration_step a0 (st_setup st) else a0);
              a2 = (if Test \<in> set stepFilter then add_duration_step a1 (st_test st) else a1)
          in if Cleanup \<in> set stepFilter then add_duration_step a2 (st_cleanup st) else a2)"

text \<open>The gas of a filter is the sum over its distinct steps; order and repetition are irrelevant.\<close>

definition step_gas :: "index_entry \<Rightarrow> step_type \<Rightarrow> real" where
  "step_gas entry t =
     (case step_get (it_steps (ie_tests entry)) t of None \<Rightarrow> 0 | Some s \<Rightarrow> is_gas_used s)"

definition step_gas_duration :: "index_entry \<Rightarrow> step_type \<Rightarrow> real" where
  "step_gas_duration entry t =
     (case step_get (it_steps (ie_tests entry)) t of None \<Rightarrow> 0 | Some s \<Rightarrow> is_gas_used_duration s)"

lemma UNIV_step: "(UNIV :: step_type set) = {Setup, Test, Cleanup}"
  using step_type.exhaust by auto

instance step_type :: finite
  by standard (simp add: UNIV_step)

lemma sum_steps:
  fixes f :: "step_type \<Rightarrow> real"
  shows "(\<Sum>t \<in> A. f t) =
    (if Setup \<in> A then f Setup else 0) + (if Test \<in> A then f Test else 0) +
    (if Cleanup \<in> A then f Cleanup else 0)"
proof -
  have "(\<Sum>t \<in> A. f t) = (\<Sum>t \<in> UNIV. if t \<in> A then f t else 0)"
    by (subst sum.inter_restrict [symmetric]) auto
  then show ?thesis by (simp add: UNIV_step)
qed

lemma index_stats_gas:
  "ia_gasUsed (getIndexAggregatedStats e fs) = (\<Sum>t \<in> set fs. step_gas e t)"
  "ia_gasUsedDuration (getIndexAggregatedStats e fs) = (\<Sum>t \<in> set fs. step_gas_duration e t)"
  by (auto simp: getIndexAggregatedStats_def sum_steps step_gas_def step_gas_duration_def
      zero_agg_def Let_def split: option.splits)



section \<open>Statistics of a test entry\<close>

text \<open>
  \<open>getAggregatedStats\<close> of \<open>RunDetailPage.tsx\<close> maps the filter to the steps that carry
  statistics and sums them. A filter that names a step twice counts it twice.
\<close>

definition ms_zero :: method_stats where
  "ms_zero = \<lparr>ms_count = 0, ms_last = 0, ms_min = None, ms_max = None, ms_mean = None,
     ms_p50 = None, ms_p95 = None, ms_p99 = None\<rparr>"

definition merge_time :: "string \<times> method_stats \<Rightarrow> method_stats js_object \<Rightarrow> method_stats js_object" where
  "merge_time kv tms =
     (let (method, stats) = kv;
          t = (case map_of tms method of None \<Rightarrow> ms_zero | Some t \<Rightarrow> t)
      in obj_set method (t\<lparr>ms_count := ms_count t + ms_count stats, ms_last := ms_last stats\<rparr>) tms)"

definition zero_stats :: aggregated_stats where
  "zero_stats = \<lparr>time_total = 0, gas_used_total = 0, gas_used_time_total = 0, ag_success = 0,
     ag_fail = 0, msg_count = 0, ag_resource_totals = None, ag_times = [], ag_mgas_s = []\<rparr>"

definition add_stats :: "aggregated_stats \<Rightarrow> aggregated_stats \<Rightarrow> aggregated_stats" where
  "add_stats s acc =
     \<lparr>time_total = time_total acc + time_total s,
      gas_used_total = gas_used_total acc + gas_used_total s,
      gas_used_time_total = gas_used_time_total acc + gas_used_time_total s,
      ag_success = ag_success acc + ag_success s,
      ag_fail = ag_fail acc + ag_fail s,
      msg_count = msg_count acc + msg_count s,
      ag_resource_totals = None,
      ag_times = fold merge_time (ag_times s) (ag_times acc),
      ag_mgas_s = []\<rparr>"

definition step_stats :: "step_result steps \<Rightarrow> step_type \<Rightarrow> aggregated_stats option" where
  "step_stats st t = Option.bind (step_get st t) sr_aggregated"

definition getAggregatedStats :: "test_entry \<Rightarrow> step_type list \<Rightarrow> aggregated_stats option" where
  "getAggregatedStats entry stepFilter =
     (case te_steps entry of
        None \<Rightarrow> None
      | Some st \<Rightarrow>
          let found = List.map_filter (step_stats st) stepFilter
          in if found = [] then None else Some (fold add_stats found zero_stats))"

lemma fold_add_stats:
  "gas_used_total (fold add_stats ss acc) = gas_used_total acc + (\<Sum>s\<leftarrow>ss. gas_used_total s)"
  "gas_used_time_total (fold add_stats ss acc) =
     gas_used_time_total acc + (\<Sum>s\<leftarrow>ss. gas_used_time_total s)"
  "ag_fail (fold add_stats ss acc) = ag_fail acc + (\<Sum>s\<leftarrow>ss. ag_fail s)"
  by (induction ss arbitrary: acc) (simp_all add: add_stats_def)

lemma map_filter_Nil_iff: "List.map_filter f xs = [] \<longleftrightarrow> (\<forall>x \<in> set xs. f x = None)"
  by (induction xs) (auto simp: map_filter_simps split: option.splits)

lemma getAggregatedStats_None:
  "getAggregatedStats e fs = None \<longleftrightarrow>
     (case te_steps e of None \<Rightarrow> True | Some st \<Rightarrow> \<forall>t \<in> set fs. step_stats st t = None)"
  by (auto simp: getAggregatedStats_def Let_def map_filter_Nil_iff split: option.splits)

text \<open>The gas one step contributes; an absent step contributes nothing.\<close>

definition entry_gas :: "test_entry \<Rightarrow> step_type \<Rightarrow> real" where
  "entry_gas e t =
     (case te_steps e of None \<Rightarrow> 0
      | Some st \<Rightarrow> (case step_stats st t of None \<Rightarrow> 0 | Some s \<Rightarrow> gas_used_total s))"

lemma getAggregatedStats_gas:
  assumes "getAggregatedStats e fs = Some s"
  shows "gas_used_total s = (\<Sum>t\<leftarrow>fs. entry_gas e t)"
proof -
  obtain st where st: "te_steps e = Some st"
    using assms by (auto simp: getAggregatedStats_def split: option.splits)
  have "gas_used_total s = (\<Sum>x\<leftarrow>List.map_filter (step_stats st) fs. gas_used_total x)"
    using assms st
    by (auto simp: getAggregatedStats_def Let_def fold_add_stats zero_stats_def split: if_splits)
  also have "\<dots> = (\<Sum>t\<leftarrow>fs. entry_gas e t)"
    by (induction fs) (auto simp: map_filter_simps entry_gas_def st split: option.splits)
  finally show ?thesis .
qed


section \<open>The step filter in the URL\<close>

definition parseStepFilter :: "string option \<Rightarrow> step_type list" where
  "parseStepFilter param =
     (case param of
        None \<Rightarrow> DEFAULT_STEP_FILTER
      | Some p \<Rightarrow>
          if p = [] then DEFAULT_STEP_FILTER
          else let sel = List.map_filter step_of (split_on CHR '','' p)
               in if sel \<noteq> [] then sel else DEFAULT_STEP_FILTER)"

definition serializeStepFilter :: "step_type list \<Rightarrow> string option" where
  "serializeStepFilter sel =
     (if sort (map step_name sel) = sort (map step_name DEFAULT_STEP_FILTER) then None
      else Some (join '','' (map step_name sel)))"

lemma map_filter_step_names: "List.map_filter step_of (map step_name ss) = ss"
  by (induction ss) (simp_all add: map_filter_simps)

lemma step_name_free: "CHR '','' \<notin> set (step_name t)" "step_name t \<noteq> []"
  by (cases t; simp)+

lemma parse_join_steps:
  assumes "ss \<noteq> []"
  shows "parseStepFilter (Some (join '','' (map step_name ss))) = ss"
proof -
  have "join '','' (map step_name ss) \<noteq> []"
    using assms step_name_free by (subst join_Nil_iff) auto
  moreover have "split_on CHR '','' (join '','' (map step_name ss)) = map step_name ss"
    using assms step_name_free by (intro split_on_join) auto
  ultimately show ?thesis
    using assms by (simp add: parseStepFilter_def map_filter_step_names)
qed

end
