(* ===== verification/Compare_Groups.thy ===== *)
theory Compare_Groups
  imports Api_Types
begin

text \<open>
  The groups of the comparison page: their encoding in the URL and the selection of runs
  (\<open>ui/src/components/compare/groupUtils.ts\<close>), and the peers of a run
  (\<open>ui/src/utils/clientPeerRuns.ts\<close>).
\<close>

section \<open>Encoding\<close>

record GroupDef =
  gd_client :: string
  gd_metadata :: "string js_object"
  gd_runs :: "string list option"

text \<open>\<open>s.split(c, 2)\<close> keeps the first two pieces and drops the rest.\<close>

definition split2 :: "char \<Rightarrow> string \<Rightarrow> string \<times> string option" where
  "split2 c s =
     (case split_on c s of
        [] \<Rightarrow> ([], None)
      | [a] \<Rightarrow> (a, None)
      | a # b # _ \<Rightarrow> (a, Some b))"

definition nonempty :: "string list \<Rightarrow> string list" where
  "nonempty = filter (\<lambda>s. s \<noteq> [])"

definition add_pair :: "string \<Rightarrow> string js_object \<Rightarrow> string js_object" where
  "add_pair pair metadata =
     (case index_of CHR ''='' pair of
        None \<Rightarrow> metadata
      | Some eq \<Rightarrow> if eq > 0 then obj_set (take eq pair) (drop (eq + 1) pair) metadata else metadata)"

definition parse_segment :: "string \<Rightarrow> GroupDef" where
  "parse_segment seg =
     (let (def, runsPart) = split2 CHR ''|'' seg;
          (client, rest) = split2 CHR '':'' def;
          metadata = (case rest of
                        None \<Rightarrow> []
                      | Some r \<Rightarrow> if r = [] then [] else fold add_pair (nonempty (split_on CHR '','' r)) [])
      in \<lparr>gd_client = client, gd_metadata = metadata,
          gd_runs = map_option (\<lambda>r. nonempty (split_on CHR '','' r)) runsPart\<rparr>)"

definition parseGroupsParam :: "string option \<Rightarrow> GroupDef list" where
  "parseGroupsParam param =
     (case param of
        None \<Rightarrow> []
      | Some p \<Rightarrow> if p = [] then [] else map parse_segment (nonempty (split_on CHR '';'' p)))"

definition encode_group :: "GroupDef \<Rightarrow> string" where
  "encode_group g =
     gd_client g @ '':'' @ join '','' (map (\<lambda>(k, v). k @ ''='' @ v) (gd_metadata g)) @
     (case gd_runs g of None \<Rightarrow> [] | Some rs \<Rightarrow> ''|'' @ join '','' rs)"

definition encodeGroupsParam :: "GroupDef list \<Rightarrow> string" where
  "encodeGroupsParam groups = join '';'' (map encode_group groups)"


section \<open>Selection\<close>

text \<open>The entries are only read through their run id, the parameter \<open>rid\<close>.\<close>

definition selectGroupRuns :: "('e \<Rightarrow> string) \<Rightarrow> GroupDef \<Rightarrow> 'e list \<Rightarrow> nat \<Rightarrow> 'e list" where
  "selectGroupRuns rid grp matched sampleSize =
     (case gd_runs grp of
        None \<Rightarrow> take sampleSize matched
      | Some runs \<Rightarrow> (let wanted = js_set_of runs in filter (\<lambda>e. rid e \<in> set wanted) matched))"

definition setGroupRuns ::
    "('e \<Rightarrow> string) \<Rightarrow> GroupDef \<Rightarrow> 'e list \<Rightarrow> nat \<Rightarrow> string list \<Rightarrow> bool \<Rightarrow> GroupDef" where
  "setGroupRuns rid grp matched sampleSize runIds incl =
     (let current0 = js_set_of (map rid (selectGroupRuns rid grp matched sampleSize));
          current = fold (\<lambda>r. if incl then set_add r else set_delete r) runIds current0;
          automatic = map rid (take sampleSize matched);
          isAutomatic = (length current = length automatic \<and> list_all (\<lambda>i. i \<in> set current) automatic)
      in if isAutomatic then grp\<lparr>gd_runs := None\<rparr>
         else grp\<lparr>gd_runs := Some (map rid (filter (\<lambda>e. rid e \<in> set current) matched))\<rparr>)"

definition toggleGroupRun :: "('e \<Rightarrow> string) \<Rightarrow> GroupDef \<Rightarrow> 'e list \<Rightarrow> nat \<Rightarrow> string \<Rightarrow> GroupDef" where
  "toggleGroupRun rid grp matched sampleSize runId =
     (let sel = list_ex (\<lambda>e. rid e = runId) (selectGroupRuns rid grp matched sampleSize)
      in setGroupRuns rid grp matched sampleSize [runId] (\<not> sel))"


section \<open>Peers\<close>

definition hasSameLabels :: "string js_object option \<Rightarrow> string js_object option \<Rightarrow> bool" where
  "hasSameLabels a b =
     (let a' = (case a of None \<Rightarrow> [] | Some l \<Rightarrow> l); b' = (case b of None \<Rightarrow> [] | Some l \<Rightarrow> l)
      in length a' = length b' \<and> list_all (\<lambda>k. map_of a' k = map_of b' k) (map fst a'))"

definition selectClientPeerRuns ::
    "index_entry list \<Rightarrow> string option \<Rightarrow> string option \<Rightarrow> string option \<Rightarrow> string js_object option \<Rightarrow>
     index_entry list" where
  "selectClientPeerRuns entries suiteHash client instanceId labels =
     (if suiteHash = None \<or> suiteHash = Some [] \<or> client = None \<or> client = Some [] then []
      else let sameClient = filter (\<lambda>r. ie_suite_hash r = suiteHash \<and>
                                        Some (ii_client (ie_instance r)) = client) entries;
               sameLabels = filter (\<lambda>r. hasSameLabels (ie_metadata r) labels) sameClient;
               sameInstance = (if instanceId = None \<or> instanceId = Some [] then []
                               else filter (\<lambda>r. Some (ii_id (ie_instance r)) = instanceId) sameClient)
           in if length sameLabels > 1 then sameLabels
              else if length sameInstance > 1 then sameInstance
              else sameClient)"


section \<open>Lemmas on the encoding\<close>

definition free_of :: "string \<Rightarrow> string \<Rightarrow> bool" where
  "free_of seps s \<longleftrightarrow> set s \<inter> set seps = {}"

definition wf_group :: "GroupDef \<Rightarrow> bool" where
  "wf_group g \<longleftrightarrow>
     free_of '';|:'' (gd_client g) \<and> canonical (gd_metadata g) \<and>
     list_all (\<lambda>(k, v). k \<noteq> [] \<and> free_of '';|:,='' k \<and> free_of '';|:,'' v) (gd_metadata g) \<and>
     (case gd_runs g of None \<Rightarrow> True | Some rs \<Rightarrow> list_all (\<lambda>r. r \<noteq> [] \<and> free_of '';|,'' r) rs)"

lemma split2_hit:
  assumes "c \<notin> set a" and "c \<notin> set b"
  shows "split2 c (a @ c # b) = (a, Some b)"
  using assms by (simp add: split2_def split_on_append split_on_free)

lemma split2_miss: "c \<notin> set a \<Longrightarrow> split2 c a = (a, None)"
  by (simp add: split2_def split_on_free)

lemma nonempty_split_join:
  assumes "list_all (\<lambda>s. s \<noteq> [] \<and> c \<notin> set s) xs"
  shows "nonempty (split_on c (join [c] xs)) = xs"
proof (cases "xs = []")
  case False
  have "split_on c (join [c] xs) = xs"
    using assms False by (intro split_on_join) (auto simp: list_all_iff)
  then show ?thesis using assms by (auto simp: nonempty_def list_all_iff intro: filter_True)
qed (simp add: nonempty_def)

lemma add_pair_text:
  assumes "k \<noteq> []" and "CHR ''='' \<notin> set k"
  shows "add_pair (k @ ''='' @ v) m = obj_set k v m"
  using assms index_of_append [of "CHR ''=''" k v] by (simp add: add_pair_def)

lemma fold_add_pair:
  assumes "list_all (\<lambda>(k, v). k \<noteq> [] \<and> CHR ''='' \<notin> set k) kvs"
  shows "fold add_pair (map (\<lambda>(k, v). k @ ''='' @ v) kvs) m = fold (\<lambda>(k, v). obj_set k v) kvs m"
  using assms
proof (induction kvs arbitrary: m)
  case (Cons p kvs)
  then show ?case by (cases p) (simp add: add_pair_text [simplified])
qed simp

lemma join_free:
  assumes "c \<notin> set sep" and "\<forall>x \<in> set xs. c \<notin> set x"
  shows "c \<notin> set (join sep xs)"
  using assms set_join [of sep xs] by blast

lemma parse_metadata:
  assumes "canonical m"
    and "list_all (\<lambda>(k, v). k \<noteq> [] \<and> free_of '';|:,='' k \<and> free_of '';|:,'' v) m"
  defines "t \<equiv> join '','' (map (\<lambda>(k, v). k @ ''='' @ v) m)"
  shows "(if t = [] then [] else fold add_pair (nonempty (split_on CHR '','' t)) []) = m"
    and "CHR '':'' \<notin> set t" and "CHR ''|'' \<notin> set t" and "CHR '';'' \<notin> set t"
proof -
  let ?ps = "map (\<lambda>(k, v). k @ ''='' @ v) m"
  have free: "\<forall>x \<in> set ?ps. x \<noteq> [] \<and> CHR '','' \<notin> set x \<and> CHR '':'' \<notin> set x \<and> CHR ''|'' \<notin> set x \<and>
      CHR '';'' \<notin> set x"
    using assms(2) by (fastforce simp: list_all_iff free_of_def)
  have "nonempty (split_on CHR '','' t) = ?ps"
    unfolding t_def by (rule nonempty_split_join) (use free in \<open>auto simp: list_all_iff\<close>)
  moreover have "fold add_pair ?ps [] = m"
  proof -
    have "list_all (\<lambda>(k, v). k \<noteq> [] \<and> CHR ''='' \<notin> set k) m"
      using assms(2) by (auto simp: list_all_iff free_of_def)
    then show ?thesis using fold_add_pair obj_of_canonical [OF assms(1)] by (simp add: obj_of_def)
  qed
  moreover have "t = [] \<longleftrightarrow> m = []"
    unfolding t_def using free by (subst join_Nil_iff) auto
  ultimately show "(if t = [] then [] else fold add_pair (nonempty (split_on CHR '','' t)) []) = m"
    by simp
  show "CHR '':'' \<notin> set t" "CHR ''|'' \<notin> set t" "CHR '';'' \<notin> set t"
    unfolding t_def using free by (intro join_free; simp)+
qed

lemma parse_segment_parts:
  assumes "split2 CHR ''|'' seg = (def, rp)" and "split2 CHR '':'' def = (c, Some t)"
    and "(if t = [] then [] else fold add_pair (nonempty (split_on CHR '','' t)) []) = m"
  shows "parse_segment seg = \<lparr>gd_client = c, gd_metadata = m,
    gd_runs = map_option (\<lambda>r. nonempty (split_on CHR '','' r)) rp\<rparr>"
  using assms by (auto simp: parse_segment_def split: if_splits)

lemma parse_encode_group:
  assumes "wf_group g"
  shows "parse_segment (encode_group g) = g" and "CHR '';'' \<notin> set (encode_group g)"
    and "encode_group g \<noteq> []"
proof -
  let ?t = "join '','' (map (\<lambda>(k, v). k @ ''='' @ v) (gd_metadata g))"
  have g: "canonical (gd_metadata g)"
    "list_all (\<lambda>(k, v). k \<noteq> [] \<and> free_of '';|:,='' k \<and> free_of '';|:,'' v) (gd_metadata g)"
    "CHR '';'' \<notin> set (gd_client g)" "CHR ''|'' \<notin> set (gd_client g)" "CHR '':'' \<notin> set (gd_client g)"
    using assms by (auto simp: wf_group_def free_of_def)
  note m = parse_metadata [OF g(1,2)]
  have def: "split2 CHR '':'' (gd_client g @ CHR '':'' # ?t) = (gd_client g, Some ?t)"
    using g(5) m(2) by (intro split2_hit) simp_all
  have bar: "CHR ''|'' \<notin> set (gd_client g @ CHR '':'' # ?t)" using g(4) m(3) by simp
  show "encode_group g \<noteq> []" by (simp add: encode_group_def)
  have "parse_segment (encode_group g) = g \<and> CHR '';'' \<notin> set (encode_group g)"
  proof (cases "gd_runs g")
    case None
    then have "encode_group g = gd_client g @ CHR '':'' # ?t" by (simp add: encode_group_def)
    moreover from this have "split2 CHR ''|'' (encode_group g) = (gd_client g @ CHR '':'' # ?t, None)"
      using bar by (simp add: split2_miss)
    ultimately show ?thesis
      using parse_segment_parts [OF _ def m(1), of "encode_group g" None] None m(4) g(3)
      by (cases g) auto
  next
    case (Some rs)
    then have rs: "list_all (\<lambda>r. r \<noteq> [] \<and> free_of '';|,'' r) rs" using assms by (simp add: wf_group_def)
    have enc: "encode_group g = (gd_client g @ CHR '':'' # ?t) @ CHR ''|'' # join '','' rs"
      using Some by (simp add: encode_group_def)
    have free: "CHR ''|'' \<notin> set (join '','' rs)" "CHR '';'' \<notin> set (join '','' rs)"
      using rs by (intro join_free; auto simp: list_all_iff free_of_def)+
    have "split2 CHR ''|'' (encode_group g) = (gd_client g @ CHR '':'' # ?t, Some (join '','' rs))"
      unfolding enc using bar free(1) by (rule split2_hit)
    moreover have "nonempty (split_on CHR '','' (join '','' rs)) = rs"
      using rs by (intro nonempty_split_join) (auto simp: list_all_iff free_of_def)
    moreover have "CHR '';'' \<notin> set (encode_group g)" unfolding enc using m(4) g(3) free(2) by simp
    ultimately show ?thesis
      using parse_segment_parts [OF _ def m(1), of "encode_group g" "Some (join '','' rs)"] Some
      by (cases g) auto
  qed
  then show "parse_segment (encode_group g) = g" "CHR '';'' \<notin> set (encode_group g)" by simp_all
qed

section \<open>Lemmas on the selection\<close>

text \<open>The ids the selection holds before it is written back.\<close>

definition wanted_ids :: "('e \<Rightarrow> string) \<Rightarrow> GroupDef \<Rightarrow> 'e list \<Rightarrow> nat \<Rightarrow> string list \<Rightarrow> bool \<Rightarrow> string set" where
  "wanted_ids rid g matched n runIds incl =
     (let cur = set (map rid (selectGroupRuns rid g matched n))
      in if incl then cur \<union> set runIds else cur - set runIds)"

lemma set_fold_delete: "set (fold set_delete ys xs) = set xs - set ys"
  by (induction ys arbitrary: xs) auto

lemma distinct_fold_delete: "distinct xs \<Longrightarrow> distinct (fold set_delete ys xs)"
  by (induction ys arbitrary: xs) auto

lemma current_ids:
  "set (fold (\<lambda>r. if incl then set_add r else set_delete r) runIds (js_set_of ids)) =
      (if incl then set ids \<union> set runIds else set ids - set runIds)"
  "distinct (fold (\<lambda>r. if incl then set_add r else set_delete r) runIds (js_set_of ids))"
  by (cases incl; simp add: set_fold_add set_fold_delete distinct_fold_add distinct_fold_delete)+

lemma filter_take_distinct:
  assumes "distinct (map f xs)"
  shows "filter (\<lambda>e. f e \<in> set (map f (take n xs))) xs = take n xs"
proof -
  have "distinct (map f (take n xs @ drop n xs))" using assms by simp
  then have disj: "f e \<notin> f ` set (take n xs)" if "e \<in> set (drop n xs)" for e
    using that unfolding map_append distinct_append by auto
  have "filter (\<lambda>e. f e \<in> set (map f (take n xs))) (drop n xs) = []"
    using disj by (simp add: filter_empty_conv)
  moreover have "filter (\<lambda>e. f e \<in> set (map f (take n xs))) (take n xs) = take n xs"
    by (rule filter_True) simp
  ultimately have "filter (\<lambda>e. f e \<in> set (map f (take n xs))) (take n xs @ drop n xs) = take n xs"
    by (simp only: filter_append append_Nil2)
  then show ?thesis by simp
qed

lemma setGroupRuns_select:
  assumes "distinct (map rid matched)"
  shows "selectGroupRuns rid (setGroupRuns rid g matched n runIds incl) matched n =
    filter (\<lambda>e. rid e \<in> wanted_ids rid g matched n runIds incl) matched"
proof -
  let ?ids = "map rid (selectGroupRuns rid g matched n)"
  let ?cur = "fold (\<lambda>r. if incl then set_add r else set_delete r) runIds (js_set_of ?ids)"
  let ?auto = "map rid (take n matched)"
  have cur: "set ?cur = wanted_ids rid g matched n runIds incl" "distinct ?cur"
    using current_ids(1) [of incl runIds ?ids] current_ids(2) [of incl runIds ?ids]
    by (simp_all add: wanted_ids_def Let_def)
  have daut: "distinct ?auto" using assms by (metis distinct_take take_map)
  show ?thesis
  proof (cases "length ?cur = length ?auto \<and> list_all (\<lambda>i. i \<in> set ?cur) ?auto")
    case True
    then have "set ?auto \<subseteq> set ?cur" by (auto simp: list_all_iff)
    moreover have "card (set ?auto) = card (set ?cur)"
      using True distinct_card [OF daut] distinct_card [OF cur(2)] by presburger
    ultimately have "set ?auto = set ?cur" by (intro card_subset_eq) simp_all
    moreover have "setGroupRuns rid g matched n runIds incl = g\<lparr>gd_runs := None\<rparr>"
      using True by (simp add: setGroupRuns_def Let_def)
    ultimately show ?thesis
      using filter_take_distinct [OF assms, of n] cur(1) by (simp add: selectGroupRuns_def)
  next
    case False
    then have "setGroupRuns rid g matched n runIds incl =
        g\<lparr>gd_runs := Some (map rid (filter (\<lambda>e. rid e \<in> set ?cur) matched))\<rparr>"
      unfolding setGroupRuns_def Let_def by (simp only: if_False)
    moreover have "filter (\<lambda>e. rid e \<in> rid ` {e' \<in> set matched. rid e' \<in> set ?cur}) matched =
        filter (\<lambda>e. rid e \<in> set ?cur) matched"
      by (rule filter_cong) auto
    ultimately show ?thesis using cur(1) by (simp add: selectGroupRuns_def)
  qed
qed

lemma select_subset: "set (selectGroupRuns rid g matched n) \<subseteq> set matched"
  by (auto simp: selectGroupRuns_def dest: in_set_takeD split: option.splits)

lemma select_filter:
  assumes "distinct (map rid matched)"
  shows "filter (\<lambda>e. rid e \<in> set (map rid (selectGroupRuns rid g matched n))) matched =
    selectGroupRuns rid g matched n"
proof (cases "gd_runs g")
  case None
  then show ?thesis using filter_take_distinct [OF assms, of n] by (simp add: selectGroupRuns_def)
next
  case (Some rs)
  then show ?thesis by (auto simp: selectGroupRuns_def intro!: filter_cong)
qed

lemma rid_inj:
  "distinct (map rid matched) \<Longrightarrow> e \<in> set matched \<Longrightarrow> e' \<in> set matched \<Longrightarrow> rid e = rid e' \<Longrightarrow> e = e'"
  by (simp add: distinct_map inj_on_def)

lemma select_mem:
  assumes "distinct (map rid matched)" and "e \<in> set matched"
  shows "rid e \<in> rid ` set (selectGroupRuns rid g matched n) \<longleftrightarrow>
    e \<in> set (selectGroupRuns rid g matched n)"
proof
  assume "rid e \<in> rid ` set (selectGroupRuns rid g matched n)"
  then obtain e' where e': "e' \<in> set (selectGroupRuns rid g matched n)" "rid e = rid e'" by blast
  then have "e' \<in> set matched" using select_subset [of rid g matched n] by blast
  then show "e \<in> set (selectGroupRuns rid g matched n)"
    using rid_inj [OF assms(1,2)] e' by blast
qed blast

lemma select_filter_mem:
  assumes "distinct (map rid matched)"
  shows "filter (\<lambda>e. e \<in> set (selectGroupRuns rid g matched n)) matched = selectGroupRuns rid g matched n"
proof -
  have "filter (\<lambda>e. e \<in> set (selectGroupRuns rid g matched n)) matched =
      filter (\<lambda>e. rid e \<in> set (map rid (selectGroupRuns rid g matched n))) matched"
    using select_mem [OF assms] by (intro filter_cong) simp_all
  then show ?thesis using select_filter [OF assms] by simp
qed

lemma toggle_select:
  assumes "distinct (map rid matched)"
  shows "selectGroupRuns rid (toggleGroupRun rid g matched n r) matched n =
    filter (\<lambda>e. (rid e = r) \<noteq> (e \<in> set (selectGroupRuns rid g matched n))) matched"
proof -
  let ?S = "set (selectGroupRuns rid g matched n)"
  note mem = select_mem [OF assms, of _ g n]
  have sel: "list_ex (\<lambda>e. rid e = r) (selectGroupRuns rid g matched n) \<longleftrightarrow> r \<in> rid ` ?S"
    by (auto simp: list_ex_iff)
  show ?thesis
    unfolding toggleGroupRun_def Let_def setGroupRuns_select [OF assms] sel
  proof (rule filter_cong [OF refl])
    fix e assume e: "e \<in> set matched"
    have "rid e \<in> wanted_ids rid g matched n [r] (r \<notin> rid ` ?S) \<longleftrightarrow>
        (if r \<notin> rid ` ?S then rid e \<in> rid ` ?S \<or> rid e = r else rid e \<in> rid ` ?S \<and> rid e \<noteq> r)"
      unfolding wanted_ids_def Let_def set_map by (simp add: disj_commute)
    then show "(rid e \<in> wanted_ids rid g matched n [r] (r \<notin> rid ` ?S)) = ((rid e = r) \<noteq> (e \<in> ?S))"
      using mem [OF e] by (cases "rid e = r"; cases "e \<in> ?S"; simp)
  qed
qed

lemma filter_set_ids: "C \<subseteq> f ` set xs \<Longrightarrow> ys = filter (\<lambda>e. f e \<in> C) xs \<Longrightarrow> set (map f ys) = C"
  by auto

text \<open>A written selection never equals the automatic sample.\<close>

lemma toggle_automatic:
  assumes "distinct (map rid matched)" and "r \<in> rid ` set matched"
    and "selectGroupRuns rid (toggleGroupRun rid g matched n r) matched n = take n matched"
  shows "gd_runs (toggleGroupRun rid g matched n r) = None"
proof -
  let ?sel = "selectGroupRuns rid g matched n"
  define incl where "incl = (\<not> list_ex (\<lambda>e. rid e = r) ?sel)"
  let ?cur = "fold (\<lambda>r. if incl then set_add r else set_delete r) [r] (js_set_of (map rid ?sel))"
  let ?auto = "map rid (take n matched)"
  have cur: "set ?cur = wanted_ids rid g matched n [r] incl" "distinct ?cur"
    using current_ids(1) [of incl "[r]" "map rid ?sel"] current_ids(2) [of incl "[r]" "map rid ?sel"]
    by (simp_all add: wanted_ids_def Let_def)
  have sub: "set ?cur \<subseteq> rid ` set matched"
    using select_subset [of rid g matched n] assms(2) unfolding cur(1)
    by (auto simp: wanted_ids_def Let_def)
  have fil: "take n matched = filter (\<lambda>e. rid e \<in> set ?cur) matched"
    using setGroupRuns_select [OF assms(1), of g n "[r]" incl] assms(3) cur(1)
    by (simp add: toggleGroupRun_def incl_def)
  have eq: "set ?auto = set ?cur" by (rule filter_set_ids [OF sub fil])
  have "distinct ?auto" using assms(1) by (metis distinct_take take_map)
  then have "length ?cur = length ?auto" using cur(2) eq by (metis distinct_card)
  then have "setGroupRuns rid g matched n [r] incl = g\<lparr>gd_runs := None\<rparr>"
    using eq unfolding setGroupRuns_def Let_def by (simp add: list_all_iff)
  then show ?thesis by (simp add: toggleGroupRun_def incl_def)
qed


section \<open>Properties\<close>

lemma parse_encode_groups:
  assumes "list_all wf_group groups"
  shows "parseGroupsParam (Some (encodeGroupsParam groups)) = groups"
proof -
  let ?segs = "map encode_group groups"
  have "nonempty (split_on CHR '';'' (encodeGroupsParam groups)) = ?segs"
    unfolding encodeGroupsParam_def
    by (rule nonempty_split_join) (use assms parse_encode_group in \<open>auto simp: list_all_iff\<close>)
  moreover have "map parse_segment ?segs = groups"
    using assms parse_encode_group(1) by (auto simp: list_all_iff intro: map_idI)
  moreover have "encodeGroupsParam groups = [] \<longleftrightarrow> groups = []"
    unfolding encodeGroupsParam_def using assms parse_encode_group(3)
    by (subst join_Nil_iff) (auto simp: list_all_iff)
  ultimately show ?thesis by (simp add: parseGroupsParam_def)
qed

text \<open>Group definitions survive the URL: decoding the encoded groups gives them back, when no
  client, label or run id holds one of the separators.\<close>

theorem groups_roundtrip:
  assumes "list_all wf_group groups"
  shows "parseGroupsParam (Some (encodeGroupsParam groups)) = groups"
  by (rule parse_encode_groups [OF assms])

theorem groups_roundtrip_witness:
  "parseGroupsParam (Some (encodeGroupsParam
      [\<lparr>gd_client = ''geth'', gd_metadata = [(''os'', ''linux''), (''fork'', ''osaka'')],
        gd_runs = Some [''r1'', ''r2'']\<rparr>, \<lparr>gd_client = [], gd_metadata = [], gd_runs = None\<rparr>])) =
    [\<lparr>gd_client = ''geth'', gd_metadata = [(''os'', ''linux''), (''fork'', ''osaka'')],
      gd_runs = Some [''r1'', ''r2'']\<rparr>, \<lparr>gd_client = [], gd_metadata = [], gd_runs = None\<rparr>]"
  by (rule groups_roundtrip)
    (simp add: wf_group_def free_of_def canonical_def key_before_def index_key_def is_digit_def)

text \<open>The separators are not escaped: a label value with a colon is cut at the colon.\<close>

lemma label_value_cut:
  "parseGroupsParam (Some (encodeGroupsParam
      [\<lparr>gd_client = ''geth'', gd_metadata = [(''image'', ''geth:v1'')], gd_runs = None\<rparr>])) =
    [\<lparr>gd_client = ''geth'', gd_metadata = [(''image'', ''geth'')], gd_runs = None\<rparr>]"
  by code_simp

text \<open>Changing the runs of a group changes its selection by exactly the given runs, in matched
  order: including adds them to the runs it averaged before, excluding removes them, and it does
  not matter whether the group was or becomes automatic.\<close>

theorem set_group_runs_selection:
  assumes "distinct (map rid matched)" and "before = rid ` set (selectGroupRuns rid g matched n)"
  shows "selectGroupRuns rid (setGroupRuns rid g matched n runIds incl) matched n =
    filter (\<lambda>e. if incl then rid e \<in> before \<or> rid e \<in> set runIds
                else rid e \<in> before \<and> rid e \<notin> set runIds) matched"
  unfolding setGroupRuns_select [OF assms(1)] assms(2)
  by (rule filter_cong) (auto simp: wanted_ids_def Let_def)

theorem set_group_runs_selection_witness:
  "selectGroupRuns id (setGroupRuns id \<lparr>gd_client = [], gd_metadata = [], gd_runs = None\<rparr>
     [''a'', ''b'', ''c''] 1 [''c''] True) [''a'', ''b'', ''c''] 1 = [''a'', ''c'']"
  by (subst set_group_runs_selection [OF _ refl]) (simp_all add: selectGroupRuns_def)

text \<open>Toggling a matched run flips its membership in the selection and leaves the others;
  toggling it again restores the selection, and a selection equal to the automatic sample is
  stored as automatic.\<close>

theorem toggle_group_run:
  assumes "distinct (map rid matched)" and "r \<in> rid ` set matched"
    and "g' = toggleGroupRun rid g matched n r"
  shows "selectGroupRuns rid g' matched n =
      filter (\<lambda>e. (rid e = r) \<noteq> (e \<in> set (selectGroupRuns rid g matched n))) matched \<and>
    selectGroupRuns rid (toggleGroupRun rid g' matched n r) matched n = selectGroupRuns rid g matched n \<and>
    (selectGroupRuns rid g' matched n = take n matched \<longrightarrow> gd_runs g' = None)"
proof -
  note flip = toggle_select [OF assms(1)]
  have sub: "e \<in> set (selectGroupRuns rid h matched n) \<Longrightarrow> e \<in> set matched" for e h
    using select_subset [of rid h matched n] by blast
  have "filter (\<lambda>e. (rid e = r) \<noteq> (e \<in> set (selectGroupRuns rid g' matched n))) matched =
      filter (\<lambda>e. e \<in> set (selectGroupRuns rid g matched n)) matched"
    unfolding assms(3) flip by (rule filter_cong) auto
  also have "\<dots> = selectGroupRuns rid g matched n" by (rule select_filter_mem [OF assms(1)])
  finally have "selectGroupRuns rid (toggleGroupRun rid g' matched n r) matched n =
      selectGroupRuns rid g matched n" by (simp add: flip)
  moreover have "gd_runs g' = None" if "selectGroupRuns rid g' matched n = take n matched"
    using toggle_automatic [OF assms(1,2)] that assms(3) by simp
  ultimately show ?thesis using flip assms(3) by simp
qed

theorem toggle_group_run_witness:
  "selectGroupRuns id (toggleGroupRun id \<lparr>gd_client = [], gd_metadata = [], gd_runs = None\<rparr>
     [''a'', ''b'', ''c''] 2 ''b'') [''a'', ''b'', ''c''] 2 = [''a'']"
  by (subst toggle_group_run [THEN conjunct1, OF _ _ refl]) (simp_all add: selectGroupRuns_def)

lemma same_labels_iff:
  assumes "distinct (map fst a)" and "distinct (map fst b)"
  shows "hasSameLabels (Some a) (Some b) \<longleftrightarrow> map_of a = map_of b"
proof
  assume same: "hasSameLabels (Some a) (Some b)"
  then have len: "length a = length b" and eq: "\<forall>k \<in> set (map fst a). map_of a k = map_of b k"
    by (auto simp: hasSameLabels_def list_all_iff)
  have "fst ` set a \<subseteq> fst ` set b"
  proof
    fix k assume "k \<in> fst ` set a"
    then have "map_of b k \<noteq> None" using eq by (metis list.set_map map_of_eq_None_iff)
    then show "k \<in> fst ` set b" by (simp add: map_of_eq_None_iff)
  qed
  moreover have "card (fst ` set a) = card (fst ` set b)"
    using len distinct_card [OF assms(1)] distinct_card [OF assms(2)] by simp
  ultimately have keys: "fst ` set a = fst ` set b" by (intro card_subset_eq) simp_all
  show "map_of a = map_of b"
  proof
    fix k show "map_of a k = map_of b k"
    proof (cases "k \<in> fst ` set a")
      case False
      then have "map_of a k = None" "map_of b k = None" using keys by (simp_all add: map_of_eq_None_iff)
      then show ?thesis by simp
    qed (use eq in auto)
  qed
next
  assume eq: "map_of a = map_of b"
  then have "fst ` set a = fst ` set b" by (metis dom_map_of_conv_image_fst)
  then have "length a = length b"
    using distinct_card [OF assms(1)] distinct_card [OF assms(2)] by simp
  then show "hasSameLabels (Some a) (Some b)" using eq by (simp add: hasSameLabels_def list_all_iff)
qed

text \<open>The peers of a run are runs of its suite and client, the run is one of them, and it is
  alone only when the client has no other run of the suite. When label peers exist the peers are
  exactly the runs with the same labels.\<close>

theorem peer_runs_sound:
  assumes "r \<in> set entries" and "ie_suite_hash r = Some h" and "h \<noteq> []"
    and "ii_client (ie_instance r) \<noteq> []"
    and "peers = selectClientPeerRuns entries (Some h) (Some (ii_client (ie_instance r)))
      (Some (ii_id (ie_instance r))) (ie_metadata r)"
    and "same = filter (\<lambda>e. ie_suite_hash e = Some h \<and>
      ii_client (ie_instance e) = ii_client (ie_instance r)) entries"
  shows "r \<in> set peers \<and> set peers \<subseteq> set same \<and> (length peers \<le> 1 \<longrightarrow> peers = same) \<and>
    (length (filter (\<lambda>e. hasSameLabels (ie_metadata e) (ie_metadata r)) same) > 1 \<longrightarrow>
      peers = filter (\<lambda>e. hasSameLabels (ie_metadata e) (ie_metadata r)) same)"
proof -
  have refl: "hasSameLabels m m" for m by (simp add: hasSameLabels_def list_all_iff)
  have same: "filter (\<lambda>e. ie_suite_hash e = Some h \<and>
      Some (ii_client (ie_instance e)) = Some (ii_client (ie_instance r))) entries = same"
    using assms(6) by simp
  let ?lab = "filter (\<lambda>e. hasSameLabels (ie_metadata e) (ie_metadata r)) same"
  let ?ins = "if ii_id (ie_instance r) = [] then []
    else filter (\<lambda>e. ii_id (ie_instance e) = ii_id (ie_instance r)) same"
  have peers: "peers = (if length ?lab > 1 then ?lab else if length ?ins > 1 then ?ins else same)"
    using assms(3,4) unfolding assms(5) selectClientPeerRuns_def same Let_def by simp
  have "r \<in> set same" using assms by simp
  then have "r \<in> set ?lab" "length ?ins > 1 \<Longrightarrow> r \<in> set ?ins" using refl by (auto split: if_splits)
  with \<open>r \<in> set same\<close> peers show ?thesis by (auto split: if_splits)
qed

definition sample_entry :: "string \<Rightarrow> string \<Rightarrow> real \<Rightarrow> index_entry" where
  "sample_entry rid client ts = \<lparr>ie_run_id = rid, ie_timestamp = ts, ie_timestamp_end = Some (ts + 60),
     ie_suite_hash = Some ''s1'', ie_instance = \<lparr>ii_id = client, ii_client = client,
       ii_image = ''img'', ii_rollback_strategy = None\<rparr>,
     ie_tests = \<lparr>it_total = 2, it_passed = 1, it_failed = 1,
       it_steps = \<lparr>st_setup = None, st_test = None, st_cleanup = None\<rparr>\<rparr>,
     ie_status = None, ie_termination_reason = None, ie_metadata = None,
     ie_deletion_requested_at = None, ie_deletion_error = None\<rparr>"

theorem peer_runs_sound_witness:
  "sample_entry ''r1'' ''geth'' 1 \<in> set (selectClientPeerRuns
     [sample_entry ''r1'' ''geth'' 1, sample_entry ''r2'' ''reth'' 2, sample_entry ''r3'' ''geth'' 3]
     (Some ''s1'') (Some ''geth'') (Some ''geth'') None)"
proof -
  let ?r = "sample_entry ''r1'' ''geth'' 1"
  have sel: "ie_suite_hash ?r = Some ''s1''" "ii_client (ie_instance ?r) = ''geth''"
    "ii_id (ie_instance ?r) = ''geth''" "ie_metadata ?r = None"
    by (simp_all add: sample_entry_def)
  have "?r \<in> set [?r, sample_entry ''r2'' ''reth'' 2, sample_entry ''r3'' ''geth'' 3]" by simp
  from peer_runs_sound [OF this sel(1) _ _ refl refl] show ?thesis unfolding sel by blast
qed

end
