(* ===== verification/Average_Results.thy ===== *)
theory Average_Results
  imports Api_Types
begin

text \<open>
  The synthetic result of a group of runs, \<open>ui/src/utils/averageResults.ts\<close>: every test's
  statistics, per step, are the mean or the median over the runs that have it.
\<close>

section \<open>Means\<close>

definition sample_mean :: "real list \<Rightarrow> real" where
  "sample_mean values = (if values = [] then 0 else foldl (+) 0 values / real (length values))"

definition median :: "real list \<Rightarrow> real" where
  "median values =
     (if values = [] then 0
      else let sorted = num_sort values; mid = length sorted div 2
           in if length sorted mod 2 = 0 then (sorted ! (mid - 1) + sorted ! mid) / 2 else sorted ! mid)"

definition stddev :: "real list \<Rightarrow> real \<Rightarrow> real" where
  "stddev values avg =
     (if length values < 2 then 0
      else let sumSq = foldl (\<lambda>s v. s + (v - avg) ^ 2) 0 values
           in sqrt (sumSq / (real (length values) - 1)))"

datatype AverageMode = Avg | Median

definition aggregate :: "AverageMode \<Rightarrow> real list \<Rightarrow> real" where
  "aggregate mode = (if mode = Avg then sample_mean else median)"


section \<open>Samples\<close>

record StepSamples =
  ss_gasUsedTotal :: "real list"
  ss_gasUsedTimeTotal :: "real list"
  ss_timeTotal :: "real list"
  ss_success :: "real list"
  ss_fail :: "real list"
  ss_msgCount :: "real list"
  ss_cpuUsec :: "real list"
  ss_memoryDeltaBytes :: "real list"
  ss_memoryBytes :: "real list"
  ss_diskReadBytes :: "real list"
  ss_diskWriteBytes :: "real list"
  ss_diskReadIops :: "real list"
  ss_diskWriteIops :: "real list"

definition emptyStepSamples :: StepSamples where
  "emptyStepSamples = \<lparr>ss_gasUsedTotal = [], ss_gasUsedTimeTotal = [], ss_timeTotal = [], ss_success = [],
     ss_fail = [], ss_msgCount = [], ss_cpuUsec = [], ss_memoryDeltaBytes = [], ss_memoryBytes = [],
     ss_diskReadBytes = [], ss_diskWriteBytes = [], ss_diskReadIops = [], ss_diskWriteIops = []\<rparr>"

definition push_resources :: "resource_totals \<Rightarrow> StepSamples \<Rightarrow> StepSamples" where
  "push_resources r s = s\<lparr>
     ss_cpuUsec := ss_cpuUsec s @ [cpu_usec r],
     ss_memoryDeltaBytes := ss_memoryDeltaBytes s @ [memory_delta_bytes r],
     ss_memoryBytes := ss_memoryBytes s @ [case memory_bytes r of None \<Rightarrow> 0 | Some m \<Rightarrow> m],
     ss_diskReadBytes := ss_diskReadBytes s @ [disk_read_bytes r],
     ss_diskWriteBytes := ss_diskWriteBytes s @ [disk_write_bytes r],
     ss_diskReadIops := ss_diskReadIops s @ [disk_read_iops r],
     ss_diskWriteIops := ss_diskWriteIops s @ [disk_write_iops r]\<rparr>"

definition push_sample :: "aggregated_stats \<Rightarrow> StepSamples \<Rightarrow> StepSamples" where
  "push_sample a s =
     (let s' = s\<lparr>
        ss_gasUsedTotal := ss_gasUsedTotal s @ [gas_used_total a],
        ss_gasUsedTimeTotal := ss_gasUsedTimeTotal s @ [gas_used_time_total a],
        ss_timeTotal := ss_timeTotal s @ [time_total a],
        ss_success := ss_success s @ [ag_success a],
        ss_fail := ss_fail s @ [ag_fail a],
        ss_msgCount := ss_msgCount s @ [msg_count a]\<rparr>
      in case ag_resource_totals a of None \<Rightarrow> s' | Some r \<Rightarrow> push_resources r s')"

definition step_put :: "step_type \<Rightarrow> 'a \<Rightarrow> 'a steps \<Rightarrow> 'a steps" where
  "step_put t x s =
     (case t of Setup \<Rightarrow> s\<lparr>st_setup := Some x\<rparr> | Test \<Rightarrow> s\<lparr>st_test := Some x\<rparr>
      | Cleanup \<Rightarrow> s\<lparr>st_cleanup := Some x\<rparr>)"

definition no_steps :: "'a steps" where
  "no_steps = \<lparr>st_setup = None, st_test = None, st_cleanup = None\<rparr>"

definition entry_step :: "test_entry \<Rightarrow> step_type \<Rightarrow> aggregated_stats option" where
  "entry_step entry t = Option.bind (te_steps entry) (\<lambda>st. step_stats st t)"

definition push_step :: "test_entry \<Rightarrow> step_type \<Rightarrow> StepSamples steps \<Rightarrow> StepSamples steps" where
  "push_step entry t steps =
     (case entry_step entry t of
        None \<Rightarrow> steps
      | Some a \<Rightarrow>
          let samples = (case step_get steps t of None \<Rightarrow> emptyStepSamples | Some s \<Rightarrow> s)
          in step_put t (push_sample a samples) steps)"

type_synonym mgas_samples = "real list \<times> real list"

type_synonym sample_maps = "(string, StepSamples steps) js_map \<times> (string, mgas_samples) js_map"

definition add_entry :: "step_type list \<Rightarrow> string \<times> test_entry \<Rightarrow> sample_maps \<Rightarrow> sample_maps" where
  "add_entry stepFilter ne maps =
     (let (name, entry) = ne; (perStep, mgas) = maps
      in case getAggregatedStats entry stepFilter of
           None \<Rightarrow> maps
         | Some stats \<Rightarrow>
             let (gas, time) = (case map_of mgas name of None \<Rightarrow> ([], []) | Some m \<Rightarrow> m);
                 steps = (case map_of perStep name of None \<Rightarrow> no_steps | Some s \<Rightarrow> s)
             in (map_set name (fold (push_step entry) ALL_STEP_TYPES steps) perStep,
                 map_set name (gas @ [gas_used_total stats], time @ [gas_used_time_total stats]) mgas))"

definition collect :: "step_type list \<Rightarrow> run_result list \<Rightarrow> sample_maps" where
  "collect stepFilter results =
     fold (\<lambda>r. fold (add_entry stepFilter) (rr_tests r)) results ([], [])"


section \<open>The averaged result\<close>

definition average_step :: "AverageMode \<Rightarrow> StepSamples \<Rightarrow> step_result" where
  "average_step mode s =
     (let agg = aggregate mode;
          rounded = (\<lambda>xs. real_of_int (math_round (agg xs)))
      in \<lparr>sr_aggregated = Some
            \<lparr>time_total = agg (ss_timeTotal s),
             gas_used_total = agg (ss_gasUsedTotal s),
             gas_used_time_total = agg (ss_gasUsedTimeTotal s),
             ag_success = rounded (ss_success s),
             ag_fail = rounded (ss_fail s),
             msg_count = rounded (ss_msgCount s),
             ag_resource_totals =
               (if ss_cpuUsec s \<noteq> [] then Some
                  \<lparr>cpu_usec = agg (ss_cpuUsec s),
                   memory_delta_bytes = agg (ss_memoryDeltaBytes s),
                   memory_bytes = Some (agg (ss_memoryBytes s)),
                   disk_read_bytes = agg (ss_diskReadBytes s),
                   disk_write_bytes = agg (ss_diskWriteBytes s),
                   disk_read_iops = agg (ss_diskReadIops s),
                   disk_write_iops = agg (ss_diskWriteIops s)\<rparr>
                else None),
             ag_times = [],
             ag_mgas_s = []\<rparr>\<rparr>)"

definition average_entry :: "AverageMode \<Rightarrow> StepSamples steps \<Rightarrow> test_entry" where
  "average_entry mode steps =
     \<lparr>te_dir = [], te_filename_hash = None,
      te_steps = Some (fold (\<lambda>t acc. case step_get steps t of
                                       None \<Rightarrow> acc
                                     | Some s \<Rightarrow> step_put t (average_step mode s) acc)
                         ALL_STEP_TYPES no_steps)\<rparr>"

record mgas_variance =
  mv_stddev :: real
  mv_mean :: real
  mv_min :: real
  mv_max :: real

definition mgas_values :: "mgas_samples \<Rightarrow> real list" where
  "mgas_values m = map (\<lambda>(g, t). if t > 0 then g * 1000 / t else 0) (zip (fst m) (snd m))"

definition variance_of :: "mgas_samples \<Rightarrow> mgas_variance" where
  "variance_of m =
     (let vals = mgas_values m; avg = sample_mean vals
      in \<lparr>mv_stddev = stddev vals avg, mv_mean = avg,
          mv_min = (if vals \<noteq> [] then Min (set vals) else 0),
          mv_max = (if vals \<noteq> [] then Max (set vals) else 0)\<rparr>)"

record AveragedResult =
  ar_result :: run_result
  ar_variance :: "mgas_variance js_object"

definition averageResults :: "run_result list \<Rightarrow> step_type list \<Rightarrow> AverageMode \<Rightarrow> AveragedResult" where
  "averageResults results stepFilter mode =
     (case results of
        [] \<Rightarrow> \<lparr>ar_result = \<lparr>rr_pre_run_steps = None, rr_tests = []\<rparr>, ar_variance = []\<rparr>
      | [r] \<Rightarrow> \<lparr>ar_result = r, ar_variance = []\<rparr>
      | _ \<Rightarrow>
          let (perStep, mgas) = collect stepFilter results;
              mgas_of = (\<lambda>name. case map_of mgas name of None \<Rightarrow> ([], []) | Some m \<Rightarrow> m)
          in \<lparr>ar_result = \<lparr>rr_pre_run_steps = None,
                rr_tests = fold (\<lambda>(name, steps). obj_set name (average_entry mode steps)) perStep []\<rparr>,
              ar_variance = fold (\<lambda>(name, steps). obj_set name (variance_of (mgas_of name))) perStep []\<rparr>)"

section \<open>Lemmas on means\<close>

lemma foldl_add: "foldl (+) a xs = a + sum_list xs" for xs :: "real list"
  by (induction xs arbitrary: a) simp_all

lemma sample_mean_eq: "sample_mean xs = (\<Sum>x\<leftarrow>xs. x) / real (length xs)"
  by (simp add: sample_mean_def foldl_add)

lemma sum_list_between:
  fixes xs :: "real list"
  assumes "\<forall>x \<in> set xs. lo \<le> x \<and> x \<le> hi"
  shows "real (length xs) * lo \<le> sum_list xs \<and> sum_list xs \<le> real (length xs) * hi"
  using assms by (induction xs) (auto simp: algebra_simps)

lemma sample_mean_between:
  assumes "xs \<noteq> []" and "\<forall>x \<in> set xs. lo \<le> x \<and> x \<le> hi"
  shows "lo \<le> sample_mean xs \<and> sample_mean xs \<le> hi"
  using sum_list_between [OF assms(2)] assms(1) by (simp add: sample_mean_eq field_simps)

lemma median_between:
  assumes "xs \<noteq> []" and "\<forall>x \<in> set xs. lo \<le> x \<and> x \<le> hi"
  shows "lo \<le> median xs \<and> median xs \<le> hi"
proof -
  let ?s = "sort xs" and ?m = "length xs div 2"
  have in_range: "lo \<le> ?s ! i \<and> ?s ! i \<le> hi" if "i < length xs" for i
    using assms(2) nth_mem [of i ?s] that by simp
  have "?m < length xs" "?m - 1 < length xs" using assms(1) by (cases xs; simp)+
  then show ?thesis
    using in_range [of ?m] in_range [of "?m - 1"] assms(1)
    by (auto simp: median_def num_sort_eq Let_def)
qed

lemma aggregate_between:
  "xs \<noteq> [] \<Longrightarrow> \<forall>x \<in> set xs. lo \<le> x \<and> x \<le> hi \<Longrightarrow> lo \<le> aggregate mode xs \<and> aggregate mode xs \<le> hi"
  unfolding aggregate_def using sample_mean_between [of xs lo hi] median_between [of xs lo hi] by simp

lemma aggregate_mset:
  assumes "mset xs = mset ys"
  shows "aggregate mode xs = aggregate mode ys"
proof -
  have len: "length xs = length ys" using assms by (rule mset_eq_length)
  have sum: "sum_list xs = sum_list ys" using assms by (metis sum_mset_sum_list)
  have srt: "num_sort xs = num_sort ys"
    unfolding num_sort_eq using assms by (simp add: properties_for_sort)
  have ne: "xs = [] \<longleftrightarrow> ys = []" using len by (metis length_0_conv)
  show ?thesis
    unfolding aggregate_def median_def sample_mean_def by (simp add: len sum srt ne foldl_add)
qed

lemma math_round_between:
  "of_int lo \<le> x \<Longrightarrow> x \<le> of_int hi \<Longrightarrow> lo \<le> math_round x \<and> math_round x \<le> hi"
  using math_round_mono [of "of_int lo" x] math_round_mono [of x "of_int hi"] by simp


section \<open>What the loops collect\<close>

text \<open>The samples of one test, as the double loop over runs and tests updates them.\<close>

definition slot :: "string \<Rightarrow> sample_maps \<Rightarrow> StepSamples steps option \<times> mgas_samples option" where
  "slot name maps = (map_of (fst maps) name, map_of (snd maps) name)"

definition add_slot :: "step_type list \<Rightarrow> test_entry \<Rightarrow>
    StepSamples steps option \<times> mgas_samples option \<Rightarrow> StepSamples steps option \<times> mgas_samples option" where
  "add_slot fs entry sl =
     (case getAggregatedStats entry fs of
        None \<Rightarrow> sl
      | Some stats \<Rightarrow>
          let (gas, time) = (case snd sl of None \<Rightarrow> ([], []) | Some m \<Rightarrow> m);
              steps = (case fst sl of None \<Rightarrow> no_steps | Some s \<Rightarrow> s)
          in (Some (fold (push_step entry) ALL_STEP_TYPES steps),
              Some (gas @ [gas_used_total stats], time @ [gas_used_time_total stats])))"

lemma slot_add_entry:
  "slot name (add_entry fs (n, e) maps) =
     (if n = name then add_slot fs e (slot name maps) else slot name maps)"
  by (cases maps) (auto simp: slot_def add_entry_def add_slot_def Let_def jm.get_put
      split: option.splits prod.splits)

lemma slot_fold_entries:
  "distinct (map fst tests) \<Longrightarrow> slot name (fold (add_entry fs) tests maps) =
     (case map_of tests name of None \<Rightarrow> slot name maps | Some e \<Rightarrow> add_slot fs e (slot name maps))"
proof (induction tests arbitrary: maps)
  case (Cons p tests)
  obtain n e where p: "p = (n, e)" by (cases p)
  have "n = name \<Longrightarrow> map_of tests name = None"
    using Cons.prems p by (auto simp: map_of_eq_None_iff)
  then show ?case
    using Cons p slot_add_entry [of name fs n e maps] by (cases "n = name") (simp_all split: option.split)
qed simp

definition entries_of :: "run_result list \<Rightarrow> string \<Rightarrow> test_entry list" where
  "entries_of results name = List.map_filter (\<lambda>r. map_of (rr_tests r) name) results"

definition wf_results :: "run_result list \<Rightarrow> bool" where
  "wf_results results \<longleftrightarrow> list_all (\<lambda>r. distinct (map fst (rr_tests r))) results"

lemma slot_collect:
  assumes "wf_results results"
  shows "slot name (collect fs results) = fold (add_slot fs) (entries_of results name) (None, None)"
proof -
  have "slot name (fold (\<lambda>r. fold (add_entry fs) (rr_tests r)) results maps) =
      fold (add_slot fs) (entries_of results name) (slot name maps)" for maps
    using assms
  proof (induction results arbitrary: maps)
    case (Cons r results)
    then show ?case
      by (auto simp: wf_results_def entries_of_def map_filter_simps slot_fold_entries split: option.splits)
  qed (simp add: entries_of_def map_filter_simps)
  then show ?thesis by (simp add: collect_def slot_def)
qed

text \<open>The entries of a test that carry statistics for the filter, over the runs.\<close>

definition samples_of :: "step_type list \<Rightarrow> run_result list \<Rightarrow> string \<Rightarrow> test_entry list" where
  "samples_of fs results name =
     filter (\<lambda>e. getAggregatedStats e fs \<noteq> None) (entries_of results name)"

definition mgas_of :: "step_type list \<Rightarrow> test_entry list \<Rightarrow> mgas_samples" where
  "mgas_of fs es =
     (map (\<lambda>e. gas_used_total (the (getAggregatedStats e fs))) es,
      map (\<lambda>e. gas_used_time_total (the (getAggregatedStats e fs))) es)"

lemma fold_add_slot:
  "fold (add_slot fs) es (if acc = [] then (None, None)
     else (Some (fold (\<lambda>e. fold (push_step e) ALL_STEP_TYPES) acc no_steps), Some (mgas_of fs acc))) =
   (let rel = acc @ filter (\<lambda>e. getAggregatedStats e fs \<noteq> None) es
    in if rel = [] then (None, None)
       else (Some (fold (\<lambda>e. fold (push_step e) ALL_STEP_TYPES) rel no_steps), Some (mgas_of fs rel)))"
proof (induction es arbitrary: acc)
  case (Cons e es)
  show ?case
  proof (cases "getAggregatedStats e fs")
    case None
    then show ?thesis using Cons [of acc] by (simp add: add_slot_def)
  next
    case (Some stats)
    have "add_slot fs e (if acc = [] then (None, None)
        else (Some (fold (\<lambda>e. fold (push_step e) ALL_STEP_TYPES) acc no_steps), Some (mgas_of fs acc))) =
      (Some (fold (\<lambda>e. fold (push_step e) ALL_STEP_TYPES) (acc @ [e]) no_steps), Some (mgas_of fs (acc @ [e])))"
      using Some by (auto simp: add_slot_def mgas_of_def)
    then show ?thesis using Cons [of "acc @ [e]"] Some by (simp add: Let_def)
  qed
qed simp

lemma collect_test:
  assumes "wf_results results"
  shows "slot name (collect fs results) =
    (let rel = samples_of fs results name
     in if rel = [] then (None, None)
        else (Some (fold (\<lambda>e. fold (push_step e) ALL_STEP_TYPES) rel no_steps), Some (mgas_of fs rel)))"
  using fold_add_slot [of fs "entries_of results name" "[]"] slot_collect [OF assms, of name fs]
  by (simp add: samples_of_def)

lemma step_get_put [simp]: "step_get (step_put t x s) t' = (if t = t' then Some x else step_get s t')"
  by (cases t; cases t') (simp_all add: step_put_def)

lemma step_get_none [simp]: "step_get no_steps t = None"
  by (cases t) (simp_all add: no_steps_def)

lemma push_step_get:
  "step_get (push_step e t s) t' =
     (if t = t' then
        (case entry_step e t of
           None \<Rightarrow> step_get s t
         | Some a \<Rightarrow> Some (push_sample a (case step_get s t of None \<Rightarrow> emptyStepSamples | Some x \<Rightarrow> x)))
      else step_get s t')"
  by (cases "t = t'"; cases "entry_step e t") (auto simp: push_step_def)

lemma push_steps:
  "step_get (fold (push_step e) ALL_STEP_TYPES s) t =
     (case entry_step e t of
        None \<Rightarrow> step_get s t
      | Some a \<Rightarrow> Some (push_sample a (case step_get s t of None \<Rightarrow> emptyStepSamples | Some x \<Rightarrow> x)))"
  by (cases t; hypsubst; simp add: ALL_STEP_TYPES_def push_step_get del: step_get.simps split: option.split)

lemma fold_push_steps:
  "step_get (fold (\<lambda>e. fold (push_step e) ALL_STEP_TYPES) es s) t =
     (let as = List.map_filter (\<lambda>e. entry_step e t) es
      in if as = [] then step_get s t
         else Some (fold push_sample as (case step_get s t of None \<Rightarrow> emptyStepSamples | Some x \<Rightarrow> x)))"
proof (induction es arbitrary: s)
  case (Cons e es)
  then show ?case
    by (auto simp: push_steps map_filter_simps Let_def split: option.splits)
qed (simp add: map_filter_simps)

section \<open>The averaged result, declaratively\<close>

definition res_field :: "(resource_totals \<Rightarrow> real) \<Rightarrow> aggregated_stats list \<Rightarrow> real list" where
  "res_field f as = map f (List.map_filter ag_resource_totals as)"

text \<open>The averaged statistics of a step over the runs that report it.\<close>

definition average_of :: "AverageMode \<Rightarrow> aggregated_stats list \<Rightarrow> aggregated_stats" where
  "average_of mode as =
     (let agg = (\<lambda>f. aggregate mode (map f as));
          rounded = (\<lambda>f. real_of_int (math_round (agg f)));
          res = (\<lambda>f. aggregate mode (res_field f as))
      in \<lparr>time_total = agg time_total,
          gas_used_total = agg gas_used_total,
          gas_used_time_total = agg gas_used_time_total,
          ag_success = rounded ag_success,
          ag_fail = rounded ag_fail,
          msg_count = rounded msg_count,
          ag_resource_totals =
            (if List.map_filter ag_resource_totals as = [] then None else Some
               \<lparr>cpu_usec = res cpu_usec,
                memory_delta_bytes = res memory_delta_bytes,
                memory_bytes = Some (res (\<lambda>r. case memory_bytes r of None \<Rightarrow> 0 | Some m \<Rightarrow> m)),
                disk_read_bytes = res disk_read_bytes,
                disk_write_bytes = res disk_write_bytes,
                disk_read_iops = res disk_read_iops,
                disk_write_iops = res disk_write_iops\<rparr>),
          ag_times = [],
          ag_mgas_s = []\<rparr>)"

lemma fold_push_sample:
  defines "m \<equiv> List.map_filter ag_resource_totals"
  shows "ss_gasUsedTotal (fold push_sample as s) = ss_gasUsedTotal s @ map gas_used_total as"
    and "ss_gasUsedTimeTotal (fold push_sample as s) = ss_gasUsedTimeTotal s @ map gas_used_time_total as"
    and "ss_timeTotal (fold push_sample as s) = ss_timeTotal s @ map time_total as"
    and "ss_success (fold push_sample as s) = ss_success s @ map ag_success as"
    and "ss_fail (fold push_sample as s) = ss_fail s @ map ag_fail as"
    and "ss_msgCount (fold push_sample as s) = ss_msgCount s @ map msg_count as"
    and "ss_cpuUsec (fold push_sample as s) = ss_cpuUsec s @ map cpu_usec (m as)"
    and "ss_memoryDeltaBytes (fold push_sample as s) = ss_memoryDeltaBytes s @ map memory_delta_bytes (m as)"
    and "ss_memoryBytes (fold push_sample as s) =
      ss_memoryBytes s @ map (\<lambda>r. case memory_bytes r of None \<Rightarrow> 0 | Some x \<Rightarrow> x) (m as)"
    and "ss_diskReadBytes (fold push_sample as s) = ss_diskReadBytes s @ map disk_read_bytes (m as)"
    and "ss_diskWriteBytes (fold push_sample as s) = ss_diskWriteBytes s @ map disk_write_bytes (m as)"
    and "ss_diskReadIops (fold push_sample as s) = ss_diskReadIops s @ map disk_read_iops (m as)"
    and "ss_diskWriteIops (fold push_sample as s) = ss_diskWriteIops s @ map disk_write_iops (m as)"
  unfolding m_def
  by (induction as arbitrary: s)
    (simp_all add: push_sample_def push_resources_def Let_def map_filter_simps split: option.split)

lemma average_step_of:
  "average_step mode (fold push_sample as emptyStepSamples) = \<lparr>sr_aggregated = Some (average_of mode as)\<rparr>"
  unfolding average_step_def average_of_def res_field_def fold_push_sample
  by (simp add: emptyStepSamples_def Let_def)

lemma average_entry_step:
  "step_get (the (te_steps (average_entry mode steps))) t =
     map_option (average_step mode) (step_get steps t)"
  by (cases t; hypsubst; simp add: average_entry_def ALL_STEP_TYPES_def split: option.split
      del: step_get.simps)

lemma map_of_fold_obj:
  assumes "distinct (map fst kvs)"
  shows "map_of (fold (\<lambda>(k, v). obj_set k (f v)) kvs []) k = map_option f (map_of kvs k)"
proof -
  have "fold (\<lambda>(k, v). obj_set k (f v)) kvs [] = fold (\<lambda>(k, v). obj_set k v) (map (apsnd f) kvs) []"
    by (simp add: fold_map comp_def split_def)
  also have "map_of \<dots> = map_of (rev (map (apsnd f) kvs))" by (simp add: jo.get_puts)
  also have "\<dots> = map_of (map (apsnd f) kvs)" using assms by (intro map_of_rev_distinct) (simp add: comp_def)
  finally have "map_of (fold (\<lambda>(k, v). obj_set k (f v)) kvs []) k = map_of (map (apsnd f) kvs) k"
    by simp
  also have "\<dots> = map_option f (map_of kvs k)" by (induction kvs) auto
  finally show ?thesis .
qed

lemma distinct_collect:
  "distinct (map fst (fst (collect fs results)))"
proof -
  have entry: "distinct (map fst (fst m)) \<Longrightarrow> distinct (map fst (fst (add_entry fs ne m)))" for ne m
    by (cases ne; cases m) (auto simp: add_entry_def Let_def intro: distinct_map_set split: option.splits prod.splits)
  have "distinct (map fst (fst m)) \<Longrightarrow> distinct (map fst (fst (fold (add_entry fs) ts m)))" for ts m
    by (induction ts arbitrary: m) (simp_all add: entry)
  then have "distinct (map fst (fst m)) \<Longrightarrow>
      distinct (map fst (fst (fold (\<lambda>r. fold (add_entry fs) (rr_tests r)) results m)))" for m
    by (induction results arbitrary: m) simp_all
  then show ?thesis by (simp add: collect_def)
qed

lemma averageResults_many:
  assumes "length results \<ge> 2"
  shows "map_of (rr_tests (ar_result (averageResults results fs mode))) name =
      map_option (average_entry mode) (map_of (fst (collect fs results)) name)"
proof -
  obtain r r' rs where "results = r # r' # rs"
    using assms(1) by (cases results; cases "tl results") auto
  then have "rr_tests (ar_result (averageResults results fs mode)) =
      fold (\<lambda>(n, s). obj_set n (average_entry mode s)) (fst (collect fs results)) []"
    by (simp add: averageResults_def case_prod_beta Let_def)
  then show ?thesis using map_of_fold_obj [OF distinct_collect] by simp
qed

text \<open>The statistics of step \<open>t\<close> of test \<open>name\<close> over the runs where the test counts.\<close>

definition step_samples :: "step_type list \<Rightarrow> run_result list \<Rightarrow> string \<Rightarrow> step_type \<Rightarrow> aggregated_stats list" where
  "step_samples fs results name t = List.map_filter (\<lambda>e. entry_step e t) (samples_of fs results name)"

definition averaged_step :: "run_result list \<Rightarrow> step_type list \<Rightarrow> AverageMode \<Rightarrow> string \<Rightarrow> step_type \<Rightarrow>
    aggregated_stats option" where
  "averaged_step results fs mode name t =
     Option.bind (map_of (rr_tests (ar_result (averageResults results fs mode))) name)
       (\<lambda>e. entry_step e t)"

lemma averaged_step_eq:
  assumes "wf_results results" and "length results \<ge> 2"
  shows "averaged_step results fs mode name t =
    (if step_samples fs results name t = [] then None
     else Some (average_of mode (step_samples fs results name t)))"
proof -
  let ?rel = "samples_of fs results name"
  have per: "map_of (fst (collect fs results)) name =
      (if ?rel = [] then None else Some (fold (\<lambda>e. fold (push_step e) ALL_STEP_TYPES) ?rel no_steps))"
    using collect_test [OF assms(1), of name fs] by (simp add: slot_def Let_def split: if_splits)
  show ?thesis
  proof (cases "?rel = []")
    case True
    then show ?thesis
      using per averageResults_many [OF assms(2), of fs mode name]
      by (simp add: averaged_step_def step_samples_def map_filter_simps)
  next
    case False
    let ?steps = "fold (\<lambda>e. fold (push_step e) ALL_STEP_TYPES) ?rel no_steps"
    have "averaged_step results fs mode name t = entry_step (average_entry mode ?steps) t"
      using per False averageResults_many [OF assms(2), of fs mode name] by (simp add: averaged_step_def)
    also have "\<dots> = Option.bind (step_get (the (te_steps (average_entry mode ?steps))) t) sr_aggregated"
      by (simp add: entry_step_def average_entry_def step_stats_def)
    also have "\<dots> = Option.bind (map_option (average_step mode) (step_get ?steps t)) sr_aggregated"
      unfolding average_entry_step ..
    finally show ?thesis
      by (simp add: fold_push_steps step_samples_def average_step_of Let_def)
  qed
qed

lemma averaged_tests:
  assumes "wf_results results" and "length results \<ge> 2"
  shows "name \<in> fst ` set (rr_tests (ar_result (averageResults results fs mode))) \<longleftrightarrow>
    samples_of fs results name \<noteq> []"
proof -
  have "map_of (fst (collect fs results)) name = None \<longleftrightarrow> samples_of fs results name = []"
    using collect_test [OF assms(1), of name fs] by (simp add: slot_def Let_def split: if_splits)
  then have "map_of (rr_tests (ar_result (averageResults results fs mode))) name = None \<longleftrightarrow>
      samples_of fs results name = []"
    using averageResults_many [OF assms(2)] by simp
  then show ?thesis by (metis map_of_eq_None_iff)
qed

lemma map_of_map_key: "map_of (map (\<lambda>(n, s). (n, f n)) ps) k = map_option (\<lambda>s. f k) (map_of ps k)"
  by (induction ps) auto

lemma averaged_variance:
  assumes "wf_results results" and "length results \<ge> 2"
  shows "map_of (ar_variance (averageResults results fs mode)) name =
    (if samples_of fs results name = [] then None
     else Some (variance_of (mgas_of fs (samples_of fs results name))))"
proof -
  let ?per = "fst (collect fs results)" and ?mg = "snd (collect fs results)"
  let ?f = "\<lambda>n. variance_of (case map_of ?mg n of None \<Rightarrow> ([], []) | Some m \<Rightarrow> m)"
  obtain r r' rs where "results = r # r' # rs"
    using assms(2) by (cases results; cases "tl results") auto
  then have "ar_variance (averageResults results fs mode) = fold (\<lambda>(n, s). obj_set n (?f n)) ?per []"
    by (simp add: averageResults_def case_prod_beta Let_def)
  also have "\<dots> = fold (\<lambda>(n, v). obj_set n v) (map (\<lambda>(n, s). (n, ?f n)) ?per) []"
    by (simp add: fold_map comp_def split_def)
  finally have fold: "ar_variance (averageResults results fs mode) =
      fold (\<lambda>(n, v). obj_set n v) (map (\<lambda>(n, s). (n, ?f n)) ?per) []" .
  have dist: "distinct (map fst (map (\<lambda>(n, s). (n, ?f n)) ?per))"
    using distinct_collect [of fs results] by (simp add: comp_def split_def)
  have "map_of (ar_variance (averageResults results fs mode)) name =
      map_of (map (\<lambda>(n, s). (n, ?f n)) ?per) name"
    using jo.get_puts [of "map (\<lambda>(n, s). (n, ?f n)) ?per" "[]"] map_of_rev_distinct [OF dist]
    unfolding fold by simp
  also have "\<dots> = map_option (\<lambda>s. ?f name) (map_of ?per name)"
    by (rule map_of_map_key)
  finally show ?thesis
    using collect_test [OF assms(1), of name fs] by (simp add: slot_def Let_def split: if_splits)
qed

lemma samples_mset:
  assumes "mset results = mset results'"
  shows "mset (samples_of fs results name) = mset (samples_of fs results' name)"
  using assms by (simp add: samples_of_def entries_of_def map_filter_def mset_map mset_filter)

lemma map_filter_mset: "mset xs = mset ys \<Longrightarrow> mset (List.map_filter f xs) = mset (List.map_filter f ys)"
  by (simp add: map_filter_def)

lemma average_of_mset:
  assumes "mset as = mset bs"
  shows "average_of mode as = average_of mode bs"
proof -
  have "aggregate mode (map f as) = aggregate mode (map f bs)" for f
    using assms by (intro aggregate_mset) simp
  moreover have "aggregate mode (res_field f as) = aggregate mode (res_field f bs)" for f
    unfolding res_field_def
    using map_filter_mset [OF assms, of ag_resource_totals] by (intro aggregate_mset) simp
  moreover have "List.map_filter ag_resource_totals as = [] \<longleftrightarrow> List.map_filter ag_resource_totals bs = []"
    using map_filter_mset [OF assms, of ag_resource_totals] by (metis mset_zero_iff)
  ultimately show ?thesis unfolding average_of_def by (simp only: Let_def)
qed

lemma sum_sq_nonneg: "0 \<le> (\<Sum>v\<leftarrow>xs. (v - a) ^ 2)" for a :: real
  by (induction xs) auto

lemma foldl_sq: "foldl (\<lambda>s v. s + (v - avg) ^ 2) a xs = a + (\<Sum>v\<leftarrow>xs. (v - avg) ^ 2)" for avg :: real
  by (induction xs arbitrary: a) simp_all

lemma stddev_zero_iff:
  assumes "length xs \<ge> 2"
  shows "stddev xs avg = 0 \<longleftrightarrow> (\<forall>x \<in> set xs. x = avg)"
proof -
  have "(\<Sum>v\<leftarrow>ys. (v - avg) ^ 2) = 0 \<longleftrightarrow> (\<forall>x \<in> set ys. x = avg)" for ys
    using sum_sq_nonneg [of avg] by (induction ys) (auto simp: add_nonneg_eq_0_iff)
  then show ?thesis using assms by (simp add: stddev_def foldl_sq)
qed


section \<open>Properties\<close>

text \<open>C13: The averaged result lists a test exactly when some run has statistics for the active
  steps, and every step of it holds, field by field, the mean or median over the runs that report
  that step, with rounded counts: the accumulation in maps and records computes this reference.\<close>

theorem averages_match_reference:
  assumes "wf_results results" and "length results \<ge> 2"
  shows "(name \<in> fst ` set (rr_tests (ar_result (averageResults results fs mode))) \<longleftrightarrow>
      samples_of fs results name \<noteq> []) \<and>
    averaged_step results fs mode name t =
      (if step_samples fs results name t = [] then None
       else Some (average_of mode (step_samples fs results name t)))"
  using averaged_tests [OF assms] averaged_step_eq [OF assms] by blast

text \<open>An averaged value lies between the smallest and the largest sample, and identical runs
  average to themselves.\<close>

theorem averages_between_samples:
  assumes "wf_results results" and "length results \<ge> 2"
    and "averaged_step results fs mode name t = Some a"
    and "\<forall>s \<in> set (step_samples fs results name t). lo \<le> gas_used_time_total s \<and> gas_used_time_total s \<le> hi"
    and "\<forall>s \<in> set (step_samples fs results name t). of_int m \<le> ag_fail s \<and> ag_fail s \<le> of_int n"
  shows "lo \<le> gas_used_time_total a \<and> gas_used_time_total a \<le> hi \<and> of_int m \<le> ag_fail a \<and> ag_fail a \<le> of_int n"
proof -
  let ?s = "step_samples fs results name t"
  have a: "?s \<noteq> []" "a = average_of mode ?s"
    using assms(3) averaged_step_eq [OF assms(1,2)] by (auto split: if_splits)
  have "lo \<le> aggregate mode (map gas_used_time_total ?s) \<and> aggregate mode (map gas_used_time_total ?s) \<le> hi"
    by (rule aggregate_between) (use a(1) assms(4) in auto)
  moreover have "of_int m \<le> aggregate mode (map ag_fail ?s) \<and> aggregate mode (map ag_fail ?s) \<le> of_int n"
    by (rule aggregate_between) (use a(1) assms(5) in auto)
  ultimately show ?thesis
    using math_round_between [of m "aggregate mode (map ag_fail ?s)" n]
    by (simp add: a(2) average_of_def Let_def)
qed

text \<open>The order in which the runs are loaded does not matter.\<close>

theorem averages_ignore_run_order:
  assumes "wf_results results" and "length results \<ge> 2" and "mset results = mset results'"
  shows "averaged_step results fs mode name t = averaged_step results' fs mode name t"
proof -
  have "set results = set results'" using assms(3) by (metis set_mset_mset)
  then have wf: "wf_results results'" using assms(1) by (simp add: wf_results_def list_all_iff)
  have len: "length results' \<ge> 2" using assms(2,3) by (metis size_mset)
  have ms: "mset (step_samples fs results name t) = mset (step_samples fs results' name t)"
    unfolding step_samples_def by (intro map_filter_mset samples_mset assms(3))
  then have "step_samples fs results name t = [] \<longleftrightarrow> step_samples fs results' name t = []"
    by (metis mset_zero_iff)
  then show ?thesis
    using averaged_step_eq [OF assms(1,2)] averaged_step_eq [OF wf len] average_of_mset [OF ms] by simp
qed

text \<open>The error bars of a test are consistent: its mean throughput lies between the smallest
  and the largest one, the deviation is not negative, and with several runs it vanishes exactly
  when all of them agree.\<close>

theorem error_bars_sound:
  assumes "wf_results results" and "length results \<ge> 2"
    and "map_of (ar_variance (averageResults results fs mode)) name = Some v"
    and "vals = mgas_values (mgas_of fs (samples_of fs results name))"
  shows "mv_min v \<le> mv_mean v \<and> mv_mean v \<le> mv_max v \<and> 0 \<le> mv_stddev v \<and>
    set vals \<subseteq> {mv_min v..mv_max v} \<and>
    (length (samples_of fs results name) \<ge> 2 \<longrightarrow> (mv_stddev v = 0 \<longleftrightarrow> mv_min v = mv_max v))"
proof -
  let ?rel = "samples_of fs results name"
  have v: "?rel \<noteq> []" "v = variance_of (mgas_of fs ?rel)"
    using assms(3) averaged_variance [OF assms(1,2)] by (auto split: if_splits)
  have len: "length vals = length ?rel" using assms(4) by (simp add: mgas_values_def mgas_of_def)
  then have ne: "vals \<noteq> []" using v(1) by auto
  have fields: "mv_min v = Min (set vals)" "mv_max v = Max (set vals)" "mv_mean v = sample_mean vals"
    "mv_stddev v = stddev vals (sample_mean vals)"
    using ne by (simp_all add: v(2) variance_of_def Let_def assms(4))
  have range: "\<forall>x \<in> set vals. mv_min v \<le> x \<and> x \<le> mv_max v" by (simp add: fields)
  then have mean: "mv_min v \<le> mv_mean v \<and> mv_mean v \<le> mv_max v"
    unfolding fields(3) using ne by (intro sample_mean_between) simp_all
  have "0 \<le> stddev vals a" for a
    using sum_sq_nonneg [of a vals] ne by (cases vals) (auto simp: stddev_def foldl_sq)
  then have "0 \<le> mv_stddev v" by (simp add: fields(4))
  moreover have "mv_stddev v = 0 \<longleftrightarrow> mv_min v = mv_max v" if "length ?rel \<ge> 2"
  proof
    assume "mv_stddev v = 0"
    then have "\<forall>x \<in> set vals. x = mv_mean v"
      using stddev_zero_iff [of vals "sample_mean vals"] that len by (simp add: fields)
    moreover have "mv_min v \<in> set vals" "mv_max v \<in> set vals" using ne by (simp_all add: fields)
    ultimately show "mv_min v = mv_max v" by metis
  next
    assume "mv_min v = mv_max v"
    then have "\<forall>x \<in> set vals. x = mv_mean v" using range mean by fastforce
    then show "mv_stddev v = 0"
      using stddev_zero_iff [of vals "sample_mean vals"] that len by (simp add: fields)
  qed
  ultimately show ?thesis using mean range by auto
qed


definition sample_result :: "real \<Rightarrow> real \<Rightarrow> run_result" where
  "sample_result gas fails = \<lparr>rr_pre_run_steps = None,
     rr_tests = [(''t'', \<lparr>te_dir = [], te_filename_hash = None,
       te_steps = Some \<lparr>st_setup = None, st_test =
         Some \<lparr>sr_aggregated = Some (zero_stats\<lparr>gas_used_total := gas, gas_used_time_total := 10,
           ag_fail := fails\<rparr>)\<rparr>, st_cleanup = None\<rparr>\<rparr>)]\<rparr>"

lemma sample_wf: "wf_results [sample_result 4 0, sample_result 8 1]"
  by (simp add: wf_results_def sample_result_def)

lemma sample_tests:
  "samples_of [Test] [sample_result 4 0, sample_result 8 1] ''t'' =
    [snd (hd (rr_tests (sample_result 4 0))), snd (hd (rr_tests (sample_result 8 1)))]"
  by (simp add: samples_of_def entries_of_def map_filter_simps sample_result_def
      getAggregatedStats_def step_stats_def Let_def)

lemma sample_steps:
  "step_samples [Test] [sample_result 4 0, sample_result 8 1] ''t'' Test =
    map (\<lambda>(g, f). zero_stats\<lparr>gas_used_total := g, gas_used_time_total := 10, ag_fail := f\<rparr>) [(4, 0), (8, 1)]"
  unfolding step_samples_def sample_tests
  by (simp add: map_filter_simps sample_result_def step_stats_def entry_step_def)

theorem averages_match_reference_witness:
  "map_option gas_used_total (averaged_step [sample_result 4 0, sample_result 8 1] [Test] Avg ''t'' Test) = Some 6"
  using averages_match_reference [OF sample_wf, where fs = "[Test]" and name = "''t''" and mode = Avg and t = Test]
  by (simp add: sample_steps average_of_def aggregate_def sample_mean_def Let_def)

theorem averages_between_samples_witness:
  "\<exists>a. averaged_step [sample_result 4 0, sample_result 8 1] [Test] Median ''t'' Test = Some a \<and>
    gas_used_time_total a = 10 \<and> 0 \<le> ag_fail a \<and> ag_fail a \<le> 1"
proof -
  let ?rs = "[sample_result 4 0, sample_result 8 1]"
  obtain a where a: "averaged_step ?rs [Test] Median ''t'' Test = Some a"
    using averaged_step_eq [OF sample_wf, of "[Test]" Median "''t''" Test] by (simp add: sample_steps)
  have "2 \<le> length ?rs" by simp
  from averages_between_samples [OF sample_wf this a, of 10 10 0 1] a show ?thesis
    by (simp add: sample_steps)
qed

theorem averages_ignore_run_order_witness:
  "averaged_step [sample_result 4 0, sample_result 8 1] [Test] Avg ''t'' Test =
   averaged_step [sample_result 8 1, sample_result 4 0] [Test] Avg ''t'' Test"
  by (rule averages_ignore_run_order [OF sample_wf]) simp_all

theorem error_bars_sound_witness:
  "\<exists>v. map_of (ar_variance (averageResults [sample_result 4 0, sample_result 8 1] [Test] Avg)) ''t'' = Some v \<and>
    mv_min v \<le> mv_mean v \<and> mv_mean v \<le> mv_max v"
proof -
  let ?rs = "[sample_result 4 0, sample_result 8 1]"
  obtain v where v: "map_of (ar_variance (averageResults ?rs [Test] Avg)) ''t'' = Some v"
    using averaged_variance [OF sample_wf, of "[Test]" Avg "''t''"] by (simp add: sample_tests)
  have "2 \<le> length ?rs" by simp
  from error_bars_sound [OF sample_wf this v refl] v show ?thesis by blast
qed

end
