(* ===== verification/Opcodes.thy ===== *)
theory Opcodes
  imports Js_Text
begin

text \<open>
  Opcode categories and the column layout of the opcode heatmap,
  \<open>ui/src/utils/opcodeCategories.ts\<close>.
\<close>

section \<open>Categories\<close>

record OpcodeSubcategory =
  sc_name :: string
  sc_opcodes :: "string list"

text \<open>A category has a list of opcodes or a list of subcategories.\<close>

datatype OpcodeCategory =
    FlatCat (cat_name: string) (cat_opcodes: "string list")
  | SubCat (cat_name: string) (cat_subs: "OpcodeSubcategory list")

definition pushRange :: "string \<Rightarrow> nat \<Rightarrow> nat \<Rightarrow> string list" where
  "pushRange pre start stop = map (\<lambda>i. pre @ nat_str i) [start..<Suc stop]"

definition buildPushOpcodes :: "string list" where
  "buildPushOpcodes = ''PUSH0'' # pushRange ''PUSH'' 1 32"

definition buildRangeOpcodes :: "string \<Rightarrow> nat \<Rightarrow> nat \<Rightarrow> string list" where
  "buildRangeOpcodes pre start stop = pushRange pre start stop"

definition OPCODE_CATEGORIES :: "OpcodeCategory list" where
  "OPCODE_CATEGORIES =
    [FlatCat ''Arithmetic'' [''ADD'', ''MUL'', ''SUB'', ''DIV'', ''SDIV'', ''MOD'', ''SMOD'', ''ADDMOD'', ''MULMOD'', ''EXP'', ''SIGNEXTEND''],
     FlatCat ''Comparison'' [''LT'', ''GT'', ''SLT'', ''SGT'', ''EQ'', ''ISZERO''],
     FlatCat ''Bitwise'' [''AND'', ''OR'', ''XOR'', ''NOT'', ''BYTE'', ''SHL'', ''SHR'', ''SAR''],
     FlatCat ''Crypto'' [''KECCAK256'', ''SHA3''],
     FlatCat ''Environment'' [''ADDRESS'', ''BALANCE'', ''ORIGIN'', ''CALLER'', ''CALLVALUE'', ''CALLDATALOAD'', ''CALLDATASIZE'', ''CALLDATACOPY'', ''CODESIZE'', ''CODECOPY'', ''GASPRICE'', ''EXTCODESIZE'', ''EXTCODECOPY'', ''RETURNDATASIZE'', ''RETURNDATACOPY'', ''EXTCODEHASH''],
     FlatCat ''Block'' [''BLOCKHASH'', ''COINBASE'', ''TIMESTAMP'', ''NUMBER'', ''PREVRANDAO'', ''DIFFICULTY'', ''GASLIMIT'', ''CHAINID'', ''SELFBALANCE'', ''BASEFEE'', ''BLOBHASH'', ''BLOBBASEFEE''],
     SubCat ''Stack''
       [\<lparr>sc_name = ''Pop'', sc_opcodes = [''POP'']\<rparr>,
        \<lparr>sc_name = ''Push'', sc_opcodes = buildPushOpcodes\<rparr>,
        \<lparr>sc_name = ''Dup'', sc_opcodes = buildRangeOpcodes ''DUP'' 1 16\<rparr>,
        \<lparr>sc_name = ''Swap'', sc_opcodes = buildRangeOpcodes ''SWAP'' 1 16\<rparr>],
     FlatCat ''Memory'' [''MLOAD'', ''MSTORE'', ''MSTORE8'', ''MSIZE'', ''MCOPY''],
     FlatCat ''Storage'' [''SLOAD'', ''SSTORE''],
     FlatCat ''Transient'' [''TLOAD'', ''TSTORE''],
     FlatCat ''Control'' [''STOP'', ''JUMP'', ''JUMPI'', ''PC'', ''GAS'', ''JUMPDEST''],
     FlatCat ''Logging'' [''LOG0'', ''LOG1'', ''LOG2'', ''LOG3'', ''LOG4''],
     FlatCat ''System'' [''CREATE'', ''CALL'', ''CALLCODE'', ''RETURN'', ''DELEGATECALL'', ''CREATE2'', ''STATICCALL'', ''REVERT'', ''INVALID'', ''SELFDESTRUCT'']]"

fun getAllCategoryOpcodes :: "OpcodeCategory \<Rightarrow> string list" where
  "getAllCategoryOpcodes (FlatCat n ops) = ops"
| "getAllCategoryOpcodes (SubCat n subs) = concat (map sc_opcodes subs)"

text \<open>The map built at load time: a later category overrides an earlier one.\<close>

definition opcodeToCategoryMap :: "(string, string) js_map" where
  "opcodeToCategoryMap =
     fold (\<lambda>cat. fold (\<lambda>op. map_set op (cat_name cat)) (getAllCategoryOpcodes cat)) OPCODE_CATEGORIES []"

definition getOpcodeCategory :: "string \<Rightarrow> string" where
  "getOpcodeCategory opcode =
     (case map_of opcodeToCategoryMap opcode of None \<Rightarrow> ''Other'' | Some c \<Rightarrow> c)"

record cat_color =
  cl_light :: string
  cl_dark :: string

definition OPCODE_COLORS :: "(string \<times> cat_color) list" where
  "OPCODE_COLORS =
    [(''Arithmetic'', \<lparr>cl_light = ''#dc2626'', cl_dark = ''#f87171''\<rparr>),
     (''Comparison'', \<lparr>cl_light = ''#ea580c'', cl_dark = ''#fb923c''\<rparr>),
     (''Bitwise'', \<lparr>cl_light = ''#d97706'', cl_dark = ''#fbbf24''\<rparr>),
     (''Crypto'', \<lparr>cl_light = ''#65a30d'', cl_dark = ''#a3e635''\<rparr>),
     (''Environment'', \<lparr>cl_light = ''#059669'', cl_dark = ''#34d399''\<rparr>),
     (''Block'', \<lparr>cl_light = ''#0891b2'', cl_dark = ''#22d3ee''\<rparr>),
     (''Stack'', \<lparr>cl_light = ''#2563eb'', cl_dark = ''#60a5fa''\<rparr>),
     (''Memory'', \<lparr>cl_light = ''#7c3aed'', cl_dark = ''#a78bfa''\<rparr>),
     (''Storage'', \<lparr>cl_light = ''#9333ea'', cl_dark = ''#c084fc''\<rparr>),
     (''Transient'', \<lparr>cl_light = ''#c026d3'', cl_dark = ''#e879f9''\<rparr>),
     (''Control'', \<lparr>cl_light = ''#db2777'', cl_dark = ''#f472b6''\<rparr>),
     (''Logging'', \<lparr>cl_light = ''#e11d48'', cl_dark = ''#fb7185''\<rparr>),
     (''System'', \<lparr>cl_light = ''#4b5563'', cl_dark = ''#9ca3af''\<rparr>),
     (''Other'', \<lparr>cl_light = ''#6b7280'', cl_dark = ''#9ca3af''\<rparr>)]"

definition getCategoryColor :: "string \<Rightarrow> bool \<Rightarrow> string" where
  "getCategoryColor name isDark =
     (case map_of OPCODE_COLORS name of
        None \<Rightarrow> if isDark then ''#9ca3af'' else ''#6b7280''
      | Some e \<Rightarrow> if isDark then cl_dark e else cl_light e)"


section \<open>Grouping\<close>

record SubcategorySpan =
  ss_name :: string
  ss_opcodes :: "string list"
  ss_startCol :: nat
  ss_count :: nat

record CategorySpan =
  cs_name :: string
  cs_opcodes :: "string list"
  cs_startCol :: nat
  cs_count :: nat
  cs_subcategories :: "SubcategorySpan list option"

record GroupedResult =
  gr_columns :: "string list"
  gr_categorySpans :: "CategorySpan list"

text \<open>The loops thread the columns, the spans and the set of categorized opcodes.\<close>

definition add_sub :: "string set \<Rightarrow> OpcodeSubcategory \<Rightarrow>
    string list \<times> SubcategorySpan list \<times> string js_set \<Rightarrow> string list \<times> SubcategorySpan list \<times> string js_set" where
  "add_sub presentOpcodes sub acc =
     (let (columns, subSpans, categorized) = acc;
          present = filter (\<lambda>op. op \<in> presentOpcodes) (sc_opcodes sub)
      in if present \<noteq> [] then
           (columns @ present,
            subSpans @ [\<lparr>ss_name = sc_name sub, ss_opcodes = present, ss_startCol = length columns,
                         ss_count = length present\<rparr>],
            fold set_add present categorized)
         else acc)"

type_synonym group_state = "string list \<times> CategorySpan list \<times> string js_set"

fun add_category :: "string set \<Rightarrow> OpcodeCategory \<Rightarrow> group_state \<Rightarrow> group_state" where
  "add_category presentOpcodes (SubCat name subs) (columns, spans, categorized) =
     (let catStart = length columns;
          (columns', subSpans, categorized') = fold (add_sub presentOpcodes) subs (columns, [], categorized);
          allOps = concat (map ss_opcodes subSpans)
      in (columns',
          (if subSpans \<noteq> [] then
             spans @ [\<lparr>cs_name = name, cs_opcodes = allOps, cs_startCol = catStart,
                       cs_count = length allOps, cs_subcategories = Some subSpans\<rparr>]
           else spans),
          categorized'))"
| "add_category presentOpcodes (FlatCat name ops) (columns, spans, categorized) =
     (let present = filter (\<lambda>op. op \<in> presentOpcodes) ops
      in if present \<noteq> [] then
           (columns @ present,
            spans @ [\<lparr>cs_name = name, cs_opcodes = present, cs_startCol = length columns,
                      cs_count = length present, cs_subcategories = None\<rparr>],
            fold set_add present categorized)
         else (columns, spans, categorized))"

definition getGroupedOpcodes :: "string js_set \<Rightarrow> GroupedResult" where
  "getGroupedOpcodes presentOpcodes =
     (let (columns, spans, categorized) =
            fold (add_category (set presentOpcodes)) OPCODE_CATEGORIES ([], [], []);
          other = sort (filter (\<lambda>op. op \<notin> set categorized) presentOpcodes)
      in if other \<noteq> [] then
           \<lparr>gr_columns = columns @ other,
            gr_categorySpans = spans @ [\<lparr>cs_name = ''Other'', cs_opcodes = other,
              cs_startCol = length columns, cs_count = length other, cs_subcategories = None\<rparr>]\<rparr>
         else \<lparr>gr_columns = columns, gr_categorySpans = spans\<rparr>)"


section \<open>Lemmas\<close>

text \<open>Spans tile the columns: each starts where the one before ends and holds its opcodes.\<close>

definition tiles :: "string list \<Rightarrow> CategorySpan list \<Rightarrow> bool" where
  "tiles columns spans \<longleftrightarrow>
     concat (map cs_opcodes spans) = columns \<and>
     (\<forall>i < length spans. cs_opcodes (spans ! i) \<noteq> [] \<and>
        cs_count (spans ! i) = length (cs_opcodes (spans ! i)) \<and>
        cs_startCol (spans ! i) = length (concat (map cs_opcodes (take i spans))))"

lemma tiles_Nil [simp]: "tiles [] []"
  by (simp add: tiles_def)

lemma tiles_snoc:
  assumes "tiles columns spans" and "ops \<noteq> []" and "cs_opcodes s = ops"
    and "cs_count s = length ops" and "cs_startCol s = length columns"
  shows "tiles (columns @ ops) (spans @ [s])"
  using assms by (auto simp: tiles_def nth_append less_Suc_eq)

lemma fold_add_sub:
  "fold (add_sub P) subs (columns, spans, cat) = (columns', spans', cat') \<Longrightarrow>
   columns' = columns @ concat (map (\<lambda>s. filter (\<lambda>op. op \<in> P) (sc_opcodes s)) subs) \<and>
   concat (map ss_opcodes spans') =
     concat (map ss_opcodes spans) @ concat (map (\<lambda>s. filter (\<lambda>op. op \<in> P) (sc_opcodes s)) subs) \<and>
   (spans' = [] \<longrightarrow> spans = [] \<and> concat (map (\<lambda>s. filter (\<lambda>op. op \<in> P) (sc_opcodes s)) subs) = []) \<and>
   (list_all (\<lambda>s. ss_opcodes s \<noteq> []) spans \<longrightarrow> list_all (\<lambda>s. ss_opcodes s \<noteq> []) spans') \<and>
   set cat' = set cat \<union> set (concat (map (\<lambda>s. filter (\<lambda>op. op \<in> P) (sc_opcodes s)) subs))"
proof (induction subs arbitrary: columns spans cat)
  case (Cons s subs)
  show ?case
  proof (cases "filter (\<lambda>op. op \<in> P) (sc_opcodes s) = []")
    case True
    then have "add_sub P s (columns, spans, cat) = (columns, spans, cat)" by (simp add: add_sub_def)
    then show ?thesis using Cons.IH [of columns spans cat] Cons.prems True by simp
  next
    case False
    let ?p = "filter (\<lambda>op. op \<in> P) (sc_opcodes s)"
    have step: "add_sub P s (columns, spans, cat) =
        (columns @ ?p, spans @ [\<lparr>ss_name = sc_name s, ss_opcodes = ?p, ss_startCol = length columns,
           ss_count = length ?p\<rparr>], fold set_add ?p cat)"
      using False unfolding add_sub_def Let_def prod.case by (simp only: if_True not_False_eq_True)
    show ?thesis
      using Cons.IH [OF Cons.prems [unfolded fold_Cons comp_def step]] False
      by (auto simp: set_fold_add)
  qed
qed simp

lemma filter_concat_map: "filter P (concat (map f xs)) = concat (map (\<lambda>x. filter P (f x)) xs)"
  by (induction xs) auto

lemma add_category_spec:
  assumes "tiles columns spans" and "add_category P c (columns, spans, cat) = (columns', spans', cat')"
  defines "present \<equiv> filter (\<lambda>op. op \<in> P) (getAllCategoryOpcodes c)"
  shows "columns' = columns @ present" and "tiles columns' spans'"
    and "set cat' = set cat \<union> set present"
    and "map (\<lambda>s. (cs_name s, cs_opcodes s)) spans' =
      map (\<lambda>s. (cs_name s, cs_opcodes s)) spans @ (if present = [] then [] else [(cat_name c, present)])"
proof -
  have "columns' = columns @ present \<and> tiles columns' spans' \<and> set cat' = set cat \<union> set present \<and>
    map (\<lambda>s. (cs_name s, cs_opcodes s)) spans' =
      map (\<lambda>s. (cs_name s, cs_opcodes s)) spans @ (if present = [] then [] else [(cat_name c, present)])"
  proof (cases c)
    case (FlatCat n ops)
    show ?thesis
    proof (cases "present = []")
      case True
      then show ?thesis using assms FlatCat by (simp add: Let_def split: if_splits)
    next
      case False
      then have "columns' = columns @ present \<and> cat' = fold set_add present cat \<and>
          spans' = spans @ [\<lparr>cs_name = n, cs_opcodes = present, cs_startCol = length columns,
            cs_count = length present, cs_subcategories = None\<rparr>]"
        using assms(2) FlatCat unfolding present_def by (simp add: Let_def)
      then show ?thesis
        using False tiles_snoc [OF assms(1) False] FlatCat by (simp add: set_fold_add Un_commute)
    qed
  next
    case (SubCat n subs)
    obtain c1 s1 k1 where sub: "fold (add_sub P) subs (columns, [], cat) = (c1, s1, k1)"
      by (metis prod_cases3)
    have pres: "concat (map (\<lambda>s. filter (\<lambda>op. op \<in> P) (sc_opcodes s)) subs) = present"
      by (simp add: present_def SubCat filter_concat_map comp_def)
    note f = fold_add_sub [OF sub, unfolded pres]
    have out: "columns' = c1" "cat' = k1"
      "spans' = (if s1 \<noteq> [] then spans @ [\<lparr>cs_name = n, cs_opcodes = concat (map ss_opcodes s1),
          cs_startCol = length columns, cs_count = length (concat (map ss_opcodes s1)),
          cs_subcategories = Some s1\<rparr>] else spans)"
      using assms(2) SubCat sub by (auto simp: Let_def)
    show ?thesis
    proof (cases "s1 = []")
      case True
      then show ?thesis using f out assms(1) by simp
    next
      case False
      have "concat (map ss_opcodes s1) = present" using f by simp
      moreover have "present \<noteq> []"
        using calculation False f by (cases s1) auto
      ultimately show ?thesis
        using False f out tiles_snoc [OF assms(1) \<open>present \<noteq> []\<close>] SubCat by simp
    qed
  qed
  then show "columns' = columns @ present" "tiles columns' spans'" "set cat' = set cat \<union> set present"
    "map (\<lambda>s. (cs_name s, cs_opcodes s)) spans' =
      map (\<lambda>s. (cs_name s, cs_opcodes s)) spans @ (if present = [] then [] else [(cat_name c, present)])"
    by blast+
qed

definition all_opcodes :: "string list" where
  "all_opcodes = concat (map getAllCategoryOpcodes OPCODE_CATEGORIES)"

lemma distinct_opcodes: "distinct all_opcodes"
  by (simp add: all_opcodes_def OPCODE_CATEGORIES_def buildPushOpcodes_def buildRangeOpcodes_def
      pushRange_def upt_conv_Cons nat_str.simps char_eval del: upt_Suc)

lemma fold_categories:
  assumes "fold (add_category P) cats (columns, spans, cat) = (columns', spans', cat')"
    and "tiles columns spans"
  shows "columns' = columns @ filter (\<lambda>op. op \<in> P) (concat (map getAllCategoryOpcodes cats)) \<and>
    tiles columns' spans' \<and>
    set cat' = set cat \<union> set (filter (\<lambda>op. op \<in> P) (concat (map getAllCategoryOpcodes cats))) \<and>
    set (map (\<lambda>s. (cs_name s, cs_opcodes s)) spans') \<subseteq>
      set (map (\<lambda>s. (cs_name s, cs_opcodes s)) spans) \<union>
      set (map (\<lambda>c. (cat_name c, filter (\<lambda>op. op \<in> P) (getAllCategoryOpcodes c))) cats)"
  using assms
proof (induction cats arbitrary: columns spans cat)
  case (Cons c cats)
  obtain c1 s1 k1 where st: "add_category P c (columns, spans, cat) = (c1, s1, k1)"
    by (metis prod_cases3)
  note a = add_category_spec [OF Cons.prems(2) st]
  have rest: "fold (add_category P) cats (c1, s1, k1) = (columns', spans', cat')"
    using Cons.prems(1) st by simp
  from Cons.IH [OF rest a(2)] show ?case
    unfolding a(1,3,4) by (cases "filter (\<lambda>op. op \<in> P) (getAllCategoryOpcodes c) = []") auto
qed simp

lemma category_map:
  "map_of opcodeToCategoryMap =
     map_of (concat (map (\<lambda>c. map (\<lambda>op. (op, cat_name c)) (getAllCategoryOpcodes c)) OPCODE_CATEGORIES))"
proof -
  let ?kvs = "concat (map (\<lambda>c. map (\<lambda>op. (op, cat_name c)) (getAllCategoryOpcodes c)) OPCODE_CATEGORIES)"
  have flat: "fold (\<lambda>c. fold (\<lambda>op. map_set op (cat_name c)) (getAllCategoryOpcodes c)) cats m =
      fold (\<lambda>(k, v). map_set k v)
        (concat (map (\<lambda>c. map (\<lambda>op. (op, cat_name c)) (getAllCategoryOpcodes c)) cats)) m" for cats m
    by (induction cats arbitrary: m) (simp_all add: fold_map comp_def)
  have "map fst ?kvs = all_opcodes" by (simp add: all_opcodes_def map_concat comp_def)
  then have "distinct (map fst ?kvs)" using distinct_opcodes by simp
  then have "map_of (rev ?kvs) = map_of ?kvs"
    by (rule map_of_rev_distinct)
  then show ?thesis
    unfolding opcodeToCategoryMap_def flat using jm.get_puts [of ?kvs "[]"] by simp
qed

lemma getOpcodeCategory_in:
  assumes "c \<in> set OPCODE_CATEGORIES" and "op \<in> set (getAllCategoryOpcodes c)"
  shows "getOpcodeCategory op = cat_name c"
proof -
  let ?kvs = "concat (map (\<lambda>c. map (\<lambda>op. (op, cat_name c)) (getAllCategoryOpcodes c)) OPCODE_CATEGORIES)"
  have "map fst ?kvs = all_opcodes" by (simp add: all_opcodes_def map_concat comp_def)
  then have "distinct (map fst ?kvs)" using distinct_opcodes by simp
  moreover have "(op, cat_name c) \<in> set ?kvs" using assms by auto
  ultimately have "map_of ?kvs op = Some (cat_name c)" by simp
  then show ?thesis by (simp add: getOpcodeCategory_def category_map)
qed

lemma getOpcodeCategory_other:
  assumes "op \<notin> set all_opcodes"
  shows "getOpcodeCategory op = ''Other''"
proof -
  have "map_of (concat (map (\<lambda>c. map (\<lambda>op. (op, cat_name c)) (getAllCategoryOpcodes c)) OPCODE_CATEGORIES)) op = None"
    using assms by (auto simp: all_opcodes_def map_of_eq_None_iff)
  then show ?thesis by (simp add: getOpcodeCategory_def category_map)
qed


section \<open>Properties\<close>

text \<open>The heatmap shows every opcode that occurs exactly once: the columns are a permutation of
  the opcodes present, the category spans tile them without gap or overlap, and the span an opcode
  is shown under is the category \<open>getOpcodeCategory\<close> colours it by.\<close>

theorem grouped_opcodes_sound:
  assumes "distinct present" and "r = getGroupedOpcodes present"
  shows "mset (gr_columns r) = mset present \<and> tiles (gr_columns r) (gr_categorySpans r) \<and>
    (\<forall>s \<in> set (gr_categorySpans r). \<forall>op \<in> set (cs_opcodes s). getOpcodeCategory op = cs_name s)"
proof -
  obtain cols spans cat where st:
      "fold (add_category (set present)) OPCODE_CATEGORIES ([], [], []) = (cols, spans, cat)"
    by (metis prod_cases3)
  let ?other = "sort (filter (\<lambda>op. op \<notin> set cat) present)"
  have st_f: "cols = filter (\<lambda>op. op \<in> set present) all_opcodes" "tiles cols spans"
    "set cat = set (filter (\<lambda>op. op \<in> set present) all_opcodes)"
    "set (map (\<lambda>s. (cs_name s, cs_opcodes s)) spans) \<subseteq>
      set (map (\<lambda>c. (cat_name c, filter (\<lambda>op. op \<in> set present) (getAllCategoryOpcodes c))) OPCODE_CATEGORIES)"
    using fold_categories [OF st tiles_Nil]
    unfolding all_opcodes_def append_Nil list.set(1) list.map(1) Un_empty_left by blast+
  have dist: "distinct cols" using distinct_opcodes by (simp add: st_f(1))
  have "distinct (cols @ ?other)" using dist assms(1) st_f(1,3) by auto
  moreover have "set (cols @ ?other) = set present" using st_f(1,3) by auto
  ultimately have perm: "mset (cols @ ?other) = mset present"
    using assms(1) by (metis set_eq_iff_mset_eq_distinct)
  have cats: "getOpcodeCategory op = cs_name s" if "s \<in> set spans" "op \<in> set (cs_opcodes s)" for s op
  proof -
    have "(cs_name s, cs_opcodes s) \<in> set (map (\<lambda>s. (cs_name s, cs_opcodes s)) spans)"
      using that(1) by simp
    then obtain c where "c \<in> set OPCODE_CATEGORIES" "cs_name s = cat_name c"
        "cs_opcodes s = filter (\<lambda>op. op \<in> set present) (getAllCategoryOpcodes c)"
      using st_f(4) by auto
    then show ?thesis using that(2) getOpcodeCategory_in by simp
  qed
  have other: "getOpcodeCategory op = ''Other''" if "op \<in> set ?other" for op
    using that st_f(3) by (intro getOpcodeCategory_other) auto
  show ?thesis
  proof (cases "?other = []")
    case True
    then have "r = \<lparr>gr_columns = cols, gr_categorySpans = spans\<rparr>"
      unfolding assms(2) getGroupedOpcodes_def st Let_def prod.case by simp
    then show ?thesis using perm True st_f(2) cats by simp
  next
    case False
    let ?s = "\<lparr>cs_name = ''Other'', cs_opcodes = ?other, cs_startCol = length cols,
      cs_count = length ?other, cs_subcategories = None\<rparr>"
    have r: "r = \<lparr>gr_columns = cols @ ?other, gr_categorySpans = spans @ [?s]\<rparr>"
      using False unfolding assms(2) getGroupedOpcodes_def st Let_def prod.case by simp
    have "tiles (cols @ ?other) (spans @ [?s])" by (rule tiles_snoc [OF st_f(2) False]) simp_all
    then show ?thesis using perm cats other unfolding r by auto
  qed
qed

theorem grouped_opcodes_sound_witness:
  "mset (gr_columns (getGroupedOpcodes [''ZZZ'', ''PUSH1'', ''ADD''])) = mset [''ZZZ'', ''PUSH1'', ''ADD'']"
  by (rule grouped_opcodes_sound [THEN conjunct1, OF _ refl]) simp

end
