(* ===== verification/Ansi.thy ===== *)
theory Ansi
  imports Js_Text
begin

text \<open>
  ANSI escape codes in logs: \<open>ui/src/utils/ansi.ts\<close> and the rendering of a line in
  \<open>ui/src/components/shared/AnsiLine.tsx\<close> as the list of styled texts it produces. A global
  regular expression carries \<open>lastIndex\<close> from one call of \<open>test\<close> to the next, so
  \<open>hasAnsiCodes\<close> threads it.
\<close>

section \<open>The escape sequence\<close>

definition ESC :: char where "ESC = CHR 0x1B"

definition code_char :: "char \<Rightarrow> bool" where
  "code_char c \<longleftrightarrow> is_digit c \<or> c = CHR '';''"

text \<open>A match at the start of the text: the codes and what follows.\<close>

definition match_escape :: "string \<Rightarrow> (string \<times> string) option" where
  "match_escape s =
     (if prefix [ESC, CHR ''[''] s then
        let r = drop 2 s; cs = takeWhile code_char r; r' = dropWhile code_char r
        in if r' \<noteq> [] \<and> hd r' = CHR ''m'' then Some (cs, tl r') else None
      else None)"

text \<open>The leftmost match: the text before it, its codes, the text after it.\<close>

fun find_escape :: "string \<Rightarrow> (string \<times> string \<times> string) option" where
  "find_escape [] = None"
| "find_escape (c # cs) =
     (case match_escape (c # cs) of
        Some (codes, rest) \<Rightarrow> Some ([], codes, rest)
      | None \<Rightarrow> map_option (\<lambda>(pre, codes, rest). (c # pre, codes, rest)) (find_escape cs))"

text \<open>\<open>ANSI_REGEX.test(s)\<close>: the search starts at \<open>lastIndex\<close> and updates it.\<close>

definition regex_test :: "nat \<Rightarrow> string \<Rightarrow> bool \<times> nat" where
  "regex_test lastIndex s =
     (if lastIndex > length s then (False, 0)
      else case find_escape (drop lastIndex s) of
             None \<Rightarrow> (False, 0)
           | Some (pre, codes, rest) \<Rightarrow> (True, length s - length rest))"

definition first10Lines :: "string \<Rightarrow> string" where
  "first10Lines content = join [CHR 0x0A] (take 10 (split_on (CHR 0x0A) content))"

definition hasAnsiCodes :: "nat \<Rightarrow> string \<Rightarrow> bool \<times> nat" where
  "hasAnsiCodes lastIndex content = regex_test lastIndex (first10Lines content)"


section \<open>Styles\<close>

definition ANSI_COLORS :: "(nat \<times> string) list" where
  "ANSI_COLORS =
     [(30, ''#1e1e1e''), (31, ''#e06c75''), (32, ''#98c379''), (33, ''#e5c07b''),
      (34, ''#61afef''), (35, ''#c678dd''), (36, ''#56b6c2''), (37, ''#abb2bf''),
      (90, ''#5c6370''), (91, ''#e06c75''), (92, ''#98c379''), (93, ''#e5c07b''),
      (94, ''#61afef''), (95, ''#c678dd''), (96, ''#56b6c2''), (97, ''#ffffff'')]"

definition ANSI_BG_COLORS :: "(nat \<times> string) list" where
  "ANSI_BG_COLORS =
     [(40, ''#1e1e1e''), (41, ''#e06c75''), (42, ''#98c379''), (43, ''#e5c07b''),
      (44, ''#61afef''), (45, ''#c678dd''), (46, ''#56b6c2''), (47, ''#abb2bf''),
      (100, ''#5c6370''), (101, ''#e06c75''), (102, ''#98c379''), (103, ''#e5c07b''),
      (104, ''#61afef''), (105, ''#c678dd''), (106, ''#56b6c2''), (107, ''#ffffff'')]"

record AnsiStyle =
  as_color :: "string option"
  as_backgroundColor :: "string option"
  as_fontWeight :: "string option"
  as_fontStyle :: "string option"
  as_textDecoration :: "string option"

definition no_style :: AnsiStyle where
  "no_style = \<lparr>as_color = None, as_backgroundColor = None, as_fontWeight = None,
     as_fontStyle = None, as_textDecoration = None\<rparr>"

fun ansi_loop :: "nat list \<Rightarrow> AnsiStyle \<Rightarrow> AnsiStyle" where
  "ansi_loop [] style = style"
| "ansi_loop (c # cs) style =
     (if c = 0 then no_style
      else if c = 1 then ansi_loop cs (style\<lparr>as_fontWeight := Some ''bold''\<rparr>)
      else if c = 3 then ansi_loop cs (style\<lparr>as_fontStyle := Some ''italic''\<rparr>)
      else if c = 4 then ansi_loop cs (style\<lparr>as_textDecoration := Some ''underline''\<rparr>)
      else if c \<ge> 30 \<and> c \<le> 37 then ansi_loop cs (style\<lparr>as_color := map_of ANSI_COLORS c\<rparr>)
      else if c \<ge> 40 \<and> c \<le> 47 then ansi_loop cs (style\<lparr>as_backgroundColor := map_of ANSI_BG_COLORS c\<rparr>)
      else if c \<ge> 90 \<and> c \<le> 97 then ansi_loop cs (style\<lparr>as_color := map_of ANSI_COLORS c\<rparr>)
      else if c \<ge> 100 \<and> c \<le> 107 then ansi_loop cs (style\<lparr>as_backgroundColor := map_of ANSI_BG_COLORS c\<rparr>)
      else ansi_loop cs style)"

definition parseAnsiCodes :: "nat list \<Rightarrow> AnsiStyle" where
  "parseAnsiCodes codes = ansi_loop codes no_style"

definition over :: "'a option \<Rightarrow> 'a option \<Rightarrow> 'a option" where
  "over a b = (case b of None \<Rightarrow> a | Some x \<Rightarrow> Some x)"

text \<open>\<open>{ ...a, ...b }\<close>.\<close>

definition merge_style :: "AnsiStyle \<Rightarrow> AnsiStyle \<Rightarrow> AnsiStyle" where
  "merge_style a b = \<lparr>as_color = over (as_color a) (as_color b),
     as_backgroundColor = over (as_backgroundColor a) (as_backgroundColor b),
     as_fontWeight = over (as_fontWeight a) (as_fontWeight b),
     as_fontStyle = over (as_fontStyle a) (as_fontStyle b),
     as_textDecoration = over (as_textDecoration a) (as_textDecoration b)\<rparr>"

text \<open>The style after a sequence with the given code text. \<open>Number('')\<close> is 0.\<close>

definition next_style :: "string \<Rightarrow> AnsiStyle \<Rightarrow> AnsiStyle" where
  "next_style codesStr current =
     (if codesStr = [] \<or> codesStr = ''0'' then no_style
      else let codes = map digits_val (split_on CHR '';'' codesStr)
           in if 0 \<in> set codes then parseAnsiCodes (filter (\<lambda>c. c \<noteq> 0) codes)
              else merge_style current (parseAnsiCodes codes))"

lemma match_escape_length: "match_escape s = Some (codes, rest) \<Longrightarrow> length rest < length s"
proof -
  assume "match_escape s = Some (codes, rest)"
  then have pre: "prefix [ESC, CHR ''[''] s" and r: "rest = tl (dropWhile code_char (drop 2 s))"
    by (auto simp: match_escape_def Let_def split: if_splits)
  have "length (dropWhile code_char (drop 2 s)) \<le> length (drop 2 s)" by (rule length_dropWhile_le)
  moreover have "2 \<le> length s" using pre prefix_length_le by fastforce
  ultimately show ?thesis using r by simp
qed

lemma find_escape_length: "find_escape s = Some (pre, codes, rest) \<Longrightarrow> length rest < length s"
proof (induction s arbitrary: pre)
  case (Cons c cs)
  show ?case
  proof (cases "match_escape (c # cs)")
    case None
    then obtain p where "find_escape cs = Some (p, codes, rest)" using Cons.prems by auto
    then show ?thesis using Cons.IH by fastforce
  next
    case (Some m)
    then show ?thesis using Cons.prems match_escape_length [of "c # cs" codes rest] by (cases m) auto
  qed
qed simp

text \<open>The loop of the component: the styled parts of the text.\<close>

function ansi_parts :: "AnsiStyle \<Rightarrow> string \<Rightarrow> (AnsiStyle \<times> string) list" where
  "ansi_parts style s =
     (case find_escape s of
        None \<Rightarrow> if s \<noteq> [] then [(style, s)] else []
      | Some (pre, codes, rest) \<Rightarrow>
          (if pre \<noteq> [] then [(style, pre)] else []) @ ansi_parts (next_style codes style) rest)"
  by pat_completeness auto
termination
  by (relation "measure (\<lambda>(style, s). length s)") (auto dest: find_escape_length)

declare ansi_parts.simps [simp del]

text \<open>What the component shows: a placeholder, the parts, or the content itself.\<close>

datatype ansi_view = Blank | Parts "(AnsiStyle \<times> string) list" | Plain string

definition AnsiLine :: "string \<Rightarrow> ansi_view" where
  "AnsiLine content =
     (if content = [] then Blank
      else let parts = ansi_parts no_style content in if parts \<noteq> [] then Parts parts else Plain content)"


section \<open>Lemmas\<close>

text \<open>A line written by a program: styled texts, each preceded by a sequence.\<close>

definition esc :: "string \<Rightarrow> string" where
  "esc codes = ESC # CHR ''['' # codes @ ''m''"

fun render_ansi :: "string \<Rightarrow> (string \<times> string) list \<Rightarrow> string" where
  "render_ansi t [] = t"
| "render_ansi t ((codes, u) # segs) = t @ esc codes @ render_ansi u segs"

fun styled :: "AnsiStyle \<Rightarrow> string \<Rightarrow> (string \<times> string) list \<Rightarrow> (AnsiStyle \<times> string) list" where
  "styled style t [] = (if t \<noteq> [] then [(style, t)] else [])"
| "styled style t ((codes, u) # segs) =
     (if t \<noteq> [] then [(style, t)] else []) @ styled (next_style codes style) u segs"

lemma esc_not_code: "\<not> code_char ESC" "\<not> code_char CHR ''m''"
  by (simp_all add: code_char_def ESC_def is_digit_def)

lemma match_esc: "list_all code_char codes \<Longrightarrow> match_escape (esc codes @ r) = Some (codes, r)"
  using esc_not_code
  by (simp add: match_escape_def esc_def takeWhile_append dropWhile_append list_all_iff)

lemma match_escape_hd: "c \<noteq> ESC \<Longrightarrow> match_escape (c # cs) = None"
  by (simp add: match_escape_def)

lemma find_escape_text:
  "ESC \<notin> set t \<Longrightarrow> list_all code_char codes \<Longrightarrow> find_escape (t @ esc codes @ r) = Some (t, codes, r)"
proof (induction t)
  case Nil
  have "esc codes @ r = ESC # (CHR ''['' # codes @ ''m'') @ r" by (simp add: esc_def)
  then show ?case using match_esc [OF Nil(2), of r] by simp
next
  case (Cons c t)
  then show ?case using match_escape_hd [of c] by auto
qed

lemma find_escape_free: "ESC \<notin> set t \<Longrightarrow> find_escape t = None"
  by (induction t) (auto simp: match_escape_hd)

lemma ansi_parts_render:
  assumes "ESC \<notin> set t" and "list_all (\<lambda>(codes, u). list_all code_char codes \<and> ESC \<notin> set u) segs"
  shows "ansi_parts style (render_ansi t segs) = styled style t segs"
  using assms
proof (induction segs arbitrary: t style)
  case Nil
  then show ?case by (subst ansi_parts.simps) (simp add: find_escape_free)
next
  case (Cons seg segs)
  obtain codes u where seg: "seg = (codes, u)" by (cases seg)
  then show ?case
    using Cons find_escape_text [of t codes "render_ansi u segs"]
    by (subst ansi_parts.simps) simp
qed

lemma match_escape_sound:
  assumes "match_escape s = Some (codes, rest)"
  shows "s = esc codes @ rest \<and> list_all code_char codes"
proof -
  let ?r = "drop 2 s"
  have m: "prefix [ESC, CHR ''[''] s" "dropWhile code_char ?r \<noteq> []"
    "hd (dropWhile code_char ?r) = CHR ''m''" "codes = takeWhile code_char ?r"
    "rest = tl (dropWhile code_char ?r)"
    using assms by (auto simp: match_escape_def Let_def split: if_splits)
  have "?r = codes @ ''m'' @ rest"
    using m takeWhile_dropWhile_id [of code_char ?r] by (metis append_Cons append_Nil list.collapse)
  moreover have "s = [ESC, CHR ''[''] @ ?r" using m(1) by (auto simp: prefix_def)
  moreover have "list_all code_char codes" using m(4) by (auto simp: list_all_iff dest: set_takeWhileD)
  ultimately show ?thesis by (simp add: esc_def)
qed

lemma find_escape_sound:
  "find_escape s = Some (pre, codes, rest) \<Longrightarrow> s = pre @ esc codes @ rest \<and> list_all code_char codes"
proof (induction s arbitrary: pre)
  case (Cons c cs)
  show ?case
  proof (cases "match_escape (c # cs)")
    case None
    then obtain p where "find_escape cs = Some (p, codes, rest)" "pre = c # p" using Cons.prems by auto
    then show ?thesis using Cons.IH by fastforce
  next
    case (Some m)
    then show ?thesis using Cons.prems match_escape_sound [of "c # cs" codes rest] by (cases m) auto
  qed
qed simp

lemma find_escape_complete:
  "list_all code_char codes \<Longrightarrow> find_escape (pre @ esc codes @ rest) \<noteq> None"
proof (induction pre)
  case Nil
  have "esc codes @ rest = ESC # (CHR ''['' # codes @ ''m'') @ rest" by (simp add: esc_def)
  then show ?case using match_esc [OF Nil, of rest] by simp
next
  case (Cons c pre)
  then show ?case by (auto split: option.splits)
qed


section \<open>Properties\<close>

text \<open>Rendering a line shows every text it holds once, in order and without the escape
  sequences, each in the style that the sequences before it leave.\<close>

theorem ansi_line_roundtrip:
  assumes "ESC \<notin> set t" and "list_all (\<lambda>(codes, u). list_all code_char codes \<and> ESC \<notin> set u) segs"
    and "styled no_style t segs \<noteq> []"
  shows "AnsiLine (render_ansi t segs) = Parts (styled no_style t segs)"
proof -
  have "render_ansi t segs \<noteq> []" using assms(3) by (cases segs) (auto simp: esc_def)
  then show ?thesis using assms ansi_parts_render [OF assms(1,2), of no_style] by (simp add: AnsiLine_def)
qed

lemma next_style_0: "next_style ''0'' s = no_style"
  by (simp add: next_style_def parseAnsiCodes_def digits_val_def merge_style_def over_def no_style_def)

lemma next_style_31: "next_style ''31'' no_style = no_style\<lparr>as_color := Some ''#e06c75''\<rparr>"
  by (simp add: next_style_def parseAnsiCodes_def digits_val_def merge_style_def over_def no_style_def
      ANSI_COLORS_def)

theorem ansi_line_roundtrip_witness:
  "AnsiLine (render_ansi ''ok '' [(''31'', ''fail''), (''0'', '' end'')]) =
    Parts [(no_style, ''ok ''), (no_style\<lparr>as_color := Some ''#e06c75''\<rparr>, ''fail''), (no_style, '' end'')]"
proof -
  have *: "styled no_style ''ok '' [(''31'', ''fail''), (''0'', '' end'')] =
      [(no_style, ''ok ''), (no_style\<lparr>as_color := Some ''#e06c75''\<rparr>, ''fail''), (no_style, '' end'')]"
    by (simp add: next_style_0 next_style_31)
  show ?thesis
    unfolding * [symmetric] by (rule ansi_line_roundtrip) (simp_all add: ESC_def code_char_def is_digit_def)
qed

text \<open>A reset is applied before the codes of its sequence, also when it comes after them: the
  sequence \<open>31;0\<close> leaves red text.\<close>

lemma reset_last_ignored: "as_color (next_style ''31;0'' no_style) = Some ''#e06c75''"
  by (simp add: next_style_def parseAnsiCodes_def digits_val_def ANSI_COLORS_def no_style_def)

text \<open>With a fresh regular expression the check for escape codes is right: it holds exactly
  when the first ten lines contain a sequence.\<close>

theorem ansi_detection_fresh:
  "fst (hasAnsiCodes 0 content) \<longleftrightarrow> (\<exists>pre codes rest. first10Lines content = pre @ esc codes @ rest \<and>
     list_all code_char codes)"
proof -
  have "fst (hasAnsiCodes 0 content) \<longleftrightarrow> find_escape (first10Lines content) \<noteq> None"
    by (auto simp: hasAnsiCodes_def regex_test_def split: option.splits)
  moreover have "find_escape (first10Lines content) \<noteq> None \<longleftrightarrow>
      (\<exists>pre codes rest. first10Lines content = pre @ esc codes @ rest \<and> list_all code_char codes)"
    using find_escape_sound find_escape_complete by (metis not_Some_eq prod_cases3)
  ultimately show ?thesis by blast
qed

text \<open>A successful check leaves \<open>lastIndex\<close> behind: checking the same log again fails.\<close>

lemma ansi_detection_stateful:
  "hasAnsiCodes 0 (esc ''31'' @ ''x'') = (True, 5) \<and> hasAnsiCodes 5 (esc ''31'' @ ''x'') = (False, 0)"
  by code_simp

end
