(* ===== verification/Runtime_Config.thy ===== *)
theory Runtime_Config
  imports Js_Uri
begin

text \<open>
  Where the UI finds its data: the truncation of result paths
  (\<open>ui/src/config/resultPath.ts\<close>, with the Go function of \<open>pkg/executor/results.go\<close> it has to
  agree with), the run-time configuration, the registry of discovery paths and the URLs built
  from them (\<open>ui/src/config/runtime.ts\<close>).

  The hash and the hex encoder are library code: parameters, with the length of a SHA-256
  digest and the lower-case encoding as hypotheses where a proof needs them. So are the
  outcomes of \<open>fetch\<close>: \<open>None\<close> is a rejected request.
\<close>

section \<open>Result paths\<close>

text \<open>The library functions used: \<open>sha256\<close> and \<open>bytesToHex\<close>. \<open>hl_fffd\<close> stands for the
  replacement character U+FFFD, which a \<open>char\<close> cannot hold.\<close>

record hash_lib =
  hl_sha256 :: "nat list \<Rightarrow> nat list"
  hl_hex :: "nat list \<Rightarrow> string"
  hl_fffd :: char

definition MAX_RESULT_PATH_COMPONENT :: nat where
  "MAX_RESULT_PATH_COMPONENT = 200"

definition text_encode :: "string \<Rightarrow> nat list" where
  "text_encode s = concat (map utf8 s)"

text \<open>\<open>new TextDecoder().decode(bytes.slice(0, n))\<close> for the bytes of a string: a character cut in
  the middle decodes to the replacement character.\<close>

fun decode_cut :: "char \<Rightarrow> nat \<Rightarrow> string \<Rightarrow> string" where
  "decode_cut fffd n [] = []"
| "decode_cut fffd n (c # cs) =
     (if n = 0 then []
      else if length (utf8 c) \<le> n then c # decode_cut fffd (n - length (utf8 c)) cs
      else [fffd])"

definition sanitizeComponent :: "hash_lib \<Rightarrow> string \<Rightarrow> string" where
  "sanitizeComponent L component =
     (let bytes = text_encode component
      in if length bytes \<le> MAX_RESULT_PATH_COMPONENT then component
         else let hd_part = decode_cut (hl_fffd L) (MAX_RESULT_PATH_COMPONENT - 17) component;
                  digest = take 16 (hl_hex L (hl_sha256 L bytes))
              in hd_part @ ''-'' @ digest)"

definition sanitizeResultPath :: "hash_lib \<Rightarrow> string \<Rightarrow> string" where
  "sanitizeResultPath L path =
     (if index_of CHR ''/'' path = None then sanitizeComponent L path
      else join ''/'' (map (sanitizeComponent L) (split_on CHR ''/'' path)))"

text \<open>The Go side. A Go string is a list of bytes; \<open>hex.EncodeToString\<close> is lower case.\<close>

definition hex_lower :: "nat list \<Rightarrow> string" where
  "hex_lower bs = concat (map (\<lambda>b. map (lower_char \<circ> hex_digit) [b div 16, b mod 16]) bs)"

definition go_component :: "hash_lib \<Rightarrow> string \<Rightarrow> string" where
  "go_component L p =
     (if length p > 200
      then take (200 - 17) p @ ''-'' @ hex_lower (take 8 (hl_sha256 L (map code p)))
      else p)"

definition go_sanitizeResultPath :: "hash_lib \<Rightarrow> string \<Rightarrow> string" where
  "go_sanitizeResultPath L name =
     (let parts = split_on CHR ''/'' name; parts' = map (go_component L) parts
      in if \<exists>p \<in> set parts. length p > 200 then join ''/'' parts' else name)"


section \<open>Configuration\<close>

record storage_backend =
  sb_enabled :: bool
  sb_discovery_paths :: "string list"

record StorageConfig =
  sc_s3 :: "storage_backend option"
  sc_local :: "storage_backend option"

record IndexingConfig =
  ic_enabled :: bool

record RuntimeConfig =
  rc_dataSource :: string
  rc_title :: "string option"
  rc_refreshInterval :: "real option"
  rc_api :: "string option"
  rc_storage :: "StorageConfig option"
  rc_indexing :: "IndexingConfig option"

text \<open>\<open>config.api?.baseUrl\<close> when it is truthy.\<close>

definition api_base :: "RuntimeConfig \<Rightarrow> string option" where
  "api_base config =
     (case rc_api config of None \<Rightarrow> None | Some b \<Rightarrow> if b = [] then None else Some b)"

definition backend_enabled :: "storage_backend option \<Rightarrow> bool" where
  "backend_enabled b = (case b of None \<Rightarrow> False | Some sb \<Rightarrow> sb_enabled sb)"

definition isS3Mode :: "RuntimeConfig \<Rightarrow> bool" where
  "isS3Mode config =
     (case rc_storage config of None \<Rightarrow> False | Some st \<Rightarrow> backend_enabled (sc_s3 st))"

definition isLocalMode :: "RuntimeConfig \<Rightarrow> bool" where
  "isLocalMode config =
     (case rc_storage config of None \<Rightarrow> False | Some st \<Rightarrow> backend_enabled (sc_local st))"

definition isIndexingEnabled :: "RuntimeConfig \<Rightarrow> bool" where
  "isIndexingEnabled config =
     (case rc_indexing config of None \<Rightarrow> False | Some ix \<Rightarrow> ic_enabled ix)"

definition backend_paths :: "storage_backend option \<Rightarrow> string list" where
  "backend_paths b = (case b of None \<Rightarrow> [] | Some sb \<Rightarrow> sb_discovery_paths sb)"

definition s3_paths :: "RuntimeConfig \<Rightarrow> string list" where
  "s3_paths config = (case rc_storage config of None \<Rightarrow> [] | Some st \<Rightarrow> backend_paths (sc_s3 st))"

definition local_paths :: "RuntimeConfig \<Rightarrow> string list" where
  "local_paths config = (case rc_storage config of None \<Rightarrow> [] | Some st \<Rightarrow> backend_paths (sc_local st))"

text \<open>A response, as far as the UI reads it; \<open>rs_json\<close> is \<open>None\<close> when \<open>json()\<close> rejects. A body
  stream delivers its bytes in chunks and may break off.\<close>

record byte_stream =
  bs_chunks :: "nat list list"
  bs_fails :: bool

record 'a response =
  rs_status :: nat
  rs_content_type :: "string option"
  rs_content_length :: "string option"
  rs_json :: "'a option"
  rs_text :: string
  rs_body :: "byte_stream option"

definition rs_ok :: "'a response \<Rightarrow> bool" where
  "rs_ok r \<longleftrightarrow> 200 \<le> rs_status r \<and> rs_status r \<le> 299"

record api_config =
  ac_storage :: "StorageConfig option"
  ac_indexing :: "IndexingConfig option"

definition DEFAULT_CONFIG :: RuntimeConfig where
  "DEFAULT_CONFIG = \<lparr>rc_dataSource = ''/results'', rc_title = None, rc_refreshInterval = None,
     rc_api = None, rc_storage = None, rc_indexing = None\<rparr>"

text \<open>The inner request of the load: every failure leaves the configuration as it is.\<close>

definition apply_api_config :: "api_config response option \<Rightarrow> RuntimeConfig \<Rightarrow> RuntimeConfig" where
  "apply_api_config outcome config =
     (case outcome of
        None \<Rightarrow> config
      | Some r \<Rightarrow>
          if \<not> rs_ok r then config
          else case rs_json r of
                 None \<Rightarrow> config
               | Some a \<Rightarrow>
                   let c1 = (case ac_storage a of None \<Rightarrow> config | Some st \<Rightarrow> config\<lparr>rc_storage := Some st\<rparr>)
                   in (case ac_indexing a of None \<Rightarrow> c1 | Some ix \<Rightarrow> c1\<lparr>rc_indexing := Some ix\<rparr>))"

text \<open>The load returns the configuration and the new value of \<open>cachedConfig\<close>.\<close>

definition loadRuntimeConfig ::
  "RuntimeConfig response option \<Rightarrow> (string \<Rightarrow> api_config response option) \<Rightarrow>
   RuntimeConfig option \<Rightarrow> RuntimeConfig \<times> RuntimeConfig option" where
  "loadRuntimeConfig file_outcome fetch_api cachedConfig =
     (case cachedConfig of
        Some c \<Rightarrow> (c, cachedConfig)
      | None \<Rightarrow>
          (case file_outcome of
             None \<Rightarrow> (DEFAULT_CONFIG, None)
           | Some r \<Rightarrow>
               if \<not> rs_ok r then (DEFAULT_CONFIG, None)
               else case rs_json r of
                      None \<Rightarrow> (DEFAULT_CONFIG, None)
                    | Some config \<Rightarrow>
                        let c = (case api_base config of
                                   None \<Rightarrow> config
                                 | Some base \<Rightarrow> apply_api_config (fetch_api (base @ ''/api/v1/config'')) config)
                        in (c, Some c)))"


section \<open>Discovery paths and URLs\<close>

type_synonym discovery_map = "(string, string) js_map"

definition registerDiscoveryMapping :: "string \<Rightarrow> string \<Rightarrow> discovery_map \<Rightarrow> discovery_map" where
  "registerDiscoveryMapping key discoveryPath m = map_set key discoveryPath m"

fun first_of :: "'a list \<Rightarrow> 'a option" where
  "first_of [] = None"
| "first_of (x # xs) = Some x"

definition getDiscoveryPath :: "discovery_map \<Rightarrow> string \<Rightarrow> RuntimeConfig \<Rightarrow> string" where
  "getDiscoveryPath m key config =
     (case map_of m key of
        Some (c # cs) \<Rightarrow> c # cs
      | _ \<Rightarrow> (case first_of (s3_paths config) of
                Some p \<Rightarrow> p
              | None \<Rightarrow> (case first_of (local_paths config) of Some p \<Rightarrow> p | None \<Rightarrow> ''results'')))"

text \<open>\<open>path.match(/^runs\/([^/]+)/)?.[1]\<close>, with the prefix as an argument.\<close>

definition path_key :: "string \<Rightarrow> string \<Rightarrow> string option" where
  "path_key pre path =
     (if prefix pre path
      then let k = takeWhile (\<lambda>c. c \<noteq> CHR ''/'') (drop (length pre) path)
           in if k = [] then None else Some k
      else None)"

definition getDataUrl :: "hash_lib \<Rightarrow> discovery_map \<Rightarrow> string \<Rightarrow> RuntimeConfig \<Rightarrow> string" where
  "getDataUrl L m path0 config =
     (let path = sanitizeResultPath L path0;
          by_source =
            (let ds = rc_dataSource config;
                 base = (if ends_with ds ''/'' then butlast ds else ds)
             in base @ ''/'' @ path)
      in if isS3Mode config \<or> isLocalMode config
         then case api_base config of
                None \<Rightarrow> by_source
              | Some base \<Rightarrow>
                  let key = (case path_key ''runs/'' path of Some k \<Rightarrow> Some k | None \<Rightarrow> path_key ''suites/'' path);
                      dp = (case key of Some k \<Rightarrow> getDiscoveryPath m k config
                                      | None \<Rightarrow> getDiscoveryPath m [] config)
                  in base @ ''/api/v1/files/'' @ dp @ ''/'' @ path
         else by_source)"

definition with_param :: "string \<Rightarrow> string \<Rightarrow> string" where
  "with_param url p = url @ (if str_includes url ''?'' then ''&'' else ''?'') @ p"

definition getNavigableDataUrl :: "hash_lib \<Rightarrow> discovery_map \<Rightarrow> string \<Rightarrow> RuntimeConfig \<Rightarrow> string" where
  "getNavigableDataUrl L m path config =
     (let url = getDataUrl L m path config
      in if isS3Mode config \<and> api_base config \<noteq> None then with_param url ''redirect=true'' else url)"

definition toAbsoluteUrl :: "string \<Rightarrow> string \<Rightarrow> string" where
  "toAbsoluteUrl origin url =
     (if starts_with url ''http://'' \<or> starts_with url ''https://'' then url
      else origin @ (if starts_with url ''/'' then [] else ''/'') @ url)"

section \<open>Lemmas on result paths\<close>

definition ascii :: "string \<Rightarrow> bool" where
  "ascii s \<longleftrightarrow> (\<forall>c \<in> set s. code c < 128)"

text \<open>What the library documents: a digest has 32 bytes and is encoded in lower-case hex.\<close>

definition wf_hash :: "hash_lib \<Rightarrow> bool" where
  "wf_hash L \<longleftrightarrow> (\<forall>bs. length (hl_sha256 L bs) = 32 \<and> (\<forall>b \<in> set (hl_sha256 L bs). b < 256) \<and>
     hl_hex L bs = hex_lower bs)"

lemma ascii_append [simp]: "ascii (s @ t) \<longleftrightarrow> ascii s \<and> ascii t"
  by (auto simp: ascii_def)

lemma ascii_take: "ascii s \<Longrightarrow> ascii (take n s)"
  by (auto simp: ascii_def dest: in_set_takeD)

lemma text_encode_ascii: "ascii s \<Longrightarrow> text_encode s = map code s"
  by (induction s) (auto simp: text_encode_def ascii_def utf8_def)

lemma decode_cut_ascii: "ascii s \<Longrightarrow> decode_cut f n s = take n s"
  by (induction f n s rule: decode_cut.induct) (auto simp: ascii_def utf8_def take_Cons')

lemma length_hex_lower [simp]: "length (hex_lower bs) = 2 * length bs"
  by (induction bs) (auto simp: hex_lower_def)

lemma take_hex_lower: "take (2 * n) (hex_lower bs) = hex_lower (take n bs)"
proof (induction n arbitrary: bs)
  case (Suc n)
  then show ?case by (cases bs) (simp_all add: hex_lower_def)
qed (simp add: hex_lower_def)

lemma lower_hex_digit: "n < 16 \<Longrightarrow> code (lower_char (hex_digit n)) < 128 \<and> lower_char (hex_digit n) \<noteq> CHR ''/''"
proof -
  assume "n < 16"
  then have "code (lower_char (hex_digit n)) = (if n < 10 then 48 + n else 87 + n)"
    by (auto simp: lower_char_def hex_digit_def)
  then have "code (lower_char (hex_digit n)) < 128 \<and> code (lower_char (hex_digit n)) \<noteq> code CHR ''/''"
    using \<open>n < 16\<close> by auto
  then show ?thesis by metis
qed

lemma hex_lower_chars:
  assumes "c \<in> set (hex_lower bs)" and "\<forall>b \<in> set bs. b < 256"
  shows "code c < 128 \<and> c \<noteq> CHR ''/''"
proof -
  obtain b where "b \<in> set bs" and c: "c = lower_char (hex_digit (b div 16)) \<or> c = lower_char (hex_digit (b mod 16))"
    using assms(1) unfolding hex_lower_def by auto
  then have "b div 16 < 16" "b mod 16 < 16" using assms(2) by auto
  then show ?thesis using c lower_hex_digit by metis
qed

lemma sanitizeComponent_go:
  "wf_hash L \<Longrightarrow> ascii p \<Longrightarrow> sanitizeComponent L p = go_component L p"
  using take_hex_lower [of 8 "hl_sha256 L (map code p)"]
  by (simp add: sanitizeComponent_def go_component_def text_encode_ascii decode_cut_ascii Let_def
      MAX_RESULT_PATH_COMPONENT_def wf_hash_def)

lemma length_go_component: "wf_hash L \<Longrightarrow> length (go_component L p) \<le> 200"
  by (auto simp: go_component_def wf_hash_def)

lemma go_component_chars:
  assumes "wf_hash L" and "ascii p" and "CHR ''/'' \<notin> set p"
  shows "ascii (go_component L p) \<and> CHR ''/'' \<notin> set (go_component L p)"
proof -
  have hexc: "c \<in> set (hex_lower (take 8 (hl_sha256 L (map code p)))) \<Longrightarrow> code c < 128 \<and> c \<noteq> CHR ''/''" for c
    by (rule hex_lower_chars) (use assms(1) in \<open>auto simp: wf_hash_def dest: in_set_takeD\<close>)
  then show ?thesis
    using assms(2,3) ascii_take [OF assms(2)] by (auto simp: go_component_def ascii_def dest: in_set_takeD)
qed

lemma ascii_split: "ascii s \<Longrightarrow> p \<in> set (split_on c s) \<Longrightarrow> ascii p"
  using split_on_subset [of p c s] by (auto simp: ascii_def)

lemma sanitize_split:
  "sanitizeResultPath L path = join ''/'' (map (sanitizeComponent L) (split_on CHR ''/'' path))"
  by (auto simp: sanitizeResultPath_def split_on_free)

lemma go_split:
  "go_sanitizeResultPath L path = join ''/'' (map (go_component L) (split_on CHR ''/'' path))"
proof (cases "\<exists>p \<in> set (split_on CHR ''/'' path). length p > 200")
  case False
  then have "map (go_component L) (split_on CHR ''/'' path) = split_on CHR ''/'' path"
    by (intro map_idI) (simp add: go_component_def)
  with False show ?thesis by (simp add: go_sanitizeResultPath_def join_split_on)
qed (simp add: go_sanitizeResultPath_def)

lemma sanitize_go:
  assumes "wf_hash L" and "ascii path"
  shows "sanitizeResultPath L path = go_sanitizeResultPath L path"
  unfolding sanitize_split go_split
  by (rule arg_cong [where f = "join _"], rule map_cong)
    (simp_all add: sanitizeComponent_go assms ascii_split [OF assms(2)])

lemma go_parts:
  assumes "wf_hash L" and "ascii path" and "p \<in> set (split_on CHR ''/'' path)"
  shows "ascii (go_component L p) \<and> CHR ''/'' \<notin> set (go_component L p)"
  using go_component_chars [OF assms(1) ascii_split [OF assms(2,3)] split_on_parts [OF assms(3)]] .

lemma split_go:
  assumes "wf_hash L" and "ascii path"
  shows "split_on CHR ''/'' (go_sanitizeResultPath L path) = map (go_component L) (split_on CHR ''/'' path)"
  unfolding go_split by (rule split_on_join) (use go_parts [OF assms] in auto)

lemma go_component_id: "length p \<le> 200 \<Longrightarrow> go_component L p = p"
  by (simp add: go_component_def)

lemma go_idem:
  assumes "wf_hash L" and "ascii path"
  shows "go_sanitizeResultPath L (go_sanitizeResultPath L path) = go_sanitizeResultPath L path"
proof -
  have "map (go_component L) (split_on CHR ''/'' (go_sanitizeResultPath L path)) =
      split_on CHR ''/'' (go_sanitizeResultPath L path)"
    by (rule map_idI) (use length_go_component [OF assms(1)] in \<open>auto simp: split_go [OF assms] go_component_id\<close>)
  then show ?thesis unfolding go_split [of L "go_sanitizeResultPath L path"] by (simp add: join_split_on)
qed

lemma ascii_Nil [simp]: "ascii []"
  by (simp add: ascii_def)

lemma ascii_join: "list_all ascii ps \<Longrightarrow> ascii sep \<Longrightarrow> ascii (join sep ps)"
  by (induction sep ps rule: join.induct) auto

lemma ascii_go:
  assumes "wf_hash L" and "ascii path"
  shows "ascii (go_sanitizeResultPath L path)"
  unfolding go_split
  by (rule ascii_join) (use go_parts [OF assms] in \<open>auto simp: list_all_iff ascii_def [of "''/''"]\<close>)


section \<open>Properties of result paths\<close>

text \<open>C15: For names of ASCII characters, the UI asks for the keys the backend wrote: its truncation of
  result paths computes what the Go function computes, no component of the result is longer than 200
  bytes, short components are unchanged, and truncating again changes nothing. For a name with other
  characters nothing is claimed: when the cut falls inside a character the two sides part
  (\<open>cut_character\<close>), contrary to the comment in the source.\<close>

theorem sanitize_matches_backend:
  assumes "wf_hash L" and "ascii path"
  shows "sanitizeResultPath L path = go_sanitizeResultPath L path \<and>
    sanitizeResultPath L (sanitizeResultPath L path) = sanitizeResultPath L path \<and>
    list_all2 (\<lambda>p q. length q \<le> 200 \<and> (length p \<le> 200 \<longrightarrow> q = p))
      (split_on CHR ''/'' path) (split_on CHR ''/'' (sanitizeResultPath L path))"
proof (intro conjI)
  show eq: "sanitizeResultPath L path = go_sanitizeResultPath L path" using assms by (rule sanitize_go)
  show "sanitizeResultPath L (sanitizeResultPath L path) = sanitizeResultPath L path"
    using sanitize_go [OF assms(1) ascii_go [OF assms]] go_idem [OF assms] eq by simp
  show "list_all2 (\<lambda>p q. length q \<le> 200 \<and> (length p \<le> 200 \<longrightarrow> q = p))
      (split_on CHR ''/'' path) (split_on CHR ''/'' (sanitizeResultPath L path))"
    unfolding eq split_go [OF assms]
    by (simp add: list_all2_conv_all_nth length_go_component [OF assms(1)] go_component_id)
qed

definition example_hash :: hash_lib where
  "example_hash = \<lparr>hl_sha256 = (\<lambda>bs. replicate 32 (length bs mod 256)), hl_hex = hex_lower, hl_fffd = CHR ''?''\<rparr>"

lemma wf_example_hash: "wf_hash example_hash"
  by (simp add: wf_hash_def example_hash_def)

theorem sanitize_matches_backend_witness:
  "sanitizeResultPath example_hash (''runs/'' @ replicate 300 CHR ''a'') =
   go_sanitizeResultPath example_hash (''runs/'' @ replicate 300 CHR ''a'')"
  using sanitize_matches_backend [OF wf_example_hash, of "''runs/'' @ replicate 300 CHR ''a''"]
  by (simp add: ascii_def)

text \<open>On other names the two sides can part: a cut inside a two-byte character leaves the first
  byte on the Go side and the replacement character on the UI side.\<close>

lemma cut_character:
  "decode_cut f 183 (replicate 182 CHR ''a'' @ [CHR 0xE9] @ s) = replicate 182 CHR ''a'' @ [f]"
proof -
  have "decode_cut f (n + 1) (replicate n CHR ''a'' @ [CHR 0xE9] @ s) = replicate n CHR ''a'' @ [f]" for n
    by (induction n) (simp_all add: utf8_def)
  from this [of 182] show ?thesis by simp
qed

end
