(* ===== verification/Data_Client.thy ===== *)
theory Data_Client
  imports Runtime_Config
begin

text \<open>
  The requests of the UI (\<open>ui/src/api/client.ts\<close>): cache busting, JSON documents, text, partial
  text, existence checks, and the summaries of line-oriented files. The network is a record of
  parameters: the outcome of \<open>fetch\<close> per request (\<open>None\<close> when it rejects) and the clock. The
  state is the module state of \<open>config/runtime.ts\<close>: the cached configuration and the registry of
  discovery paths.
\<close>

section \<open>Requests\<close>

record request =
  rq_url :: string
  rq_credentials :: bool
  rq_head :: bool
  rq_range :: "string option"
  rq_no_cache :: bool

definition get_request :: "string \<Rightarrow> bool \<Rightarrow> request" where
  "get_request url cred =
     \<lparr>rq_url = url, rq_credentials = cred, rq_head = False, rq_range = None, rq_no_cache = False\<rparr>"

record 'a network =
  nw_now :: nat
  nw_config :: "RuntimeConfig response option"
  nw_api_config :: "string \<Rightarrow> api_config response option"
  nw_presign :: "request \<Rightarrow> string response option"
  nw_fetch :: "request \<Rightarrow> 'a response option"

record client_state =
  cl_config :: "RuntimeConfig option"
  cl_paths :: discovery_map

definition load_config :: "'a network \<Rightarrow> client_state \<Rightarrow> RuntimeConfig \<times> client_state" where
  "load_config net st =
     (let (c, cached) = loadRuntimeConfig (nw_config net) (nw_api_config net) (cl_config st)
      in (c, st\<lparr>cl_config := cached\<rparr>))"

definition cacheBustUrl :: "nat \<Rightarrow> string \<Rightarrow> nat option \<Rightarrow> string" where
  "cacheBustUrl now url intervalSec =
     (let i = (case intervalSec of None \<Rightarrow> 60 | Some i \<Rightarrow> i)
      in with_param url (''_t='' @ nat_str (now div (i * 1000))))"

definition isJsonContentType :: "'a response \<Rightarrow> bool" where
  "isJsonContentType r =
     (case rs_content_type r of None \<Rightarrow> False | Some ct \<Rightarrow> str_includes ct ''application/json'')"

text \<open>A failed presign request is returned as it is: only its status is read.\<close>

definition failed_response :: "string response \<Rightarrow> 'a response" where
  "failed_response r =
     \<lparr>rs_status = rs_status r, rs_content_type = rs_content_type r,
      rs_content_length = rs_content_length r, rs_json = None, rs_text = rs_text r, rs_body = None\<rparr>"

definition fetch_outcome :: "'a response option \<Rightarrow> js_error + 'a response" where
  "fetch_outcome oc = (case oc of None \<Rightarrow> Inl TypeError | Some r \<Rightarrow> Inr r)"

definition fetchViaS3 :: "'a network \<Rightarrow> string \<Rightarrow> nat option \<Rightarrow> js_error + 'a response" where
  "fetchViaS3 net url cacheBustInterval =
     (case nw_presign net (get_request (cacheBustUrl (nw_now net) url cacheBustInterval) True) of
        None \<Rightarrow> Inl TypeError
      | Some resp \<Rightarrow>
          if \<not> rs_ok resp then Inr (failed_response resp)
          else case rs_json resp of
                 None \<Rightarrow> Inl SyntaxError
               | Some presignedUrl \<Rightarrow>
                   fetch_outcome (nw_fetch net (get_request presignedUrl False\<lparr>rq_no_cache := True\<rparr>)))"

record 'a FetchResult =
  fr_data :: "'a option"
  fr_status :: nat

text \<open>The request for a document, and what the caller gets from its response.\<close>

definition data_response :: "'a network \<Rightarrow> RuntimeConfig \<Rightarrow> string \<Rightarrow> nat option \<Rightarrow> js_error + 'a response" where
  "data_response net config url interval =
     (if isS3Mode config then fetchViaS3 net url interval
      else if isLocalMode config
      then fetch_outcome (nw_fetch net (get_request (cacheBustUrl (nw_now net) url interval) True))
      else fetch_outcome (nw_fetch net (get_request (cacheBustUrl (nw_now net) url interval) False)))"

definition data_result :: "'a response \<Rightarrow> js_error + 'a FetchResult" where
  "data_result r =
     (if \<not> rs_ok r then Inr \<lparr>fr_data = None, fr_status = rs_status r\<rparr>
      else if \<not> isJsonContentType r then Inr \<lparr>fr_data = None, fr_status = 404\<rparr>
      else case rs_json r of
             None \<Rightarrow> Inl SyntaxError
           | Some d \<Rightarrow> Inr \<lparr>fr_data = Some d, fr_status = rs_status r\<rparr>)"

definition and_then :: "'e + 'a \<Rightarrow> ('a \<Rightarrow> 'e + 'b) \<Rightarrow> 'e + 'b" where
  "and_then x f = (case x of Inl e \<Rightarrow> Inl e | Inr a \<Rightarrow> f a)"

definition fetchData ::
  "hash_lib \<Rightarrow> 'a network \<Rightarrow> string \<Rightarrow> nat option \<Rightarrow> client_state \<Rightarrow>
   (js_error + 'a FetchResult) \<times> client_state" where
  "fetchData L net path interval st0 =
     (let (config, st) = load_config net st0;
          url = getDataUrl L (cl_paths st) path config
      in (and_then (data_response net config url interval) data_result, st))"

definition text_result :: "'a response \<Rightarrow> js_error + string FetchResult" where
  "text_result r =
     (if \<not> rs_ok r then Inr \<lparr>fr_data = None, fr_status = rs_status r\<rparr>
      else let data = rs_text r
           in if starts_with (trim_start data) ''<!DOCTYPE'' \<or> starts_with (trim_start data) ''<html''
              then Inr \<lparr>fr_data = None, fr_status = 404\<rparr>
              else Inr \<lparr>fr_data = Some data, fr_status = rs_status r\<rparr>)"

definition fetchText ::
  "hash_lib \<Rightarrow> 'a network \<Rightarrow> string \<Rightarrow> bool option \<Rightarrow> client_state \<Rightarrow>
   (js_error + string FetchResult) \<times> client_state" where
  "fetchText L net path cacheBust st0 =
     (let (config, st) = load_config net st0;
          url = getDataUrl L (cl_paths st) path config;
          bust = (cacheBust \<noteq> Some False);
          target = (if bust then cacheBustUrl (nw_now net) url None else url);
          response =
            (if isS3Mode config then fetchViaS3 net url None
             else if isLocalMode config then fetch_outcome (nw_fetch net (get_request target True))
             else fetch_outcome (nw_fetch net (get_request target False)))
      in (and_then response text_result, st))"

definition range_header :: "int \<Rightarrow> int \<Rightarrow> string" where
  "range_header offset bytes = ''bytes='' @ int_str offset @ ''-'' @ int_str (offset + bytes - 1)"

definition fetchPartialText ::
  "hash_lib \<Rightarrow> 'a network \<Rightarrow> string \<Rightarrow> nat \<Rightarrow> nat \<Rightarrow> client_state \<Rightarrow>
   (js_error + string FetchResult) \<times> client_state" where
  "fetchPartialText L net path bytes offset st0 =
     (let (config, st) = load_config net st0;
          url = getDataUrl L (cl_paths st) path config;
          range = Some (range_header (int offset) (int bytes));
          response =
            (if isS3Mode config then fetchViaS3 net url None
             else if isLocalMode config
             then fetch_outcome (nw_fetch net (get_request url True\<lparr>rq_range := range\<rparr>))
             else fetch_outcome (nw_fetch net (get_request url False\<lparr>rq_range := range\<rparr>)))
      in (and_then response (\<lambda>r.
            if \<not> rs_ok r \<and> rs_status r \<noteq> 206 then Inr \<lparr>fr_data = None, fr_status = rs_status r\<rparr>
            else Inr \<lparr>fr_data = Some (take bytes (rs_text r)), fr_status = rs_status r\<rparr>), st))"

text \<open>\<open>parseInt(s, 10)\<close>: leading white space, a sign, and the longest run of digits.\<close>

definition parseInt10 :: "string \<Rightarrow> jsnum" where
  "parseInt10 s =
     (let t = trim_start s;
          neg = (t \<noteq> [] \<and> hd t = CHR ''-'');
          u = (if t \<noteq> [] \<and> (hd t = CHR ''-'' \<or> hd t = CHR ''+'') then tl t else t);
          ds = takeWhile is_digit u
      in if ds = [] then NaN
         else Fin (if neg then - real (digits_val ds) else real (digits_val ds)))"

record HeadResult =
  hr_exists :: bool
  hr_size :: "jsnum option"
  hr_url :: string

definition head_size :: "'a response \<Rightarrow> jsnum option" where
  "head_size r =
     (case rs_content_length r of
        None \<Rightarrow> None
      | Some cl \<Rightarrow> if cl = [] then None else Some (parseInt10 cl))"

text \<open>The body of \<open>fetchHead\<close>, which runs under the concurrency limiter; every failure is a
  missing file.\<close>

definition fetchHead ::
  "hash_lib \<Rightarrow> 'a network \<Rightarrow> string \<Rightarrow> client_state \<Rightarrow> HeadResult \<times> client_state" where
  "fetchHead L net path st0 =
     (let (config, st) = load_config net st0;
          url = getDataUrl L (cl_paths st) path config;
          missing = \<lparr>hr_exists = False, hr_size = None, hr_url = url\<rparr>
      in (if isS3Mode config \<or> isLocalMode config
          then (case nw_fetch net (get_request url True\<lparr>rq_head := True\<rparr>) of
                  None \<Rightarrow> missing
                | Some r \<Rightarrow>
                    if \<not> rs_ok r then missing
                    else let downloadUrl = (if isS3Mode config then with_param url ''redirect=true'' else url)
                         in \<lparr>hr_exists = True, hr_size = head_size r, hr_url = downloadUrl\<rparr>)
          else (case nw_fetch net (get_request url False\<lparr>rq_head := True\<rparr>) of
                  None \<Rightarrow> missing
                | Some r \<Rightarrow>
                    if \<not> rs_ok r then missing
                    else \<lparr>hr_exists = True, hr_size = head_size r, hr_url = url\<rparr>), st))"

section \<open>Lemmas\<close>

lemma with_param_inj: "with_param url p = with_param url q \<longleftrightarrow> p = q"
  by (simp add: with_param_def)

lemma fetch_outcome_Inr: "fetch_outcome oc = Inr r \<longleftrightarrow> oc = Some r"
  by (cases oc) (simp_all add: fetch_outcome_def)

text \<open>What the servers say to a request for the document at \<open>target\<close>. In the presigned mode the API is
  asked first, with credentials, and the storage it names is then read without; otherwise the document
  is asked for at once, with credentials in the local mode only.\<close>

definition first_request :: "bool \<Rightarrow> string \<Rightarrow> request" where
  "first_request cred target =
     \<lparr>rq_url = target, rq_credentials = cred, rq_head = False, rq_range = None, rq_no_cache = False\<rparr>"

definition storage_request :: "string \<Rightarrow> request" where
  "storage_request signed =
     \<lparr>rq_url = signed, rq_credentials = False, rq_head = False, rq_range = None, rq_no_cache = True\<rparr>"

abbreviation success :: "nat \<Rightarrow> bool" where
  "success status \<equiv> 200 \<le> status \<and> status \<le> 299"

definition signed_as :: "'a network \<Rightarrow> string \<Rightarrow> string \<Rightarrow> bool" where
  "signed_as net target signed \<longleftrightarrow>
     (\<exists>p. nw_presign net (first_request True target) = Some p \<and> success (rs_status p) \<and> rs_json p = Some signed)"

definition served :: "'a network \<Rightarrow> RuntimeConfig \<Rightarrow> string \<Rightarrow> 'a response \<Rightarrow> bool" where
  "served net config target resp \<longleftrightarrow>
     (if isS3Mode config
      then \<exists>signed. signed_as net target signed \<and> nw_fetch net (storage_request signed) = Some resp
      else nw_fetch net (first_request (isLocalMode config) target) = Some resp)"

definition not_signed :: "'a network \<Rightarrow> RuntimeConfig \<Rightarrow> string \<Rightarrow> nat \<Rightarrow> bool" where
  "not_signed net config target status \<longleftrightarrow> isS3Mode config \<and>
     (\<exists>p. nw_presign net (first_request True target) = Some p \<and> \<not> success (rs_status p) \<and> rs_status p = status)"

definition unreachable :: "'a network \<Rightarrow> RuntimeConfig \<Rightarrow> string \<Rightarrow> bool" where
  "unreachable net config target \<longleftrightarrow>
     (if isS3Mode config
      then nw_presign net (first_request True target) = None \<or>
        (\<exists>signed. signed_as net target signed \<and> nw_fetch net (storage_request signed) = None)
      else nw_fetch net (first_request (isLocalMode config) target) = None)"

definition sign_unreadable :: "'a network \<Rightarrow> RuntimeConfig \<Rightarrow> string \<Rightarrow> bool" where
  "sign_unreadable net config target \<longleftrightarrow> isS3Mode config \<and>
     (\<exists>p. nw_presign net (first_request True target) = Some p \<and> success (rs_status p) \<and> rs_json p = None)"

lemma data_response_requests:
  assumes "target = cacheBustUrl (nw_now net) url iv"
  shows "data_response net config url iv =
    (if isS3Mode config
     then case nw_presign net (first_request True target) of
            None \<Rightarrow> Inl TypeError
          | Some p \<Rightarrow>
              if \<not> success (rs_status p) then Inr (failed_response p)
              else case rs_json p of
                     None \<Rightarrow> Inl SyntaxError
                   | Some signed \<Rightarrow> fetch_outcome (nw_fetch net (storage_request signed))
     else fetch_outcome (nw_fetch net (first_request (isLocalMode config) target)))"
  by (simp add: data_response_def fetchViaS3_def rs_ok_def first_request_def storage_request_def get_request_def assms
      split: option.split)

lemma failed_status [simp]: "rs_status (failed_response p) = rs_status p"
  by (simp add: failed_response_def)

text \<open>The ways a request for a document ends exclude each other.\<close>

lemma data_response_cases:
  fixes net :: "'a network" and config url iv
  defines "target \<equiv> cacheBustUrl (nw_now net) url iv" and "r \<equiv> data_response net config url iv"
  obtains (served) resp where "r = Inr resp" "served net config target = (\<lambda>x. x = resp)"
      "not_signed net config target = (\<lambda>_. False)" "\<not> unreachable net config target" "\<not> sign_unreadable net config target"
  | (not_signed) resp where "r = Inr resp" "\<not> success (rs_status resp)" "served net config target = (\<lambda>_. False)"
      "not_signed net config target = (\<lambda>s. s = rs_status resp)" "\<not> unreachable net config target"
      "\<not> sign_unreadable net config target"
  | (unreachable) "r = Inl TypeError" "served net config target = (\<lambda>_. False)"
      "not_signed net config target = (\<lambda>_. False)" "unreachable net config target" "\<not> sign_unreadable net config target"
  | (unreadable) "r = Inl SyntaxError" "served net config target = (\<lambda>_. False)"
      "not_signed net config target = (\<lambda>_. False)" "\<not> unreachable net config target" "sign_unreadable net config target"
proof -
  note defs = served_def not_signed_def unreachable_def sign_unreadable_def signed_as_def fun_eq_iff fetch_outcome_def
  have r: "r = data_response net config url iv" by (simp add: r_def)
  note r = r [unfolded data_response_requests [OF target_def [THEN meta_eq_to_obj_eq]]]
  show thesis
  proof (cases "isS3Mode config")
    case False
    then show thesis
      using r that(1,3) by (cases "nw_fetch net (first_request (isLocalMode config) target)") (auto simp: defs)
  next
    case s3: True
    show thesis
    proof (cases "nw_presign net (first_request True target)")
      case None
      show thesis by (rule that(3)) (use r s3 None in \<open>auto simp: defs\<close>)
    next
      case (Some p)
      show thesis
      proof (cases "success (rs_status p)")
        case False
        show thesis by (rule that(2) [of "failed_response p"]) (use r s3 Some False in \<open>auto simp: defs\<close>)
      next
        case ok: True
        show thesis
        proof (cases "rs_json p")
          case None
          show thesis by (rule that(4)) (use r s3 Some ok None in \<open>auto simp: defs\<close>)
        next
          case (Some signed)
          show thesis
            using r s3 \<open>nw_presign net _ = Some p\<close> ok Some that(1,3)
            by (cases "nw_fetch net (storage_request signed)") (auto simp: defs)
        qed
      qed
    qed
  qed
qed

text \<open>C18: What asking for a document returns, on every answer. The request is for the address of the
  path, with the number of the current interval of the clock (a minute unless told otherwise) appended, in
  the mode of the configuration. The document is returned exactly when it was served as JSON with a success
  status, together with that status. There is no document, but a status, when the server or, in the
  presigned mode, the API answered with a failure, and then it is that one; or when it answered with
  something else than JSON, as a single-page server does for a missing file, and then it is 404. The
  request throws exactly when a server could not be reached or said it sent JSON and did not.\<close>

theorem fetch_data_outcome:
  assumes "load_config net st = (config, st')" and "url = getDataUrl L (cl_paths st') path config"
    and "target = url @ (if CHR ''?'' \<in> set url then ''&_t='' else ''?_t='') @
           nat_str (nw_now net div (1000 * (case iv of None \<Rightarrow> 60 | Some sec \<Rightarrow> sec)))"
    and "result = fst (fetchData L net path iv st)"
  shows "(result = Inr \<lparr>fr_data = Some d, fr_status = status\<rparr> \<longleftrightarrow>
      (\<exists>resp. served net config target resp \<and> rs_status resp = status \<and> success status \<and>
        isJsonContentType resp \<and> rs_json resp = Some d)) \<and>
    (result = Inr \<lparr>fr_data = None, fr_status = status\<rparr> \<longleftrightarrow>
      not_signed net config target status \<or>
      (\<exists>resp. served net config target resp \<and>
        (\<not> success (rs_status resp) \<and> status = rs_status resp \<or>
         success (rs_status resp) \<and> \<not> isJsonContentType resp \<and> status = 404))) \<and>
    (result = Inl TypeError \<longleftrightarrow> unreachable net config target) \<and>
    (result = Inl SyntaxError \<longleftrightarrow> sign_unreadable net config target \<or>
      (\<exists>resp. served net config target resp \<and> success (rs_status resp) \<and> isJsonContentType resp \<and> rs_json resp = None)) \<and>
    result \<in> {Inl TypeError, Inl SyntaxError} \<union> range Inr"
proof -
  have "str_includes url ''?'' \<longleftrightarrow> CHR ''?'' \<in> set url" by (induction url) (auto simp: prefix_def)
  then have target: "target = cacheBustUrl (nw_now net) url iv"
    by (simp add: assms(3) cacheBustUrl_def with_param_def mult.commute split: option.split)
  have result: "result = and_then (data_response net config url iv) data_result"
    by (simp add: assms(1,2,4) fetchData_def Let_def)
  show ?thesis
    by (cases rule: data_response_cases [of net config url iv, folded target])
      (auto simp: result and_then_def data_result_def rs_ok_def split: option.splits if_splits)
qed

definition example_network :: "nat response \<Rightarrow> nat network" where
  "example_network r =
     \<lparr>nw_now = 120000,
      nw_config = Some \<lparr>rs_status = 200, rs_content_type = None, rs_content_length = None,
        rs_json = Some DEFAULT_CONFIG, rs_text = [], rs_body = None\<rparr>,
      nw_api_config = (\<lambda>_. None), nw_presign = (\<lambda>_. None), nw_fetch = (\<lambda>rq. Some r)\<rparr>"

definition html_response :: "nat response" where
  "html_response = \<lparr>rs_status = 200, rs_content_type = Some ''text/html'', rs_content_length = None,
     rs_json = None, rs_text = ''<html>0123456789'', rs_body = None\<rparr>"

definition empty_client :: client_state where
  "empty_client = \<lparr>cl_config = None, cl_paths = []\<rparr>"

lemma example_config:
  "load_config (example_network r) empty_client = (DEFAULT_CONFIG, \<lparr>cl_config = Some DEFAULT_CONFIG, cl_paths = []\<rparr>)"
  by (simp add: load_config_def loadRuntimeConfig_def example_network_def empty_client_def rs_ok_def
      api_base_def DEFAULT_CONFIG_def Let_def)

lemma example_fetch [simp]: "nw_fetch (example_network r) rq = Some r"
  by (simp add: example_network_def)

lemma default_direct [simp]: "\<not> isS3Mode DEFAULT_CONFIG" "\<not> isLocalMode DEFAULT_CONFIG"
  by (simp_all add: isS3Mode_def isLocalMode_def DEFAULT_CONFIG_def)

definition json_response :: "nat response" where
  "json_response = html_response\<lparr>rs_content_type := Some ''application/json; charset=utf-8'', rs_json := Some 7\<rparr>"

theorem fetch_data_outcome_witness:
  "fst (fetchData example_hash (example_network html_response) ''f'' None empty_client) = Inr \<lparr>fr_data = None, fr_status = 404\<rparr> \<and>
   fst (fetchData example_hash (example_network json_response) ''f'' None empty_client) = Inr \<lparr>fr_data = Some 7, fr_status = 200\<rparr>"
proof
  note outcome = fetch_data_outcome [OF example_config refl refl refl]
  show "fst (fetchData example_hash (example_network html_response) ''f'' None empty_client) =
      Inr \<lparr>fr_data = None, fr_status = 404\<rparr>"
    by (rule outcome [THEN conjunct2, THEN conjunct1, THEN iffD2], rule disjI2, rule exI [of _ html_response])
      (simp add: served_def, simp add: html_response_def isJsonContentType_def)
  show "fst (fetchData example_hash (example_network json_response) ''f'' None empty_client) =
      Inr \<lparr>fr_data = Some 7, fr_status = 200\<rparr>"
    by (rule outcome [THEN conjunct1, THEN iffD2], rule exI [of _ json_response])
      (simp add: served_def, simp add: json_response_def html_response_def isJsonContentType_def)
qed

text \<open>Two requests for a document share their cache key exactly when they fall into the same
  interval.\<close>

lemma cache_bust_window:
  "cacheBustUrl t url (Some i) = cacheBustUrl t' url (Some i) \<longleftrightarrow> t div (i * 1000) = t' div (i * 1000)"
  by (simp add: cacheBustUrl_def with_param_inj)

text \<open>Partial reads are right from the start of a file, whether or not the server honours
  \<open>Range\<close>. From another offset a server that ignores the header, and the S3 path that does not
  send it, give the first bytes of the file instead.\<close>

lemma partial_text_start:
  assumes "\<not> isS3Mode (fst (load_config net st))"
    and "\<And>rq. \<exists>r. nw_fetch net rq = Some r \<and> rs_ok r \<and> (rs_text r = t \<or> rs_text r = take bytes t)"
    and "fst (fetchPartialText L net path bytes 0 st) = Inr r"
  shows "fr_data r = Some (take bytes t)"
proof -
  define cs where "cs = load_config net st"
  define rq where "rq = get_request (getDataUrl L (cl_paths (snd cs)) path (fst cs)) (isLocalMode (fst cs))
    \<lparr>rq_range := Some (range_header 0 (int bytes))\<rparr>"
  obtain x where x: "nw_fetch net rq = Some x" "rs_ok x" "rs_text x = t \<or> rs_text x = take bytes t"
    using assms(2) by blast
  have "fst (fetchPartialText L net path bytes 0 st) = Inr \<lparr>fr_data = Some (take bytes (rs_text x)), fr_status = rs_status x\<rparr>"
    using assms(1) x(1,2) unfolding rq_def
    by (cases "isLocalMode (fst cs)")
      (simp_all add: fetchPartialText_def Let_def case_prod_beta cs_def fetch_outcome_def and_then_def)
  then show ?thesis using x(3) assms(3) by auto
qed

lemma partial_text_offset_ignored:
  "fst (fetchPartialText L (example_network html_response) path 6 6 empty_client) =
   Inr \<lparr>fr_data = Some ''<html>'', fr_status = 200\<rparr>"
  by (simp add: fetchPartialText_def example_config fetch_outcome_def and_then_def
      html_response_def Let_def rs_ok_def)

end
