(* ===== verification/Index_Sources.thy ===== *)
theory Index_Sources
  imports Data_Client Api_Types
begin

text \<open>
  The list of runs (\<open>ui/src/api/hooks/useIndex.ts\<close>): from the API's index, from the index files of
  the discovery paths in S3 or local mode, or from a static file. Loading an index also records
  under which discovery path the files of each run and suite lie; in the modes with several paths
  the responses arrive in any order, which is the parameter \<open>arrive\<close>.
\<close>

section \<open>Sources\<close>

definition RUNS_REFETCH_INTERVAL_MS :: nat where
  "RUNS_REFETCH_INTERVAL_MS = 30000"

definition PENDING_DELETION_REFETCH_INTERVAL_MS :: nat where
  "PENDING_DELETION_REFETCH_INTERVAL_MS = 5000"

definition emptyIndex :: index where
  "emptyIndex = \<lparr>ix_generated = 0, ix_entries = []\<rparr>"

record APIIndexEntry = index_entry +
  ae_discovery_path :: "string option"

record APIIndex =
  ai_generated :: real
  ai_entries :: "APIIndexEntry list"

text \<open>The registrations an entry makes under a discovery path.\<close>

definition truthy_string :: "string option \<Rightarrow> string option" where
  "truthy_string x = (case x of Some (c # cs) \<Rightarrow> Some (c # cs) | _ \<Rightarrow> None)"

definition register_entry :: "string \<Rightarrow> 'a index_entry_scheme \<Rightarrow> discovery_map \<Rightarrow> discovery_map" where
  "register_entry dp e m =
     (let m1 = registerDiscoveryMapping (ie_run_id e) dp m
      in case truthy_string (ie_suite_hash e) of
           None \<Rightarrow> m1
         | Some h \<Rightarrow> registerDiscoveryMapping h dp m1)"

definition register_api_entry :: "APIIndexEntry \<Rightarrow> discovery_map \<Rightarrow> discovery_map" where
  "register_api_entry e m =
     (case truthy_string (ae_discovery_path e) of None \<Rightarrow> m | Some dp \<Rightarrow> register_entry dp e m)"

definition fetchIndexFromAPI ::
  "'a network \<Rightarrow> (request \<Rightarrow> APIIndex response option) \<Rightarrow> client_state \<Rightarrow> (js_error + index) \<times> client_state" where
  "fetchIndexFromAPI net fetch_api st0 =
     (let (config, st) = load_config net st0
      in case api_base config of
           None \<Rightarrow> (Inr emptyIndex, st)
         | Some base \<Rightarrow>
             (case fetch_api (get_request (base @ ''/api/v1/index'') True) of
                None \<Rightarrow> (Inl TypeError, st)
              | Some r \<Rightarrow>
                  if \<not> rs_ok r
                  then (Inl (Thrown (''Failed to fetch index from API: '' @ nat_str (rs_status r))), st)
                  else (case rs_json r of
                          None \<Rightarrow> (Inl SyntaxError, st)
                        | Some ix \<Rightarrow>
                            (Inr \<lparr>ix_generated = ai_generated ix,
                                  ix_entries = map index_entry.truncate (ai_entries ix)\<rparr>,
                             st\<lparr>cl_paths := fold register_api_entry (ai_entries ix) (cl_paths st)\<rparr>))))"

definition mergeIndexResults :: "index option list \<Rightarrow> index" where
  "mergeIndexResults results =
     (let found = concat (map (\<lambda>r. case r of None \<Rightarrow> [] | Some ix \<Rightarrow> [ix]) results);
          allEntries = concat (map ix_entries found)
      in if allEntries = [] then emptyIndex
         else \<lparr>ix_generated = Max (set (map ix_generated found)), ix_entries = allEntries\<rparr>)"

text \<open>One discovery path: every failure is a missing index.\<close>

definition index_of_response :: "js_error + index response \<Rightarrow> index option" where
  "index_of_response resp =
     (case resp of
        Inl e \<Rightarrow> None
      | Inr r \<Rightarrow> if \<not> rs_ok r \<or> \<not> isJsonContentType r then None else rs_json r)"

definition s3_index :: "index network \<Rightarrow> RuntimeConfig \<Rightarrow> string \<Rightarrow> index option" where
  "s3_index net config dp =
     (case rc_api config of
        None \<Rightarrow> None
      | Some base \<Rightarrow> index_of_response (fetchViaS3 net (base @ ''/api/v1/files/'' @ dp @ ''/index.json'') None))"

definition local_index :: "index network \<Rightarrow> RuntimeConfig \<Rightarrow> string \<Rightarrow> index option" where
  "local_index net config dp =
     (case rc_api config of
        None \<Rightarrow> None
      | Some base \<Rightarrow>
          index_of_response (fetch_outcome
            (nw_fetch net (get_request (base @ ''/api/v1/files/'' @ dp @ ''/runs/index.json'') True))))"

definition register_index :: "(string \<Rightarrow> index option) \<Rightarrow> string \<Rightarrow> discovery_map \<Rightarrow> discovery_map" where
  "register_index source dp m =
     (case source dp of None \<Rightarrow> m | Some ix \<Rightarrow> fold (register_entry dp) (ix_entries ix) m)"

definition fetchS3Index ::
  "index network \<Rightarrow> (string list \<Rightarrow> string list) \<Rightarrow> client_state \<Rightarrow> (js_error + index) \<times> client_state" where
  "fetchS3Index net arrive st0 =
     (let (config, st) = load_config net st0; paths = s3_paths config
      in if paths = [] then (Inr emptyIndex, st)
         else (Inr (mergeIndexResults (map (s3_index net config) paths)),
               st\<lparr>cl_paths := fold (register_index (s3_index net config)) (arrive paths) (cl_paths st)\<rparr>))"

definition fetchLocalIndex ::
  "index network \<Rightarrow> (string list \<Rightarrow> string list) \<Rightarrow> client_state \<Rightarrow> (js_error + index) \<times> client_state" where
  "fetchLocalIndex net arrive st0 =
     (let (config, st) = load_config net st0; paths = local_paths config
      in if api_base config = None \<or> paths = [] then (Inr emptyIndex, st)
         else (Inr (mergeIndexResults (map (local_index net config) paths)),
               st\<lparr>cl_paths := fold (register_index (local_index net config)) (arrive paths) (cl_paths st)\<rparr>))"

text \<open>The query function of \<open>useIndex\<close>.\<close>

definition load_index ::
  "hash_lib \<Rightarrow> index network \<Rightarrow> (request \<Rightarrow> APIIndex response option) \<Rightarrow> (string list \<Rightarrow> string list) \<Rightarrow>
   client_state \<Rightarrow> (js_error + index) \<times> client_state" where
  "load_index L net fetch_api arrive st0 =
     (let (config, st) = load_config net st0
      in if isIndexingEnabled config then fetchIndexFromAPI net fetch_api st
         else if isS3Mode config then fetchS3Index net arrive st
         else if isLocalMode config then fetchLocalIndex net arrive st
         else (let (res, st') = fetchData L net ''runs/index.json'' None st
               in (and_then res (\<lambda>r.
                     if fr_status r = 404 then Inr emptyIndex
                     else case fr_data r of
                            None \<Rightarrow> Inl (Thrown (''Failed to fetch index: '' @ nat_str (fr_status r)))
                          | Some ix \<Rightarrow> Inr ix), st')))"

definition refetchInterval :: "index option \<Rightarrow> nat" where
  "refetchInterval data =
     (case data of
        None \<Rightarrow> RUNS_REFETCH_INTERVAL_MS
      | Some ix \<Rightarrow> if list_ex isPendingDeletion (ix_entries ix) then PENDING_DELETION_REFETCH_INTERVAL_MS
                  else RUNS_REFETCH_INTERVAL_MS)"

text \<open>The query function of \<open>useLiveRuns\<close>; the network delivers lists of live runs.\<close>

definition load_live_runs :: "'r list network \<Rightarrow> client_state \<Rightarrow> (js_error + 'r list) \<times> client_state" where
  "load_live_runs net st0 =
     (let (config, st) = load_config net st0
      in (case api_base config of
            None \<Rightarrow> Inr []
          | Some base \<Rightarrow>
              if \<not> isIndexingEnabled config then Inr []
              else and_then (fetch_outcome (nw_fetch net (get_request (base @ ''/api/v1/index/live_runs'') True)))
                (\<lambda>r. if rs_status r = 404 then Inr []
                     else if \<not> rs_ok r then Inl (Thrown (''Failed to fetch live runs: '' @ nat_str (rs_status r)))
                     else case rs_json r of None \<Rightarrow> Inl SyntaxError | Some runs \<Rightarrow> Inr runs), st))"


section \<open>Lemmas\<close>

lemma map_of_only:
  "(k, d) \<in> set kvs \<Longrightarrow> \<forall>v. (k, v) \<in> set kvs \<longrightarrow> v = d \<Longrightarrow> map_of kvs k = Some d"
  by (metis map_of_SomeD weak_map_of_SomeI)

text \<open>A registration loop is a loop of stores into the registry.\<close>

definition entry_regs :: "string \<Rightarrow> 'a index_entry_scheme \<Rightarrow> (string \<times> string) list" where
  "entry_regs dp e =
     (ie_run_id e, dp) # (case truthy_string (ie_suite_hash e) of None \<Rightarrow> [] | Some h \<Rightarrow> [(h, dp)])"

definition index_regs :: "(string \<Rightarrow> index option) \<Rightarrow> string \<Rightarrow> (string \<times> string) list" where
  "index_regs source dp =
     (case source dp of None \<Rightarrow> [] | Some ix \<Rightarrow> concat (map (entry_regs dp) (ix_entries ix)))"

lemma register_entry_regs: "register_entry dp e m = fold (\<lambda>(k, v). map_set k v) (entry_regs dp e) m"
  by (simp add: register_entry_def entry_regs_def registerDiscoveryMapping_def split: option.split)

lemma fold_concat_map: "fold (\<lambda>x. fold f (g x)) xs = fold f (concat (map g xs))"
  by (induction xs) (auto simp: fun_eq_iff)

lemma register_index_regs: "register_index source dp m = fold (\<lambda>(k, v). map_set k v) (index_regs source dp) m"
proof (cases "source dp")
  case (Some ix)
  have "register_entry dp = (\<lambda>e. fold (\<lambda>(k, v). map_set k v) (entry_regs dp e))"
    by (intro ext) (rule register_entry_regs)
  then have "fold (register_entry dp) (ix_entries ix) =
      fold (\<lambda>(k, v). map_set k v) (concat (map (entry_regs dp) (ix_entries ix)))"
    by (rule ssubst) (rule fold_concat_map)
  with Some show ?thesis by (simp add: register_index_def index_regs_def)
qed (simp add: register_index_def index_regs_def)

lemma registered:
  "map_of (fold (register_index source) dps m) =
     map_of m ++ map_of (rev (concat (map (index_regs source) dps)))"
proof -
  have "register_index source = (\<lambda>dp. fold (\<lambda>(k, v). map_set k v) (index_regs source dp))"
    by (intro ext) (rule register_index_regs)
  then show ?thesis by (simp only: fold_concat_map jm.get_puts)
qed

lemma truthy_string_Some: "truthy_string x = Some h \<longleftrightarrow> x = Some h \<and> h \<noteq> []"
  by (auto simp: truthy_string_def split: option.split list.split)

lemma entry_regs_value:
  "(k, v) \<in> set (entry_regs dp e) \<Longrightarrow> v = dp \<and> (ie_run_id e = k \<or> ie_suite_hash e = Some k)"
  by (cases "truthy_string (ie_suite_hash e)") (auto simp: entry_regs_def truthy_string_Some)

lemma index_regs_value:
  assumes "(k, v) \<in> set (index_regs source dp)"
  shows "v = dp \<and> (\<exists>ix e. source dp = Some ix \<and> e \<in> set (ix_entries ix) \<and>
    (ie_run_id e = k \<or> ie_suite_hash e = Some k))"
  using assms entry_regs_value [of k v dp]
  by (cases "source dp") (auto simp: index_regs_def)

text \<open>The run with id \<open>k\<close> is known under discovery path \<open>dp\<close> and under no other one.\<close>

definition only_under :: "(string \<Rightarrow> index option) \<Rightarrow> string list \<Rightarrow> string \<Rightarrow> string \<Rightarrow> bool" where
  "only_under source paths k dp \<longleftrightarrow>
     dp \<in> set paths \<and> (\<exists>ix. source dp = Some ix \<and> (\<exists>e \<in> set (ix_entries ix). ie_run_id e = k)) \<and>
     (\<forall>dp' \<in> set paths. dp' \<noteq> dp \<longrightarrow> (\<forall>ix. source dp' = Some ix \<longrightarrow>
       (\<forall>e \<in> set (ix_entries ix). ie_run_id e \<noteq> k \<and> ie_suite_hash e \<noteq> Some k)))"

lemma only_under_value:
  assumes "only_under source paths k dp" and "dp' \<in> set paths" and "(k, v) \<in> set (index_regs source dp')"
  shows "v = dp"
proof (rule ccontr)
  assume "v \<noteq> dp"
  with index_regs_value [OF assms(3)] obtain ix e where "dp' \<noteq> dp" "source dp' = Some ix"
    "e \<in> set (ix_entries ix)" "ie_run_id e = k \<or> ie_suite_hash e = Some k" by blast
  then show False using assms(1,2) unfolding only_under_def by blast
qed

lemma registered_only:
  assumes "only_under source paths k dp" and "set dps = set paths"
  shows "map_of (fold (register_index source) dps m) k = Some dp"
proof -
  let ?kvs = "rev (concat (map (index_regs source) dps))"
  from assms(1) obtain ix e where "source dp = Some ix" "e \<in> set (ix_entries ix)" "ie_run_id e = k" "dp \<in> set paths"
    by (auto simp: only_under_def)
  then have "(k, dp) \<in> set (index_regs source dp)" by (auto simp: index_regs_def entry_regs_def)
  then have "(k, dp) \<in> set ?kvs" using \<open>dp \<in> set paths\<close> assms(2) by auto
  moreover have "v = dp" if "(k, v) \<in> set ?kvs" for v
  proof -
    have "\<exists>dp' \<in> set paths. (k, v) \<in> set (index_regs source dp')" using that unfolding assms(2) [symmetric] by simp
    then obtain dp' where "dp' \<in> set paths" "(k, v) \<in> set (index_regs source dp')" by blast
    then show ?thesis using only_under_value [OF assms(1)] by blast
  qed
  ultimately have "map_of ?kvs k = Some dp" by (intro map_of_only) blast+
  then show ?thesis by (simp add: registered)
qed

lemma loadRuntimeConfig_cases:
  "loadRuntimeConfig f a None = (DEFAULT_CONFIG, None) \<or> (\<exists>x. loadRuntimeConfig f a None = (x, Some x))"
proof (cases f)
  case (Some r)
  then show ?thesis
    by (cases "rs_ok r"; cases "rs_json r") (simp_all add: loadRuntimeConfig_def Let_def)
qed (simp add: loadRuntimeConfig_def)

lemma loadRuntimeConfig_cached:
  assumes "loadRuntimeConfig f a cached = (c, cached')"
  shows "cached' = Some c \<or> cached' = cached"
proof (cases cached)
  case None
  then show ?thesis using assms loadRuntimeConfig_cases [of f a] by auto
qed (use assms in \<open>simp add: loadRuntimeConfig_def\<close>)

lemma load_config_again:
  assumes "load_config net st0 = (config, st)"
  shows "load_config net st = (config, st)"
proof -
  obtain c' where c': "loadRuntimeConfig (nw_config net) (nw_api_config net) (cl_config st0) = (config, c')"
      and st: "st = st0\<lparr>cl_config := c'\<rparr>"
    using assms by (auto simp: load_config_def split: prod.splits)
  from loadRuntimeConfig_cached [OF c'] show ?thesis
  proof
    assume "c' = Some config"
    then show ?thesis by (simp add: load_config_def st loadRuntimeConfig_def)
  next
    assume "c' = cl_config st0"
    then show ?thesis using assms st by simp
  qed
qed

lemma load_config_paths: "load_config net st0 = (config, st) \<Longrightarrow> cl_paths st = cl_paths st0"
  by (auto simp: load_config_def split: prod.splits)

text \<open>The source of the modes with discovery paths.\<close>

definition index_source :: "index network \<Rightarrow> RuntimeConfig \<Rightarrow> string \<Rightarrow> index option" where
  "index_source net config = (if isS3Mode config then s3_index net config else local_index net config)"

definition source_paths :: "RuntimeConfig \<Rightarrow> string list" where
  "source_paths config = (if isS3Mode config then s3_paths config else local_paths config)"

lemma load_index_paths:
  assumes "load_config net st0 = (config, st)" and "\<not> isIndexingEnabled config"
    and "isS3Mode config \<or> isLocalMode config" and "api_base config = Some base" and "source_paths config \<noteq> []"
  shows "load_index L net fetch_api arrive st0 =
    (Inr (mergeIndexResults (map (index_source net config) (source_paths config))),
     st\<lparr>cl_paths := fold (register_index (index_source net config)) (arrive (source_paths config)) (cl_paths st)\<rparr>)"
  using assms load_config_again [OF assms(1)]
  by (cases "isS3Mode config")
    (simp_all add: load_index_def fetchS3Index_def fetchLocalIndex_def index_source_def source_paths_def
      Let_def)


section \<open>Properties\<close>

lemma split_two: "CHR ''/'' \<notin> set k \<Longrightarrow> split_on CHR ''/'' (''runs/'' @ k @ ''/'' @ rest) = ''runs'' # k # split_on CHR ''/'' rest"
  using split_on_append [of "CHR ''/''" "''runs''" "k @ ''/'' @ rest"] split_on_append [of "CHR ''/''" k rest]
  by simp

lemma join_Cons2: "ps \<noteq> [] \<Longrightarrow> join sep (p # ps) = p @ sep @ join sep ps"
  by (cases ps) simp_all

lemma sanitize_run_path:
  assumes "CHR ''/'' \<notin> set k" and "length (text_encode k) \<le> 200"
  shows "sanitizeResultPath L (''runs/'' @ k @ ''/'' @ rest) = ''runs/'' @ k @ ''/'' @ sanitizeResultPath L rest"
proof -
  have "sanitizeComponent L ''runs'' = ''runs''"
    by (simp add: sanitizeComponent_def text_encode_def utf8_def MAX_RESULT_PATH_COMPONENT_def)
  moreover have "sanitizeComponent L k = k"
    using assms(2) by (simp add: sanitizeComponent_def MAX_RESULT_PATH_COMPONENT_def)
  ultimately show ?thesis
    unfolding sanitize_split split_two [OF assms(1)] by (simp add: join_Cons2)
qed

lemma run_path_key:
  "CHR ''/'' \<notin> set k \<Longrightarrow> k \<noteq> [] \<Longrightarrow> path_key ''runs/'' (''runs/'' @ k @ ''/'' @ rest) = Some k"
proof -
  assume "CHR ''/'' \<notin> set k" "k \<noteq> []"
  then have "takeWhile (\<lambda>c. c \<noteq> CHR ''/'') (k @ CHR ''/'' # rest) = k"
    by (subst takeWhile_append2) auto
  then show ?thesis using \<open>k \<noteq> []\<close> by (simp add: path_key_def)
qed

lemma data_url_keyed:
  "sanitizeResultPath L p = q \<Longrightarrow> path_key ''runs/'' q = Some k \<Longrightarrow> isS3Mode config \<or> isLocalMode config \<Longrightarrow>
   api_base config = Some base \<Longrightarrow>
   getDataUrl L m p config = base @ ''/api/v1/files/'' @ getDiscoveryPath m k config @ ''/'' @ q"
  by (simp add: getDataUrl_def Let_def)

text \<open>C9: The files of a run are requested from the place its index entry came from. After the list
  of runs was loaded from several discovery paths, in whatever order they answered, the URL of a
  file of a run listed by one path only leads to that path, with the run id unchanged.\<close>

theorem run_files_routed:
  assumes "load_config net st0 = (config, st)" and "\<not> isIndexingEnabled config"
    and "isS3Mode config \<or> isLocalMode config" and "api_base config = Some base"
    and "set (arrive (source_paths config)) = set (source_paths config)"
    and "only_under (index_source net config) (source_paths config) k dp"
    and "k \<noteq> []" and "CHR ''/'' \<notin> set k" and "length (text_encode k) \<le> 200" and "dp \<noteq> []"
    and "st' = snd (load_index L net fetch_api arrive st0)"
  shows "getDataUrl L (cl_paths st') (''runs/'' @ k @ ''/'' @ rest) config =
    base @ ''/api/v1/files/'' @ dp @ ''/runs/'' @ k @ ''/'' @ sanitizeResultPath L rest"
proof -
  have ne: "source_paths config \<noteq> []" using assms(6) by (auto simp: only_under_def)
  have "map_of (cl_paths st') k = Some dp"
    unfolding assms(11) load_index_paths [OF assms(1-4) ne]
    using registered_only [OF assms(6,5)] by simp
  then have "getDiscoveryPath (cl_paths st') k config = dp"
    using assms(10) by (cases dp) (simp_all add: getDiscoveryPath_def)
  then show ?thesis
    using data_url_keyed [OF sanitize_run_path [OF assms(8,9)] run_path_key [OF assms(8,7)] assms(3,4)] by simp
qed

text \<open>A configuration with two local discovery paths, of which the first lists the run \<open>r1\<close>.\<close>

definition example_local :: RuntimeConfig where
  "example_local = \<lparr>rc_dataSource = [], rc_title = None, rc_refreshInterval = None, rc_api = Some ''http://x'',
     rc_storage = Some \<lparr>sc_s3 = None,
       sc_local = Some \<lparr>sb_enabled = True, sb_discovery_paths = [''a'', ''b'']\<rparr>\<rparr>,
     rc_indexing = None\<rparr>"

definition example_run :: index_entry where
  "example_run = \<lparr>ie_run_id = ''r1'', ie_timestamp = 0, ie_timestamp_end = None, ie_suite_hash = None,
     ie_instance = \<lparr>ii_id = ''i'', ii_client = ''geth'', ii_image = ''img'', ii_rollback_strategy = None\<rparr>,
     ie_tests = \<lparr>it_total = 0, it_passed = 0, it_failed = 0,
       it_steps = \<lparr>st_setup = None, st_test = None, st_cleanup = None\<rparr>\<rparr>,
     ie_status = None, ie_termination_reason = None, ie_metadata = None, ie_deletion_requested_at = None,
     ie_deletion_error = None\<rparr>"

definition example_index_net :: "index network" where
  "example_index_net = \<lparr>nw_now = 0, nw_config = None, nw_api_config = (\<lambda>_. None), nw_presign = (\<lambda>_. None),
     nw_fetch = (\<lambda>rq. if rq_url rq = ''http://x/api/v1/files/a/runs/index.json''
       then Some \<lparr>rs_status = 200, rs_content_type = Some ''application/json'', rs_content_length = None,
         rs_json = Some \<lparr>ix_generated = 1, ix_entries = [example_run]\<rparr>, rs_text = [], rs_body = None\<rparr>
       else None)\<rparr>"

lemma example_modes:
  "\<not> isIndexingEnabled example_local" "\<not> isS3Mode example_local" "isLocalMode example_local"
  "api_base example_local = Some ''http://x''" "source_paths example_local = [''a'', ''b'']"
  by (simp_all add: example_local_def isIndexingEnabled_def isS3Mode_def isLocalMode_def backend_enabled_def
      api_base_def source_paths_def local_paths_def backend_paths_def)

lemma example_sources:
  "index_source example_index_net example_local ''a'' = Some \<lparr>ix_generated = 1, ix_entries = [example_run]\<rparr>"
  "index_source example_index_net example_local ''b'' = None"
  by (simp_all add: index_source_def example_modes local_index_def)
    (simp_all add: example_local_def example_index_net_def index_of_response_def fetch_outcome_def
      get_request_def rs_ok_def isJsonContentType_def)

lemma example_only_under:
  "only_under (index_source example_index_net example_local) (source_paths example_local) ''r1'' ''a''"
  by (simp add: only_under_def example_modes example_sources) (simp add: example_run_def)

theorem run_files_routed_witness:
  "\<exists>m. getDataUrl example_hash m ''runs/r1/result.json'' example_local =
     ''http://x/api/v1/files/a/runs/r1/'' @ sanitizeResultPath example_hash ''result.json''"
proof -
  have "load_config example_index_net \<lparr>cl_config = Some example_local, cl_paths = []\<rparr> =
      (example_local, \<lparr>cl_config = Some example_local, cl_paths = []\<rparr>)"
    by (simp add: load_config_def loadRuntimeConfig_def)
  from run_files_routed [OF this example_modes(1) disjI2 [OF example_modes(3)] example_modes(4) _ example_only_under
      _ _ _ _ refl, of rev example_hash "\<lambda>_. None" "''result.json''"]
  show ?thesis by (auto simp: text_encode_def utf8_def)
qed

text \<open>Merging the indexes of the discovery paths keeps every entry of every index that could be
  loaded, in the order of the paths, and is dated by the newest of them.\<close>

lemma merge_keeps_entries:
  "ix_entries (mergeIndexResults rs) = concat (map (\<lambda>r. case r of None \<Rightarrow> [] | Some ix \<Rightarrow> ix_entries ix) rs) \<and>
   (ix_entries (mergeIndexResults rs) = [] \<or>
     (\<forall>ix. Some ix \<in> set rs \<longrightarrow> ix_generated ix \<le> ix_generated (mergeIndexResults rs)) \<and>
     (\<exists>ix. Some ix \<in> set rs \<and> ix_generated (mergeIndexResults rs) = ix_generated ix))"
proof -
  let ?found = "concat (map (\<lambda>r. case r of None \<Rightarrow> [] | Some ix \<Rightarrow> [ix]) rs)"
  have set: "set ?found = {ix. Some ix \<in> set rs}"
    by (force split: option.splits)
  have entries: "concat (map ix_entries ?found) = concat (map (\<lambda>r. case r of None \<Rightarrow> [] | Some ix \<Rightarrow> ix_entries ix) rs)"
    by (induction rs) (auto split: option.split)
  show ?thesis
  proof (cases "concat (map ix_entries ?found) = []")
    case True
    then have "mergeIndexResults rs = emptyIndex"
      by (simp only: mergeIndexResults_def Let_def if_True simp_thms)
    then show ?thesis unfolding entries [symmetric] True by (simp add: emptyIndex_def)
  next
    case False
    then have "?found \<noteq> []" by (rule contrapos_nn) simp
    let ?m = "Max (ix_generated ` set ?found)"
    have m: "mergeIndexResults rs = \<lparr>ix_generated = ?m, ix_entries = concat (map ix_entries ?found)\<rparr>"
      using False by (simp only: mergeIndexResults_def Let_def if_False set_map)
    have "?m \<in> ix_generated ` set ?found"
      using \<open>?found \<noteq> []\<close> by (intro Max_in finite_imageI finite_set) (simp only: image_is_empty set_empty not_False_eq_True)
    then have "\<exists>ix. Some ix \<in> set rs \<and> ?m = ix_generated ix" unfolding set by auto
    moreover have "ix_generated ix \<le> ?m" if "Some ix \<in> set rs" for ix
    proof (rule Max_ge)
      show "finite (ix_generated ` set ?found)" by (intro finite_imageI finite_set)
      show "ix_generated ix \<in> ix_generated ` set ?found" using that unfolding set by (intro imageI CollectI)
    qed
    ultimately show ?thesis unfolding m using entries by simp
  qed
qed


end
