(* ===== verification/Line_Stream.thy ===== *)
theory Line_Stream
  imports Data_Client
begin

text \<open>
  Summaries of line-oriented files, built from a byte stream without holding the file:
  \<open>fetchLineSummaries\<close> and \<open>streamLineSummaries\<close> of \<open>ui/src/api/client.ts\<close>, and the hook of
  \<open>ui/src/api/hooks/useTestDetails.ts\<close> that shows the lines while they arrive. Bytes are numbers;
  \<open>TextDecoder\<close> is the parameter \<open>decode\<close>.
\<close>

section \<open>Scanning bytes\<close>

record LineSummary =
  ls_size :: nat
  ls_head :: string

definition LINE_HEAD_BYTES :: nat where
  "LINE_HEAD_BYTES = 256"

record line_scan =
  sn_lines :: "LineSummary list"
  sn_lineSize :: nat
  sn_headBuf :: "nat list"

definition scan_init :: line_scan where
  "scan_init = \<lparr>sn_lines = [], sn_lineSize = 0, sn_headBuf = []\<rparr>"

definition push_line :: "(nat list \<Rightarrow> string) \<Rightarrow> line_scan \<Rightarrow> LineSummary list" where
  "push_line decode st =
     sn_lines st @ [\<lparr>ls_size = sn_lineSize st, ls_head = decode (sn_headBuf st)\<rparr>]"

definition scan_byte :: "(nat list \<Rightarrow> string) \<Rightarrow> line_scan \<Rightarrow> nat \<Rightarrow> line_scan" where
  "scan_byte decode st b =
     (if b = 10 then \<lparr>sn_lines = push_line decode st, sn_lineSize = 0, sn_headBuf = []\<rparr>
      else st\<lparr>sn_lineSize := sn_lineSize st + 1,
              sn_headBuf := (if length (sn_headBuf st) < LINE_HEAD_BYTES then sn_headBuf st @ [b]
                             else sn_headBuf st)\<rparr>)"

definition scan_chunks :: "(nat list \<Rightarrow> string) \<Rightarrow> nat list list \<Rightarrow> line_scan" where
  "scan_chunks decode chunks = foldl (foldl (scan_byte decode)) scan_init chunks"

definition finish_scan :: "(nat list \<Rightarrow> string) \<Rightarrow> line_scan \<Rightarrow> LineSummary list" where
  "finish_scan decode st = (if sn_lineSize st > 0 then push_line decode st else sn_lines st)"

definition stream_response :: "'a network \<Rightarrow> RuntimeConfig \<Rightarrow> string \<Rightarrow> js_error + 'a response" where
  "stream_response net config url =
     (if isS3Mode config then fetchViaS3 net url None
      else if isLocalMode config then fetch_outcome (nw_fetch net (get_request url True))
      else fetch_outcome (nw_fetch net (get_request url False)))"

definition summaries_result :: "(nat list \<Rightarrow> string) \<Rightarrow> 'a response \<Rightarrow> js_error + LineSummary list FetchResult" where
  "summaries_result decode r =
     (case rs_body r of
        None \<Rightarrow> Inr \<lparr>fr_data = None, fr_status = rs_status r\<rparr>
      | Some body \<Rightarrow>
          if \<not> rs_ok r then Inr \<lparr>fr_data = None, fr_status = rs_status r\<rparr>
          else if bs_fails body then Inl TypeError
          else Inr \<lparr>fr_data = Some (finish_scan decode (scan_chunks decode (bs_chunks body))),
                    fr_status = rs_status r\<rparr>)"

definition fetchLineSummaries ::
  "hash_lib \<Rightarrow> 'a network \<Rightarrow> (nat list \<Rightarrow> string) \<Rightarrow> string \<Rightarrow> client_state \<Rightarrow>
   (js_error + LineSummary list FetchResult) \<times> client_state" where
  "fetchLineSummaries L net decode path st0 =
     (let (config, st) = load_config net st0;
          url = getDataUrl L (cl_paths st) path config
      in (and_then (stream_response net config url) (summaries_result decode), st))"

text \<open>The streaming variant calls \<open>onLine\<close> with each line and its index while it reads: the state
  holds the calls made so far and the next index.\<close>

record line_calls =
  lc_calls :: "(LineSummary \<times> nat) list"
  lc_lineSize :: nat
  lc_headBuf :: "nat list"
  lc_lineIndex :: nat

definition calls_init :: line_calls where
  "calls_init = \<lparr>lc_calls = [], lc_lineSize = 0, lc_headBuf = [], lc_lineIndex = 0\<rparr>"

definition call_line :: "(nat list \<Rightarrow> string) \<Rightarrow> line_calls \<Rightarrow> (LineSummary \<times> nat) list" where
  "call_line decode st =
     lc_calls st @ [(\<lparr>ls_size = lc_lineSize st, ls_head = decode (lc_headBuf st)\<rparr>, lc_lineIndex st)]"

definition stream_byte :: "(nat list \<Rightarrow> string) \<Rightarrow> line_calls \<Rightarrow> nat \<Rightarrow> line_calls" where
  "stream_byte decode st b =
     (if b = 10
      then \<lparr>lc_calls = call_line decode st, lc_lineSize = 0, lc_headBuf = [], lc_lineIndex = lc_lineIndex st + 1\<rparr>
      else st\<lparr>lc_lineSize := lc_lineSize st + 1,
              lc_headBuf := (if length (lc_headBuf st) < LINE_HEAD_BYTES then lc_headBuf st @ [b]
                             else lc_headBuf st)\<rparr>)"

text \<open>The calls of a whole stream, and whether the promise resolves: a stream that breaks off
  keeps the calls made before.\<close>

definition stream_calls :: "(nat list \<Rightarrow> string) \<Rightarrow> byte_stream \<Rightarrow> (LineSummary \<times> nat) list \<times> bool" where
  "stream_calls decode body =
     (let st = foldl (foldl (stream_byte decode)) calls_init (bs_chunks body)
      in if bs_fails body then (lc_calls st, False)
         else (if lc_lineSize st > 0 then call_line decode st else lc_calls st, True))"

definition streamLineSummaries ::
  "hash_lib \<Rightarrow> 'a network \<Rightarrow> (nat list \<Rightarrow> string) \<Rightarrow> string \<Rightarrow> client_state \<Rightarrow>
   ((LineSummary \<times> nat) list \<times> bool) \<times> client_state" where
  "streamLineSummaries L net decode path st0 =
     (let (config, st) = load_config net st0;
          url = getDataUrl L (cl_paths st) path config
      in (case stream_response net config url of
            Inl e \<Rightarrow> ([], False)
          | Inr r \<Rightarrow>
              if \<not> rs_ok r then ([], True)
              else (case rs_body r of None \<Rightarrow> ([], True) | Some body \<Rightarrow> stream_calls decode body), st))"


section \<open>The streaming hook\<close>

datatype StreamAction = Reset string | AddLine LineSummary | StreamDone

record StreamState =
  ss_data :: "LineSummary list option"
  ss_isStreaming :: bool
  ss_path :: string

fun streamReducer :: "StreamState \<Rightarrow> StreamAction \<Rightarrow> StreamState" where
  "streamReducer state (Reset path) = \<lparr>ss_data = None, ss_isStreaming = True, ss_path = path\<rparr>"
| "streamReducer state (AddLine summary) =
     state\<lparr>ss_data := Some (case ss_data state of None \<Rightarrow> [summary] | Some d \<Rightarrow> d @ [summary])\<rparr>"
| "streamReducer state StreamDone = state\<lparr>ss_isStreaming := False\<rparr>"

text \<open>The hook: every run of the effect starts a stream of its own and cancels the one before.
  A callback of stream \<open>k\<close> is dispatched unless the run it belongs to was cancelled.\<close>

datatype hook_event = Effect string bool | OnLine nat LineSummary | Settled nat

record stream_hook =
  sh_state :: StreamState
  sh_live :: "nat option"
  sh_next :: nat

definition hook_init :: stream_hook where
  "hook_init = \<lparr>sh_state = \<lparr>ss_data = None, ss_isStreaming = False, ss_path = []\<rparr>,
     sh_live = None, sh_next = 0\<rparr>"

fun hook_step :: "stream_hook \<Rightarrow> hook_event \<Rightarrow> stream_hook" where
  "hook_step h (Effect path enabled) =
     (if enabled
      then \<lparr>sh_state = streamReducer (sh_state h) (Reset path), sh_live = Some (sh_next h),
            sh_next = sh_next h + 1\<rparr>
      else h\<lparr>sh_live := None\<rparr>)"
| "hook_step h (OnLine k summary) =
     (if sh_live h = Some k then h\<lparr>sh_state := streamReducer (sh_state h) (AddLine summary)\<rparr> else h)"
| "hook_step h (Settled k) =
     (if sh_live h = Some k then h\<lparr>sh_state := streamReducer (sh_state h) StreamDone\<rparr> else h)"

definition hook_view :: "stream_hook \<Rightarrow> string \<Rightarrow> bool \<Rightarrow> LineSummary list option \<times> bool" where
  "hook_view h path enabled =
     (if ss_path (sh_state h) = path then (ss_data (sh_state h), ss_isStreaming (sh_state h))
      else (None, enabled))"

section \<open>Documents of a test step\<close>

text \<open>The queries of the step files: an aggregated document, the details, and the lines of a
  request or response file, which is not loaded when it is known to be larger than 50 MB (the
  result is then null).\<close>

definition MAX_INLINE_FILE_SIZE :: real where
  "MAX_INLINE_FILE_SIZE = 50 * 1024 * 1024"

datatype StepType = SetupStep | TestStep | CleanupStep | PreRunStep

fun step_type_name :: "StepType \<Rightarrow> string" where
  "step_type_name SetupStep = ''setup''"
| "step_type_name TestStep = ''test''"
| "step_type_name CleanupStep = ''cleanup''"
| "step_type_name PreRunStep = ''pre_run''"

definition step_path :: "string \<Rightarrow> string \<Rightarrow> string \<Rightarrow> StepType \<Rightarrow> string \<Rightarrow> string" where
  "step_path base_dir ident testName stepType ext =
     base_dir @ ''/'' @ ident @ ''/'' @ testName @ ''/'' @ step_type_name stepType @ ext"

definition require_data :: "string \<Rightarrow> 'a FetchResult \<Rightarrow> js_error + 'a" where
  "require_data what r =
     (case fr_data r of
        None \<Rightarrow> Inl (Thrown (''Failed to fetch '' @ what @ '': '' @ nat_str (fr_status r)))
      | Some d \<Rightarrow> Inr d)"

definition useTestResultDetails ::
  "hash_lib \<Rightarrow> 'a network \<Rightarrow> string \<Rightarrow> string \<Rightarrow> StepType \<Rightarrow> client_state \<Rightarrow> (js_error + 'a) \<times> client_state" where
  "useTestResultDetails L net runId testName stepType st0 =
     (let (res, st) = fetchData L net (step_path ''runs'' runId testName stepType ''.result-details.json'') None st0
      in (and_then res (require_data ''result details''), st))"

definition useTestAggregated ::
  "hash_lib \<Rightarrow> 'a network \<Rightarrow> string \<Rightarrow> string \<Rightarrow> StepType \<Rightarrow> client_state \<Rightarrow> (js_error + 'a) \<times> client_state" where
  "useTestAggregated L net runId testName stepType st0 =
     (let (res, st) = fetchData L net (step_path ''runs'' runId testName stepType ''.result-aggregated.json'') None st0
      in (and_then res (require_data ''aggregated stats''), st))"

definition oversize :: "HeadResult \<Rightarrow> bool" where
  "oversize h \<longleftrightarrow> hr_exists h \<and>
     (case hr_size h of None \<Rightarrow> False | Some n \<Rightarrow> num_lt (Fin MAX_INLINE_FILE_SIZE) n)"

text \<open>\<open>!data\<close> also holds of the empty text.\<close>

definition lines_of_text :: "string \<Rightarrow> string FetchResult \<Rightarrow> js_error + string list option" where
  "lines_of_text what r =
     (case fr_data r of
        Some (c # cs) \<Rightarrow> Inr (Some (split_on (CHR 0x0A) (trim (c # cs))))
      | _ \<Rightarrow> Inl (Thrown (''Failed to fetch '' @ what @ '': '' @ nat_str (fr_status r))))"

definition step_lines ::
  "hash_lib \<Rightarrow> 'a network \<Rightarrow> string \<Rightarrow> string \<Rightarrow> client_state \<Rightarrow>
   (js_error + string list option) \<times> client_state" where
  "step_lines L net what path st0 =
     (let (h, st) = fetchHead L net path st0
      in if oversize h then (Inr None, st)
         else (let (res, st') = fetchText L net path (Some False) st
               in (and_then res (lines_of_text what), st')))"

definition useTestResponses ::
  "hash_lib \<Rightarrow> 'a network \<Rightarrow> string \<Rightarrow> string \<Rightarrow> StepType \<Rightarrow> client_state \<Rightarrow>
   (js_error + string list option) \<times> client_state" where
  "useTestResponses L net runId testName stepType st =
     step_lines L net ''responses'' (step_path ''runs'' runId testName stepType ''.response'') st"

definition useTestRequests ::
  "hash_lib \<Rightarrow> 'a network \<Rightarrow> string \<Rightarrow> string \<Rightarrow> StepType \<Rightarrow> client_state \<Rightarrow>
   (js_error + string list option) \<times> client_state" where
  "useTestRequests L net suiteHash testName stepType st =
     step_lines L net ''requests'' (step_path ''suites'' suiteHash testName stepType ''.request'') st"


section \<open>Lemmas\<close>

lemma split_on_snoc:
  "split_on c (s @ [x]) =
     (if x = c then split_on c s @ [[]]
      else butlast (split_on c s) @ [last (split_on c s) @ [x]])"
proof (induction s)
  case (Cons a s)
  obtain y ys where eq: "split_on c s = y # ys" by (cases "split_on c s") auto
  then show ?case using Cons by (cases ys) (auto split: if_splits)
qed simp

lemma foldl_chunks: "foldl (foldl f) a xss = foldl f a (concat xss)"
  by (induction xss arbitrary: a) simp_all

text \<open>The reference: the lines of a file, without the empty piece after a final newline, and what
  the UI keeps of a line.\<close>

definition file_lines :: "nat list \<Rightarrow> nat list list" where
  "file_lines bs = (let ps = split_on 10 bs in if last ps = [] then butlast ps else ps)"

definition summary_of :: "(nat list \<Rightarrow> string) \<Rightarrow> nat list \<Rightarrow> LineSummary" where
  "summary_of decode l = \<lparr>ls_size = length l, ls_head = decode (take LINE_HEAD_BYTES l)\<rparr>"

lemma head_buffer:
  "(if length (take n l) < n then take n l @ [b] else take n l) = take n (l @ [b])"
  by (auto simp: min_def)

lemma map_snoc_last: "ps \<noteq> [] \<Longrightarrow> map f (butlast ps) @ [f (last ps)] = map f ps"
  by (metis append_butlast_last_id list.simps(8,9) map_append)

text \<open>The state after the pieces \<open>ps\<close>, the last of which is unfinished.\<close>

definition scan_of :: "(nat list \<Rightarrow> string) \<Rightarrow> nat list list \<Rightarrow> line_scan" where
  "scan_of decode ps = \<lparr>sn_lines = map (summary_of decode) (butlast ps),
     sn_lineSize = length (last ps), sn_headBuf = take LINE_HEAD_BYTES (last ps)\<rparr>"

lemma push_scan_of: "ps \<noteq> [] \<Longrightarrow> push_line decode (scan_of decode ps) = map (summary_of decode) ps"
  using map_snoc_last [of ps "summary_of decode"]
  by (simp add: push_line_def scan_of_def) (simp add: summary_of_def)

lemma scan_byte_newline: "ps \<noteq> [] \<Longrightarrow> scan_byte decode (scan_of decode ps) 10 = scan_of decode (ps @ [[]])"
  by (simp add: scan_byte_def push_scan_of) (simp add: scan_of_def)

lemma scan_byte_other:
  "b \<noteq> 10 \<Longrightarrow> scan_byte decode (scan_of decode ps) b = scan_of decode (butlast ps @ [last ps @ [b]])"
  using head_buffer [of LINE_HEAD_BYTES "last ps" b] by (simp add: scan_byte_def scan_of_def)

lemma scan_state: "foldl (scan_byte decode) scan_init bs = scan_of decode (split_on 10 bs)"
proof (induction bs rule: rev_induct)
  case Nil
  then show ?case by (simp add: scan_init_def scan_of_def)
next
  case (snoc b bs)
  then show ?case by (simp add: split_on_snoc scan_byte_newline scan_byte_other)
qed

lemma finish_lines:
  "finish_scan decode (scan_chunks decode chunks) = map (summary_of decode) (file_lines (concat chunks))"
proof -
  have "sn_lineSize (scan_of decode ps) = length (last ps)" and
    "sn_lines (scan_of decode ps) = map (summary_of decode) (butlast ps)" for ps
    by (simp_all add: scan_of_def)
  then show ?thesis
    by (simp add: scan_chunks_def foldl_chunks scan_state finish_scan_def push_scan_of file_lines_def)
qed

text \<open>The streaming variant runs in lockstep with the other one.\<close>

definition numbered :: "'a list \<Rightarrow> ('a \<times> nat) list" where
  "numbered xs = zip xs [0..<length xs]"

lemma numbered_snoc: "numbered (xs @ [x]) = numbered xs @ [(x, length xs)]"
  by (simp add: numbered_def)

definition as_calls :: "line_scan \<Rightarrow> line_calls" where
  "as_calls st = \<lparr>lc_calls = numbered (sn_lines st), lc_lineSize = sn_lineSize st,
     lc_headBuf = sn_headBuf st, lc_lineIndex = length (sn_lines st)\<rparr>"

lemma as_calls_step: "stream_byte decode (as_calls st) b = as_calls (scan_byte decode st b)"
  by (simp add: stream_byte_def scan_byte_def as_calls_def call_line_def push_line_def numbered_snoc)

lemma as_calls_run: "foldl (stream_byte decode) (as_calls st) bs = as_calls (foldl (scan_byte decode) st bs)"
  by (induction bs arbitrary: st) (simp_all add: as_calls_step)

lemma stream_calls_lines:
  "\<not> bs_fails body \<Longrightarrow>
   stream_calls decode body = (numbered (map (summary_of decode) (file_lines (concat (bs_chunks body)))), True)"
proof -
  assume "\<not> bs_fails body"
  have init: "calls_init = as_calls scan_init"
    by (simp add: calls_init_def as_calls_def scan_init_def numbered_def)
  show ?thesis
    unfolding finish_lines [symmetric] stream_calls_def init
    using \<open>\<not> bs_fails body\<close>
    by (simp add: foldl_chunks as_calls_run scan_chunks_def finish_scan_def Let_def)
      (simp add: as_calls_def call_line_def push_line_def numbered_snoc)
qed

lemma stream_calls_prefix:
  "bs_fails body \<Longrightarrow> \<exists>ls. fst (stream_calls decode body) = numbered ls \<and>
     prefix ls (map (summary_of decode) (file_lines (concat (bs_chunks body))))"
proof -
  assume f: "bs_fails body"
  let ?ps = "split_on 10 (concat (bs_chunks body))"
  have init: "calls_init = as_calls scan_init"
    by (simp add: calls_init_def as_calls_def scan_init_def numbered_def)
  have "fst (stream_calls decode body) = numbered (map (summary_of decode) (butlast ?ps))"
    using f by (simp add: stream_calls_def init foldl_chunks as_calls_run scan_state) (simp add: as_calls_def scan_of_def)
  moreover have "prefix (map (summary_of decode) (butlast ?ps))
      (map (summary_of decode) (file_lines (concat (bs_chunks body))))"
    by (rule map_mono_prefix) (simp add: file_lines_def Let_def prefixeq_butlast)
  ultimately show ?thesis by blast
qed


section \<open>Properties\<close>

text \<open>C10: The summaries are those of the lines of the file: whatever the chunks of the transfer,
  both readers report every line once, in order, with its size in bytes and the decoded text of
  its first 256 bytes, the streaming one with consecutive indices from 0.\<close>

theorem line_summaries_reference:
  assumes "rs_ok r" and "rs_body r = Some body" and "\<not> bs_fails body"
    and "ref = map (summary_of decode) (file_lines (concat (bs_chunks body)))"
  shows "summaries_result decode r = Inr \<lparr>fr_data = Some ref, fr_status = rs_status r\<rparr> \<and>
    stream_calls decode body = (zip ref [0..<length ref], True)"
  using assms stream_calls_lines [OF assms(3), of decode]
  by (simp add: summaries_result_def finish_lines numbered_def)

definition example_stream :: "nat response" where
  "example_stream = \<lparr>rs_status = 200, rs_content_type = None, rs_content_length = None, rs_json = None,
     rs_text = [], rs_body = Some \<lparr>bs_chunks = [[65, 10, 66], [66, 10]], bs_fails = False\<rparr>\<rparr>"

theorem line_summaries_reference_witness:
  "summaries_result (map char_of) example_stream =
     Inr \<lparr>fr_data = Some [\<lparr>ls_size = 1, ls_head = ''A''\<rparr>, \<lparr>ls_size = 2, ls_head = ''BB''\<rparr>], fr_status = 200\<rparr>"
  using line_summaries_reference [of example_stream "\<lparr>bs_chunks = [[65, 10, 66], [66, 10]], bs_fails = False\<rparr>"
      _ "map char_of"]
  by (simp add: example_stream_def rs_ok_def file_lines_def summary_of_def LINE_HEAD_BYTES_def char_eval)

lemma file_lines_size:
  "(\<Sum>l\<leftarrow>file_lines bs. length l) + count_list bs 10 = length bs"
proof -
  have "(\<Sum>l\<leftarrow>split_on 10 bs. length l) + count_list bs 10 = length bs"
  proof (induction bs)
    case (Cons b bs)
    then show ?case by (cases "split_on 10 bs") auto
  qed simp
  moreover have "(\<Sum>l\<leftarrow>split_on 10 bs. length l) = (\<Sum>l\<leftarrow>file_lines bs. length l)"
  proof (cases "last (split_on 10 bs) = []")
    case True
    then have "split_on 10 bs = butlast (split_on 10 bs) @ [[]]"
      by (metis append_butlast_last_id split_on_nonempty)
    then have "(\<Sum>l\<leftarrow>split_on 10 bs. length l) = (\<Sum>l\<leftarrow>butlast (split_on 10 bs) @ [[]]. length l)" by simp
    then show ?thesis using True by (simp add: file_lines_def)
  qed (simp add: file_lines_def)
  ultimately show ?thesis by simp
qed

text \<open>The lines delivered by stream \<open>k\<close> among the events.\<close>

definition delivered :: "nat \<Rightarrow> hook_event list \<Rightarrow> LineSummary list" where
  "delivered k es = concat (map (\<lambda>e. case e of OnLine j s \<Rightarrow> if j = k then [s] else [] | _ \<Rightarrow> []) es)"

definition add_lines :: "LineSummary list \<Rightarrow> StreamState \<Rightarrow> StreamState" where
  "add_lines ls state =
     state\<lparr>ss_data := (if ls = [] then ss_data state
                       else Some (case ss_data state of None \<Rightarrow> ls | Some d \<Rightarrow> d @ ls))\<rparr>"

lemma hook_run:
  assumes "sh_live h = Some k" and "\<forall>e \<in> set es. \<not> (\<exists>p b. e = Effect p b)"
  shows "run hook_step h es =
    h\<lparr>sh_state := add_lines (delivered k es) (sh_state h)
        \<lparr>ss_isStreaming := (ss_isStreaming (sh_state h) \<and> Settled k \<notin> set es)\<rparr>\<rparr>"
  using assms
proof (induction es arbitrary: h)
  case Nil
  then show ?case by (simp add: delivered_def add_lines_def)
next
  case (Cons e es)
  then show ?case
    by (cases e) (auto simp: delivered_def add_lines_def split: option.splits)
qed

text \<open>C16: The page shows the lines of the file it is on. After the effect ran for a path, whatever
  the state before, the view of that path holds exactly the lines its own stream delivered, in order, and
  reports streaming until that stream settled; late callbacks of earlier streams never show. The view of
  any other path, which is what the page shows between the change of the path and the effect that follows
  it, has no lines, and counts as streaming when the hook is enabled.\<close>

theorem stream_shows_current:
  assumes "\<forall>e \<in> set es. \<not> (\<exists>p b. e = Effect p b)"
    and "k = sh_next h"
  shows "hook_view (run hook_step h (Effect path True # es)) path' enabled =
    (if path' = path
     then (if delivered k es = [] then None else Some (delivered k es), Settled k \<notin> set es)
     else (None, enabled))"
proof -
  let ?h = "hook_step h (Effect path True)"
  have "run hook_step h (Effect path True # es) =
    ?h\<lparr>sh_state := add_lines (delivered k es) (sh_state ?h)
        \<lparr>ss_isStreaming := (ss_isStreaming (sh_state ?h) \<and> Settled k \<notin> set es)\<rparr>\<rparr>"
    using hook_run [of ?h k es] assms by simp
  then show ?thesis by (simp add: hook_view_def add_lines_def)
qed

theorem stream_shows_current_witness:
  "hook_view (run hook_step (run hook_step hook_init [Effect ''a'' True])
     (Effect ''b'' True # [OnLine 0 \<lparr>ls_size = 9, ls_head = ''old''\<rparr>, OnLine 1 \<lparr>ls_size = 3, ls_head = ''new''\<rparr>]))
     ''b'' True = (Some [\<lparr>ls_size = 3, ls_head = ''new''\<rparr>], True) \<and>
   hook_view (run hook_step (run hook_step hook_init [Effect ''a'' True])
     (Effect ''b'' True # [OnLine 0 \<lparr>ls_size = 9, ls_head = ''old''\<rparr>, OnLine 1 \<lparr>ls_size = 3, ls_head = ''new''\<rparr>]))
     ''c'' True = (None, True)"
  by (subst (1 2) stream_shows_current [where k = 1]) (simp_all add: hook_init_def delivered_def)

end
