(* ===== verification/Limiter.thy ===== *)
theory Limiter
  imports Js_Core
begin

text \<open>
  The concurrency limiter of \<open>ui/src/api/client.ts\<close> that every \<open>HEAD\<close> request goes through, as a
  step relation. A call either starts at once or waits in the queue; a call that ends, also by an
  exception, gives its slot back and resolves the promise of the first waiter. The waiter
  continues in a later microtask: until then it is neither in the queue nor counted as active.
\<close>

section \<open>The state and its steps\<close>

record limiter =
  lm_active :: nat
  lm_queue :: "nat list"
  lm_woken :: "nat list"
  lm_running :: "nat list"
  lm_done :: "nat list"

definition limiter_init :: limiter where
  "limiter_init = \<lparr>lm_active = 0, lm_queue = [], lm_woken = [], lm_running = [], lm_done = []\<rparr>"

definition HEAD_LIMIT :: nat where
  "HEAD_LIMIT = 8"

definition submitted :: "limiter \<Rightarrow> nat list" where
  "submitted s = lm_queue s @ lm_woken s @ lm_running s @ lm_done s"

datatype lim_event = Call nat | Resume nat | Finish nat

definition start_task :: "nat \<Rightarrow> limiter \<Rightarrow> limiter" where
  "start_task t s = s\<lparr>lm_active := lm_active s + 1, lm_running := lm_running s @ [t]\<rparr>"

text \<open>The call of the limited function up to its first suspension.\<close>

definition call_task :: "nat \<Rightarrow> nat \<Rightarrow> limiter \<Rightarrow> limiter" where
  "call_task limit t s =
     (if lm_active s \<ge> limit then s\<lparr>lm_queue := lm_queue s @ [t]\<rparr> else start_task t s)"

text \<open>The \<open>finally\<close> block: \<open>active--; queue.shift()?.()\<close>.\<close>

definition finish_task :: "nat \<Rightarrow> limiter \<Rightarrow> limiter" where
  "finish_task t s =
     (let s1 = s\<lparr>lm_active := lm_active s - 1, lm_running := remove1 t (lm_running s),
                 lm_done := lm_done s @ [t]\<rparr>
      in case lm_queue s of
           [] \<Rightarrow> s1
         | w # ws \<Rightarrow> s1\<lparr>lm_queue := ws, lm_woken := lm_woken s @ [w]\<rparr>)"

inductive lim_step :: "nat \<Rightarrow> limiter \<Rightarrow> lim_event \<Rightarrow> limiter \<Rightarrow> bool" for limit where
  call: "t \<notin> set (submitted s) \<Longrightarrow> lim_step limit s (Call t) (call_task limit t s)"
| resume: "lm_woken s = t # ws \<Longrightarrow> lim_step limit s (Resume t) (start_task t (s\<lparr>lm_woken := ws\<rparr>))"
| finish: "t \<in> set (lm_running s) \<Longrightarrow> lim_step limit s (Finish t) (finish_task t s)"

inductive_cases lim_callE: "lim_step limit s (Call t) s'"
inductive_cases lim_resumeE: "lim_step limit s (Resume t) s'"
inductive_cases lim_finishE: "lim_step limit s (Finish t) s'"

text \<open>A call overtakes when it starts while a resolved waiter has not continued yet.\<close>

definition overtakes :: "nat \<Rightarrow> limiter \<Rightarrow> lim_event \<Rightarrow> bool" where
  "overtakes limit s e \<longleftrightarrow> (\<exists>t. e = Call t) \<and> lm_active s < limit \<and> lm_woken s \<noteq> []"

text \<open>The reachable states, with the number of overtaking calls on the way.\<close>

inductive lim_reach :: "nat \<Rightarrow> nat \<Rightarrow> limiter \<Rightarrow> bool" for limit where
  init: "lim_reach limit 0 limiter_init"
| step: "lim_reach limit k s \<Longrightarrow> lim_step limit s e s' \<Longrightarrow>
         lim_reach limit (if overtakes limit s e then k + 1 else k) s'"

text \<open>Draining: steps of the calls made so far, and how many.\<close>

inductive drain :: "nat \<Rightarrow> limiter \<Rightarrow> nat \<Rightarrow> limiter \<Rightarrow> bool" for limit where
  none: "drain limit s 0 s"
| more: "drain limit s n s' \<Longrightarrow> lim_step limit s' e s'' \<Longrightarrow> \<nexists>t. e = Call t \<Longrightarrow> drain limit s (n + 1) s''"

definition drained :: "nat \<Rightarrow> limiter \<Rightarrow> bool" where
  "drained limit s \<longleftrightarrow> (\<forall>e s'. lim_step limit s e s' \<longrightarrow> (\<exists>t. e = Call t))"


section \<open>Invariant\<close>

definition lim_inv :: "nat \<Rightarrow> limiter \<Rightarrow> bool" where
  "lim_inv limit s \<longleftrightarrow> lm_active s = length (lm_running s) \<and> distinct (submitted s) \<and>
     (lm_queue s \<noteq> [] \<longrightarrow> limit \<le> length (lm_running s) + length (lm_woken s))"

lemma lim_invD:
  assumes "lim_inv limit s"
  shows "lm_active s = length (lm_running s)" "distinct (submitted s)" "distinct (lm_running s)"
    "lm_queue s \<noteq> [] \<Longrightarrow> limit \<le> length (lm_running s) + length (lm_woken s)"
  using assms by (auto simp: lim_inv_def submitted_def)

lemma call_inv: "lim_inv limit s \<Longrightarrow> t \<notin> set (submitted s) \<Longrightarrow> lim_inv limit (call_task limit t s)"
  by (auto simp: lim_inv_def call_task_def start_task_def submitted_def)

lemma resume_inv:
  "lim_inv limit s \<Longrightarrow> lm_woken s = t # ws \<Longrightarrow> lim_inv limit (start_task t (s\<lparr>lm_woken := ws\<rparr>))"
  by (auto simp: lim_inv_def start_task_def submitted_def)

lemma finish_inv:
  assumes "lim_inv limit s" and "t \<in> set (lm_running s)"
  shows "lim_inv limit (finish_task t s)"
proof -
  have "length (remove1 t (lm_running s)) = length (lm_running s) - 1" "0 < length (lm_running s)"
    using assms(2) by (auto simp: length_remove1)
  then show ?thesis
    using assms lim_invD [OF assms(1)]
    by (cases "lm_queue s") (auto simp: lim_inv_def finish_task_def submitted_def Let_def)
qed

lemma step_inv: "lim_step limit s e s' \<Longrightarrow> lim_inv limit s \<Longrightarrow> lim_inv limit s'"
  by (induction rule: lim_step.induct) (simp_all add: call_inv resume_inv finish_inv)

lemma init_inv: "lim_inv limit limiter_init"
  by (simp add: lim_inv_def limiter_init_def submitted_def)

lemma reach_inv: "lim_reach limit k s \<Longrightarrow> lim_inv limit s"
  by (induction rule: lim_reach.induct) (auto intro: init_inv step_inv)

lemma length_remove1_in: "t \<in> set xs \<Longrightarrow> length xs = Suc (length (remove1 t xs))"
  by (induction xs) auto

lemma set_remove1_in: "t \<in> set xs \<Longrightarrow> insert t (set (remove1 t xs)) = set xs"
  by (induction xs) auto

lemma step_load:
  assumes "lim_step limit s e s'" and "lim_inv limit s"
    and "length (lm_running s) + length (lm_woken s) \<le> limit + k"
  shows "length (lm_running s') + length (lm_woken s') \<le> limit + (if overtakes limit s e then k + 1 else k)"
  using assms(1)
proof cases
  case (call t)
  then show ?thesis using assms(3) lim_invD(1) [OF assms(2)]
    by (auto simp: call_task_def start_task_def overtakes_def)
next
  case (resume t ws)
  then show ?thesis using assms(3) by (simp add: start_task_def overtakes_def)
next
  case (finish t)
  then show ?thesis using assms(3) length_remove1_in [of t "lm_running s"]
    by (cases "lm_queue s") (auto simp: finish_task_def overtakes_def Let_def)
qed

text \<open>The work left: a waiter has to continue and to end, a running call to end.\<close>

definition work :: "limiter \<Rightarrow> nat" where
  "work s = 2 * length (lm_queue s) + 2 * length (lm_woken s) + length (lm_running s)"

lemma step_work:
  assumes "lim_step limit s e s'" and "\<nexists>t. e = Call t"
  shows "work s = work s' + 1 \<and> set (submitted s') = set (submitted s)"
  using assms(1)
proof cases
  case (call t)
  then show ?thesis using assms(2) by blast
next
  case (resume t ws)
  then show ?thesis by (auto simp: start_task_def work_def submitted_def)
next
  case (finish t)
  then show ?thesis
    using length_remove1_in [of t "lm_running s"] set_remove1_in [of t "lm_running s"]
    by (cases "lm_queue s") (auto simp: finish_task_def work_def submitted_def Let_def)
qed

lemma drain_work: "drain limit s n s' \<Longrightarrow> work s = work s' + n \<and> set (submitted s') = set (submitted s)"
  by (induction rule: drain.induct) (auto dest: step_work)

lemma drain_inv: "drain limit s n s' \<Longrightarrow> lim_inv limit s \<Longrightarrow> lim_inv limit s'"
  by (induction rule: drain.induct) (auto dest: step_inv)

text \<open>Progress: while a call made is not done, one of them can take a step.\<close>

lemma drained_work:
  assumes "lim_inv limit s" and "0 < limit" and "drained limit s"
  shows "work s = 0"
proof -
  have "lm_woken s = []" using assms(3) by (cases "lm_woken s") (auto simp: drained_def dest: lim_step.resume)
  moreover have "lm_running s = []"
    using assms(3) lim_step.finish [of "hd (lm_running s)" s limit] by (fastforce simp: drained_def)
  ultimately show ?thesis using lim_invD(4) [OF assms(1)] assms(2) by (auto simp: work_def)
qed


section \<open>Properties\<close>

text \<open>C5: In every reachable state of the limiter each call made is in exactly one place (waiting,
  woken, running or done), the counter is the number of running calls, and no slot is left idle
  while a call waits: with a waiter, the running and the woken calls use up the limit.\<close>

theorem limiter_invariant:
  assumes "lim_reach limit k s"
  shows "lm_active s = length (lm_running s) \<and> distinct (submitted s) \<and>
    (lm_queue s \<noteq> [] \<longrightarrow> limit \<le> length (lm_running s) + length (lm_woken s))"
  using reach_inv [OF assms] by (simp add: lim_inv_def)

text \<open>C6: The limiter bounds the requests in flight by its limit plus the number of calls that
  overtook a woken waiter; without overtaking it never exceeds the limit.\<close>

theorem limiter_bound:
  assumes "lim_reach limit k s"
  shows "length (lm_running s) + length (lm_woken s) \<le> limit + k"
  using assms
proof induction
  case init
  then show ?case by (simp add: limiter_init_def)
next
  case (step k s e s')
  then show ?case using step_load [OF step.hyps(2) reach_inv [OF step.hyps(1)] step.IH] by simp
qed

text \<open>C12: No call is lost: from every reachable state, whatever the order in which the calls made so
  far end and continue, they need the same number of steps, and when none of them can take a step
  all of them are done.\<close>

theorem limiter_drains:
  assumes "lim_reach limit k s" and "0 < limit" and "drain limit s n s'"
  shows "n \<le> work s \<and> (drained limit s' \<longrightarrow> n = work s \<and> set (lm_done s') = set (submitted s))"
proof -
  have w: "work s = work s' + n" and sub: "set (submitted s') = set (submitted s)"
    using drain_work [OF assms(3)] by auto
  have "work s' = 0" if "drained limit s'"
    using drained_work [OF drain_inv [OF assms(3) reach_inv [OF assms(1)]] assms(2) that] .
  moreover have "set (submitted s') = set (lm_done s')" if "work s' = 0"
    using that by (auto simp: work_def submitted_def)
  ultimately show ?thesis using w sub by auto
qed

text \<open>Two calls under a limit of one: the second waits.\<close>

definition two_calls :: limiter where
  "two_calls = \<lparr>lm_active = 1, lm_queue = [2], lm_woken = [], lm_running = [1], lm_done = []\<rparr>"

lemma reach_two_calls: "lim_reach 1 0 two_calls"
proof -
  have "lim_reach 1 0 (call_task 1 1 limiter_init)"
    using lim_reach.step [OF lim_reach.init lim_step.call, of 1 1]
    by (simp add: limiter_init_def submitted_def overtakes_def)
  from lim_reach.step [OF this lim_step.call, of 2]
  show ?thesis
    by (simp add: limiter_init_def submitted_def overtakes_def call_task_def start_task_def two_calls_def)
qed

theorem limiter_invariant_witness: "1 \<le> length (lm_running two_calls) + length (lm_woken two_calls)"
  using limiter_invariant [OF reach_two_calls] by (simp add: two_calls_def)

theorem limiter_bound_witness: "length (lm_running two_calls) + length (lm_woken two_calls) \<le> 1"
  using limiter_bound [OF reach_two_calls] by simp

theorem limiter_drains_witness: "drain 1 two_calls 0 two_calls \<and> 0 \<le> work two_calls"
  using limiter_drains [OF reach_two_calls _ drain.none] drain.none by simp

text \<open>An overtaking call does exceed the limit: the first call ends and wakes the second, a third one
  starts in the free slot, and then the second continues without looking at the counter.\<close>

lemma limit_exceeded:
  "\<exists>s. lim_reach 1 1 s \<and> length (lm_running s) = 2"
proof -
  have "lim_reach 1 0 (finish_task 1 two_calls)"
    using lim_reach.step [OF reach_two_calls lim_step.finish, of 1] by (simp add: two_calls_def overtakes_def)
  from lim_reach.step [OF this lim_step.call, of 3]
  have "lim_reach 1 1 (call_task 1 3 (finish_task 1 two_calls))"
    by (simp add: two_calls_def submitted_def finish_task_def overtakes_def)
  from lim_reach.step [OF this lim_step.resume, of 2 "[]"]
  have "lim_reach 1 1 (start_task 2 (call_task 1 3 (finish_task 1 two_calls)\<lparr>lm_woken := []\<rparr>))"
    by (simp add: two_calls_def finish_task_def call_task_def start_task_def overtakes_def)
  then show ?thesis
    by (intro exI conjI, assumption) (simp add: two_calls_def finish_task_def call_task_def start_task_def)
qed

end
