(* ===== verification/Live_Log.thy ===== *)
theory Live_Log
  imports Js_Uri
begin

text \<open>
  The live log of a running benchmark (\<open>ui/src/api/hooks/useLiveRunLogsWS.ts\<close>): the state of the
  hook, the variables its closures capture per connection, and one step per callback. Messages are
  collected and applied once per animation frame. \<open>None\<close> is a message that is not JSON.
\<close>

section \<open>State\<close>

datatype LogsMessage =
    Snapshot "string option" "bool option"
  | LogText "string option"
  | TruncatedMsg
  | RunEnded
  | OtherMsg

definition MAX_BACKOFF_MS :: nat where "MAX_BACKOFF_MS = 30000"
definition INITIAL_BACKOFF_MS :: nat where "INITIAL_BACKOFF_MS = 1000"
definition MAX_CLIENT_TEXT_BYTES :: nat where "MAX_CLIENT_TEXT_BYTES = 1024 * 1024"

text \<open>What a connection has received since its last flush.\<close>

record pending =
  pd_text :: string
  pd_snapshot :: "(string \<times> bool) option"
  pd_truncated :: bool
  pd_ended :: bool

definition no_pending :: pending where
  "no_pending = \<lparr>pd_text = [], pd_snapshot = None, pd_truncated = False, pd_ended = False\<rparr>"

text \<open>The part of the hook's state the page sees.\<close>

record LiveRunLogsState =
  ll_text :: string
  ll_version :: nat
  ll_truncated :: bool
  ll_ended :: bool
  ll_connected :: bool

text \<open>The variables of the effect: the generation, whether it is still mounted, the delay before the
  next attempt, whether an attempt is scheduled or under way, and the connection whose flush is
  scheduled for the next frame.\<close>

record ws_hook = LiveRunLogsState +
  wh_generation :: nat
  wh_mounted :: bool
  wh_backoff :: nat
  wh_timer :: bool
  wh_connecting :: bool
  wh_raf :: "nat option"
  wh_conns :: "(nat \<times> pending) list"
  wh_next :: nat

definition ws_init :: ws_hook where
  "ws_init = \<lparr>ll_text = [], ll_version = 0, ll_truncated = False, ll_ended = False, ll_connected = False,
     wh_generation = 0, wh_mounted = False, wh_backoff = INITIAL_BACKOFF_MS, wh_timer = False,
     wh_connecting = False, wh_raf = None, wh_conns = [], wh_next = 0\<rparr>"

definition pending_of :: "ws_hook \<Rightarrow> nat \<Rightarrow> pending" where
  "pending_of s c = (case map_of (wh_conns s) c of None \<Rightarrow> no_pending | Some p \<Rightarrow> p)"

text \<open>The address: \<open>http:\<close> becomes \<open>ws:\<close>, \<open>https:\<close> becomes \<open>wss:\<close>.\<close>

definition replace_prefix :: "string \<Rightarrow> string \<Rightarrow> string \<Rightarrow> string" where
  "replace_prefix old new s = (if prefix old s then new @ drop (length old) s else s)"

definition ws_url :: "string \<Rightarrow> string \<Rightarrow> string" where
  "ws_url baseUrl runId =
     replace_prefix ''https:'' ''wss:'' (replace_prefix ''http:'' ''ws:'' baseUrl) @
     ''/api/v1/index/live_runs/'' @ encodeURIComponent runId @ ''/logs/ws''"


section \<open>Flushing\<close>

text \<open>The cap on the client side: from the first line that starts after the overflow.\<close>

definition trim_text :: "nat \<Rightarrow> string \<Rightarrow> string" where
  "trim_text cap text =
     (let overflow = length text - cap
      in case index_of (CHR 0x0A) (drop overflow text) of
           Some i \<Rightarrow> drop (overflow + i + 1) text
         | None \<Rightarrow> drop overflow text)"

definition apply_pending :: "pending \<Rightarrow> LiveRunLogsState \<Rightarrow> LiveRunLogsState" where
  "apply_pending p v =
     (let v1 = (case pd_snapshot p of
                  None \<Rightarrow> v
                | Some (t, tr) \<Rightarrow> v\<lparr>ll_text := t, ll_truncated := tr\<rparr>);
          v2 = v1\<lparr>ll_text := ll_text v1 @ pd_text p\<rparr>;
          v3 = (if length (ll_text v2) > MAX_CLIENT_TEXT_BYTES
                then v2\<lparr>ll_text := trim_text MAX_CLIENT_TEXT_BYTES (ll_text v2), ll_truncated := True\<rparr>
                else v2);
          v4 = (if pd_truncated p then v3\<lparr>ll_truncated := True\<rparr> else v3);
          v5 = (if pd_ended p then v4\<lparr>ll_ended := True\<rparr> else v4)
      in v5\<lparr>ll_version := ll_version v5 + 1\<rparr>)"

definition put_view :: "LiveRunLogsState \<Rightarrow> ws_hook \<Rightarrow> ws_hook" where
  "put_view v s = s\<lparr>ll_text := ll_text v, ll_version := ll_version v, ll_truncated := ll_truncated v,
     ll_ended := ll_ended v, ll_connected := ll_connected v\<rparr>"

abbreviation view_of :: "ws_hook \<Rightarrow> LiveRunLogsState" where
  "view_of s \<equiv> LiveRunLogsState.truncate s"

definition flushPending :: "nat \<Rightarrow> ws_hook \<Rightarrow> ws_hook" where
  "flushPending c s =
     put_view (apply_pending (pending_of s c) (view_of s))
       (s\<lparr>wh_raf := None, wh_conns := map_set c no_pending (wh_conns s)\<rparr>)"

fun collect_message :: "LogsMessage \<Rightarrow> pending \<Rightarrow> pending option" where
  "collect_message (Snapshot t tr) p =
     Some (p\<lparr>pd_text := [], pd_snapshot := Some (case t of None \<Rightarrow> [] | Some x \<Rightarrow> x, tr = Some True)\<rparr>)"
| "collect_message (LogText t) p = Some (p\<lparr>pd_text := pd_text p @ (case t of None \<Rightarrow> [] | Some x \<Rightarrow> x)\<rparr>)"
| "collect_message TruncatedMsg p = Some (p\<lparr>pd_truncated := True\<rparr>)"
| "collect_message RunEnded p = Some (p\<lparr>pd_ended := True\<rparr>)"
| "collect_message OtherMsg p = None"


section \<open>Steps\<close>

text \<open>Callbacks carry the generation they were created in. \<open>ConfigLoaded\<close> tells whether the
  configuration names an API.\<close>

datatype ws_event =
    StartEffect
  | StopEffect
  | ConfigLoaded nat bool
  | WsOpen nat nat
  | WsMessage nat nat "LogsMessage option"
  | WsClose nat nat
  | TimerFired nat
  | Frame

fun ws_step :: "ws_hook \<Rightarrow> ws_event \<Rightarrow> ws_hook" where
  "ws_step s StartEffect =
     s\<lparr>ll_text := [], ll_version := ll_version s + 1, ll_truncated := False, ll_ended := False,
       ll_connected := False, wh_generation := wh_generation s + 1, wh_mounted := True,
       wh_backoff := INITIAL_BACKOFF_MS, wh_timer := False, wh_connecting := True, wh_raf := None,
       wh_conns := []\<rparr>"
| "ws_step s StopEffect = s\<lparr>wh_mounted := False, wh_raf := None, wh_timer := False\<rparr>"
| "ws_step s (ConfigLoaded g has_api) =
     (if g \<noteq> wh_generation s \<or> \<not> wh_mounted s \<or> \<not> wh_connecting s then s
      else if \<not> has_api then s\<lparr>wh_connecting := False\<rparr>
      else s\<lparr>wh_connecting := False, wh_conns := wh_conns s @ [(wh_next s, no_pending)],
             wh_next := wh_next s + 1\<rparr>)"
| "ws_step s (WsOpen g c) =
     (if g \<noteq> wh_generation s then s else s\<lparr>wh_backoff := INITIAL_BACKOFF_MS, ll_connected := True\<rparr>)"
| "ws_step s (WsMessage g c data) =
     (if g \<noteq> wh_generation s then s
      else case data of
             None \<Rightarrow> s
           | Some msg \<Rightarrow>
               (case collect_message msg (pending_of s c) of
                  None \<Rightarrow> s
                | Some p \<Rightarrow>
                    s\<lparr>wh_conns := map_set c p (wh_conns s),
                      wh_raf := (case wh_raf s of None \<Rightarrow> Some c | Some r \<Rightarrow> Some r)\<rparr>))"
| "ws_step s (WsClose g c) =
     (if g \<noteq> wh_generation s then s
      else if \<not> wh_mounted s then s\<lparr>ll_connected := False\<rparr>
      else s\<lparr>ll_connected := False, wh_timer := True,
             wh_backoff := min (wh_backoff s * 2) MAX_BACKOFF_MS\<rparr>)"
| "ws_step s (TimerFired g) =
     (if g \<noteq> wh_generation s \<or> \<not> wh_mounted s \<or> \<not> wh_timer s then s
      else s\<lparr>wh_timer := False, wh_connecting := True\<rparr>)"
| "ws_step s Frame = (case wh_raf s of None \<Rightarrow> s | Some c \<Rightarrow> flushPending c s)"

section \<open>Lemmas\<close>

lemma trim_text_suffix: "suffix (trim_text cap t) t"
  by (simp add: trim_text_def Let_def suffix_drop split: option.split)

lemma length_trim_text: "cap < length t \<Longrightarrow> length (trim_text cap t) \<le> cap"
  by (auto simp: trim_text_def Let_def split: option.split)

lemma pending_of_set [simp]: "pending_of (s\<lparr>wh_conns := map_set c p m\<rparr>) c = p"
  by (simp add: pending_of_def jm.get_put_same)

definition shown_text :: "pending \<Rightarrow> string \<Rightarrow> string" where
  "shown_text p text = (case pd_snapshot p of None \<Rightarrow> text | Some (t, tr) \<Rightarrow> t) @ pd_text p"

lemma apply_pending_text:
  "ll_text (apply_pending p v) =
     (let t = shown_text p (ll_text v)
      in if length t > MAX_CLIENT_TEXT_BYTES then trim_text MAX_CLIENT_TEXT_BYTES t else t)"
  by (simp add: apply_pending_def shown_text_def Let_def split: option.split)

lemma apply_pending_truncated:
  "ll_truncated (apply_pending p v) \<longleftrightarrow>
     pd_truncated p \<or> length (shown_text p (ll_text v)) > MAX_CLIENT_TEXT_BYTES \<or>
     (case pd_snapshot p of None \<Rightarrow> ll_truncated v | Some (t, tr) \<Rightarrow> tr)"
  by (simp add: apply_pending_def shown_text_def Let_def split: option.split)

lemma apply_pending_ended: "ll_ended (apply_pending p v) \<longleftrightarrow> pd_ended p \<or> ll_ended v"
  by (simp add: apply_pending_def Let_def split: option.split)

lemma apply_pending_length: "length (ll_text (apply_pending p v)) \<le> MAX_CLIENT_TEXT_BYTES"
  by (simp add: apply_pending_text Let_def length_trim_text)

lemma flush_view:
  "ll_text (flushPending c s) = ll_text (apply_pending (pending_of s c) (view_of s))"
  "ll_truncated (flushPending c s) = ll_truncated (apply_pending (pending_of s c) (view_of s))"
  "ll_ended (flushPending c s) = ll_ended (apply_pending (pending_of s c) (view_of s))"
  "pending_of (flushPending c s) c = no_pending" "wh_raf (flushPending c s) = None"
  "wh_generation (flushPending c s) = wh_generation s" "wh_backoff (flushPending c s) = wh_backoff s"
  by (simp_all add: flushPending_def put_view_def pending_of_def jm.get_put_same)

lemma view_of_simps [simp]: "ll_text (view_of s) = ll_text s" "ll_truncated (view_of s) = ll_truncated s"
  "ll_ended (view_of s) = ll_ended s"
  by (simp_all add: LiveRunLogsState.truncate_def)

text \<open>The bounds every callback keeps.\<close>

definition ws_bounds :: "ws_hook \<Rightarrow> bool" where
  "ws_bounds s \<longleftrightarrow> length (ll_text s) \<le> MAX_CLIENT_TEXT_BYTES \<and>
     INITIAL_BACKOFF_MS \<le> wh_backoff s \<and> wh_backoff s \<le> MAX_BACKOFF_MS"

lemmas backoff_defs = INITIAL_BACKOFF_MS_def MAX_BACKOFF_MS_def

interpretation ws: machine ws_step "\<lambda>_. True" ws_bounds
proof
  fix s e
  assume inv: "ws_bounds s"
  show "ws_bounds (ws_step s e)"
    using inv apply_pending_length
    by (cases e) (auto simp: ws_bounds_def backoff_defs flush_view split: option.split)
qed

lemma ws_bounds_init: "ws_bounds ws_init"
  by (simp add: ws_bounds_def ws_init_def backoff_defs)

text \<open>What the server has sent to the effect of generation \<open>g\<close>: the messages of all its connections
  that are readable, of which a snapshot replaces the text and a chunk extends it.\<close>

fun messages_of :: "nat \<Rightarrow> ws_event \<Rightarrow> LogsMessage list" where
  "messages_of g (WsMessage g' c (Some m)) = (if g' = g then [m] else [])"
| "messages_of g e = []"

fun sent_text :: "string \<Rightarrow> LogsMessage \<Rightarrow> string" where
  "sent_text sent (Snapshot t tr) = (case t of None \<Rightarrow> [] | Some x \<Rightarrow> x)"
| "sent_text sent (LogText t) = sent @ (case t of None \<Rightarrow> [] | Some x \<Rightarrow> x)"
| "sent_text sent m = sent"

definition server_messages :: "nat \<Rightarrow> ws_event list \<Rightarrow> LogsMessage list" where
  "server_messages g es = concat (map (messages_of g) es)"

definition server_text :: "nat \<Rightarrow> ws_event list \<Rightarrow> string" where
  "server_text g es = foldl sent_text [] (server_messages g es)"

text \<open>What happens while the effect is mounted: connections open, send, close and are replaced, timers
  fire, frames come, and callbacks of earlier effects come late.\<close>

fun within_effect :: "ws_event \<Rightarrow> bool" where
  "within_effect StartEffect = False"
| "within_effect StopEffect = False"
| "within_effect e = True"

text \<open>No connection sends while the flush another one asked for is still to come: the browser shows
  a frame between the last message of a connection and the first of the one that replaces it.\<close>

fun frames_between :: "nat \<Rightarrow> nat option \<Rightarrow> ws_event list \<Rightarrow> bool" where
  "frames_between g w [] = True"
| "frames_between g w (WsMessage g' c (Some m) # es) =
     (if g' \<noteq> g \<or> m = OtherMsg then frames_between g w es
      else (w = None \<or> w = Some c) \<and> frames_between g (Some c) es)"
| "frames_between g w (Frame # es) = frames_between g None es"
| "frames_between g w (e # es) = frames_between g w es"

text \<open>The relation between the hook and what was sent to its effect: only the connection whose flush
  is scheduled holds messages that are not shown yet.\<close>

abbreviation scheduled :: "ws_hook \<Rightarrow> pending" where
  "scheduled s \<equiv> (case wh_raf s of None \<Rightarrow> no_pending | Some c \<Rightarrow> pending_of s c)"

definition agrees :: "pending \<Rightarrow> string \<Rightarrow> bool \<Rightarrow> bool \<Rightarrow> string \<Rightarrow> bool \<Rightarrow> bool" where
  "agrees p text trunc ended sent over \<longleftrightarrow>
     (case pd_snapshot p of
        Some (t, tr) \<Rightarrow> t @ pd_text p = sent
      | None \<Rightarrow> suffix (text @ pd_text p) sent \<and> (trunc \<or> text @ pd_text p = sent)) \<and>
     (over \<longleftrightarrow> ended \<or> pd_ended p)"

definition tracks :: "nat \<Rightarrow> string \<Rightarrow> bool \<Rightarrow> ws_hook \<Rightarrow> bool" where
  "tracks g sent over s \<longleftrightarrow> wh_generation s = g \<and>
     (\<forall>c. wh_raf s \<noteq> Some c \<longrightarrow> pending_of s c = no_pending) \<and>
     agrees (scheduled s) (ll_text s) (ll_truncated s) (ll_ended s) sent over"

lemma tracks_suffix:
  "tracks g sent over s \<Longrightarrow> suffix (shown_text (scheduled s) (ll_text s)) sent \<and>
     (shown_text (scheduled s) (ll_text s) = sent \<or>
      ll_truncated s \<and> pd_snapshot (scheduled s) = None)"
  by (auto simp: tracks_def agrees_def shown_text_def split: option.splits)

lemma pending_of_put: "pending_of (s\<lparr>wh_conns := map_set c p m\<rparr>) c' =
    (if c' = c then p else pending_of (s\<lparr>wh_conns := m\<rparr>) c')"
  by (simp add: pending_of_def jm.get_put_same jm.get_put_other)

lemma pending_of_flush: "pending_of (flushPending c s) c' = (if c' = c then no_pending else pending_of s c')"
  by (simp add: flushPending_def put_view_def pending_of_def jm.get_put_same jm.get_put_other)

lemma tracks_flush:
  assumes "tracks g sent over s" and raf: "wh_raf s = Some c"
  shows "tracks g sent over (flushPending c s)"
proof -
  let ?p = "pending_of s c"
  let ?t = "shown_text ?p (ll_text s)"
  have gen: "wh_generation s = g" and ended: "over \<longleftrightarrow> ll_ended s \<or> pd_ended ?p"
    and rest: "\<And>c'. c' \<noteq> c \<Longrightarrow> pending_of s c' = no_pending"
    using assms by (simp_all add: tracks_def agrees_def)
  have suf: "suffix ?t sent" using tracks_suffix [OF assms(1)] raf by simp
  have "suffix (ll_text (flushPending c s)) ?t"
    by (simp add: flush_view apply_pending_text Let_def trim_text_suffix)
  then have 1: "suffix (ll_text (flushPending c s)) sent" using suf by (rule suffix_order.trans)
  have 2: "ll_truncated (flushPending c s) \<or> ll_text (flushPending c s) = sent"
    using tracks_suffix [OF assms(1)] raf
    by (auto simp: flush_view apply_pending_text apply_pending_truncated Let_def)
  show ?thesis
    using 1 2 gen ended rest
    by (auto simp: tracks_def agrees_def flush_view pending_of_flush apply_pending_ended no_pending_def)
qed

lemma tracks_frame: "tracks g sent over s \<Longrightarrow> tracks g sent over (ws_step s Frame)"
  using tracks_flush by (cases "wh_raf s") auto

text \<open>Everything but messages and frames leaves the text and what is collected alone.\<close>

lemma tracks_silent:
  assumes "tracks g sent over s" and "wh_generation s' = wh_generation s" and "wh_raf s' = wh_raf s"
    and "\<And>c. pending_of s' c = pending_of s c" and "ll_text s' = ll_text s"
    and "ll_truncated s' = ll_truncated s" and "ll_ended s' = ll_ended s"
  shows "tracks g sent over s'"
proof -
  have sch: "scheduled s' = scheduled s" using assms(3,4) by (simp split: option.split)
  show ?thesis
    using assms(1) unfolding tracks_def sch assms(2-7) .
qed

lemma pending_of_update [simp]:
  "pending_of (s\<lparr>wh_timer := a\<rparr>) c = pending_of s c" "pending_of (s\<lparr>wh_connecting := a\<rparr>) c = pending_of s c"
  "pending_of (s\<lparr>ll_connected := a\<rparr>) c = pending_of s c" "pending_of (s\<lparr>wh_backoff := b\<rparr>) c = pending_of s c"
  "pending_of (s\<lparr>wh_next := b\<rparr>) c = pending_of s c"
  by (simp_all add: pending_of_def)

lemma pending_of_new [simp]:
  "pending_of (s\<lparr>wh_connecting := a, wh_conns := wh_conns s @ [(n, no_pending)]\<rparr>) c = pending_of s c"
  by (simp add: pending_of_def map_add_def split: option.split)

lemma tracks_put:
  assumes "tracks g sent over s" and "wh_raf s = None \<or> wh_raf s = Some c"
    and p: "collect_message m (scheduled s) = Some p"
  shows "tracks g (sent_text sent m) (over \<or> m = RunEnded)
    (s\<lparr>wh_conns := map_set c p (wh_conns s), wh_raf := Some c\<rparr>)" (is "tracks _ _ _ ?s")
proof -
  have rest: "\<forall>c'. Some c \<noteq> Some c' \<longrightarrow> pending_of ?s c' = no_pending"
    using assms(1,2) by (auto simp: tracks_def pending_of_def jm.get_put_other)
  have sch: "scheduled ?s = p" by (simp add: pending_of_def jm.get_put_same)
  have app: "suffix (ll_text s @ q) sent \<Longrightarrow> suffix (ll_text s @ q @ y) (sent @ y)" for q y
    by (metis append_assoc suffix_def)
  have "agrees (scheduled s) (ll_text s) (ll_truncated s) (ll_ended s) sent over"
    using assms(1) by (simp add: tracks_def)
  then have "agrees p (ll_text s) (ll_truncated s) (ll_ended s) (sent_text sent m) (over \<or> m = RunEnded)"
    using p app by (cases m) (auto simp: agrees_def split: option.splits)
  then show ?thesis
    using assms(1) rest unfolding tracks_def sch by simp
qed

lemma tracks_message:
  assumes "tracks g sent over s" and "wh_raf s = None \<or> wh_raf s = Some c" and "m \<noteq> OtherMsg"
  shows "tracks g (sent_text sent m) (over \<or> m = RunEnded) (ws_step s (WsMessage g c (Some m)))"
proof -
  have gen: "wh_generation s = g" using assms(1) by (simp add: tracks_def)
  have p: "scheduled s = pending_of s c" using assms(1,2) by (auto simp: tracks_def)
  obtain q where q: "collect_message m (pending_of s c) = Some q" using assms(3) by (cases m) auto
  have "ws_step s (WsMessage g c (Some m)) = s\<lparr>wh_conns := map_set c q (wh_conns s), wh_raf := Some c\<rparr>"
    using gen q assms(2) by (auto split: option.split)
  then show ?thesis using tracks_put [OF assms(1,2)] q p by simp
qed

lemma tracks_step:
  assumes "tracks g sent over s" and "within_effect e" and "frames_between g (wh_raf s) [e]"
  shows "tracks g (foldl sent_text sent (messages_of g e)) (over \<or> RunEnded \<in> set (messages_of g e))
    (ws_step s e)"
proof (cases e)
  case (WsMessage g' c d)
  have gen: "wh_generation s = g" using assms(1) by (simp add: tracks_def)
  consider m where "g' = g" "d = Some m" "m \<noteq> OtherMsg" | "messages_of g e = []" "ws_step s e = s"
    | "messages_of g e = [OtherMsg]" "ws_step s e = s"
  proof (cases "g' = g \<and> d \<noteq> None \<and> d \<noteq> Some OtherMsg")
    case True
    then show ?thesis using that(1) by blast
  next
    case False
    then show ?thesis using that(2,3) gen WsMessage by (cases d; cases "g' = g") auto
  qed
  then show ?thesis
  proof cases
    case (1 m)
    then have "wh_raf s = None \<or> wh_raf s = Some c" using assms(3) WsMessage by simp
    from tracks_message [OF assms(1) this 1(3)] show ?thesis using WsMessage 1
      by (simp add: eq_commute del: ws_step.simps)
  qed (use assms(1) in \<open>simp_all del: ws_step.simps\<close>)
next
  case Frame
  then show ?thesis using tracks_frame [OF assms(1)] by (simp del: ws_step.simps)
qed (use assms(1,2) in \<open>auto intro!: tracks_silent [OF assms(1)]\<close>)

lemma frames_between_Cons:
  "wh_generation s = g \<Longrightarrow> frames_between g (wh_raf s) (e # es) \<Longrightarrow> within_effect e \<Longrightarrow>
     frames_between g (wh_raf s) [e] \<and> frames_between g (wh_raf (ws_step s e)) es"
proof (cases e)
  case (WsMessage g' c d)
  assume "wh_generation s = g" "frames_between g (wh_raf s) (e # es)"
  then show ?thesis using WsMessage
    by (cases d; cases "the d") (auto split: option.splits)
qed (auto simp: flush_view split: option.split)

lemma tracks_run:
  "tracks g sent over s \<Longrightarrow> list_all within_effect es \<Longrightarrow> frames_between g (wh_raf s) es \<Longrightarrow>
   tracks g (foldl sent_text sent (server_messages g es))
     (over \<or> RunEnded \<in> set (server_messages g es)) (run ws_step s es)"
proof (induction es arbitrary: s sent over)
  case (Cons e es)
  have gen: "wh_generation s = g" using Cons.prems(1) by (simp add: tracks_def)
  have within: "within_effect e" "list_all within_effect es" using Cons.prems(2) by simp_all
  note frames = frames_between_Cons [OF gen Cons.prems(3) within(1)]
  from Cons.IH [OF tracks_step [OF Cons.prems(1) within(1)] within(2)] frames
  show ?case by (simp add: server_messages_def disj_assoc)
qed (simp add: server_messages_def)

lemma tracks_start: "tracks (wh_generation s + 1) [] False (ws_step s StartEffect)"
  by (simp add: tracks_def agrees_def pending_of_def no_pending_def)


section \<open>Properties\<close>

text \<open>C7: The page shows what the server sent, over a whole session. An effect starts, whatever was
  shown before; then anything may happen while it is mounted: connections open, send, close and are
  replaced after the delay, frames come, unreadable messages and callbacks of earlier effects arrive.
  The one condition is that the browser shows a frame between the last message of a connection and
  the first message of the next one (\<open>frames_between\<close>; a hidden page gets no frames, and
  \<open>replaced_connection_not_flushed\<close> shows what it misses then). After a frame, the text is the end
  of the text sent over all connections of the effect (the last snapshot and the chunks after it),
  complete unless the log is marked as truncated, and the run counts as ended exactly when the
  server said so on one of them.\<close>

theorem live_log_shows_server_text:
  assumes "g = wh_generation s + 1" and "list_all within_effect es" and "frames_between g None es"
    and "s' = run ws_step s (StartEffect # es @ [Frame])"
  shows "suffix (ll_text s') (server_text g es) \<and>
    (ll_truncated s' \<or> ll_text s' = server_text g es) \<and>
    (ll_ended s' \<longleftrightarrow> RunEnded \<in> set (server_messages g es))"
proof -
  define s2 where "s2 = run ws_step (ws_step s StartEffect) es"
  have t: "tracks g (server_text g es) (RunEnded \<in> set (server_messages g es)) s2"
    using tracks_run [OF tracks_start, of es s] assms(1-3) by (simp add: s2_def server_text_def)
  have s': "s' = ws_step s2 Frame" by (simp add: assms(4) s2_def del: ws_step.simps)
  have "tracks g (server_text g es) (RunEnded \<in> set (server_messages g es)) s'"
    using tracks_frame [OF t] s' by simp
  moreover have "wh_raf s' = None" by (auto simp: s' flush_view split: option.split)
  ultimately show ?thesis by (auto simp: tracks_def agrees_def no_pending_def)
qed

theorem live_log_shows_server_text_witness:
  "suffix (ll_text (run ws_step ws_init (StartEffect # 
      [ConfigLoaded 1 True, WsOpen 1 0, WsMessage 1 0 (Some (Snapshot (Some ''a'') None)), Frame,
       WsMessage 1 0 (Some (LogText (Some ''b''))), WsClose 1 0, Frame, TimerFired 1, ConfigLoaded 1 True,
       WsOpen 1 1, WsMessage 1 1 (Some (Snapshot (Some ''ab'') None)), WsMessage 1 1 None,
       WsMessage 1 1 (Some (LogText (Some ''c''))), WsMessage 1 1 (Some RunEnded)] @ [Frame])))
    ''abc''"
  using live_log_shows_server_text [of 1 ws_init
      "[ConfigLoaded 1 True, WsOpen 1 0, WsMessage 1 0 (Some (Snapshot (Some ''a'') None)), Frame,
       WsMessage 1 0 (Some (LogText (Some ''b''))), WsClose 1 0, Frame, TimerFired 1, ConfigLoaded 1 True,
       WsOpen 1 1, WsMessage 1 1 (Some (Snapshot (Some ''ab'') None)), WsMessage 1 1 None,
       WsMessage 1 1 (Some (LogText (Some ''c''))), WsMessage 1 1 (Some RunEnded)]", OF _ _ _ refl]
  by (simp add: ws_init_def server_text_def server_messages_def del: ws_step.simps)

text \<open>In every state the callbacks can reach, in any order, the text stays within the cap of the
  client and the delay before the next attempt between one and thirty seconds.\<close>

theorem live_log_bounds:
  "length (ll_text (run ws_step ws_init es)) \<le> 1048576 \<and>
   1000 \<le> wh_backoff (run ws_step ws_init es) \<and> wh_backoff (run ws_step ws_init es) \<le> 30000"
  using ws.inv_run [OF ws_bounds_init, of es]
  by (simp add: ws_bounds_def backoff_defs MAX_CLIENT_TEXT_BYTES_def list_all_iff)

text \<open>Callbacks of an earlier generation change nothing.\<close>

lemma stale_generation:
  "g \<noteq> wh_generation s \<Longrightarrow>
   ws_step s (WsMessage g c d) = s \<and> ws_step s (WsOpen g c) = s \<and> ws_step s (WsClose g c) = s \<and>
   ws_step s (ConfigLoaded g b) = s \<and> ws_step s (TimerFired g) = s"
  by simp

text \<open>The scheduled frame belongs to the connection that asked for it. When a connection is replaced
  before its frame came (a hidden page gets no frames), the messages of the new one are
  collected but no frame is scheduled for them: a final snapshot stays invisible.\<close>

lemma replaced_connection_not_flushed:
  fixes es
  defines "es \<equiv> [StartEffect, ConfigLoaded 1 True, WsMessage 1 0 (Some (LogText (Some ''a''))), WsClose 1 0,
     TimerFired 1, ConfigLoaded 1 True, WsMessage 1 1 (Some (Snapshot (Some ''b'') None)),
     WsMessage 1 1 (Some RunEnded), Frame]"
  shows "ll_text (run ws_step ws_init es) = ''a'' \<and> \<not> ll_ended (run ws_step ws_init es) \<and>
    wh_raf (run ws_step ws_init es) = None"
  unfolding es_def
  by (simp add: ws_init_def flushPending_def put_view_def apply_pending_def pending_of_def no_pending_def
      MAX_CLIENT_TEXT_BYTES_def Let_def LiveRunLogsState.truncate_def)

end
