(* ===== verification/Step_Metrics.thy ===== *)
theory Step_Metrics
  imports Api_Types
begin

text \<open>
  Metrics over the steps of a test: the payload times of \<open>ui/src/utils/payloadTime.ts\<close> and the
  resource totals of \<open>ui/src/utils/resourceStep.ts\<close>.
\<close>

section \<open>Payload times\<close>

definition PAYLOAD_METHOD :: string where
  "PAYLOAD_METHOD = ''newPayload''"

record PayloadTimes =
  pt_totalNs :: real
  pt_maxNs :: real
  pt_count :: real

definition no_payload :: PayloadTimes where
  "no_payload = \<lparr>pt_totalNs = 0, pt_maxNs = 0, pt_count = 0\<rparr>"

definition step_aggregated :: "step_result steps \<Rightarrow> step_type \<Rightarrow> aggregated_stats option" where
  "step_aggregated ss t = (case step_get ss t of None \<Rightarrow> None | Some r \<Rightarrow> sr_aggregated r)"

text \<open>\<open>stats.max ?? stats.last\<close>.\<close>

definition slowest :: "method_stats \<Rightarrow> real" where
  "slowest stats = (case ms_max stats of Some m \<Rightarrow> m | None \<Rightarrow> ms_last stats)"

definition add_method :: "string \<times> method_stats \<Rightarrow> PayloadTimes \<Rightarrow> PayloadTimes" where
  "add_method p acc =
     (let (name, stats) = p
      in if \<not> str_includes name PAYLOAD_METHOD then acc
         else acc\<lparr>pt_count := pt_count acc + ms_count stats,
                  pt_maxNs := max (pt_maxNs acc) (slowest stats)\<rparr>)"

definition add_step_payloads :: "step_result steps \<Rightarrow> step_type \<Rightarrow> PayloadTimes \<Rightarrow> PayloadTimes" where
  "add_step_payloads ss t acc =
     (case step_aggregated ss t of
        None \<Rightarrow> acc
      | Some a \<Rightarrow>
          fold add_method (ag_times a) (acc\<lparr>pt_totalNs := pt_totalNs acc + gas_used_time_total a\<rparr>))"

definition getPayloadTimes :: "test_entry \<Rightarrow> step_type list \<Rightarrow> PayloadTimes" where
  "getPayloadTimes entry stepFilter =
     (case te_steps entry of
        None \<Rightarrow> no_payload
      | Some ss \<Rightarrow>
          let r = fold (add_step_payloads ss) stepFilter no_payload
          in if pt_count r = 0
             then \<lparr>pt_totalNs = pt_totalNs r, pt_maxNs = pt_totalNs r,
                   pt_count = (if pt_totalNs r > 0 then 1 else 0)\<rparr>
             else r)"


section \<open>Resources per step\<close>

datatype ResourceStep = SumSteps | SetupOnly | TestOnly

definition DEFAULT_RESOURCE_STEP :: ResourceStep where
  "DEFAULT_RESOURCE_STEP = TestOnly"

definition RESOURCE_STEP_OPTIONS :: "(ResourceStep \<times> string) list" where
  "RESOURCE_STEP_OPTIONS = [(SumSteps, ''Sum''), (SetupOnly, ''Setup''), (TestOnly, ''Test'')]"

fun resourceStepKeys :: "ResourceStep \<Rightarrow> step_type list" where
  "resourceStepKeys SetupOnly = [Setup]"
| "resourceStepKeys TestOnly = [Test]"
| "resourceStepKeys SumSteps = [Setup, Test, Cleanup]"

record StepResource =
  sr_resourceTotals :: "resource_totals option"
  sr_timeTotalNs :: "real option"

record AggregatedResource =
  ar_totals :: resource_totals
  ar_timeTotalNs :: real
  ar_memoryBytes :: real

definition opt_zero :: "real option \<Rightarrow> real" where
  "opt_zero x = (case x of None \<Rightarrow> 0 | Some r \<Rightarrow> r)"

text \<open>The accumulator of the loop.\<close>

record resource_acc =
  rx_hasData :: bool
  rx_totals :: resource_totals
  rx_timeTotalNs :: real
  rx_memory :: real

definition zero_resources :: resource_totals where
  "zero_resources = \<lparr>cpu_usec = 0, memory_delta_bytes = 0, memory_bytes = None, disk_read_bytes = 0,
     disk_write_bytes = 0, disk_read_iops = 0, disk_write_iops = 0\<rparr>"

definition empty_acc :: resource_acc where
  "empty_acc = \<lparr>rx_hasData = False, rx_totals = zero_resources, rx_timeTotalNs = 0, rx_memory = 0\<rparr>"

definition add_totals :: "resource_totals \<Rightarrow> resource_totals \<Rightarrow> resource_totals" where
  "add_totals t r = t\<lparr>cpu_usec := cpu_usec t + cpu_usec r,
     memory_delta_bytes := memory_delta_bytes t + memory_delta_bytes r,
     disk_read_bytes := disk_read_bytes t + disk_read_bytes r,
     disk_write_bytes := disk_write_bytes t + disk_write_bytes r,
     disk_read_iops := disk_read_iops t + disk_read_iops r,
     disk_write_iops := disk_write_iops t + disk_write_iops r\<rparr>"

definition add_resource :: "StepResource steps \<Rightarrow> step_type \<Rightarrow> resource_acc \<Rightarrow> resource_acc" where
  "add_resource ss key acc =
     (case step_get ss key of
        None \<Rightarrow> acc
      | Some entry \<Rightarrow>
          let acc1 = acc\<lparr>rx_timeTotalNs := rx_timeTotalNs acc + opt_zero (sr_timeTotalNs entry)\<rparr>
          in case sr_resourceTotals entry of
               None \<Rightarrow> acc1
             | Some res \<Rightarrow>
                 acc1\<lparr>rx_hasData := True, rx_totals := add_totals (rx_totals acc1) res,
                      rx_memory := (let m = opt_zero (memory_bytes res)
                                    in if m > rx_memory acc1 then m else rx_memory acc1)\<rparr>)"

definition aggregateResourceByStep :: "StepResource steps \<Rightarrow> ResourceStep \<Rightarrow> AggregatedResource option" where
  "aggregateResourceByStep ss step =
     (let acc = fold (add_resource ss) (resourceStepKeys step) empty_acc
      in if \<not> rx_hasData acc then None
         else Some \<lparr>ar_totals = (rx_totals acc)\<lparr>memory_bytes := Some (rx_memory acc)\<rparr>,
                    ar_timeTotalNs = rx_timeTotalNs acc, ar_memoryBytes = rx_memory acc\<rparr>)"


section \<open>Lemmas\<close>

text \<open>The payload calls the loops visit, as one list.\<close>

definition payload_calls :: "step_result steps \<Rightarrow> step_type list \<Rightarrow> method_stats list" where
  "payload_calls ss fs = concat (map (\<lambda>t. case step_aggregated ss t of None \<Rightarrow> []
     | Some a \<Rightarrow> map snd (filter (\<lambda>p. str_includes (fst p) PAYLOAD_METHOD) (ag_times a))) fs)"

definition gas_times :: "step_result steps \<Rightarrow> step_type list \<Rightarrow> real list" where
  "gas_times ss fs = concat (map (\<lambda>t. case step_aggregated ss t of None \<Rightarrow> [] | Some a \<Rightarrow> [gas_used_time_total a]) fs)"

lemma fold_add_method:
  "fold add_method ms acc =
     (let sel = map snd (filter (\<lambda>p. str_includes (fst p) PAYLOAD_METHOD) ms)
      in acc\<lparr>pt_count := pt_count acc + sum_list (map ms_count sel),
             pt_maxNs := fold max (map slowest sel) (pt_maxNs acc)\<rparr>)"
  by (induction ms arbitrary: acc)
    (auto simp: add_method_def Let_def max.commute split: prod.splits)

lemma fold_add_steps:
  "fold (add_step_payloads ss) fs acc =
     \<lparr>pt_totalNs = pt_totalNs acc + sum_list (gas_times ss fs),
      pt_maxNs = fold max (map slowest (payload_calls ss fs)) (pt_maxNs acc),
      pt_count = pt_count acc + sum_list (map ms_count (payload_calls ss fs))\<rparr>"
  by (induction fs arbitrary: acc)
    (auto simp: gas_times_def payload_calls_def add_step_payloads_def fold_add_method Let_def split: option.split)

lemma fold_max_ge: "(m :: real) \<le> fold max xs m \<and> (\<forall>x \<in> set xs. x \<le> fold max xs m)"
proof (induction xs arbitrary: m)
  case (Cons x xs)
  then show ?case by (smt (verit) fold_simps(2) set_ConsD max_def)
qed simp

lemma fold_max_in: "fold max xs (m :: real) \<in> insert m (set xs)"
  by (induction xs arbitrary: m) (auto simp: max_def)

lemma resource_acc_eq:
  "fold (add_resource ss) ks acc =
     (let es = List.map_filter (step_get ss) ks; rs = List.map_filter sr_resourceTotals es
      in \<lparr>rx_hasData = (rx_hasData acc \<or> rs \<noteq> []),
          rx_totals = fold (\<lambda>r t. add_totals t r) rs (rx_totals acc),
          rx_timeTotalNs = rx_timeTotalNs acc + sum_list (map (\<lambda>e. opt_zero (sr_timeTotalNs e)) es),
          rx_memory = fold max (map (\<lambda>r. opt_zero (memory_bytes r)) rs) (rx_memory acc)\<rparr>)"
  by (induction ks arbitrary: acc)
    (auto simp: add_resource_def List.map_filter_simps Let_def max_def split: option.splits)



section \<open>What the metrics mean\<close>

text \<open>The total is the sum of the gas times of the selected steps, the count and the maximum range
  over their payload calls; without payload statistics one call stands for the whole time.\<close>

lemma payload_times_sound:
  assumes "te_steps entry = Some ss" and "calls = payload_calls ss fs"
    and "n = sum_list (map ms_count calls)" and "r = getPayloadTimes entry fs"
  shows "pt_totalNs r = sum_list (gas_times ss fs) \<and>
    (if n = 0 then pt_maxNs r = pt_totalNs r
     else pt_count r = n \<and> (\<forall>m \<in> set calls. slowest m \<le> pt_maxNs r) \<and>
       pt_maxNs r \<in> insert 0 (slowest ` set calls))"
  using fold_max_ge [of 0 "map slowest calls"] fold_max_in [of "map slowest calls" 0] assms
  by (simp add: getPayloadTimes_def fold_add_steps no_payload_def Let_def)

definition step_resources :: "StepResource steps \<Rightarrow> ResourceStep \<Rightarrow> resource_totals list" where
  "step_resources ss step = List.map_filter sr_resourceTotals (List.map_filter (step_get ss) (resourceStepKeys step))"

lemma fold_add_totals:
  "cpu_usec (fold (\<lambda>r t. add_totals t r) rs t) = cpu_usec t + sum_list (map cpu_usec rs)"
  "memory_delta_bytes (fold (\<lambda>r t. add_totals t r) rs t) = memory_delta_bytes t + sum_list (map memory_delta_bytes rs)"
  "disk_read_bytes (fold (\<lambda>r t. add_totals t r) rs t) = disk_read_bytes t + sum_list (map disk_read_bytes rs)"
  "disk_write_bytes (fold (\<lambda>r t. add_totals t r) rs t) = disk_write_bytes t + sum_list (map disk_write_bytes rs)"
  "disk_read_iops (fold (\<lambda>r t. add_totals t r) rs t) = disk_read_iops t + sum_list (map disk_read_iops rs)"
  "disk_write_iops (fold (\<lambda>r t. add_totals t r) rs t) = disk_write_iops t + sum_list (map disk_write_iops rs)"
  by (induction rs arbitrary: t) (simp_all add: add_totals_def)

text \<open>The resource charts add up: there is data exactly when a selected step has totals; then
  the cumulative metrics are the sums over the selected steps and the memory is the largest
  snapshot among them (zero when none is positive).\<close>

theorem resources_add_up:
  "case aggregateResourceByStep ss step of
     None \<Rightarrow> step_resources ss step = []
   | Some a \<Rightarrow> step_resources ss step \<noteq> [] \<and>
       cpu_usec (ar_totals a) = sum_list (map cpu_usec (step_resources ss step)) \<and>
       memory_delta_bytes (ar_totals a) = sum_list (map memory_delta_bytes (step_resources ss step)) \<and>
       disk_read_bytes (ar_totals a) = sum_list (map disk_read_bytes (step_resources ss step)) \<and>
       disk_write_bytes (ar_totals a) = sum_list (map disk_write_bytes (step_resources ss step)) \<and>
       disk_read_iops (ar_totals a) = sum_list (map disk_read_iops (step_resources ss step)) \<and>
       disk_write_iops (ar_totals a) = sum_list (map disk_write_iops (step_resources ss step)) \<and>
       memory_bytes (ar_totals a) = Some (ar_memoryBytes a) \<and>
       ar_memoryBytes a = Max (insert 0 (set (map (\<lambda>r. opt_zero (memory_bytes r)) (step_resources ss step))))"
proof -
  let ?rs = "step_resources ss step"
  let ?ms = "map (\<lambda>r. opt_zero (memory_bytes r)) ?rs"
  have "fold max ?ms 0 = Max (insert 0 (set ?ms))"
    by (rule Max_eqI [symmetric]) (use fold_max_ge [of 0 ?ms] fold_max_in [of ?ms 0] in auto)
  then show ?thesis
    by (simp add: aggregateResourceByStep_def resource_acc_eq empty_acc_def zero_resources_def Let_def
        step_resources_def fold_add_totals)
qed

end
