(* ===== verification/Cpu_Topology.thy ===== *)
theory Cpu_Topology
  imports Api_Types
begin

text \<open>
  The layout of the host's CPUs (\<open>ui/src/utils/cpuTopology.ts\<close>): parsing a cpuset, grouping the
  logical CPUs into sockets, NUMA nodes and physical cores, and the summary line. The grouping
  builds objects that two maps share; the model keeps the cores in a store of their own, and the
  groups hold the keys of their cores.
\<close>

section \<open>Cpusets\<close>

definition int_range :: "int \<Rightarrow> int \<Rightarrow> int list" where
  "int_range a b = [a..b]"

text \<open>\<open>Number.isInteger\<close> with the value.\<close>

definition integer_of :: "jsnum \<Rightarrow> int option" where
  "integer_of x = (case x of Fin r \<Rightarrow> if of_int \<lfloor>r\<rfloor> = r then Some \<lfloor>r\<rfloor> else None | _ \<Rightarrow> None)"

definition add_cpus :: "string \<Rightarrow> int js_set \<Rightarrow> int js_set" where
  "add_cpus part ids =
     (let item = trim part
      in if item = [] then ids
         else let ps = split_on CHR ''-'' item;
                  a = integer_of (js_Number (ps ! 0));
                  b = (if length ps < 2 then a else integer_of (js_Number (ps ! 1)))
              in case a of
                   None \<Rightarrow> ids
                 | Some lo \<Rightarrow>
                     (case b of
                        None \<Rightarrow> ids
                      | Some hi \<Rightarrow> if hi < lo then ids else fold set_add (int_range lo hi) ids))"

definition parseCpuList :: "string option \<Rightarrow> int js_set" where
  "parseCpuList lst =
     (case lst of
        None \<Rightarrow> []
      | Some s \<Rightarrow> if s = [] then [] else fold add_cpus (split_on CHR '','' s) [])"


section \<open>Grouping\<close>

record PhysicalCore =
  pc_socket :: int
  pc_numa :: int
  pc_core :: int
  pc_threads :: "cpu_topology_entry list"

record CoreGroup =
  cg_socket :: int
  cg_numa :: int
  cg_cores :: "PhysicalCore list"

text \<open>A group under construction refers to its cores by their keys.\<close>

record group_refs =
  gf_socket :: int
  gf_numa :: int
  gf_cores :: "string list"

definition group_key :: "int \<Rightarrow> int \<Rightarrow> string" where
  "group_key s n = int_str s @ '':'' @ int_str n"

definition core_key :: "int \<Rightarrow> int \<Rightarrow> int \<Rightarrow> string" where
  "core_key s n c = group_key s n @ '':'' @ int_str c"

type_synonym core_store = "(string, PhysicalCore) js_map"
type_synonym group_map = "(string, group_refs) js_map"

definition add_cpu :: "cpu_topology_entry \<Rightarrow> group_map \<times> core_store \<Rightarrow> group_map \<times> core_store" where
  "add_cpu cpu st =
     (let (groups, cores) = st;
          gk = group_key (cpu_socket cpu) (cpu_numa cpu);
          grp = (case map_of groups gk of
                   Some g \<Rightarrow> g
                 | None \<Rightarrow> \<lparr>gf_socket = cpu_socket cpu, gf_numa = cpu_numa cpu, gf_cores = []\<rparr>);
          ck = core_key (cpu_socket cpu) (cpu_numa cpu) (cpu_core cpu);
          (grp', core) = (case map_of cores ck of
                   Some c \<Rightarrow> (grp, c)
                 | None \<Rightarrow> (grp\<lparr>gf_cores := gf_cores grp @ [ck]\<rparr>,
                     \<lparr>pc_socket = cpu_socket cpu, pc_numa = cpu_numa cpu, pc_core = cpu_core cpu, pc_threads = []\<rparr>))
      in (map_set gk grp' groups, map_set ck (core\<lparr>pc_threads := pc_threads core @ [cpu]\<rparr>) cores))"

text \<open>\<open>a.socket - b.socket || a.numa - b.numa\<close>.\<close>

definition group_cmp :: "CoreGroup \<Rightarrow> CoreGroup \<Rightarrow> jsnum" where
  "group_cmp a b =
     (if cg_socket a \<noteq> cg_socket b then Fin (of_int (cg_socket a - cg_socket b))
      else Fin (of_int (cg_numa a - cg_numa b)))"

definition sort_threads :: "PhysicalCore \<Rightarrow> PhysicalCore" where
  "sort_threads c = c\<lparr>pc_threads := js_sort (\<lambda>a b. Fin (of_int (cpu_id a - cpu_id b))) (pc_threads c)\<rparr>"

definition sort_cores :: "CoreGroup \<Rightarrow> CoreGroup" where
  "sort_cores g = g\<lparr>cg_cores :=
     map sort_threads (js_sort (\<lambda>a b. Fin (of_int (pc_core a - pc_core b))) (cg_cores g))\<rparr>"

definition deref_group :: "core_store \<Rightarrow> group_refs \<Rightarrow> CoreGroup" where
  "deref_group cores g = \<lparr>cg_socket = gf_socket g, cg_numa = gf_numa g,
     cg_cores = List.map_filter (map_of cores) (gf_cores g)\<rparr>"

definition groupCores :: "cpu_topology_entry list \<Rightarrow> CoreGroup list" where
  "groupCores topology =
     (let (groups, cores) = fold add_cpu topology ([], [])
      in map sort_cores (js_sort group_cmp (map (\<lambda>(k, g). deref_group cores g) groups)))"


section \<open>Summary\<close>

definition plural :: "nat \<Rightarrow> string \<Rightarrow> string" where
  "plural n u = nat_str n @ '' '' @ u @ (if n = 1 then [] else ''s'')"

definition used_threads :: "int js_set \<Rightarrow> PhysicalCore \<Rightarrow> nat" where
  "used_threads pinned c = length (filter (\<lambda>t. cpu_id t \<in> set pinned) (pc_threads c))"

definition cpuLayoutSummary :: "cpu_topology_entry list option \<Rightarrow> string option \<Rightarrow> string" where
  "cpuLayoutSummary topology cpuset =
     (case topology of
        None \<Rightarrow> []
      | Some [] \<Rightarrow> []
      | Some ts \<Rightarrow>
          let pinned = parseCpuList cpuset;
              cores = concat (map cg_cores (groupCores ts));
              sockets = length (js_set_of (map cpu_socket ts));
              nodes = length (js_set_of (map cpu_numa ts));
              hostThreadsPerCore = Max (set (map (length \<circ> pc_threads) cores))
          in if pinned = []
             then nat_str (length ts) @ '' threads on '' @ nat_str (length cores) @ '' physical cores ('' @
                  plural hostThreadsPerCore ''thread'' @ '' per core)'' @
                  (if sockets > 1 then '', '' @ nat_str sockets @ '' sockets'' else []) @
                  (if nodes > 1 then '', '' @ nat_str nodes @ '' NUMA nodes'' else [])
             else
               let usedCores = filter (\<lambda>c. used_threads pinned c > 0) cores;
                   used = map (used_threads pinned) usedCores;
                   usedThreads = sum_list used
               in if usedThreads = 0
                  then ''cpuset matches none of the '' @ nat_str (length ts) @ '' host threads''
                  else
                    let minUsed = Min (set used);
                        maxUsed = Max (set used);
                        perCore = (if minUsed = maxUsed then nat_str minUsed
                                   else nat_str minUsed @ ''-'' @ nat_str maxUsed);
                        usedSockets = length (js_set_of (map pc_socket usedCores));
                        usedNodes = length (js_set_of (map pc_numa usedCores))
                    in plural usedThreads ''thread'' @ '' on '' @ nat_str (length usedCores) @ '' of '' @
                       nat_str (length cores) @ '' physical cores ('' @ perCore @ '' of '' @
                       nat_str hostThreadsPerCore @ '' threads per core)'' @
                       (if sockets > 1 then '', '' @ nat_str usedSockets @ '' of '' @ nat_str sockets @ '' sockets'' else []) @
                       (if nodes > 1 then '', '' @ nat_str usedNodes @ '' of '' @ nat_str nodes @ '' NUMA nodes'' else []))"

section \<open>Lemmas\<close>

lemma int_str_chars: "c \<in> set (int_str i) \<Longrightarrow> is_digit c \<or> c = CHR ''-''"
  by (auto simp: int_str_def dest: nat_str_digits split: if_splits)

lemma int_str_free: "CHR '':'' \<notin> set (int_str i)"
  using int_str_chars [of "CHR '':''" i] by (auto simp: is_digit_def)

lemma minus_not_nat_str: "nat_str n \<noteq> CHR ''-'' # s"
  using nat_str_digits [of "CHR ''-''" n] by (auto simp: is_digit_def)

lemma int_str_inj [simp]: "int_str i = int_str j \<longleftrightarrow> i = j"
  using minus_not_nat_str [of "nat i"] minus_not_nat_str [of "nat j"]
    minus_not_nat_str [of "nat i", THEN not_sym] minus_not_nat_str [of "nat j", THEN not_sym]
  by (auto simp: int_str_def split: if_splits)

lemma split_group_key: "split_on CHR '':'' (group_key s n) = [int_str s, int_str n]"
  using split_on_append [OF int_str_free [of s], of "int_str n"]
  by (simp add: group_key_def split_on_free [OF int_str_free])

lemma split_core_key: "split_on CHR '':'' (core_key s n c) = [int_str s, int_str n, int_str c]"
proof -
  have "split_on CHR '':'' (int_str n @ CHR '':'' # int_str c) = [int_str n, int_str c]"
    using split_on_append [OF int_str_free [of n], of "int_str c"] by (simp add: split_on_free [OF int_str_free])
  then show ?thesis
    using split_on_append [OF int_str_free [of s], of "int_str n @ CHR '':'' # int_str c"]
    by (simp add: core_key_def group_key_def)
qed

lemma group_key_inj [simp]: "group_key s n = group_key s' n' \<longleftrightarrow> s = s' \<and> n = n'"
proof
  assume "group_key s n = group_key s' n'"
  then have "[int_str s, int_str n] = [int_str s', int_str n']"
    unfolding split_group_key [symmetric] by (rule arg_cong)
  then show "s = s' \<and> n = n'" by simp
qed simp

lemma core_key_inj [simp]: "core_key s n c = core_key s' n' c' \<longleftrightarrow> s = s' \<and> n = n' \<and> c = c'"
proof
  assume "core_key s n c = core_key s' n' c'"
  then have "[int_str s, int_str n, int_str c] = [int_str s', int_str n', int_str c']"
    unfolding split_core_key [symmetric] by (rule arg_cong)
  then show "s = s' \<and> n = n' \<and> c = c'" by simp
qed simp

text \<open>Maps keyed by an injective function of the elements of a set.\<close>

lemma map_of_keyed:
  "inj f \<Longrightarrow> map_of (map (\<lambda>x. (f x, g x)) ks) (f k) = (if k \<in> set ks then Some (g k) else None)"
  by (induction ks) (auto simp: inj_eq)

lemma map_set_keyed:
  "inj f \<Longrightarrow> distinct ks \<Longrightarrow>
   map_set (f k) v (map (\<lambda>x. (f x, g x)) ks) = map (\<lambda>x. (f x, if x = k then v else g x)) (set_add k ks)"
proof (induction ks)
  case (Cons x ks)
  then have "map (\<lambda>x. (f x, if x = k then v else g x)) ks = map (\<lambda>x. (f x, g x)) ks" if "x = k"
    using that by auto
  then show ?case using Cons by (auto simp: set_add_def inj_eq)
qed (simp add: set_add_def)

lemma js_set_of_snoc: "js_set_of (xs @ [x]) = set_add x (js_set_of xs)"
  by (simp add: js_set_of_def)

text \<open>The reference: the groups, the cores of a group, and the threads of a core, in the order in
  which they first occur.\<close>

definition group_of :: "cpu_topology_entry \<Rightarrow> int \<times> int" where
  "group_of t = (cpu_socket t, cpu_numa t)"

definition groups_in :: "cpu_topology_entry list \<Rightarrow> (int \<times> int) list" where
  "groups_in ts = js_set_of (map group_of ts)"

definition cores_in :: "cpu_topology_entry list \<Rightarrow> int \<times> int \<Rightarrow> int list" where
  "cores_in ts p = js_set_of (map cpu_core (filter (\<lambda>t. group_of t = p) ts))"

definition threads_in :: "cpu_topology_entry list \<Rightarrow> int \<times> int \<Rightarrow> int \<Rightarrow> cpu_topology_entry list" where
  "threads_in ts p c = filter (\<lambda>t. cpu_core t = c) (filter (\<lambda>t. group_of t = p) ts)"

definition core_in :: "cpu_topology_entry list \<Rightarrow> int \<times> int \<Rightarrow> int \<Rightarrow> PhysicalCore" where
  "core_in ts p c = \<lparr>pc_socket = fst p, pc_numa = snd p, pc_core = c, pc_threads = threads_in ts p c\<rparr>"

definition refs_in :: "cpu_topology_entry list \<Rightarrow> int \<times> int \<Rightarrow> group_refs" where
  "refs_in ts p = \<lparr>gf_socket = fst p, gf_numa = snd p, gf_cores = map (core_key (fst p) (snd p)) (cores_in ts p)\<rparr>"

definition all_cores :: "cpu_topology_entry list \<Rightarrow> ((int \<times> int) \<times> int) list" where
  "all_cores ts = js_set_of (map (\<lambda>t. (group_of t, cpu_core t)) ts)"

abbreviation gkey :: "int \<times> int \<Rightarrow> string" where
  "gkey p \<equiv> group_key (fst p) (snd p)"

abbreviation ckey :: "(int \<times> int) \<times> int \<Rightarrow> string" where
  "ckey q \<equiv> core_key (fst (fst q)) (snd (fst q)) (snd q)"

lemma inj_gkey: "inj gkey"
  by (auto intro!: injI prod_eqI)

lemma inj_ckey: "inj ckey"
  by (auto intro!: injI prod_eqI)

lemma cores_in_iff: "c \<in> set (cores_in ts p) \<longleftrightarrow> (p, c) \<in> set (all_cores ts)"
  by (auto simp: cores_in_def all_cores_def)

lemma cores_in_empty: "p \<notin> set (groups_in ts) \<Longrightarrow> cores_in ts p = []"
proof -
  assume "p \<notin> set (groups_in ts)"
  then have "filter (\<lambda>t. group_of t = p) ts = []" by (auto simp: groups_in_def filter_empty_conv)
  then show ?thesis by (simp add: cores_in_def js_set_of_def)
qed

lemma threads_in_empty: "(p, c) \<notin> set (all_cores ts) \<Longrightarrow> threads_in ts p c = []"
  by (auto simp: threads_in_def all_cores_def filter_empty_conv)

lemma in_snoc:
  "groups_in (ts @ [t]) = set_add (group_of t) (groups_in ts)"
  "all_cores (ts @ [t]) = set_add (group_of t, cpu_core t) (all_cores ts)"
  "cores_in (ts @ [t]) p = (if group_of t = p then set_add (cpu_core t) (cores_in ts p) else cores_in ts p)"
  "threads_in (ts @ [t]) p c = (if group_of t = p \<and> cpu_core t = c then threads_in ts p c @ [t] else threads_in ts p c)"
  by (simp_all add: groups_in_def all_cores_def cores_in_def threads_in_def js_set_of_snoc)

lemma build_eq:
  "fold add_cpu ts ([], []) =
     (map (\<lambda>p. (gkey p, refs_in ts p)) (groups_in ts),
      map (\<lambda>q. (ckey q, core_in ts (fst q) (snd q))) (all_cores ts))"
proof (induction ts rule: rev_induct)
  case Nil
  then show ?case by (simp add: groups_in_def all_cores_def js_set_of_def)
next
  case (snoc t ts)
  let ?p = "group_of t" and ?c = "cpu_core t"
  have p: "cpu_socket t = fst ?p" "cpu_numa t = snd ?p" by (simp_all add: group_of_def)
  have d: "distinct (groups_in ts)" "distinct (all_cores ts)" by (simp_all add: groups_in_def all_cores_def)
  have gof: "map_of (map (\<lambda>p. (gkey p, refs_in ts p)) (groups_in ts)) (gkey ?p) =
      (if ?p \<in> set (groups_in ts) then Some (refs_in ts ?p) else None)"
    by (rule map_of_keyed [OF inj_gkey])
  have cof: "map_of (map (\<lambda>q. (ckey q, core_in ts (fst q) (snd q))) (all_cores ts)) (ckey (?p, ?c)) =
      (if (?p, ?c) \<in> set (all_cores ts) then Some (core_in ts ?p ?c) else None)"
    using map_of_keyed [OF inj_ckey, of "\<lambda>q. core_in ts (fst q) (snd q)" "all_cores ts" "(?p, ?c)"] by simp
  have grp: "(case map_of (map (\<lambda>p. (gkey p, refs_in ts p)) (groups_in ts)) (gkey ?p) of Some g \<Rightarrow> g
      | None \<Rightarrow> \<lparr>gf_socket = fst ?p, gf_numa = snd ?p, gf_cores = []\<rparr>) = refs_in ts ?p"
    unfolding gof by (simp add: refs_in_def cores_in_empty)
  have "add_cpu t (map (\<lambda>p. (gkey p, refs_in ts p)) (groups_in ts),
        map (\<lambda>q. (ckey q, core_in ts (fst q) (snd q))) (all_cores ts)) =
      (map_set (gkey ?p) (refs_in (ts @ [t]) ?p) (map (\<lambda>p. (gkey p, refs_in ts p)) (groups_in ts)),
       map_set (ckey (?p, ?c)) (core_in (ts @ [t]) ?p ?c)
         (map (\<lambda>q. (ckey q, core_in ts (fst q) (snd q))) (all_cores ts)))"
    unfolding add_cpu_def Let_def prod.case p grp cof [unfolded fst_conv snd_conv]
    by (simp add: refs_in_def core_in_def in_snoc threads_in_empty set_add_def cores_in_iff)
  then show ?case
    using snoc
    unfolding map_set_keyed [OF inj_gkey d(1)] map_set_keyed [OF inj_ckey d(2)]
    by (auto simp: in_snoc(1,2) refs_in_def core_in_def in_snoc(3,4))
qed

interpretation gc: comparator group_cmp
  by unfold_locales (auto simp: group_cmp_def split: if_splits)

definition group_in :: "cpu_topology_entry list \<Rightarrow> int \<times> int \<Rightarrow> CoreGroup" where
  "group_in ts p = \<lparr>cg_socket = fst p, cg_numa = snd p, cg_cores = map (core_in ts p) (cores_in ts p)\<rparr>"

lemma map_filter_Some: "\<forall>x \<in> set xs. f x = Some (g x) \<Longrightarrow> List.map_filter f xs = map g xs"
  by (induction xs) (simp_all add: List.map_filter_simps)

lemma deref_refs_in:
  "deref_group (map (\<lambda>q. (ckey q, core_in ts (fst q) (snd q))) (all_cores ts)) (refs_in ts p) = group_in ts p"
proof -
  have "map_of (map (\<lambda>q. (ckey q, core_in ts (fst q) (snd q))) (all_cores ts)) (ckey (p, c)) = Some (core_in ts p c)"
    if "c \<in> set (cores_in ts p)" for c
    using map_of_keyed [OF inj_ckey, of "\<lambda>q. core_in ts (fst q) (snd q)" "all_cores ts" "(p, c)"] that
    by (simp add: cores_in_iff)
  then show ?thesis
    by (simp add: deref_group_def refs_in_def group_in_def List.map_filter_def comp_def)
qed

lemma groupCores_ref:
  "groupCores ts = map sort_cores (js_sort group_cmp (map (group_in ts) (groups_in ts)))"
  by (simp add: groupCores_def build_eq deref_refs_in comp_def)

lemma set_groupCores: "set (groupCores ts) = (\<lambda>p. sort_cores (group_in ts p)) ` set (groups_in ts)"
  by (auto simp: groupCores_ref)

lemma sorted_strict:
  "sorted_wrt P xs \<Longrightarrow> distinct (map k xs) \<Longrightarrow> (\<And>a b. P a b \<Longrightarrow> k a \<noteq> k b \<Longrightarrow> R a b) \<Longrightarrow> sorted_wrt R xs"
  by (induction xs) force+

lemma mset_concat_filter:
  "distinct ks \<Longrightarrow> mset (concat (map (\<lambda>k. filter (\<lambda>x. f x = k) xs) ks)) = mset (filter (\<lambda>x. f x \<in> set ks) xs)"
proof (induction ks)
  case (Cons k ks)
  have "mset (filter (\<lambda>x. f x = k) xs) + mset (filter (\<lambda>x. f x \<in> set ks) xs) =
      mset (filter (\<lambda>x. f x \<in> set (k # ks)) xs)"
    using Cons.prems by (induction xs) auto
  then show ?case using Cons by simp
qed simp

lemma mset_concat_cong: "(\<And>x. x \<in> set xs \<Longrightarrow> mset (f x) = mset (g x)) \<Longrightarrow>
    mset (concat (map f xs)) = mset (concat (map g xs))"
  by (induction xs) auto

lemma mset_concat_map: "mset (concat (map f xs)) = (\<Sum>x \<in># mset xs. mset (f x))"
  by (induction xs) simp_all

lemma mset_concat_sort: "mset (concat (map f (js_sort cmp xs))) = mset (concat (map f xs))"
  by (simp only: mset_concat_map mset_js_sort)

lemma concat_nested: "concat (map f (concat (map g xs))) = concat (map (\<lambda>x. concat (map f (g x))) xs)"
  by (induction xs) simp_all

lemma threads_mset:
  "mset (concat (map pc_threads (cg_cores (sort_cores (group_in ts p))))) = mset (filter (\<lambda>t. group_of t = p) ts)"
proof -
  let ?here = "filter (\<lambda>t. group_of t = p) ts"
  let ?cores = "js_sort (\<lambda>a b. Fin (of_int (pc_core a - pc_core b))) (map (core_in ts p) (cores_in ts p))"
  have "mset (concat (map pc_threads (cg_cores (sort_cores (group_in ts p))))) = mset (concat (map pc_threads ?cores))"
    by (simp add: sort_cores_def group_in_def comp_def) (rule mset_concat_cong, simp add: sort_threads_def)
  also have "\<dots> = mset (concat (map pc_threads (map (core_in ts p) (cores_in ts p))))"
    by (rule mset_concat_sort)
  also have "\<dots> = mset (concat (map (\<lambda>c. filter (\<lambda>t. cpu_core t = c) ?here) (cores_in ts p)))"
    by (simp add: core_in_def threads_in_def comp_def)
  also have "\<dots> = mset (filter (\<lambda>t. cpu_core t \<in> set (cores_in ts p)) ?here)"
    by (rule mset_concat_filter) (simp add: cores_in_def)
  also have "filter (\<lambda>t. cpu_core t \<in> set (cores_in ts p)) ?here = ?here"
    by (rule filter_True) (auto simp: cores_in_def)
  finally show ?thesis .
qed

lemma all_threads_mset:
  "mset (concat (map pc_threads (concat (map cg_cores (groupCores ts))))) = mset ts"
proof -
  have "mset (concat (map pc_threads (concat (map cg_cores (groupCores ts))))) =
      mset (concat (map (\<lambda>g. concat (map pc_threads (cg_cores (sort_cores g))))
        (js_sort group_cmp (map (group_in ts) (groups_in ts)))))"
    unfolding groupCores_ref by (simp add: concat_nested comp_def)
  also have "\<dots> = mset (concat (map (\<lambda>g. concat (map pc_threads (cg_cores (sort_cores g)))) (map (group_in ts) (groups_in ts))))"
    by (rule mset_concat_sort)
  also have "\<dots> = mset (concat (map (\<lambda>p. filter (\<lambda>t. group_of t = p) ts) (groups_in ts)))"
    by (simp add: comp_def) (rule mset_concat_cong, rule threads_mset)
  also have "\<dots> = mset (filter (\<lambda>t. group_of t \<in> set (groups_in ts)) ts)"
    by (rule mset_concat_filter) (simp add: groups_in_def)
  also have "filter (\<lambda>t. group_of t \<in> set (groups_in ts)) ts = ts"
    by (rule filter_True) (auto simp: groups_in_def)
  finally show ?thesis .
qed



section \<open>Properties\<close>

text \<open>The CPU layout is a partition of the host's threads: every logical CPU of the topology is
  shown exactly once, in the core and group it names; groups are strictly ordered by socket and
  NUMA node, the cores of a group by core, the threads of a core by id.\<close>

theorem cpu_layout_partition:
  "mset (concat (map pc_threads (concat (map cg_cores (groupCores ts))))) = mset ts \<and>
   sorted_wrt (\<lambda>g h. cg_socket g < cg_socket h \<or> cg_socket g = cg_socket h \<and> cg_numa g < cg_numa h) (groupCores ts) \<and>
   (\<forall>g \<in> set (groupCores ts).
      sorted_wrt (\<lambda>c d. pc_core c < pc_core d) (cg_cores g) \<and>
      (\<forall>c \<in> set (cg_cores g). pc_socket c = cg_socket g \<and> pc_numa c = cg_numa g \<and>
        sorted (map cpu_id (pc_threads c)) \<and>
        (\<forall>t \<in> set (pc_threads c). cpu_socket t = cg_socket g \<and> cpu_numa t = cg_numa g \<and> cpu_core t = pc_core c)))"
proof (intro conjI ballI)
  show "mset (concat (map pc_threads (concat (map cg_cores (groupCores ts))))) = mset ts"
    by (rule all_threads_mset)
  let ?gs = "js_sort group_cmp (map (group_in ts) (groups_in ts))"
  have "distinct (map (\<lambda>g. (cg_socket g, cg_numa g)) (map (group_in ts) (groups_in ts)))"
    by (simp add: group_in_def comp_def groups_in_def)
  then have dist: "distinct (map (\<lambda>g. (cg_socket g, cg_numa g)) ?gs)"
    by (metis mset_js_sort mset_map mset_eq_imp_distinct_iff)
  have "sorted_wrt (\<lambda>g h. cg_socket g < cg_socket h \<or> cg_socket g = cg_socket h \<and> cg_numa g < cg_numa h) ?gs"
    by (rule sorted_strict [OF gc.sorted_js_sort dist]) (auto simp: group_cmp_def split: if_splits)
  then show "sorted_wrt (\<lambda>g h. cg_socket g < cg_socket h \<or> cg_socket g = cg_socket h \<and> cg_numa g < cg_numa h) (groupCores ts)"
    unfolding groupCores_ref by (simp add: sorted_wrt_map sort_cores_def)
next
  fix g
  assume "g \<in> set (groupCores ts)"
  then obtain p where g: "g = sort_cores (group_in ts p)" by (auto simp: set_groupCores)
  let ?cs = "js_sort (\<lambda>a b. Fin (of_int (pc_core a - pc_core b))) (map (core_in ts p) (cores_in ts p))"
  have cores: "cg_cores g = map sort_threads ?cs" by (simp add: g sort_cores_def group_in_def)
  have "distinct (map pc_core (map (core_in ts p) (cores_in ts p)))"
    by (simp add: core_in_def comp_def cores_in_def)
  then have dist: "distinct (map pc_core ?cs)"
    by (metis mset_js_sort mset_map mset_eq_imp_distinct_iff)
  have "sorted_wrt (\<lambda>c d. pc_core c < pc_core d) ?cs"
    by (rule sorted_strict [OF key.sorted_js_sort [of "\<lambda>c. of_int (pc_core c)", unfolded key_cmp_def, folded of_int_diff] dist]) auto
  then show "sorted_wrt (\<lambda>c d. pc_core c < pc_core d) (cg_cores g)"
    unfolding cores by (simp add: sorted_wrt_map sort_threads_def)
  fix c
  assume "c \<in> set (cg_cores g)"
  then obtain k where c: "c = sort_threads (core_in ts p k)" unfolding cores by auto
  have gp: "cg_socket g = fst p" "cg_numa g = snd p" by (simp_all add: g sort_cores_def group_in_def)
  show "pc_socket c = cg_socket g" "pc_numa c = cg_numa g" using gp by (simp_all add: c sort_threads_def core_in_def)
  have "sorted_wrt (\<lambda>a b. cpu_id a \<le> cpu_id b) (js_sort (\<lambda>a b. Fin (of_int (cpu_id a - cpu_id b))) (threads_in ts p k))"
    by (rule sorted_wrt_mono_rel [OF _ key.sorted_js_sort [of "\<lambda>t. of_int (cpu_id t)", unfolded key_cmp_def, folded of_int_diff]]) simp
  then show "sorted (map cpu_id (pc_threads c))"
    by (simp add: c sort_threads_def core_in_def sorted_wrt_map)
  fix t
  assume "t \<in> set (pc_threads c)"
  then have "t \<in> set (threads_in ts p k)" by (simp add: c sort_threads_def core_in_def)
  then show "cpu_socket t = cg_socket g" "cpu_numa t = cg_numa g" "cpu_core t = pc_core c"
    using gp by (auto simp: c sort_threads_def core_in_def threads_in_def group_of_def)
qed

definition example_cpus :: "cpu_topology_entry list" where
  "example_cpus = [\<lparr>cpu_id = 1, cpu_core = 0, cpu_socket = 0, cpu_numa = 0\<rparr>,
     \<lparr>cpu_id = 0, cpu_core = 0, cpu_socket = 0, cpu_numa = 0\<rparr>]"

theorem cpu_layout_partition_witness:
  "mset (concat (map pc_threads (concat (map cg_cores (groupCores example_cpus))))) = mset example_cpus"
  using cpu_layout_partition [of example_cpus] by blast

text \<open>A cpuset is the union of its entries; an entry that starts with a dash is not skipped but
  counts from zero.\<close>

lemma integer_of_nat [simp]: "integer_of (Fin (real n)) = Some (int n)"
  by (simp add: integer_of_def)

lemma nat_str_no_dash: "CHR ''-'' \<notin> set (nat_str n)"
  by (rule nat_str_free) (simp add: is_digit_def)

lemma add_cpus_pair:
  assumes "word s" and "split_on CHR ''-'' s = [a, b]"
    and "integer_of (js_Number a) = Some lo" and "integer_of (js_Number b) = Some hi" and "lo \<le> hi"
  shows "set (add_cpus s ids) = set ids \<union> {lo..hi}"
  using assms by (simp add: add_cpus_def trim_word Let_def set_fold_add int_range_def word_def)

lemma word_dash: "word (s @ ''-'' @ nat_str n) \<longleftrightarrow> (\<forall>c \<in> set s. \<not> is_space c)"
  using word_nat_str [of n] by (auto simp: word_def is_space_def)

lemma cpu_entry_range:
  assumes "m \<le> n"
  shows "set (add_cpus (nat_str m @ ''-'' @ nat_str n) ids) = set ids \<union> {int m..int n}"
proof (rule add_cpus_pair)
  show "word (nat_str m @ ''-'' @ nat_str n)" using word_nat_str [of m] unfolding word_dash by (simp add: word_def)
  show "split_on CHR ''-'' (nat_str m @ ''-'' @ nat_str n) = [nat_str m, nat_str n]"
    using split_on_append [OF nat_str_no_dash [of m], of "nat_str n"] by (simp add: split_on_free [OF nat_str_no_dash])
qed (use assms in simp_all)

lemma dash_entry_not_skipped: "set (add_cpus (''-'' @ nat_str n) ids) = set ids \<union> {0..int n}"
proof (rule add_cpus_pair)
  show "word (''-'' @ nat_str n)" using word_dash [of "[]" n] by simp
  show "split_on CHR ''-'' (''-'' @ nat_str n) = [[], nat_str n]"
    using split_on_append [of "CHR ''-''" "[]" "nat_str n"] by (simp add: split_on_free [OF nat_str_no_dash])
  show "integer_of (js_Number []) = Some 0"
    using integer_of_nat [of 0] by (simp add: js_Number_def trim_def trim_start_def)
qed simp_all

end
