(* ===== verification/Preferences.thy ===== *)
theory Preferences
  imports Eest_Name
begin

text \<open>
  The two display preferences of the UI, \<open>ui/src/hooks/useNameDisplayMode.ts\<close> and
  \<open>ui/src/hooks/useLayoutWidth.ts\<close>: module state with listeners, mirrored into
  \<open>localStorage\<close> and into a URL parameter that is present only when it differs from the default.
  The law both obey, that a reload finds the preference again, is a locale with the two stores as
  interpretations.
\<close>

section \<open>State\<close>

text \<open>The current value, the stored text, the URL parameter, the class on the document, the listeners
  and the calls made to them.\<close>

record 'm pref_store =
  pf_current :: 'm
  pf_storage :: "string option"
  pf_url :: "string option"
  pf_wide_class :: bool
  pf_listeners :: "nat js_set"
  pf_notified :: "nat list"

definition subscribe :: "nat \<Rightarrow> 'm pref_store \<Rightarrow> 'm pref_store" where
  "subscribe listener s = s\<lparr>pf_listeners := set_add listener (pf_listeners s)\<rparr>"

definition unsubscribe :: "nat \<Rightarrow> 'm pref_store \<Rightarrow> 'm pref_store" where
  "unsubscribe listener s = s\<lparr>pf_listeners := set_delete listener (pf_listeners s)\<rparr>"

definition notify_all :: "'m pref_store \<Rightarrow> 'm pref_store" where
  "notify_all s = s\<lparr>pf_notified := pf_notified s @ pf_listeners s\<rparr>"


section \<open>Name display\<close>

fun mode_name :: "NameDisplayMode \<Rightarrow> string" where
  "mode_name Decomposed = ''decomposed''"
| "mode_name Raw = ''raw''"

definition DEFAULT_MODE :: NameDisplayMode where
  "DEFAULT_MODE = Decomposed"

definition readMode :: "string option \<Rightarrow> NameDisplayMode option" where
  "readMode v =
     (if v = Some ''raw'' then Some Raw
      else if v = Some ''decomposed'' then Some Decomposed else None)"

definition loadMode :: "string option \<Rightarrow> string option \<Rightarrow> NameDisplayMode" where
  "loadMode url storage =
     (case readMode url of
        Some m \<Rightarrow> m
      | None \<Rightarrow> (case readMode storage of Some m \<Rightarrow> m | None \<Rightarrow> DEFAULT_MODE))"

definition setNameDisplayMode :: "NameDisplayMode pref_store \<Rightarrow> NameDisplayMode \<Rightarrow> NameDisplayMode pref_store" where
  "setNameDisplayMode s nxt =
     (if nxt = pf_current s then s
      else notify_all
        (s\<lparr>pf_current := nxt, pf_storage := Some (mode_name nxt),
           pf_url := (if nxt = DEFAULT_MODE then None else Some (mode_name nxt))\<rparr>))"

definition toggleNameDisplayMode :: "NameDisplayMode pref_store \<Rightarrow> NameDisplayMode pref_store" where
  "toggleNameDisplayMode s = setNameDisplayMode s (if pf_current s = Decomposed then Raw else Decomposed)"

definition useFormattedTestName :: "NameDisplayMode pref_store \<Rightarrow> string \<Rightarrow> string" where
  "useFormattedTestName s name = formatTestName name (pf_current s)"


section \<open>Layout width\<close>

datatype LayoutWidth = Contained | Wide

fun width_name :: "LayoutWidth \<Rightarrow> string" where
  "width_name Contained = ''contained''"
| "width_name Wide = ''wide''"

definition DEFAULT_WIDTH :: LayoutWidth where
  "DEFAULT_WIDTH = Contained"

definition parseWidth :: "string option \<Rightarrow> LayoutWidth option" where
  "parseWidth v =
     (if v = Some ''wide'' then Some Wide
      else if v = Some ''contained'' then Some Contained else None)"

definition loadWidth :: "string option \<Rightarrow> string option \<Rightarrow> LayoutWidth" where
  "loadWidth url storage =
     (case parseWidth url of
        Some w \<Rightarrow> w
      | None \<Rightarrow> (case parseWidth storage of Some w \<Rightarrow> w | None \<Rightarrow> DEFAULT_WIDTH))"

definition setLayoutWidth :: "LayoutWidth pref_store \<Rightarrow> LayoutWidth \<Rightarrow> LayoutWidth pref_store" where
  "setLayoutWidth s nxt =
     (if nxt = pf_current s then s
      else notify_all
        (s\<lparr>pf_current := nxt, pf_storage := Some (width_name nxt), pf_wide_class := (nxt = Wide),
           pf_url := (if nxt = DEFAULT_WIDTH then None else Some (width_name nxt))\<rparr>))"

definition toggleLayoutWidth :: "LayoutWidth pref_store \<Rightarrow> LayoutWidth pref_store" where
  "toggleLayoutWidth s = setLayoutWidth s (if pf_current s = Wide then Contained else Wide)"


section \<open>The contract of a stored preference\<close>

locale stored_preference =
  fixes load :: "string option \<Rightarrow> string option \<Rightarrow> 'm"
    and put :: "'m pref_store \<Rightarrow> 'm \<Rightarrow> 'm pref_store"
  assumes put_current: "pf_current (put s m) = m"
    and put_same: "m = pf_current s \<Longrightarrow> put s m = s"
    and put_reload: "m \<noteq> pf_current s \<Longrightarrow> load (pf_url (put s m)) (pf_storage (put s m)) = m"
    and put_notifies: "m \<noteq> pf_current s \<Longrightarrow> pf_notified (put s m) = pf_notified s @ pf_listeners s"
    and put_listeners: "pf_listeners (put s m) = pf_listeners s"
begin

definition consistent :: "'m pref_store \<Rightarrow> bool" where
  "consistent s \<longleftrightarrow> load (pf_url s) (pf_storage s) = pf_current s"

lemma consistent_put: "consistent s \<Longrightarrow> consistent (put s m)"
  by (cases "m = pf_current s") (simp_all add: consistent_def put_same put_reload put_current)

lemma consistent_run: "consistent s \<Longrightarrow> consistent (run put s ms)"
  by (induction ms arbitrary: s) (simp_all add: consistent_put)

lemma current_run: "pf_current (run put s ms) = last (pf_current s # ms)"
  by (induction ms arbitrary: s) (simp_all add: put_current)

lemma reload_run: "consistent s \<Longrightarrow>
    load (pf_url (run put s ms)) (pf_storage (run put s ms)) = last (pf_current s # ms)"
  using consistent_run [of s ms] current_run [of s ms] by (simp add: consistent_def)

end

interpretation names: stored_preference loadMode setNameDisplayMode
proof
  fix s :: "NameDisplayMode pref_store" and m
  show "pf_current (setNameDisplayMode s m) = m" "m = pf_current s \<Longrightarrow> setNameDisplayMode s m = s"
    by (simp_all add: setNameDisplayMode_def notify_all_def)
  show "m \<noteq> pf_current s \<Longrightarrow> loadMode (pf_url (setNameDisplayMode s m)) (pf_storage (setNameDisplayMode s m)) = m"
    by (cases m) (simp_all add: setNameDisplayMode_def notify_all_def loadMode_def readMode_def DEFAULT_MODE_def)
  show "m \<noteq> pf_current s \<Longrightarrow> pf_notified (setNameDisplayMode s m) = pf_notified s @ pf_listeners s"
    by (simp add: setNameDisplayMode_def notify_all_def)
  show "pf_listeners (setNameDisplayMode s m) = pf_listeners s"
    by (simp add: setNameDisplayMode_def notify_all_def)
qed

interpretation widths: stored_preference loadWidth setLayoutWidth
proof
  fix s :: "LayoutWidth pref_store" and m
  show "pf_current (setLayoutWidth s m) = m" "m = pf_current s \<Longrightarrow> setLayoutWidth s m = s"
    by (simp_all add: setLayoutWidth_def notify_all_def)
  show "m \<noteq> pf_current s \<Longrightarrow> loadWidth (pf_url (setLayoutWidth s m)) (pf_storage (setLayoutWidth s m)) = m"
    by (cases m) (simp_all add: setLayoutWidth_def notify_all_def loadWidth_def parseWidth_def DEFAULT_WIDTH_def)
  show "m \<noteq> pf_current s \<Longrightarrow> pf_notified (setLayoutWidth s m) = pf_notified s @ pf_listeners s"
    by (simp add: setLayoutWidth_def notify_all_def)
  show "pf_listeners (setLayoutWidth s m) = pf_listeners s"
    by (simp add: setLayoutWidth_def notify_all_def)
qed


section \<open>Properties\<close>

text \<open>A display preference survives a reload: after any sequence of choices in a page that was
  loaded from its URL and storage, loading the page again gives the last choice, for the name
  display and for the layout width.\<close>

theorem preferences_persist:
  assumes "pf_current s = loadMode (pf_url s) (pf_storage s)" and "t = run setNameDisplayMode s ms"
    and "pf_current u = loadWidth (pf_url u) (pf_storage u)" and "v = run setLayoutWidth u ws"
  shows "loadMode (pf_url t) (pf_storage t) = last (pf_current s # ms) \<and>
    loadWidth (pf_url v) (pf_storage v) = last (pf_current u # ws)"
  using names.reload_run [of s ms] widths.reload_run [of u ws] assms
  by (simp add: names.consistent_def widths.consistent_def)

definition fresh_store :: "'m \<Rightarrow> 'm pref_store" where
  "fresh_store m = \<lparr>pf_current = m, pf_storage = None, pf_url = None, pf_wide_class = False,
     pf_listeners = [], pf_notified = []\<rparr>"

theorem preferences_persist_witness:
  "loadMode (pf_url (run setNameDisplayMode (fresh_store Decomposed) [Raw]))
     (pf_storage (run setNameDisplayMode (fresh_store Decomposed) [Raw])) = Raw"
  using preferences_persist [OF _ refl _ refl, of "fresh_store Decomposed" "fresh_store Contained" "[Raw]" "[]"]
  by (simp add: fresh_store_def loadMode_def readMode_def DEFAULT_MODE_def loadWidth_def parseWidth_def
      DEFAULT_WIDTH_def)

end
