(* ===== verification/Formats.thy ===== *)
theory Formats
  imports Js_Text
begin

text \<open>
  Formatting of durations, sizes and times: \<open>ui/src/utils/format.ts\<close>,
  \<open>ui/src/utils/date.ts\<close> and the estimate of the remaining time
  (\<open>ui/src/components/runs/liveEta.ts\<close>). How the language prints a number that is not an
  integer is the parameter \<open>num\<close>; what depends on the locale (\<open>Intl\<close>, \<open>toLocaleString\<close>) is
  the parameter \<open>clock\<close> or not modelled. The sign \<open>\<mu>\<close> of microseconds is U+00B5.
\<close>

section \<open>Numbers in templates\<close>

definition num_text :: "(real \<Rightarrow> string) \<Rightarrow> real \<Rightarrow> string" where
  "num_text num x = (if of_int \<lfloor>x\<rfloor> = x then int_str \<lfloor>x\<rfloor> else num x)"

definition MICRO :: char where "MICRO = CHR 0xB5"


section \<open>Durations\<close>

definition formatDuration :: "(real \<Rightarrow> string) \<Rightarrow> real \<Rightarrow> string" where
  "formatDuration num ns =
     (if ns < 1000 then num_text num ns @ ''ns''
      else if ns < 1000000 then toFixed 2 (ns / 1000) @ [MICRO] @ ''s''
      else if ns < 1000000000 then toFixed 2 (ns / 1000000) @ ''ms''
      else let totalSeconds = \<lfloor>ns / 1000000000\<rfloor>
           in if totalSeconds < 60 then toFixed 2 (ns / 1000000000) @ ''s''
              else let hours = totalSeconds div 3600;
                       minutes = (totalSeconds mod 3600) div 60;
                       seconds = totalSeconds mod 60
                   in if hours > 0 then int_str hours @ ''h'' @ int_str minutes @ ''m'' @ int_str seconds @ ''s''
                      else int_str minutes @ ''m'' @ int_str seconds @ ''s'')"

definition formatDurationMs :: "(real \<Rightarrow> string) \<Rightarrow> real \<Rightarrow> string" where
  "formatDurationMs num ms = formatDuration num (ms * 1000000)"

text \<open>An absent or not finite size is a dash.\<close>

definition formatBytes :: "(real \<Rightarrow> string) \<Rightarrow> jsnum option \<Rightarrow> string" where
  "formatBytes num bytes =
     (case bytes of
        Some (Fin b) \<Rightarrow>
          if b < 1024 then num_text num b @ '' B''
          else if b < 1024 * 1024 then toFixed 1 (b / 1024) @ '' KB''
          else if b < 1024 * 1024 * 1024 then toFixed 1 (b / (1024 * 1024)) @ '' MB''
          else toFixed 1 (b / (1024 * 1024 * 1024)) @ '' GB''
      | _ \<Rightarrow> ''-'')"

definition formatFrequency :: "(real \<Rightarrow> string) \<Rightarrow> real \<Rightarrow> string" where
  "formatFrequency num kHz =
     (if kHz \<ge> 1000000 then toFixed 2 (kHz / 1000000) @ '' GHz''
      else if kHz \<ge> 1000 then toFixed 0 (kHz / 1000) @ '' MHz''
      else num_text num kHz @ '' kHz'')"

definition formatDurationSeconds :: "int \<Rightarrow> string" where
  "formatDurationSeconds totalSeconds =
     (if totalSeconds < 0 then ''0s''
      else let hours = totalSeconds div 3600;
               minutes = (totalSeconds mod 3600) div 60;
               seconds = totalSeconds mod 60
           in if hours > 0 then int_str hours @ ''h '' @ int_str minutes @ ''m '' @ int_str seconds @ ''s''
              else if minutes > 0 then int_str minutes @ ''m '' @ int_str seconds @ ''s''
              else int_str seconds @ ''s'')"

text \<open>Times are in milliseconds (\<open>now\<close>) and seconds (\<open>timestamp\<close>).\<close>

definition formatRelativeTime :: "int \<Rightarrow> int \<Rightarrow> string" where
  "formatRelativeTime now timestamp =
     (let diff = now - timestamp * 1000;
          seconds = diff div 1000; minutes = seconds div 60; hours = minutes div 60; days = hours div 24
      in if days > 0 then int_str days @ ''d ago''
         else if hours > 0 then int_str hours @ ''h ago''
         else if minutes > 0 then int_str minutes @ ''m ago''
         else int_str seconds @ ''s ago'')"


section \<open>Remaining time\<close>

record LiveEta =
  le_elapsedSec :: int
  le_remainingSec :: "int option"
  le_etaAtMs :: "int option"

definition computeLiveEta :: "int \<Rightarrow> int \<Rightarrow> int \<Rightarrow> int \<Rightarrow> LiveEta" where
  "computeLiveEta nowMs startTimestampSec completed totalTests =
     (let nowSec = nowMs div 1000;
          elapsedSec = max 0 (nowSec - startTimestampSec)
      in if completed \<le> 0 \<or> totalTests \<le> 0 \<or> completed \<ge> totalTests
         then \<lparr>le_elapsedSec = elapsedSec, le_remainingSec = None, le_etaAtMs = None\<rparr>
         else let remainingSec = math_round (of_int elapsedSec / of_int completed * of_int (totalTests - completed))
              in \<lparr>le_elapsedSec = elapsedSec, le_remainingSec = Some remainingSec,
                  le_etaAtMs = Some (nowMs + remainingSec * 1000)\<rparr>)"

definition formatHoursMinutes :: "int \<Rightarrow> string" where
  "formatHoursMinutes totalSeconds =
     (if totalSeconds < 30 then ''< 1m''
      else let totalMinutes = math_round (of_int totalSeconds / 60);
               hours = totalMinutes div 60; minutes = totalMinutes mod 60
           in if hours = 0 then int_str minutes @ ''m''
              else if minutes = 0 then int_str hours @ ''h''
              else int_str hours @ ''h '' @ int_str minutes @ ''m'')"

definition formatEtaShort :: "LiveEta \<Rightarrow> string option" where
  "formatEtaShort eta =
     map_option (\<lambda>r. ''~'' @ formatHoursMinutes r @ '' left'') (le_remainingSec eta)"

definition formatEtaTooltip :: "(int \<Rightarrow> string) \<Rightarrow> LiveEta \<Rightarrow> string" where
  "formatEtaTooltip clock eta =
     join [CHR 0x0A]
       ([''Elapsed: '' @ formatHoursMinutes (le_elapsedSec eta)] @
        (case le_remainingSec eta of None \<Rightarrow> [] | Some r \<Rightarrow> [''~'' @ formatHoursMinutes r @ '' remaining'']) @
        (case le_etaAtMs eta of None \<Rightarrow> [] | Some t \<Rightarrow> [''ETA: '' @ clock t]) @
        (if le_remainingSec eta = None \<and> le_elapsedSec eta \<ge> 0
         then [''ETA: unknown (no tests completed yet)''] else []))"


section \<open>Lemmas\<close>

lemma hours_minutes_seconds:
  fixes t :: int
  assumes "0 \<le> t"
  shows "t = 3600 * (t div 3600) + 60 * ((t mod 3600) div 60) + t mod 60"
    and "0 \<le> t div 3600" and "0 \<le> (t mod 3600) div 60" and "(t mod 3600) div 60 < 60"
    and "0 \<le> t mod 60" and "t mod 60 < 60"
proof -
  have "t mod 3600 mod 60 = t mod 60" by (rule mod_mod_cancel) simp
  then show "t = 3600 * (t div 3600) + 60 * ((t mod 3600) div 60) + t mod 60"
    using div_mult_mod_eq [of t 3600] div_mult_mod_eq [of "t mod 3600" 60] by linarith
  have "t mod 3600 < 3600" by simp
  then show "(t mod 3600) div 60 < 60" by linarith
qed (use assms in \<open>simp_all add: pos_imp_zdiv_nonneg_iff\<close>)

text \<open>From one minute on a duration is printed exactly, in hours, minutes and seconds.\<close>

lemma formatDuration_minutes:
  assumes "60 * 1000000000 \<le> ns"
  shows "\<exists>h m s. \<lfloor>ns / 1000000000\<rfloor> = 3600 * h + 60 * m + s \<and> 0 \<le> h \<and> 0 \<le> m \<and> m < 60 \<and> 0 \<le> s \<and> s < 60 \<and>
    formatDuration num ns = (if h > 0 then int_str h @ ''h'' else []) @ int_str m @ ''m'' @ int_str s @ ''s''"
proof -
  define t where "t = \<lfloor>ns / 1000000000\<rfloor>"
  have "60 \<le> t" using assms by (simp add: t_def le_floor_iff)
  then have "0 \<le> t" by simp
  have "formatDuration num ns = (if t div 3600 > 0 then int_str (t div 3600) @ ''h'' else []) @
      int_str ((t mod 3600) div 60) @ ''m'' @ int_str (t mod 60) @ ''s''"
    using assms \<open>60 \<le> t\<close> by (simp add: formatDuration_def Let_def t_def)
  then show ?thesis unfolding t_def [symmetric] using hours_minutes_seconds [OF \<open>0 \<le> t\<close>] by blast
qed

text \<open>The estimate is a projection of the rate seen so far: while a run has completed some but
  not all of its tests, the remaining time is within half a second of what the average time per
  completed test gives for the others, and the completion time adds it to the clock; otherwise
  no estimate is given.\<close>

theorem live_eta_projection:
  assumes "eta = computeLiveEta nowMs start completed totalTests"
  shows "0 \<le> le_elapsedSec eta \<and>
    (if 0 < completed \<and> completed < totalTests
     then \<exists>r. le_remainingSec eta = Some r \<and> 0 \<le> r \<and> le_etaAtMs eta = Some (nowMs + r * 1000) \<and>
       \<bar>of_int r - real_of_int (le_elapsedSec eta) * of_int (totalTests - completed) / of_int completed\<bar> \<le> 1 / 2
     else le_remainingSec eta = None \<and> le_etaAtMs eta = None)"
proof (cases "0 < completed \<and> completed < totalTests")
  case True
  define x where "x = real_of_int (max 0 (nowMs div 1000 - start)) / of_int completed * of_int (totalTests - completed)"
  have "0 \<le> x" using True by (simp add: x_def)
  then have "0 \<le> math_round x" by (simp add: math_round_def le_floor_iff)
  moreover have "eta = \<lparr>le_elapsedSec = max 0 (nowMs div 1000 - start), le_remainingSec = Some (math_round x),
      le_etaAtMs = Some (nowMs + math_round x * 1000)\<rparr>"
    using True by (simp add: assms computeLiveEta_def Let_def x_def)
  moreover have "\<bar>of_int (math_round x) - x\<bar> \<le> 1 / 2" by (rule math_round_error)
  ultimately show ?thesis using True by (simp add: x_def)
qed (auto simp: assms computeLiveEta_def Let_def)

theorem live_eta_projection_witness:
  "le_remainingSec (computeLiveEta 100000 0 4 10) = Some 150 \<and> 0 \<le> le_elapsedSec (computeLiveEta 100000 0 4 10)"
  using live_eta_projection [OF refl, of 100000 0 4 10]
  by (simp add: computeLiveEta_def math_round_def)

end
