(* ===== verification/Runs_List.thy ===== *)
theory Runs_List
  imports Api_Types
begin

text \<open>
  The list of runs: ordering (\<open>ui/src/components/runs/sortEntries.ts\<close>), label filters and
  their URL form (\<open>ui/src/components/runs/labelFilterUtils.ts\<close>, the toggles of
  \<open>LabelFilters.tsx\<close>), and the rows of \<open>ui/src/pages/RunsPage.tsx\<close>: live runs merged with
  indexed ones, filtered by the search parameters. \<open>localeCompare\<close> is the parameter \<open>lc\<close>.
\<close>

section \<open>Ordering\<close>

datatype SortColumn = ByTimestamp | ByClient | ByImage | ByStrategy | BySuite | ByDuration | ByMgas
  | ByFailed | ByPassed | ByTotal

datatype SortDirection = Ascending | Descending

definition calculateMGasPerSec :: "real \<Rightarrow> real \<Rightarrow> real option" where
  "calculateMGasPerSec gasUsed gasUsedDuration =
     (if gasUsedDuration \<le> 0 \<or> gasUsed \<le> 0 then None else Some (gasUsed * 1000 / gasUsedDuration))"

definition entry_mgas :: "index_entry \<Rightarrow> step_type list \<Rightarrow> jsnum" where
  "entry_mgas e stepFilter =
     (let stats = getIndexAggregatedStats e stepFilter
      in case calculateMGasPerSec (ia_gasUsed stats) (ia_gasUsedDuration stats) of
           None \<Rightarrow> NegInf | Some v \<Rightarrow> Fin v)"

definition or_empty :: "string option \<Rightarrow> string" where
  "or_empty x = (case x of None \<Rightarrow> [] | Some s \<Rightarrow> s)"

definition entry_duration :: "index_entry \<Rightarrow> real" where
  "entry_duration e =
     (case ie_timestamp_end e of None \<Rightarrow> ie_timestamp e | Some t \<Rightarrow> t) - ie_timestamp e"

fun entry_cmp :: "(string \<Rightarrow> string \<Rightarrow> jsnum) \<Rightarrow> step_type list \<Rightarrow> SortColumn \<Rightarrow> index_entry \<Rightarrow> index_entry \<Rightarrow> jsnum" where
  "entry_cmp lc fs ByTimestamp a b = Fin (ie_timestamp a - ie_timestamp b)"
| "entry_cmp lc fs ByClient a b = lc (ii_client (ie_instance a)) (ii_client (ie_instance b))"
| "entry_cmp lc fs ByImage a b = lc (ii_image (ie_instance a)) (ii_image (ie_instance b))"
| "entry_cmp lc fs ByStrategy a b =
     lc (or_empty (ii_rollback_strategy (ie_instance a))) (or_empty (ii_rollback_strategy (ie_instance b)))"
| "entry_cmp lc fs BySuite a b = lc (or_empty (ie_suite_hash a)) (or_empty (ie_suite_hash b))"
| "entry_cmp lc fs ByDuration a b = Fin (entry_duration a - entry_duration b)"
| "entry_cmp lc fs ByMgas a b = num_sub (entry_mgas a fs) (entry_mgas b fs)"
| "entry_cmp lc fs ByFailed a b =
     Fin ((it_total (ie_tests a) - it_passed (ie_tests a)) - (it_total (ie_tests b) - it_passed (ie_tests b)))"
| "entry_cmp lc fs ByPassed a b = Fin (it_passed (ie_tests a) - it_passed (ie_tests b))"
| "entry_cmp lc fs ByTotal a b = Fin (it_total (ie_tests a) - it_total (ie_tests b))"

definition directed_cmp :: "(string \<Rightarrow> string \<Rightarrow> jsnum) \<Rightarrow> step_type list \<Rightarrow> SortColumn \<Rightarrow> SortDirection \<Rightarrow>
    index_entry \<Rightarrow> index_entry \<Rightarrow> jsnum" where
  "directed_cmp lc fs col dir a b =
     (if dir = Ascending then entry_cmp lc fs col a b else num_neg (entry_cmp lc fs col a b))"

definition sortIndexEntries :: "(string \<Rightarrow> string \<Rightarrow> jsnum) \<Rightarrow> index_entry list \<Rightarrow> SortColumn \<Rightarrow> SortDirection \<Rightarrow>
    step_type list \<Rightarrow> index_entry list" where
  "sortIndexEntries lc entries col dir fs = js_sort (directed_cmp lc fs col dir) entries"


section \<open>Label filters\<close>

type_synonym LabelFilters = "(string, string js_set) js_map"

definition parse_label_segment :: "string \<Rightarrow> LabelFilters \<Rightarrow> js_error + LabelFilters" where
  "parse_label_segment segment filters =
     (case index_of CHR '':'' segment of
        None \<Rightarrow> Inr filters
      | Some idx \<Rightarrow>
          if idx < 1 then Inr filters
          else case decodeURIComponent (take idx segment) of
                 Inl e \<Rightarrow> Inl e
               | Inr key \<Rightarrow>
                   (case map_result decodeURIComponent (split_on CHR ''|'' (drop (idx + 1) segment)) of
                      Inl e \<Rightarrow> Inl e
                    | Inr vs \<Rightarrow>
                        let values = filter (\<lambda>v. v \<noteq> []) vs
                        in Inr (if values \<noteq> [] then map_set key (js_set_of values) filters else filters)))"

fun parse_label_segments :: "string list \<Rightarrow> LabelFilters \<Rightarrow> js_error + LabelFilters" where
  "parse_label_segments [] filters = Inr filters"
| "parse_label_segments (s # ss) filters =
     (case parse_label_segment s filters of Inl e \<Rightarrow> Inl e | Inr f \<Rightarrow> parse_label_segments ss f)"

definition parseLabelFilters :: "string option \<Rightarrow> js_error + LabelFilters" where
  "parseLabelFilters raw =
     (case raw of
        None \<Rightarrow> Inr []
      | Some s \<Rightarrow> if s = [] then Inr [] else parse_label_segments (split_on CHR '','' s) [])"

definition label_part :: "string \<times> string js_set \<Rightarrow> string list" where
  "label_part p =
     (if snd p = [] then []
      else [encodeURIComponent (fst p) @ '':'' @ join ''|'' (map encodeURIComponent (snd p))])"

definition serializeLabelFilters :: "LabelFilters \<Rightarrow> string option" where
  "serializeLabelFilters filters =
     (if filters = [] then None
      else let parts = concat (map label_part filters)
           in if parts \<noteq> [] then Some (join '','' parts) else None)"

text \<open>Clicking a value of a label, and removing a label.\<close>

definition map_delete :: "'k \<Rightarrow> ('k, 'v) js_map \<Rightarrow> ('k, 'v) js_map" where
  "map_delete k m = filter (\<lambda>p. fst p \<noteq> k) m"

definition toggle_label_value :: "LabelFilters \<Rightarrow> string \<Rightarrow> string \<Rightarrow> LabelFilters" where
  "toggle_label_value filters key value =
     (let vals = (case map_of filters key of None \<Rightarrow> [] | Some vs \<Rightarrow> vs)
      in if value \<in> set vals
         then let vals' = set_delete value vals
              in if vals' = [] then map_delete key filters else map_set key vals' filters
         else map_set key (set_add value vals) filters)"

definition remove_label_filter :: "LabelFilters \<Rightarrow> string \<Rightarrow> LabelFilters" where
  "remove_label_filter filters key = map_delete key filters"

text \<open>The labels on offer, with their values in order.\<close>

definition collect_labels :: "(string \<times> string) list \<Rightarrow> (string, string js_set) js_map \<Rightarrow> (string, string js_set) js_map" where
  "collect_labels kvs m =
     fold (\<lambda>(k, v) m. map_set k (set_add v (case map_of m k of None \<Rightarrow> [] | Some vs \<Rightarrow> vs)) m) kvs m"

definition available_labels :: "index_entry list \<Rightarrow> string list \<times> (string, string list) js_map" where
  "available_labels entries =
     (let m = fold (\<lambda>e. collect_labels (case ie_metadata e of None \<Rightarrow> [] | Some ob \<Rightarrow> ob)) entries []
      in (sort (map fst m), map (\<lambda>(k, vs). (k, sort vs)) m))"


section \<open>Rows of the page\<close>

datatype TestStatusFilter = AllRuns | Passing | Failing | TimeoutRuns | CancelledRuns | RunningRuns

record LiveRun =
  lr_id :: nat
  lr_discovery_path :: string
  lr_run_id :: string
  lr_timestamp :: real
  lr_timestamp_end :: "real option"
  lr_suite_hash :: "string option"
  lr_status :: run_status
  lr_termination_reason :: "string option"
  lr_instance_id :: "string option"
  lr_client :: "string option"
  lr_image :: "string option"
  lr_rollback_strategy :: "string option"
  lr_tests_total :: real
  lr_tests_passed :: real
  lr_tests_failed :: real
  lr_metadata :: "string js_object option"
  lr_total_gas_used :: "real option"
  lr_total_gas_used_duration_ns :: "real option"

definition live_entry :: "LiveRun \<Rightarrow> index_entry" where
  "live_entry lr =
     \<lparr>ie_run_id = lr_run_id lr, ie_timestamp = lr_timestamp lr, ie_timestamp_end = lr_timestamp_end lr,
      ie_suite_hash = lr_suite_hash lr,
      ie_instance = \<lparr>ii_id = or_empty (lr_instance_id lr), ii_client = or_empty (lr_client lr),
        ii_image = or_empty (lr_image lr), ii_rollback_strategy = lr_rollback_strategy lr\<rparr>,
      ie_tests = \<lparr>it_total = lr_tests_total lr, it_passed = lr_tests_passed lr, it_failed = lr_tests_failed lr,
        it_steps = \<lparr>st_setup = None, st_test = None, st_cleanup = None\<rparr>\<rparr>,
      ie_status = Some (lr_status lr), ie_termination_reason = lr_termination_reason lr,
      ie_metadata = lr_metadata lr, ie_deletion_requested_at = None, ie_deletion_error = None\<rparr>"

definition mergedEntries :: "index option \<Rightarrow> LiveRun list option \<Rightarrow> index_entry list" where
  "mergedEntries ix liveRuns =
     (case ix of
        None \<Rightarrow> []
      | Some i \<Rightarrow>
          (case liveRuns of
             None \<Rightarrow> ix_entries i
           | Some lrs \<Rightarrow>
               if lrs = [] then ix_entries i
               else let indexed = map ie_run_id (ix_entries i)
                    in map live_entry (filter (\<lambda>lr. lr_run_id lr \<notin> set indexed) lrs) @ ix_entries i))"

record run_filters =
  rf_client :: "string option"
  rf_image :: "string option"
  rf_suite :: "string option"
  rf_strategy :: "string option"
  rf_status :: TestStatusFilter
  rf_labels :: LabelFilters
  rf_matchingSuites :: "string js_set option"

text \<open>A parameter that is absent or empty does not filter.\<close>

definition wants :: "string option \<Rightarrow> string option \<Rightarrow> bool" where
  "wants param actual \<longleftrightarrow> (case param of Some (c # cs) \<Rightarrow> actual = Some (c # cs) | _ \<Rightarrow> True)"

definition failed_count :: "index_entry \<Rightarrow> real" where
  "failed_count e =
     (if ie_status e = Some Running then it_failed (ie_tests e)
      else it_total (ie_tests e) - it_passed (ie_tests e))"

definition label_of :: "string js_object option \<Rightarrow> string \<Rightarrow> string option" where
  "label_of md key =
     (case md of None \<Rightarrow> None
      | Some ob \<Rightarrow> (case map_of ob key of Some (c # cs) \<Rightarrow> Some (c # cs) | _ \<Rightarrow> None))"

definition labels_allow :: "LabelFilters \<Rightarrow> string js_object option \<Rightarrow> bool" where
  "labels_allow filters md \<longleftrightarrow>
     (\<forall>(key, allowed) \<in> set filters. case label_of md key of None \<Rightarrow> False | Some v \<Rightarrow> v \<in> set allowed)"

definition status_allows :: "TestStatusFilter \<Rightarrow> index_entry \<Rightarrow> bool" where
  "status_allows s e \<longleftrightarrow>
     \<not> (s = Passing \<and> failed_count e > 0) \<and> \<not> (s = Failing \<and> failed_count e = 0) \<and>
     \<not> (s = TimeoutRuns \<and> ie_status e \<noteq> Some TimedOut) \<and>
     \<not> (s = CancelledRuns \<and> ie_status e \<noteq> Some Cancelled) \<and>
     \<not> (s = RunningRuns \<and> ie_status e \<noteq> Some Running)"

definition keep_entry :: "run_filters \<Rightarrow> index_entry \<Rightarrow> bool" where
  "keep_entry f e \<longleftrightarrow>
     wants (rf_client f) (Some (ii_client (ie_instance e))) \<and>
     wants (rf_image f) (Some (ii_image (ie_instance e))) \<and>
     wants (rf_suite f) (ie_suite_hash e) \<and>
     wants (rf_strategy f) (ii_rollback_strategy (ie_instance e)) \<and>
     status_allows (rf_status f) e \<and>
     (case rf_matchingSuites f of
        None \<Rightarrow> True
      | Some hashes \<Rightarrow> (case ie_suite_hash e of Some (c # cs) \<Rightarrow> c # cs \<in> set hashes | _ \<Rightarrow> False)) \<and>
     labels_allow (rf_labels f) (ie_metadata e)"

text \<open>The suites whose labels match the suite label filters; no filter is no restriction.\<close>

definition matchingSuiteHashes :: "LabelFilters \<Rightarrow> (string, string js_object) js_map \<Rightarrow> string js_set option" where
  "matchingSuiteHashes filters suiteInfo =
     (if filters = [] then None
      else Some (map fst (filter (\<lambda>(hash, labels). labels_allow filters (Some labels)) suiteInfo)))"

definition suiteLabelKeys :: "(string, string js_object) js_map \<Rightarrow> (string, string list) js_map" where
  "suiteLabelKeys suiteInfo =
     map (\<lambda>(k, vs). (k, sort vs))
       (fold (\<lambda>(hash, labels). collect_labels (filter (\<lambda>(k, v). k \<noteq> ''name'') labels)) suiteInfo [])"

text \<open>The values offered by the drop-downs.\<close>

definition distinct_sorted :: "string list \<Rightarrow> string list" where
  "distinct_sorted xs = sort (js_set_of xs)"

definition run_clients :: "index_entry list \<Rightarrow> string list" where
  "run_clients es = distinct_sorted (map (\<lambda>e. ii_client (ie_instance e)) es)"

definition run_images :: "index_entry list \<Rightarrow> string list" where
  "run_images es = distinct_sorted (map (\<lambda>e. ii_image (ie_instance e)) es)"

definition non_empty :: "string option list \<Rightarrow> string list" where
  "non_empty xs = List.map_filter (\<lambda>x. case x of Some (c # cs) \<Rightarrow> Some (c # cs) | _ \<Rightarrow> None) xs"

definition run_strategies :: "index_entry list \<Rightarrow> string list" where
  "run_strategies es = distinct_sorted (non_empty (map (\<lambda>e. ii_rollback_strategy (ie_instance e)) es))"

definition run_suites :: "index_entry list \<Rightarrow> string list" where
  "run_suites es = distinct_sorted (non_empty (map ie_suite_hash es))"

definition page_rows :: "(string \<Rightarrow> string \<Rightarrow> jsnum) \<Rightarrow> run_filters \<Rightarrow> SortColumn \<Rightarrow> SortDirection \<Rightarrow> step_type list \<Rightarrow>
    index option \<Rightarrow> LiveRun list option \<Rightarrow> index_entry list" where
  "page_rows lc f col dir fs ix live =
     sortIndexEntries lc (filter (keep_entry f) (mergedEntries ix live)) col dir fs"

section \<open>Lemmas\<close>

text \<open>Each column compares by a number, a text or a ratio, so every column is a comparator.\<close>

lemma entry_cmp_fun:
  "entry_cmp lc fs ByTimestamp = key_cmp ie_timestamp"
  "entry_cmp lc fs ByClient = (\<lambda>a b. lc (ii_client (ie_instance a)) (ii_client (ie_instance b)))"
  "entry_cmp lc fs ByImage = (\<lambda>a b. lc (ii_image (ie_instance a)) (ii_image (ie_instance b)))"
  "entry_cmp lc fs ByStrategy =
     (\<lambda>a b. lc (or_empty (ii_rollback_strategy (ie_instance a))) (or_empty (ii_rollback_strategy (ie_instance b))))"
  "entry_cmp lc fs BySuite = (\<lambda>a b. lc (or_empty (ie_suite_hash a)) (or_empty (ie_suite_hash b)))"
  "entry_cmp lc fs ByDuration = key_cmp entry_duration"
  "entry_cmp lc fs ByMgas = (\<lambda>a b. num_sub (entry_mgas a fs) (entry_mgas b fs))"
  "entry_cmp lc fs ByFailed = key_cmp (\<lambda>e. it_total (ie_tests e) - it_passed (ie_tests e))"
  "entry_cmp lc fs ByPassed = key_cmp (\<lambda>e. it_passed (ie_tests e))"
  "entry_cmp lc fs ByTotal = key_cmp (\<lambda>e. it_total (ie_tests e))"
  by (simp_all add: fun_eq_iff key_cmp_def)

lemma entry_mgas_cases: "entry_mgas e fs = NegInf \<or> (\<exists>r. entry_mgas e fs = Fin r)"
  by (auto simp: entry_mgas_def Let_def split: option.split)

lemma comparator_mgas: "comparator (\<lambda>a b. num_sub (entry_mgas a fs) (entry_mgas b fs))"
proof
  show "is_neg (num_sub (entry_mgas a fs) (entry_mgas b fs)) \<longleftrightarrow>
      is_pos (num_sub (entry_mgas b fs) (entry_mgas a fs))" for a b
    using entry_mgas_cases [of a fs] entry_mgas_cases [of b fs]
    by (auto simp: num_sub_def is_pos_def is_neg_def)
  show "\<not> is_pos (num_sub (entry_mgas a fs) (entry_mgas b fs)) \<Longrightarrow>
      \<not> is_pos (num_sub (entry_mgas b fs) (entry_mgas c fs)) \<Longrightarrow>
      \<not> is_pos (num_sub (entry_mgas a fs) (entry_mgas c fs))" for a b c
    using entry_mgas_cases [of a fs] entry_mgas_cases [of b fs] entry_mgas_cases [of c fs]
    by (auto simp: num_sub_def is_pos_def)
qed

interpretation mgas: comparator "\<lambda>a b. num_sub (entry_mgas a fs) (entry_mgas b fs)" for fs
  by (rule comparator_mgas)

lemma comparator_entry:
  assumes "comparator lc"
  shows "comparator (entry_cmp lc fs col)"
  by (cases col) (simp_all only: entry_cmp_fun key.comparator_axioms mgas.comparator_axioms
      comparator.on_key [OF assms])

lemma comparator_directed:
  assumes "comparator lc"
  shows "comparator (directed_cmp lc fs col dir)"
proof (cases dir)
  case Ascending
  then have "directed_cmp lc fs col dir = entry_cmp lc fs col"
    by (simp add: directed_cmp_def fun_eq_iff)
  then show ?thesis using comparator_entry [OF assms] by simp
next
  case Descending
  then have "directed_cmp lc fs col dir = (\<lambda>a b. num_neg (entry_cmp lc fs col a b))"
    by (simp add: directed_cmp_def fun_eq_iff)
  then show ?thesis using comparator.flip [OF comparator_entry [OF assms]] by simp
qed

text \<open>A live run is a row exactly when no indexed run has its id.\<close>

lemma live_entry_id [simp]: "ie_run_id (live_entry lr) = lr_run_id lr"
  by (simp add: live_entry_def)

lemma merged_ids:
  "map ie_run_id (mergedEntries (Some ix) (Some lrs)) =
     filter (\<lambda>i. i \<notin> set (map ie_run_id (ix_entries ix))) (map lr_run_id lrs) @
     map ie_run_id (ix_entries ix)"
  by (simp add: mergedEntries_def Let_def filter_map comp_def)

text \<open>Two runs the chosen column does not tell apart.\<close>

definition same_rank :: "(string \<Rightarrow> string \<Rightarrow> jsnum) \<Rightarrow> step_type list \<Rightarrow> SortColumn \<Rightarrow> SortDirection \<Rightarrow>
    index_entry \<Rightarrow> index_entry \<Rightarrow> bool" where
  "same_rank lc fs col dir a b \<longleftrightarrow>
     \<not> is_pos (directed_cmp lc fs col dir a b) \<and> \<not> is_pos (directed_cmp lc fs col dir b a)"

lemma sortIndexEntries_sound:
  assumes "comparator lc"
  shows "sorted_wrt (\<lambda>a b. \<not> is_pos (directed_cmp lc fs col dir a b)) (sortIndexEntries lc es col dir fs)"
    and "filter (same_rank lc fs col dir e) (sortIndexEntries lc es col dir fs) =
         filter (same_rank lc fs col dir e) es"
proof -
  have c: "comparator (directed_cmp lc fs col dir)" by (rule comparator_directed [OF assms])
  show "sorted_wrt (\<lambda>a b. \<not> is_pos (directed_cmp lc fs col dir a b)) (sortIndexEntries lc es col dir fs)"
    unfolding sortIndexEntries_def by (rule comparator.sorted_js_sort [OF c])
  have "same_rank lc fs col dir = comparator.tied (directed_cmp lc fs col dir)"
    by (simp add: fun_eq_iff same_rank_def comparator.tied_def [OF c])
  then show "filter (same_rank lc fs col dir e) (sortIndexEntries lc es col dir fs) =
         filter (same_rank lc fs col dir e) es"
    unfolding sortIndexEntries_def by (simp add: comparator.stable_js_sort [OF c])
qed

lemma mset_sortIndexEntries [simp]: "mset (sortIndexEntries lc es col dir fs) = mset es"
  by (simp add: sortIndexEntries_def)

lemma distinct_merged_ids:
  assumes "distinct (map ie_run_id (ix_entries ix))" "distinct (map lr_run_id lrs)"
  shows "distinct (map ie_run_id (mergedEntries (Some ix) (Some lrs)))"
  using assms by (auto simp del: map_append simp: merged_ids)

text \<open>C14: The rows of the page. They are exactly the merged entries the filters keep, each as often as
  it occurs; they are in the order of the chosen column and direction, and entries the column does not
  tell apart keep their order, live runs before indexed ones. When the ids of the indexed runs and the
  ids of the live runs are each without duplicates, no two rows show the same run. This holds for every
  column, the throughput column with its missing values included, if the locale comparison of texts is
  a total preorder.\<close>

theorem runs_rows_ordered:
  assumes "comparator lc"
    and "distinct (map ie_run_id (ix_entries ix))" "distinct (map lr_run_id lrs)"
  shows "mset (page_rows lc f col dir fs (Some ix) (Some lrs)) =
           filter_mset (keep_entry f) (mset (mergedEntries (Some ix) (Some lrs))) \<and>
         sorted_wrt (\<lambda>a b. \<not> is_pos (directed_cmp lc fs col dir a b))
           (page_rows lc f col dir fs (Some ix) (Some lrs)) \<and>
         filter (same_rank lc fs col dir e) (page_rows lc f col dir fs (Some ix) (Some lrs)) =
           filter (same_rank lc fs col dir e) (filter (keep_entry f) (mergedEntries (Some ix) (Some lrs))) \<and>
         distinct (map ie_run_id (page_rows lc f col dir fs (Some ix) (Some lrs)))"
proof -
  have "distinct (map ie_run_id (filter (keep_entry f) (mergedEntries (Some ix) (Some lrs))))"
    by (rule distinct_map_filter [OF distinct_merged_ids [OF assms(2,3)]])
  then have "distinct (map ie_run_id (page_rows lc f col dir fs (Some ix) (Some lrs)))"
    by (metis mset_sortIndexEntries mset_map mset_eq_imp_distinct_iff page_rows_def)
  then show ?thesis
    by (simp add: page_rows_def sortIndexEntries_sound [OF assms(1)])
qed

definition example_entry :: "string \<Rightarrow> string \<Rightarrow> real \<Rightarrow> index_entry" where
  "example_entry rid client passed =
     \<lparr>ie_run_id = rid, ie_timestamp = 10, ie_timestamp_end = Some 20, ie_suite_hash = Some ''s1'',
      ie_instance = \<lparr>ii_id = [], ii_client = client, ii_image = ''img'', ii_rollback_strategy = None\<rparr>,
      ie_tests = \<lparr>it_total = 5, it_passed = passed, it_failed = 5 - passed,
        it_steps = \<lparr>st_setup = None, st_test = None, st_cleanup = None\<rparr>\<rparr>,
      ie_status = None, ie_termination_reason = None, ie_metadata = None,
      ie_deletion_requested_at = None, ie_deletion_error = None\<rparr>"

definition example_live :: LiveRun where
  "example_live =
     \<lparr>lr_id = 1, lr_discovery_path = ''d'', lr_run_id = ''r3'', lr_timestamp = 30, lr_timestamp_end = None,
      lr_suite_hash = Some ''s1'', lr_status = Running, lr_termination_reason = None, lr_instance_id = None,
      lr_client = Some ''reth'', lr_image = None, lr_rollback_strategy = None, lr_tests_total = 5,
      lr_tests_passed = 1, lr_tests_failed = 0, lr_metadata = None, lr_total_gas_used = None,
      lr_total_gas_used_duration_ns = None\<rparr>"

definition example_index :: index where
  "example_index = \<lparr>ix_generated = 1, ix_entries = [example_entry ''r1'' ''reth'' 5, example_entry ''r2'' ''geth'' 3]\<rparr>"

definition example_filters :: run_filters where
  "example_filters = \<lparr>rf_client = Some ''reth'', rf_image = None, rf_suite = None, rf_strategy = None,
     rf_status = AllRuns, rf_labels = [], rf_matchingSuites = None\<rparr>"

theorem runs_rows_ordered_witness:
  "mset (page_rows (key_cmp (\<lambda>s. real (length s))) example_filters ByPassed Ascending [Test] (Some example_index)
     (Some [example_live])) = {#example_entry ''r1'' ''reth'' 5, live_entry example_live#}"
proof -
  have ids: "map ie_run_id (ix_entries example_index) = [''r1'', ''r2'']"
    by (simp add: example_index_def example_entry_def)
  have kept: "filter_mset (keep_entry example_filters)
      (mset (mergedEntries (Some example_index) (Some [example_live]))) =
      {#example_entry ''r1'' ''reth'' 5, live_entry example_live#}"
    by (simp add: mergedEntries_def Let_def ids)
      (simp add: example_index_def keep_entry_def example_filters_def wants_def status_allows_def
        labels_allow_def example_entry_def live_entry_def example_live_def or_empty_def)
  show ?thesis
    using runs_rows_ordered [OF key.comparator_axioms [of "\<lambda>s. real (length s)"], where ix = example_index
        and lrs = "[example_live]" and f = example_filters and col = ByPassed and dir = Ascending
        and fs = "[Test]" and e = "example_entry ''r1'' ''reth'' 5"]
    by (simp only: ids kept) simp
qed

subsection \<open>Label filters\<close>

text \<open>The filters the page can hold: no key twice, no key without values, no empty text.\<close>

definition wf_labels :: "LabelFilters \<Rightarrow> bool" where
  "wf_labels f \<longleftrightarrow> distinct (map fst f) \<and>
     (\<forall>(k, vs) \<in> set f. k \<noteq> [] \<and> vs \<noteq> [] \<and> distinct vs \<and> [] \<notin> set vs)"

definition selected_values :: "LabelFilters \<Rightarrow> string \<Rightarrow> string set" where
  "selected_values f k = (case map_of f k of None \<Rightarrow> {} | Some vs \<Rightarrow> set vs)"

lemma decode_nonempty: "decodeURIComponent s = Inr t \<Longrightarrow> s \<noteq> [] \<Longrightarrow> t \<noteq> []"
proof (cases s)
  case (Cons c cs)
  have cons: "cons_result a r \<noteq> Inr []" for a r by (cases r) auto
  assume "decodeURIComponent s = Inr t" "s \<noteq> []"
  then show ?thesis using Cons cons
    by (auto split: if_splits option.splits list.splits)
qed simp

lemma map_set_fresh: "k \<notin> set (map fst m) \<Longrightarrow> map_set k v m = m @ [(k, v)]"
  by (induction m) auto

lemma set_map_set: "p \<in> set (map_set k v m) \<Longrightarrow> p = (k, v) \<or> p \<in> set m"
  by (induction m) (auto split: if_splits)

lemma wf_labels_set:
  assumes "wf_labels f" "k \<noteq> []" "vs \<noteq> []" "distinct vs" "[] \<notin> set vs"
  shows "wf_labels (map_set k vs f)"
  using assms set_map_set [of _ k vs f] by (fastforce simp: wf_labels_def distinct_map_set)

lemma wf_labels_delete: "wf_labels f \<Longrightarrow> wf_labels (map_delete k f)"
  by (auto simp: wf_labels_def map_delete_def distinct_map_filter)

lemma wf_labels_get: "wf_labels f \<Longrightarrow> map_of f k = Some vs \<Longrightarrow> k \<noteq> [] \<and> vs \<noteq> [] \<and> distinct vs \<and> [] \<notin> set vs"
  by (auto simp: wf_labels_def dest!: map_of_SomeD)

lemma js_set_of_Nil_iff [simp]: "js_set_of xs = [] \<longleftrightarrow> xs = []"
  by (metis set_empty set_js_set_of)

text \<open>Reading the URL gives filters of this form, whatever the URL says.\<close>

lemma parse_segment_wf:
  assumes "wf_labels f" "parse_label_segment s f = Inr g"
  shows "wf_labels g"
proof -
  have key: "k \<noteq> []" if "index_of CHR '':'' s = Some i" "\<not> i < 1" "decodeURIComponent (take i s) = Inr k" for i k
  proof -
    have "take i s \<noteq> []" using that(1,2) by (cases s) auto
    then show ?thesis using decode_nonempty [OF that(3)] by blast
  qed
  show ?thesis
    using assms(2) assms(1)
    by (auto simp: parse_label_segment_def Let_def split: option.splits if_splits sum.splits
        intro!: wf_labels_set dest: key)
qed

lemma parse_segments_wf: "wf_labels f \<Longrightarrow> parse_label_segments ss f = Inr g \<Longrightarrow> wf_labels g"
  by (induction ss f rule: parse_label_segments.induct) (auto split: sum.splits dest: parse_segment_wf)

lemma parse_labels_wf: "parseLabelFilters raw = Inr f \<Longrightarrow> wf_labels f"
  by (auto simp: parseLabelFilters_def wf_labels_def split: option.splits if_splits
      dest!: parse_segments_wf [rotated])

text \<open>Writing filters and reading them back loses the empty text, as a label or as a value, and what is
  left without values.\<close>

definition js_labels :: "LabelFilters \<Rightarrow> bool" where
  "js_labels f \<longleftrightarrow> distinct (map fst f) \<and> (\<forall>(k, vs) \<in> set f. distinct vs)"

definition named_labels :: "LabelFilters \<Rightarrow> LabelFilters" where
  "named_labels f = filter (\<lambda>(k, vs). k \<noteq> [] \<and> vs \<noteq> []) (map (\<lambda>(k, vs). (k, filter (\<lambda>v. v \<noteq> []) vs)) f)"

lemma label_part_free:
  assumes "x \<in> set (concat (map label_part f))"
  shows "CHR '','' \<notin> set x \<and> x \<noteq> []"
proof -
  have "CHR '','' \<notin> set (join ''|'' (map encodeURIComponent vs))" for vs
    using set_join [of "''|''" "map encodeURIComponent vs"] encode_free(1) by fastforce
  then show ?thesis using assms by (auto simp: label_part_def split: if_splits)
qed

lemma parse_any_part:
  assumes "vs \<noteq> []" "distinct vs"
  shows "parse_label_segment (encodeURIComponent k @ '':'' @ join ''|'' (map encodeURIComponent vs)) f =
    Inr (if k = [] \<or> filter (\<lambda>v. v \<noteq> []) vs = [] then f else map_set k (filter (\<lambda>v. v \<noteq> []) vs) f)"
proof -
  have split: "split_on CHR ''|'' (join ''|'' (map encodeURIComponent vs)) = map encodeURIComponent vs"
    by (rule split_on_join) (use assms in auto)
  show ?thesis
    using assms by (simp add: parse_label_segment_def index_of_append split js_set_of_id Let_def)
qed

lemma parse_any_parts:
  "js_labels g \<Longrightarrow> set (map fst f) \<inter> set (map fst g) = {} \<Longrightarrow>
    parse_label_segments (concat (map label_part g)) f = Inr (f @ named_labels g)"
proof (induction g arbitrary: f)
  case Nil
  then show ?case by (simp add: named_labels_def)
next
  case (Cons p g)
  obtain k vs where p: "p = (k, vs)" by (cases p)
  define ws where "ws = filter (\<lambda>v. v \<noteq> []) vs"
  have g: "js_labels g" "k \<notin> set (map fst g)" "k \<notin> set (map fst f)" "distinct vs"
    and disj: "set (map fst f) \<inter> set (map fst g) = {}"
    using Cons.prems by (auto simp: js_labels_def p)
  show ?case
  proof (cases "k = [] \<or> ws = []")
    case True
    then have "named_labels (p # g) = named_labels g" by (simp add: named_labels_def p flip: ws_def)
    moreover have "label_part p = [] \<or> label_part p \<noteq> [] \<and> vs \<noteq> []" by (simp add: label_part_def p)
    ultimately show ?thesis using True Cons.IH [OF g(1) disj] parse_any_part [of vs k f] g(4)
      by (auto simp: label_part_def p ws_def)
  next
    case False
    then have vs: "vs \<noteq> []" by (auto simp: ws_def)
    have named: "named_labels (p # g) = (k, ws) # named_labels g"
      using False by (simp add: named_labels_def p flip: ws_def)
    have "set (map fst (f @ [(k, ws)])) \<inter> set (map fst g) = {}" using disj g(2) by auto
    from Cons.IH [OF g(1) this] show ?thesis
      using parse_any_part [OF vs g(4), of k f] False g(3) vs named
      by (simp add: p label_part_def map_set_fresh flip: ws_def)
  qed
qed

lemma label_roundtrip_named:
  assumes "js_labels f"
  shows "parseLabelFilters (serializeLabelFilters f) = Inr (named_labels f)"
proof -
  define parts where "parts = concat (map label_part f)"
  have free: "\<forall>x \<in> set parts. CHR '','' \<notin> set x \<and> x \<noteq> []"
    using label_part_free by (auto simp: parts_def)
  have parsed: "parse_label_segments parts [] = Inr (named_labels f)"
    using parse_any_parts [OF assms, of "[]"] by (simp add: parts_def)
  show ?thesis
  proof (cases "parts = []")
    case True
    then show ?thesis using parsed by (simp add: serializeLabelFilters_def parseLabelFilters_def flip: parts_def)
  next
    case False
    then have "join '','' parts \<noteq> []" using free by (auto simp: join_Nil_iff)
    moreover have "split_on CHR '','' (join '','' parts) = parts"
      by (rule split_on_join) (use False free in auto)
    moreover have "f \<noteq> []" using False by (auto simp: parts_def)
    ultimately show ?thesis
      using False parsed by (simp add: serializeLabelFilters_def parseLabelFilters_def flip: parts_def)
  qed
qed

lemma wf_named: "wf_labels f \<Longrightarrow> js_labels f \<and> named_labels f = f"
proof -
  assume wf: "wf_labels f"
  have "map (\<lambda>(k, vs). (k, filter (\<lambda>v. v \<noteq> []) vs)) f = f"
    by (rule map_idI) (use wf in \<open>auto simp: wf_labels_def filter_id_conv\<close>)
  moreover have "filter (\<lambda>(k, vs). k \<noteq> [] \<and> vs \<noteq> []) f = f"
    using wf by (auto simp: wf_labels_def filter_id_conv)
  ultimately show ?thesis using wf by (auto simp: js_labels_def named_labels_def wf_labels_def)
qed

lemma label_roundtrip: "wf_labels f \<Longrightarrow> parseLabelFilters (serializeLabelFilters f) = Inr f"
  using label_roundtrip_named wf_named by metis

text \<open>The handlers of the filter bar: each reads the filters of the URL and writes the changed ones back.\<close>

datatype label_click = ToggleValue string string | RemoveLabel string

fun apply_click :: "LabelFilters \<Rightarrow> label_click \<Rightarrow> LabelFilters" where
  "apply_click f (ToggleValue k v) = toggle_label_value f k v"
| "apply_click f (RemoveLabel k) = remove_label_filter f k"

definition label_url_step :: "string option \<Rightarrow> label_click \<Rightarrow> string option" where
  "label_url_step url click =
     (case parseLabelFilters url of Inl e \<Rightarrow> url | Inr f \<Rightarrow> serializeLabelFilters (apply_click f click))"

text \<open>The abstract filter bar: a set of values for every label. The empty text can be neither selected
  nor taken back, as a value or as a label: the URL has no place for it.\<close>

fun click_spec :: "(string \<Rightarrow> string set) \<Rightarrow> label_click \<Rightarrow> (string \<Rightarrow> string set)" where
  "click_spec sel (ToggleValue k v) =
     (if k = [] \<or> v = [] then sel
      else sel(k := if v \<in> sel k then sel k - {v} else insert v (sel k)))"
| "click_spec sel (RemoveLabel k) = sel(k := {})"

lemma selected_set [simp]: "selected_values (map_set k vs f) = (selected_values f)(k := set vs)"
  by (simp add: selected_values_def jm.get_put fun_eq_iff)

lemma map_of_delete: "map_of (map_delete k f) = (map_of f)(k := None)"
  by (induction f) (auto simp: map_delete_def)

lemma selected_delete [simp]: "selected_values (map_delete k f) = (selected_values f)(k := {})"
  by (auto simp: selected_values_def map_of_delete fun_eq_iff)

lemma selected_named:
  "distinct (map fst f) \<Longrightarrow> selected_values (named_labels f) k = (if k = [] then {} else selected_values f k - {[]})"
proof (induction f)
  case (Cons p f)
  have sel: "selected_values ((k', vs) # g) l = (if l = k' then set vs else selected_values g l)" for k' vs g l
    by (simp add: selected_values_def)
  have fresh: "selected_values f (fst p) = {}" using Cons.prems
    by (auto simp: selected_values_def dest!: map_of_SomeD split: option.split) (metis fst_conv imageI)
  show ?case
    using Cons fresh by (cases p) (auto simp: named_labels_def sel filter_empty_conv split: if_splits)
qed (simp add: named_labels_def selected_values_def)

lemma toggle_values:
  "selected_values (toggle_label_value f k v) =
     (selected_values f)(k := if v \<in> selected_values f k then selected_values f k - {v}
                              else insert v (selected_values f k))"
proof -
  define vals where "vals = (case map_of f k of None \<Rightarrow> [] | Some vs \<Rightarrow> vs)"
  have sel: "selected_values f k = set vals"
    by (simp add: selected_values_def vals_def split: option.split)
  have del: "set_delete v vals = [] \<longleftrightarrow> set vals - {v} = {}"
    by (metis set_empty set_set_delete)
  show ?thesis
    unfolding toggle_label_value_def vals_def [symmetric] Let_def by (auto simp: sel del fun_eq_iff)
qed

lemma wf_selected:
  assumes "wf_labels f"
  shows "selected_values f [] = {}" "[] \<notin> selected_values f k"
proof -
  have "selected_values f k = (if k = [] then {} else selected_values f k - {[]})" for k
    using selected_named [of f k] wf_named [OF assms] assms by (simp add: wf_labels_def)
  then show "selected_values f [] = {}" "[] \<notin> selected_values f k" by (metis Diff_iff empty_iff insertI1)+
qed

lemma apply_click_spec:
  assumes "wf_labels f"
  shows "selected_values (named_labels (apply_click f c)) = click_spec (selected_values f) c"
proof -
  have "distinct (map fst (apply_click f c))"
    using assms wf_labels_delete [OF assms]
    by (cases c) (auto simp: toggle_label_value_def remove_label_filter_def Let_def wf_labels_def distinct_map_set)
  from selected_named [OF this] show ?thesis
    using wf_selected [OF assms]
    by (cases c) (auto simp: toggle_values remove_label_filter_def fun_eq_iff)
qed

lemma js_labels_set: "js_labels f \<Longrightarrow> distinct vs \<Longrightarrow> js_labels (map_set k vs f)"
  using set_map_set [of _ k vs f] by (fastforce simp: js_labels_def distinct_map_set)

lemma js_labels_delete: "js_labels f \<Longrightarrow> js_labels (map_delete k f)"
  by (auto simp: js_labels_def map_delete_def distinct_map_filter)

lemma apply_click_js:
  assumes "js_labels f"
  shows "js_labels (apply_click f c)"
proof (cases c)
  case (ToggleValue k v)
  define vals where "vals = (case map_of f k of None \<Rightarrow> [] | Some vs \<Rightarrow> vs)"
  have "distinct vals" using assms
    by (auto simp: vals_def js_labels_def dest: map_of_SomeD split: option.split)
  then show ?thesis
    unfolding ToggleValue apply_click.simps toggle_label_value_def vals_def [symmetric] Let_def
    using assms by (simp add: js_labels_set js_labels_delete)
qed (simp add: remove_label_filter_def js_labels_delete assms)

lemma labels_allow_iff:
  assumes "wf_labels f"
  shows "labels_allow f md \<longleftrightarrow>
    (\<forall>k. selected_values f k = {} \<or> (\<exists>v \<in> selected_values f k. label_of md k = Some v))"
proof -
  have mem: "selected_values f k = set vs \<and> vs \<noteq> []" if "(k, vs) \<in> set f" for k vs
    using assms that by (auto simp: wf_labels_def selected_values_def)
  have sel: "\<exists>vs. (k, vs) \<in> set f \<and> selected_values f k = set vs" if "selected_values f k \<noteq> {}" for k
    using that by (auto simp: selected_values_def dest: map_of_SomeD split: option.splits)
  show ?thesis
  proof
    assume allow: "labels_allow f md"
    have "\<exists>v \<in> selected_values f k. label_of md k = Some v" if ne: "selected_values f k \<noteq> {}" for k
    proof -
      obtain vs where vs: "(k, vs) \<in> set f" "selected_values f k = set vs" using sel [OF ne] by blast
      then have "case label_of md k of None \<Rightarrow> False | Some v \<Rightarrow> v \<in> set vs"
        using allow by (auto simp: labels_allow_def)
      then show ?thesis using vs(2) by (simp split: option.splits)
    qed
    then show "\<forall>k. selected_values f k = {} \<or> (\<exists>v \<in> selected_values f k. label_of md k = Some v)" by blast
  next
    assume all: "\<forall>k. selected_values f k = {} \<or> (\<exists>v \<in> selected_values f k. label_of md k = Some v)"
    have "case label_of md k of None \<Rightarrow> False | Some v \<Rightarrow> v \<in> set vs" if "(k, vs) \<in> set f" for k vs
      using all mem [OF that] by (metis option.simps(5) set_empty)
    then show "labels_allow f md" by (auto simp: labels_allow_def)
  qed
qed

text \<open>C8: The label filters live in the URL only. From any URL that can be read, after any sequence of
  clicks on values and removals of labels, the URL reads back as filters that select exactly what the
  clicks say: a value is selected when it was toggled on last, a removed label has no value selected,
  and a click on the empty value (offered when some run has the empty text as the value of a label)
  changes nothing. Labels and values with separators or any other character survive. An entry passes
  these filters iff for each label with a selection, its own value of the label is among the selected
  ones.\<close>

theorem label_filters_follow_clicks:
  assumes "parseLabelFilters url = Inr f"
  shows "\<exists>g. parseLabelFilters (run label_url_step url clicks) = Inr g \<and>
    selected_values g = run click_spec (selected_values f) clicks \<and>
    (\<forall>md. labels_allow g md \<longleftrightarrow>
      (\<forall>k. run click_spec (selected_values f) clicks k = {} \<or>
        (\<exists>v \<in> run click_spec (selected_values f) clicks k. label_of md k = Some v)))"
proof -
  have "\<exists>g. parseLabelFilters (run label_url_step url clicks) = Inr g \<and>
    selected_values g = run click_spec (selected_values f) clicks"
    using assms
  proof (induction clicks arbitrary: url f)
    case Nil
    then show ?case by simp
  next
    case (Cons c cs)
    have wf: "wf_labels f" using parse_labels_wf [OF Cons.prems] .
    have "parseLabelFilters (label_url_step url c) = Inr (named_labels (apply_click f c))"
      using wf_named [OF wf] by (simp add: label_url_step_def Cons.prems label_roundtrip_named apply_click_js)
    from Cons.IH [OF this] show ?case by (simp add: apply_click_spec [OF wf])
  qed
  then show ?thesis using labels_allow_iff parse_labels_wf by metis
qed

theorem label_filters_follow_clicks_witness:
  "\<exists>g. parseLabelFilters (run label_url_step None
      [ToggleValue ''os'' ''a|b,c'', ToggleValue ''os'' [], ToggleValue ''os'' ''d'', ToggleValue ''cpu'' ''x'',
       RemoveLabel ''cpu'']) = Inr g \<and>
    selected_values g ''os'' = {''a|b,c'', ''d''} \<and> selected_values g ''cpu'' = {}"
proof -
  have start: "parseLabelFilters None = Inr []" by (simp add: parseLabelFilters_def)
  define clicks where "clicks = [ToggleValue ''os'' ''a|b,c'', ToggleValue ''os'' [], ToggleValue ''os'' ''d'',
      ToggleValue ''cpu'' ''x'', RemoveLabel ''cpu'']"
  have "run click_spec (selected_values []) clicks ''os'' = {''a|b,c'', ''d''}"
    "run click_spec (selected_values []) clicks ''cpu'' = {}"
    by (auto simp: clicks_def selected_values_def)
  then show ?thesis
    using label_filters_follow_clicks [OF start, of clicks] unfolding clicks_def [symmetric] by metis
qed

text \<open>A value that is offered because some run has the empty text as the value of a label cannot be
  selected: it does not survive the URL.\<close>

lemma empty_value_is_lost:
  "parseLabelFilters (serializeLabelFilters (toggle_label_value [] ''os'' [])) = Inr []"
  by (simp add: toggle_label_value_def set_add_def serializeLabelFilters_def label_part_def
      parseLabelFilters_def parse_label_segment_def encodeURIComponent_def enc_char_def unreserved_def is_digit_def)

text \<open>A malformed escape in the parameter is thrown while the page renders.\<close>

lemma malformed_labels_throw: "parseLabelFilters (Some ''os:50%'') = Inl URIError"
  by (simp add: parseLabelFilters_def parse_label_segment_def)

end
