(* ===== verification/Pagination.thy ===== *)
theory Pagination
  imports Js_Core
begin

text \<open>
  Paged tables. The buttons of \<open>ui/src/components/shared/Pagination.tsx\<close>: the first, the last and the
  pages within two of the current one, with an ellipsis for each run of pages left out. The cut of a
  table into pages, as the run list and the other tables do it (\<open>Math.ceil(n / size)\<close> pages, page
  \<open>p\<close> being \<open>slice((p - 1) * size, p * size)\<close>).
\<close>

section \<open>Buttons\<close>

datatype page_item = Page int | Ellipsis

definition DELTA :: int where
  "DELTA = 2"

definition shown_page :: "int \<Rightarrow> int \<Rightarrow> int \<Rightarrow> bool" where
  "shown_page total_pages current i \<longleftrightarrow>
     i = 1 \<or> i = total_pages \<or> (current - DELTA \<le> i \<and> i \<le> current + DELTA)"

definition push_page :: "int \<Rightarrow> int \<Rightarrow> page_item list \<Rightarrow> int \<Rightarrow> page_item list" where
  "push_page total_pages current pages i =
     (if shown_page total_pages current i then pages @ [Page i]
      else if pages \<noteq> [] \<and> last pages = Ellipsis then pages else pages @ [Ellipsis])"

text \<open>With at most one page nothing is rendered.\<close>

definition page_items :: "int \<Rightarrow> int \<Rightarrow> page_item list option" where
  "page_items total_pages current =
     (if total_pages \<le> 1 then None else Some (foldl (push_page total_pages current) [] [1..total_pages]))"

text \<open>The page an arrow leads to; the arrow is disabled at its end.\<close>

definition previous_page :: "int \<Rightarrow> int option" where
  "previous_page current = (if current = 1 then None else Some (current - 1))"

definition next_page :: "int \<Rightarrow> int \<Rightarrow> int option" where
  "next_page total_pages current = (if current = total_pages then None else Some (current + 1))"


section \<open>Pages of a table\<close>

text \<open>\<open>Array.prototype.slice\<close>: a negative bound counts from the end.\<close>

definition slice_bound :: "int \<Rightarrow> nat \<Rightarrow> nat" where
  "slice_bound i n = (if i < 0 then nat (max 0 (int n + i)) else nat (min i (int n)))"

definition js_slice :: "int \<Rightarrow> int \<Rightarrow> 'a list \<Rightarrow> 'a list" where
  "js_slice from_i to_i xs = drop (slice_bound from_i (length xs)) (take (slice_bound to_i (length xs)) xs)"

text \<open>\<open>Math.ceil(n / size)\<close>: for a size of zero the quotient is not finite.\<close>

definition page_count :: "nat \<Rightarrow> int \<Rightarrow> jsnum" where
  "page_count n sz =
     (case num_quot (real n) (of_int sz) of Fin q \<Rightarrow> Fin (of_int \<lceil>q\<rceil>) | x \<Rightarrow> x)"

definition page_slice :: "int \<Rightarrow> 'a list \<Rightarrow> int \<Rightarrow> 'a list" where
  "page_slice sz xs p = js_slice ((p - 1) * sz) (p * sz) xs"


section \<open>Lemmas\<close>

subsection \<open>Buttons\<close>

text \<open>The reference: the shown pages, with an ellipsis between two that are not neighbours.\<close>

fun with_gaps :: "int list \<Rightarrow> page_item list" where
  "with_gaps [] = []"
| "with_gaps [i] = [Page i]"
| "with_gaps (i # j # is) = (if j = i + 1 then Page i # with_gaps (j # is) else Page i # Ellipsis # with_gaps (j # is))"

definition shown_pages :: "int \<Rightarrow> int \<Rightarrow> int \<Rightarrow> int list" where
  "shown_pages total_pages current n = filter (shown_page total_pages current) [1..n]"

lemma with_gaps_snoc:
  "is \<noteq> [] \<Longrightarrow> with_gaps (is @ [j]) = with_gaps is @ (if j = last is + 1 then [] else [Ellipsis]) @ [Page j]"
  by (induction "is" rule: with_gaps.induct) auto

lemma last_with_gaps: "is \<noteq> [] \<Longrightarrow> with_gaps is \<noteq> [] \<and> last (with_gaps is) = Page (last is)"
  by (induction "is" rule: with_gaps.induct) auto

lemma upto_snoc: "0 \<le> n \<Longrightarrow> [1..n + 1] = [1..n] @ [n + 1]" for n :: int
  by (simp add: upto_rec2)

lemma first_page_shown [simp]: "shown_page t c 1"
  by (simp add: shown_page_def)

text \<open>After \<open>n\<close> iterations: the layout of the shown pages up to \<open>n\<close>, and an open ellipsis if \<open>n\<close>
  itself is left out.\<close>

lemma push_pages:
  "foldl (push_page t c) [] [1..int n + 1] =
     with_gaps (shown_pages t c (int n + 1)) @
     (if last (shown_pages t c (int n + 1)) = int n + 1 then [] else [Ellipsis]) \<and>
   shown_pages t c (int n + 1) \<noteq> [] \<and> last (shown_pages t c (int n + 1)) \<le> int n + 1"
proof (induction n)
  case 0
  then show ?case by (simp add: shown_pages_def push_page_def)
next
  case (Suc n)
  define sh where "sh = shown_pages t c (int n + 1)"
  have range: "[1..int (Suc n) + 1] = [1..int n + 1] @ [int n + 2]"
    using upto_snoc [of "int n + 1"] by (simp add: add.commute)
  have shown: "shown_pages t c (int (Suc n) + 1) =
      (if shown_page t c (int n + 2) then sh @ [int n + 2] else sh)"
    by (simp only: shown_pages_def range sh_def) simp
  have IH: "foldl (push_page t c) [] [1..int n + 1] =
      with_gaps sh @ (if last sh = int n + 1 then [] else [Ellipsis])" "sh \<noteq> []" "last sh \<le> int n + 1"
    using Suc.IH unfolding sh_def by blast+
  have step: "foldl (push_page t c) [] [1..int (Suc n) + 1] =
      push_page t c (with_gaps sh @ (if last sh = int n + 1 then [] else [Ellipsis])) (int n + 2)"
    by (simp only: range foldl_append IH(1)) simp
  show ?case
    unfolding step shown using IH(2,3) last_with_gaps [OF IH(2)] with_gaps_snoc [OF IH(2)]
    by (auto simp: push_page_def)
qed

lemma page_items_with_gaps:
  assumes "1 < t"
  shows "page_items t c = Some (with_gaps (shown_pages t c t))"
proof -
  have t: "int (nat (t - 1)) + 1 = t" using assms by simp
  have "shown_pages t c t = shown_pages t c (t - 1) @ [t]"
    using upto_snoc [of "t - 1"] assms by (simp add: shown_pages_def shown_page_def)
  then have "last (shown_pages t c t) = t" by simp
  then show ?thesis
    using push_pages [of t c "nat (t - 1)"] assms unfolding t by (simp add: page_items_def)
qed

text \<open>How many ellipses there are: one before each shown page, but the first, whose predecessor is
  left out.\<close>

lemma shown_sorted: "sorted_wrt (<) (shown_pages t c n)"
  unfolding shown_pages_def by (intro sorted_wrt_filter) (simp add: strict_sorted_iff [symmetric])

lemma set_shown: "set (shown_pages t c n) = {i. 1 \<le> i \<and> i \<le> n \<and> shown_page t c i}"
  by (auto simp: shown_pages_def)

lemma length_with_gaps:
  "sorted_wrt (<) is \<Longrightarrow>
    length (with_gaps is) = length is + card {j \<in> set (tl is). j - 1 \<notin> set is}"
proof (induction "is" rule: with_gaps.induct)
  case (3 i j "is")
  have ord: "i < j" "\<forall>k \<in> set is. j < k" using 3(3) by simp_all
  have first: "j - 1 \<in> set (i # j # is) \<longleftrightarrow> j = i + 1" using ord by fastforce
  have rest: "k - 1 \<noteq> i" if "k \<in> set is" for k using ord that by fastforce
  have eq: "{k \<in> set (tl (i # j # is)). k - 1 \<notin> set (i # j # is)} =
      (if j = i + 1 then {} else {j}) \<union> {k \<in> set (tl (j # is)). k - 1 \<notin> set (j # is)}"
    using first rest by auto
  have "j \<notin> {k \<in> set (tl (j # is)). k - 1 \<notin> set (j # is)}" using 3(3) by auto
  then have "card {k \<in> set (tl (i # j # is)). k - 1 \<notin> set (i # j # is)} =
      (if j = i + 1 then 0 else 1) + card {k \<in> set (tl (j # is)). k - 1 \<notin> set (j # is)}"
    unfolding eq by simp
  then show ?case using 3 by (simp split: if_splits)
qed simp_all

lemma shown_few:
  assumes "1 < t"
  shows "length (with_gaps (shown_pages t c t)) \<le> 9"
proof -
  define sh where "sh = shown_pages t c t"
  have "set sh \<subseteq> {1, t, c - 2, c - 1, c, c + 1, c + 2}"
    by (auto simp: sh_def set_shown shown_page_def DELTA_def)
  then have "card (set sh) \<le> card {1, t, c - 2, c - 1, c, c + 1, c + 2}" by (intro card_mono) simp_all
  also have "\<dots> \<le> 7" using card_length [of "[1, t, c - 2, c - 1, c, c + 1, c + 2]"] by simp
  finally have "length sh \<le> 7"
    using shown_sorted [of t c t] by (simp add: sh_def strict_sorted_iff distinct_card)
  moreover have "{j \<in> set (tl sh). j - 1 \<notin> set sh} \<subseteq> {t, c - 2}"
  proof
    fix j assume j: "j \<in> {j \<in> set (tl sh). j - 1 \<notin> set sh}"
    have "sh = 1 # tl sh" using assms by (simp add: sh_def shown_pages_def upto_rec1)
    then have "1 < j" using j shown_sorted [of t c t] unfolding sh_def [symmetric]
      by (metis (no_types, lifting) mem_Collect_eq sorted_wrt.simps(2))
    moreover have "j \<in> set sh" using j by (metis (no_types, lifting) list.set_sel(2) list.sel(2) mem_Collect_eq)
    ultimately show "j \<in> {t, c - 2}" using j by (auto simp: sh_def set_shown shown_page_def DELTA_def)
  qed
  then have "card {j \<in> set (tl sh). j - 1 \<notin> set sh} \<le> card {t, c - 2}" by (intro card_mono) simp_all
  then have "card {j \<in> set (tl sh). j - 1 \<notin> set sh} \<le> 2" by (simp add: card_insert_if split: if_splits)
  ultimately show ?thesis
    using length_with_gaps [OF shown_sorted, of t c t] by (simp add: sh_def)
qed

text \<open>The page buttons. For two or more pages the loop produces exactly the reference layout: the
  first page, the last page and every page within two of the current one, in increasing order, with an
  ellipsis between two of them exactly where pages are left out, never two ellipses in a row. There are
  at most nine items, however many pages the table has. With one page or none nothing is shown. The
  current page need not exist.\<close>

theorem page_buttons:
  "page_items t c =
     (if t \<le> 1 then None else Some (with_gaps (filter (\<lambda>i. i = 1 \<or> i = t \<or> \<bar>i - c\<bar> \<le> 2) [1..t]))) \<and>
   length (case page_items t c of None \<Rightarrow> [] | Some items \<Rightarrow> items) \<le> 9"
proof (cases "1 < t")
  case True
  have "shown_page t c = (\<lambda>i. i = 1 \<or> i = t \<or> \<bar>i - c\<bar> \<le> 2)"
    by (auto simp: fun_eq_iff shown_page_def DELTA_def)
  then show ?thesis
    using True page_items_with_gaps [OF True] shown_few [OF True, of c] by (simp add: shown_pages_def)
qed (simp add: page_items_def)


subsection \<open>Pages\<close>

lemma js_slice_nat: "js_slice (int i) (int j) xs = drop i (take j xs)"
  by (simp add: js_slice_def slice_bound_def min_def)

lemma page_slice_nat:
  "page_slice (int s) xs (int p + 1) = take s (drop (p * s) xs)"
proof -
  have "page_slice (int s) xs (int p + 1) = js_slice (int (p * s)) (int ((p + 1) * s)) xs"
    by (simp add: page_slice_def algebra_simps)
  also have "\<dots> = drop (p * s) (take ((p + 1) * s) xs)" by (rule js_slice_nat)
  also have "\<dots> = take s (drop (p * s) xs)" by (simp add: drop_take)
  finally show ?thesis .
qed

lemma pages_prefix:
  "concat (map (page_slice (int s) xs) [1..int n]) = take (n * s) xs"
proof (induction n)
  case (Suc n)
  have "[1..int (Suc n)] = [1..int n] @ [int n + 1]"
    using upto_snoc [of "int n"] by (simp add: add.commute)
  then have "concat (map (page_slice (int s) xs) [1..int (Suc n)]) =
      take (n * s) xs @ page_slice (int s) xs (int n + 1)"
    by (simp only: map_append concat_append Suc.IH list.map concat.simps append_Nil2)
  also have "\<dots> = take (n * s + s) xs" by (simp only: page_slice_nat take_add)
  finally show ?case by (simp add: add.commute)
qed simp

lemma page_count_pos:
  assumes "0 < s"
  shows "page_count n (int s) = Fin (of_int \<lceil>real n / real s\<rceil>)"
  using assms by (simp add: page_count_def num_quot_Fin)

lemma page_count_bounds:
  assumes "0 < s" "page_count n (int s) = Fin (of_int m)"
  shows "0 \<le> m" "n \<le> nat m * s" "nat m * s < n + s"
proof -
  have m: "m = \<lceil>real n / real s\<rceil>" using assms(2) page_count_pos [OF assms(1), of n] by simp
  show "0 \<le> m" unfolding m by (metis ceiling_mono ceiling_zero divide_nonneg_nonneg of_nat_0_le_iff)
  then have "real n / real s \<le> real (nat m)" "real (nat m) < real n / real s + 1"
    unfolding m by linarith+
  then show "n \<le> nat m * s" "nat m * s < n + s"
    using assms(1) by (simp_all add: field_simps) (metis of_nat_le_iff of_nat_mult mult.commute,
      metis of_nat_less_iff of_nat_mult of_nat_add mult.commute)
qed

lemma pages_all:
  assumes "0 < sz" "page_count (length xs) sz = Fin (of_int m)"
  shows "concat (map (page_slice sz xs) [1..m]) = xs"
proof -
  have "0 < nat sz" "page_count (length xs) (int (nat sz)) = Fin (of_int m)" using assms by simp_all
  note b = page_count_bounds [OF this]
  show ?thesis using pages_prefix [of "nat sz" xs "nat m"] b(1,2) assms(1) by simp
qed

text \<open>The pages of a table. For every page size of at least one, the pages from the first to the
  last one hold all rows, in their order, each exactly once; no page has more rows than the size; the
  last page is not empty, and every page after it is. For the page size zero, which the URL can ask
  for, every page is empty.\<close>

theorem pages_partition_rows:
  assumes "0 < sz"
  shows "\<exists>n. page_count (length xs) sz = Fin (of_int n) \<and> 0 \<le> n \<and>
      concat (map (page_slice sz xs) [1..n]) = xs \<and>
      (\<forall>p. int (length (page_slice sz xs (p + 1))) \<le> sz \<or> p < 0) \<and>
      (n = 0 \<or> page_slice sz xs n \<noteq> []) \<and>
      (\<forall>p. p \<le> n \<or> page_slice sz xs p = []) \<and>
      page_slice 0 xs p0 = []"
proof -
  define s where "s = nat sz"
  have s: "0 < s" "sz = int s" using assms by (simp_all add: s_def)
  have "0 \<le> \<lceil>real (length xs) / real s\<rceil>"
    by (metis ceiling_mono ceiling_zero divide_nonneg_nonneg of_nat_0_le_iff)
  then obtain n where n: "\<lceil>real (length xs) / real s\<rceil> = int n" using zero_le_imp_eq_int by blast
  have count: "page_count (length xs) sz = Fin (of_int (int n))"
    using page_count_pos [OF s(1), of "length xs"] n s(2) by simp
  have upper: "length xs \<le> n * s" and lower: "n * s < length xs + s"
    using page_count_bounds [OF s(1), of "length xs" "int n"] count s(2) by simp_all
  have beyond: "page_slice sz xs p = []" if "int n < p" for p
  proof -
    have p: "p = int (nat (p - 1)) + 1" "n \<le> nat (p - 1)" using that by simp_all
    have "length xs \<le> nat (p - 1) * s" using upper mult_le_mono1 [OF p(2)] order_trans by blast
    then show ?thesis using page_slice_nat [of s xs "nat (p - 1)"] p(1) s(2) by simp
  qed
  have last: "page_slice sz xs (int n) \<noteq> []" if "n \<noteq> 0"
  proof -
    obtain m where m: "n = Suc m" using \<open>n \<noteq> 0\<close> by (cases n) auto
    then have "m * s < length xs" using lower by simp
    then show ?thesis using page_slice_nat [of s xs m] s by (simp add: m add.commute)
  qed
  have size: "int (length (page_slice sz xs (p + 1))) \<le> sz" if "0 \<le> p" for p
    using page_slice_nat [of s xs "nat p"] that s by simp
  have all: "concat (map (page_slice sz xs) [1..int n]) = xs"
    by (rule pages_all [OF assms count])
  have zero: "page_slice 0 xs p0 = []" by (simp add: page_slice_def js_slice_def slice_bound_def)
  show ?thesis
  proof (intro exI [of _ "int n"] conjI allI)
    show "int (length (page_slice sz xs (p + 1))) \<le> sz \<or> p < 0" for p
      using size [of p] by (cases "0 \<le> p") auto
    show "int n = 0 \<or> page_slice sz xs (int n) \<noteq> []" using last by auto
    show "p \<le> int n \<or> page_slice sz xs p = []" for p using beyond [of p] by (cases "int n < p") auto
  qed (simp_all only: all zero count of_nat_0_le_iff)
qed

theorem pages_partition_rows_witness:
  "\<exists>n. page_count 5 2 = Fin (of_int n) \<and> concat (map (page_slice 2 [a, b, c, d, e]) [1..n]) = [a, b, c, d, e]"
proof -
  have size_pos: "0 < (2 :: int)" by simp
  define xs where "xs = [a, b, c, d, e]"
  have len: "length xs = 5" by (simp add: xs_def)
  from pages_partition_rows [OF size_pos, of xs 1] obtain n where
    n: "page_count (length xs) 2 = Fin (of_int n)" "concat (map (page_slice 2 xs) [1..n]) = xs"
    by (elim exE conjE) (rule that)
  have "page_count 5 2 = Fin (of_int n)" using n(1) unfolding len .
  with n(2) show ?thesis unfolding xs_def [symmetric] by (intro exI [of _ n] conjI)
qed

end
