(* ===== verification/Runs_Page.thy ===== *)
theory Runs_Page
  imports Runs_List Pagination
begin

text \<open>
  The state machine of \<open>ui/src/pages/RunsPage.tsx\<close> with the row selection of
  \<open>ui/src/components/runs/RunsTable.tsx\<close>: search parameters, page, compare mode and delete mode. An
  event is a click of the user or an answer of the server; a row event carries the rows on the screen.
\<close>

section \<open>State\<close>

definition MIN_COMPARE_RUNS :: nat where
  "MIN_COMPARE_RUNS = 2"

definition MAX_COMPARE_RUNS :: nat where
  "MAX_COMPARE_RUNS = 5"

definition DEFAULT_PAGE_SIZE :: int where
  "DEFAULT_PAGE_SIZE = 100"

record runs_search =
  q_page :: "int option"
  q_pageSize :: "int option"
  q_client :: "string option"
  q_image :: "string option"
  q_suite :: "string option"
  q_strategy :: "string option"
  q_status :: "TestStatusFilter option"
  q_sortBy :: "SortColumn option"
  q_sortDir :: "SortDirection option"
  q_steps :: "string option"
  q_labels :: "string option"
  q_suiteLabels :: "string option"

text \<open>The parameters with their defaults.\<close>

definition or_else :: "'a option \<Rightarrow> 'a \<Rightarrow> 'a" where
  "or_else x d = (case x of None \<Rightarrow> d | Some v \<Rightarrow> v)"

definition page_of :: "runs_search \<Rightarrow> int" where
  "page_of q = or_else (q_page q) 1"

definition page_size_of :: "runs_search \<Rightarrow> int" where
  "page_size_of q = or_else (q_pageSize q) DEFAULT_PAGE_SIZE"

definition status_of :: "runs_search \<Rightarrow> TestStatusFilter" where
  "status_of q = or_else (q_status q) AllRuns"

definition sort_by_of :: "runs_search \<Rightarrow> SortColumn" where
  "sort_by_of q = or_else (q_sortBy q) ByTimestamp"

definition sort_dir_of :: "runs_search \<Rightarrow> SortDirection" where
  "sort_dir_of q = or_else (q_sortDir q) Descending"

datatype selection_kind = ForCompare | ForDelete

record runs_page =
  rp_search :: runs_search
  rp_localPage :: int
  rp_localPageSize :: int
  rp_compareMode :: bool
  rp_selected :: "string js_set"
  rp_deleteMode :: bool
  rp_deleteSelected :: "string js_set"
  rp_anchor :: "(string \<times> selection_kind option) option"
  rp_pending :: bool
  rp_deletions :: "string list list"
  rp_compared :: "string option"

definition open_page :: "runs_search \<Rightarrow> runs_page" where
  "open_page q =
     \<lparr>rp_search = q, rp_localPage = page_of q, rp_localPageSize = page_size_of q, rp_compareMode = False,
      rp_selected = [], rp_deleteMode = False, rp_deleteSelected = [], rp_anchor = None,
      rp_pending = False, rp_deletions = [], rp_compared = None\<rparr>"


section \<open>Search parameters\<close>

text \<open>\<open>navigate\<close> replaces the parameters; the effects follow when page or size changed.\<close>

definition go_to :: "runs_search \<Rightarrow> runs_page \<Rightarrow> runs_page" where
  "go_to q s =
     s\<lparr>rp_search := q,
       rp_localPage := (if page_of q \<noteq> page_of (rp_search s) then page_of q else rp_localPage s),
       rp_localPageSize :=
         (if page_size_of q \<noteq> page_size_of (rp_search s) then page_size_of q else rp_localPageSize s)\<rparr>"

text \<open>The parameters every handler writes, before its own change: the current ones with defaults
  resolved.\<close>

definition current_search :: "runs_page \<Rightarrow> int \<Rightarrow> runs_search" where
  "current_search s page =
     (let q = rp_search s
      in q\<lparr>q_page := Some page, q_pageSize := Some (rp_localPageSize s), q_status := Some (status_of q),
           q_sortBy := Some (sort_by_of q), q_sortDir := Some (sort_dir_of q)\<rparr>)"

definition handlePageChange :: "int \<Rightarrow> runs_page \<Rightarrow> runs_page" where
  "handlePageChange newPage s = go_to (current_search s newPage) (s\<lparr>rp_localPage := newPage\<rparr>)"

definition handlePageSizeChange :: "int \<Rightarrow> runs_page \<Rightarrow> runs_page" where
  "handlePageSizeChange newSize s =
     go_to ((current_search s 1)\<lparr>q_pageSize := Some newSize\<rparr>) (s\<lparr>rp_localPageSize := newSize, rp_localPage := 1\<rparr>)"

text \<open>The handlers of the filters differ in the parameter they change.\<close>

definition change_search :: "(runs_search \<Rightarrow> runs_search) \<Rightarrow> runs_page \<Rightarrow> runs_page" where
  "change_search change s = go_to (change (current_search s 1)) (s\<lparr>rp_localPage := 1\<rparr>)"

definition handleClientChange :: "string option \<Rightarrow> runs_page \<Rightarrow> runs_page" where
  "handleClientChange c = change_search (q_client_update (\<lambda>_. c))"

definition handleImageChange :: "string option \<Rightarrow> runs_page \<Rightarrow> runs_page" where
  "handleImageChange i = change_search (q_image_update (\<lambda>_. i))"

definition handleSuiteChange :: "string option \<Rightarrow> runs_page \<Rightarrow> runs_page" where
  "handleSuiteChange x = change_search (q_suite_update (\<lambda>_. x))"

definition handleStrategyChange :: "string option \<Rightarrow> runs_page \<Rightarrow> runs_page" where
  "handleStrategyChange x = change_search (q_strategy_update (\<lambda>_. x))"

definition handleStatusChange :: "TestStatusFilter \<Rightarrow> runs_page \<Rightarrow> runs_page" where
  "handleStatusChange st = change_search (q_status_update (\<lambda>_. Some st))"

definition handleSortChange :: "SortColumn \<Rightarrow> SortDirection \<Rightarrow> runs_page \<Rightarrow> runs_page" where
  "handleSortChange col dir =
     change_search (\<lambda>q. q\<lparr>q_sortBy := Some col, q_sortDir := Some dir\<rparr>)"

definition handleLabelFiltersChange :: "LabelFilters \<Rightarrow> runs_page \<Rightarrow> runs_page" where
  "handleLabelFiltersChange f = change_search (q_labels_update (\<lambda>_. serializeLabelFilters f))"

definition handleSuiteLabelFiltersChange :: "LabelFilters \<Rightarrow> runs_page \<Rightarrow> runs_page" where
  "handleSuiteLabelFiltersChange f = change_search (q_suiteLabels_update (\<lambda>_. serializeLabelFilters f))"

text \<open>The step filter: leaving all types out of the URL, the parameter reads back as the default.\<close>

definition steps_param :: "step_type list \<Rightarrow> string option" where
  "steps_param newFilter =
     (if length newFilter = length ALL_STEP_TYPES then None else Some (join '','' (map step_name newFilter)))"

definition handleStepFilterChange :: "step_type list \<Rightarrow> runs_page \<Rightarrow> runs_page" where
  "handleStepFilterChange newFilter = change_search (q_steps_update (\<lambda>_. steps_param newFilter))"

definition step_filter_of :: "runs_page \<Rightarrow> step_type list" where
  "step_filter_of s = parseStepFilter (q_steps (rp_search s))"

definition toggle_step :: "step_type \<Rightarrow> step_type list \<Rightarrow> step_type list" where
  "toggle_step t ts = (if t \<in> set ts then filter (\<lambda>u. u \<noteq> t) ts else ts @ [t])"

definition click_step :: "step_type \<Rightarrow> runs_page \<Rightarrow> runs_page" where
  "click_step t s =
     (let newFilter = toggle_step t (step_filter_of s)
      in if newFilter \<noteq> [] then handleStepFilterChange newFilter s else s)"

text \<open>A click on a column header (\<open>handleSort\<close> of the table).\<close>

definition handleSort :: "SortColumn \<Rightarrow> runs_page \<Rightarrow> runs_page" where
  "handleSort column s =
     (let q = rp_search s;
          newDirection = (if sort_by_of q = column \<and> sort_dir_of q = Descending then Ascending else Descending)
      in handleSortChange column (if column = sort_by_of q then newDirection else Descending) s)"

section \<open>Selection\<close>

definition isEntrySelectable :: "index_entry \<Rightarrow> bool" where
  "isEntrySelectable entry \<longleftrightarrow> ie_status entry \<noteq> Some Running \<and> \<not> isPendingDeletion entry"

text \<open>Compare mode stops adding at the cap; delete mode has none.\<close>

fun select_capped :: "string list \<Rightarrow> bool \<Rightarrow> string js_set \<Rightarrow> string js_set" where
  "select_capped [] selected sel = sel"
| "select_capped (i # is) selected sel =
     (if selected
      then (if length sel \<ge> MAX_COMPARE_RUNS then sel else select_capped is selected (set_add i sel))
      else select_capped is selected (set_delete i sel))"

definition handleSelectionChange :: "string list \<Rightarrow> bool \<Rightarrow> runs_page \<Rightarrow> runs_page" where
  "handleSelectionChange ids selected s = s\<lparr>rp_selected := select_capped ids selected (rp_selected s)\<rparr>"

definition handleDeleteSelectionChange :: "string list \<Rightarrow> bool \<Rightarrow> runs_page \<Rightarrow> runs_page" where
  "handleDeleteSelectionChange ids selected s =
     s\<lparr>rp_deleteSelected := fold (if selected then set_add else set_delete) ids (rp_deleteSelected s)\<rparr>"

definition handleExitCompareMode :: "runs_page \<Rightarrow> runs_page" where
  "handleExitCompareMode s = s\<lparr>rp_compareMode := False, rp_selected := []\<rparr>"

definition handleEnterDeleteMode :: "runs_page \<Rightarrow> runs_page" where
  "handleEnterDeleteMode s = s\<lparr>rp_compareMode := False, rp_selected := [], rp_deleteMode := True\<rparr>"

definition handleExitDeleteMode :: "runs_page \<Rightarrow> runs_page" where
  "handleExitDeleteMode s = s\<lparr>rp_deleteMode := False, rp_deleteSelected := []\<rparr>"

definition handleEnterCompareMode :: "runs_page \<Rightarrow> runs_page" where
  "handleEnterCompareMode s = s\<lparr>rp_deleteMode := False, rp_deleteSelected := [], rp_compareMode := True\<rparr>"

text \<open>The button is enabled when something is selected and no request is on its way; the user may
  still decline. The request carries the selection of that moment.\<close>

definition handleDeleteConfirm :: "bool \<Rightarrow> runs_page \<Rightarrow> runs_page" where
  "handleDeleteConfirm confirmed s =
     (if rp_deleteSelected s = [] \<or> rp_pending s \<or> \<not> confirmed then s
      else s\<lparr>rp_deletions := rp_deletions s @ [rp_deleteSelected s], rp_pending := True\<rparr>)"

definition delete_settled :: "bool \<Rightarrow> runs_page \<Rightarrow> runs_page" where
  "delete_settled success s =
     (let s' = s\<lparr>rp_pending := False\<rparr> in if success then handleExitDeleteMode s' else s')"

text \<open>The properties the page passes to the table.\<close>

definition selectable :: "runs_page \<Rightarrow> bool" where
  "selectable s \<longleftrightarrow> rp_compareMode s \<or> rp_deleteMode s"

definition selection_variant :: "runs_page \<Rightarrow> selection_kind" where
  "selection_variant s = (if rp_deleteMode s then ForDelete else ForCompare)"

definition table_selected :: "runs_page \<Rightarrow> string js_set" where
  "table_selected s = (if rp_deleteMode s then rp_deleteSelected s else rp_selected s)"

definition onSelectionChange :: "string list \<Rightarrow> bool \<Rightarrow> runs_page \<Rightarrow> runs_page" where
  "onSelectionChange ids selected s =
     (if rp_deleteMode s then handleDeleteSelectionChange ids selected s
      else handleSelectionChange ids selected s)"

definition selection_mode :: "runs_page \<Rightarrow> selection_kind option" where
  "selection_mode s = (if selectable s then Some (selection_variant s) else None)"

definition anchor_run_id :: "runs_page \<Rightarrow> string option" where
  "anchor_run_id s =
     (case rp_anchor s of
        None \<Rightarrow> None
      | Some (rid, mode) \<Rightarrow> if mode = selection_mode s \<and> table_selected s \<noteq> [] then Some rid else None)"

definition find_row :: "string \<Rightarrow> index_entry list \<Rightarrow> nat option" where
  "find_row rid rows = find (\<lambda>i. ie_run_id (rows ! i) = rid) [0..<length rows]"

text \<open>The range between two rows, in either direction.\<close>

definition range_ids :: "index_entry list \<Rightarrow> nat \<Rightarrow> nat \<Rightarrow> string list" where
  "range_ids rows i j =
     map ie_run_id (filter isEntrySelectable (drop (min i j) (take (max i j + 1) rows)))"

definition handleRowSelect :: "index_entry list \<Rightarrow> index_entry \<Rightarrow> bool \<Rightarrow> runs_page \<Rightarrow> runs_page" where
  "handleRowSelect rows entry shiftKey s =
     (let selected = (ie_run_id entry \<notin> set (table_selected s));
          plain = (onSelectionChange [ie_run_id entry] selected s)\<lparr>rp_anchor := Some (ie_run_id entry, selection_mode s)\<rparr>
      in case anchor_run_id s of
           Some a \<Rightarrow>
             if shiftKey \<and> a \<noteq> [] \<and> a \<noteq> ie_run_id entry
             then (case (find_row a rows, find_row (ie_run_id entry) rows) of
                     (Some i, Some j) \<Rightarrow> onSelectionChange (range_ids rows i j) selected s
                   | _ \<Rightarrow> plain)
             else plain
         | None \<Rightarrow> plain)"

text \<open>A click on a row or its checkbox: only a selectable row in a selection mode reacts.\<close>

definition click_row :: "index_entry list \<Rightarrow> nat \<Rightarrow> bool \<Rightarrow> runs_page \<Rightarrow> runs_page" where
  "click_row rows i shiftKey s =
     (if i < length rows \<and> selectable s \<and> isEntrySelectable (rows ! i)
      then handleRowSelect rows (rows ! i) shiftKey s else s)"

text \<open>The compare button opens the comparison of the selected runs.\<close>

definition compare_selected :: "runs_page \<Rightarrow> runs_page" where
  "compare_selected s =
     (if length (rp_selected s) < MIN_COMPARE_RUNS then s
      else s\<lparr>rp_compared := Some (join '','' (rp_selected s))\<rparr>)"


section \<open>Events\<close>

datatype runs_event =
  PageClicked int | SizeChosen int | ClientChosen "string option" | ImageChosen "string option"
| SuiteChosen "string option" | StrategyChosen "string option" | StatusChosen TestStatusFilter
| HeaderClicked SortColumn | StepClicked step_type | LabelsChosen LabelFilters
| SuiteLabelsChosen LabelFilters | LiveIndicator | UrlChanged runs_search
| CompareButton | DeleteButton | CompareCancelled | DeleteCancelled
| RowClicked "index_entry list" nat bool | TableGone
| CompareConfirmed | DeleteConfirmed bool | DeleteSettled bool

fun runs_step :: "runs_page \<Rightarrow> runs_event \<Rightarrow> runs_page" where
  "runs_step s (PageClicked p) = handlePageChange p s"
| "runs_step s (SizeChosen n) = handlePageSizeChange n s"
| "runs_step s (ClientChosen x) = handleClientChange x s"
| "runs_step s (ImageChosen x) = handleImageChange x s"
| "runs_step s (SuiteChosen x) = handleSuiteChange x s"
| "runs_step s (StrategyChosen x) = handleStrategyChange x s"
| "runs_step s (StatusChosen x) = handleStatusChange x s"
| "runs_step s (HeaderClicked c) = handleSort c s"
| "runs_step s (StepClicked t) = click_step t s"
| "runs_step s (LabelsChosen f) = handleLabelFiltersChange f s"
| "runs_step s (SuiteLabelsChosen f) = handleSuiteLabelFiltersChange f s"
| "runs_step s LiveIndicator =
     handleStatusChange (if status_of (rp_search s) = RunningRuns then AllRuns else RunningRuns) s"
| "runs_step s (UrlChanged q) = go_to q s"
| "runs_step s CompareButton = (if rp_compareMode s then handleExitCompareMode s else handleEnterCompareMode s)"
| "runs_step s DeleteButton = (if rp_deleteMode s then handleExitDeleteMode s else handleEnterDeleteMode s)"
| "runs_step s CompareCancelled = handleExitCompareMode s"
| "runs_step s DeleteCancelled = handleExitDeleteMode s"
| "runs_step s (RowClicked rows i shift) = click_row rows i shift s"
| "runs_step s TableGone = s\<lparr>rp_anchor := None\<rparr>"
| "runs_step s CompareConfirmed = compare_selected s"
| "runs_step s (DeleteConfirmed ok) = handleDeleteConfirm ok s"
| "runs_step s (DeleteSettled success) = delete_settled success s"

section \<open>Lemmas\<close>

text \<open>The state invariant: the modes exclude each other and only the active one has a selection; the
  cap holds; every id selected or sent was selectable on screen (the set \<open>A\<close>); the shown page is the
  one of the URL.\<close>

definition ids_ok :: "string set \<Rightarrow> string list \<Rightarrow> bool" where
  "ids_ok A ids \<longleftrightarrow> distinct ids \<and> set ids \<subseteq> A"

definition runs_inv :: "string set \<Rightarrow> runs_page \<Rightarrow> bool" where
  "runs_inv A s \<longleftrightarrow>
     \<not> (rp_compareMode s \<and> rp_deleteMode s) \<and>
     (rp_compareMode s \<or> rp_selected s = []) \<and> (rp_deleteMode s \<or> rp_deleteSelected s = []) \<and>
     length (rp_selected s) \<le> MAX_COMPARE_RUNS \<and>
     ids_ok A (rp_selected s) \<and> ids_ok A (rp_deleteSelected s) \<and>
     list_all (\<lambda>ids. ids \<noteq> [] \<and> ids_ok A ids) (rp_deletions s) \<and>
     (rp_compared s = None \<or>
       (\<exists>ids. rp_compared s = Some (join '','' ids) \<and> ids_ok A ids \<and>
          MIN_COMPARE_RUNS \<le> length ids \<and> length ids \<le> MAX_COMPARE_RUNS)) \<and>
     rp_localPage s = page_of (rp_search s) \<and> rp_localPageSize s = page_size_of (rp_search s)"

definition shown_selectable :: "string set \<Rightarrow> runs_event \<Rightarrow> bool" where
  "shown_selectable A e \<longleftrightarrow>
     (case e of RowClicked rows i shift \<Rightarrow> ie_run_id ` {entry \<in> set rows. isEntrySelectable entry} \<subseteq> A
      | _ \<Rightarrow> True)"

lemma ids_ok_simps [simp]:
  "ids_ok A []" "ids_ok A [i] \<longleftrightarrow> i \<in> A"
  by (simp_all add: ids_ok_def)

lemma ids_ok_fold:
  assumes "ids_ok A sel" "set ids \<subseteq> A"
  shows "ids_ok A (fold (if b then set_add else set_delete) ids sel)"
  using assms
proof (induction ids arbitrary: sel)
  case (Cons i ids)
  have "ids_ok A ((if b then set_add else set_delete) i sel)"
    using Cons.prems by (auto simp: ids_ok_def)
  from Cons.IH [OF this] Cons.prems(2) show ?case by simp
qed simp

lemma length_set_add: "length (set_add x xs) \<le> Suc (length xs)"
  by (simp add: set_add_def)

lemma length_set_delete: "length (set_delete x xs) \<le> length xs"
  by (simp add: set_delete_def)

lemma ids_ok_capped:
  assumes "ids_ok A sel" "set ids \<subseteq> A" "length sel \<le> MAX_COMPARE_RUNS"
  shows "ids_ok A (select_capped ids b sel) \<and> length (select_capped ids b sel) \<le> MAX_COMPARE_RUNS"
  using assms
proof (induction ids b sel rule: select_capped.induct)
  case (2 i "is" b sel)
  have "ids_ok A (set_add i sel)" "ids_ok A (set_delete i sel)"
    using 2(3,4) by (auto simp: ids_ok_def)
  then show ?case
    using 2 length_set_add [of i sel] length_set_delete [of i sel] by auto
qed simp

lemma range_ids_subset:
  "set (range_ids rows i j) \<subseteq> ie_run_id ` {entry \<in> set rows. isEntrySelectable entry}"
  by (auto simp: range_ids_def dest: in_set_dropD in_set_takeD)

lemma inv_go_to:
  assumes "runs_inv A s"
    and "s' = s\<lparr>rp_localPage := p, rp_localPageSize := n\<rparr>"
    and "p = rp_localPage s \<or> p = page_of q" "n = rp_localPageSize s \<or> n = page_size_of q"
  shows "runs_inv A (go_to q s')"
  using assms by (auto simp: runs_inv_def go_to_def)

lemma inv_change_search:
  assumes "runs_inv A s" "\<And>q. q_page (change q) = q_page q"
  shows "runs_inv A (change_search change s)"
  unfolding change_search_def
  by (rule inv_go_to [OF assms(1), where p = 1 and n = "rp_localPageSize s"])
    (simp_all add: page_of_def assms(2) current_search_def Let_def or_else_def)

lemma inv_selection:
  assumes "runs_inv A s" "selectable s" "set ids \<subseteq> A"
  shows "runs_inv A (onSelectionChange ids b s)"
proof (cases "rp_deleteMode s")
  case True
  then show ?thesis using assms(1) ids_ok_fold [OF _ assms(3)]
    by (auto simp: runs_inv_def onSelectionChange_def handleDeleteSelectionChange_def)
next
  case False
  then have "rp_compareMode s" using assms(2) by (simp add: selectable_def)
  then show ?thesis using False assms(1) ids_ok_capped [OF _ assms(3)]
    by (auto simp: runs_inv_def onSelectionChange_def handleSelectionChange_def)
qed

lemma inv_anchor: "runs_inv A s \<Longrightarrow> runs_inv A (s\<lparr>rp_anchor := a\<rparr>)"
  by (simp add: runs_inv_def)

lemma inv_click_row:
  assumes "runs_inv A s" "ie_run_id ` {entry \<in> set rows. isEntrySelectable entry} \<subseteq> A"
  shows "runs_inv A (click_row rows i shift s)"
proof (cases "i < length rows \<and> selectable s \<and> isEntrySelectable (rows ! i)")
  case True
  then have sel: "selectable s" and "ie_run_id (rows ! i) \<in> A" using assms(2) by auto
  then have plain: "runs_inv A ((onSelectionChange [ie_run_id (rows ! i)] b s)\<lparr>rp_anchor := a\<rparr>)" for a b
    by (intro inv_anchor inv_selection [OF assms(1)]) simp_all
  have range: "runs_inv A (onSelectionChange (range_ids rows j k) b s)" for b j k
    using range_ids_subset assms(2) by (intro inv_selection [OF assms(1) sel]) blast
  show ?thesis
    using True plain range by (simp add: click_row_def handleRowSelect_def Let_def split: option.split)
next
  case False
  then have "click_row rows i shift s = s" unfolding click_row_def by (rule if_not_P)
  then show ?thesis using assms(1) by simp
qed

lemma inv_runs_step:
  assumes "runs_inv A s" "shown_selectable A e"
  shows "runs_inv A (runs_step s e)"
proof (cases e)
  case (PageClicked p)
  then show ?thesis
    by (simp add: handlePageChange_def)
      (rule inv_go_to [OF assms(1), where p = p and n = "rp_localPageSize s"];
       simp add: current_search_def page_of_def or_else_def Let_def)
next
  case (SizeChosen n)
  then show ?thesis
    by (simp add: handlePageSizeChange_def)
      (rule inv_go_to [OF assms(1), where p = 1 and n = n];
       simp add: current_search_def page_of_def page_size_of_def or_else_def Let_def)
next
  case (UrlChanged q)
  then show ?thesis
    by simp (rule inv_go_to [OF assms(1), where p = "rp_localPage s" and n = "rp_localPageSize s"]; simp)
next
  case (RowClicked rows i shift)
  then show ?thesis using assms inv_click_row by (simp add: shown_selectable_def)
next
  case (StepClicked t)
  then show ?thesis using assms(1)
    by (auto simp: click_step_def handleStepFilterChange_def Let_def intro!: inv_change_search)
next
  case (DeleteConfirmed ok)
  then show ?thesis using assms(1) by (auto simp: runs_inv_def handleDeleteConfirm_def)
next
  case CompareConfirmed
  then show ?thesis using assms(1)
    by (simp add: compare_selected_def) (auto simp: runs_inv_def not_less)
next
  case (DeleteSettled ok)
  then show ?thesis using assms(1)
    by (auto simp: runs_inv_def delete_settled_def handleExitDeleteMode_def Let_def)
qed (use assms(1) in \<open>auto intro!: inv_change_search inv_anchor
      simp: handleClientChange_def handleImageChange_def handleSuiteChange_def handleStrategyChange_def
        handleStatusChange_def handleSort_def handleSortChange_def handleLabelFiltersChange_def
        handleSuiteLabelFiltersChange_def Let_def\<close>,
      auto simp: runs_inv_def handleExitCompareMode_def handleEnterCompareMode_def handleExitDeleteMode_def
        handleEnterDeleteMode_def)

interpretation runs: machine runs_step "shown_selectable A" "runs_inv A" for A
  by unfold_locales (rule inv_runs_step)

lemma inv_open_page: "runs_inv A (open_page q)"
  by (simp add: runs_inv_def open_page_def)

text \<open>C4: The state of the run list after any sequence of clicks, URL changes and answers, from any
  URL. Compare mode and delete mode are never both on, and a mode that is off has no selection; at most
  five runs are selected for comparison, whatever ranges were clicked; a run that was not shown as
  selectable (one in progress, or queued for deletion already) is never selected, compared or sent for
  deletion, no deletion request is empty and none names a run twice; the comparison opened has between
  two and five runs. The page and the page size on screen are those of the URL, so opening the URL
  again shows the same page.\<close>

theorem runs_page_invariant:
  assumes "list_all (shown_selectable A) es"
  shows "runs_inv A (run runs_step (open_page q) es) \<and>
    rp_localPage (open_page (rp_search (run runs_step (open_page q) es))) =
      rp_localPage (run runs_step (open_page q) es) \<and>
    rp_localPageSize (open_page (rp_search (run runs_step (open_page q) es))) =
      rp_localPageSize (run runs_step (open_page q) es)"
proof -
  have "runs_inv A (run runs_step (open_page q) es)"
    by (rule runs.inv_run [OF inv_open_page assms])
  then show ?thesis by (simp add: runs_inv_def open_page_def)
qed

definition empty_search :: runs_search where
  "empty_search = \<lparr>q_page = None, q_pageSize = None, q_client = None, q_image = None, q_suite = None,
     q_strategy = None, q_status = None, q_sortBy = None, q_sortDir = None, q_steps = None,
     q_labels = None, q_suiteLabels = None\<rparr>"

definition example_clicks :: "runs_event list" where
  "example_clicks =
     (let rows = ix_entries example_index
      in [PageClicked 3, DeleteButton, RowClicked rows 0 False, RowClicked rows 1 True, DeleteConfirmed True,
          DeleteSettled True, CompareButton, RowClicked rows 1 False])"

theorem runs_page_invariant_witness:
  "runs_inv {''r1'', ''r2''} (run runs_step (open_page empty_search) example_clicks)"
proof -
  have "list_all (shown_selectable {''r1'', ''r2''}) example_clicks"
    by (auto simp: example_clicks_def shown_selectable_def example_index_def example_entry_def Let_def)
  then show ?thesis using runs_page_invariant by blast
qed


subsection \<open>Range selection\<close>

definition range_set :: "index_entry list \<Rightarrow> nat \<Rightarrow> nat \<Rightarrow> string set" where
  "range_set rows i j =
     {ie_run_id (rows ! k) | k. min i j \<le> k \<and> k \<le> max i j \<and> k < length rows \<and> isEntrySelectable (rows ! k)}"

lemma set_range_ids: "i < length rows \<Longrightarrow> j < length rows \<Longrightarrow> set (range_ids rows i j) = range_set rows i j"
proof -
  assume ij: "i < length rows" "j < length rows"
  have "set (drop (min i j) (take (max i j + 1) rows)) = {rows ! k | k. min i j \<le> k \<and> k \<le> max i j \<and> k < length rows}"
    (is "?l = ?r")
  proof -
    have "x \<in> ?l \<longleftrightarrow> x \<in> ?r" for x
    proof
      assume "x \<in> ?l"
      then obtain n where "n < length (drop (min i j) (take (max i j + 1) rows))"
        "x = drop (min i j) (take (max i j + 1) rows) ! n" by (metis in_set_conv_nth)
      moreover from this have "drop (min i j) (take (max i j + 1) rows) ! n = rows ! (min i j + n)"
        using ij by simp
      ultimately show "x \<in> ?r" by (auto intro!: exI [of _ "min i j + n"])
    next
      assume "x \<in> ?r"
      then obtain k where k: "min i j \<le> k" "k \<le> max i j" "k < length rows" "x = rows ! k" by blast
      then have "drop (min i j) (take (max i j + 1) rows) ! (k - min i j) = x" by simp
      moreover have "k - min i j < length (drop (min i j) (take (max i j + 1) rows))" using k ij by auto
      ultimately show "x \<in> ?l" by (metis nth_mem)
    qed
    then show ?thesis by blast
  qed
  then show ?thesis by (auto simp: range_ids_def range_set_def)
qed

lemma find_row_nth:
  assumes "distinct (map ie_run_id rows)" "i < length rows"
  shows "find_row (ie_run_id (rows ! i)) rows = Some i"
proof -
  have "ie_run_id (rows ! k) = ie_run_id (rows ! i) \<longleftrightarrow> k = i" if "k < length rows" for k
    using assms that by (metis distinct_conv_nth length_map nth_map)
  then show ?thesis using assms(2) by (auto simp: find_row_def find_Some_iff)
qed

lemma set_fold_set: "set (fold (if b then set_add else set_delete) ids sel) = (if b then set sel \<union> set ids else set sel - set ids)"
  by (induction ids arbitrary: sel) auto

text \<open>The cap: what was selected stays, what is added is from the range, and as much is added as fits.\<close>

lemma capped_add:
  assumes "distinct sel" "length sel \<le> MAX_COMPARE_RUNS"
  shows "set sel \<subseteq> set (select_capped ids True sel) \<and>
    set (select_capped ids True sel) \<subseteq> set sel \<union> set ids \<and>
    length (select_capped ids True sel) = min MAX_COMPARE_RUNS (card (set sel \<union> set ids))"
  using assms
proof (induction ids arbitrary: sel)
  case Nil
  then show ?case by (simp add: distinct_card)
next
  case (Cons i ids)
  show ?case
  proof (cases "length sel \<ge> MAX_COMPARE_RUNS")
    case True
    have "card (set sel) \<le> card (set sel \<union> set (i # ids))" by (intro card_mono) auto
    then show ?thesis using True Cons.prems by (auto simp: distinct_card)
  next
    case False
    have "length (set_add i sel) \<le> MAX_COMPARE_RUNS" using False length_set_add [of i sel] by simp
    from Cons.IH [OF distinct_set_add [OF Cons.prems(1)] this] show ?thesis
      using False by auto
  qed
qed

lemma capped_remove: "select_capped ids False sel = fold set_delete ids sel"
  by (induction ids arbitrary: sel) auto

lemma range_click:
  assumes "selectable s" "table_selected s \<noteq> []" "rp_anchor s = Some (ie_run_id (rows ! i), selection_mode s)"
    and "distinct (map ie_run_id rows)" "i < length rows" "j < length rows" "i \<noteq> j"
    and "ie_run_id (rows ! i) \<noteq> []" "isEntrySelectable (rows ! j)"
  shows "click_row rows j True s =
    onSelectionChange (range_ids rows i j) (ie_run_id (rows ! j) \<notin> set (table_selected s)) s"
proof -
  have "anchor_run_id s = Some (ie_run_id (rows ! i))" using assms(2,3) by (simp add: anchor_run_id_def)
  moreover have "ie_run_id (rows ! i) \<noteq> ie_run_id (rows ! j)"
    using assms(4-7) by (metis length_map nth_eq_iff_index_eq nth_map)
  ultimately show ?thesis
    using assms find_row_nth [OF assms(4)] by (simp add: click_row_def handleRowSelect_def Let_def)
qed

lemma plain_click:
  assumes "selectable s" "i < length rows" "isEntrySelectable (rows ! i)"
  shows "click_row rows i False s =
    (onSelectionChange [ie_run_id (rows ! i)] (ie_run_id (rows ! i) \<notin> set (table_selected s)) s)
      \<lparr>rp_anchor := Some (ie_run_id (rows ! i), selection_mode s)\<rparr>"
  using assms by (simp add: click_row_def handleRowSelect_def Let_def split: option.split)

lemma selection_change_frame [simp]:
  "rp_deleteMode (onSelectionChange ids b s) = rp_deleteMode s"
  "rp_compareMode (onSelectionChange ids b s) = rp_compareMode s"
  "selection_mode (onSelectionChange ids b s) = selection_mode s"
  "selectable (onSelectionChange ids b s) = selectable s"
  "rp_anchor (onSelectionChange ids b s) = rp_anchor s"
  by (simp_all add: onSelectionChange_def handleDeleteSelectionChange_def handleSelectionChange_def
      selection_mode_def selectable_def selection_variant_def)

lemma anchor_frame [simp]:
  "selection_mode (s\<lparr>rp_anchor := a\<rparr>) = selection_mode s" "selectable (s\<lparr>rp_anchor := a\<rparr>) = selectable s"
  "table_selected (s\<lparr>rp_anchor := a\<rparr>) = table_selected s"
  by (simp_all add: selection_mode_def selectable_def selection_variant_def table_selected_def)

lemma table_selected_change:
  "table_selected (onSelectionChange ids b s) =
     (if rp_deleteMode s then fold (if b then set_add else set_delete) ids (table_selected s)
      else select_capped ids b (table_selected s))"
  by (simp add: table_selected_def onSelectionChange_def handleDeleteSelectionChange_def
      handleSelectionChange_def)

lemma runs_page_mode [simp]: "rp_deleteMode (click_row rows i shift s) = rp_deleteMode s"
  by (simp add: click_row_def handleRowSelect_def Let_def split: option.split)

text \<open>C17: Shift-click selects a range. After a click on one selectable row, which leaves something
  selected, a shift-click on another one changes all selectable rows between the two, both included,
  upwards or downwards, and no other run: if the clicked row was selected they are all deselected,
  otherwise they are selected. In delete mode all of them are; in compare mode what was selected stays
  and the range is added up to the cap of five runs. The anchor stays for the next shift-click.\<close>

theorem shift_click_selects_range:
  assumes "selectable s" "distinct (map ie_run_id rows)" "i < length rows" "j < length rows" "i \<noteq> j"
    and "ie_run_id (rows ! i) \<noteq> []" "isEntrySelectable (rows ! i)" "isEntrySelectable (rows ! j)"
    and "distinct (table_selected s)" "length (table_selected s) \<le> MAX_COMPARE_RUNS \<or> rp_deleteMode s"
    and "table_selected (click_row rows i False s) \<noteq> []"
  defines "s1 \<equiv> click_row rows i False s"
  defines "s2 \<equiv> click_row rows j True s1"
  shows "rp_anchor s2 = rp_anchor s1 \<and>
    (if ie_run_id (rows ! j) \<in> set (table_selected s1)
     then set (table_selected s2) = set (table_selected s1) - range_set rows i j
     else if rp_deleteMode s then set (table_selected s2) = set (table_selected s1) \<union> range_set rows i j
     else set (table_selected s1) \<subseteq> set (table_selected s2) \<and>
          set (table_selected s2) \<subseteq> set (table_selected s1) \<union> range_set rows i j \<and>
          length (table_selected s2) =
            min MAX_COMPARE_RUNS (card (set (table_selected s1) \<union> range_set rows i j)))"
proof -
  have s1: "s1 = (onSelectionChange [ie_run_id (rows ! i)] (ie_run_id (rows ! i) \<notin> set (table_selected s)) s)
      \<lparr>rp_anchor := Some (ie_run_id (rows ! i), selection_mode s)\<rparr>"
    unfolding s1_def by (rule plain_click [OF assms(1,3,7)])
  have frame: "selectable s1" "rp_anchor s1 = Some (ie_run_id (rows ! i), selection_mode s1)"
      "rp_deleteMode s1 = rp_deleteMode s"
    using assms(1) by (simp_all add: s1)
  have sel1: "distinct (table_selected s1) \<and> (length (table_selected s1) \<le> MAX_COMPARE_RUNS \<or> rp_deleteMode s)"
  proof (cases "rp_deleteMode s")
    case True
    then show ?thesis using assms(9) by (simp add: s1 table_selected_change)
  next
    case False
    have "ids_ok UNIV (table_selected s)" using assms(9) by (simp add: ids_ok_def)
    from ids_ok_capped [OF this, of "[ie_run_id (rows ! i)]"] show ?thesis
      using False assms(10) by (simp add: s1 table_selected_change ids_ok_def)
  qed
  have s2: "s2 = onSelectionChange (range_ids rows i j) (ie_run_id (rows ! j) \<notin> set (table_selected s1)) s1"
    unfolding s2_def using range_click [OF frame(1) _ frame(2) assms(2-5,6,8)] assms(11)
    unfolding s1_def by blast
  have "set (fold set_delete ids sel) = set sel - set ids" for ids sel :: "string list"
    using set_fold_set [of False] by simp
  moreover have "set (fold set_add ids sel) = set sel \<union> set ids" for ids sel :: "string list"
    using set_fold_set [of True] by simp
  ultimately show ?thesis
    using sel1 capped_add [of "table_selected s1" "range_ids rows i j"]
    by (cases "rp_deleteMode s") (simp_all add: s2 table_selected_change frame(3) capped_remove
        set_range_ids [OF assms(3,4)])
qed

theorem shift_click_selects_range_witness:
  "set (rp_deleteSelected (run runs_step (open_page empty_search)
     [DeleteButton, RowClicked (ix_entries example_index) 1 False, RowClicked (ix_entries example_index) 0 True])) =
   {''r1'', ''r2''}"
proof -
  define rows where "rows = ix_entries example_index"
  define s where "s = run runs_step (open_page empty_search) [DeleteButton]"
  have s: "selectable s" "rp_deleteMode s" "table_selected s = []"
    by (simp_all add: s_def open_page_def handleEnterDeleteMode_def selectable_def table_selected_def)
  have rows: "map ie_run_id rows = [''r1'', ''r2'']" "length rows = 2"
      "isEntrySelectable (rows ! 0)" "isEntrySelectable (rows ! 1)"
    by (simp_all add: rows_def example_index_def example_entry_def isEntrySelectable_def isPendingDeletion_def)
  have ids: "ie_run_id (rows ! 0) = ''r1''" "ie_run_id (rows ! 1) = ''r2''"
    by (simp_all add: rows_def example_index_def example_entry_def)
  have first: "table_selected (click_row rows 1 False s) = [''r2'']"
    using plain_click [OF s(1) _ rows(4)] s(2,3) rows(2) ids by (simp add: table_selected_change set_add_def)
  have all: "range_set rows 1 0 = {''r1'', ''r2''}"
  proof -
    have "range_set rows 1 0 = {ie_run_id (rows ! 0), ie_run_id (rows ! 1)}"
      using rows by (auto simp: range_set_def le_Suc_eq)
    then show ?thesis by (simp only: ids)
  qed
  have "set (table_selected (click_row rows 0 True (click_row rows 1 False s))) = {''r1'', ''r2''}"
    using shift_click_selects_range [of s rows 1 0] s rows ids first all by auto
  moreover have "rp_deleteMode (click_row rows 0 True (click_row rows 1 False s))"
    using s(2) by simp
  ultimately show ?thesis by (simp add: s_def rows_def table_selected_def)
qed

section \<open>The rows on screen\<close>

text \<open>The filters of the URL; label filters with a malformed escape throw.\<close>

definition filters_of :: "(string, string js_object) js_map \<Rightarrow> runs_search \<Rightarrow> js_error + run_filters" where
  "filters_of suiteInfo q =
     (case parseLabelFilters (q_labels q) of
        Inl e \<Rightarrow> Inl e
      | Inr ls \<Rightarrow>
          (case parseLabelFilters (q_suiteLabels q) of
             Inl e \<Rightarrow> Inl e
           | Inr sls \<Rightarrow>
               Inr \<lparr>rf_client = q_client q, rf_image = q_image q, rf_suite = q_suite q, rf_strategy = q_strategy q,
                    rf_status = status_of q, rf_labels = ls, rf_matchingSuites = matchingSuiteHashes sls suiteInfo\<rparr>))"

definition sortedEntries :: "(string \<Rightarrow> string \<Rightarrow> jsnum) \<Rightarrow> (string, string js_object) js_map \<Rightarrow> index option \<Rightarrow>
    LiveRun list option \<Rightarrow> runs_page \<Rightarrow> js_error + index_entry list" where
  "sortedEntries lc suiteInfo ix live s =
     (case filters_of suiteInfo (rp_search s) of
        Inl e \<Rightarrow> Inl e
      | Inr f \<Rightarrow> Inr (page_rows lc f (sort_by_of (rp_search s)) (sort_dir_of (rp_search s)) (step_filter_of s) ix live))"

definition paginatedEntries :: "(string \<Rightarrow> string \<Rightarrow> jsnum) \<Rightarrow> (string, string js_object) js_map \<Rightarrow> index option \<Rightarrow>
    LiveRun list option \<Rightarrow> runs_page \<Rightarrow> js_error + index_entry list" where
  "paginatedEntries lc suiteInfo ix live s =
     (case sortedEntries lc suiteInfo ix live s of
        Inl e \<Rightarrow> Inl e
      | Inr rows \<Rightarrow> Inr (page_slice (rp_localPageSize s) rows (rp_localPage s)))"

definition totalPages :: "index_entry list \<Rightarrow> runs_page \<Rightarrow> jsnum" where
  "totalPages rows s = page_count (length rows) (rp_localPageSize s)"

text \<open>Choosing a page changes neither the rows nor their order nor the page size.\<close>

lemma page_change_search:
  "rp_search (handlePageChange p s) = current_search s p" "rp_localPage (handlePageChange p s) = p"
  by (simp_all add: handlePageChange_def go_to_def current_search_def page_of_def or_else_def Let_def)

lemma current_search_fields [simp]:
  "q_client (current_search s p) = q_client (rp_search s)" "q_image (current_search s p) = q_image (rp_search s)"
  "q_suite (current_search s p) = q_suite (rp_search s)" "q_strategy (current_search s p) = q_strategy (rp_search s)"
  "q_steps (current_search s p) = q_steps (rp_search s)" "q_labels (current_search s p) = q_labels (rp_search s)"
  "q_suiteLabels (current_search s p) = q_suiteLabels (rp_search s)"
  "status_of (current_search s p) = status_of (rp_search s)"
  "sort_by_of (current_search s p) = sort_by_of (rp_search s)"
  "sort_dir_of (current_search s p) = sort_dir_of (rp_search s)"
  by (simp_all only: current_search_def Let_def status_of_def [of "_\<lparr>q_page := _, q_pageSize := _, q_status := _, q_sortBy := _, q_sortDir := _\<rparr>"]
      sort_by_of_def [of "_\<lparr>q_page := _, q_pageSize := _, q_status := _, q_sortBy := _, q_sortDir := _\<rparr>"]
      sort_dir_of_def [of "_\<lparr>q_page := _, q_pageSize := _, q_status := _, q_sortBy := _, q_sortDir := _\<rparr>"])
    (simp_all add: or_else_def)

lemma filters_of_current [simp]: "filters_of si (current_search s p) = filters_of si (rp_search s)"
  by (simp add: filters_of_def split: sum.split)

lemma sorted_page_change [simp]:
  "sortedEntries lc si ix live (handlePageChange p s) = sortedEntries lc si ix live s"
  by (simp add: sortedEntries_def page_change_search step_filter_of_def split: sum.split)

lemma page_size_change [simp]:
  assumes "runs_inv A s"
  shows "rp_localPageSize (handlePageChange p s) = rp_localPageSize s"
  using assms by (simp add: runs_inv_def handlePageChange_def go_to_def current_search_def page_size_of_def
      or_else_def Let_def)

text \<open>C21: Paging through the list. From any reachable state with a page size of at least one and a URL
  whose label filters can be read, visiting the pages from the first to the last one shows all rows the
  filters keep, in the chosen order, each exactly once; visiting a page changes neither the filters nor
  the order, so the pages fit together whatever page was visited before.\<close>

theorem paging_shows_all_rows:
  assumes "list_all (shown_selectable A) es" and "s = run runs_step (open_page q) es"
    and "0 < rp_localPageSize s" and "sortedEntries lc si ix live s = Inr rows"
  shows "\<exists>n. totalPages rows s = Fin (of_int n) \<and>
    map (\<lambda>p. paginatedEntries lc si ix live (runs_step s (PageClicked p))) [1..n] =
      map Inr (map (page_slice (rp_localPageSize s) rows) [1..n]) \<and>
    concat (map (page_slice (rp_localPageSize s) rows) [1..n]) = rows \<and>
    sortedEntries lc si ix live (run runs_step s (map PageClicked ps)) = Inr rows"
proof -
  have inv: "runs_inv A s" using runs.inv_run [OF inv_open_page assms(1)] assms(2) by simp
  define n where "n = \<lceil>real (length rows) / of_int (rp_localPageSize s)\<rceil>"
  have count: "totalPages rows s = Fin (of_int n)"
    using assms(3) by (simp add: totalPages_def page_count_def num_quot_Fin n_def)
  have "concat (map (page_slice (rp_localPageSize s) rows) [1..n]) = rows"
    using pages_all [OF assms(3)] count by (simp add: totalPages_def)
  moreover have "sortedEntries lc si ix live (run runs_step t (map PageClicked ps)) = sortedEntries lc si ix live t" for t
    by (induction ps arbitrary: t) simp_all
  moreover have "paginatedEntries lc si ix live (runs_step s (PageClicked p)) =
      Inr (page_slice (rp_localPageSize s) rows p)" for p
    using assms(4) page_size_change [OF inv] by (simp add: paginatedEntries_def page_change_search(2))
  ultimately show ?thesis using count assms(4) by auto
qed

theorem paging_shows_all_rows_witness:
  "\<exists>n. totalPages [example_entry ''r2'' ''geth'' 3] (open_page empty_search) = Fin (of_int n) \<and>
    concat (map (page_slice 100 [example_entry ''r2'' ''geth'' 3]) [1..n]) = [example_entry ''r2'' ''geth'' 3]"
proof -
  define ix where "ix = \<lparr>ix_generated = 1, ix_entries = [example_entry ''r2'' ''geth'' 3]\<rparr>"
  define s where "s = open_page empty_search"
  have start: "s = run runs_step (open_page empty_search) []" by (simp add: s_def)
  have size_100: "rp_localPageSize s = 100"
    by (simp add: s_def open_page_def page_size_of_def empty_search_def or_else_def DEFAULT_PAGE_SIZE_def)
  have rows: "sortedEntries lc [] (Some ix) None s = Inr [example_entry ''r2'' ''geth'' 3]" for lc
    by (simp add: s_def sortedEntries_def filters_of_def open_page_def empty_search_def parseLabelFilters_def
        matchingSuiteHashes_def page_rows_def mergedEntries_def ix_def keep_entry_def wants_def status_allows_def
        status_of_def or_else_def labels_allow_def sortIndexEntries_def)
  have "0 < rp_localPageSize s" by (simp add: size_100)
  from paging_shows_all_rows [OF _ start this rows, of "{}" "\<lambda>_ _. Fin 0" "[]"] obtain n where
    "totalPages [example_entry ''r2'' ''geth'' 3] s = Fin (of_int n)"
    "concat (map (page_slice (rp_localPageSize s) [example_entry ''r2'' ''geth'' 3]) [1..n]) =
       [example_entry ''r2'' ''geth'' 3]"
    by (metis list.pred_inject(1))
  then show ?thesis unfolding size_100 by (auto simp: s_def)
qed


section \<open>The step filter\<close>

text \<open>The step buttons and the URL. A click on a step type toggles it, the last selected type stays
  selected, and the selection reads back from the URL, with one exception: a selection of three types is
  left out of the URL and reads back as the default, the test step alone. The first page is shown.\<close>

theorem step_buttons:
  "step_filter_of (click_step t s) =
     (let new = toggle_step t (step_filter_of s)
      in if new = [] then step_filter_of s else if length new = 3 then [Test] else new) \<and>
   (toggle_step t (step_filter_of s) = [] \<or> rp_localPage (click_step t s) = 1)"
proof -
  have "step_filter_of (handleStepFilterChange new s) = (if length new = 3 then [Test] else new)"
    if "new \<noteq> []" for new
    using parse_join_steps [OF that]
    by (simp add: step_filter_of_def handleStepFilterChange_def change_search_def go_to_def steps_param_def
        ALL_STEP_TYPES_def parseStepFilter_def [of None] DEFAULT_STEP_FILTER_def)
  moreover have "rp_localPage (handleStepFilterChange new s) = 1" for new
    by (simp add: handleStepFilterChange_def change_search_def go_to_def current_search_def page_of_def
        or_else_def Let_def)
  ultimately show ?thesis by (simp add: click_step_def Let_def)
qed

text \<open>Selecting the third step type deselects the other two.\<close>

lemma all_steps_are_lost:
  assumes "step_filter_of s = [Setup, Test]"
  shows "toggle_step Cleanup (step_filter_of s) = [Setup, Test, Cleanup]"
    and "step_filter_of (click_step Cleanup s) = [Test]"
proof -
  show t: "toggle_step Cleanup (step_filter_of s) = [Setup, Test, Cleanup]"
    by (simp add: assms toggle_step_def)
  have "join '','' (map step_name [Setup, Test, Cleanup]) \<noteq> []" by simp
  then show "step_filter_of (click_step Cleanup s) = [Test]"
    unfolding click_step_def Let_def t
    by (simp add: step_filter_of_def handleStepFilterChange_def change_search_def go_to_def steps_param_def
        ALL_STEP_TYPES_def parseStepFilter_def DEFAULT_STEP_FILTER_def)
qed

end
