(* ===== verification/Compare_Page.thy ===== *)
theory Compare_Page
  imports Runs_Page Eest_Filter
begin

text \<open>
  The comparison of runs (\<open>ui/src/pages/ComparePage.tsx\<close>): the runs and the view options in the URL,
  the gas buckets and the test filter, the handlers that write the URL back; the metrics of
  \<open>ui/src/components/compare/compareMetrics.ts\<close> and the labels of
  \<open>ui/src/components/compare/constants.ts\<close>. The regular expressions a user types are a parameter
  (\<open>regex\<close>: the test of the compiled pattern, or nothing when it does not compile).
\<close>

section \<open>\<open>parseInt\<close>\<close>

text \<open>\<open>parseInt(s, 10)\<close>: leading white space, a sign, the longest run of digits; \<open>None\<close> is \<open>NaN\<close>.\<close>

definition js_parseInt :: "string \<Rightarrow> int option" where
  "js_parseInt s =
     (let t = dropWhile is_space s;
          neg = (t \<noteq> [] \<and> hd t = CHR ''-'');
          u = (if t \<noteq> [] \<and> (hd t = CHR ''-'' \<or> hd t = CHR ''+'') then tl t else t);
          ds = takeWhile is_digit u
      in if ds = [] then None else Some (if neg then - int (digits_val ds) else int (digits_val ds)))"


section \<open>The URL\<close>

record compare_search =
  cs_runs :: "string option"
  cs_a :: "string option"
  cs_b :: "string option"
  cs_steps :: "string option"
  cs_baseline :: "string option"
  cs_labels :: "string option"
  cs_tableBase :: "string option"
  cs_sort :: "string option"
  cs_sortDir :: "string option"
  cs_diffFilter :: "string option"
  cs_filter :: "string option"
  cs_filterRegex :: "string option"
  cs_gasBuckets :: "string option"

definition given :: "string option \<Rightarrow> bool" where
  "given x \<longleftrightarrow> x \<noteq> None \<and> x \<noteq> Some []"

definition no_compare_search :: compare_search where
  "no_compare_search = \<lparr>cs_runs = None, cs_a = None, cs_b = None, cs_steps = None, cs_baseline = None,
     cs_labels = None, cs_tableBase = None, cs_sort = None, cs_sortDir = None, cs_diffFilter = None,
     cs_filter = None, cs_filterRegex = None, cs_gasBuckets = None\<rparr>"

text \<open>An old link with two parameters is replaced by the list form.\<close>

definition redirect :: "compare_search \<Rightarrow> compare_search" where
  "redirect q =
     (if given (cs_a q) \<and> given (cs_b q) \<and> \<not> given (cs_runs q)
      then no_compare_search\<lparr>cs_runs := Some (the (cs_a q) @ '','' @ the (cs_b q)), cs_steps := cs_steps q\<rparr>
      else q)"

definition compare_run_ids :: "compare_search \<Rightarrow> string list" where
  "compare_run_ids q =
     take MAX_COMPARE_RUNS
       (filter (\<lambda>s. s \<noteq> []) (map trim (split_on CHR '','' (or_empty (cs_runs q)))))"

text \<open>\<open>parseInt(\<dots>) || 0\<close>.\<close>

definition int_or_zero :: "string \<Rightarrow> int" where
  "int_or_zero s = (case js_parseInt s of None \<Rightarrow> 0 | Some i \<Rightarrow> i)"

definition baselineIdx :: "compare_search \<Rightarrow> int" where
  "baselineIdx q =
     min (max (int_or_zero (or_else (cs_baseline q) ''0'')) 0) (int (length (compare_run_ids q)) - 1)"

datatype table_base = BestRun | WorstRun | BaseRun int

definition tableBaseline :: "compare_search \<Rightarrow> table_base" where
  "tableBaseline q =
     (case cs_tableBase q of
        None \<Rightarrow> BestRun
      | Some t \<Rightarrow>
          if t = ''worst'' then WorstRun
          else if t \<noteq> ''best'' then BaseRun (min (int_or_zero t) (int (length (compare_run_ids q)) - 1))
          else BestRun)"

definition labelMode :: "compare_search \<Rightarrow> string" where
  "labelMode q = or_else (cs_labels q) ''none''"

definition tableSortBy :: "compare_search \<Rightarrow> string" where
  "tableSortBy q = or_else (cs_sort q) ''order''"

definition tableSortDir :: "compare_search \<Rightarrow> string" where
  "tableSortDir q = (if cs_sortDir q = Some ''desc'' then ''desc'' else ''asc'')"

definition diffFilter :: "compare_search \<Rightarrow> string" where
  "diffFilter q =
     (if cs_diffFilter q = Some ''faster'' then ''faster''
      else if cs_diffFilter q = Some ''slower'' then ''slower'' else ''all'')"

definition testFilter :: "compare_search \<Rightarrow> string" where
  "testFilter q = or_empty (cs_filter q)"

definition testFilterRegex :: "compare_search \<Rightarrow> bool" where
  "testFilterRegex q \<longleftrightarrow> cs_filterRegex q = Some ''1''"

text \<open>Gas buckets are in millions in the URL.\<close>

definition selectedGasBuckets :: "compare_search \<Rightarrow> int js_set" where
  "selectedGasBuckets q =
     (if \<not> given (cs_gasBuckets q) then []
      else js_set_of (map (\<lambda>i. i * 1000000)
             (List.map_filter js_parseInt (split_on CHR '','' (the (cs_gasBuckets q))))))"


section \<open>Gas buckets and the test filter\<close>

definition GAS_BUCKET_STEP :: int where
  "GAS_BUCKET_STEP = 30000000"

definition gas_bucket :: "real \<Rightarrow> int" where
  "gas_bucket gas = math_round (gas / of_int GAS_BUCKET_STEP) * GAS_BUCKET_STEP"

text \<open>The gas of the test step of every test, from the first run that has a result. The loop reads
  \<open>step.aggregated.gas_used_total\<close>, which throws on a step without statistics.\<close>

fun test_gas_entries :: "test_entry js_object \<Rightarrow> js_error + (string, real) js_map" where
  "test_gas_entries [] = Inr []"
| "test_gas_entries ((name, entry) # rest) =
     (case test_gas_entries rest of
        Inl e \<Rightarrow> Inl e
      | Inr m \<Rightarrow>
          (case Option.bind (te_steps entry) st_test of
             None \<Rightarrow> Inr m
           | Some step \<Rightarrow>
               (case sr_aggregated step of
                  None \<Rightarrow> Inl TypeError
                | Some ag \<Rightarrow> Inr ((name, gas_used_total ag) # m))))"

definition testGasMap :: "run_result option list \<Rightarrow> js_error + (string, real) js_map" where
  "testGasMap results =
     (case find (\<lambda>r. r \<noteq> None) results of
        Some (Some r) \<Rightarrow> test_gas_entries (rr_tests r)
      | _ \<Rightarrow> Inr [])"

definition availableGasBuckets :: "(string, real) js_map \<Rightarrow> int list" where
  "availableGasBuckets m = sort (js_set_of (map (\<lambda>(name, gas). gas_bucket gas) m))"

definition text_filter :: "(string \<Rightarrow> (string \<Rightarrow> bool) option) \<Rightarrow> compare_search \<Rightarrow> (string \<Rightarrow> bool) option" where
  "text_filter regex q =
     (if testFilter q = [] then None
      else if testFilterRegex q then regex (testFilter q)
      else Some (\<lambda>name. testNameMatches name (testFilter q)))"

definition gas_filter :: "(string, real) js_map \<Rightarrow> int js_set \<Rightarrow> (string \<Rightarrow> bool) option" where
  "gas_filter m buckets =
     (if buckets \<noteq> []
      then Some (\<lambda>name. case map_of m name of None \<Rightarrow> False | Some gas \<Rightarrow> gas_bucket gas \<in> set buckets)
      else None)"

definition testNameFilter :: "(string \<Rightarrow> (string \<Rightarrow> bool) option) \<Rightarrow> (string, real) js_map \<Rightarrow> compare_search \<Rightarrow>
    (string \<Rightarrow> bool) option" where
  "testNameFilter regex m q =
     (case (text_filter regex q, gas_filter m (selectedGasBuckets q)) of
        (None, None) \<Rightarrow> None
      | (Some f, None) \<Rightarrow> Some f
      | (None, Some g) \<Rightarrow> Some g
      | (Some f, Some g) \<Rightarrow> Some (\<lambda>name. f name \<and> g name))"


section \<open>Handlers\<close>

text \<open>\<open>updateSearch\<close> keeps every parameter but the ones of old links, and applies the patch.\<close>

definition updateSearch :: "(compare_search \<Rightarrow> compare_search) \<Rightarrow> compare_search \<Rightarrow> compare_search" where
  "updateSearch patch q = patch (q\<lparr>cs_a := None, cs_b := None\<rparr>)"

definition setBaselineIdx :: "int \<Rightarrow> compare_search \<Rightarrow> compare_search" where
  "setBaselineIdx idx = updateSearch (cs_baseline_update (\<lambda>_. if idx > 0 then Some (int_str idx) else None))"

definition setLabelMode :: "string \<Rightarrow> compare_search \<Rightarrow> compare_search" where
  "setLabelMode mode = updateSearch (cs_labels_update (\<lambda>_. if mode = ''none'' then None else Some mode))"

fun table_base_str :: "table_base \<Rightarrow> string" where
  "table_base_str BestRun = ''best''"
| "table_base_str WorstRun = ''worst''"
| "table_base_str (BaseRun i) = int_str i"

definition setTableBaseline :: "table_base \<Rightarrow> compare_search \<Rightarrow> compare_search" where
  "setTableBaseline val =
     updateSearch (cs_tableBase_update (\<lambda>_. if val = BestRun then None else Some (table_base_str val)))"

definition setTableSort :: "string \<Rightarrow> string \<Rightarrow> compare_search \<Rightarrow> compare_search" where
  "setTableSort column direction =
     updateSearch (\<lambda>q. q\<lparr>cs_sort := if column = ''order'' then None else Some column,
       cs_sortDir := if direction = ''asc'' then None else Some direction\<rparr>)"

definition setDiffFilter :: "string \<Rightarrow> compare_search \<Rightarrow> compare_search" where
  "setDiffFilter val = updateSearch (cs_diffFilter_update (\<lambda>_. if val = ''all'' then None else Some val))"

definition setTestFilter :: "string \<Rightarrow> compare_search \<Rightarrow> compare_search" where
  "setTestFilter query = updateSearch (cs_filter_update (\<lambda>_. if query = [] then None else Some query))"

definition setTestFilterRegex :: "bool \<Rightarrow> compare_search \<Rightarrow> compare_search" where
  "setTestFilterRegex enabled = updateSearch (cs_filterRegex_update (\<lambda>_. if enabled then Some ''1'' else None))"

text \<open>\<open>String(v / 1_000_000)\<close> for a multiple of a million.\<close>

definition setGasBuckets :: "int js_set \<Rightarrow> compare_search \<Rightarrow> compare_search" where
  "setGasBuckets buckets =
     updateSearch (cs_gasBuckets_update (\<lambda>_.
       if buckets = [] then None
       else Some (join '','' (map (\<lambda>v. int_str (v div 1000000)) (sort buckets)))))"

definition toggleGasBucket :: "int \<Rightarrow> compare_search \<Rightarrow> compare_search" where
  "toggleGasBucket bucket q =
     (let selected = selectedGasBuckets q;
          next_set = (if bucket \<in> set selected then set_delete bucket selected else set_add bucket selected)
      in setGasBuckets next_set q)"

text \<open>Removing a run keeps the steps only; moving one keeps everything.\<close>

definition onRemoveRun :: "string \<Rightarrow> compare_search \<Rightarrow> compare_search" where
  "onRemoveRun i q =
     no_compare_search\<lparr>cs_runs := Some (join '','' (filter (\<lambda>r. r \<noteq> i) (compare_run_ids q))), cs_steps := cs_steps q\<rparr>"

definition move_item :: "nat \<Rightarrow> nat \<Rightarrow> 'a list \<Rightarrow> 'a list" where
  "move_item from_i to_i xs =
     (let rest = take from_i xs @ drop (from_i + 1) xs
      in take to_i rest @ [xs ! from_i] @ drop to_i rest)"

definition onMoveRun :: "nat \<Rightarrow> nat \<Rightarrow> compare_search \<Rightarrow> compare_search" where
  "onMoveRun from_i to_i q =
     (let ids = compare_run_ids q
      in if from_i < length ids
         then updateSearch (cs_runs_update (\<lambda>_. Some (join '','' (move_item from_i to_i ids)))) q
         else q)"

section \<open>Metrics of a run\<close>

record test_counts =
  tc_total :: real
  tc_passed :: real
  tc_failed :: real

text \<open>The part of the configuration of a run the comparison reads.\<close>

record run_config =
  cf_timestamp :: real
  cf_timestamp_end :: "real option"
  cf_suite_hash :: "string option"
  cf_instance_id :: string
  cf_test_counts :: "test_counts option"
  cf_labels :: "string js_object option"

record ComputedMetrics =
  cm_testCount :: real
  cm_passedTests :: real
  cm_failedTests :: real
  cm_totalDuration :: real
  cm_totalGasUsed :: real
  cm_totalGasUsedTime :: real
  cm_mgasPerSec :: "real option"
  cm_totalMsgCount :: real
  cm_totalRuntime :: "real option"

definition filtered_tests :: "run_result option \<Rightarrow> (string \<Rightarrow> bool) option \<Rightarrow> (string \<times> test_entry) list" where
  "filtered_tests result flt =
     (case result of
        None \<Rightarrow> []
      | Some r \<Rightarrow> filter (\<lambda>(name, t). case flt of None \<Rightarrow> True | Some f \<Rightarrow> f name) (rr_tests r))"

definition filtered_stats :: "run_result option \<Rightarrow> step_type list \<Rightarrow> (string \<Rightarrow> bool) option \<Rightarrow> aggregated_stats list" where
  "filtered_stats result fs flt = List.map_filter (\<lambda>(name, t). getAggregatedStats t fs) (filtered_tests result flt)"

definition passing_stats :: "aggregated_stats list \<Rightarrow> real" where
  "passing_stats ss = real (length (filter (\<lambda>s. ag_fail s = 0) ss))"

definition computeMetrics :: "run_config \<Rightarrow> run_result option \<Rightarrow> step_type list \<Rightarrow> (string \<Rightarrow> bool) option \<Rightarrow> ComputedMetrics" where
  "computeMetrics config result fs flt =
     (let tests = filtered_tests result flt;
          stats = filtered_stats result fs flt;
          testCount = (if flt \<noteq> None then real (length tests)
            else case cf_test_counts config of
                   Some c \<Rightarrow> tc_total c
                 | None \<Rightarrow> (case result of None \<Rightarrow> 0 | Some r \<Rightarrow> real (length (rr_tests r))));
          passed = (if flt \<noteq> None then passing_stats stats
            else case cf_test_counts config of Some c \<Rightarrow> tc_passed c | None \<Rightarrow> passing_stats stats);
          gas = sum_list (map gas_used_total stats);
          gasTime = sum_list (map gas_used_time_total stats)
      in \<lparr>cm_testCount = testCount, cm_passedTests = passed, cm_failedTests = testCount - passed,
          cm_totalDuration = sum_list (map time_total stats), cm_totalGasUsed = gas, cm_totalGasUsedTime = gasTime,
          cm_mgasPerSec = (if gasTime > 0 then Some (gas * 1000 / gasTime) else None),
          cm_totalMsgCount = sum_list (map msg_count stats),
          cm_totalRuntime = (case cf_timestamp_end config of
             None \<Rightarrow> None
           | Some t \<Rightarrow> if t > 0 then Some (t - cf_timestamp config) else None)\<rparr>)"

text \<open>Ten decimal digits of gas, in the unit that fits.\<close>

definition formatGas :: "real \<Rightarrow> string" where
  "formatGas gas =
     (if gas \<ge> 1000000000 then toFixed 2 (gas / 1000000000) @ '' GGas''
      else toFixed 2 (gas / 1000000) @ '' MGas'')"


section \<open>Labels of the runs\<close>

record CompareRun =
  cr_runId :: string
  cr_config :: run_config
  cr_result :: "run_result option"
  cr_index :: nat

definition LABEL_MODE_BASE_OPTIONS :: "(string \<times> string) list" where
  "LABEL_MODE_BASE_OPTIONS = [(''none'', ''None''), (''instance-id'', ''Instance ID'')]"

definition shown_key :: "string \<Rightarrow> bool" where
  "shown_key key \<longleftrightarrow> \<not> starts_with key ''github.'' \<and> key \<noteq> ''name''"

definition buildLabelModeOptions :: "CompareRun list \<Rightarrow> (string \<times> string) list" where
  "buildLabelModeOptions runs =
     (let keys = js_set_of (filter shown_key
            (concat (map (\<lambda>r. case cf_labels (cr_config r) of None \<Rightarrow> [] | Some ls \<Rightarrow> map fst ls) runs)))
      in LABEL_MODE_BASE_OPTIONS @ map (\<lambda>key. (''label:'' @ key, key)) (sort keys))"

definition formatRunLabel :: "string \<Rightarrow> CompareRun \<Rightarrow> string \<Rightarrow> string" where
  "formatRunLabel slot r mode =
     (if mode = ''instance-id'' \<and> cf_instance_id (cr_config r) \<noteq> []
      then slot @ '' ('' @ cf_instance_id (cr_config r) @ '')''
      else if starts_with mode ''label:''
      then (case label_of (cf_labels (cr_config r)) (drop 6 mode) of
              None \<Rightarrow> slot | Some v \<Rightarrow> slot @ '' ('' @ v @ '')'')
      else slot)"

text \<open>The page warns when the runs belong to more than one suite.\<close>

definition suiteMismatch :: "CompareRun list \<Rightarrow> bool" where
  "suiteMismatch runs \<longleftrightarrow> 1 < length (js_set_of (non_empty (map (\<lambda>r. cf_suite_hash (cr_config r)) runs)))"

section \<open>Lemmas\<close>

subsection \<open>Numbers in the URL\<close>

lemma takeWhile_nat_str: "takeWhile is_digit (nat_str n) = nat_str n"
  by (rule takeWhile_eq_all_conv [THEN iffD2]) (simp add: nat_str_digits)

lemma nat_str_hd: "is_digit (hd (nat_str n))"
  by (rule nat_str_digits [of _ n]) simp

lemma js_parseInt_nat_str [simp]: "js_parseInt (nat_str n) = Some (int n)"
proof -
  have hd: "is_digit (hd (nat_str n))" by (rule nat_str_hd)
  then have "dropWhile is_space (nat_str n) = nat_str n"
    by (cases "nat_str n") (auto dest: digit_not_space)
  moreover have "hd (nat_str n) \<noteq> CHR ''-''" "hd (nat_str n) \<noteq> CHR ''+''"
    using hd by (auto simp: is_digit_def)
  ultimately show ?thesis by (simp add: js_parseInt_def takeWhile_nat_str Let_def)
qed

lemma js_parseInt_int_str [simp]: "js_parseInt (int_str i) = Some i"
proof (cases "i < 0")
  case True
  then have "int_str i = CHR ''-'' # nat_str (nat (- i))" by (simp add: int_str_def)
  moreover have "\<not> is_space CHR ''-''" by (simp add: is_space_def)
  ultimately show ?thesis using True by (simp add: js_parseInt_def takeWhile_nat_str Let_def)
qed (simp add: int_str_def)

lemma int_or_zero_str [simp]: "int_or_zero (int_str i) = i"
  by (simp add: int_or_zero_def)

lemma int_str_no_comma: "CHR '','' \<notin> set (int_str i)"
  using nat_str_free [of "CHR '',''"] by (auto simp: int_str_def is_digit_def)

lemma int_str_neq_Nil [simp]: "int_str i \<noteq> []"
  by (simp add: int_str_def)

lemma int_str_not_word: "int_str i \<noteq> ''best''" "int_str i \<noteq> ''worst''"
proof -
  have "js_parseInt ''best'' = None" "js_parseInt ''worst'' = None"
    by (simp_all add: js_parseInt_def is_space_def is_digit_def)
  then show "int_str i \<noteq> ''best''" "int_str i \<noteq> ''worst''" by (metis js_parseInt_int_str option.distinct(1))+
qed


subsection \<open>Runs in the URL\<close>

text \<open>Ids that survive the parameter: no comma, no white space around them, not empty.\<close>

definition plain_id :: "string \<Rightarrow> bool" where
  "plain_id i \<longleftrightarrow> i \<noteq> [] \<and> trim i = i \<and> CHR '','' \<notin> set i"

lemma compare_run_ids_join:
  assumes "\<forall>i \<in> set ids. plain_id i" "length ids \<le> MAX_COMPARE_RUNS" "cs_runs q = Some (join '','' ids)"
  shows "compare_run_ids q = ids"
proof (cases "ids = []")
  case True
  then show ?thesis using assms(3) by (simp add: compare_run_ids_def or_empty_def trim_id)
next
  case False
  have "split_on CHR '','' (join '','' ids) = ids"
    by (rule split_on_join) (use False assms(1) in \<open>auto simp: plain_id_def\<close>)
  moreover have "map trim ids = ids" using assms(1) by (auto simp: plain_id_def intro: map_idI)
  moreover have "filter (\<lambda>s. s \<noteq> []) ids = ids" using assms(1) by (auto simp: plain_id_def filter_id_conv)
  ultimately show ?thesis using assms(2,3) by (simp add: compare_run_ids_def or_empty_def)
qed

lemma mset_move_item: "i < length xs \<Longrightarrow> mset (move_item i j xs) = mset xs"
proof -
  assume i: "i < length xs"
  define rest where "rest = take i xs @ drop (i + 1) xs"
  have "mset (move_item i j xs) = mset (take j rest) + mset (drop j rest) + {#xs ! i#}"
    by (simp add: move_item_def rest_def Let_def)
  also have "mset (take j rest) + mset (drop j rest) = mset rest"
    by (metis append_take_drop_id mset_append)
  also have "mset rest + {#xs ! i#} = mset xs"
    using id_take_nth_drop [OF i] by (metis (no_types, lifting) Suc_eq_plus1 add_mset_add_single mset.simps(2)
        mset_append rest_def union_mset_add_mset_right)
  finally show ?thesis .
qed

text \<open>C22: The comparison opened from the run list. After any clicks on the run list, the comparison page
  opened by the compare button reads from its URL exactly the runs that were selected, in the order they
  were selected, between two and five; moving a run on that page only permutes them, and removing one
  removes exactly that run. An old link with two runs is redirected to the comparison of these two. Run
  ids are assumed to have no comma, no space around them and not to be empty.\<close>

theorem compare_page_shows_selection:
  assumes "list_all (shown_selectable A) es" and "s = run runs_step (open_page q0) es"
    and "\<forall>i \<in> A. plain_id i" and "MIN_COMPARE_RUNS \<le> length (rp_selected s)"
    and "q = no_compare_search\<lparr>cs_runs := rp_compared (runs_step s CompareConfirmed)\<rparr>"
    and "i < length (rp_selected s)" and "plain_id a" "plain_id b"
  shows "compare_run_ids q = rp_selected s \<and> length (rp_selected s) \<le> 5 \<and>
    mset (compare_run_ids (onMoveRun i j q)) = mset (rp_selected s) \<and>
    compare_run_ids (onRemoveRun r q) = filter (\<lambda>x. x \<noteq> r) (rp_selected s) \<and>
    compare_run_ids (redirect (no_compare_search\<lparr>cs_a := Some a, cs_b := Some b\<rparr>)) = [a, b]"
proof -
  have inv: "runs_inv A s" using runs.inv_run [OF inv_open_page assms(1)] assms(2) by simp
  then have plain: "\<forall>i \<in> set (rp_selected s). plain_id i" and few: "length (rp_selected s) \<le> MAX_COMPARE_RUNS"
    using assms(3) by (auto simp: runs_inv_def ids_ok_def)
  have "rp_compared (runs_step s CompareConfirmed) = Some (join '','' (rp_selected s))"
    using assms(4) by (simp add: compare_selected_def)
  then have q: "compare_run_ids q = rp_selected s"
    using assms(5) by (intro compare_run_ids_join [OF plain few]) simp
  have moved: "mset (move_item i j (rp_selected s)) = mset (rp_selected s)"
    by (rule mset_move_item [OF assms(6)])
  have "compare_run_ids (onMoveRun i j q) = move_item i j (rp_selected s)"
  proof (rule compare_run_ids_join)
    show "\<forall>i \<in> set (move_item i j (rp_selected s)). plain_id i"
      using plain mset_eq_setD [OF moved] by simp
    show "length (move_item i j (rp_selected s)) \<le> MAX_COMPARE_RUNS"
      using few mset_eq_length [OF moved] by simp
  qed (simp add: onMoveRun_def q assms(6) updateSearch_def)
  moreover have "compare_run_ids (onRemoveRun r q) = filter (\<lambda>x. x \<noteq> r) (rp_selected s)"
  proof (rule compare_run_ids_join)
    show "length (filter (\<lambda>x. x \<noteq> r) (rp_selected s)) \<le> MAX_COMPARE_RUNS"
      using few le_trans length_filter_le by blast
  qed (use plain in \<open>simp_all add: onRemoveRun_def q\<close>)
  moreover have "compare_run_ids (redirect (no_compare_search\<lparr>cs_a := Some a, cs_b := Some b\<rparr>)) = [a, b]"
    by (rule compare_run_ids_join) (use assms(7,8) in \<open>auto simp: MAX_COMPARE_RUNS_def redirect_def
        given_def no_compare_search_def plain_id_def\<close>)
  ultimately show ?thesis using q moved few by (simp add: MAX_COMPARE_RUNS_def)
qed

definition compare_clicks :: "runs_event list" where
  "compare_clicks = [CompareButton, RowClicked (ix_entries example_index) 1 False,
     RowClicked (ix_entries example_index) 0 False]"

theorem compare_page_shows_selection_witness:
  "compare_run_ids (no_compare_search\<lparr>cs_runs := rp_compared (runs_step
      (run runs_step (open_page empty_search) compare_clicks) CompareConfirmed)\<rparr>) = [''r2'', ''r1'']"
proof -
  define rows where "rows = ix_entries example_index"
  define s0 where "s0 = handleEnterCompareMode (open_page empty_search)"
  have s0: "selectable s0" "\<not> rp_deleteMode s0" "rp_selected s0 = []"
    by (simp_all add: s0_def open_page_def handleEnterCompareMode_def selectable_def)
  have rows: "i < length rows" "isEntrySelectable (rows ! i)" if "i \<in> {0, 1}" for i
    using that by (auto simp: rows_def example_index_def example_entry_def isEntrySelectable_def isPendingDeletion_def)
  have ids: "ie_run_id (rows ! 0) = ''r1''" "ie_run_id (rows ! 1) = ''r2''"
    by (simp_all add: rows_def example_index_def example_entry_def)
  define s1 where "s1 = click_row rows 1 False s0"
  have s1: "selectable s1" "\<not> rp_deleteMode s1" "rp_selected s1 = [''r2'']"
    using plain_click [OF s0(1) rows [of 1]] s0 ids(2)
    by (simp_all add: s1_def onSelectionChange_def handleSelectionChange_def table_selected_def set_add_def
        MAX_COMPARE_RUNS_def selectable_def)
  have s2: "rp_selected (click_row rows 0 False s1) = [''r2'', ''r1'']"
    using plain_click [OF s1(1) rows [of 0]] s1 ids(1)
    by (simp add: onSelectionChange_def handleSelectionChange_def table_selected_def set_add_def
        MAX_COMPARE_RUNS_def)
  have start: "run runs_step (open_page empty_search) compare_clicks = click_row rows 0 False s1"
    by (simp add: compare_clicks_def s1_def s0_def rows_def) (simp add: open_page_def)
  have shown: "list_all (shown_selectable {''r1'', ''r2''}) compare_clicks"
    by (auto simp: compare_clicks_def shown_selectable_def example_index_def example_entry_def)
  have plain: "\<forall>i \<in> {''r1'', ''r2''}. plain_id i"
    by (simp add: plain_id_def trim_id is_space_def)
  show ?thesis
    unfolding start
    using compare_page_shows_selection [OF shown start [symmetric] plain _ refl, of 0 "''r1''" "''r2''" 0 "[]"] s2 plain
    by (simp add: MIN_COMPARE_RUNS_def)
qed


subsection \<open>Gas buckets\<close>

lemma selected_set_buckets:
  assumes "\<forall>v \<in> set buckets. 1000000 dvd v"
  shows "set (selectedGasBuckets (setGasBuckets buckets q)) = set buckets"
proof (cases "buckets = []")
  case True
  then show ?thesis by (simp add: selectedGasBuckets_def setGasBuckets_def updateSearch_def given_def)
next
  case False
  define texts where "texts = map (\<lambda>v. int_str (v div 1000000)) (sort buckets)"
  have "sort buckets \<noteq> []" using False by (metis set_empty set_sort)
  then have ne: "texts \<noteq> []" by (simp add: texts_def)
  have free: "\<forall>x \<in> set texts. CHR '','' \<notin> set x \<and> x \<noteq> []" using int_str_no_comma by (auto simp: texts_def)
  have "join '','' texts \<noteq> []" using ne free by (auto simp: join_Nil_iff)
  moreover have "split_on CHR '','' (join '','' texts) = texts"
    by (rule split_on_join) (use ne free in auto)
  moreover have "List.map_filter js_parseInt texts = map (\<lambda>v. v div 1000000) (sort buckets)"
    by (simp add: texts_def map_filter_def comp_def)
  moreover have "(\<lambda>v. v div 1000000 * 1000000) ` set buckets = set buckets"
    using assms by (force simp: image_iff)
  ultimately show ?thesis using False
    by (simp add: selectedGasBuckets_def setGasBuckets_def updateSearch_def given_def texts_def [symmetric] image_image)
qed

lemma selected_dvd: "b \<in> set (selectedGasBuckets q) \<Longrightarrow> 1000000 dvd b"
  by (auto simp: selectedGasBuckets_def split: if_splits)

lemma toggle_bucket:
  assumes "1000000 dvd b"
  shows "set (selectedGasBuckets (toggleGasBucket b q)) =
    (if b \<in> set (selectedGasBuckets q) then set (selectedGasBuckets q) - {b}
     else insert b (set (selectedGasBuckets q)))"
proof -
  have "\<forall>v \<in> set (if b \<in> set (selectedGasBuckets q) then set_delete b (selectedGasBuckets q)
      else set_add b (selectedGasBuckets q)). 1000000 dvd v"
    using assms selected_dvd by auto
  from selected_set_buckets [OF this, of q] show ?thesis by (simp add: toggleGasBucket_def Let_def)
qed

lemma bucket_dvd: "1000000 dvd gas_bucket g"
  by (simp add: gas_bucket_def GAS_BUCKET_STEP_def)

lemma toggled_buckets:
  assumes "\<forall>b \<in> set clicks. 1000000 dvd b"
  shows "set (selectedGasBuckets (run (\<lambda>q b. toggleGasBucket b q) q clicks)) =
    {b. b \<in> set (selectedGasBuckets q) \<longleftrightarrow> even (count_list clicks b)}"
  using assms
proof (induction clicks arbitrary: q)
  case (Cons c cs)
  then show ?case using toggle_bucket [of c q] by auto
qed simp

lemma gas_bucket_error: "\<bar>of_int (gas_bucket g) - g\<bar> \<le> 15000000"
proof -
  have "\<bar>real_of_int (math_round (g / 30000000)) - g / 30000000\<bar> \<le> 1 / 2" by (rule math_round_error)
  then have "\<bar>real_of_int (math_round (g / 30000000)) * 30000000 - g\<bar> \<le> 15000000" by linarith
  then show ?thesis by (simp add: gas_bucket_def GAS_BUCKET_STEP_def)
qed

text \<open>The gas filter. Every test with gas lies in exactly one of the buckets on offer, at most half a
  step away from its gas. Starting without a selection, after any clicks on the offered buckets the URL
  reads back as the buckets clicked an odd number of times, and the filter keeps a test iff its bucket is
  one of these; with no such bucket everything is kept. Tests without gas are kept only then.\<close>

theorem gas_filter_follows_clicks:
  assumes "cs_gasBuckets q = None" and "set clicks \<subseteq> set (availableGasBuckets m)"
    and "q' = run (\<lambda>q b. toggleGasBucket b q) q clicks"
  shows "set (selectedGasBuckets q') = {b. odd (count_list clicks b)} \<and>
    (case gas_filter m (selectedGasBuckets q') of None \<Rightarrow> True | Some f \<Rightarrow> f name) =
      ((\<forall>b. even (count_list clicks b)) \<or>
       (\<exists>gas. map_of m name = Some gas \<and> odd (count_list clicks (gas_bucket gas)))) \<and>
    (case map_of m name of None \<Rightarrow> True
     | Some gas \<Rightarrow> gas_bucket gas \<in> set (availableGasBuckets m) \<and> \<bar>of_int (gas_bucket gas) - gas\<bar> \<le> 15000000)"
proof (intro conjI)
  have "\<forall>b \<in> set clicks. 1000000 dvd b"
    using assms(2) bucket_dvd by (auto simp: availableGasBuckets_def)
  from toggled_buckets [OF this, of q] show sel: "set (selectedGasBuckets q') = {b. odd (count_list clicks b)}"
    using assms(1,3) by (simp add: selectedGasBuckets_def [of q] given_def)
  have "selectedGasBuckets q' = [] \<longleftrightarrow> (\<forall>b. even (count_list clicks b))"
    using sel by (metis (mono_tags, lifting) empty_Collect_eq set_empty)
  then show "(case gas_filter m (selectedGasBuckets q') of None \<Rightarrow> True | Some f \<Rightarrow> f name) =
      ((\<forall>b. even (count_list clicks b)) \<or>
       (\<exists>gas. map_of m name = Some gas \<and> odd (count_list clicks (gas_bucket gas))))"
    using sel by (auto simp: gas_filter_def split: option.splits)
  show "case map_of m name of None \<Rightarrow> True
     | Some gas \<Rightarrow> gas_bucket gas \<in> set (availableGasBuckets m) \<and> \<bar>of_int (gas_bucket gas) - gas\<bar> \<le> 15000000"
    using gas_bucket_error by (auto simp: availableGasBuckets_def dest!: map_of_SomeD split: option.split)
qed

theorem gas_filter_follows_clicks_witness:
  "set (selectedGasBuckets (run (\<lambda>q b. toggleGasBucket b q) no_compare_search [30000000])) = {30000000}"
proof -
  have gas: "gas_bucket 31000000 = 30000000" by (simp add: gas_bucket_def GAS_BUCKET_STEP_def math_round_def)
  have "set [30000000] \<subseteq> set (availableGasBuckets [(''t'', 31000000)])"
    by (simp add: availableGasBuckets_def gas set_add_def js_set_of_def)
  from gas_filter_follows_clicks [OF _ this refl, of no_compare_search "''t''"] show ?thesis
    by (auto simp: no_compare_search_def)
qed

subsection \<open>View options\<close>

text \<open>The options of the view survive the URL, and setting one leaves the others alone. The base line of
  the cards is a run of the comparison for every URL.\<close>

lemma baseline_in_range:
  assumes "compare_run_ids q \<noteq> []"
  shows "0 \<le> baselineIdx q \<and> baselineIdx q < int (length (compare_run_ids q))"
proof -
  have "0 < length (compare_run_ids q)" using assms by simp
  then show ?thesis unfolding baselineIdx_def by linarith
qed

lemma updateSearch_runs:
  assumes "\<And>q. cs_runs (patch q) = cs_runs q"
  shows "compare_run_ids (updateSearch patch q) = compare_run_ids q"
  by (simp add: compare_run_ids_def updateSearch_def assms)

lemma view_options_roundtrip:
  assumes "0 \<le> i" "i < int (length (compare_run_ids q))"
  shows "baselineIdx (setBaselineIdx i q) = i"
    and "val \<in> {BestRun, WorstRun, BaseRun i} \<Longrightarrow> tableBaseline (setTableBaseline val q) = val"
    and "labelMode (setLabelMode mode q) = mode"
    and "column = ''order'' \<or> tableSortBy (setTableSort column dir q) = column"
    and "tableSortDir (setTableSort column (if desc then ''desc'' else ''asc'') q) = (if desc then ''desc'' else ''asc'')"
    and "val' \<in> {''all'', ''faster'', ''slower''} \<Longrightarrow> diffFilter (setDiffFilter val' q) = val'"
    and "testFilter (setTestFilter query q) = query"
    and "testFilterRegex (setTestFilterRegex re q) = re"
proof -
  have runs: "compare_run_ids (setBaselineIdx i q) = compare_run_ids q"
      "compare_run_ids (setTableBaseline val q) = compare_run_ids q"
    by (simp_all add: setBaselineIdx_def setTableBaseline_def updateSearch_runs)
  have "js_parseInt ''0'' = Some 0" by (simp add: js_parseInt_def is_space_def is_digit_def digits_val_def)
  then have "int_or_zero ''0'' = 0" by (simp add: int_or_zero_def)
  then have "int_or_zero (or_else (cs_baseline (setBaselineIdx i q)) ''0'') = i"
    using assms by (simp add: setBaselineIdx_def updateSearch_def or_else_def)
  then show "baselineIdx (setBaselineIdx i q) = i" using assms unfolding baselineIdx_def runs by simp
  show "tableBaseline (setTableBaseline val q) = val" if "val \<in> {BestRun, WorstRun, BaseRun i}"
    using that assms int_str_not_word unfolding tableBaseline_def runs
    by (auto simp: setTableBaseline_def updateSearch_def)
  show "labelMode (setLabelMode mode q) = mode"
    by (simp add: labelMode_def setLabelMode_def updateSearch_def or_else_def)
  show "column = ''order'' \<or> tableSortBy (setTableSort column dir q) = column"
    by (simp add: tableSortBy_def setTableSort_def updateSearch_def or_else_def)
  show "tableSortDir (setTableSort column (if desc then ''desc'' else ''asc'') q) = (if desc then ''desc'' else ''asc'')"
    by (simp add: tableSortDir_def setTableSort_def updateSearch_def)
  show "diffFilter (setDiffFilter val' q) = val'" if "val' \<in> {''all'', ''faster'', ''slower''}"
    using that by (auto simp: diffFilter_def setDiffFilter_def updateSearch_def)
  show "testFilter (setTestFilter query q) = query"
    by (simp add: testFilter_def setTestFilter_def updateSearch_def or_empty_def)
  show "testFilterRegex (setTestFilterRegex re q) = re"
    by (simp add: testFilterRegex_def setTestFilterRegex_def updateSearch_def)
qed

text \<open>The base line of the table is not kept above zero.\<close>

lemma negative_table_baseline:
  assumes "cs_tableBase q = Some ''-3''" "compare_run_ids q \<noteq> []"
  shows "tableBaseline q = BaseRun (- 3)"
proof -
  have "js_parseInt ''-3'' = Some (- 3)" by (simp add: js_parseInt_def is_space_def is_digit_def digits_val_def)
  then have "int_or_zero ''-3'' = - 3" by (simp add: int_or_zero_def)
  then show ?thesis using assms(1) by (simp add: tableBaseline_def)
qed


subsection \<open>Metrics\<close>

lemma filtered_tests_split:
  "mset (filtered_tests r None) =
     mset (filtered_tests r (Some f)) + mset (filtered_tests r (Some (\<lambda>n. \<not> f n)))"
proof (cases r)
  case (Some rr)
  have "mset xs = mset (filter (\<lambda>(n, t). f n) xs) + mset (filter (\<lambda>(n, t). \<not> f n) xs)"
    for xs :: "(string \<times> test_entry) list"
    by (induction xs) auto
  then show ?thesis by (simp add: filtered_tests_def Some)
qed (simp add: filtered_tests_def)

lemma filtered_stats_image:
  "mset (filtered_stats r fs flt) =
     image_mset (\<lambda>p. the (getAggregatedStats (snd p) fs))
       (filter_mset (\<lambda>p. getAggregatedStats (snd p) fs \<noteq> None) (mset (filtered_tests r flt)))"
proof -
  have "mset (List.map_filter (\<lambda>(name, t). getAggregatedStats t fs) xs) =
      image_mset (\<lambda>p. the (getAggregatedStats (snd p) fs))
        (filter_mset (\<lambda>p. getAggregatedStats (snd p) fs \<noteq> None) (mset xs))" for xs :: "(string \<times> test_entry) list"
    by (induction xs) (auto simp: map_filter_simps split: option.split)
  then show ?thesis by (simp add: filtered_stats_def)
qed

lemma filtered_stats_split:
  "mset (filtered_stats r fs None) =
     mset (filtered_stats r fs (Some f)) + mset (filtered_stats r fs (Some (\<lambda>n. \<not> f n)))"
  by (simp add: filtered_stats_image filtered_tests_split [of r f])

lemma sum_list_split:
  assumes "mset xs = mset ys + mset zs"
  shows "sum_list (map g xs) = sum_list (map g ys) + sum_list (map g zs :: real list)"
  by (metis (no_types, lifting) assms image_mset_union mset_map sum_mset.union sum_mset_sum_list)

lemma passing_split:
  assumes "mset xs = mset ys + mset zs"
  shows "passing_stats xs = passing_stats ys + passing_stats zs"
proof -
  have "size (filter_mset (\<lambda>s. ag_fail s = 0) (mset xs)) =
      size (filter_mset (\<lambda>s. ag_fail s = 0) (mset ys)) + size (filter_mset (\<lambda>s. ag_fail s = 0) (mset zs))"
    by (simp add: assms)
  then show ?thesis by (simp add: passing_stats_def flip: mset_filter)
qed

lemma passing_le: "passing_stats (filtered_stats r fs flt) \<le> real (length (filtered_tests r flt))"
proof -
  have "length (List.map_filter g xs) \<le> length xs" for g :: "string \<times> test_entry \<Rightarrow> aggregated_stats option" and xs
    by (induction xs) (auto simp: map_filter_simps split: option.split)
  from this [of _ "filtered_tests r flt"] show ?thesis
    unfolding passing_stats_def filtered_stats_def using length_filter_le le_trans by (metis (mono_tags, lifting) of_nat_mono)
qed

text \<open>The metric cards and the test filter. For any filter, the metrics of the tests it keeps and of the
  tests it drops add up to the metrics of all tests (durations, gas, gas time, messages; and the numbers of
  tests, passed and failed, when the configuration of the run does not state them itself). Passed and
  failed tests add up to the tests, none of the numbers is negative under a filter, and the throughput is
  the quotient of the gas and the gas time shown.\<close>

theorem metrics_split_by_filter:
  fixes f :: "string \<Rightarrow> bool"
  defines "kept c r fs \<equiv> computeMetrics c r fs (Some f)"
    and "dropped c r fs \<equiv> computeMetrics c r fs (Some (\<lambda>n. \<not> f n))"
    and "whole c r fs \<equiv> computeMetrics c r fs None"
  shows "cm_totalDuration (whole c r fs) = cm_totalDuration (kept c r fs) + cm_totalDuration (dropped c r fs) \<and>
    cm_totalGasUsed (whole c r fs) = cm_totalGasUsed (kept c r fs) + cm_totalGasUsed (dropped c r fs) \<and>
    cm_totalGasUsedTime (whole c r fs) = cm_totalGasUsedTime (kept c r fs) + cm_totalGasUsedTime (dropped c r fs) \<and>
    cm_totalMsgCount (whole c r fs) = cm_totalMsgCount (kept c r fs) + cm_totalMsgCount (dropped c r fs) \<and>
    (cf_test_counts c \<noteq> None \<or>
      cm_testCount (whole c r fs) = cm_testCount (kept c r fs) + cm_testCount (dropped c r fs) \<and>
      cm_passedTests (whole c r fs) = cm_passedTests (kept c r fs) + cm_passedTests (dropped c r fs)) \<and>
    cm_passedTests (kept c r fs) + cm_failedTests (kept c r fs) = cm_testCount (kept c r fs) \<and>
    0 \<le> cm_passedTests (kept c r fs) \<and> 0 \<le> cm_failedTests (kept c r fs) \<and>
    cm_mgasPerSec (kept c r fs) =
      (if cm_totalGasUsedTime (kept c r fs) > 0
       then Some (cm_totalGasUsed (kept c r fs) * 1000 / cm_totalGasUsedTime (kept c r fs)) else None)"
proof -
  note split = filtered_stats_split [of r fs f]
  have count: "(case r of None \<Rightarrow> 0 | Some rr \<Rightarrow> real (length (rr_tests rr))) =
      real (length (filtered_tests r (Some f))) + real (length (filtered_tests r (Some (\<lambda>n. \<not> f n))))"
  proof -
    have "length (filtered_tests r None) =
        length (filtered_tests r (Some f)) + length (filtered_tests r (Some (\<lambda>n. \<not> f n)))"
      by (metis filtered_tests_split size_mset size_union)
    moreover have "(case r of None \<Rightarrow> 0 | Some rr \<Rightarrow> real (length (rr_tests rr))) = real (length (filtered_tests r None))"
      by (simp add: filtered_tests_def split: option.split)
    ultimately show ?thesis by simp
  qed
  have "0 \<le> passing_stats (filtered_stats r fs (Some f))" by (simp add: passing_stats_def)
  then show ?thesis
    unfolding kept_def dropped_def whole_def
    using sum_list_split [OF split] passing_split [OF split] count passing_le [of r fs "Some f"]
    by (simp add: computeMetrics_def Let_def split: option.split)
qed

definition metric_entry :: "real \<Rightarrow> real \<Rightarrow> test_entry" where
  "metric_entry gas failures =
     \<lparr>te_dir = [], te_filename_hash = None,
      te_steps = Some \<lparr>st_setup = None,
        st_test = Some \<lparr>sr_aggregated = Some (zero_stats\<lparr>gas_used_total := gas, ag_fail := failures\<rparr>)\<rparr>,
        st_cleanup = None\<rparr>\<rparr>"

definition metric_config :: run_config where
  "metric_config = \<lparr>cf_timestamp = 0, cf_timestamp_end = None, cf_suite_hash = None, cf_instance_id = [],
     cf_test_counts = None, cf_labels = None\<rparr>"

theorem metrics_split_by_filter_witness:
  "cm_totalGasUsed (computeMetrics metric_config
      (Some \<lparr>rr_pre_run_steps = None, rr_tests = [(''a'', metric_entry 3 0), (''b'', metric_entry 4 1)]\<rparr>) [Test] None) = 7"
proof -
  define r where "r = Some \<lparr>rr_pre_run_steps = None, rr_tests = [(''a'', metric_entry 3 0), (''b'', metric_entry 4 1)]\<rparr>"
  have stats: "getAggregatedStats (metric_entry g n) [Test] = Some (add_stats (zero_stats\<lparr>gas_used_total := g, ag_fail := n\<rparr>) zero_stats)" for g n
    by (simp add: getAggregatedStats_def metric_entry_def step_stats_def map_filter_simps Let_def)
  have gas: "gas_used_total (add_stats (zero_stats\<lparr>gas_used_total := g, ag_fail := n\<rparr>) zero_stats) = g" for g n
    by (simp add: add_stats_def zero_stats_def)
  have "cm_totalGasUsed (computeMetrics metric_config r [Test] (Some (\<lambda>n. n = ''a''))) = 3"
    "cm_totalGasUsed (computeMetrics metric_config r [Test] (Some (\<lambda>n. n \<noteq> ''a''))) = 4"
    by (simp_all add: computeMetrics_def r_def filtered_stats_def filtered_tests_def map_filter_simps stats gas Let_def)
  then show ?thesis
    using metrics_split_by_filter [of metric_config r "[Test]" "\<lambda>n. n = ''a''"] unfolding r_def by simp
qed

end
