(* ===== verification/Query_Builder.thy ===== *)
theory Query_Builder
  imports Js_Uri
begin

text \<open>
  The query builder (\<open>ui/src/pages/QueryBuilderPage.tsx\<close>): its tables and columns, the reducer, the
  page's URL and the URL of the query. Row ids are drawn from a counter. \<open>dec\<close>
  is the text of a number that is no integer.
\<close>

section \<open>Tables\<close>

type_synonym ColumnGroup = "string \<times> string list"

definition RUNS_COLUMN_GROUPS :: "ColumnGroup list" where
  "RUNS_COLUMN_GROUPS =
    [(''Identity'', [''id'', ''discovery_path'', ''run_id'', ''suite_hash'', ''instance_id'']),
     (''Client'', [''client'', ''image'', ''rollback_strategy'']),
     (''Status'', [''status'', ''termination_reason'', ''has_result'']),
     (''Tests'', [''tests_total'', ''tests_passed'', ''tests_failed'']),
     (''Timing'', [''timestamp'', ''timestamp_end'', ''indexed_at'', ''reindexed_at''])]"

definition TEST_STAT_COLUMN_GROUPS :: "ColumnGroup list" where
  "TEST_STAT_COLUMN_GROUPS =
    [(''Identity'', [''id'', ''suite_hash'', ''run_id'', ''test_name'', ''client'']),
     (''Totals'', [''total_gas_used'', ''total_time_ns'', ''total_mgas_s'']),
     (''Setup'', [''setup_gas_used'', ''setup_time_ns'', ''setup_mgas_s'', ''setup_rpc_calls_count'']),
     (''Setup Resources'',
       [''setup_resource_cpu_usec'', ''setup_resource_memory_delta_bytes'', ''setup_resource_memory_bytes'',
        ''setup_resource_disk_read_bytes'', ''setup_resource_disk_write_bytes'',
        ''setup_resource_disk_read_iops'', ''setup_resource_disk_write_iops'']),
     (''Test'', [''test_gas_used'', ''test_time_ns'', ''test_mgas_s'', ''test_rpc_calls_count'']),
     (''Test Resources'',
       [''test_resource_cpu_usec'', ''test_resource_memory_delta_bytes'', ''test_resource_memory_bytes'',
        ''test_resource_disk_read_bytes'', ''test_resource_disk_write_bytes'',
        ''test_resource_disk_read_iops'', ''test_resource_disk_write_iops'']),
     (''Timing'', [''run_start'', ''run_end''])]"

definition SUITES_COLUMN_GROUPS :: "ColumnGroup list" where
  "SUITES_COLUMN_GROUPS =
    [(''Identity'', [''id'', ''suite_hash'', ''discovery_path'']),
     (''Info'', [''name'', ''tests_total'']),
     (''Timing'', [''indexed_at''])]"

definition TEST_STATS_BLOCK_LOG_COLUMN_GROUPS :: "ColumnGroup list" where
  "TEST_STATS_BLOCK_LOG_COLUMN_GROUPS =
    [(''Identity'', [''id'', ''suite_hash'', ''run_id'', ''test_name'', ''client'']),
     (''Block'', [''block_number'', ''block_hash'', ''block_gas_used'', ''block_tx_count'']),
     (''Timing'',
       [''timing_execution_ms'', ''timing_state_read_ms'', ''timing_state_hash_ms'',
        ''timing_commit_ms'', ''timing_total_ms'']),
     (''Throughput'', [''throughput_mgas_per_sec'']),
     (''State Reads'',
       [''state_read_accounts'', ''state_read_storage_slots'', ''state_read_code'', ''state_read_code_bytes'']),
     (''State Writes'',
       [''state_write_accounts'', ''state_write_accounts_deleted'', ''state_write_storage_slots'',
        ''state_write_slots_deleted'', ''state_write_code'', ''state_write_code_bytes'']),
     (''Cache'',
       [''cache_account_hits'', ''cache_account_misses'', ''cache_account_hit_rate'',
        ''cache_storage_hits'', ''cache_storage_misses'', ''cache_storage_hit_rate'',
        ''cache_code_hits'', ''cache_code_misses'', ''cache_code_hit_rate'',
        ''cache_code_hit_bytes'', ''cache_code_miss_bytes''])]"

datatype Endpoint = RunsTable | TestStats | BlockLogStats | SuitesTable

fun endpoint_name :: "Endpoint \<Rightarrow> string" where
  "endpoint_name RunsTable = ''runs''"
| "endpoint_name TestStats = ''test_stats''"
| "endpoint_name BlockLogStats = ''test_stats_block_logs''"
| "endpoint_name SuitesTable = ''suites''"

fun columnGroupsForEndpoint :: "Endpoint \<Rightarrow> ColumnGroup list" where
  "columnGroupsForEndpoint RunsTable = RUNS_COLUMN_GROUPS"
| "columnGroupsForEndpoint BlockLogStats = TEST_STATS_BLOCK_LOG_COLUMN_GROUPS"
| "columnGroupsForEndpoint SuitesTable = SUITES_COLUMN_GROUPS"
| "columnGroupsForEndpoint TestStats = TEST_STAT_COLUMN_GROUPS"

definition columnsForEndpoint :: "Endpoint \<Rightarrow> string list" where
  "columnsForEndpoint ep = concat (map snd (columnGroupsForEndpoint ep))"

definition OPERATORS :: "(string \<times> string) list" where
  "OPERATORS = [(''eq'', ''= equals''), (''neq'', ''!= not equals''), (''gt'', ''> greater than''),
     (''gte'', ''>= greater or equal''), (''lt'', ''< less than''), (''lte'', ''<= less or equal''),
     (''like'', ''LIKE pattern''), (''in'', ''IN list''), (''is'', ''IS null/true/false'')]"

definition VALID_OPERATORS :: "string list" where
  "VALID_OPERATORS = map fst OPERATORS"


section \<open>State\<close>

record FilterRow =
  fr_id :: nat
  fr_column :: string
  fr_operator :: string
  fr_value :: string

record OrderRow =
  or_id :: nat
  or_column :: string
  or_direction :: string

record QueryBuilderState =
  qb_endpoint :: Endpoint
  qb_filters :: "FilterRow list"
  qb_orders :: "OrderRow list"
  qb_limit :: jsnum
  qb_offset :: jsnum
  qb_selectedColumns :: "string list"
  qb_countExact :: bool

definition makeInitialState :: QueryBuilderState where
  "makeInitialState = \<lparr>qb_endpoint = RunsTable, qb_filters = [], qb_orders = [], qb_limit = Fin 20,
     qb_offset = Fin 0, qb_selectedColumns = [], qb_countExact = False\<rparr>"


section \<open>The URL of the page\<close>

record QuerySearchParams =
  qp_endpoint :: "string option"
  qp_f :: "string option"
  qp_order :: "string option"
  qp_select :: "string option"
  qp_limit :: "string option"
  qp_offset :: "string option"
  qp_count :: "string option"

text \<open>\<open>String(n)\<close>.\<close>

definition num_str :: "(real \<Rightarrow> string) \<Rightarrow> jsnum \<Rightarrow> string" where
  "num_str dec x =
     (case x of Fin r \<Rightarrow> if of_int \<lfloor>r\<rfloor> = r then int_str \<lfloor>r\<rfloor> else dec r
      | PosInf \<Rightarrow> ''Infinity'' | NegInf \<Rightarrow> ''-Infinity'' | NaN \<Rightarrow> ''NaN'')"

definition filter_text :: "FilterRow \<Rightarrow> string" where
  "filter_text f = fr_column f @ '':'' @ fr_operator f @ '':'' @ encodeURIComponent (fr_value f)"

definition order_text :: "OrderRow \<Rightarrow> string" where
  "order_text o' = or_column o' @ ''.'' @ or_direction o'"

definition stateToSearchParams :: "(real \<Rightarrow> string) \<Rightarrow> QueryBuilderState \<Rightarrow> QuerySearchParams" where
  "stateToSearchParams dec st =
     \<lparr>qp_endpoint = (if qb_endpoint st \<noteq> RunsTable then Some (endpoint_name (qb_endpoint st)) else None),
      qp_f = (if qb_filters st \<noteq> [] then Some (join '','' (map filter_text (qb_filters st))) else None),
      qp_order = (if qb_orders st \<noteq> [] then Some (join '','' (map order_text (qb_orders st))) else None),
      qp_select = (if qb_selectedColumns st \<noteq> [] then Some (join '','' (qb_selectedColumns st)) else None),
      qp_limit = (if qb_limit st \<noteq> Fin 20 then Some (num_str dec (qb_limit st)) else None),
      qp_offset = (if num_lt (Fin 0) (qb_offset st) then Some (num_str dec (qb_offset st)) else None),
      qp_count = (if qb_countExact st then Some ''exact'' else None)\<rparr>"

definition present :: "string option \<Rightarrow> bool" where
  "present x \<longleftrightarrow> x \<noteq> None \<and> x \<noteq> Some []"

definition endpoint_of :: "string option \<Rightarrow> Endpoint" where
  "endpoint_of x =
     (if x = Some ''test_stats'' then TestStats
      else if x = Some ''test_stats_block_logs'' then BlockLogStats
      else if x = Some ''suites'' then SuitesTable else RunsTable)"

text \<open>One entry of the filter parameter: nothing, when it is skipped.\<close>

definition parse_filter :: "string list \<Rightarrow> string \<Rightarrow> js_error + (string \<times> string \<times> string) option" where
  "parse_filter validCols part =
     (case index_of CHR '':'' part of
        None \<Rightarrow> Inr None
      | Some i \<Rightarrow>
          (case index_of CHR '':'' (drop (i + 1) part) of
             None \<Rightarrow> Inr None
           | Some j \<Rightarrow>
               (case decodeURIComponent (drop (i + 1 + j + 1) part) of
                  Inl e \<Rightarrow> Inl e
                | Inr v \<Rightarrow>
                    let column = take i part; op = take j (drop (i + 1) part)
                    in Inr (if column \<in> set validCols \<and> op \<in> set VALID_OPERATORS
                            then Some (column, op, v) else None))))"

definition parse_order :: "string list \<Rightarrow> string \<Rightarrow> (string \<times> string) option" where
  "parse_order validCols part =
     (case last_index_of CHR ''.'' part of
        None \<Rightarrow> None
      | Some i \<Rightarrow>
          let column = take i part; direction = drop (i + 1) part
          in if column \<in> set validCols \<and> (direction = ''asc'' \<or> direction = ''desc'')
             then Some (column, direction) else None)"

text \<open>Rows get fresh ids, in order.\<close>

fun number_filters :: "nat \<Rightarrow> (string \<times> string \<times> string) list \<Rightarrow> FilterRow list" where
  "number_filters n [] = []"
| "number_filters n ((c, op, v) # fs) =
     \<lparr>fr_id = n, fr_column = c, fr_operator = op, fr_value = v\<rparr> # number_filters (n + 1) fs"

fun number_orders :: "nat \<Rightarrow> (string \<times> string) list \<Rightarrow> OrderRow list" where
  "number_orders n [] = []"
| "number_orders n ((c, d) # os) = \<lparr>or_id = n, or_column = c, or_direction = d\<rparr> # number_orders (n + 1) os"

text \<open>\<open>Number(s) || d\<close>, and the bounds of limit and offset.\<close>

definition number_or :: "jsnum \<Rightarrow> string \<Rightarrow> jsnum" where
  "number_or d s = (let x = js_Number s in if x = Fin 0 \<or> x = NaN then d else x)"

definition num_max :: "jsnum \<Rightarrow> jsnum \<Rightarrow> jsnum" where
  "num_max a b = (if a = NaN \<or> b = NaN then NaN else if num_lt a b then b else a)"

definition num_min :: "jsnum \<Rightarrow> jsnum \<Rightarrow> jsnum" where
  "num_min a b = (if a = NaN \<or> b = NaN then NaN else if num_lt b a then b else a)"

definition clamp_limit :: "jsnum \<Rightarrow> jsnum" where
  "clamp_limit x = num_min (num_max (Fin 1) x) (Fin 10000)"

definition clamp_offset :: "jsnum \<Rightarrow> jsnum" where
  "clamp_offset x = num_max (Fin 0) x"

definition searchParamsToState :: "nat \<Rightarrow> QuerySearchParams \<Rightarrow> js_error + (nat \<times> QueryBuilderState) option" where
  "searchParamsToState n p =
     (if \<not> (present (qp_endpoint p) \<or> present (qp_f p) \<or> present (qp_order p) \<or> present (qp_select p) \<or>
            present (qp_limit p) \<or> present (qp_offset p) \<or> present (qp_count p))
      then Inr None
      else
        let endpoint = endpoint_of (qp_endpoint p);
            validCols = columnsForEndpoint endpoint
        in case (if present (qp_f p) then map_result (parse_filter validCols) (split_on CHR '','' (the (qp_f p)))
                 else Inr []) of
             Inl e \<Rightarrow> Inl e
           | Inr fs \<Rightarrow>
               let filters = List.map_filter (\<lambda>x. x) fs;
                   orders = (if present (qp_order p)
                             then List.map_filter (parse_order validCols) (split_on CHR '','' (the (qp_order p)))
                             else []);
                   cols = (if present (qp_select p)
                           then filter (\<lambda>c. c \<noteq> [] \<and> c \<in> set validCols)
                                  (map trim (split_on CHR '','' (the (qp_select p))))
                           else [])
               in Inr (Some (n + length filters + length orders,
                    \<lparr>qb_endpoint = endpoint, qb_filters = number_filters n filters,
                     qb_orders = number_orders (n + length filters) orders,
                     qb_limit = (if present (qp_limit p) then clamp_limit (number_or (Fin 20) (the (qp_limit p)))
                                 else Fin 20),
                     qb_offset = (if present (qp_offset p) then clamp_offset (number_or (Fin 0) (the (qp_offset p)))
                                  else Fin 0),
                     qb_selectedColumns = cols, qb_countExact = (qp_count p = Some ''exact'')\<rparr>)))"

text \<open>The state a page starts with.\<close>

definition restore :: "nat \<Rightarrow> QuerySearchParams \<Rightarrow> js_error + nat \<times> QueryBuilderState" where
  "restore n p =
     (case searchParamsToState n p of
        Inl e \<Rightarrow> Inl e
      | Inr None \<Rightarrow> Inr (n, makeInitialState)
      | Inr (Some r) \<Rightarrow> Inr r)"

section \<open>Reducer\<close>

datatype filter_field = FieldColumn | FieldOperator | FieldValue
datatype order_field = OrderColumn | OrderDirection

record Preset =
  pr_endpoint :: Endpoint
  pr_filters :: "FilterRow list"
  pr_orders :: "OrderRow list"
  pr_limit :: jsnum
  pr_offset :: jsnum
  pr_selectedColumns :: "string list option"
  pr_countExact :: "bool option"

datatype query_action =
  SetEndpoint Endpoint
| AddFilter
| RemoveFilter nat
| UpdateFilter nat filter_field string
| AddOrder
| RemoveOrder nat
| UpdateOrder nat order_field string
| ToggleOrder string
| SetLimit jsnum
| SetOffset jsnum
| SetColumns "string list"
| ToggleCount
| LoadPreset Preset

fun set_filter_field :: "filter_field \<Rightarrow> string \<Rightarrow> FilterRow \<Rightarrow> FilterRow" where
  "set_filter_field FieldColumn v f = f\<lparr>fr_column := v\<rparr>"
| "set_filter_field FieldOperator v f = f\<lparr>fr_operator := v\<rparr>"
| "set_filter_field FieldValue v f = f\<lparr>fr_value := v\<rparr>"

fun set_order_field :: "order_field \<Rightarrow> string \<Rightarrow> OrderRow \<Rightarrow> OrderRow" where
  "set_order_field OrderColumn v r = r\<lparr>or_column := v\<rparr>"
| "set_order_field OrderDirection v r = r\<lparr>or_direction := v\<rparr>"

definition toggle_order :: "nat \<Rightarrow> string \<Rightarrow> OrderRow list \<Rightarrow> nat \<times> OrderRow list" where
  "toggle_order n column rows =
     (case find (\<lambda>r. or_column r = column) rows of
        None \<Rightarrow> (n + 1, rows @ [\<lparr>or_id = n, or_column = column, or_direction = ''asc''\<rparr>])
      | Some e \<Rightarrow>
          if or_direction e = ''asc''
          then (n, map (\<lambda>r. if or_column r = column then r\<lparr>or_direction := ''desc''\<rparr> else r) rows)
          else (n, filter (\<lambda>r. or_column r \<noteq> column) rows))"

text \<open>The counter of row ids is threaded through.\<close>

fun query_reducer :: "nat \<times> QueryBuilderState \<Rightarrow> query_action \<Rightarrow> nat \<times> QueryBuilderState" where
  "query_reducer (n, st) (SetEndpoint ep) = (n, makeInitialState\<lparr>qb_endpoint := ep\<rparr>)"
| "query_reducer (n, st) AddFilter =
     (n + 1, st\<lparr>qb_filters := qb_filters st @
        [\<lparr>fr_id = n, fr_column = hd (columnsForEndpoint (qb_endpoint st)), fr_operator = ''eq'', fr_value = []\<rparr>]\<rparr>)"
| "query_reducer (n, st) (RemoveFilter i) = (n, st\<lparr>qb_filters := filter (\<lambda>f. fr_id f \<noteq> i) (qb_filters st)\<rparr>)"
| "query_reducer (n, st) (UpdateFilter i fd v) =
     (n, st\<lparr>qb_filters := map (\<lambda>f. if fr_id f = i then set_filter_field fd v f else f) (qb_filters st)\<rparr>)"
| "query_reducer (n, st) AddOrder =
     (n + 1, st\<lparr>qb_orders := qb_orders st @
        [\<lparr>or_id = n, or_column = hd (columnsForEndpoint (qb_endpoint st)), or_direction = ''asc''\<rparr>]\<rparr>)"
| "query_reducer (n, st) (RemoveOrder i) = (n, st\<lparr>qb_orders := filter (\<lambda>r. or_id r \<noteq> i) (qb_orders st)\<rparr>)"
| "query_reducer (n, st) (UpdateOrder i fd v) =
     (n, st\<lparr>qb_orders := map (\<lambda>r. if or_id r = i then set_order_field fd v r else r) (qb_orders st)\<rparr>)"
| "query_reducer (n, st) (ToggleOrder c) =
     (fst (toggle_order n c (qb_orders st)), st\<lparr>qb_orders := snd (toggle_order n c (qb_orders st))\<rparr>)"
| "query_reducer (n, st) (SetLimit x) = (n, st\<lparr>qb_limit := clamp_limit x, qb_offset := Fin 0\<rparr>)"
| "query_reducer (n, st) (SetOffset x) = (n, st\<lparr>qb_offset := clamp_offset x\<rparr>)"
| "query_reducer (n, st) (SetColumns cs) = (n, st\<lparr>qb_selectedColumns := cs\<rparr>)"
| "query_reducer (n, st) ToggleCount = (n, st\<lparr>qb_countExact := \<not> qb_countExact st\<rparr>)"
| "query_reducer (n, st) (LoadPreset p) =
     (n, \<lparr>qb_endpoint = pr_endpoint p, qb_filters = pr_filters p, qb_orders = pr_orders p,
          qb_limit = pr_limit p, qb_offset = pr_offset p,
          qb_selectedColumns = (case pr_selectedColumns p of None \<Rightarrow> [] | Some cs \<Rightarrow> cs),
          qb_countExact = (case pr_countExact p of None \<Rightarrow> False | Some b \<Rightarrow> b)\<rparr>)"

text \<open>The column selector: one column, or a whole group.\<close>

definition toggle_column :: "string \<Rightarrow> QueryBuilderState \<Rightarrow> query_action" where
  "toggle_column col st =
     SetColumns (if col \<in> set (qb_selectedColumns st) then filter (\<lambda>c. c \<noteq> col) (qb_selectedColumns st)
                 else qb_selectedColumns st @ [col])"

definition toggle_group :: "ColumnGroup \<Rightarrow> QueryBuilderState \<Rightarrow> query_action" where
  "toggle_group g st =
     (if set (snd g) \<subseteq> set (qb_selectedColumns st)
      then SetColumns (filter (\<lambda>c. c \<notin> set (snd g)) (qb_selectedColumns st))
      else SetColumns (js_set_of (qb_selectedColumns st @ snd g)))"

text \<open>The inputs for limit and offset, and the buttons that page through the result.\<close>

definition limit_input :: "string \<Rightarrow> query_action" where
  "limit_input s = SetLimit (number_or (Fin 20) s)"

definition offset_input :: "string \<Rightarrow> query_action" where
  "offset_input s = SetOffset (number_or (Fin 0) s)"

definition previous_rows :: "QueryBuilderState \<Rightarrow> query_action option" where
  "previous_rows st =
     (if qb_offset st = Fin 0 then None else Some (SetOffset (num_sub (qb_offset st) (qb_limit st))))"

definition next_rows :: "nat \<Rightarrow> QueryBuilderState \<Rightarrow> query_action option" where
  "next_rows rows st =
     (if num_lt (Fin (real rows)) (qb_limit st) then None
      else Some (SetOffset (num_add (qb_offset st) (qb_limit st))))"


section \<open>The query\<close>

text \<open>\<open>URLSearchParams.set\<close>: the first pair of the name is replaced, further ones are removed.\<close>

fun params_set :: "string \<Rightarrow> string \<Rightarrow> (string \<times> string) list \<Rightarrow> (string \<times> string) list" where
  "params_set k v [] = [(k, v)]"
| "params_set k v (p # ps) =
     (if fst p = k then (k, v) # filter (\<lambda>q. fst q \<noteq> k) ps else p # params_set k v ps)"

definition query_params :: "(real \<Rightarrow> string) \<Rightarrow> QueryBuilderState \<Rightarrow> (string \<times> string) list" where
  "query_params dec st =
     (let sent = filter (\<lambda>f. fr_value f \<noteq> [] \<or> fr_operator f = ''is'') (qb_filters st);
          p0 = map (\<lambda>f. (fr_column f, fr_operator f @ ''.'' @ fr_value f)) sent;
          p1 = (if qb_orders st \<noteq> [] then params_set ''order'' (join '','' (map order_text (qb_orders st))) p0 else p0);
          p2 = (if qb_selectedColumns st \<noteq> [] then params_set ''select'' (join '','' (qb_selectedColumns st)) p1 else p1);
          p3 = params_set ''limit'' (num_str dec (qb_limit st)) p2
      in if num_lt (Fin 0) (qb_offset st) then params_set ''offset'' (num_str dec (qb_offset st)) p3 else p3)"

definition buildQueryUrl :: "(real \<Rightarrow> string) \<Rightarrow> QueryBuilderState \<Rightarrow> string \<Rightarrow> string" where
  "buildQueryUrl dec st apiBaseUrl =
     (let qs = search_params_str (query_params dec st)
      in apiBaseUrl @ ''/api/v1/index/query/'' @ endpoint_name (qb_endpoint st) @ (if qs \<noteq> [] then ''?'' @ qs else []))"

section \<open>Lemmas\<close>

subsection \<open>Columns\<close>

text \<open>Column names are identifiers.\<close>

definition ident_chars :: "char set" where
  "ident_chars = set ''abcdefghijklmnopqrstuvwxyz_''"

definition ident :: "string \<Rightarrow> bool" where
  "ident s \<longleftrightarrow> s \<noteq> [] \<and> set s \<subseteq> ident_chars"

lemmas column_lists = columnsForEndpoint_def RUNS_COLUMN_GROUPS_def TEST_STAT_COLUMN_GROUPS_def
  SUITES_COLUMN_GROUPS_def TEST_STATS_BLOCK_LOG_COLUMN_GROUPS_def

lemma columns_ident: "list_all ident (columnsForEndpoint ep)"
  by (cases ep) (simp_all add: column_lists ident_def ident_chars_def)

lemma columns_not_reserved:
  "c \<in> set (columnsForEndpoint ep) \<Longrightarrow> c \<notin> {''limit'', ''offset'', ''select'', ''order''}"
  by (cases ep) (auto simp: column_lists)

lemma columns_nonempty [simp]: "columnsForEndpoint ep \<noteq> []"
  by (cases ep) (simp_all add: column_lists)

lemma ident_free:
  assumes "ident s"
  shows "CHR '','' \<notin> set s" "CHR '':'' \<notin> set s" "CHR ''.'' \<notin> set s" "s \<noteq> []"
  using assms by (auto simp: ident_def ident_chars_def)

lemma ident_char_code: "c \<in> ident_chars \<Longrightarrow> 95 \<le> code c \<and> code c \<le> 122"
  by (auto simp: ident_chars_def)

lemma ident_trim:
  assumes "ident s"
  shows "trim s = s"
proof -
  have codes: "\<forall>c \<in> set s. 95 \<le> code c \<and> code c \<le> 122"
    using assms ident_char_code by (auto simp: ident_def)
  then have "\<forall>c \<in> set s. \<not> is_space c" by (fastforce simp: is_space_def)
  then show "trim s = s" using assms by (auto simp: trim_id ident_def)
qed

lemma column_ident: "c \<in> set (columnsForEndpoint ep) \<Longrightarrow> ident c"
  using columns_ident [of ep] by (simp add: list_all_iff)

lemma operator_ident: "list_all ident VALID_OPERATORS"
  by (simp add: VALID_OPERATORS_def OPERATORS_def ident_def ident_chars_def)

lemma operator_free: "op \<in> set VALID_OPERATORS \<Longrightarrow> ident op"
  using operator_ident by (simp add: list_all_iff)


subsection \<open>The state invariant\<close>

definition wf_filter :: "Endpoint \<Rightarrow> FilterRow \<Rightarrow> bool" where
  "wf_filter ep f \<longleftrightarrow> fr_column f \<in> set (columnsForEndpoint ep) \<and> fr_operator f \<in> set VALID_OPERATORS"

definition wf_order :: "Endpoint \<Rightarrow> OrderRow \<Rightarrow> bool" where
  "wf_order ep r \<longleftrightarrow> or_column r \<in> set (columnsForEndpoint ep) \<and> or_direction r \<in> {''asc'', ''desc''}"

text \<open>The rows of the order may also name columns the builder does not list: a header of the result sorts
  by its column, whatever the server sent.\<close>

definition order_row :: "OrderRow \<Rightarrow> bool" where
  "order_row r \<longleftrightarrow> ident (or_column r) \<and> or_direction r \<in> {''asc'', ''desc''}"

definition limit_ok :: "jsnum \<Rightarrow> bool" where
  "limit_ok x \<longleftrightarrow> (\<exists>r. x = Fin r \<and> 1 \<le> r \<and> r \<le> 10000)"

definition offset_ok :: "jsnum \<Rightarrow> bool" where
  "offset_ok x \<longleftrightarrow> x = PosInf \<or> (\<exists>r. x = Fin r \<and> 0 \<le> r)"

definition query_inv :: "nat \<times> QueryBuilderState \<Rightarrow> bool" where
  "query_inv s \<longleftrightarrow> (case s of (n, st) \<Rightarrow>
     list_all (wf_filter (qb_endpoint st)) (qb_filters st) \<and>
     list_all order_row (qb_orders st) \<and>
     set (qb_selectedColumns st) \<subseteq> set (columnsForEndpoint (qb_endpoint st)) \<and>
     limit_ok (qb_limit st) \<and> offset_ok (qb_offset st) \<and>
     distinct (map fr_id (qb_filters st)) \<and> distinct (map or_id (qb_orders st)) \<and>
     list_all (\<lambda>f. fr_id f < n) (qb_filters st) \<and> list_all (\<lambda>r. or_id r < n) (qb_orders st) \<and> 12 \<le> n)"

text \<open>The example queries; their rows took the first eleven ids.\<close>

definition PRESETS :: "Preset list" where
  "PRESETS =
    [\<lparr>pr_endpoint = RunsTable,
      pr_filters = [\<lparr>fr_id = 1, fr_column = ''client'', fr_operator = ''eq'', fr_value = ''geth''\<rparr>],
      pr_orders = [\<lparr>or_id = 2, or_column = ''timestamp'', or_direction = ''desc''\<rparr>],
      pr_limit = Fin 20, pr_offset = Fin 0, pr_selectedColumns = None, pr_countExact = None\<rparr>,
     \<lparr>pr_endpoint = RunsTable,
      pr_filters = [\<lparr>fr_id = 3, fr_column = ''tests_failed'', fr_operator = ''gt'', fr_value = ''0''\<rparr>],
      pr_orders = [\<lparr>or_id = 4, or_column = ''timestamp'', or_direction = ''desc''\<rparr>],
      pr_limit = Fin 100, pr_offset = Fin 0,
      pr_selectedColumns = Some [''timestamp'', ''run_id'', ''suite_hash'', ''client'', ''tests_total'',
        ''tests_passed'', ''tests_failed''], pr_countExact = None\<rparr>,
     \<lparr>pr_endpoint = TestStats,
      pr_filters = [\<lparr>fr_id = 5, fr_column = ''test_mgas_s'', fr_operator = ''gt'', fr_value = ''0''\<rparr>],
      pr_orders = [\<lparr>or_id = 6, or_column = ''test_mgas_s'', or_direction = ''asc''\<rparr>],
      pr_limit = Fin 20, pr_offset = Fin 0,
      pr_selectedColumns = Some [''run_id'', ''test_mgas_s'', ''test_name'', ''suite_hash''], pr_countExact = None\<rparr>,
     \<lparr>pr_endpoint = RunsTable,
      pr_filters = [\<lparr>fr_id = 7, fr_column = ''client'', fr_operator = ''in'', fr_value = ''geth,reth,nethermind''\<rparr>,
        \<lparr>fr_id = 8, fr_column = ''status'', fr_operator = ''eq'', fr_value = ''completed''\<rparr>],
      pr_orders = [], pr_limit = Fin 100, pr_offset = Fin 0, pr_selectedColumns = None, pr_countExact = None\<rparr>,
     \<lparr>pr_endpoint = TestStats,
      pr_filters = [\<lparr>fr_id = 9, fr_column = ''suite_hash'', fr_operator = ''eq'', fr_value = ''<fill in>''\<rparr>],
      pr_orders = [\<lparr>or_id = 10, or_column = ''total_time_ns'', or_direction = ''desc''\<rparr>],
      pr_limit = Fin 100, pr_offset = Fin 0, pr_selectedColumns = None, pr_countExact = None\<rparr>,
     \<lparr>pr_endpoint = BlockLogStats, pr_filters = [],
      pr_orders = [\<lparr>or_id = 11, or_column = ''timing_total_ms'', or_direction = ''desc''\<rparr>],
      pr_limit = Fin 20, pr_offset = Fin 0,
      pr_selectedColumns = Some [''run_id'', ''test_name'', ''client'', ''block_number'', ''timing_total_ms'',
        ''throughput_mgas_per_sec'', ''block_gas_used''], pr_countExact = None\<rparr>]"

text \<open>What the page offers in a state: the options of its selects, its buttons and the headers of its result.
  The columns of a result are named by the server; the names of its JSON documents are identifiers.\<close>

definition offered :: "QueryBuilderState \<Rightarrow> query_action \<Rightarrow> bool" where
  "offered st a \<longleftrightarrow>
     (case a of
        UpdateFilter i FieldColumn v \<Rightarrow> v \<in> set (columnsForEndpoint (qb_endpoint st))
      | UpdateFilter i FieldOperator v \<Rightarrow> v \<in> set VALID_OPERATORS
      | UpdateOrder i OrderColumn v \<Rightarrow> v \<in> set (columnsForEndpoint (qb_endpoint st))
      | UpdateOrder i OrderDirection v \<Rightarrow> v = ''asc'' \<or> v = ''desc''
      | ToggleOrder c \<Rightarrow> ident c
      | SetLimit x \<Rightarrow> x \<noteq> NaN
      | SetOffset x \<Rightarrow> x \<noteq> NaN
      | SetColumns cs \<Rightarrow> set cs \<subseteq> set (qb_selectedColumns st) \<union> set (columnsForEndpoint (qb_endpoint st))
      | LoadPreset p \<Rightarrow> p \<in> set PRESETS
      | _ \<Rightarrow> True)"

definition query_step :: "nat \<times> QueryBuilderState \<Rightarrow> query_action \<Rightarrow> nat \<times> QueryBuilderState" where
  "query_step s a = (if offered (snd s) a then query_reducer s a else s)"

lemma clamp_limit_ok: "x \<noteq> NaN \<Longrightarrow> limit_ok (clamp_limit x)"
  by (cases x) (auto simp: clamp_limit_def num_max_def num_min_def limit_ok_def)

lemma clamp_offset_ok: "x \<noteq> NaN \<Longrightarrow> offset_ok (clamp_offset x)"
  by (cases x) (auto simp: clamp_offset_def num_max_def offset_ok_def)

lemma clamp_limit_id: "limit_ok x \<Longrightarrow> clamp_limit x = x"
  by (auto simp: limit_ok_def clamp_limit_def num_max_def num_min_def)

lemma clamp_offset_id: "offset_ok x \<Longrightarrow> clamp_offset x = x"
  by (auto simp: offset_ok_def clamp_offset_def num_max_def)

lemma number_or_not_NaN: "d \<noteq> NaN \<Longrightarrow> number_or d s \<noteq> NaN"
  by (simp add: number_or_def Let_def)

definition preset_state :: "Preset \<Rightarrow> QueryBuilderState" where
  "preset_state p = snd (query_reducer (0, makeInitialState) (LoadPreset p))"

lemma load_preset: "query_reducer (n, st) (LoadPreset p) = (n, preset_state p)"
  by (simp add: preset_state_def)

lemma presets_inv: "list_all (\<lambda>p. query_inv (12, preset_state p)) PRESETS"
  by (simp add: PRESETS_def preset_state_def query_inv_def wf_filter_def order_row_def limit_ok_def offset_ok_def
      column_lists VALID_OPERATORS_def OPERATORS_def ident_def ident_chars_def) auto

lemma inv_later_ids: "query_inv (n, st) \<Longrightarrow> n \<le> m \<Longrightarrow> query_inv (m, st)"
  by (auto simp: query_inv_def list_all_iff)

lemma hd_column: "hd (columnsForEndpoint ep) \<in> set (columnsForEndpoint ep)"
  by simp

lemma eq_valid: "''eq'' \<in> set VALID_OPERATORS"
  by (simp add: VALID_OPERATORS_def OPERATORS_def)

lemma set_field_id [simp]:
  "fr_id (set_filter_field fd v f) = fr_id f" "or_id (set_order_field fd' v r) = or_id r"
  by (cases fd; simp) (cases fd'; simp)

lemma map_update_ids [simp]:
  "map fr_id (map (\<lambda>f. if fr_id f = i then set_filter_field fd v f else f) fs) = map fr_id fs"
  "map or_id (map (\<lambda>r. if or_id r = i then set_order_field fd' v r else r) os) = map or_id os"
  by (simp_all add: comp_def cong: if_cong)

lemma wf_update_filter:
  assumes "wf_filter ep f" "fd = FieldColumn \<Longrightarrow> v \<in> set (columnsForEndpoint ep)"
    and "fd = FieldOperator \<Longrightarrow> v \<in> set VALID_OPERATORS"
  shows "wf_filter ep (set_filter_field fd v f)"
  using assms by (cases fd) (auto simp: wf_filter_def)

lemma wf_update_order:
  assumes "order_row r" "fd = OrderColumn \<Longrightarrow> v \<in> set (columnsForEndpoint ep)"
    and "fd = OrderDirection \<Longrightarrow> v = ''asc'' \<or> v = ''desc''"
  shows "order_row (set_order_field fd v r)"
  using assms column_ident by (cases fd) (auto simp: order_row_def)

lemma toggle_order_inv:
  assumes "list_all order_row os" "distinct (map or_id os)" "list_all (\<lambda>r. or_id r < n) os"
    and "ident c" "toggle_order n c os = (m, os')"
  shows "list_all order_row os' \<and> distinct (map or_id os') \<and> list_all (\<lambda>r. or_id r < m) os' \<and> n \<le> m"
proof (cases "find (\<lambda>r. or_column r = c) os")
  case None
  then have "os' = os @ [\<lparr>or_id = n, or_column = c, or_direction = ''asc''\<rparr>]" "m = n + 1"
    using assms(5) by (auto simp: toggle_order_def)
  then show ?thesis using assms(1-4) by (auto simp: list_all_iff order_row_def)
next
  case (Some e)
  have ids: "map or_id (map (\<lambda>r. if or_column r = c then r\<lparr>or_direction := ''desc''\<rparr> else r) os) = map or_id os"
    by (simp add: comp_def cong: if_cong)
  show ?thesis
  proof (cases "or_direction e = ''asc''")
    case True
    then have os': "os' = map (\<lambda>r. if or_column r = c then r\<lparr>or_direction := ''desc''\<rparr> else r) os" "m = n"
      using assms(5) Some by (auto simp: toggle_order_def)
    have "map or_id os' = map or_id os" unfolding os' by (rule ids)
    then have "distinct (map or_id os')" using assms(2) by (simp only:)
    then show ?thesis using assms(1,3) unfolding os' by (auto simp: list_all_iff order_row_def)
  next
    case False
    then have "os' = filter (\<lambda>r. or_column r \<noteq> c) os" "m = n"
      using assms(5) Some by (auto simp: toggle_order_def)
    then show ?thesis using assms(1-3) by (auto simp: list_all_iff distinct_map_filter)
  qed
qed

lemma query_inv_step:
  assumes "query_inv s"
  shows "query_inv (query_step s a)"
proof (cases "offered (snd s) a")
  case True
  obtain n st where s: "s = (n, st)" by (cases s)
  note inv = assms [unfolded s]
  show ?thesis
  proof (cases a)
    case (UpdateFilter i fd v)
    define fs where "fs = map (\<lambda>f. if fr_id f = i then set_filter_field fd v f else f) (qb_filters st)"
    have "wf_filter (qb_endpoint st) (set_filter_field fd v f)" if "f \<in> set (qb_filters st)" for f
      by (rule wf_update_filter) (use inv True that in
        \<open>auto simp: list_all_iff query_inv_def offered_def UpdateFilter s\<close>)
    then have wf: "list_all (wf_filter (qb_endpoint st)) fs"
      using inv by (auto simp: list_all_iff query_inv_def fs_def)
    have ids: "map fr_id fs = map fr_id (qb_filters st)" unfolding fs_def by (rule map_update_ids)
    have "list_all (\<lambda>f. fr_id f < n) fs" using inv by (auto simp: list_all_iff query_inv_def fs_def)
    moreover have "query_step s a = (n, st\<lparr>qb_filters := fs\<rparr>)" using True by (simp add: query_step_def s UpdateFilter fs_def)
    ultimately show ?thesis using inv wf by (simp add: query_inv_def ids)
  next
    case (UpdateOrder i fd v)
    define rs where "rs = map (\<lambda>r. if or_id r = i then set_order_field fd v r else r) (qb_orders st)"
    have "order_row (set_order_field fd v r)" if "r \<in> set (qb_orders st)" for r
      by (rule wf_update_order) (use inv True that in
        \<open>auto simp: list_all_iff query_inv_def offered_def UpdateOrder s\<close>)
    then have wf: "list_all order_row rs"
      using inv by (auto simp: list_all_iff query_inv_def rs_def)
    have ids: "map or_id rs = map or_id (qb_orders st)" unfolding rs_def by (rule map_update_ids)
    have "list_all (\<lambda>r. or_id r < n) rs" using inv by (auto simp: list_all_iff query_inv_def rs_def)
    moreover have "query_step s a = (n, st\<lparr>qb_orders := rs\<rparr>)" using True by (simp add: query_step_def s UpdateOrder rs_def)
    ultimately show ?thesis using inv wf by (simp add: query_inv_def ids)
  next
    case (ToggleOrder c)
    obtain m os' where t: "toggle_order n c (qb_orders st) = (m, os')" by (cases "toggle_order n c (qb_orders st)")
    have "list_all order_row os' \<and> distinct (map or_id os') \<and> list_all (\<lambda>r. or_id r < m) os' \<and> n \<le> m"
      using inv True by (intro toggle_order_inv [OF _ _ _ _ t]) (auto simp: query_inv_def offered_def ToggleOrder s)
    then show ?thesis using inv True
      by (auto simp: query_step_def s ToggleOrder query_inv_def t list_all_iff)
  next
    case (LoadPreset p)
    then have "query_inv (12, preset_state p)" using True presets_inv by (auto simp: offered_def list_all_iff)
    moreover have "12 \<le> n" using inv by (simp add: query_inv_def)
    ultimately have "query_inv (n, preset_state p)" by (rule inv_later_ids)
    then show ?thesis using True LoadPreset by (simp only: query_step_def s load_preset if_True)
  next
    case (SetColumns cs)
    then show ?thesis using inv True by (auto simp: query_step_def s query_inv_def offered_def)
  next
    case (SetLimit x)
    then show ?thesis using inv True clamp_limit_ok
      by (auto simp: query_step_def s query_inv_def offered_def offset_ok_def)
  next
    case (SetOffset x)
    then show ?thesis using inv True clamp_offset_ok by (auto simp: query_step_def s query_inv_def offered_def)
  next
    case AddFilter
    then show ?thesis using inv True hd_column eq_valid
      by (auto simp: query_step_def s query_inv_def list_all_iff wf_filter_def)
  next
    case AddOrder
    then show ?thesis using inv True hd_column
      by (auto simp: query_step_def s query_inv_def list_all_iff order_row_def column_ident [OF hd_column])
  next
    case (RemoveFilter i)
    then show ?thesis using inv True
      by (auto simp: query_step_def s query_inv_def list_all_iff distinct_map_filter)
  next
    case (RemoveOrder i)
    then show ?thesis using inv True
      by (auto simp: query_step_def s query_inv_def list_all_iff distinct_map_filter)
  next
    case (SetEndpoint ep)
    then show ?thesis using inv True
      by (auto simp: query_step_def s query_inv_def makeInitialState_def limit_ok_def offset_ok_def)
  next
    case ToggleCount
    then show ?thesis using inv True by (simp add: query_step_def s query_inv_def)
  qed
qed (simp add: query_step_def assms)

interpretation query: machine query_step "\<lambda>_. True" query_inv
  by unfold_locales (rule query_inv_step)

subsection \<open>Reading the page's URL\<close>

lemma number_filters_props:
  "map (\<lambda>f. (fr_column f, fr_operator f, fr_value f)) (number_filters n fs) = fs"
  "map fr_id (number_filters n fs) = [n..<n + length fs]"
  by (induction n fs rule: number_filters.induct) (simp_all add: upt_conv_Cons del: upt_Suc)

lemma number_orders_props:
  "map (\<lambda>r. (or_column r, or_direction r)) (number_orders n os) = os"
  "map or_id (number_orders n os) = [n..<n + length os]"
  by (induction n os rule: number_orders.induct) (simp_all add: upt_conv_Cons del: upt_Suc)

lemma map_filter_in: "y \<in> set (List.map_filter f xs) \<longleftrightarrow> (\<exists>x \<in> set xs. f x = Some y)"
  by (induction xs) (auto simp: map_filter_simps split: option.splits)

lemma map_result_in: "map_result f xs = Inr ys \<Longrightarrow> y \<in> set ys \<Longrightarrow> \<exists>x \<in> set xs. f x = Inr y"
  by (induction xs arbitrary: ys) (auto split: sum.splits)

lemma parse_filter_valid:
  "parse_filter cols part = Inr (Some (c, op, v)) \<Longrightarrow> c \<in> set cols \<and> op \<in> set VALID_OPERATORS"
  by (auto simp: parse_filter_def Let_def split: option.splits sum.splits if_splits)

lemma parse_order_valid:
  "parse_order cols part = Some (c, d) \<Longrightarrow> c \<in> set cols \<and> d \<in> {''asc'', ''desc''}"
  by (auto simp: parse_order_def Let_def split: option.splits if_splits)

lemma restored_inv:
  assumes "12 \<le> n" "restore n p = Inr (m, st)"
  shows "query_inv (m, st)"
proof (cases "searchParamsToState n p")
  case (Inl e)
  then show ?thesis using assms(2) by (simp add: restore_def)
next
  case (Inr r)
  show ?thesis
  proof (cases r)
    case None
    then show ?thesis using assms Inr
      by (auto simp: restore_def query_inv_def makeInitialState_def limit_ok_def offset_ok_def)
  next
    case (Some q)
    then have q: "q = (m, st)" using assms(2) Inr by (simp add: restore_def)
    define cols where "cols = columnsForEndpoint (endpoint_of (qp_endpoint p))"
    obtain fs where fs: "(if present (qp_f p) then map_result (parse_filter cols) (split_on CHR '','' (the (qp_f p)))
        else Inr []) = Inr fs"
      using Inr Some by (auto simp: searchParamsToState_def Let_def cols_def split: if_splits sum.splits)
    define filters where "filters = List.map_filter (\<lambda>x. x) fs"
    define orders where "orders = (if present (qp_order p)
        then List.map_filter (parse_order cols) (split_on CHR '','' (the (qp_order p))) else [])"
    have start: "searchParamsToState n p = Inr (Some (m, st))" using Inr Some q by simp
    have some: "present (qp_endpoint p) \<or> present (qp_f p) \<or> present (qp_order p) \<or> present (qp_select p) \<or>
        present (qp_limit p) \<or> present (qp_offset p) \<or> present (qp_count p)"
      using start by (auto simp: searchParamsToState_def split: if_splits)
    have eq: "(m, st) = (n + length filters + length orders,
        \<lparr>qb_endpoint = endpoint_of (qp_endpoint p), qb_filters = number_filters n filters,
         qb_orders = number_orders (n + length filters) orders,
         qb_limit = (if present (qp_limit p) then clamp_limit (number_or (Fin 20) (the (qp_limit p))) else Fin 20),
         qb_offset = (if present (qp_offset p) then clamp_offset (number_or (Fin 0) (the (qp_offset p))) else Fin 0),
         qb_selectedColumns = (if present (qp_select p)
            then filter (\<lambda>c. c \<noteq> [] \<and> c \<in> set cols) (map trim (split_on CHR '','' (the (qp_select p)))) else []),
         qb_countExact = (qp_count p = Some ''exact'')\<rparr>)"
      using start
      by (simp only: searchParamsToState_def Let_def cols_def [symmetric] fs filters_def [symmetric]
          orders_def [symmetric] some not_True_eq_False if_False sum.case sum.inject option.inject)
    have st: "m = n + length filters + length orders" "qb_endpoint st = endpoint_of (qp_endpoint p)"
        "qb_filters st = number_filters n filters" "qb_orders st = number_orders (n + length filters) orders"
        "set (qb_selectedColumns st) \<subseteq> set cols"
      using eq by auto
    have bounds: "limit_ok (qb_limit st)" "offset_ok (qb_offset st)"
      using eq clamp_limit_ok [OF number_or_not_NaN, of "Fin 20"] clamp_offset_ok [OF number_or_not_NaN, of "Fin 0"]
      by (auto simp: limit_ok_def [of "Fin 20"] offset_ok_def [of "Fin 0"])
    have valid: "\<forall>(c, op, v) \<in> set filters. c \<in> set cols \<and> op \<in> set VALID_OPERATORS"
      using fs parse_filter_valid by (fastforce simp: filters_def map_filter_in split: if_splits dest: map_result_in)
    have ovalid: "\<forall>(c, d) \<in> set orders. c \<in> set cols \<and> d \<in> {''asc'', ''desc''}"
      using parse_order_valid by (fastforce simp: orders_def map_filter_in)
    have wf: "wf_filter (qb_endpoint st) f" if "f \<in> set (qb_filters st)" for f
    proof -
      have "(fr_column f, fr_operator f, fr_value f) \<in> set (map (\<lambda>f. (fr_column f, fr_operator f, fr_value f)) (qb_filters st))"
        using that by auto
      then show ?thesis using valid by (auto simp only: st(3) number_filters_props wf_filter_def st(2) cols_def)
    qed
    have owf: "order_row r" if "r \<in> set (qb_orders st)" for r
    proof -
      have "(or_column r, or_direction r) \<in> set (map (\<lambda>r. (or_column r, or_direction r)) (qb_orders st))"
        using that by auto
      then have "or_column r \<in> set cols \<and> or_direction r \<in> {''asc'', ''desc''}"
        using ovalid by (auto simp only: st(4) number_orders_props)
      then show ?thesis using column_ident by (auto simp: order_row_def cols_def)
    qed
    have "fr_id f < m" if "f \<in> set (qb_filters st)" for f
    proof -
      have "fr_id f \<in> set (map fr_id (qb_filters st))" using that by simp
      then show ?thesis unfolding st(3) number_filters_props st(1) by simp
    qed
    moreover have "or_id r < m" if "r \<in> set (qb_orders st)" for r
    proof -
      have "or_id r \<in> set (map or_id (qb_orders st))" using that by simp
      then show ?thesis unfolding st(4) number_orders_props st(1) by simp
    qed
    moreover have "distinct (map fr_id (qb_filters st))" "distinct (map or_id (qb_orders st))"
      unfolding st(3,4) number_filters_props number_orders_props by simp_all
    ultimately show ?thesis using wf owf st bounds assms(1)
      by (simp add: query_inv_def list_all_iff cols_def)
  qed
qed

text \<open>Writing a state and reading it.\<close>

lemma parse_filter_text:
  assumes "wf_filter ep f"
  shows "parse_filter (columnsForEndpoint ep) (filter_text f) = Inr (Some (fr_column f, fr_operator f, fr_value f))"
proof -
  have c: "CHR '':'' \<notin> set (fr_column f)"
    using assms column_ident ident_free(2) by (auto simp: wf_filter_def)
  have op: "CHR '':'' \<notin> set (fr_operator f)"
    using assms operator_free ident_free(2) by (auto simp: wf_filter_def)
  have "filter_text f = fr_column f @ CHR '':'' # (fr_operator f @ CHR '':'' # encodeURIComponent (fr_value f))"
    by (simp add: filter_text_def)
  then show ?thesis using assms index_of_append [OF c] index_of_append [OF op]
    by (simp add: parse_filter_def wf_filter_def Let_def)
qed

lemma parse_order_text:
  assumes "order_row r"
  shows "parse_order (columnsForEndpoint ep) (order_text r) =
    (if or_column r \<in> set (columnsForEndpoint ep) then Some (or_column r, or_direction r) else None)"
proof -
  have d: "CHR ''.'' \<notin> set (or_direction r)" using assms by (auto simp: order_row_def)
  have "order_text r = or_column r @ CHR ''.'' # or_direction r" by (simp add: order_text_def)
  then show ?thesis using assms last_index_of_append [OF d, of "or_column r"]
    by (auto simp: parse_order_def order_row_def Let_def)
qed

lemma filter_text_free: "wf_filter ep f \<Longrightarrow> CHR '','' \<notin> set (filter_text f) \<and> filter_text f \<noteq> []"
  using column_ident operator_free ident_free(1)
  by (auto simp: filter_text_def wf_filter_def)

lemma order_text_free: "order_row r \<Longrightarrow> CHR '','' \<notin> set (order_text r) \<and> order_text r \<noteq> []"
  using ident_free(1) by (auto simp: order_text_def order_row_def)

lemma split_joined:
  assumes "xs \<noteq> []" "\<forall>x \<in> set xs. CHR '','' \<notin> set x \<and> x \<noteq> []"
  shows "split_on CHR '','' (join '','' xs) = xs" "join '','' xs \<noteq> []"
  using assms split_on_join [of xs "CHR '',''"] by (auto simp: join_Nil_iff)

text \<open>A query without the ids of its rows.\<close>

definition forget_ids :: "QueryBuilderState \<Rightarrow> QueryBuilderState" where
  "forget_ids st = st\<lparr>qb_filters := map (\<lambda>f. f\<lparr>fr_id := 0\<rparr>) (qb_filters st),
                      qb_orders := map (\<lambda>r. r\<lparr>or_id := 0\<rparr>) (qb_orders st)\<rparr>"

lemma forget_numbered:
  "map (\<lambda>f. f\<lparr>fr_id := 0\<rparr>) (number_filters n (map (\<lambda>f. (fr_column f, fr_operator f, fr_value f)) fs)) =
   map (\<lambda>f. f\<lparr>fr_id := 0\<rparr>) fs"
  by (induction fs arbitrary: n) simp_all

lemma forget_numbered_orders:
  "map (\<lambda>r. r\<lparr>or_id := 0\<rparr>) (number_orders m (map (\<lambda>r. (or_column r, or_direction r)) os)) =
   map (\<lambda>r. r\<lparr>or_id := 0\<rparr>) os"
  by (induction os arbitrary: m) simp_all

text \<open>The page's numbers read back when the texts of its non-integers do.\<close>

definition numbers_read_back :: "(real \<Rightarrow> string) \<Rightarrow> QueryBuilderState \<Rightarrow> bool" where
  "numbers_read_back dec st \<longleftrightarrow>
     list_all (\<lambda>x. case x of Fin r \<Rightarrow> if of_int \<lfloor>r\<rfloor> = r then True else js_Number (dec r) = Fin r | _ \<Rightarrow> True)
       [qb_limit st, qb_offset st]"

lemma js_Number_Infinity: "js_Number ''Infinity'' = PosInf"
  by code_simp

lemma js_Number_Nil: "js_Number [] = Fin 0"
  by code_simp

lemma number_reads_back:
  assumes "x = PosInf \<or> (\<exists>r. x = Fin r \<and> 0 \<le> r)"
    and "case x of Fin r \<Rightarrow> if of_int \<lfloor>r\<rfloor> = r then True else js_Number (dec r) = Fin r | _ \<Rightarrow> True"
  shows "js_Number (num_str dec x) = x"
proof (cases x)
  case (Fin r)
  show ?thesis
  proof (cases "of_int \<lfloor>r\<rfloor> = r")
    case True
    then have "js_Number (nat_str (nat \<lfloor>r\<rfloor>)) = Fin r" using assms(1) Fin by simp
    then show ?thesis using True Fin assms(1) by (simp add: num_str_def int_str_def)
  qed (use assms(2) Fin in \<open>simp add: num_str_def\<close>)
qed (use assms in \<open>simp_all add: num_str_def js_Number_Infinity\<close>)

lemma number_or_back:
  assumes "js_Number s = x" "x \<noteq> NaN" "num_lt (Fin 0) x"
  shows "number_or d s = x" "s \<noteq> []"
  using assms js_Number_Nil by (auto simp: number_or_def)

lemma map_filter_some: "List.map_filter (\<lambda>x. x) (map (\<lambda>y. Some (g y)) ys) = map g ys"
  by (simp add: List.map_filter_def comp_def)

lemma map_filter_all: "\<forall>x \<in> set xs. f (g x) = Some (h x) \<Longrightarrow> List.map_filter f (map g xs) = map h xs"
  by (induction xs) (auto simp: map_filter_simps)

lemma filters_read_back:
  assumes "list_all (wf_filter ep) fs" "fs \<noteq> []"
  shows "map_result (parse_filter (columnsForEndpoint ep)) (split_on CHR '','' (join '','' (map filter_text fs))) =
    Inr (map (\<lambda>f. Some (fr_column f, fr_operator f, fr_value f)) fs)" "join '','' (map filter_text fs) \<noteq> []"
proof -
  have free: "map filter_text fs \<noteq> []" "\<forall>x \<in> set (map filter_text fs). CHR '','' \<notin> set x \<and> x \<noteq> []"
    using assms filter_text_free by (auto simp: list_all_iff)
  show "map_result (parse_filter (columnsForEndpoint ep)) (split_on CHR '','' (join '','' (map filter_text fs))) =
    Inr (map (\<lambda>f. Some (fr_column f, fr_operator f, fr_value f)) fs)"
    unfolding split_joined(1) [OF free] using assms(1) parse_filter_text
    by (intro map_result_all) (auto simp: list_all_iff)
  show "join '','' (map filter_text fs) \<noteq> []" by (rule split_joined(2) [OF free])
qed

lemma map_filter_if:
  "\<forall>x \<in> set xs. f (g x) = (if P x then Some (h x) else None) \<Longrightarrow> List.map_filter f (map g xs) = map h (filter P xs)"
  by (induction xs) (auto simp: map_filter_simps)

lemma orders_read_back:
  assumes "list_all order_row os" "os \<noteq> []"
  shows "List.map_filter (parse_order (columnsForEndpoint ep)) (split_on CHR '','' (join '','' (map order_text os))) =
    map (\<lambda>r. (or_column r, or_direction r)) (filter (\<lambda>r. or_column r \<in> set (columnsForEndpoint ep)) os)"
    "join '','' (map order_text os) \<noteq> []"
proof -
  have free: "map order_text os \<noteq> []" "\<forall>x \<in> set (map order_text os). CHR '','' \<notin> set x \<and> x \<noteq> []"
    using assms order_text_free by (auto simp: list_all_iff)
  show "List.map_filter (parse_order (columnsForEndpoint ep)) (split_on CHR '','' (join '','' (map order_text os))) =
    map (\<lambda>r. (or_column r, or_direction r)) (filter (\<lambda>r. or_column r \<in> set (columnsForEndpoint ep)) os)"
    unfolding split_joined(1) [OF free] using assms(1) parse_order_text
    by (intro map_filter_if) (auto simp: list_all_iff)
  show "join '','' (map order_text os) \<noteq> []" by (rule split_joined(2) [OF free])
qed

lemma columns_split:
  assumes "set cs \<subseteq> set (columnsForEndpoint ep)" "cs \<noteq> []"
  shows "split_on CHR '','' (join '','' cs) = cs" "join '','' cs \<noteq> []" "map trim cs = cs" "[] \<notin> set cs"
proof -
  have id: "\<forall>c \<in> set cs. ident c" using assms(1) column_ident by auto
  then have free: "\<forall>x \<in> set cs. CHR '','' \<notin> set x \<and> x \<noteq> []" using ident_free by blast
  show "split_on CHR '','' (join '','' cs) = cs" "join '','' cs \<noteq> []" by (rule split_joined [OF assms(2) free])+
  show "map trim cs = cs" using id ident_trim by (auto intro: map_idI)
  show "[] \<notin> set cs" using free by blast
qed

lemma columns_read_back:
  assumes "set cs \<subseteq> set (columnsForEndpoint ep)" "cs \<noteq> []"
  shows "filter (\<lambda>c. c \<noteq> [] \<and> c \<in> set (columnsForEndpoint ep)) (map trim (split_on CHR '','' (join '','' cs))) = cs"
  unfolding columns_split(1,3) [OF assms] using assms(1) columns_split(4) [OF assms]
  by (auto intro!: filter_True)

text \<open>A query without the orders by columns the builder does not list.\<close>

definition listed_orders :: "QueryBuilderState \<Rightarrow> QueryBuilderState" where
  "listed_orders st =
     st\<lparr>qb_orders := filter (\<lambda>r. or_column r \<in> set (columnsForEndpoint (qb_endpoint st))) (qb_orders st)\<rparr>"

lemma query_reloads:
  assumes inv: "query_inv (k, st)" and nums: "numbers_read_back dec st"
  shows "\<exists>m st'. restore n (stateToSearchParams dec st) = Inr (m, st') \<and>
    forget_ids st' = forget_ids (listed_orders st)"
proof -
  let ?p = "stateToSearchParams dec st"
  let ?ep = "qb_endpoint st"
  obtain lr where lim: "qb_limit st = Fin lr" "1 \<le> lr" "lr \<le> 10000"
    using inv by (auto simp: query_inv_def limit_ok_def)
  have offset: "offset_ok (qb_offset st)" and limit: "limit_ok (qb_limit st)"
    using inv by (auto simp: query_inv_def)
  have "js_Number (num_str dec (qb_limit st)) = qb_limit st"
    using nums lim by (intro number_reads_back) (auto simp: numbers_read_back_def)
  then have l: "number_or (Fin 20) (num_str dec (qb_limit st)) = qb_limit st" "num_str dec (qb_limit st) \<noteq> []"
    using lim by (auto intro!: number_or_back(1) dest: number_or_back(2))
  have "js_Number (num_str dec (qb_offset st)) = qb_offset st"
    using nums offset by (intro number_reads_back) (auto simp: numbers_read_back_def offset_ok_def)
  then have o: "number_or (Fin 0) (num_str dec (qb_offset st)) = qb_offset st \<and> num_str dec (qb_offset st) \<noteq> []"
    if "num_lt (Fin 0) (qb_offset st)"
    using offset that number_or_back [of "num_str dec (qb_offset st)" "qb_offset st"] by (auto simp: offset_ok_def)
  have o0: "qb_offset st = Fin 0" if "\<not> num_lt (Fin 0) (qb_offset st)"
    using offset that by (auto simp: offset_ok_def)
  have filters: "list_all (wf_filter ?ep) (qb_filters st)" and orders: "list_all order_row (qb_orders st)"
    and cols: "set (qb_selectedColumns st) \<subseteq> set (columnsForEndpoint ?ep)"
    using inv by (auto simp: query_inv_def)
  have ep: "endpoint_of (qp_endpoint ?p) = ?ep"
    by (cases ?ep) (auto simp: stateToSearchParams_def endpoint_of_def)
  define fs where "fs = map (\<lambda>f. (fr_column f, fr_operator f, fr_value f)) (qb_filters st)"
  define os where "os = map (\<lambda>r. (or_column r, or_direction r))
      (filter (\<lambda>r. or_column r \<in> set (columnsForEndpoint ?ep)) (qb_orders st))"
  have f: "(if present (qp_f ?p) then map_result (parse_filter (columnsForEndpoint ?ep))
      (split_on CHR '','' (the (qp_f ?p))) else Inr []) = Inr (map Some fs)"
    using filters_read_back [OF filters] by (cases "qb_filters st = []") (simp_all add: present_def stateToSearchParams_def fs_def)
  have r: "(if present (qp_order ?p) then List.map_filter (parse_order (columnsForEndpoint ?ep))
      (split_on CHR '','' (the (qp_order ?p))) else []) = os"
    using orders_read_back [OF orders] by (cases "qb_orders st = []") (simp_all add: present_def stateToSearchParams_def os_def)
  have c: "(if present (qp_select ?p) then filter (\<lambda>c. c \<noteq> [] \<and> c \<in> set (columnsForEndpoint ?ep))
      (map trim (split_on CHR '','' (the (qp_select ?p)))) else []) = qb_selectedColumns st"
    using columns_read_back [OF cols] columns_split(2) [OF cols]
    by (cases "qb_selectedColumns st = []") (simp_all add: present_def stateToSearchParams_def)
  have lm: "(if present (qp_limit ?p) then clamp_limit (number_or (Fin 20) (the (qp_limit ?p))) else Fin 20) = qb_limit st"
    using l clamp_limit_id [OF limit] by (auto simp: present_def stateToSearchParams_def)
  have om: "(if present (qp_offset ?p) then clamp_offset (number_or (Fin 0) (the (qp_offset ?p))) else Fin 0) = qb_offset st"
    using o o0 clamp_offset_id [OF offset] by (auto simp: present_def stateToSearchParams_def)
  have cnt: "(qp_count ?p = Some ''exact'') = qb_countExact st" by (simp add: stateToSearchParams_def)
  show ?thesis
  proof (cases "present (qp_endpoint ?p) \<or> present (qp_f ?p) \<or> present (qp_order ?p) \<or> present (qp_select ?p) \<or>
      present (qp_limit ?p) \<or> present (qp_offset ?p) \<or> present (qp_count ?p)")
    case True
    have "searchParamsToState n ?p = Inr (Some (n + length fs + length os,
        st\<lparr>qb_filters := number_filters n fs, qb_orders := number_orders (n + length fs) os\<rparr>))"
      by (simp only: searchParamsToState_def Let_def ep f r c lm om cnt True not_True_eq_False if_False sum.case
          map_filter_some [where g = "\<lambda>x. x", simplified]) simp
    then show ?thesis using True
      by (auto simp: restore_def forget_ids_def listed_orders_def forget_numbered forget_numbered_orders fs_def os_def)
  next
    case False
    have "?ep = RunsTable" using False by (cases ?ep) (auto simp: present_def stateToSearchParams_def)
    moreover have "qb_filters st = []" "qb_selectedColumns st = []"
      using f c False by (simp_all add: fs_def)
    moreover have "qb_orders st = []"
    proof (rule ccontr)
      assume "qb_orders st \<noteq> []"
      then have "present (qp_order ?p)" using orders_read_back(2) [OF orders] by (simp add: present_def stateToSearchParams_def)
      then show False using False by simp
    qed
    moreover have "qb_limit st = Fin 20" "qb_offset st = Fin 0" using lm om False by simp_all
    moreover have "\<not> qb_countExact st" using False by (auto simp: present_def stateToSearchParams_def)
    ultimately have "st = makeInitialState" by (simp add: makeInitialState_def)
    then show ?thesis using False
      by (auto simp: restore_def searchParamsToState_def listed_orders_def makeInitialState_def)
  qed
qed

section \<open>Theorems\<close>

lemma reachable_inv:
  assumes "12 \<le> n" "restore n p = Inr s"
  shows "query_inv (run query_step s as)"
  using query.inv_run [of s as] restored_inv [OF assms(1)] assms(2) by (cases s) (simp add: list_all_iff)

text \<open>C20: The address of the query builder keeps the query. After any actions the page offers, from any
  address it was opened with, the address the page then has restores the query up to the ids of its rows
  and but for one thing: an order by a column the builder does not list, which a click on a header of the
  result sets (as \<open>steps_json\<close> of the default table), is dropped. Everything else is as it was: the table,
  the filters and the other orders in their order, limit, offset, columns and the count, for any text in the
  values. The texts of numbers that are no integers have to read back.\<close>

theorem query_url_roundtrip:
  assumes "12 \<le> n" "restore n p = Inr s" "run query_step s as = (m, st)" "numbers_read_back dec st"
  shows "\<exists>m' st'. restore k (stateToSearchParams dec st) = Inr (m', st') \<and>
    forget_ids st' = forget_ids (listed_orders st)"
  using query_reloads [of m st dec k] reachable_inv [OF assms(1,2), of as] assms(3,4) by simp

definition no_params :: QuerySearchParams where
  "no_params = \<lparr>qp_endpoint = None, qp_f = None, qp_order = None, qp_select = None, qp_limit = None,
     qp_offset = None, qp_count = None\<rparr>"

definition example_actions :: "query_action list" where
  "example_actions = [SetEndpoint SuitesTable, AddFilter, UpdateFilter 12 FieldColumn ''name'',
     UpdateFilter 12 FieldOperator ''like'', UpdateFilter 12 FieldValue ''a,b:c%'', ToggleOrder ''name'',
     SetLimit (Fin 50), SetOffset (Fin 100)]"

definition example_query :: QueryBuilderState where
  "example_query =
     \<lparr>qb_endpoint = SuitesTable,
      qb_filters = [\<lparr>fr_id = 12, fr_column = ''name'', fr_operator = ''like'', fr_value = ''a,b:c%''\<rparr>],
      qb_orders = [\<lparr>or_id = 13, or_column = ''name'', or_direction = ''asc''\<rparr>],
      qb_limit = Fin 50, qb_offset = Fin 100, qb_selectedColumns = [], qb_countExact = False\<rparr>"

lemma example_restored: "restore 12 no_params = Inr (12, makeInitialState)"
  by (simp add: restore_def searchParamsToState_def no_params_def present_def)

lemma example_run: "run query_step (12, makeInitialState) example_actions = (14, example_query)"
  by (simp add: example_actions_def example_query_def query_step_def offered_def makeInitialState_def
      column_lists VALID_OPERATORS_def OPERATORS_def toggle_order_def clamp_limit_def clamp_offset_def
      num_max_def num_min_def ident_def ident_chars_def)

text \<open>Sorted once more, by a column that only the result has.\<close>

definition example_sorted :: QueryBuilderState where
  "example_sorted = example_query\<lparr>qb_orders := qb_orders example_query @
     [\<lparr>or_id = 14, or_column = ''steps_json'', or_direction = ''asc''\<rparr>]\<rparr>"

lemma example_sorted_run:
  "run query_step (12, makeInitialState) (example_actions @ [ToggleOrder ''steps_json'']) = (15, example_sorted)"
  by (simp add: example_run) (simp add: query_step_def offered_def ident_def ident_chars_def toggle_order_def
      example_sorted_def example_query_def)

theorem query_url_roundtrip_witness:
  "\<exists>m' st'. restore 12 (stateToSearchParams (\<lambda>_. []) example_sorted) = Inr (m', st') \<and>
     forget_ids st' = forget_ids example_query"
proof -
  have "listed_orders example_sorted = example_query"
    by (simp add: listed_orders_def example_sorted_def example_query_def column_lists)
  then show ?thesis
    using query_url_roundtrip [OF order.refl example_restored example_sorted_run, of "\<lambda>_. []" 12]
    by (simp add: numbers_read_back_def example_sorted_def example_query_def)
qed

end
