(* ===== verification/Query_Server.thy ===== *)
theory Query_Server
  imports Query_Builder
begin

text \<open>
  The server the query builder's query is sent to: \<open>ParseQueryParams\<close> of
  \<open>pkg/api/indexstore/query.go\<close>, and that it reads from the query's URL what the page means.
\<close>

section \<open>The server\<close>

text \<open>The decoded query string, \<open>url.Values\<close>: the values of each key in order.\<close>

definition values_of :: "(string \<times> string) list \<Rightarrow> string \<Rightarrow> string list" where
  "values_of raw key = map snd (filter (\<lambda>p. fst p = key) raw)"

definition raw_get :: "(string \<times> string) list \<Rightarrow> string \<Rightarrow> string" where
  "raw_get raw key = (case values_of raw key of [] \<Rightarrow> [] | v # _ \<Rightarrow> v)"

definition validOperators :: "string list" where
  "validOperators = [''eq'', ''neq'', ''gt'', ''gte'', ''lt'', ''lte'', ''like'', ''in'']"

definition allowedRunColumns :: "string list" where
  "allowedRunColumns =
    [''id'', ''discovery_path'', ''run_id'', ''timestamp'', ''timestamp_end'', ''suite_hash'', ''status'',
     ''termination_reason'', ''has_result'', ''instance_id'', ''client'', ''image'', ''rollback_strategy'',
     ''tests_total'', ''tests_passed'', ''tests_failed'', ''indexed_at'', ''reindexed_at'',
     ''deletion_requested_at'', ''deletion_error'']"

definition allowedTestStatColumns :: "string list" where
  "allowedTestStatColumns =
    [''id'', ''suite_hash'', ''test_name'', ''run_id'', ''client'', ''total_gas_used'', ''total_time_ns'',
     ''total_mgas_s'', ''setup_gas_used'', ''setup_time_ns'', ''setup_mgas_s'', ''test_gas_used'',
     ''test_time_ns'', ''test_mgas_s'', ''run_start'', ''run_end'',
     ''setup_rpc_calls_count'', ''setup_resource_cpu_usec'', ''setup_resource_memory_delta_bytes'',
     ''setup_resource_memory_bytes'', ''setup_resource_disk_read_bytes'', ''setup_resource_disk_write_bytes'',
     ''setup_resource_disk_read_iops'', ''setup_resource_disk_write_iops'',
     ''test_rpc_calls_count'', ''test_resource_cpu_usec'', ''test_resource_memory_delta_bytes'',
     ''test_resource_memory_bytes'', ''test_resource_disk_read_bytes'', ''test_resource_disk_write_bytes'',
     ''test_resource_disk_read_iops'', ''test_resource_disk_write_iops'']"

definition allowedSuiteColumns :: "string list" where
  "allowedSuiteColumns = [''id'', ''suite_hash'', ''discovery_path'', ''name'', ''tests_total'', ''indexed_at'']"

definition allowedTestStatsBlockLogColumns :: "string list" where
  "allowedTestStatsBlockLogColumns =
    [''id'', ''suite_hash'', ''run_id'', ''test_name'', ''client'', ''block_number'', ''block_hash'',
     ''block_gas_used'', ''block_tx_count'', ''timing_execution_ms'', ''timing_state_read_ms'',
     ''timing_state_hash_ms'', ''timing_commit_ms'', ''timing_total_ms'', ''throughput_mgas_per_sec'',
     ''state_read_accounts'', ''state_read_storage_slots'', ''state_read_code'', ''state_read_code_bytes'',
     ''state_write_accounts'', ''state_write_accounts_deleted'', ''state_write_storage_slots'',
     ''state_write_slots_deleted'', ''state_write_code'', ''state_write_code_bytes'',
     ''cache_account_hits'', ''cache_account_misses'', ''cache_account_hit_rate'', ''cache_storage_hits'',
     ''cache_storage_misses'', ''cache_storage_hit_rate'', ''cache_code_hits'', ''cache_code_misses'',
     ''cache_code_hit_rate'', ''cache_code_hit_bytes'', ''cache_code_miss_bytes'']"

fun allowed_columns :: "Endpoint \<Rightarrow> string list" where
  "allowed_columns RunsTable = allowedRunColumns"
| "allowed_columns TestStats = allowedTestStatColumns"
| "allowed_columns BlockLogStats = allowedTestStatsBlockLogColumns"
| "allowed_columns SuitesTable = allowedSuiteColumns"

datatype query_error =
  InvalidLimit string | InvalidOffset string | InvalidSelectColumn string | InvalidOrderFormat string
| InvalidOrderColumn string | InvalidOrderDirection string | InvalidFilterColumn string
| InvalidFilterFormat string string | InvalidIsValue string string | InvalidOperator string

record QueryParams =
  sq_filters :: "(string \<times> string \<times> string) list"
  sq_orders :: "(string \<times> string) list"
  sq_limit :: int
  sq_offset :: int
  sq_select :: "string list"
  sq_countExact :: bool

text \<open>\<open>strconv.Atoi\<close> on 64 bits, and \<open>strings.TrimSpace\<close>.\<close>

definition go_Atoi :: "string \<Rightarrow> int option" where
  "go_Atoi s =
     (let neg = (s \<noteq> [] \<and> hd s = CHR ''-'');
          ds = (if s \<noteq> [] \<and> (hd s = CHR ''-'' \<or> hd s = CHR ''+'') then tl s else s);
          v = (if neg then - int (digits_val ds) else int (digits_val ds))
      in if ds = [] \<or> \<not> list_all is_digit ds \<or> v < - (2 ^ 63) \<or> 2 ^ 63 \<le> v then None else Some v)"

definition go_space :: "char \<Rightarrow> bool" where
  "go_space c \<longleftrightarrow> (9 \<le> code c \<and> code c \<le> 13) \<or> code c \<in> {32, 133, 160}"

definition go_TrimSpace :: "string \<Rightarrow> string" where
  "go_TrimSpace s = rev (dropWhile go_space (rev (dropWhile go_space s)))"

definition parse_bound :: "string \<Rightarrow> int \<Rightarrow> int option" where
  "parse_bound v d =
     (if v = [] then Some d
      else case go_Atoi v of None \<Rightarrow> None | Some n \<Rightarrow> if n < 0 then None else Some n)"

fun parse_select :: "string list \<Rightarrow> string list \<Rightarrow> query_error + string list" where
  "parse_select allowed [] = Inr []"
| "parse_select allowed (c # cs) =
     (let col = go_TrimSpace c in
      if col = [] then parse_select allowed cs
      else if col \<notin> set allowed then Inl (InvalidSelectColumn col)
      else (case parse_select allowed cs of Inl e \<Rightarrow> Inl e | Inr r \<Rightarrow> Inr (col # r)))"

definition parse_order_part :: "string list \<Rightarrow> string \<Rightarrow> query_error + string \<times> string" where
  "parse_order_part allowed part =
     (case index_of CHR ''.'' part of
        None \<Rightarrow> Inl (InvalidOrderFormat part)
      | Some i \<Rightarrow>
          let col = take i part; dir = to_lower (drop (i + 1) part)
          in if col \<notin> set allowed then Inl (InvalidOrderColumn col)
             else if dir \<noteq> ''asc'' \<and> dir \<noteq> ''desc'' then Inl (InvalidOrderDirection dir)
             else Inr (col, dir))"

fun parse_orders :: "string list \<Rightarrow> string list \<Rightarrow> query_error + (string \<times> string) list" where
  "parse_orders allowed [] = Inr []"
| "parse_orders allowed (p # ps) =
     (let part = go_TrimSpace p in
      if part = [] then parse_orders allowed ps
      else case parse_order_part allowed part of
             Inl e \<Rightarrow> Inl e
           | Inr r \<Rightarrow> (case parse_orders allowed ps of Inl e \<Rightarrow> Inl e | Inr rs \<Rightarrow> Inr (r # rs)))"

definition parse_filter_value :: "string \<Rightarrow> string \<Rightarrow> query_error + string \<times> string \<times> string" where
  "parse_filter_value key v =
     (case index_of CHR ''.'' v of
        None \<Rightarrow> Inl (InvalidFilterFormat key v)
      | Some i \<Rightarrow>
          let op = take i v; val = drop (i + 1) v
          in if op = ''is''
             then (if val \<in> {''null'', ''true'', ''false''} then Inr (key, op, val) else Inl (InvalidIsValue key val))
             else if op \<notin> set validOperators then Inl (InvalidOperator op) else Inr (key, op, val))"

fun parse_filters :: "string list \<Rightarrow> (string \<times> string) list \<Rightarrow> string list \<Rightarrow>
    query_error + (string \<times> string \<times> string) list" where
  "parse_filters allowed raw [] = Inr []"
| "parse_filters allowed raw (key # keys) =
     (if key \<in> {''limit'', ''offset'', ''select'', ''order''} then parse_filters allowed raw keys
      else if key \<notin> set allowed then Inl (InvalidFilterColumn key)
      else case map_result (parse_filter_value key) (values_of raw key) of
             Inl e \<Rightarrow> Inl e
           | Inr fs \<Rightarrow> (case parse_filters allowed raw keys of Inl e \<Rightarrow> Inl e | Inr gs \<Rightarrow> Inr (fs @ gs)))"

text \<open>The request for a total count is set by the caller, from a header. The loop over the keys of a Go map runs in any order: \<open>keys\<close> is that order.\<close>

definition ParseQueryParams :: "string list \<Rightarrow> string list \<Rightarrow> (string \<times> string) list \<Rightarrow> query_error + QueryParams" where
  "ParseQueryParams allowed keys raw =
     (case parse_bound (raw_get raw ''limit'') 100 of
        None \<Rightarrow> Inl (InvalidLimit (raw_get raw ''limit''))
      | Some l \<Rightarrow>
     (case parse_bound (raw_get raw ''offset'') 0 of
        None \<Rightarrow> Inl (InvalidOffset (raw_get raw ''offset''))
      | Some off \<Rightarrow>
     (case (if raw_get raw ''select'' = [] then Inr []
            else parse_select allowed (split_on CHR '','' (raw_get raw ''select''))) of
        Inl e \<Rightarrow> Inl e
      | Inr sel \<Rightarrow>
     (case (if raw_get raw ''order'' = [] then Inr []
            else parse_orders allowed (split_on CHR '','' (raw_get raw ''order''))) of
        Inl e \<Rightarrow> Inl e
      | Inr ords \<Rightarrow>
     (case parse_filters allowed raw keys of
        Inl e \<Rightarrow> Inl e
      | Inr fs \<Rightarrow> Inr \<lparr>sq_filters = fs, sq_orders = ords, sq_limit = min l 10000, sq_offset = off,
                        sq_select = sel, sq_countExact = False\<rparr>)))))"

section \<open>Lemmas\<close>

lemma columns_allowed: "set (columnsForEndpoint ep) \<subseteq> set (allowed_columns ep)"
  by (cases ep) (simp_all add: column_lists allowedRunColumns_def allowedTestStatColumns_def
      allowedSuiteColumns_def allowedTestStatsBlockLogColumns_def)

lemma operators_known: "op \<in> set VALID_OPERATORS \<longleftrightarrow> op = ''is'' \<or> op \<in> set validOperators"
  by (auto simp: VALID_OPERATORS_def OPERATORS_def validOperators_def)

lemma ident_go_trim:
  assumes "ident s"
  shows "go_TrimSpace s = s"
proof -
  have "\<forall>c \<in> set s. 95 \<le> code c \<and> code c \<le> 122" using assms ident_char_code by (auto simp: ident_def)
  then have "\<forall>c \<in> set s. \<not> go_space c" by (fastforce simp: go_space_def)
  then show ?thesis by (simp add: go_TrimSpace_def dropWhile_none)
qed

subsection \<open>The server's reading of the query\<close>

definition sent_filters :: "QueryBuilderState \<Rightarrow> FilterRow list" where
  "sent_filters st = filter (\<lambda>f. fr_value f \<noteq> [] \<or> fr_operator f = ''is'') (qb_filters st)"

definition is_value_ok :: "FilterRow \<Rightarrow> bool" where
  "is_value_ok f \<longleftrightarrow> fr_operator f = ''is'' \<longrightarrow> fr_value f \<in> {''null'', ''true'', ''false''}"

abbreviation filter_triple :: "FilterRow \<Rightarrow> string \<times> string \<times> string" where
  "filter_triple f \<equiv> (fr_column f, fr_operator f, fr_value f)"

abbreviation filter_param :: "FilterRow \<Rightarrow> string \<times> string" where
  "filter_param f \<equiv> (fr_column f, fr_operator f @ ''.'' @ fr_value f)"

definition reserved :: "string \<Rightarrow> bool" where
  "reserved k \<longleftrightarrow> k \<in> {''limit'', ''offset'', ''select'', ''order''}"

lemma params_set_new: "k \<notin> fst ` set ps \<Longrightarrow> params_set k v ps = ps @ [(k, v)]"
  by (induction ps) auto

definition extra_params :: "(real \<Rightarrow> string) \<Rightarrow> QueryBuilderState \<Rightarrow> (string \<times> string) list" where
  "extra_params dec st =
     (if qb_orders st \<noteq> [] then [(''order'', join '','' (map order_text (qb_orders st)))] else []) @
     (if qb_selectedColumns st \<noteq> [] then [(''select'', join '','' (qb_selectedColumns st))] else []) @
     [(''limit'', num_str dec (qb_limit st))] @
     (if num_lt (Fin 0) (qb_offset st) then [(''offset'', num_str dec (qb_offset st))] else [])"

lemma extra_reserved: "k \<in> fst ` set (extra_params dec st) \<Longrightarrow> reserved k"
  by (auto simp: extra_params_def reserved_def split: if_splits)

lemma query_params_eq:
  assumes "list_all (wf_filter ep) (qb_filters st)"
  shows "query_params dec st = map filter_param (sent_filters st) @ extra_params dec st"
proof -
  have "\<not> reserved k" if "k \<in> fst ` set (map filter_param (sent_filters st))" for k
    using assms that columns_not_reserved
    by (auto simp: sent_filters_def list_all_iff wf_filter_def reserved_def)
  then have "''order'' \<notin> fst ` set (map filter_param (sent_filters st))"
      "''select'' \<notin> fst ` set (map filter_param (sent_filters st))"
      "''limit'' \<notin> fst ` set (map filter_param (sent_filters st))"
      "''offset'' \<notin> fst ` set (map filter_param (sent_filters st))"
    unfolding reserved_def by blast+
  then show ?thesis
    unfolding query_params_def Let_def sent_filters_def [symmetric]
    by (simp add: extra_params_def params_set_new image_Un)
qed

lemma values_of_append [simp]: "values_of (xs @ ys) k = values_of xs k @ values_of ys k"
  by (simp add: values_of_def)

lemma values_of_free: "k \<notin> fst ` set ps \<Longrightarrow> values_of ps k = []"
  by (force simp: values_of_def filter_empty_conv)

lemma values_of_filters:
  assumes "\<not> reserved k"
  shows "values_of (map filter_param fs @ extra_params dec st) k =
    map (\<lambda>f. fr_operator f @ ''.'' @ fr_value f) (filter (\<lambda>f. fr_column f = k) fs)"
proof -
  have "values_of (extra_params dec st) k = []" using assms extra_reserved by (blast intro: values_of_free)
  then show ?thesis by (simp add: values_of_def filter_map comp_def)
qed

lemma raw_get_extra:
  assumes "list_all (wf_filter ep) fs" "reserved k"
  shows "raw_get (map filter_param fs @ extra_params dec st) k = raw_get (extra_params dec st) k"
proof -
  have "values_of (map filter_param fs) k = []"
    using assms columns_not_reserved by (intro values_of_free) (auto simp: list_all_iff wf_filter_def reserved_def)
  then show ?thesis by (simp add: raw_get_def)
qed

lemma parse_filter_value_sent:
  assumes "wf_filter ep f"
  shows "parse_filter_value (fr_column f) (fr_operator f @ ''.'' @ fr_value f) =
    (if is_value_ok f then Inr (filter_triple f) else Inl (InvalidIsValue (fr_column f) (fr_value f)))"
proof -
  have op: "CHR ''.'' \<notin> set (fr_operator f)" "fr_operator f = ''is'' \<or> fr_operator f \<in> set validOperators"
    using assms operator_free ident_free(3) operators_known by (auto simp: wf_filter_def)
  have "''is'' \<notin> set validOperators" by (simp add: validOperators_def)
  then show ?thesis using index_of_append [OF op(1), of "fr_value f"] op(2)
    by (auto simp: parse_filter_value_def Let_def is_value_ok_def)
qed

lemma map_result_sent:
  assumes "list_all (wf_filter ep) fs"
  shows "map_result (parse_filter_value k) (map (\<lambda>f. fr_operator f @ ''.'' @ fr_value f) (filter (\<lambda>f. fr_column f = k) fs)) =
      Inr (map filter_triple (filter (\<lambda>f. fr_column f = k) fs)) \<and> list_all is_value_ok (filter (\<lambda>f. fr_column f = k) fs) \<or>
    (\<exists>e. map_result (parse_filter_value k) (map (\<lambda>f. fr_operator f @ ''.'' @ fr_value f) (filter (\<lambda>f. fr_column f = k) fs)) = Inl e) \<and>
      \<not> list_all is_value_ok (filter (\<lambda>f. fr_column f = k) fs)"
  using assms by (induction fs) (auto simp: parse_filter_value_sent simp del: append_Cons split: if_splits)

lemma parse_filters_sent:
  fixes dec :: "real \<Rightarrow> string" and st :: QueryBuilderState
  assumes "list_all (wf_filter ep) fs" "list_all (\<lambda>k. reserved k \<or> k \<in> set (allowed_columns ep)) keys"
  defines "raw \<equiv> map filter_param fs @ extra_params dec st"
  defines "of_key \<equiv> \<lambda>k. filter (\<lambda>f. fr_column f = k) fs"
  shows "parse_filters (allowed_columns ep) raw keys =
      Inr (map filter_triple (concat (map of_key (filter (\<lambda>k. \<not> reserved k) keys)))) \<and>
      list_all is_value_ok (concat (map of_key (filter (\<lambda>k. \<not> reserved k) keys))) \<or>
    (\<exists>e. parse_filters (allowed_columns ep) raw keys = Inl e) \<and>
      \<not> list_all is_value_ok (concat (map of_key (filter (\<lambda>k. \<not> reserved k) keys)))"
  using assms(2)
proof (induction keys)
  case (Cons k ks)
  then have ih: "parse_filters (allowed_columns ep) raw ks =
        Inr (map filter_triple (concat (map of_key (filter (\<lambda>k. \<not> reserved k) ks)))) \<and>
        list_all is_value_ok (concat (map of_key (filter (\<lambda>k. \<not> reserved k) ks))) \<or>
      (\<exists>e. parse_filters (allowed_columns ep) raw ks = Inl e) \<and>
        \<not> list_all is_value_ok (concat (map of_key (filter (\<lambda>k. \<not> reserved k) ks)))" by simp
  show ?case
  proof (cases "reserved k")
    case True
    then show ?thesis using ih by (auto simp: reserved_def)
  next
    case False
    have here: "parse_filters (allowed_columns ep) raw (k # ks) =
        (case map_result (parse_filter_value k) (map (\<lambda>f. fr_operator f @ ''.'' @ fr_value f) (of_key k)) of
             Inl e \<Rightarrow> Inl e
           | Inr gs \<Rightarrow> (case parse_filters (allowed_columns ep) raw ks of Inl e \<Rightarrow> Inl e | Inr hs \<Rightarrow> Inr (gs @ hs)))"
      using False Cons.prems values_of_filters [OF False, of fs dec st]
      unfolding parse_filters.simps reserved_def [symmetric] raw_def of_key_def by simp
    define r where "r = map_result (parse_filter_value k) (map (\<lambda>f. fr_operator f @ ''.'' @ fr_value f) (of_key k))"
    have "r = Inr (map filter_triple (of_key k)) \<and> list_all is_value_ok (of_key k) \<or>
        (\<exists>e. r = Inl e) \<and> \<not> list_all is_value_ok (of_key k)"
      using map_result_sent [OF assms(1), of k] unfolding r_def of_key_def .
    then show ?thesis unfolding here r_def [symmetric] using ih False by auto
  qed
qed simp

lemma mset_by_key:
  "distinct ks \<Longrightarrow> mset (concat (map (\<lambda>k. filter (\<lambda>x. g x = k) xs) ks)) = mset (filter (\<lambda>x. g x \<in> set ks) xs)"
proof (induction ks)
  case (Cons k ks)
  have "k \<notin> set ks" using Cons.prems by simp
  then have "mset (filter (\<lambda>x. g x = k) xs) + mset (filter (\<lambda>x. g x \<in> set ks) xs) = mset (filter (\<lambda>x. g x = k \<or> g x \<in> set ks) xs)"
    by (induction xs) auto
  then show ?case using Cons by simp
qed simp

lemma go_Atoi_int_str: "0 \<le> i \<Longrightarrow> i < 2 ^ 63 \<Longrightarrow> go_Atoi (int_str i) = Some i"
proof -
  assume i: "0 \<le> i" "i < 2 ^ 63"
  have d: "list_all is_digit (nat_str (nat i))" "nat_str (nat i) \<noteq> []" using nat_str_digits by (auto simp: list_all_iff)
  then have "hd (nat_str (nat i)) \<noteq> CHR ''-''" "hd (nat_str (nat i)) \<noteq> CHR ''+''"
    by (cases "nat_str (nat i)"; auto simp: is_digit_def)+
  then show "go_Atoi (int_str i) = Some i" using i d by (simp add: go_Atoi_def int_str_def Let_def)
qed

lemma parse_bound_int:
  "0 \<le> i \<Longrightarrow> i < 2 ^ 63 \<Longrightarrow> parse_bound (num_str dec (Fin (of_int i))) d = Some i"
  using go_Atoi_int_str [of i] by (auto simp: parse_bound_def num_str_def int_str_def)

lemma parse_select_columns:
  "set cs \<subseteq> set (columnsForEndpoint ep) \<Longrightarrow> parse_select (allowed_columns ep) cs = Inr cs"
proof (induction cs)
  case (Cons c cs)
  then have "ident c" "c \<in> set (allowed_columns ep)" using column_ident columns_allowed by auto
  then show ?case using Cons ident_go_trim ident_free(4) by (simp add: Let_def)
qed simp

lemma order_text_plain:
  assumes "order_row r"
  shows "go_TrimSpace (order_text r) = order_text r" "order_text r \<noteq> []"
    "parse_order_part allowed (order_text r) =
       (if or_column r \<in> set allowed then Inr (or_column r, or_direction r) else Inl (InvalidOrderColumn (or_column r)))"
proof -
  have c: "ident (or_column r)" using assms by (simp add: order_row_def)
  have "ident (or_direction r)" using assms by (auto simp: order_row_def ident_def ident_chars_def)
  then have "c \<in> ident_chars \<or> c = CHR ''.''" if "c \<in> set (order_text r)" for c
    using that c unfolding order_text_def ident_def by auto
  then have "\<forall>c \<in> set (order_text r). \<not> go_space c"
    using ident_char_code by (fastforce simp: go_space_def)
  then show "go_TrimSpace (order_text r) = order_text r" by (simp add: go_TrimSpace_def dropWhile_none)
  show "order_text r \<noteq> []" by (simp add: order_text_def)
  have i: "index_of CHR ''.'' (order_text r) = Some (length (or_column r))"
    using index_of_append [OF ident_free(3) [OF c], of "or_direction r"] by (simp add: order_text_def)
  have "to_lower (or_direction r) = or_direction r" using assms by (auto simp: order_row_def to_lower_def lower_char_def)
  then show "parse_order_part allowed (order_text r) =
       (if or_column r \<in> set allowed then Inr (or_column r, or_direction r) else Inl (InvalidOrderColumn (or_column r)))"
    using i assms by (auto simp: parse_order_part_def Let_def order_text_def order_row_def)
qed

text \<open>The orders are read as they are when the server knows their columns, and refused otherwise.\<close>

abbreviation orders_known :: "string list \<Rightarrow> OrderRow list \<Rightarrow> bool" where
  "orders_known allowed os \<equiv> list_all (\<lambda>r. or_column r \<in> set allowed) os"

lemma parse_orders_rows:
  "list_all order_row os \<Longrightarrow>
   parse_orders allowed (map order_text os) = Inr (map (\<lambda>r. (or_column r, or_direction r)) os) \<and> orders_known allowed os \<or>
   (\<exists>e. parse_orders allowed (map order_text os) = Inl e) \<and> \<not> orders_known allowed os"
  by (induction os) (auto simp: order_text_plain Let_def)

text \<open>What the server is to understand.\<close>

definition query_meant :: "QueryBuilderState \<Rightarrow> QueryParams \<Rightarrow> bool" where
  "query_meant st q \<longleftrightarrow>
     mset (sq_filters q) = mset (map filter_triple (sent_filters st)) \<and>
     sq_orders q = map (\<lambda>r. (or_column r, or_direction r)) (qb_orders st) \<and>
     Fin (of_int (sq_limit q)) = qb_limit st \<and> Fin (of_int (sq_offset q)) = qb_offset st \<and>
     sq_select q = qb_selectedColumns st"

text \<open>The queries a server accepts: every \<open>is\<close> filter has one of its three values, every order a column the
  server knows, and the bounds are integers of 64 bits.\<close>

definition int64 :: "jsnum \<Rightarrow> bool" where
  "int64 x \<longleftrightarrow> (case x of Fin r \<Rightarrow> of_int \<lfloor>r\<rfloor> = r \<and> r < 2 ^ 63 | _ \<Rightarrow> False)"

definition servable :: "QueryBuilderState \<Rightarrow> bool" where
  "servable st \<longleftrightarrow> list_all is_value_ok (sent_filters st) \<and>
     orders_known (allowed_columns (qb_endpoint st)) (qb_orders st) \<and> int64 (qb_limit st) \<and> int64 (qb_offset st)"

text \<open>The text of a number that is no integer: whatever it is, Go reads no integer from it.\<close>

definition decimals :: "(real \<Rightarrow> string) \<Rightarrow> bool" where
  "decimals dec \<longleftrightarrow> (\<forall>r. of_int \<lfloor>r\<rfloor> \<noteq> r \<longrightarrow> dec r \<noteq> [] \<and> go_Atoi (dec r) = None)"

lemma extra_values:
  "raw_get (extra_params dec st) ''limit'' = num_str dec (qb_limit st)"
  "raw_get (extra_params dec st) ''offset'' = (if num_lt (Fin 0) (qb_offset st) then num_str dec (qb_offset st) else [])"
  "raw_get (extra_params dec st) ''select'' = join '','' (qb_selectedColumns st)"
  "raw_get (extra_params dec st) ''order'' = join '','' (map order_text (qb_orders st))"
  by (simp_all add: raw_get_def values_of_def extra_params_def)

lemma raw_values:
  assumes "list_all (wf_filter ep) fs"
  shows "raw_get (map filter_param fs @ extra_params dec st) ''limit'' = num_str dec (qb_limit st)"
    "raw_get (map filter_param fs @ extra_params dec st) ''offset'' =
       (if num_lt (Fin 0) (qb_offset st) then num_str dec (qb_offset st) else [])"
    "raw_get (map filter_param fs @ extra_params dec st) ''select'' = join '','' (qb_selectedColumns st)"
    "raw_get (map filter_param fs @ extra_params dec st) ''order'' = join '','' (map order_text (qb_orders st))"
  using raw_get_extra [OF assms] by (simp_all only: extra_values reserved_def insert_iff simp_thms)

lemma go_Atoi_large: "2 ^ 63 \<le> i \<Longrightarrow> go_Atoi (int_str i) = None"
proof -
  assume i: "2 ^ 63 \<le> i"
  have d: "list_all is_digit (nat_str (nat i))" "nat_str (nat i) \<noteq> []" using nat_str_digits by (auto simp: list_all_iff)
  then have "hd (nat_str (nat i)) \<noteq> CHR ''-''" "hd (nat_str (nat i)) \<noteq> CHR ''+''"
    by (cases "nat_str (nat i)"; auto simp: is_digit_def)+
  then show "go_Atoi (int_str i) = None" using i d by (simp add: go_Atoi_def int_str_def Let_def)
qed

lemma parse_bound_sent:
  assumes "decimals dec" "0 \<le> r"
  shows "parse_bound (num_str dec (Fin r)) d = (if int64 (Fin r) then Some \<lfloor>r\<rfloor> else None)"
proof (cases "of_int \<lfloor>r\<rfloor> = r")
  case True
  obtain i where i: "r = of_int i" "0 \<le> i" using True assms(2) by (metis of_int_0_le_iff)
  have small: "(of_int i :: real) < 2 ^ 63 \<longleftrightarrow> i < 2 ^ 63"
    by (metis of_int_less_iff of_int_numeral of_int_power)
  have "num_str dec (Fin r) = int_str i" by (simp add: num_str_def i(1))
  moreover have "int_str i \<noteq> []" using i(2) by (simp add: int_str_def)
  moreover have "int64 (Fin r) = (i < 2 ^ 63)" unfolding i(1) int64_def by (simp add: small [simplified])
  ultimately show ?thesis
    using i go_Atoi_int_str [OF i(2)] go_Atoi_large [of i] by (cases "i < 2 ^ 63") (simp_all add: parse_bound_def)
next
  case False
  then have "num_str dec (Fin r) = dec r" by (simp add: num_str_def)
  then show ?thesis using assms(1) False by (simp add: parse_bound_def int64_def decimals_def)
qed

lemma parse_offset_sent:
  assumes "decimals dec" "offset_ok x"
  shows "parse_bound (if num_lt (Fin 0) x then num_str dec x else []) 0 =
    (if int64 x then Some (case x of Fin r \<Rightarrow> \<lfloor>r\<rfloor> | _ \<Rightarrow> 0) else None)"
proof (cases x)
  case (Fin r)
  have "0 \<le> r" using assms(2) Fin by (auto simp: offset_ok_def)
  then show ?thesis using parse_bound_sent [OF assms(1), of r 0] Fin
    by (cases "r = 0") (auto simp: parse_bound_def int64_def)
next
  case PosInf
  have "go_Atoi ''Infinity'' = None" by (simp add: go_Atoi_def is_digit_def Let_def)
  then show ?thesis using PosInf by (simp add: num_str_def parse_bound_def int64_def)
qed (use assms(2) in \<open>auto simp: offset_ok_def\<close>)

lemma parse_select_joined:
  assumes "set cs \<subseteq> set (columnsForEndpoint ep)"
  shows "(if join '','' cs = [] then Inr []
      else parse_select (allowed_columns ep) (split_on CHR '','' (join '','' cs))) = Inr cs"
  using columns_split(1,2) [OF assms] parse_select_columns [OF assms] by (cases "cs = []") simp_all

lemma parse_orders_joined:
  fixes allowed :: "string list"
  assumes "list_all order_row os"
  defines "r \<equiv> (if join '','' (map order_text os) = [] then Inr []
      else parse_orders allowed (split_on CHR '','' (join '','' (map order_text os))))"
  shows "r = Inr (map (\<lambda>r. (or_column r, or_direction r)) os) \<and> orders_known allowed os \<or>
    (\<exists>e. r = Inl e) \<and> \<not> orders_known allowed os"
proof -
  have "\<forall>x \<in> set (map order_text os). CHR '','' \<notin> set x \<and> x \<noteq> []"
    using assms order_text_free by (auto simp: list_all_iff)
  then show ?thesis using split_joined [of "map order_text os"] parse_orders_rows [OF assms(1), of allowed]
    by (cases "os = []") (simp_all add: r_def)
qed

lemma parse_filters_all:
  fixes dec :: "real \<Rightarrow> string" and st :: QueryBuilderState
  assumes fs: "list_all (wf_filter ep) fs" and keys: "distinct keys"
    and set: "set keys = fst ` set (map filter_param fs @ extra_params dec st)"
  shows "case parse_filters (allowed_columns ep) (map filter_param fs @ extra_params dec st) keys of
      Inl e \<Rightarrow> \<not> list_all is_value_ok fs
    | Inr gs \<Rightarrow> list_all is_value_ok fs \<and> mset gs = mset (map filter_triple fs)"
proof -
  define fkeys where "fkeys = filter (\<lambda>k. \<not> reserved k) keys"
  define of_key where "of_key = (\<lambda>k. filter (\<lambda>f. fr_column f = k) fs)"
  have cols: "fr_column f \<in> set (allowed_columns ep) \<and> \<not> reserved (fr_column f)" if "f \<in> set fs" for f
    using that fs columns_allowed columns_not_reserved by (auto simp: list_all_iff wf_filter_def reserved_def)
  have keys_eq: "set keys = fr_column ` set fs \<union> fst ` set (extra_params dec st)"
    unfolding set by (simp add: image_Un image_comp comp_def)
  then have allowed: "list_all (\<lambda>k. reserved k \<or> k \<in> set (allowed_columns ep)) keys"
    using cols extra_reserved by (fastforce simp: list_all_iff)
  have "filter (\<lambda>f. fr_column f \<in> set fkeys) fs = fs"
    using keys_eq cols by (auto simp: fkeys_def intro!: filter_True)
  then have all: "mset (concat (map of_key fkeys)) = mset fs"
    using mset_by_key [of fkeys fr_column fs] keys unfolding of_key_def by (simp add: fkeys_def)
  then have "set (concat (map of_key fkeys)) = set fs" by (metis set_mset_mset)
  then have "list_all is_value_ok (concat (map of_key fkeys)) = list_all is_value_ok fs"
    unfolding list_all_iff by (rule arg_cong)
  moreover have "mset (map filter_triple (concat (map of_key fkeys))) = mset (map filter_triple fs)"
    unfolding mset_map all ..
  ultimately show ?thesis
    using parse_filters_sent [OF fs allowed, of dec st, folded fkeys_def] unfolding of_key_def
    by (auto simp del: mset_map map_concat)
qed

lemma server_reads:
  assumes inv: "query_inv (n, st)" and dec: "decimals dec"
    and keys: "distinct keys" "set keys = fst ` set (query_params dec st)"
  shows "case ParseQueryParams (allowed_columns (qb_endpoint st)) keys (query_params dec st) of
     Inl e \<Rightarrow> \<not> servable st
   | Inr q \<Rightarrow> servable st \<and> query_meant st q"
proof -
  let ?ep = "qb_endpoint st"
  have wf: "list_all (wf_filter ?ep) (qb_filters st)" "list_all order_row (qb_orders st)"
      and cols: "set (qb_selectedColumns st) \<subseteq> set (columnsForEndpoint ?ep)" and off: "offset_ok (qb_offset st)"
    using inv by (auto simp: query_inv_def)
  obtain l where l: "qb_limit st = Fin l" "1 \<le> l" "l \<le> 10000" using inv by (auto simp: query_inv_def limit_ok_def)
  have raw: "query_params dec st = map filter_param (sent_filters st) @ extra_params dec st"
    by (rule query_params_eq [OF wf(1)])
  have fs: "list_all (wf_filter ?ep) (sent_filters st)" using wf(1) by (simp add: sent_filters_def list_all_iff)
  have cap: "int64 (Fin l) \<Longrightarrow> min \<lfloor>l\<rfloor> 10000 = \<lfloor>l\<rfloor> \<and> of_int \<lfloor>l\<rfloor> = l" using l(3) by (simp add: int64_def min_def floor_le_iff)
  have whole: "int64 x \<Longrightarrow> Fin (of_int (case x of Fin r \<Rightarrow> \<lfloor>r\<rfloor> | _ \<Rightarrow> 0)) = x" for x
    by (cases x) (simp_all add: int64_def)
  have limit: "parse_bound (num_str dec (qb_limit st)) 100 = (if int64 (Fin l) then Some \<lfloor>l\<rfloor> else None)"
    using parse_bound_sent [OF dec, of l 100] l by simp
  show ?thesis
    using parse_filters_all [OF fs keys(1) keys(2) [unfolded raw]] cap whole [of "qb_offset st"] l(1)
      parse_orders_joined [OF wf(2), of "allowed_columns ?ep"]
    unfolding raw ParseQueryParams_def raw_values [OF fs] limit parse_offset_sent [OF dec off]
      parse_select_joined [OF cols] servable_def
    by (auto simp: query_meant_def simp del: mset_map split: sum.splits if_splits)
qed

section \<open>Theorems\<close>

text \<open>C19: The server understands the query the page sends. After any actions the page offers, its URL
  carries the pairs \<open>query_params\<close>. In whatever order the server visits their names, it accepts them exactly
  when every \<open>is\<close> filter has the value null, true or false, every order (also one that a header of the result
  set) is by a column the server knows, and limit and offset are integers of 64 bits; it then reads exactly the
  filters, orders, bounds and columns of the page. Filters without a value are not sent.\<close>

theorem server_reads_query:
  assumes "12 \<le> n" "restore n p = Inr s" "run query_step s as = (m, st)" "decimals dec"
  shows "\<exists>qs. buildQueryUrl dec st base = base @ ''/api/v1/index/query/'' @ endpoint_name (qb_endpoint st) @ ''?'' @ qs \<and>
    form_parse qs = Inr (query_params dec st) \<and>
    (\<forall>keys. distinct keys \<and> set keys = fst ` set (query_params dec st) \<longrightarrow>
       (case ParseQueryParams (allowed_columns (qb_endpoint st)) keys (query_params dec st) of
          Inl e \<Rightarrow> \<not> servable st
        | Inr q \<Rightarrow> servable st \<and> query_meant st q))"
proof -
  have inv: "query_inv (m, st)" using reachable_inv [OF assms(1,2), of as] assms(3) by simp
  let ?qs = "search_params_str (query_params dec st)"
  have "list_all (wf_filter (qb_endpoint st)) (qb_filters st)" using inv by (simp add: query_inv_def)
  then have "query_params dec st \<noteq> []" by (simp add: query_params_eq extra_params_def)
  then have "?qs \<noteq> []" using form_parse_back [of "query_params dec st"] by (auto simp: form_parse_def)
  then have "buildQueryUrl dec st base = base @ ''/api/v1/index/query/'' @ endpoint_name (qb_endpoint st) @ ''?'' @ ?qs"
    by (simp add: buildQueryUrl_def)
  then show ?thesis using form_parse_back server_reads [OF inv assms(4)] by blast
qed

text \<open>The query of \<open>example_query\<close> is accepted, the one that sorts by \<open>steps_json\<close> as well is not.\<close>

definition example_dec :: "real \<Rightarrow> string" where
  "example_dec r = ''0.5''"

theorem server_reads_query_witness:
  "(case ParseQueryParams allowedSuiteColumns [''name'', ''order'', ''limit'', ''offset''] (query_params example_dec example_query) of
      Inl e \<Rightarrow> False | Inr q \<Rightarrow> query_meant example_query q) \<and>
   (\<exists>e. ParseQueryParams allowedSuiteColumns [''name'', ''order'', ''limit'', ''offset''] (query_params example_dec example_sorted) = Inl e)"
proof -
  let ?keys = "[''name'', ''order'', ''limit'', ''offset'']"
  have dec: "decimals example_dec" by (simp add: decimals_def example_dec_def go_Atoi_def is_digit_def Let_def)
  have keys: "set ?keys = fst ` set (query_params example_dec example_query)"
    "set ?keys = fst ` set (query_params example_dec example_sorted)"
    by (simp_all add: query_params_def example_query_def example_sorted_def)
  have ok: "servable example_query" "\<not> servable example_sorted"
    by (simp_all add: servable_def sent_filters_def is_value_ok_def example_query_def example_sorted_def int64_def
        allowedSuiteColumns_def)
  have ep: "allowed_columns (qb_endpoint example_query) = allowedSuiteColumns"
    "allowed_columns (qb_endpoint example_sorted) = allowedSuiteColumns"
    by (simp_all add: example_query_def example_sorted_def)
  have accepted: "case x of Inl e \<Rightarrow> False | Inr q \<Rightarrow> Q q"
    if "case x of Inl e \<Rightarrow> \<not> S | Inr q \<Rightarrow> S \<and> Q q" S for x :: "query_error + QueryParams" and Q S
    using that by (cases x) simp_all
  have rejected: "\<exists>e. x = Inl e" if "case x of Inl e \<Rightarrow> \<not> S | Inr q \<Rightarrow> S \<and> Q q" "\<not> S"
    for x :: "query_error + QueryParams" and Q S
    using that by (cases x) simp_all
  have "distinct ?keys" by simp
  then have read: "case ParseQueryParams allowedSuiteColumns ?keys (query_params example_dec example_query) of
        Inl e \<Rightarrow> \<not> servable example_query | Inr q \<Rightarrow> servable example_query \<and> query_meant example_query q"
      "case ParseQueryParams allowedSuiteColumns ?keys (query_params example_dec example_sorted) of
        Inl e \<Rightarrow> \<not> servable example_sorted | Inr q \<Rightarrow> servable example_sorted \<and> query_meant example_sorted q"
    using server_reads_query [OF order.refl example_restored example_run dec, of "[]"] keys(1)
      server_reads_query [OF order.refl example_restored example_sorted_run dec, of "[]"] keys(2)
    unfolding ep by blast+
  show ?thesis using accepted [OF read(1) ok(1)] rejected [OF read(2) ok(2)] by (rule conjI)
qed

text \<open>A filter just switched to \<open>is\<close> shows the first of the three values and has none: the query is
  rejected.\<close>

lemma nat_str_20: "nat_str 20 = ''20''"
  by code_simp

lemma is_filter_rejected:
  assumes "snd (run query_step (12, makeInitialState) [AddFilter, UpdateFilter 12 FieldOperator ''is'']) = st"
  shows "ParseQueryParams allowedRunColumns [''id'', ''limit''] (query_params dec st) = Inl (InvalidIsValue ''id'' [])"
proof -
  have "query_params dec st = [(''id'', ''is.''), (''limit'', ''20'')]"
    using assms by (auto simp: query_step_def offered_def makeInitialState_def column_lists VALID_OPERATORS_def
        OPERATORS_def query_params_def num_str_def int_str_def nat_str_20)
  then show ?thesis
    by (simp add: ParseQueryParams_def raw_get_def values_of_def parse_bound_def go_Atoi_def digits_val_def
        is_digit_def parse_filter_value_def allowedRunColumns_def Let_def)
qed

text \<open>A fractional limit, which the page accepts, is rejected.\<close>

lemma fractional_limit_rejected:
  assumes "num_str dec (Fin (1 / 2 + 1)) = ''1.5''"
  shows "ParseQueryParams allowedRunColumns [''limit'']
     (query_params dec (snd (query_reducer (12, makeInitialState) (SetLimit (Fin (1 / 2 + 1)))))) =
   Inl (InvalidLimit ''1.5'')"
  using assms
  by (simp add: query_params_def makeInitialState_def clamp_limit_def num_max_def num_min_def
      ParseQueryParams_def raw_get_def values_of_def parse_bound_def go_Atoi_def is_digit_def Let_def)

text \<open>A result of the default table has the column \<open>steps_json\<close>, whose header sorts; no server accepts it.\<close>

lemma unknown_column_rejected:
  "''steps_json'' \<notin> set (allowed_columns ep)"
  "''steps_json'' \<notin> set allowed \<Longrightarrow> parse_orders allowed (''steps_json.asc'' # os) = Inl (InvalidOrderColumn ''steps_json'')"
  by (cases ep) (simp_all add: allowedRunColumns_def allowedTestStatColumns_def allowedSuiteColumns_def
      allowedTestStatsBlockLogColumns_def parse_order_part_def go_TrimSpace_def go_space_def Let_def)

end
