(* ===== verification/Groups_Page.thy ===== *)
theory Groups_Page
  imports Compare_Page Compare_Groups Average_Results Perf_Threshold Color_Scale
begin

text \<open>
  The group comparison page (\<open>pages/CompareGroupsPage.tsx\<close>) and the builder of the
  groups (\<open>components/compare/GroupBuilder.tsx\<close>): the parameters of the URL,
  the runs each group matches, samples and averages, the loading flags, the
  options the page offers, the baselines, and the events of the builder with
  the text they leave in the URL.
\<close>

section \<open>The URL\<close>

record groups_search =
  gs_suite :: "string option"
  gs_groups :: "string option"
  gs_sample :: "string option"
  gs_agg :: "string option"
  gs_steps :: "string option"
  gs_baseline :: "string option"
  gs_tableBase :: "string option"
  gs_chart :: "string option"
  gs_sort :: "string option"
  gs_sortDir :: "string option"
  gs_filter :: "string option"
  gs_filterRegex :: "string option"
  gs_gasBuckets :: "string option"
  gs_diffFilter :: "string option"
  gs_heatmapMetric :: "string option"
  gs_heatmapColor :: "string option"
  gs_heatmapThreshold :: "string option"
  gs_heatmapSlowMs :: "string option"
  gs_testModal :: "string option"

definition groups_of :: "groups_search \<Rightarrow> GroupDef list" where
  "groups_of q = parseGroupsParam (gs_groups q)"

definition suite_of :: "groups_search \<Rightarrow> string" where
  "suite_of q = or_empty (gs_suite q)"

text \<open>\<open>parseInt(s, 10) || d\<close>.\<close>

definition int_or :: "int \<Rightarrow> string \<Rightarrow> int" where
  "int_or d s = (case js_parseInt s of None \<Rightarrow> d | Some i \<Rightarrow> if i = 0 then d else i)"

definition clamp_sample :: "int \<Rightarrow> int" where
  "clamp_sample n = max 1 (min 50 n)"

definition sampleSize :: "groups_search \<Rightarrow> int" where
  "sampleSize q = clamp_sample (int_or 5 (or_else (gs_sample q) ''5''))"

definition aggMode :: "groups_search \<Rightarrow> AverageMode" where
  "aggMode q = (if gs_agg q = Some ''median'' then Median else Avg)"

definition groups_step_filter :: "groups_search \<Rightarrow> step_type list" where
  "groups_step_filter q =
     (case gs_steps q of
        None \<Rightarrow> DEFAULT_STEP_FILTER
      | Some p \<Rightarrow>
          if p = [] then DEFAULT_STEP_FILTER
          else let steps = List.map_filter step_of (split_on CHR '','' p)
               in if steps \<noteq> [] then steps else DEFAULT_STEP_FILTER)"

text \<open>An empty text becomes an absent parameter (\<open>x || undefined\<close>).\<close>

definition unless_empty :: "string \<Rightarrow> string option" where
  "unless_empty s = (if s = [] then None else Some s)"

definition setSuiteHash :: "string \<Rightarrow> groups_search \<Rightarrow> groups_search" where
  "setSuiteHash hash q = q\<lparr>gs_suite := unless_empty hash, gs_groups := None\<rparr>"

definition setGroups :: "GroupDef list \<Rightarrow> groups_search \<Rightarrow> groups_search" where
  "setGroups gs q = q\<lparr>gs_groups := unless_empty (encodeGroupsParam gs)\<rparr>"

definition setSampleSize :: "int \<Rightarrow> groups_search \<Rightarrow> groups_search" where
  "setSampleSize n q = q\<lparr>gs_sample := if n = 5 then None else Some (int_str n)\<rparr>"

definition sample_input :: "string \<Rightarrow> groups_search \<Rightarrow> groups_search" where
  "sample_input s = setSampleSize (clamp_sample (int_or 5 s))"

definition setAggMode :: "AverageMode \<Rightarrow> groups_search \<Rightarrow> groups_search" where
  "setAggMode m q = q\<lparr>gs_agg := if m = Avg then None else Some ''median''\<rparr>"

definition setSelectedTest :: "string option \<Rightarrow> groups_search \<Rightarrow> groups_search" where
  "setSelectedTest name q = q\<lparr>gs_testModal := Option.bind name unless_empty\<rparr>"

definition selectedTest :: "groups_search \<Rightarrow> string option" where
  "selectedTest q = Option.bind (gs_testModal q) unless_empty"


section \<open>The runs of a group\<close>

definition newest_first :: "index_entry list \<Rightarrow> index_entry list" where
  "newest_first = js_sort (\<lambda>a b. Fin (ie_timestamp b - ie_timestamp a))"

definition label_value :: "index_entry \<Rightarrow> string \<Rightarrow> string option" where
  "label_value e key = Option.bind (ie_metadata e) (\<lambda>md. map_of md key)"

definition group_matches :: "string \<Rightarrow> GroupDef \<Rightarrow> index_entry \<Rightarrow> bool" where
  "group_matches suiteHash g e \<longleftrightarrow>
     ie_suite_hash e = Some suiteHash \<and> ii_client (ie_instance e) = gd_client g \<and>
     list_all (\<lambda>(key, val). label_value e key = Some val) (gd_metadata g)"

definition groupMatchedEntries :: "index option \<Rightarrow> groups_search \<Rightarrow> index_entry list list" where
  "groupMatchedEntries ix q =
     (case ix of
        None \<Rightarrow> []
      | Some i \<Rightarrow>
          if suite_of q = [] \<or> groups_of q = [] then []
          else map (\<lambda>g. newest_first (filter (group_matches (suite_of q) g) (ix_entries i))) (groups_of q))"

definition groupSampledEntries :: "index option \<Rightarrow> groups_search \<Rightarrow> index_entry list list" where
  "groupSampledEntries ix q =
     map (\<lambda>(g, entries). selectGroupRuns ie_run_id g entries (nat (sampleSize q)))
       (zip (groups_of q) (groupMatchedEntries ix q))"

definition groupRuns :: "index option \<Rightarrow> groups_search \<Rightarrow> string list list" where
  "groupRuns ix q = map (map ie_run_id) (groupSampledEntries ix q)"

definition allRunIds :: "index option \<Rightarrow> groups_search \<Rightarrow> string list" where
  "allRunIds ix q = concat (groupRuns ix q)"


section \<open>The averaged runs\<close>

text \<open>Reading an array at an index: nothing past the end.\<close>

definition item_at :: "'a list \<Rightarrow> nat \<Rightarrow> 'a option" where
  "item_at xs i = (if i < length xs then Some (xs ! i) else None)"

definition runs_at :: "string list list \<Rightarrow> nat \<Rightarrow> string list" where
  "runs_at runs gi = (case item_at runs gi of None \<Rightarrow> [] | Some ids \<Rightarrow> ids)"

text \<open>A query of the data library: whether it is loading, and its data. The config queries are one per
  group, the result queries one per id of the flat list.\<close>

record 'a query =
  qr_loading :: bool
  qr_data :: "'a option"

definition loading_at :: "'a query list \<Rightarrow> nat \<Rightarrow> bool" where
  "loading_at qs i = (case item_at qs i of None \<Rightarrow> False | Some x \<Rightarrow> qr_loading x)"

definition data_at :: "'a query list \<Rightarrow> nat \<Rightarrow> 'a option" where
  "data_at qs i = Option.bind (item_at qs i) qr_data"

definition groups_loading :: "run_config query list \<Rightarrow> run_result query list \<Rightarrow> bool" where
  "groups_loading configs results \<longleftrightarrow> list_ex qr_loading configs \<or> list_ex qr_loading results"

text \<open>The loops over the groups walk through the flat list with an offset.\<close>

fun loading_loop :: "nat \<Rightarrow> nat \<Rightarrow> nat \<Rightarrow> string list list \<Rightarrow> run_config query list \<Rightarrow> run_result query list \<Rightarrow> bool list" where
  "loading_loop 0 gi offset runs configs results = []"
| "loading_loop (Suc n) gi offset runs configs results =
     (let runIds = runs_at runs gi
      in (loading_at configs gi \<or> list_ex (\<lambda>ri. loading_at results (offset + ri)) [0..<length runIds]) #
         loading_loop n (gi + 1) (offset + length runIds) runs configs results)"

definition groupLoadingFlags :: "GroupDef list \<Rightarrow> string list list \<Rightarrow> run_config query list \<Rightarrow> run_result query list \<Rightarrow> bool list" where
  "groupLoadingFlags groups runs configs results = loading_loop (length groups) 0 0 runs configs results"

definition gathered :: "run_result query list \<Rightarrow> nat \<Rightarrow> string list \<Rightarrow> run_result list" where
  "gathered results offset runIds = List.map_filter (\<lambda>ri. data_at results (offset + ri)) [0..<length runIds]"

definition group_label :: "GroupDef \<Rightarrow> string" where
  "group_label g = join '', '' (map (\<lambda>(k, v). k @ ''='' @ v) (gd_metadata g))"

definition synthetic_run :: "nat \<Rightarrow> GroupDef \<Rightarrow> run_config \<Rightarrow> run_result \<Rightarrow> CompareRun" where
  "synthetic_run gi g config result =
     \<lparr>cr_runId = ''group-'' @ nat_str gi,
      cr_config = config\<lparr>cf_instance_id := if group_label g = [] then ''default'' else group_label g\<rparr>,
      cr_result = Some result, cr_index = gi\<rparr>"

fun average_loop :: "nat \<Rightarrow> nat \<Rightarrow> GroupDef list \<Rightarrow> string list list \<Rightarrow> run_config query list \<Rightarrow> run_result query list \<Rightarrow>
    step_type list \<Rightarrow> AverageMode \<Rightarrow> (CompareRun \<times> mgas_variance js_object) list" where
  "average_loop gi offset [] runs configs results steps mode = []"
| "average_loop gi offset (g # gs) runs configs results steps mode =
     (let runIds = runs_at runs gi;
          res = gathered results offset runIds;
          rest = average_loop (gi + 1) (offset + length runIds) gs runs configs results steps mode
      in case data_at configs gi of
           None \<Rightarrow> rest
         | Some config \<Rightarrow>
             if res = [] then rest
             else let averaged = averageResults res steps mode
                  in (synthetic_run gi g config (ar_result averaged), ar_variance averaged) # rest)"

definition syntheticRuns :: "groups_search \<Rightarrow> string list list \<Rightarrow> run_config query list \<Rightarrow> run_result query list \<Rightarrow> CompareRun list" where
  "syntheticRuns q runs configs results =
     (if groups_of q = [] \<or> groups_loading configs results then []
      else map fst (average_loop 0 0 (groups_of q) runs configs results (groups_step_filter q) (aggMode q)))"

definition varianceMap :: "groups_search \<Rightarrow> string list list \<Rightarrow> run_config query list \<Rightarrow> run_result query list \<Rightarrow>
    (nat, mgas_variance js_object) js_map" where
  "varianceMap q runs configs results =
     (if groups_of q = [] \<or> groups_loading configs results then []
      else map (\<lambda>(r, v). (cr_index r, v))
             (average_loop 0 0 (groups_of q) runs configs results (groups_step_filter q) (aggMode q)))"
section \<open>The controls of the page\<close>

definition baseline_step :: "step_type list \<Rightarrow> (nat \<times> CompareRun) \<Rightarrow> nat \<times> jsnum \<Rightarrow> nat \<times> jsnum" where
  "baseline_step steps ir acc =
     (case cm_mgasPerSec (computeMetrics (cr_config (snd ir)) (cr_result (snd ir)) steps None) of
        None \<Rightarrow> acc
      | Some mgas \<Rightarrow> if num_lt (Fin mgas) (snd acc) then (fst ir, Fin mgas) else acc)"

definition defaultBaselineIdx :: "CompareRun list \<Rightarrow> step_type list \<Rightarrow> nat" where
  "defaultBaselineIdx runs steps =
     fst (fold (baseline_step steps) (zip [0..<length runs] runs) (0, PosInf))"

definition baselineIdx_groups :: "groups_search \<Rightarrow> CompareRun list \<Rightarrow> int" where
  "baselineIdx_groups q runs =
     (case gs_baseline q of
        Some b \<Rightarrow> min (max (int_or_zero b) 0) (max (int (length runs) - 1) 0)
      | None \<Rightarrow> int (defaultBaselineIdx runs (groups_step_filter q)))"

definition setBaselineIdx_groups :: "CompareRun list \<Rightarrow> int \<Rightarrow> groups_search \<Rightarrow> groups_search" where
  "setBaselineIdx_groups runs idx q =
     q\<lparr>gs_baseline := if idx = int (defaultBaselineIdx runs (groups_step_filter q)) then None else Some (int_str idx)\<rparr>"

definition tableBaseline_groups :: "groups_search \<Rightarrow> CompareRun list \<Rightarrow> table_base" where
  "tableBaseline_groups q runs =
     (if gs_tableBase q = Some ''worst'' then WorstRun
      else case gs_tableBase q of
             None \<Rightarrow> BestRun
           | Some t \<Rightarrow> if t \<noteq> ''best'' then BaseRun (min (int_or_zero t) (int (length runs) - 1)) else BestRun)"

definition onTableBaselineChange_groups :: "table_base \<Rightarrow> groups_search \<Rightarrow> groups_search" where
  "onTableBaselineChange_groups val q =
     q\<lparr>gs_tableBase := if val = BestRun then None else Some (table_base_str val)\<rparr>"

text \<open>The heat map's colour model; the bounds are integers.\<close>

definition clamp_int :: "real \<Rightarrow> real \<Rightarrow> real \<Rightarrow> string option \<Rightarrow> real" where
  "clamp_int lo hi d s =
     max lo (min hi (case js_parseInt (or_empty s) of None \<Rightarrow> d | Some i \<Rightarrow> if i = 0 then d else of_int i))"

definition heatmapModel_groups :: "groups_search \<Rightarrow> HeatmapColorModel" where
  "heatmapModel_groups q =
     \<lparr>hm_metric = (if gs_heatmapMetric q = Some ''duration'' then Duration else Mgas),
      hm_mode = (if gs_heatmapColor q = Some ''baseline'' then Baseline else Absolute),
      hm_threshold = clamp_int MIN_THRESHOLD MAX_THRESHOLD DEFAULT_THRESHOLD (gs_heatmapThreshold q),
      hm_slowMs = clamp_int MIN_SLOW_MS MAX_SLOW_MS DEFAULT_SLOW_MS (gs_heatmapSlowMs q)\<rparr>"

datatype heatmap_patch =
  PatchMetric HeatmapMetric | PatchMode HeatmapColorMode | PatchThreshold int | PatchSlowMs int

fun updateHeatmapModel_groups :: "heatmap_patch \<Rightarrow> groups_search \<Rightarrow> groups_search" where
  "updateHeatmapModel_groups (PatchMetric m) q = q\<lparr>gs_heatmapMetric := if m = Mgas then None else Some ''duration''\<rparr>"
| "updateHeatmapModel_groups (PatchMode m) q = q\<lparr>gs_heatmapColor := if m = Absolute then None else Some ''baseline''\<rparr>"
| "updateHeatmapModel_groups (PatchThreshold t) q =
     q\<lparr>gs_heatmapThreshold := if real_of_int t = DEFAULT_THRESHOLD then None else Some (int_str t)\<rparr>"
| "updateHeatmapModel_groups (PatchSlowMs t) q =
     q\<lparr>gs_heatmapSlowMs := if real_of_int t = DEFAULT_SLOW_MS then None else Some (int_str t)\<rparr>"


section \<open>What the builder offers\<close>

definition availableSuites :: "index option \<Rightarrow> string list" where
  "availableSuites ix =
     (case ix of
        None \<Rightarrow> []
      | Some i \<Rightarrow>
          let counts = fold (\<lambda>h m. map_set h ((case map_of m h of None \<Rightarrow> 0 | Some n \<Rightarrow> n) + 1) m)
                         (non_empty (map ie_suite_hash (ix_entries i))) []
          in map fst (js_sort (\<lambda>a b. Fin (real (snd b) - real (snd a))) (counts :: (string, nat) js_map)))"

definition suite_entries :: "index option \<Rightarrow> string \<Rightarrow> index_entry list" where
  "suite_entries ix hash =
     (case ix of None \<Rightarrow> [] | Some i \<Rightarrow> filter (\<lambda>e. ie_suite_hash e = Some hash) (ix_entries i))"

definition availableClients :: "index option \<Rightarrow> string \<Rightarrow> string list" where
  "availableClients ix hash =
     (if hash = [] then [] else sort (js_set_of (map (\<lambda>e. ii_client (ie_instance e)) (suite_entries ix hash))))"

definition availableMetadataKeys :: "index option \<Rightarrow> string \<Rightarrow> (string, string js_set) js_map" where
  "availableMetadataKeys ix hash =
     (if hash = [] then []
      else fold (\<lambda>e. collect_labels (filter (\<lambda>(k, v). \<not> starts_with k ''github.'')
                   (case ie_metadata e of None \<Rightarrow> [] | Some md \<Rightarrow> md)))
             (suite_entries ix hash) [])"


section \<open>The group builder\<close>

text \<open>The page: the URL, and for every card of the builder the run box clicked last.\<close>

record groups_page =
  gp_search :: groups_search
  gp_anchor :: "(nat, string) js_map"

definition addGroup :: "string list \<Rightarrow> GroupDef list \<Rightarrow> GroupDef list" where
  "addGroup clients groups =
     (let nextClient = (case find (\<lambda>c. \<not> list_ex (\<lambda>g. gd_client g = c) groups) clients of
            Some c \<Rightarrow> c | None \<Rightarrow> (case clients of [] \<Rightarrow> [] | c # _ \<Rightarrow> c))
      in groups @ [\<lparr>gd_client = nextClient, gd_metadata = [], gd_runs = None\<rparr>])"

definition removeGroup :: "nat \<Rightarrow> GroupDef list \<Rightarrow> GroupDef list" where
  "removeGroup idx groups = take idx groups @ drop (idx + 1) groups"

definition updateGroup :: "nat \<Rightarrow> (GroupDef \<Rightarrow> GroupDef) \<Rightarrow> GroupDef list \<Rightarrow> GroupDef list" where
  "updateGroup idx patch groups = map (\<lambda>(i, g). if i = idx then patch g else g) (zip [0..<length groups] groups)"

definition addMetadata :: "nat \<Rightarrow> string \<Rightarrow> string \<Rightarrow> GroupDef list \<Rightarrow> GroupDef list" where
  "addMetadata idx key val =
     updateGroup idx (\<lambda>g. g\<lparr>gd_metadata := obj_set key val (gd_metadata g), gd_runs := None\<rparr>)"

definition removeMetadata :: "nat \<Rightarrow> string \<Rightarrow> GroupDef list \<Rightarrow> GroupDef list" where
  "removeMetadata idx key =
     updateGroup idx (\<lambda>g. g\<lparr>gd_metadata := filter (\<lambda>p. fst p \<noteq> key) (gd_metadata g), gd_runs := None\<rparr>)"

definition onClientChange :: "nat \<Rightarrow> string \<Rightarrow> GroupDef list \<Rightarrow> GroupDef list" where
  "onClientChange idx client = updateGroup idx (\<lambda>g. g\<lparr>gd_client := client, gd_metadata := [], gd_runs := None\<rparr>)"

definition resetRuns :: "nat \<Rightarrow> GroupDef list \<Rightarrow> GroupDef list" where
  "resetRuns idx =
     updateGroup idx (\<lambda>g. \<lparr>gd_client = gd_client g, gd_metadata = gd_metadata g, gd_runs = None\<rparr>)"

definition toggleRun :: "index_entry list \<Rightarrow> nat \<Rightarrow> nat \<Rightarrow> string \<Rightarrow> GroupDef list \<Rightarrow> GroupDef list" where
  "toggleRun matched n idx runId = updateGroup idx (\<lambda>g. toggleGroupRun ie_run_id g matched n runId)"

definition setRuns :: "index_entry list \<Rightarrow> nat \<Rightarrow> nat \<Rightarrow> string list \<Rightarrow> bool \<Rightarrow> GroupDef list \<Rightarrow> GroupDef list" where
  "setRuns matched n idx runIds incl = updateGroup idx (\<lambda>g. setGroupRuns ie_run_id g matched n runIds incl)"

text \<open>The choice in the drop-down of further labels: the first value the suite has.\<close>

definition chosen_label :: "(string, string js_set) js_map \<Rightarrow> string \<Rightarrow> (string \<times> string) option" where
  "chosen_label available key =
     (if key = [] then None
      else case map_of available key of
             Some (v # _) \<Rightarrow> if v = [] then None else Some (key, v)
           | _ \<Rightarrow> None)"

definition box_range :: "index_entry list \<Rightarrow> nat \<Rightarrow> nat \<Rightarrow> string list" where
  "box_range runs i j = map ie_run_id (drop (min i j) (take (max i j + 1) runs))"

text \<open>A click on a run box: with shift, every run between the last plainly clicked one and this one takes
  the state of the former.\<close>

definition box_click :: "index_entry list \<Rightarrow> string list \<Rightarrow> nat \<Rightarrow> string option \<Rightarrow> nat \<Rightarrow> string \<Rightarrow> bool \<Rightarrow> GroupDef list \<Rightarrow>
    string option \<times> GroupDef list" where
  "box_click matched selectedIds n anchor idx runId shiftKey groups =
     (case (if anchor = Some [] then None else Option.bind anchor (\<lambda>a. find_row a matched)) of
        Some anchorIdx \<Rightarrow>
          if shiftKey
          then (case find_row runId matched of
                  Some clickedIdx \<Rightarrow>
                    (anchor, setRuns matched n idx (box_range matched anchorIdx clickedIdx)
                               (the anchor \<in> set selectedIds) groups)
                | None \<Rightarrow> (anchor, groups))
          else (Some runId, toggleRun matched n idx runId groups)
      | None \<Rightarrow> (Some runId, toggleRun matched n idx runId groups))"
section \<open>Events\<close>

datatype builder_event =
  AddGroup | RemoveGroup nat | ChooseClient nat string | AddLabel nat string | ChooseLabelValue nat string string
| DropLabel nat string | BoxClicked nat string bool | ResetRuns nat | BoxesGone nat
| SuiteChosen string | SampleTyped string | ModeChosen AverageMode

definition matched_at :: "index option \<Rightarrow> groups_search \<Rightarrow> nat \<Rightarrow> index_entry list" where
  "matched_at ix q idx = (case item_at (groupMatchedEntries ix q) idx of None \<Rightarrow> [] | Some es \<Rightarrow> es)"

text \<open>What the builder does to the list of groups, and to the anchors of its cards.\<close>

fun builder_groups :: "index option \<Rightarrow> groups_page \<Rightarrow> builder_event \<Rightarrow> GroupDef list \<Rightarrow> GroupDef list" where
  "builder_groups ix s AddGroup gs = addGroup (availableClients ix (suite_of (gp_search s))) gs"
| "builder_groups ix s (RemoveGroup i) gs = removeGroup i gs"
| "builder_groups ix s (ChooseClient i c) gs = onClientChange i c gs"
| "builder_groups ix s (AddLabel i k) gs =
     (case chosen_label (availableMetadataKeys ix (suite_of (gp_search s))) k of
        None \<Rightarrow> gs | Some (key, v) \<Rightarrow> addMetadata i key v gs)"
| "builder_groups ix s (ChooseLabelValue i k v) gs = addMetadata i k v gs"
| "builder_groups ix s (DropLabel i k) gs = removeMetadata i k gs"
| "builder_groups ix s (BoxClicked i r shift) gs =
     snd (box_click (matched_at ix (gp_search s) i) (runs_at (groupRuns ix (gp_search s)) i)
            (nat (sampleSize (gp_search s))) (map_of (gp_anchor s) i) i r shift gs)"
| "builder_groups ix s (ResetRuns i) gs = resetRuns i gs"
| "builder_groups ix s _ gs = gs"

fun builder_anchor :: "index option \<Rightarrow> groups_page \<Rightarrow> builder_event \<Rightarrow> (nat, string) js_map" where
  "builder_anchor ix s (BoxClicked i r shift) =
     (case fst (box_click (matched_at ix (gp_search s) i) (runs_at (groupRuns ix (gp_search s)) i)
            (nat (sampleSize (gp_search s))) (map_of (gp_anchor s) i) i r shift (groups_of (gp_search s))) of
        None \<Rightarrow> gp_anchor s | Some a \<Rightarrow> map_set i a (gp_anchor s))"
| "builder_anchor ix s (BoxesGone i) = filter (\<lambda>p. fst p \<noteq> i) (gp_anchor s)"
| "builder_anchor ix s _ = gp_anchor s"

fun builder_search :: "index option \<Rightarrow> groups_page \<Rightarrow> builder_event \<Rightarrow> groups_search" where
  "builder_search ix s (SuiteChosen h) = setSuiteHash h (gp_search s)"
| "builder_search ix s (SampleTyped t) = sample_input t (gp_search s)"
| "builder_search ix s (ModeChosen m) = setAggMode m (gp_search s)"
| "builder_search ix s (BoxesGone i) = gp_search s"
| "builder_search ix s (AddLabel i k) =
     (case chosen_label (availableMetadataKeys ix (suite_of (gp_search s))) k of
        None \<Rightarrow> gp_search s
      | Some kv \<Rightarrow> setGroups (builder_groups ix s (AddLabel i k) (groups_of (gp_search s))) (gp_search s))"
| "builder_search ix s e = setGroups (builder_groups ix s e (groups_of (gp_search s))) (gp_search s)"

text \<open>What is on the screen.\<close>

fun builder_offers :: "index option \<Rightarrow> groups_page \<Rightarrow> builder_event \<Rightarrow> bool" where
  "builder_offers ix s AddGroup \<longleftrightarrow>
     availableClients ix (suite_of (gp_search s)) \<noteq> [] \<and> length (groups_of (gp_search s)) < 10"
| "builder_offers ix s (RemoveGroup i) \<longleftrightarrow> i < length (groups_of (gp_search s)) \<and> 1 < length (groups_of (gp_search s))"
| "builder_offers ix s (ChooseClient i c) \<longleftrightarrow> i < length (groups_of (gp_search s)) \<and>
     (c = [] \<or> c = gd_client (groups_of (gp_search s) ! i) \<or> c \<in> set (availableClients ix (suite_of (gp_search s))))"
| "builder_offers ix s (AddLabel i k) \<longleftrightarrow> i < length (groups_of (gp_search s))"
| "builder_offers ix s (ChooseLabelValue i k v) \<longleftrightarrow> i < length (groups_of (gp_search s)) \<and>
     (case map_of (availableMetadataKeys ix (suite_of (gp_search s))) k of None \<Rightarrow> False | Some vs \<Rightarrow> v \<in> set vs)"
| "builder_offers ix s (DropLabel i k) \<longleftrightarrow> i < length (groups_of (gp_search s))"
| "builder_offers ix s (BoxClicked i r shift) \<longleftrightarrow> i < length (groups_of (gp_search s)) \<and>
     r \<in> ie_run_id ` set (matched_at ix (gp_search s) i)"
| "builder_offers ix s (ResetRuns i) \<longleftrightarrow> i < length (groups_of (gp_search s))"
| "builder_offers ix s (SuiteChosen h) \<longleftrightarrow> h = [] \<or> h = suite_of (gp_search s) \<or> h \<in> set (availableSuites ix)"
| "builder_offers ix s _ \<longleftrightarrow> True"

definition groups_step :: "index option \<Rightarrow> groups_page \<Rightarrow> builder_event \<Rightarrow> groups_page" where
  "groups_step ix s e =
     (if builder_offers ix s e
      then \<lparr>gp_search = builder_search ix s e, gp_anchor = builder_anchor ix s e\<rparr> else s)"

section \<open>Lemmas\<close>

subsection \<open>The offsets\<close>

text \<open>The direct description: each group's own ids, each with the answer fetched for it.\<close>

definition fetched :: "(string \<Rightarrow> 'a query) \<Rightarrow> string list list \<Rightarrow> 'a query list" where
  "fetched f runs = map f (concat runs)"

lemma item_at_Cons [simp]: "item_at (x # xs) 0 = Some x" "item_at (x # xs) (Suc i) = item_at xs i"
  by (simp_all add: item_at_def)

lemma item_at_map: "item_at (map f xs) i = map_option f (item_at xs i)"
  by (simp add: item_at_def)

lemma item_at_concat:
  assumes "gi < length runs" "ri < length (runs ! gi)"
  shows "item_at (concat runs) (length (concat (take gi runs)) + ri) = Some (runs ! gi ! ri)"
  using assms
proof (induction runs arbitrary: gi)
  case (Cons r rs)
  then show ?case
  proof (cases gi)
    case 0
    then show ?thesis using Cons.prems by (simp add: item_at_def nth_append)
  next
    case (Suc j)
    then have "item_at (concat rs) (length (concat (take j rs)) + ri) = Some (rs ! j ! ri)"
      using Cons by simp
    then show ?thesis using Suc by (simp add: item_at_def nth_append split: if_splits)
  qed
qed simp

lemma map_filter_eq: "\<forall>x \<in> set xs. f x = g x \<Longrightarrow> List.map_filter f xs = List.map_filter g xs"
  by (induction xs) (auto simp: map_filter_simps split: option.split)

lemma gathered_group:
  assumes "gi < length runs"
  shows "gathered (fetched f runs) (length (concat (take gi runs))) (runs ! gi) =
    List.map_filter (\<lambda>r. qr_data (f r)) (runs ! gi)"
proof -
  let ?off = "length (concat (take gi runs))"
  have "data_at (fetched f runs) (?off + ri) = qr_data (f (runs ! gi ! ri))" if "ri < length (runs ! gi)" for ri
    using item_at_concat [OF assms that] by (simp add: data_at_def fetched_def item_at_map)
  then have "gathered (fetched f runs) ?off (runs ! gi) =
      List.map_filter (\<lambda>ri. qr_data (f (runs ! gi ! ri))) [0..<length (runs ! gi)]"
    unfolding gathered_def by (intro map_filter_eq) auto
  also have "\<dots> = List.map_filter (\<lambda>r. qr_data (f r)) (map ((!) (runs ! gi)) [0..<length (runs ! gi)])"
    by (simp add: List.map_filter_def filter_map comp_def)
  finally show ?thesis by (simp add: map_nth)
qed
lemma gathered_at:
  "gathered (fetched f runs) (length (concat (take gi runs))) (runs_at runs gi) =
   List.map_filter (\<lambda>r. qr_data (f r)) (runs_at runs gi)"
proof (cases "gi < length runs")
  case True
  then show ?thesis using gathered_group [OF True, of f] by (simp add: runs_at_def item_at_def)
qed (simp add: runs_at_def item_at_def gathered_def List.map_filter_def)

lemma next_offset:
  "length (concat (take gi runs)) + length (runs_at runs gi) = length (concat (take (Suc gi) runs))"
  by (cases "gi < length runs") (simp_all add: runs_at_def item_at_def take_Suc_conv_app_nth)

definition group_average :: "groups_search \<Rightarrow> string list list \<Rightarrow> run_config query list \<Rightarrow> (string \<Rightarrow> run_result query) \<Rightarrow>
    nat \<Rightarrow> GroupDef \<Rightarrow> (CompareRun \<times> mgas_variance js_object) option" where
  "group_average q runs configs f gi g =
     (let res = List.map_filter (\<lambda>r. qr_data (f r)) (runs_at runs gi)
      in case data_at configs gi of
           None \<Rightarrow> None
         | Some config \<Rightarrow>
             if res = [] then None
             else let averaged = averageResults res (groups_step_filter q) (aggMode q)
                  in Some (synthetic_run gi g config (ar_result averaged), ar_variance averaged))"

lemma average_loop_reference:
  "average_loop gi (length (concat (take gi runs))) gs runs configs (fetched f runs) (groups_step_filter q) (aggMode q) =
   List.map_filter (\<lambda>(i, g). group_average q runs configs f i g) (zip [gi..<gi + length gs] gs)"
proof (induction gs arbitrary: gi)
  case (Cons g gs)
  have "[gi..<gi + length (g # gs)] = gi # [Suc gi..<Suc gi + length gs]" by (simp add: upt_conv_Cons del: upt_Suc)
  then show ?case using Cons.IH [of "Suc gi"]
    by (simp add: gathered_at next_offset group_average_def map_filter_simps Let_def split: option.split)
qed (simp add: map_filter_simps)

lemma list_ex_shift:
  "list_ex (\<lambda>ri. loading_at (fetched f runs) (length (concat (take gi runs)) + ri)) [0..<length (runs_at runs gi)] =
   list_ex (\<lambda>r. qr_loading (f r)) (runs_at runs gi)"
proof (cases "gi < length runs")
  case True
  have "loading_at (fetched f runs) (length (concat (take gi runs)) + ri) = qr_loading (f (runs ! gi ! ri))"
    if "ri < length (runs ! gi)" for ri
    using item_at_concat [OF True that] by (simp add: loading_at_def fetched_def item_at_map)
  then have "list_ex (\<lambda>ri. loading_at (fetched f runs) (length (concat (take gi runs)) + ri)) [0..<length (runs ! gi)] =
      list_ex (\<lambda>r. qr_loading (f r)) (map ((!) (runs ! gi)) [0..<length (runs ! gi)])"
    by (simp add: list_ex_iff)
  then show ?thesis using True by (simp add: runs_at_def item_at_def map_nth)
qed (simp add: runs_at_def item_at_def)

lemma loading_loop_reference:
  "loading_loop n gi (length (concat (take gi runs))) runs configs (fetched f runs) =
   map (\<lambda>i. loading_at configs i \<or> list_ex (\<lambda>r. qr_loading (f r)) (runs_at runs i)) [gi..<gi + n]"
proof (induction n arbitrary: gi)
  case (Suc n)
  have "[gi..<gi + Suc n] = gi # [Suc gi..<Suc gi + n]" by (simp add: upt_conv_Cons del: upt_Suc)
  then show ?case using Suc.IH [of "Suc gi"] by (simp add: list_ex_shift next_offset Let_def)
qed simp

text \<open>C23: The page walks through one flat list of answers, with offsets. The averaged run of every group is
  nevertheless the average of exactly the results of the group's own runs, present when its configuration
  and one of them is; the spread is kept under the group's index; and a group shows as loading exactly
  while its configuration or one of its own results is.\<close>

theorem group_averages_reference:
  "syntheticRuns q runs configs (fetched f runs) =
     (if groups_of q = [] \<or> groups_loading configs (fetched f runs) then []
      else map fst (List.map_filter (\<lambda>(i, g). group_average q runs configs f i g)
             (zip [0..<length (groups_of q)] (groups_of q)))) \<and>
   map_of (varianceMap q runs configs (fetched f runs)) gi =
     (if gi < length (groups_of q) \<and> \<not> groups_loading configs (fetched f runs)
      then map_option snd (group_average q runs configs f gi (groups_of q ! gi)) else None) \<and>
   groupLoadingFlags (groups_of q) runs configs (fetched f runs) =
     map (\<lambda>i. loading_at configs i \<or> list_ex (\<lambda>r. qr_loading (f r)) (runs_at runs i)) [0..<length (groups_of q)]"
proof -
  let ?gs = "groups_of q" and ?avg = "\<lambda>(i, g). group_average q runs configs f i g"
  have loop: "average_loop 0 0 ?gs runs configs (fetched f runs) (groups_step_filter q) (aggMode q) =
      List.map_filter ?avg (zip [0..<length ?gs] ?gs)"
    using average_loop_reference [of 0 runs ?gs configs f q] by simp
  have index: "cr_index (fst rv) = i" if "group_average q runs configs f i g = Some rv" for i g rv
    using that by (auto simp: group_average_def synthetic_run_def Let_def split: option.splits if_splits)
  have find: "map_of (map (\<lambda>(r, v). (cr_index r, v)) (List.map_filter ?avg (zip [k..<k + length gs] gs))) gi =
      (if k \<le> gi \<and> gi < k + length gs then map_option snd (group_average q runs configs f gi (gs ! (gi - k))) else None)"
    for k gs
  proof (induction gs arbitrary: k)
    case (Cons g gs)
    define X where "X = List.map_filter ?avg (zip [Suc k..<Suc k + length gs] gs)"
    have "[k..<k + length (g # gs)] = k # [Suc k..<Suc k + length gs]" by (simp add: upt_conv_Cons del: upt_Suc)
    then have step: "List.map_filter ?avg (zip [k..<k + length (g # gs)] (g # gs)) =
        (case group_average q runs configs f k g of None \<Rightarrow> X | Some rv \<Rightarrow> rv # X)"
      by (simp add: X_def map_filter_simps del: upt_Suc split: option.split)
    show ?case unfolding step using Cons.IH [of "Suc k", folded X_def] index [of k g]
      by (cases "gi = k"; cases "group_average q runs configs f k g") (auto simp: nth_Cons' split: if_splits)
  qed (auto simp: map_filter_simps)
  show ?thesis
    using loop find [of 0 ?gs] loading_loop_reference [of "length ?gs" 0 runs configs f]
    by (auto simp: syntheticRuns_def varianceMap_def groupLoadingFlags_def)
qed
subsection \<open>The builder\<close>

definition plain_label :: "string \<times> string \<Rightarrow> bool" where
  "plain_label kv \<longleftrightarrow> fst kv \<noteq> [] \<and> free_of '';|:,='' (fst kv) \<and> free_of '';|:,'' (snd kv)"

definition labels_of :: "index_entry \<Rightarrow> string js_object" where
  "labels_of e = (case ie_metadata e of None \<Rightarrow> [] | Some md \<Rightarrow> md)"

definition plain_entry :: "index_entry \<Rightarrow> bool" where
  "plain_entry e \<longleftrightarrow>
     free_of '';|:'' (ii_client (ie_instance e)) \<and> ie_run_id e \<noteq> [] \<and> free_of '';|,'' (ie_run_id e) \<and>
     list_all plain_label (labels_of e)"

definition plain_index :: "index option \<Rightarrow> bool" where
  "plain_index ix \<longleftrightarrow> (case ix of None \<Rightarrow> True | Some i \<Rightarrow> list_all plain_entry (ix_entries i))"

lemma wf_group_labels:
  "wf_group g \<longleftrightarrow> free_of '';|:'' (gd_client g) \<and> canonical (gd_metadata g) \<and> list_all plain_label (gd_metadata g) \<and>
     (case gd_runs g of None \<Rightarrow> True | Some rs \<Rightarrow> list_all (\<lambda>r. r \<noteq> [] \<and> free_of '';|,'' r) rs)"
  unfolding wf_group_def plain_label_def [abs_def] by (simp add: split_def)

lemma groups_of_setGroups: "list_all wf_group gs \<Longrightarrow> groups_of (setGroups gs q) = gs"
  using parse_encode_groups [of gs] parse_encode_group(3)
  by (auto simp: groups_of_def setGroups_def unless_empty_def parseGroupsParam_def split: if_splits)

lemma suite_entries_plain: "plain_index ix \<Longrightarrow> e \<in> set (suite_entries ix h) \<Longrightarrow> plain_entry e"
  by (auto simp: plain_index_def suite_entries_def list_all_iff split: option.splits)

lemma available_clients_plain:
  "plain_index ix \<Longrightarrow> c \<in> set (availableClients ix h) \<Longrightarrow> free_of '';|:'' c"
  using suite_entries_plain by (auto simp: availableClients_def plain_entry_def split: if_splits)

lemma collect_labels_values:
  assumes "\<And>k vs v. map_of m k = Some vs \<Longrightarrow> v \<in> set vs \<Longrightarrow> (k, v) \<in> S" "set kvs \<subseteq> S"
  shows "map_of (collect_labels kvs m) k = Some vs \<Longrightarrow> v \<in> set vs \<Longrightarrow> (k, v) \<in> S"
  using assms
proof (induction kvs arbitrary: m)
  case (Cons p kvs)
  obtain a b where p: "p = (a, b)" by (cases p)
  let ?m = "map_set a (set_add b (case map_of m a of None \<Rightarrow> [] | Some vs \<Rightarrow> vs)) m"
  have "map_of (collect_labels kvs ?m) k = Some vs" using Cons.prems(1) by (simp add: collect_labels_def p)
  moreover have "(k', v') \<in> S" if "map_of ?m k' = Some vs'" "v' \<in> set vs'" for k' vs' v'
  proof (cases "k' = a")
    case True
    then have "vs' = set_add b (case map_of m a of None \<Rightarrow> [] | Some vs \<Rightarrow> vs)" using that(1) by (simp add: jm.get_put)
    then have "v' = b \<or> (\<exists>ws. map_of m a = Some ws \<and> v' \<in> set ws)" using that(2) by (auto split: option.splits)
    then show ?thesis using Cons.prems(3) [of a] Cons.prems(4) True p by auto
  qed (use that Cons.prems(3) in \<open>simp add: jm.get_put\<close>)
  ultimately show ?case using Cons.IH [of ?m] Cons.prems(2,4) by auto
qed (simp add: collect_labels_def)

lemma available_labels_plain:
  assumes "plain_index ix" "map_of (availableMetadataKeys ix h) k = Some vs" "v \<in> set vs"
  shows "plain_label (k, v)"
proof -
  have fold: "(k, v) \<in> S" if "map_of (fold (\<lambda>e. collect_labels (g e)) es m) k = Some vs" "v \<in> set vs"
      "\<And>k vs v. map_of m k = Some vs \<Longrightarrow> v \<in> set vs \<Longrightarrow> (k, v) \<in> S" "\<And>e. e \<in> set es \<Longrightarrow> set (g e) \<subseteq> S"
    for S m es g and k vs v
    using that
  proof (induction es arbitrary: m)
    case (Cons e es)
    then show ?case using collect_labels_values [of m S "g e"] by (auto intro!: Cons.IH [of "collect_labels (g e) m"])
  qed simp
  have "(k, v) \<in> {kv. plain_label kv}"
  proof (rule fold [of "\<lambda>e. filter (\<lambda>(k, v). \<not> starts_with k ''github.'') (labels_of e)" "suite_entries ix h" "[]" k vs v])
    show "map_of (fold (\<lambda>e. collect_labels (filter (\<lambda>(k, v). \<not> starts_with k ''github.'') (labels_of e)))
        (suite_entries ix h) []) k = Some vs"
      using assms(2) by (auto simp: availableMetadataKeys_def labels_of_def split: if_splits)
    show "set (filter (\<lambda>(k, v). \<not> starts_with k ''github.'') (labels_of e)) \<subseteq> {kv. plain_label kv}"
      if "e \<in> set (suite_entries ix h)" for e
      using suite_entries_plain [OF assms(1) that] by (auto simp: plain_entry_def list_all_iff)
  qed (use assms(3) in auto)
  then show ?thesis by simp
qed

lemma canonical_filter: "canonical ob \<Longrightarrow> canonical (filter (\<lambda>p. fst p \<noteq> k) ob)"
  by (simp add: canonical_def distinct_map_filter sorted_wrt_map sorted_wrt_filter)

lemma plain_obj_set: "list_all plain_label m \<Longrightarrow> plain_label (k, v) \<Longrightarrow> list_all plain_label (obj_set k v m)"
proof -
  have "set (obj_insert k v m) \<subseteq> insert (k, v) (set m)" for m :: "string js_object"
    by (induction m) auto
  moreover have "set (AList.update k v m) \<subseteq> insert (k, v) (set m)" for m :: "string js_object"
    by (induction m) auto
  ultimately have sub: "set (obj_set k v m) \<subseteq> insert (k, v) (set m)" by (auto simp: obj_set_def map_set_def)
  show "list_all plain_label m \<Longrightarrow> plain_label (k, v) \<Longrightarrow> list_all plain_label (obj_set k v m)"
    using sub by (auto simp: list_all_iff)
qed

lemma updateGroup_nth:
  "length (updateGroup i f gs) = length gs"
  "j < length gs \<Longrightarrow> updateGroup i f gs ! j = (if j = i then f (gs ! j) else gs ! j)"
  by (simp_all add: updateGroup_def)

lemma wf_updateGroup:
  assumes "list_all wf_group gs" "\<And>g. wf_group g \<Longrightarrow> wf_group (f g)"
  shows "list_all wf_group (updateGroup i f gs)"
  using assms by (auto simp: list_all_length updateGroup_nth)

lemma set_runs_ids:
  "gd_runs (setGroupRuns rid g matched n ids incl) = Some rs \<Longrightarrow> set rs \<subseteq> rid ` set matched"
  by (auto simp: setGroupRuns_def Let_def split: if_splits)

lemma wf_setGroupRuns:
  assumes "wf_group g" "\<forall>e \<in> set matched. plain_entry e"
  shows "wf_group (setGroupRuns ie_run_id g matched n ids incl)"
proof -
  let ?h = "setGroupRuns ie_run_id g matched n ids incl"
  have "gd_client ?h = gd_client g" "gd_metadata ?h = gd_metadata g" by (simp_all add: setGroupRuns_def Let_def)
  moreover have "list_all (\<lambda>r. r \<noteq> [] \<and> free_of '';|,'' r) rs" if "gd_runs ?h = Some rs" for rs
    using set_runs_ids [OF that] assms(2) by (force simp: list_all_iff plain_entry_def)
  ultimately show ?thesis using assms(1) by (auto simp: wf_group_labels split: option.splits)
qed

lemma set_newest_first [simp]: "set (newest_first es) = set es"
  by (simp add: newest_first_def)

lemma matched_at_plain: "plain_index ix \<Longrightarrow> e \<in> set (matched_at ix q i) \<Longrightarrow> plain_entry e"
  by (auto simp: matched_at_def groupMatchedEntries_def item_at_def plain_index_def list_all_iff
      split: option.splits if_splits)

lemma wf_builder_groups:
  assumes ix: "plain_index ix" and gs: "list_all wf_group (groups_of (gp_search s))" and ok: "builder_offers ix s e"
  shows "list_all wf_group (builder_groups ix s e (groups_of (gp_search s)))"
proof -
  let ?gs = "groups_of (gp_search s)"
  note wf = wf_group_labels
  show ?thesis
  proof (cases e)
    case AddGroup
    define cs where "cs = availableClients ix (suite_of (gp_search s))"
    have "\<forall>c \<in> set cs. free_of '';|:'' c" using available_clients_plain [OF ix] by (simp add: cs_def)
    moreover have "(case find (\<lambda>c. \<not> list_ex (\<lambda>g. gd_client g = c) ?gs) cs of
        Some c \<Rightarrow> c | None \<Rightarrow> (case cs of [] \<Rightarrow> [] | c # _ \<Rightarrow> c)) \<in> insert [] (set cs)"
      by (auto split: option.split list.split dest: find_Some_iff [THEN iffD1])
    ultimately have "free_of '';|:'' (case find (\<lambda>c. \<not> list_ex (\<lambda>g. gd_client g = c) ?gs) cs of
        Some c \<Rightarrow> c | None \<Rightarrow> (case cs of [] \<Rightarrow> [] | c # _ \<Rightarrow> c))" by (auto simp: free_of_def)
    then show ?thesis using gs AddGroup by (simp add: addGroup_def cs_def [symmetric] wf Let_def canonical_def)
  next
    case (RemoveGroup i)
    then show ?thesis using gs by (auto simp: removeGroup_def list_all_iff dest: in_set_takeD in_set_dropD)
  next
    case (ChooseClient i c)
    have "i < length ?gs" using ok ChooseClient by simp
    then have "wf_group (?gs ! i)" using gs by (simp add: list_all_length)
    then have "free_of '';|:'' c" using ok ChooseClient available_clients_plain [OF ix]
      by (auto simp: free_of_def wf)
    then show ?thesis using gs ChooseClient
      by (auto simp: onClientChange_def intro!: wf_updateGroup) (simp add: wf canonical_def)
  next
    case (AddLabel i k)
    have "plain_label (key, v)" if "chosen_label (availableMetadataKeys ix (suite_of (gp_search s))) k = Some (key, v)" for key v
      using that available_labels_plain [OF ix] by (auto simp: chosen_label_def split: if_splits option.splits list.splits)
    then show ?thesis using gs AddLabel canonical_obj_set plain_obj_set
      by (auto simp: addMetadata_def wf split: option.split intro!: wf_updateGroup)
  next
    case (ChooseLabelValue i k v)
    have "plain_label (k, v)" using ok ChooseLabelValue available_labels_plain [OF ix]
      by (auto split: option.splits)
    then show ?thesis using gs ChooseLabelValue canonical_obj_set plain_obj_set
      by (auto simp: addMetadata_def wf intro!: wf_updateGroup)
  next
    case (DropLabel i k)
    have "wf_group (g\<lparr>gd_metadata := filter (\<lambda>p. fst p \<noteq> k) (gd_metadata g), gd_runs := None\<rparr>)" if "wf_group g" for g
      using that canonical_filter by (auto simp: wf list_all_iff)
    then show ?thesis using gs DropLabel by (auto simp: removeMetadata_def intro!: wf_updateGroup)
  next
    case (ResetRuns i)
    then show ?thesis using gs by (auto simp: resetRuns_def wf intro!: wf_updateGroup)
  next
    case (BoxClicked i r shift)
    have "wf_group (setGroupRuns ie_run_id g (matched_at ix (gp_search s) i) n ids incl)" if "wf_group g" for g n ids incl
      using wf_setGroupRuns [OF that] matched_at_plain [OF ix] by blast
    then show ?thesis using gs BoxClicked
      by (auto simp: box_click_def toggleRun_def setRuns_def toggleGroupRun_def Let_def
          split: option.split intro!: wf_updateGroup)
  qed (use gs in simp_all)
qed
lemma sample_back [simp]:
  "sampleSize (setSampleSize n q) = (if n = 5 then 5 else clamp_sample (int_or 5 (int_str n)))"
  by (simp add: sampleSize_def setSampleSize_def or_else_def int_or_def clamp_sample_def js_parseInt_def
      is_space_def is_digit_def digits_val_def)

lemma clamp_sample_back: "sampleSize (setSampleSize (clamp_sample n) q) = clamp_sample n"
proof -
  have "clamp_sample n \<noteq> 0" by (simp add: clamp_sample_def)
  then show ?thesis by (auto simp: int_or_def clamp_sample_def)
qed

lemma other_params [simp]:
  "sampleSize (setGroups gs q) = sampleSize q" "aggMode (setGroups gs q) = aggMode q" "suite_of (setGroups gs q) = suite_of q"
  "sampleSize (setSuiteHash h q) = sampleSize q" "aggMode (setSuiteHash h q) = aggMode q" "suite_of (setSuiteHash h q) = h"
  "aggMode (setSampleSize n q) = aggMode q" "suite_of (setSampleSize n q) = suite_of q"
  "groups_of (setSampleSize n q) = groups_of q" "groups_of (setSuiteHash h q) = []"
  "sampleSize (setAggMode m q) = sampleSize q" "aggMode (setAggMode m q) = m" "suite_of (setAggMode m q) = suite_of q"
  "groups_of (setAggMode m q) = groups_of q"
  by (cases m; auto simp: sampleSize_def setGroups_def aggMode_def suite_of_def setSuiteHash_def or_empty_def
      unless_empty_def setSampleSize_def setAggMode_def groups_of_def parseGroupsParam_def)+

definition groups_inv :: "index option \<Rightarrow> groups_page \<Rightarrow> bool" where
  "groups_inv ix s \<longleftrightarrow> plain_index ix \<longrightarrow> list_all wf_group (groups_of (gp_search s))"

lemma builder_search_groups:
  assumes "plain_index ix" "list_all wf_group (groups_of (gp_search s))" "builder_offers ix s e"
  shows "groups_of (builder_search ix s e) =
    (case e of SuiteChosen h \<Rightarrow> [] | _ \<Rightarrow> builder_groups ix s e (groups_of (gp_search s)))"
  using groups_of_setGroups [OF wf_builder_groups [OF assms]]
  by (cases e) (auto simp: sample_input_def split: option.split)

lemma groups_inv_step: "groups_inv ix s \<Longrightarrow> groups_inv ix (groups_step ix s e)"
  using builder_search_groups [of ix s e] wf_builder_groups [of ix s e]
  by (auto simp: groups_inv_def groups_step_def split: builder_event.splits)

interpretation builder: machine "groups_step ix" "\<lambda>_. True" "groups_inv ix" for ix
  by unfold_locales (rule groups_inv_step)

text \<open>The group builder keeps its state in the URL. After any clicks, the next click does to the groups
  that are read back from the URL exactly what the builder computed from the ones shown, a typed sample
  size is read back clamped, the mode and the suite as chosen, and nothing else changes; the groups stay
  ones that the URL can hold.\<close>

theorem builder_url_faithful:
  assumes "plain_index ix" "list_all wf_group (groups_of q)"
    and "s = run (groups_step ix) \<lparr>gp_search = q, gp_anchor = []\<rparr> es" "builder_offers ix s e"
    and "q' = gp_search (groups_step ix s e)"
  shows "groups_of q' = (case e of SuiteChosen h \<Rightarrow> [] | _ \<Rightarrow> builder_groups ix s e (groups_of (gp_search s))) \<and>
    sampleSize q' = (case e of SampleTyped t \<Rightarrow> clamp_sample (int_or 5 t) | _ \<Rightarrow> sampleSize (gp_search s)) \<and>
    aggMode q' = (case e of ModeChosen m \<Rightarrow> m | _ \<Rightarrow> aggMode (gp_search s)) \<and>
    suite_of q' = (case e of SuiteChosen h \<Rightarrow> h | _ \<Rightarrow> suite_of (gp_search s)) \<and>
    list_all wf_group (groups_of q')"
proof -
  have "groups_inv ix s" unfolding assms(3)
    by (rule builder.inv_run) (use assms(2) in \<open>simp_all add: groups_inv_def list_all_iff\<close>)
  then have wf: "list_all wf_group (groups_of (gp_search s))" using assms(1) by (simp add: groups_inv_def)
  have q': "q' = builder_search ix s e" using assms(4,5) by (simp add: groups_step_def)
  have gs: "groups_of q' = (case e of SuiteChosen h \<Rightarrow> [] | _ \<Rightarrow> builder_groups ix s e (groups_of (gp_search s)))"
    unfolding q' by (rule builder_search_groups [OF assms(1) wf assms(4)])
  then have "list_all wf_group (groups_of q')"
    using wf_builder_groups [OF assms(1) wf assms(4)] by (cases e) simp_all
  moreover have "sampleSize q' = (case e of SampleTyped t \<Rightarrow> clamp_sample (int_or 5 t) | _ \<Rightarrow> sampleSize (gp_search s))"
    unfolding q' by (cases e) (auto simp: sample_input_def clamp_sample_back simp del: sample_back split: option.split)
  moreover have "aggMode q' = (case e of ModeChosen m \<Rightarrow> m | _ \<Rightarrow> aggMode (gp_search s))"
    "suite_of q' = (case e of SuiteChosen h \<Rightarrow> h | _ \<Rightarrow> suite_of (gp_search s))"
    unfolding q' by (cases e; auto simp: sample_input_def split: option.split)+
  ultimately show ?thesis using gs by blast
qed
subsection \<open>Run boxes\<close>

lemma matched_at_eq:
  assumes "i < length (groups_of q)" "suite_of q \<noteq> []"
  shows "matched_at (Some x) q i = newest_first (filter (group_matches (suite_of q) (groups_of q ! i)) (ix_entries x))"
  using assms by (auto simp: matched_at_def groupMatchedEntries_def item_at_def)

lemma runs_at_eq:
  assumes "i < length (groups_of q)" "suite_of q \<noteq> []"
  shows "runs_at (groupRuns (Some x) q) i =
    map ie_run_id (selectGroupRuns ie_run_id (groups_of q ! i) (matched_at (Some x) q i) (nat (sampleSize q)))"
proof -
  have "length (groupMatchedEntries (Some x) q) = length (groups_of q)"
    using assms by (auto simp: groupMatchedEntries_def)
  then show ?thesis using assms
    by (simp add: runs_at_def groupRuns_def groupSampledEntries_def item_at_def matched_at_def)
qed

lemma set_group_ids:
  assumes "distinct (map ie_run_id matched)"
  shows "ie_run_id ` set (selectGroupRuns ie_run_id (setGroupRuns ie_run_id g matched n ids incl) matched n) =
    {r \<in> ie_run_id ` set matched.
       if incl then r \<in> ie_run_id ` set (selectGroupRuns ie_run_id g matched n) \<or> r \<in> set ids
       else r \<in> ie_run_id ` set (selectGroupRuns ie_run_id g matched n) \<and> r \<notin> set ids}"
  unfolding setGroupRuns_select [OF assms] by (auto simp: wanted_ids_def Let_def)

lemma toggle_group_ids:
  assumes "distinct (map ie_run_id matched)" "r \<in> ie_run_id ` set matched"
  shows "ie_run_id ` set (selectGroupRuns ie_run_id (toggleGroupRun ie_run_id g matched n r) matched n) =
    {x \<in> ie_run_id ` set matched. (x \<in> ie_run_id ` set (selectGroupRuns ie_run_id g matched n)) \<noteq> (x = r)}"
proof -
  define A where "A = ie_run_id ` set (selectGroupRuns ie_run_id g matched n)"
  have "list_ex (\<lambda>e. ie_run_id e = r) (selectGroupRuns ie_run_id g matched n) \<longleftrightarrow> r \<in> A"
    by (auto simp: list_ex_iff A_def)
  then show ?thesis using assms(2)
    unfolding toggleGroupRun_def Let_def set_group_ids [OF assms(1)] A_def [symmetric]
    by (cases "r \<in> A") auto
qed

text \<open>What a click on a run box is to do to the ids shown as selected.\<close>

definition box_spec :: "index_entry list \<Rightarrow> string option \<Rightarrow> string set \<Rightarrow> string \<Rightarrow> bool \<Rightarrow> string set" where
  "box_spec matched anchor sel r shift =
     (case Option.bind anchor (\<lambda>a. find_row a matched) of
        Some i \<Rightarrow>
          if shift
          then (let range = set (box_range matched i (the (find_row r matched)))
                in {x \<in> ie_run_id ` set matched. if x \<in> range then the anchor \<in> sel else x \<in> sel})
          else {x \<in> ie_run_id ` set matched. (x \<in> sel) \<noteq> (x = r)}
      | None \<Rightarrow> {x \<in> ie_run_id ` set matched. (x \<in> sel) \<noteq> (x = r)})"

lemma find_row_in: "find_row r rows = Some i \<Longrightarrow> i < length rows \<and> ie_run_id (rows ! i) = r"
  by (auto simp: find_row_def find_Some_iff)

lemma box_click_ids:
  assumes dist: "distinct (map ie_run_id matched)" and r: "r \<in> ie_run_id ` set matched"
    and g: "i < length gs" and named: "\<forall>e \<in> set matched. ie_run_id e \<noteq> []"
    and sel: "set ids = ie_run_id ` set (selectGroupRuns ie_run_id (gs ! i) matched n)"
  shows "ie_run_id ` set (selectGroupRuns ie_run_id (snd (box_click matched ids n anchor i r shift gs) ! i) matched n) =
    box_spec matched anchor (set ids) r shift"
proof -
  obtain j where "j < length matched" "r = ie_run_id (matched ! j)" using r by (auto simp: in_set_conv_nth)
  then have find: "find_row r matched = Some j" using find_row_nth [OF dist] by simp
  have anchor: "(if anchor = Some [] then None else Option.bind anchor (\<lambda>a. find_row a matched)) =
      Option.bind anchor (\<lambda>a. find_row a matched)"
    using named find_row_in [of "[]" matched] by (cases "find_row [] matched") auto
  have plain: "ie_run_id ` set (selectGroupRuns ie_run_id (toggleRun matched n i r gs ! i) matched n) =
      {x \<in> ie_run_id ` set matched. (x \<in> set ids) \<noteq> (x = r)}"
    using toggle_group_ids [OF dist r, of "gs ! i" n] g sel by (simp add: toggleRun_def updateGroup_nth)
  show ?thesis
  proof (cases "Option.bind anchor (\<lambda>a. find_row a matched)")
    case None
    then show ?thesis using plain by (simp add: box_click_def box_spec_def anchor)
  next
    case (Some k)
    show ?thesis
    proof (cases shift)
      case True
      have sub: "set (box_range matched k j) \<subseteq> ie_run_id ` set matched"
        by (auto simp: box_range_def dest: in_set_takeD in_set_dropD)
      have ids: "x \<in> ie_run_id ` set matched" if "x \<in> set ids" for x
        using that select_subset unfolding sel by fastforce
      show ?thesis using Some True find set_group_ids [OF dist, of "gs ! i" n] g sub ids
        by (auto simp: box_click_def box_spec_def anchor setRuns_def updateGroup_nth sel [symmetric])
    qed (use Some plain in \<open>simp add: box_click_def box_spec_def anchor\<close>)
  qed
qed

lemma toggle_keeps:
  "gd_client (toggleGroupRun rid g matched n r) = gd_client g" "gd_metadata (toggleGroupRun rid g matched n r) = gd_metadata g"
  "gd_client (setGroupRuns rid g matched n ids incl) = gd_client g" "gd_metadata (setGroupRuns rid g matched n ids incl) = gd_metadata g"
  by (simp_all add: toggleGroupRun_def setGroupRuns_def Let_def)

lemma box_click_groups:
  "length (snd (box_click matched ids n anchor i r shift gs)) = length gs"
  "j < length gs \<Longrightarrow> group_matches h (snd (box_click matched ids n anchor i r shift gs) ! j) = group_matches h (gs ! j)"
  "j < length gs \<Longrightarrow> j \<noteq> i \<Longrightarrow> snd (box_click matched ids n anchor i r shift gs) ! j = gs ! j"
  by (auto simp: box_click_def toggleRun_def setRuns_def updateGroup_nth toggle_keeps group_matches_def fun_eq_iff
      split: option.split)

text \<open>A click on a run box changes the selection of its group only. Without shift, or without a run
  clicked before, it flips the clicked run; with shift, all runs of the group between the run clicked last
  and this one take the state of the former. The runs offered stay the same.\<close>

theorem run_box_click:
  assumes "plain_index (Some x)" "distinct (map ie_run_id (ix_entries x))" "list_all wf_group (groups_of q)"
    and "s = run (groups_step (Some x)) \<lparr>gp_search = q, gp_anchor = []\<rparr> es" "suite_of (gp_search s) \<noteq> []"
    and "builder_offers (Some x) s (BoxClicked i r shift)"
    and "q' = gp_search (groups_step (Some x) s (BoxClicked i r shift))"
  shows "set (runs_at (groupRuns (Some x) q') i) =
      box_spec (matched_at (Some x) (gp_search s) i) (map_of (gp_anchor s) i)
        (set (runs_at (groupRuns (Some x) (gp_search s)) i)) r shift \<and>
    (\<forall>j. j < length (groups_of (gp_search s)) \<and> j \<noteq> i \<longrightarrow>
       runs_at (groupRuns (Some x) q') j = runs_at (groupRuns (Some x) (gp_search s)) j) \<and>
    (\<forall>j. j < length (groups_of (gp_search s)) \<longrightarrow> matched_at (Some x) q' j = matched_at (Some x) (gp_search s) j)"
proof -
  let ?q = "gp_search s" and ?e = "BoxClicked i r shift"
  let ?gs = "groups_of ?q" and ?m = "matched_at (Some x) ?q i"
  have "groups_inv (Some x) s" unfolding assms(4)
    by (rule builder.inv_run) (use assms(3) in \<open>simp_all add: groups_inv_def list_all_iff\<close>)
  then have wf: "list_all wf_group ?gs" using assms(1) by (simp add: groups_inv_def)
  have q': "q' = builder_search (Some x) s ?e" using assms(6,7) by (simp add: groups_step_def)
  define gs' where "gs' = snd (box_click ?m (runs_at (groupRuns (Some x) ?q) i) (nat (sampleSize ?q))
    (map_of (gp_anchor s) i) i r shift ?gs)"
  have gs': "groups_of q' = gs'"
    using builder_search_groups [OF assms(1) wf assms(6)] unfolding q' gs'_def by simp
  have rest: "suite_of q' = suite_of ?q" "sampleSize q' = sampleSize ?q" unfolding q' by simp_all
  have i: "i < length ?gs" "r \<in> ie_run_id ` set ?m" using assms(6) by simp_all
  note same = box_click_groups [where matched = ?m and ids = "runs_at (groupRuns (Some x) ?q) i" and
      n = "nat (sampleSize ?q)" and anchor = "map_of (gp_anchor s) i" and i = i and r = r and shift = shift and
      gs = ?gs, folded gs'_def]
  have matched: "matched_at (Some x) q' j = matched_at (Some x) ?q j" if "j < length ?gs" for j
    using that assms(5) by (simp add: matched_at_eq gs' rest same)
  have "distinct (map ie_run_id (filter P (ix_entries x)))" for P
    using assms(2) by (simp add: distinct_map_filter)
  then have dist: "distinct (map ie_run_id ?m)"
    using i(1) assms(5) by (simp add: matched_at_eq newest_first_def distinct_map)
  have named: "\<forall>e \<in> set ?m. ie_run_id e \<noteq> []"
    using matched_at_plain [OF assms(1)] by (auto simp: plain_entry_def)
  have ids: "runs_at (groupRuns (Some x) p) j =
      map ie_run_id (selectGroupRuns ie_run_id (groups_of p ! j) (matched_at (Some x) p j) (nat (sampleSize p)))"
    if "j < length (groups_of p)" "suite_of p \<noteq> []" for p j
    using that by (rule runs_at_eq)
  have "set (runs_at (groupRuns (Some x) q') i) =
      ie_run_id ` set (selectGroupRuns ie_run_id (gs' ! i) ?m (nat (sampleSize ?q)))"
    using ids [of i q'] i(1) assms(5) by (simp add: gs' rest same matched)
  also have "\<dots> = box_spec ?m (map_of (gp_anchor s) i) (set (runs_at (groupRuns (Some x) ?q) i)) r shift"
    unfolding gs'_def by (rule box_click_ids [OF dist i(2,1) named]) (use ids [OF i(1) assms(5)] in simp)
  finally have "set (runs_at (groupRuns (Some x) q') i) =
      box_spec ?m (map_of (gp_anchor s) i) (set (runs_at (groupRuns (Some x) ?q) i)) r shift" .
  moreover have "runs_at (groupRuns (Some x) q') j = runs_at (groupRuns (Some x) ?q) j" if "j < length ?gs" "j \<noteq> i" for j
    using that assms(5) by (simp add: ids gs' rest same matched)
  ultimately show ?thesis using matched by simp
qed
subsection \<open>The baseline\<close>

abbreviation run_mgas :: "step_type list \<Rightarrow> CompareRun \<Rightarrow> real option" where
  "run_mgas steps r \<equiv> cm_mgasPerSec (computeMetrics (cr_config r) (cr_result r) steps None)"

definition slowest_so_far :: "step_type list \<Rightarrow> (nat \<times> CompareRun) list \<Rightarrow> nat \<times> jsnum \<Rightarrow> bool" where
  "slowest_so_far steps irs acc \<longleftrightarrow>
     (case snd acc of
        PosInf \<Rightarrow> fst acc = 0 \<and> (\<forall>(i, r) \<in> set irs. run_mgas steps r = None)
      | Fin d \<Rightarrow> (\<exists>r. (fst acc, r) \<in> set irs \<and> run_mgas steps r = Some d) \<and>
                (\<forall>(i, r) \<in> set irs. \<forall>m. run_mgas steps r = Some m \<longrightarrow> d \<le> m)
      | _ \<Rightarrow> False)"

lemma slowest_step:
  "slowest_so_far steps irs acc \<Longrightarrow> slowest_so_far steps (irs @ [ir]) (baseline_step steps ir acc)"
  by (cases ir; cases acc; cases "snd acc"; cases "run_mgas steps (snd ir)")
    (auto simp: slowest_so_far_def baseline_step_def split: if_splits; fastforce)+

lemma slowest_fold:
  "slowest_so_far steps (zip [0..<length runs] runs)
     (fold (baseline_step steps) (zip [0..<length runs] runs) (0, PosInf))"
proof -
  have "slowest_so_far steps (done @ irs) (fold (baseline_step steps) irs acc)"
    if "slowest_so_far steps done acc" for irs "done" acc
    using that
  proof (induction irs arbitrary: "done" acc)
    case (Cons ir irs)
    then have "slowest_so_far steps ((done @ [ir]) @ irs) (fold (baseline_step steps) irs (baseline_step steps ir acc))"
      by (intro Cons.IH slowest_step)
    then show ?case by simp
  qed simp
  from this [of "[]" "(0, PosInf)"] show ?thesis by (simp add: slowest_so_far_def)
qed

lemma clamp_int_read_back:
  assumes "lo \<le> of_int t" "of_int t \<le> hi" "0 < lo" "lo \<le> d" "d \<le> hi"
  shows "clamp_int lo hi d (if real_of_int t = d then None else Some (int_str t)) = of_int t"
  using assms by (auto simp: clamp_int_def or_empty_def js_parseInt_def [of "[]"])

text \<open>Without a parameter the slowest group is the baseline: no group with a throughput is slower. A
  choice is read back, be it the default or another, and so are the baseline of the table and the options
  of the heat map.\<close>

theorem group_options_read_back:
  assumes "0 \<le> idx" "idx < int (length runs)"
    and "1 \<le> t" "t \<le> 1000" "100 \<le> ms" "ms \<le> 20000"
  shows "baselineIdx_groups (setBaselineIdx_groups runs idx q) runs = idx \<and>
    (i < length runs \<and> run_mgas (groups_step_filter q) (runs ! i) = Some m \<longrightarrow>
       (\<exists>d. run_mgas (groups_step_filter q) (runs ! defaultBaselineIdx runs (groups_step_filter q)) = Some d \<and> d \<le> m)) \<and>
    tableBaseline_groups (onTableBaselineChange_groups (BaseRun idx) q) runs = BaseRun idx \<and>
    tableBaseline_groups (onTableBaselineChange_groups BestRun q) runs = BestRun \<and>
    tableBaseline_groups (onTableBaselineChange_groups WorstRun q) runs = WorstRun \<and>
    hm_threshold (heatmapModel_groups (updateHeatmapModel_groups (PatchThreshold t) q)) = of_int t \<and>
    hm_slowMs (heatmapModel_groups (updateHeatmapModel_groups (PatchSlowMs ms) q)) = of_int ms \<and>
    hm_metric (heatmapModel_groups (updateHeatmapModel_groups (PatchMetric me) q)) = me \<and>
    hm_mode (heatmapModel_groups (updateHeatmapModel_groups (PatchMode mo) q)) = mo"
proof -
  let ?fs = "groups_step_filter q" and ?acc = "fold (baseline_step (groups_step_filter q)) (zip [0..<length runs] runs) (0, PosInf)"
  have slow: "slowest_so_far ?fs (zip [0..<length runs] runs) ?acc" by (rule slowest_fold)
  have "\<exists>d. run_mgas ?fs (runs ! fst ?acc) = Some d \<and> d \<le> m"
    if "i < length runs" "run_mgas ?fs (runs ! i) = Some m"
  proof -
    have i: "(i, runs ! i) \<in> set (zip [0..<length runs] runs)" using that(1) by (force simp: set_zip)
    with slow that(2) obtain d where d: "snd ?acc = Fin d" by (cases "snd ?acc") (auto simp: slowest_so_far_def)
    then obtain r where "(fst ?acc, r) \<in> set (zip [0..<length runs] runs)" "run_mgas ?fs r = Some d"
      using slow by (auto simp: slowest_so_far_def)
    moreover from this have "r = runs ! fst ?acc" by (auto simp: set_zip)
    moreover have "d \<le> m" using slow d i that(2) by (auto simp: slowest_so_far_def)
    ultimately show ?thesis by auto
  qed
  moreover have "baselineIdx_groups (setBaselineIdx_groups runs idx q) runs = idx"
    using assms(1,2) by (auto simp: baselineIdx_groups_def setBaselineIdx_groups_def groups_step_filter_def)
  moreover have "tableBaseline_groups (onTableBaselineChange_groups (BaseRun idx) q) runs = BaseRun idx"
    using assms(1,2) int_str_not_word by (simp add: tableBaseline_groups_def onTableBaselineChange_groups_def)
  moreover have "tableBaseline_groups (onTableBaselineChange_groups BestRun q) runs = BestRun"
    "tableBaseline_groups (onTableBaselineChange_groups WorstRun q) runs = WorstRun"
    by (simp_all add: tableBaseline_groups_def onTableBaselineChange_groups_def)
  moreover have "hm_threshold (heatmapModel_groups (updateHeatmapModel_groups (PatchThreshold t) q)) = of_int t"
    "hm_slowMs (heatmapModel_groups (updateHeatmapModel_groups (PatchSlowMs ms) q)) = of_int ms"
    using assms(3-6) clamp_int_read_back [of 1 t 1000 60] clamp_int_read_back [of 100 ms 20000 4000]
    by (simp_all add: heatmapModel_groups_def MIN_THRESHOLD_def MAX_THRESHOLD_def DEFAULT_THRESHOLD_def
        MIN_SLOW_MS_def MAX_SLOW_MS_def DEFAULT_SLOW_MS_def split: if_splits)
  moreover have "hm_metric (heatmapModel_groups (updateHeatmapModel_groups (PatchMetric me) q)) = me"
    by (cases me) (simp_all add: heatmapModel_groups_def)
  moreover have "hm_mode (heatmapModel_groups (updateHeatmapModel_groups (PatchMode mo) q)) = mo"
    by (cases mo) (simp_all add: heatmapModel_groups_def)
  ultimately show ?thesis unfolding defaultBaselineIdx_def by blast
qed

section \<open>The cards of the builder\<close>

definition with_choice :: "string \<Rightarrow> string list \<Rightarrow> string list" where
  "with_choice chosen available =
     (if chosen \<noteq> [] \<and> chosen \<notin> set available then chosen # available else available)"

definition suiteOptions :: "index option \<Rightarrow> groups_search \<Rightarrow> string list" where
  "suiteOptions ix q = with_choice (suite_of q) (availableSuites ix)"

definition clientOptions :: "index option \<Rightarrow> groups_search \<Rightarrow> GroupDef \<Rightarrow> string list" where
  "clientOptions ix q g = with_choice (gd_client g) (availableClients ix (suite_of q))"

definition unusedKeys :: "(string, string js_set) js_map \<Rightarrow> GroupDef \<Rightarrow> string list" where
  "unusedKeys available g = filter (\<lambda>k. k \<notin> set (map fst (gd_metadata g))) (map fst available)"

definition box_mgas :: "index_entry \<Rightarrow> real option" where
  "box_mgas e =
     (let stats = getIndexAggregatedStats e ALL_STEP_TYPES
      in if ia_gasUsedDuration stats > 0 then Some (ia_gasUsed stats * 1000 / ia_gasUsedDuration stats) else None)"

definition isRunCompleted :: "index_entry \<Rightarrow> bool" where
  "isRunCompleted e \<longleftrightarrow> ie_status e = None \<or> ie_status e = Some Completed"

definition isRunLive :: "index_entry \<Rightarrow> bool" where
  "isRunLive e \<longleftrightarrow> ie_status e = Some Running"

definition box_color :: "index_entry list \<Rightarrow> index_entry \<Rightarrow> string" where
  "box_color runs e =
     (if isRunLive e then ''#3b82f6''
      else if \<not> isRunCompleted e then ''#6b7280''
      else case box_mgas e of
             None \<Rightarrow> NEUTRAL_COLOR
           | Some v \<Rightarrow> cs_color (createColorScale (List.map_filter box_mgas runs) True) v)"

record card_stats =
  cd_mean :: real
  cd_min :: real
  cd_max :: real
  cd_p95 :: real
  cd_p99 :: real

definition card_stats_of :: "index_entry list \<Rightarrow> string list \<Rightarrow> card_stats option" where
  "card_stats_of matched selectedIds =
     (let vs = num_sort (List.map_filter box_mgas (filter (\<lambda>e. ie_run_id e \<in> set selectedIds) matched));
          n = length vs
      in if vs = [] then None
         else Some \<lparr>cd_mean = sum_list vs / real n, cd_min = vs ! 0, cd_max = vs ! (n - 1),
                cd_p95 = vs ! min (nat \<lfloor>real n * (95 / 100)\<rfloor>) (n - 1),
                cd_p99 = vs ! min (nat \<lfloor>real n * (99 / 100)\<rfloor>) (n - 1)\<rparr>)"

lemma mean_between:
  fixes vs :: "real list"
  assumes "vs \<noteq> []" "\<And>v. v \<in> set vs \<Longrightarrow> a \<le> v \<and> v \<le> b"
  shows "a \<le> sum_list vs / real (length vs) \<and> sum_list vs / real (length vs) \<le> b"
proof -
  have "a * real (length vs) \<le> sum_list vs \<and> sum_list vs \<le> b * real (length vs)"
    using assms(2) by (induction vs) (force simp: algebra_simps)+
  then show ?thesis using assms(1) by (simp add: field_simps)
qed

lemma num_sort_mono: "i \<le> j \<Longrightarrow> j < length xs \<Longrightarrow> num_sort xs ! i \<le> num_sort xs ! j"
  by (simp add: num_sort_eq sorted_nth_mono)

lemma num_sort_between:
  assumes "v \<in> set (num_sort xs)"
  shows "num_sort xs ! 0 \<le> v \<and> v \<le> num_sort xs ! (length xs - 1)"
proof -
  obtain i where "i < length xs" "num_sort xs ! i = v" using assms by (metis in_set_conv_nth length_js_sort)
  then show ?thesis using num_sort_mono [of 0 i xs] num_sort_mono [of i "length xs - 1" xs] by simp
qed

lemma p95_rank_mono: "min (nat \<lfloor>real n * (95 / 100)\<rfloor>) (n - 1) \<le> min (nat \<lfloor>real n * (99 / 100)\<rfloor>) (n - 1)"
  by (intro min.mono nat_mono floor_mono) simp_all

lemma card_stats_ordered:
  assumes "card_stats_of matched selectedIds = Some c"
  shows "cd_min c \<le> cd_mean c \<and> cd_mean c \<le> cd_max c \<and>
    cd_min c \<le> cd_p95 c \<and> cd_p95 c \<le> cd_p99 c \<and> cd_p99 c \<le> cd_max c"
proof -
  define xs where "xs = List.map_filter box_mgas (filter (\<lambda>e. ie_run_id e \<in> set selectedIds) matched)"
  have ne: "num_sort xs \<noteq> []" and c: "cd_mean c = sum_list (num_sort xs) / real (length (num_sort xs))"
      "cd_min c = num_sort xs ! 0" "cd_max c = num_sort xs ! (length xs - 1)"
      "cd_p95 c = num_sort xs ! min (nat \<lfloor>real (length xs) * (95 / 100)\<rfloor>) (length xs - 1)"
      "cd_p99 c = num_sort xs ! min (nat \<lfloor>real (length xs) * (99 / 100)\<rfloor>) (length xs - 1)"
    using assms unfolding card_stats_of_def xs_def [symmetric] by (auto simp: Let_def split: if_splits)
  have pos: "0 < length xs" using ne by auto
  have top: "min k (length xs - 1) < length xs" "length xs - 1 < length xs" for k
    using pos by (auto intro: min.strict_coboundedI2)
  have "cd_min c \<le> cd_p95 c" unfolding c by (rule num_sort_mono [OF le0 top(1)])
  moreover have "cd_p95 c \<le> cd_p99 c" unfolding c by (rule num_sort_mono [OF p95_rank_mono top(1)])
  moreover have "cd_p99 c \<le> cd_max c" unfolding c by (rule num_sort_mono [OF min.cobounded2 top(2)])
  ultimately show ?thesis using mean_between [OF ne num_sort_between [of _ xs]] unfolding c by blast
qed

lemma builder_options_complete:
  "suite_of q \<noteq> [] \<Longrightarrow> suite_of q \<in> set (suiteOptions ix q)"
  "gd_client g \<noteq> [] \<Longrightarrow> gd_client g \<in> set (clientOptions ix q g)"
  by (auto simp: suiteOptions_def clientOptions_def with_choice_def)

lemma unused_keys_fresh:
  assumes "k \<in> set (unusedKeys available g)"
  shows "map_of (gd_metadata g) k = None \<and> k \<in> set (map fst available)"
  using assms by (simp add: unusedKeys_def map_of_eq_None_iff)


section \<open>Witnesses\<close>

definition two_runs :: index where
  "two_runs = \<lparr>ix_generated = 0, ix_entries =
     [(example_entry ''r1'' ''geth'' 1)\<lparr>ie_suite_hash := Some ''s''\<rparr>,
      (example_entry ''r2'' ''geth'' 2)\<lparr>ie_suite_hash := Some ''s'', ie_timestamp := 20\<rparr>]\<rparr>"

definition geth_group :: groups_search where
  "geth_group = \<lparr>gs_suite = Some ''s'', gs_groups = Some ''geth:'', gs_sample = Some ''1'', gs_agg = None,
     gs_steps = None, gs_baseline = None, gs_tableBase = None, gs_chart = None, gs_sort = None,
     gs_sortDir = None, gs_filter = None, gs_filterRegex = None, gs_gasBuckets = None, gs_diffFilter = None,
     gs_heatmapMetric = None, gs_heatmapColor = None, gs_heatmapThreshold = None, gs_heatmapSlowMs = None,
     gs_testModal = None\<rparr>"

lemma two_runs_plain: "plain_index (Some two_runs)"
  by (simp add: plain_index_def plain_entry_def two_runs_def example_entry_def free_of_def labels_of_def plain_label_def)

lemma geth_groups: "groups_of geth_group = [\<lparr>gd_client = ''geth'', gd_metadata = [], gd_runs = None\<rparr>]"
  by code_simp

lemma geth_wf: "list_all wf_group (groups_of geth_group)"
  unfolding geth_groups by (simp add: wf_group_def free_of_def canonical_def)

lemma geth_matched: "map ie_run_id (matched_at (Some two_runs) geth_group 0) = [''r2'', ''r1'']"
  by code_simp

lemma geth_offer: "builder_offers (Some two_runs) \<lparr>gp_search = geth_group, gp_anchor = []\<rparr> (BoxClicked 0 ''r1'' False)"
  using geth_groups geth_matched by (metis (no_types, opaque_lifting) One_nat_def builder_offers.simps(7)
      groups_page.select_convs(1) image_set length_Cons lessI list.set_intros(1,2) list.size(3))

theorem builder_url_faithful_witness:
  "groups_of (gp_search (groups_step (Some two_runs) \<lparr>gp_search = geth_group, gp_anchor = []\<rparr> (BoxClicked 0 ''r1'' False))) =
   builder_groups (Some two_runs) \<lparr>gp_search = geth_group, gp_anchor = []\<rparr> (BoxClicked 0 ''r1'' False) (groups_of geth_group)"
  using builder_url_faithful [OF two_runs_plain geth_wf, of "\<lparr>gp_search = geth_group, gp_anchor = []\<rparr>" "[]", OF _ geth_offer refl]
  by simp

theorem run_box_click_witness:
  "set (runs_at (groupRuns (Some two_runs)
     (gp_search (groups_step (Some two_runs) \<lparr>gp_search = geth_group, gp_anchor = []\<rparr> (BoxClicked 0 ''r1'' False)))) 0) =
   {''r1'', ''r2''}"
proof -
  have "distinct (map ie_run_id (ix_entries two_runs))" by (simp add: two_runs_def example_entry_def)
  note click = run_box_click [OF two_runs_plain this geth_wf, of "\<lparr>gp_search = geth_group, gp_anchor = []\<rparr>" "[]", OF _ _ geth_offer refl]
  have "runs_at (groupRuns (Some two_runs) geth_group) 0 = [''r2'']" by code_simp
  moreover have "ie_run_id ` set (matched_at (Some two_runs) geth_group 0) = {''r2'', ''r1''}"
    using geth_matched by (metis image_set list.set(1,2))
  moreover have "suite_of geth_group \<noteq> []" by (simp add: suite_of_def or_empty_def geth_group_def)
  ultimately show ?thesis using click by (auto simp: box_spec_def)
qed

theorem group_options_read_back_witness:
  "baselineIdx_groups (setBaselineIdx_groups
     [\<lparr>cr_runId = [], cr_config = \<lparr>cf_timestamp = 0, cf_timestamp_end = None, cf_suite_hash = None,
        cf_instance_id = [], cf_test_counts = None, cf_labels = None\<rparr>, cr_result = None, cr_index = 0\<rparr>] 0 geth_group)
     [\<lparr>cr_runId = [], cr_config = \<lparr>cf_timestamp = 0, cf_timestamp_end = None, cf_suite_hash = None,
        cf_instance_id = [], cf_test_counts = None, cf_labels = None\<rparr>, cr_result = None, cr_index = 0\<rparr>] = 0"
  using group_options_read_back [of 0 _ 60 4000 geth_group 0 0 Mgas Absolute] by (simp only: order.refl) simp

end
