(* ===== verification/Suite_Runs.thy ===== *)
theory Suite_Runs
  imports Groups_Page
begin

text \<open>
  The runs of the suite page (\<open>pages/SuiteDetailPage.tsx\<close>): the runs of the suite with the live ones,
  grouping by labels and its parameter of the URL, the runs of the charts, and the links to comparisons
  with what they open on the comparison pages.
\<close>

section \<open>Grouping by labels\<close>

definition parseGroupByKeys :: "string option \<Rightarrow> string list \<Rightarrow> string list" where
  "parseGroupByKeys param allKeys =
     (case param of
        None \<Rightarrow> allKeys
      | Some p \<Rightarrow>
          if p = ''none'' then []
          else let valid = js_set_of (allKeys @ [''instance_id''])
               in filter (\<lambda>k. k \<in> set valid) (map trim (split_on CHR '','' p)))"

definition serializeGroupByKeys :: "string list \<Rightarrow> string list \<Rightarrow> string option" where
  "serializeGroupByKeys keys allKeys =
     (if keys = [] then Some ''none''
      else let keySet = js_set_of keys
           in if length keys = length allKeys \<and> list_all (\<lambda>k. k \<in> set keySet) allKeys then None
              else Some (join '','' keys))"

definition groupValueForRun :: "index_entry \<Rightarrow> string \<Rightarrow> string" where
  "groupValueForRun e key =
     (if key = ''instance_id'' then ii_id (ie_instance e)
      else case label_value e key of None \<Rightarrow> ''(none)'' | Some v \<Rightarrow> v)"

definition handleGroupByToggle :: "string list \<Rightarrow> string \<Rightarrow> string option \<Rightarrow> string option" where
  "handleGroupByToggle allKeys key groupBy =
     (let effective = parseGroupByKeys groupBy allKeys;
          next = (if key \<in> set effective then filter (\<lambda>k. k \<noteq> key) effective else effective @ [key])
      in serializeGroupByKeys next allKeys)"

section \<open>The runs of a suite\<close>

definition suiteRunsAll :: "index option \<Rightarrow> LiveRun list option \<Rightarrow> string \<Rightarrow> index_entry list" where
  "suiteRunsAll ix liveRuns suiteHash =
     (case ix of
        None \<Rightarrow> []
      | Some i \<Rightarrow>
          let indexed = filter (\<lambda>e. ie_suite_hash e = Some suiteHash) (ix_entries i)
          in case liveRuns of
               None \<Rightarrow> indexed
             | Some lrs \<Rightarrow>
                 if lrs = [] then indexed
                 else let indexedRunIDs = js_set_of (map ie_run_id indexed);
                          ephemeral = map live_entry (filter (\<lambda>lr. lr_suite_hash lr = Some suiteHash \<and>
                            lr_run_id lr \<notin> set indexedRunIDs) lrs)
                      in if ephemeral \<noteq> [] then ephemeral @ indexed else indexed)"

definition reserved_key :: "string \<Rightarrow> bool" where
  "reserved_key k \<longleftrightarrow> starts_with k ''github.'' \<or> k = ''name''"

definition groupByLabelKeys :: "index_entry list \<Rightarrow> string list" where
  "groupByLabelKeys runs =
     sort (fold (\<lambda>e keys. fold set_add (filter (\<lambda>k. \<not> reserved_key k) (map fst (labels_of e))) keys) runs [])"

definition group_suffix :: "string list \<Rightarrow> index_entry \<Rightarrow> string" where
  "group_suffix keys e = join '', '' (map (\<lambda>k. k @ ''='' @ groupValueForRun e k) keys)"

definition applyGrouping :: "string list \<Rightarrow> index_entry list \<Rightarrow> index_entry list" where
  "applyGrouping keys runs =
     (if keys = [] then runs
      else map (\<lambda>e. e\<lparr>ie_instance := (ie_instance e)\<lparr>ii_client :=
                 ii_client (ie_instance e) @ '' / '' @ group_suffix keys e\<rparr>\<rparr>) runs)"

definition completedRuns :: "index_entry list \<Rightarrow> index_entry list" where
  "completedRuns grouped = filter isRunCompleted grouped"

section \<open>The runs of the charts\<close>

fun getBaseClient :: "string \<Rightarrow> string" where
  "getBaseClient [] = []"
| "getBaseClient (c # cs) = (if starts_with (c # cs) '' / '' then [] else c # getBaseClient cs)"

definition chartRunsBase :: "bool \<Rightarrow> index_entry list \<Rightarrow> index_entry list" where
  "chartRunsBase passingOnly completed =
     (if \<not> passingOnly then completed
      else filter (\<lambda>e. it_total (ie_tests e) = it_passed (ie_tests e)) completed)"

definition base_of :: "index_entry \<Rightarrow> string" where
  "base_of e = getBaseClient (ii_client (ie_instance e))"

definition chartClients :: "index_entry list \<Rightarrow> string list" where
  "chartClients runs = sort (js_set_of (map base_of runs))"

definition chart_labels :: "index_entry list \<Rightarrow> (string, string js_set) js_map" where
  "chart_labels runs =
     fold (\<lambda>e. collect_labels (filter (\<lambda>(k, v). \<not> reserved_key k) (labels_of e))) runs []"

definition chartLabelKeys :: "index_entry list \<Rightarrow> string list" where
  "chartLabelKeys runs = sort (map fst (chart_labels runs))"

definition chartLabelValues :: "index_entry list \<Rightarrow> (string, string list) js_map" where
  "chartLabelValues runs = map (\<lambda>(k, vs). (k, sort vs)) (chart_labels runs)"

definition chartRuns :: "string js_set \<Rightarrow> LabelFilters \<Rightarrow> index_entry list \<Rightarrow> index_entry list" where
  "chartRuns clientFilter labelFilters base =
     (let runs = (if clientFilter \<noteq> [] then filter (\<lambda>r. base_of r \<in> set clientFilter) base else base)
      in if labelFilters \<noteq> [] then filter (\<lambda>r. labels_allow labelFilters (ie_metadata r)) runs else runs)"

definition toggleClient :: "string \<Rightarrow> string js_set \<Rightarrow> string js_set" where
  "toggleClient c clientFilter = (if c \<in> set clientFilter then set_delete c clientFilter else set_add c clientFilter)"

section \<open>Links to comparisons\<close>

definition compare_href :: "string list \<Rightarrow> string" where
  "compare_href ids = ''/compare?runs='' @ encodeURIComponent (join '','' ids)"

definition groups_href :: "string \<Rightarrow> string \<Rightarrow> string" where
  "groups_href suiteHash groups =
     ''/compare/groups?suite='' @ encodeURIComponent suiteHash @ ''&groups='' @ encodeURIComponent groups"

definition groupCompareUrl :: "string \<Rightarrow> string list \<Rightarrow> string option" where
  "groupCompareUrl suiteHash clients =
     (if length clients < 2 then None
      else Some (groups_href suiteHash (join '';'' (map (\<lambda>c. c @ '':'') clients))))"

definition all_passed :: "index_entry \<Rightarrow> bool" where
  "all_passed e \<longleftrightarrow> it_total (ie_tests e) > 0 \<and> it_passed (ie_tests e) = it_total (ie_tests e)"

text \<open>The loop of the three links to latest runs: one run for each value of \<open>key\<close>.\<close>

fun latest_loop :: "(index_entry \<Rightarrow> bool) \<Rightarrow> (index_entry \<Rightarrow> string) \<Rightarrow> string list \<Rightarrow> index_entry list \<Rightarrow>
    index_entry list \<Rightarrow> index_entry list" where
  "latest_loop skip key seen result [] = result"
| "latest_loop skip key seen result (e # runs) =
     (if key e \<in> set seen \<or> skip e then latest_loop skip key seen result runs
      else let (seen', result') = (if all_passed e then (set_add (key e) seen, result @ [e]) else (seen, result))
           in if length result' \<ge> MAX_COMPARE_RUNS then result'
              else latest_loop skip key seen' result' runs)"

definition client_of :: "index_entry \<Rightarrow> string" where
  "client_of e = ii_client (ie_instance e)"

definition recentSuccessfulPerClient :: "index_entry list \<Rightarrow> index_entry list" where
  "recentSuccessfulPerClient completed = latest_loop (\<lambda>_. False) client_of [] [] (newest_first completed)"

definition enough_href :: "index_entry list \<Rightarrow> string option" where
  "enough_href rs = (if length rs \<ge> MIN_COMPARE_RUNS then Some (compare_href (map ie_run_id rs)) else None)"

definition latestCompareUrl :: "index_entry list \<Rightarrow> string option" where
  "latestCompareUrl completed = enough_href (recentSuccessfulPerClient completed)"

definition getCompareGroupHref :: "index_entry list \<Rightarrow> string option" where
  "getCompareGroupHref sectionRuns = enough_href (latest_loop isRunLive client_of [] [] (newest_first sectionRuns))"

definition group_value :: "string list \<Rightarrow> index_entry \<Rightarrow> string" where
  "group_value keys e = join '', '' (map (groupValueForRun e) keys)"

definition client_runs_across :: "string list \<Rightarrow> index_entry list \<Rightarrow> string \<Rightarrow> index_entry list" where
  "client_runs_across keys runs client =
     latest_loop isRunLive (group_value keys) [] [] (newest_first (filter (\<lambda>r. client_of r = client) runs))"

definition label_mode :: "string list \<Rightarrow> string" where
  "label_mode keys =
     (case find (\<lambda>k. k \<noteq> ''instance_id'') keys of
        Some (c # cs) \<Rightarrow> ''label:'' @ c # cs | _ \<Rightarrow> ''instance-id'')"

definition getCompareClientAcrossGroupsHref :: "string list \<Rightarrow> index_entry list \<Rightarrow> string \<Rightarrow> string option" where
  "getCompareClientAcrossGroupsHref keys runs client =
     map_option (\<lambda>href. href @ ''&labels='' @ encodeURIComponent (label_mode keys))
       (enough_href (client_runs_across keys runs client))"

definition pairs_text :: "(string \<times> string) list \<Rightarrow> string" where
  "pairs_text kvs = join '','' (map (\<lambda>(k, v). k @ ''='' @ v) kvs)"

definition getGroupCompareGroupHref :: "string \<Rightarrow> string js_object \<Rightarrow> string list \<Rightarrow> string" where
  "getGroupCompareGroupHref suiteHash metadata clients =
     groups_href suiteHash (join '';'' (map (\<lambda>c. c @ '':'' @ pairs_text metadata) clients))"

definition label_or_none :: "index_entry \<Rightarrow> string \<Rightarrow> string" where
  "label_or_none e k = (case label_value e k of None \<Rightarrow> ''(none)'' | Some v \<Rightarrow> v)"

definition client_filters :: "string list \<Rightarrow> index_entry list \<Rightarrow> string \<Rightarrow> string js_set" where
  "client_filters keys runs client =
     (let metaKeys = filter (\<lambda>k. k \<noteq> ''instance_id'') keys
      in js_set_of (map (\<lambda>e. pairs_text (map (\<lambda>k. (k, label_or_none e k)) metaKeys))
           (filter (\<lambda>r. client_of r = client) runs)))"

definition getGroupCompareClientAcrossGroupsHref :: "string \<Rightarrow> string list \<Rightarrow> index_entry list \<Rightarrow> string \<Rightarrow> string" where
  "getGroupCompareClientAcrossGroupsHref suiteHash keys runs client =
     groups_href suiteHash (join '';'' (map (\<lambda>f. client @ '':'' @ f) (sort (client_filters keys runs client))))"
section \<open>Lemmas\<close>

subsection \<open>The latest run of each key\<close>

fun firsts :: "('a \<Rightarrow> 'k) \<Rightarrow> 'k set \<Rightarrow> 'a list \<Rightarrow> 'a list" where
  "firsts key S [] = []"
| "firsts key S (x # xs) = (if key x \<in> S then firsts key S xs else x # firsts key (insert (key x) S) xs)"

lemma firsts_keys: "distinct (map key (firsts key S xs)) \<and> key ` set (firsts key S xs) = key ` set xs - S"
  by (induction xs arbitrary: S) auto

lemma firsts_set: "set (firsts key S xs) \<subseteq> set xs"
  by (induction xs arbitrary: S) (auto split: if_splits)

lemma firsts_first:
  assumes "sorted_wrt P xs" "\<And>x. P x x" "x \<in> set (firsts key S xs)" "y \<in> set xs" "key y = key x"
  shows "P x y"
  using assms
proof (induction xs arbitrary: S)
  case (Cons z zs)
  have keys: "key ` set (firsts key S' zs) = key ` set zs - S'" for S' using firsts_keys by metis
  show ?case
  proof (cases "key z \<in> S")
    case True
    have "x \<in> set (firsts key S zs)" using Cons.prems(3) True by simp
    then have "key x \<notin> S" using keys [of S] by blast
    then show ?thesis using Cons True by auto
  next
    case False
    show ?thesis
    proof (cases "x = z")
      case True
      then show ?thesis using Cons.prems by auto
    next
      case neq: False
      have x: "x \<in> set (firsts key (insert (key z) S) zs)" using Cons.prems(3) False neq by simp
      then have "key x \<noteq> key z" using keys [of "insert (key z) S"] by blast
      then show ?thesis using Cons.IH [OF _ Cons.prems(2) x] Cons.prems(1,4,5) by auto
    qed
  qed
qed simp

lemma firsts_sorted: "sorted_wrt P xs \<Longrightarrow> sorted_wrt P (firsts key S xs)"
proof (induction xs arbitrary: S)
  case (Cons z zs)
  then show ?case using firsts_set [of key "insert (key z) S" zs] by auto
qed simp

lemma latest_loop_reference:
  assumes "length result < MAX_COMPARE_RUNS"
  shows "latest_loop skip key seen result runs =
    take MAX_COMPARE_RUNS (result @ firsts key (set seen) (filter (\<lambda>e. \<not> skip e \<and> all_passed e) runs))"
  using assms
proof (induction runs arbitrary: seen result)
  case (Cons e runs)
  show ?case
  proof (cases "key e \<in> set seen \<or> skip e \<or> \<not> all_passed e")
    case True
    then show ?thesis using Cons by auto
  next
    case False
    show ?thesis
    proof (cases "length (result @ [e]) \<ge> MAX_COMPARE_RUNS")
      case True
      then have "length (result @ [e]) = MAX_COMPARE_RUNS" using Cons.prems by simp
      then have "take MAX_COMPARE_RUNS ((result @ [e]) @ rest) = result @ [e]" for rest
        by (metis append_eq_conv_conj)
      then show ?thesis using False True by simp
    next
      case few: False
      then show ?thesis using Cons.IH [of "result @ [e]" "set_add (key e) seen"] False by simp
    qed
  qed
qed simp

lemma newest_first_sorted: "sorted_wrt (\<lambda>a b. ie_timestamp b \<le> ie_timestamp a) (newest_first es)"
proof -
  have "newest_first = js_sort (key_cmp (\<lambda>e. - ie_timestamp e))"
    by (simp add: newest_first_def key_cmp_def [abs_def])
  then show ?thesis using key.sorted_js_sort [of "\<lambda>e. - ie_timestamp e" es] by (simp add: key_cmp_def not_less)
qed

text \<open>The description of a link: its runs are passed ones, one for each key, each as new as any of its
  key, the newest first; only when there are as many as a comparison takes can a key be missing, and then
  the key has no newer run.\<close>

definition latest_runs :: "(index_entry \<Rightarrow> bool) \<Rightarrow> (index_entry \<Rightarrow> string) \<Rightarrow> index_entry list \<Rightarrow> index_entry list \<Rightarrow> bool" where
  "latest_runs usable key runs rs \<longleftrightarrow>
     set rs \<subseteq> {e \<in> set runs. usable e} \<and> distinct (map key rs) \<and> length rs \<le> MAX_COMPARE_RUNS \<and>
     sorted_wrt (\<lambda>a b. ie_timestamp b \<le> ie_timestamp a) rs \<and>
     (\<forall>r \<in> set rs. \<forall>e \<in> set runs. usable e \<and> key e = key r \<longrightarrow> ie_timestamp e \<le> ie_timestamp r) \<and>
     (\<forall>e \<in> set runs. usable e \<and> key e \<notin> key ` set rs \<longrightarrow>
        length rs = MAX_COMPARE_RUNS \<and> (\<forall>r \<in> set rs. ie_timestamp e \<le> ie_timestamp r))"

lemma latest_loop_sound:
  "latest_runs (\<lambda>e. \<not> skip e \<and> all_passed e) key runs (latest_loop skip key [] [] (newest_first runs))"
proof -
  let ?ok = "\<lambda>e. \<not> skip e \<and> all_passed e" and ?newer = "\<lambda>a b. ie_timestamp b \<le> ie_timestamp a"
  define xs where "xs = filter ?ok (newest_first runs)"
  define fs where "fs = firsts key {} xs"
  have loop: "latest_loop skip key [] [] (newest_first runs) = take MAX_COMPARE_RUNS fs"
    using latest_loop_reference [of "[]" skip key "[]" "newest_first runs"]
    by (simp add: fs_def xs_def MAX_COMPARE_RUNS_def)
  have xs: "set xs = {e \<in> set runs. ?ok e}" by (auto simp: xs_def)
  have sorted: "sorted_wrt ?newer xs"
    unfolding xs_def by (rule sorted_wrt_filter [OF newest_first_sorted])
  have fs: "set fs \<subseteq> set xs" "distinct (map key fs)" "key ` set fs = key ` set xs" "sorted_wrt ?newer fs"
    using firsts_set [of key "{}" xs] firsts_keys [of key "{}" xs] firsts_sorted [OF sorted]
    by (auto simp: fs_def)
  have newest: "ie_timestamp e \<le> ie_timestamp r" if "r \<in> set fs" "e \<in> set xs" "key e = key r" for r e
    using firsts_first [OF sorted _ that(1) [unfolded fs_def] that(2,3)] by simp
  have missing: "length (take MAX_COMPARE_RUNS fs) = MAX_COMPARE_RUNS \<and>
      (\<forall>r \<in> set (take MAX_COMPARE_RUNS fs). ie_timestamp e \<le> ie_timestamp r)"
    if e: "e \<in> set xs" "key e \<notin> key ` set (take MAX_COMPARE_RUNS fs)" for e
  proof -
    obtain f where f: "f \<in> set fs" "key f = key e" using fs(3) e(1) by (metis image_iff)
    then have "f \<in> set (drop MAX_COMPARE_RUNS fs)" using e(2)
      by (metis UnE append_take_drop_id image_eqI set_append)
    moreover from this have "length fs > MAX_COMPARE_RUNS" by (metis drop_all empty_iff linorder_not_le set_empty)
    moreover have "\<forall>a \<in> set (take MAX_COMPARE_RUNS fs). \<forall>b \<in> set (drop MAX_COMPARE_RUNS fs). ?newer a b"
      using fs(4) by (metis append_take_drop_id sorted_wrt_append)
    ultimately show ?thesis using newest [OF f(1) e(1)] f(2) by fastforce
  qed
  have part: "set (take MAX_COMPARE_RUNS fs) \<subseteq> set fs" by (rule set_take_subset)
  have "distinct (map key (take MAX_COMPARE_RUNS fs))" using fs(2) by (simp add: take_map [symmetric])
  moreover have "sorted_wrt ?newer (take MAX_COMPARE_RUNS fs)" using fs(4) by (rule sorted_wrt_take)
  moreover have "length (take MAX_COMPARE_RUNS fs) \<le> MAX_COMPARE_RUNS" by simp
  moreover have "set (take MAX_COMPARE_RUNS fs) \<subseteq> {e \<in> set runs. ?ok e}" using part fs(1) xs by blast
  moreover have "\<forall>r \<in> set (take MAX_COMPARE_RUNS fs). \<forall>e \<in> set runs. ?ok e \<and> key e = key r \<longrightarrow> ie_timestamp e \<le> ie_timestamp r"
    using part newest xs by blast
  moreover have "\<forall>e \<in> set runs. ?ok e \<and> key e \<notin> key ` set (take MAX_COMPARE_RUNS fs) \<longrightarrow>
      length (take MAX_COMPARE_RUNS fs) = MAX_COMPARE_RUNS \<and> (\<forall>r \<in> set (take MAX_COMPARE_RUNS fs). ie_timestamp e \<le> ie_timestamp r)"
    using missing xs by blast
  ultimately show ?thesis unfolding loop latest_runs_def by blast
qed
lemma latest_runs_length:
  assumes "latest_runs usable key runs rs"
  shows "length rs = min MAX_COMPARE_RUNS (card (key ` {e \<in> set runs. usable e}))"
proof -
  let ?K = "key ` {e \<in> set runs. usable e}"
  have rs: "key ` set rs \<subseteq> ?K" "distinct (map key rs)" "length rs \<le> MAX_COMPARE_RUNS"
    and full: "\<And>k. k \<in> ?K \<Longrightarrow> k \<notin> key ` set rs \<Longrightarrow> length rs = MAX_COMPARE_RUNS"
    using assms by (auto simp: latest_runs_def)
  have len: "length rs = card (key ` set rs)" using distinct_card [OF rs(2)] by simp
  have fin: "finite ?K" by simp
  show ?thesis
  proof (cases "key ` set rs = ?K")
    case True
    then show ?thesis using len rs(3) by simp
  next
    case False
    then have "length rs = MAX_COMPARE_RUNS" using rs(1) full by blast
    then show ?thesis using len card_mono [OF fin rs(1)] by simp
  qed
qed

subsection \<open>Reading a link\<close>

text \<open>A parameter of a link, as the browser and the router read it: the texts that are JSON literals, which
  the router turns into numbers and booleans, are outside of the model.\<close>

definition link_param :: "string \<Rightarrow> string \<Rightarrow> string option" where
  "link_param key href =
     (case index_of CHR ''?'' href of
        None \<Rightarrow> None
      | Some i \<Rightarrow> (case form_parse (drop (i + 1) href) of Inl _ \<Rightarrow> None | Inr ps \<Rightarrow> map_of ps key))"

definition open_compare :: "string \<Rightarrow> compare_search" where
  "open_compare href = no_compare_search\<lparr>cs_runs := link_param ''runs'' href, cs_labels := link_param ''labels'' href\<rparr>"

definition open_groups :: "string \<Rightarrow> groups_search" where
  "open_groups href =
     \<lparr>gs_suite = link_param ''suite'' href, gs_groups = link_param ''groups'' href, gs_sample = None, gs_agg = None,
      gs_steps = None, gs_baseline = None, gs_tableBase = None, gs_chart = None, gs_sort = None,
      gs_sortDir = None, gs_filter = None, gs_filterRegex = None, gs_gasBuckets = None, gs_diffFilter = None,
      gs_heatmapMetric = None, gs_heatmapColor = None, gs_heatmapThreshold = None, gs_heatmapSlowMs = None,
      gs_testModal = None\<rparr>"

lemma link_param_back:
  assumes "CHR ''?'' \<notin> set path"
    and "\<forall>p \<in> set ps. CHR ''='' \<notin> set (fst p) \<and> CHR ''&'' \<notin> set (fst p) \<and> form_decode (fst p) = Inr (fst p)"
  shows "link_param key (path @ ''?'' @ join ''&'' (map (\<lambda>p. fst p @ ''='' @ encodeURIComponent (snd p)) ps)) = map_of ps key"
proof -
  let ?f = "\<lambda>p. fst p @ ''='' @ encodeURIComponent (snd p)"
  have "form_parse (join ''&'' (map ?f ps)) = Inr ps"
    by (rule form_parse_join) (use assms(2) in \<open>auto simp: form_pair_back\<close>)
  then show ?thesis using index_of_append [OF assms(1), of "join ''&'' (map ?f ps)"]
    by (simp add: link_param_def)
qed

lemma link_keys:
  "form_decode ''runs'' = Inr ''runs''" "form_decode ''labels'' = Inr ''labels''"
  "form_decode ''suite'' = Inr ''suite''" "form_decode ''groups'' = Inr ''groups''"
  by (simp_all add: form_decode_def plus_space_def)

lemma compare_href_read:
  "link_param ''runs'' (compare_href ids) = Some (join '','' ids)"
  "link_param ''labels'' (compare_href ids) = None"
  "link_param ''runs'' (compare_href ids @ ''&labels='' @ encodeURIComponent m) = Some (join '','' ids)"
  "link_param ''labels'' (compare_href ids @ ''&labels='' @ encodeURIComponent m) = Some m"
  using link_param_back [of "''/compare''" "[(''runs'', join '','' ids)]"]
    link_param_back [of "''/compare''" "[(''runs'', join '','' ids), (''labels'', m)]"] link_keys
  by (simp_all add: compare_href_def)

lemma groups_href_read:
  "suite_of (open_groups (groups_href h gs)) = h"
  "groups_of (open_groups (groups_href h gs)) = parseGroupsParam (Some gs)"
  using link_param_back [of "''/compare/groups''" "[(''suite'', h), (''groups'', gs)]"] link_keys
  by (simp_all add: groups_href_def open_groups_def suite_of_def groups_of_def or_empty_def)

lemma latest_loop_link:
  assumes "\<forall>e \<in> set runs. plain_id (ie_run_id e)" "rs = latest_loop skip key [] [] (newest_first runs)"
    "cs_runs q = Some (join '','' (map ie_run_id rs))"
  shows "compare_run_ids q = map ie_run_id rs"
proof (rule compare_run_ids_join [OF _ _ assms(3)])
  have "latest_runs (\<lambda>e. \<not> skip e \<and> all_passed e) key runs rs" using latest_loop_sound assms(2) by simp
  then show "\<forall>i \<in> set (map ie_run_id rs). plain_id i" "length (map ie_run_id rs) \<le> MAX_COMPARE_RUNS"
    using assms(1) by (auto simp: latest_runs_def)
qed

text \<open>What a link to latest runs opens.\<close>

definition link_shows :: "string option \<Rightarrow> (index_entry \<Rightarrow> bool) \<Rightarrow> (index_entry \<Rightarrow> string) \<Rightarrow> index_entry list \<Rightarrow> bool" where
  "link_shows link usable key runs \<longleftrightarrow>
     (case link of
        None \<Rightarrow> card (key ` {e \<in> set runs. usable e}) < MIN_COMPARE_RUNS
      | Some href \<Rightarrow>
          (\<exists>rs. compare_run_ids (open_compare href) = map ie_run_id rs \<and> MIN_COMPARE_RUNS \<le> length rs \<and>
                latest_runs usable key runs rs))"

lemma enough_href_shows:
  assumes "\<forall>e \<in> set runs. plain_id (ie_run_id e)" "rs = latest_loop skip key [] [] (newest_first runs)"
  shows "link_shows (enough_href rs) (\<lambda>e. \<not> skip e \<and> all_passed e) key runs"
    "link_shows (map_option (\<lambda>href. href @ ''&labels='' @ encodeURIComponent m) (enough_href rs))
       (\<lambda>e. \<not> skip e \<and> all_passed e) key runs"
proof -
  have sound: "latest_runs (\<lambda>e. \<not> skip e \<and> all_passed e) key runs rs" using latest_loop_sound assms(2) by simp
  have ids: "compare_run_ids (open_compare (compare_href (map ie_run_id rs) @ suffix)) = map ie_run_id rs"
    if "suffix = [] \<or> suffix = ''&labels='' @ encodeURIComponent m" for suffix
    using that compare_href_read(1) [of "map ie_run_id rs"] compare_href_read(3) [of "map ie_run_id rs" m]
    by (intro latest_loop_link [OF assms]) (auto simp: open_compare_def)
  have few: "length rs < MIN_COMPARE_RUNS \<Longrightarrow>
      card (key ` {e \<in> set runs. \<not> skip e \<and> all_passed e}) < MIN_COMPARE_RUNS"
    using latest_runs_length [OF sound] by (simp add: MIN_COMPARE_RUNS_def MAX_COMPARE_RUNS_def split: if_splits)
  show "link_shows (enough_href rs) (\<lambda>e. \<not> skip e \<and> all_passed e) key runs"
    using sound ids [of "[]"] few by (auto simp: link_shows_def enough_href_def)
  show "link_shows (map_option (\<lambda>href. href @ ''&labels='' @ encodeURIComponent m) (enough_href rs))
       (\<lambda>e. \<not> skip e \<and> all_passed e) key runs"
    using sound ids [of "''&labels='' @ encodeURIComponent m"] few by (auto simp: link_shows_def enough_href_def)
qed

text \<open>C24: The links to the latest runs. The comparison opened by a link shows, for each client (of the page
  or of a section), or for each group of one client, one run that passed all its tests and is finished, as
  new as any such run of the same client or group; the newest come first, at most five. A link is missing
  exactly when fewer than two clients or groups have such a run. Run ids are assumed to have no comma, no
  space around them and not to be empty.\<close>

theorem latest_links_open:
  assumes "\<forall>e \<in> set runs. plain_id (ie_run_id e)"
  shows "link_shows (latestCompareUrl runs) all_passed client_of runs \<and>
    link_shows (getCompareGroupHref runs) (\<lambda>e. \<not> isRunLive e \<and> all_passed e) client_of runs \<and>
    link_shows (getCompareClientAcrossGroupsHref keys runs c) (\<lambda>e. \<not> isRunLive e \<and> all_passed e)
      (group_value keys) (filter (\<lambda>e. client_of e = c) runs)"
proof -
  have part: "\<forall>e \<in> set (filter (\<lambda>e. client_of e = c) runs). plain_id (ie_run_id e)" using assms by simp
  show ?thesis
    using enough_href_shows(1) [OF assms refl, of "\<lambda>_. False" client_of]
      enough_href_shows(1) [OF assms refl, of isRunLive client_of]
      enough_href_shows(2) [OF part refl, of "label_mode keys" isRunLive "group_value keys"]
    by (simp add: latestCompareUrl_def recentSuccessfulPerClient_def getCompareGroupHref_def
        getCompareClientAcrossGroupsHref_def client_runs_across_def)
qed
subsection \<open>The group-by buttons\<close>

datatype group_click = GroupNone | GroupKey string

text \<open>The parameter of the URL under the clicks, and the set of keys it stands for.\<close>

fun group_step :: "string list \<Rightarrow> string option \<Rightarrow> group_click \<Rightarrow> string option" where
  "group_step allKeys p GroupNone = Some ''none''"
| "group_step allKeys p (GroupKey k) = handleGroupByToggle allKeys k p"

fun group_spec :: "string set \<Rightarrow> group_click \<Rightarrow> string set" where
  "group_spec K GroupNone = {}"
| "group_spec K (GroupKey k) = (if k \<in> K then K - {k} else insert k K)"

definition plain_key :: "string \<Rightarrow> bool" where
  "plain_key k \<longleftrightarrow> trim k = k \<and> CHR '','' \<notin> set k \<and> k \<noteq> ''none'' \<and> k \<noteq> ''instance_id''"

definition group_offered :: "string list \<Rightarrow> group_click \<Rightarrow> bool" where
  "group_offered allKeys c \<longleftrightarrow> (case c of GroupNone \<Rightarrow> True | GroupKey k \<Rightarrow> k \<in> insert ''instance_id'' (set allKeys))"

definition group_keys_ok :: "string list \<Rightarrow> string option \<Rightarrow> bool" where
  "group_keys_ok allKeys p \<longleftrightarrow>
     distinct (parseGroupByKeys p allKeys) \<and> set (parseGroupByKeys p allKeys) \<subseteq> insert ''instance_id'' (set allKeys)"

lemma serialize_read_back:
  assumes "\<forall>k \<in> set allKeys. plain_key k" "distinct allKeys"
    and "distinct ks" "set ks \<subseteq> insert ''instance_id'' (set allKeys)"
  shows "set (parseGroupByKeys (serializeGroupByKeys ks allKeys) allKeys) = set ks \<and>
    distinct (parseGroupByKeys (serializeGroupByKeys ks allKeys) allKeys)"
proof (cases "ks = []")
  case True
  then show ?thesis by (simp add: serializeGroupByKeys_def parseGroupByKeys_def)
next
  case ne: False
  show ?thesis
  proof (cases "length ks = length allKeys \<and> list_all (\<lambda>k. k \<in> set ks) allKeys")
    case True
    then have "set allKeys = set ks"
      using assms(2,3) by (intro card_subset_eq) (auto simp: list_all_iff distinct_card)
    then show ?thesis using True ne assms(2)
      by (simp add: serializeGroupByKeys_def parseGroupByKeys_def)
  next
    case False
    have plain: "trim k = k" "CHR '','' \<notin> set k" "k \<noteq> ''none''" if "k \<in> set ks" for k
      using assms(1,4) that by (force simp: plain_key_def trim_id is_space_def)+
    have split: "split_on CHR '','' (join '','' ks) = ks"
      by (rule split_on_join) (use ne plain in auto)
    have "split_on CHR '','' ''none'' = [''none'']" by simp
    then have "join '','' ks \<noteq> ''none''" using split plain(3) by (metis list.set_intros(1))
    moreover have "map trim ks = ks" using plain(1) by (simp add: map_idI)
    moreover have "filter (\<lambda>k. k \<in> insert ''instance_id'' (set allKeys)) ks = ks"
      using assms(4) by (auto simp: filter_id_conv)
    ultimately have "parseGroupByKeys (Some (join '','' ks)) allKeys = ks"
      using split by (simp add: parseGroupByKeys_def)
    moreover have "serializeGroupByKeys ks allKeys = Some (join '','' ks)"
      using False ne by (auto simp: serializeGroupByKeys_def)
    ultimately show ?thesis using assms(3) by simp
  qed
qed

lemma group_step_spec:
  assumes "\<forall>k \<in> set allKeys. plain_key k" "distinct allKeys" "group_keys_ok allKeys p" "group_offered allKeys c"
  shows "set (parseGroupByKeys (group_step allKeys p c) allKeys) = group_spec (set (parseGroupByKeys p allKeys)) c \<and>
    group_keys_ok allKeys (group_step allKeys p c)"
proof (cases c)
  case GroupNone
  then show ?thesis by (simp add: parseGroupByKeys_def group_keys_ok_def)
next
  case (GroupKey k)
  let ?ks = "parseGroupByKeys p allKeys"
  let ?next = "if k \<in> set ?ks then filter (\<lambda>j. j \<noteq> k) ?ks else ?ks @ [k]"
  have "distinct ?next" "set ?next \<subseteq> insert ''instance_id'' (set allKeys)"
    using assms(3,4) GroupKey by (auto simp: group_keys_ok_def group_offered_def)
  from serialize_read_back [OF assms(1,2) this] show ?thesis
    using assms(3,4) GroupKey
    by (auto simp: handleGroupByToggle_def group_keys_ok_def group_offered_def split: if_splits)
qed

interpretation grouping: machine "group_step (filter plain_key (remdups allKeys))"
  "group_offered (filter plain_key (remdups allKeys))" "group_keys_ok (filter plain_key (remdups allKeys))" for allKeys
  by unfold_locales (use group_step_spec in auto)

lemma label_keys_ok: "distinct (groupByLabelKeys runs)"
proof -
  have step: "distinct ks \<Longrightarrow> distinct (fold (\<lambda>e keys. fold set_add (f e) keys) runs ks)" for f :: "index_entry \<Rightarrow> string list" and ks
    by (induction runs arbitrary: ks) (simp_all add: distinct_fold_add)
  then show ?thesis by (simp add: groupByLabelKeys_def)
qed

text \<open>The group-by buttons of the suite page keep their selection in one parameter of the URL. After any
  clicks the parameter stands for the set of keys that the clicks describe: all labels at first, none after
  the button that clears, one key more or less after a click on it; and the selection has no key twice.
  Label names are assumed to have no comma and no space around them, and not to be one of the two special
  words.\<close>

theorem group_by_follows_clicks:
  assumes "\<forall>k \<in> set (groupByLabelKeys runs). plain_key k"
    and "list_all (group_offered (groupByLabelKeys runs)) clicks"
  shows "set (parseGroupByKeys (run (group_step (groupByLabelKeys runs)) None clicks) (groupByLabelKeys runs)) =
      foldl group_spec (set (groupByLabelKeys runs)) clicks \<and>
    distinct (parseGroupByKeys (run (group_step (groupByLabelKeys runs)) None clicks) (groupByLabelKeys runs))"
proof -
  let ?ks = "groupByLabelKeys runs"
  have ks: "filter plain_key (remdups ?ks) = ?ks"
    using assms(1) label_keys_ok by (simp add: distinct_remdups_id filter_id_conv)
  have start: "group_keys_ok ?ks None" using label_keys_ok by (auto simp: group_keys_ok_def parseGroupByKeys_def)
  have "set (parseGroupByKeys (run (group_step ?ks) p clicks) ?ks) = foldl group_spec (set (parseGroupByKeys p ?ks)) clicks"
    if "group_keys_ok ?ks p" "list_all (group_offered ?ks) clicks" for p
    using that
  proof (induction clicks arbitrary: p)
    case (Cons c clicks)
    then show ?case using group_step_spec [OF assms(1) label_keys_ok Cons.prems(1), of c] by simp
  qed simp
  from this [OF start assms(2)] show ?thesis
    using grouping.inv_run [where allKeys = ?ks, unfolded ks, OF start assms(2)]
    by (simp add: group_keys_ok_def parseGroupByKeys_def [of None])
qed

subsection \<open>The charts\<close>

lemma base_client_plain: "CHR ''/'' \<notin> set c \<Longrightarrow> getBaseClient (c @ '' / '' @ s) = c"
proof (induction c)
  case (Cons d c)
  have "\<not> starts_with (d # c @ '' / '' @ s) '' / ''" using Cons.prems by (cases c) (auto simp: starts_with_def)
  then show ?case using Cons by simp
qed (simp add: starts_with_def)

lemma base_client_id: "CHR ''/'' \<notin> set c \<Longrightarrow> getBaseClient c = c"
proof (induction c)
  case (Cons d c)
  have "\<not> starts_with (d # c) '' / ''" using Cons.prems by (cases c) (auto simp: starts_with_def)
  then show ?case using Cons by simp
qed simp

text \<open>Two runs come under one name exactly when they have the same client and the same values.\<close>

lemma grouped_name_eq:
  assumes "CHR ''/'' \<notin> set a" "CHR ''/'' \<notin> set b"
  shows "a @ '' / '' @ s = b @ '' / '' @ t \<longleftrightarrow> a = b \<and> s = t"
  using base_client_plain [OF assms(1), of s] base_client_plain [OF assms(2), of t] by auto

definition group_name :: "string list \<Rightarrow> index_entry \<Rightarrow> index_entry" where
  "group_name keys e =
     (if keys = [] then e
      else e\<lparr>ie_instance := (ie_instance e)\<lparr>ii_client := client_of e @ '' / '' @ group_suffix keys e\<rparr>\<rparr>)"

lemma applyGrouping_map: "applyGrouping keys runs = map (group_name keys) runs"
  by (simp add: applyGrouping_def group_name_def [abs_def] client_of_def)

lemma group_name_simps [simp]:
  "ie_run_id (group_name keys e) = ie_run_id e" "ie_tests (group_name keys e) = ie_tests e"
  "ie_status (group_name keys e) = ie_status e" "ie_metadata (group_name keys e) = ie_metadata e"
  "ie_timestamp (group_name keys e) = ie_timestamp e"
  "isRunCompleted (group_name keys e) = isRunCompleted e"
  by (simp_all add: group_name_def isRunCompleted_def)

lemma group_name_base: "CHR ''/'' \<notin> set (client_of e) \<Longrightarrow> base_of (group_name keys e) = client_of e"
  using base_client_plain [of "client_of e"] base_client_id [of "client_of e"]
  by (auto simp: base_of_def group_name_def client_of_def)

text \<open>The runs in the charts. Grouping renames the clients of the runs, but it changes neither which runs
  the charts show nor the clients offered: these are the finished runs of the suite, with the switch the
  passing ones only, of the chosen clients (all of them when none is chosen) and with the chosen labels.
  The name of a client is assumed to have no slash.\<close>

theorem chart_runs_reference:
  assumes "\<forall>e \<in> set runs. CHR ''/'' \<notin> set (client_of e)"
    and "base = chartRunsBase passingOnly (completedRuns (applyGrouping keys runs))"
  shows "map ie_run_id (chartRuns cf lf base) =
      map ie_run_id (filter (\<lambda>e. isRunCompleted e \<and> (passingOnly \<longrightarrow> it_total (ie_tests e) = it_passed (ie_tests e)) \<and>
        (cf = [] \<or> client_of e \<in> set cf) \<and> labels_allow lf (ie_metadata e)) runs) \<and>
    set (chartClients base) = client_of ` set (filter (\<lambda>e. isRunCompleted e \<and>
      (passingOnly \<longrightarrow> it_total (ie_tests e) = it_passed (ie_tests e))) runs) \<and>
    distinct (chartClients base)"
proof -
  define ok where "ok e \<longleftrightarrow> isRunCompleted e \<and> (passingOnly \<longrightarrow> it_total (ie_tests e) = it_passed (ie_tests e))" for e
  have base: "base = map (group_name keys) (filter ok runs)"
    by (auto simp: assms(2) chartRunsBase_def completedRuns_def applyGrouping_map ok_def [abs_def]
        filter_map comp_def conj_commute intro!: arg_cong [where f = "map (group_name keys)"] filter_cong)
  have client: "base_of (group_name keys e) = client_of e" if "e \<in> set runs" for e
    using assms(1) that by (intro group_name_base) simp
  have lf: "lf = [] \<Longrightarrow> labels_allow lf md" for md by (simp add: labels_allow_def)
  have "chartRuns cf lf base = map (group_name keys) (filter (\<lambda>e. ok e \<and>
        (cf = [] \<or> client_of e \<in> set cf) \<and> labels_allow lf (ie_metadata e)) runs)"
    using client lf unfolding base
    by (auto simp: chartRuns_def Let_def filter_map comp_def intro!: arg_cong [where f = "map (group_name keys)"] filter_cong)
  moreover have "set (chartClients base) = client_of ` set (filter ok runs)"
    using client unfolding base by (auto simp: chartClients_def image_iff)
  ultimately show ?thesis by (simp add: comp_def ok_def chartClients_def)
qed

subsection \<open>Links to groups\<close>

lemma parse_pairs_segment:
  assumes "free_of '';|:'' c" "list_all plain_label kvs"
  shows "parse_segment (c @ '':'' @ pairs_text kvs) = \<lparr>gd_client = c, gd_metadata = obj_of kvs, gd_runs = None\<rparr>"
    and "CHR '';'' \<notin> set (c @ '':'' @ pairs_text kvs)"
proof -
  let ?ps = "map (\<lambda>(k, v). k @ ''='' @ v) kvs" and ?t = "pairs_text kvs"
  have free: "\<forall>x \<in> set ?ps. x \<noteq> [] \<and> CHR '','' \<notin> set x \<and> CHR '':'' \<notin> set x \<and> CHR ''|'' \<notin> set x \<and> CHR '';'' \<notin> set x"
    using assms(2) by (fastforce simp: list_all_iff free_of_def plain_label_def)
  have t: "CHR '':'' \<notin> set ?t" "CHR ''|'' \<notin> set ?t" "CHR '';'' \<notin> set ?t"
    unfolding pairs_text_def using free by (intro join_free; simp)+
  have "nonempty (split_on CHR '','' ?t) = ?ps"
    unfolding pairs_text_def by (rule nonempty_split_join) (use free in \<open>auto simp: list_all_iff\<close>)
  moreover have "fold add_pair ?ps [] = obj_of kvs"
    unfolding obj_of_def using assms(2)
    by (intro fold_add_pair) (auto simp: list_all_iff free_of_def plain_label_def)
  moreover have "?t = [] \<longleftrightarrow> kvs = []" unfolding pairs_text_def using free by (subst join_Nil_iff) auto
  ultimately have "(if ?t = [] then [] else fold add_pair (nonempty (split_on CHR '','' ?t)) []) = obj_of kvs"
    by (simp add: obj_of_def)
  moreover have "split2 CHR '':'' (c @ CHR '':'' # ?t) = (c, Some ?t)"
    using assms(1) t by (intro split2_hit) (simp_all add: free_of_def)
  moreover have "split2 CHR ''|'' (c @ CHR '':'' # ?t) = (c @ CHR '':'' # ?t, None)"
    using assms(1) t by (intro split2_miss) (simp add: free_of_def)
  ultimately show "parse_segment (c @ '':'' @ pairs_text kvs) = \<lparr>gd_client = c, gd_metadata = obj_of kvs, gd_runs = None\<rparr>"
    by (simp add: parse_segment_parts)
  show "CHR '';'' \<notin> set (c @ '':'' @ pairs_text kvs)" using assms(1) t by (simp add: free_of_def)
qed

lemma parse_link_groups:
  assumes "\<forall>x \<in> set xs. free_of '';|:'' (c x) \<and> list_all plain_label (kvs x)"
  shows "parseGroupsParam (Some (join '';'' (map (\<lambda>x. c x @ '':'' @ pairs_text (kvs x)) xs))) =
    map (\<lambda>x. \<lparr>gd_client = c x, gd_metadata = obj_of (kvs x), gd_runs = None\<rparr>) xs"
proof -
  let ?f = "\<lambda>x. c x @ '':'' @ pairs_text (kvs x)"
  have f: "?f x \<noteq> []" "CHR '';'' \<notin> set (?f x)"
      "parse_segment (?f x) = \<lparr>gd_client = c x, gd_metadata = obj_of (kvs x), gd_runs = None\<rparr>" if "x \<in> set xs" for x
    using assms that parse_pairs_segment [of "c x" "kvs x"] by auto
  have "nonempty (split_on CHR '';'' (join '';'' (map ?f xs))) = map ?f xs"
    by (rule nonempty_split_join) (use f in \<open>auto simp: list_all_iff\<close>)
  moreover have "map parse_segment (map ?f xs) = map (\<lambda>x. \<lparr>gd_client = c x, gd_metadata = obj_of (kvs x), gd_runs = None\<rparr>) xs"
    using f(3) by simp
  moreover have "join '';'' (map ?f xs) = [] \<longleftrightarrow> xs = []" using f by (subst join_Nil_iff) auto
  ultimately show ?thesis by (auto simp: parseGroupsParam_def)
qed

lemma map_of_obj_of: "distinct (map fst kvs) \<Longrightarrow> map_of (obj_of kvs) = map_of kvs"
proof -
  have "map_of (fold (\<lambda>(k, v). obj_set k v) kvs ob) = map_of ob ++ map_of (rev kvs)" for ob
    by (rule jo.get_puts)
  then show "distinct (map fst kvs) \<Longrightarrow> map_of (obj_of kvs) = map_of kvs"
    by (simp add: obj_of_def map_of_rev_distinct)
qed

lemma set_obj_of: "distinct (map fst kvs) \<Longrightarrow> set (obj_of kvs) = set kvs"
  using map_of_obj_of [of kvs] canonical_obj_of [of kvs]
  by (metis canonical_def map_of_eq_Some_iff pred_equals_eq2 subrelI subset_antisym)

text \<open>The run has a label for each key of the grouping.\<close>

definition labelled :: "string list \<Rightarrow> index_entry \<Rightarrow> bool" where
  "labelled keys e \<longleftrightarrow> (\<forall>k \<in> set keys. label_value e k \<noteq> None)"

definition meta_keys :: "string list \<Rightarrow> string list" where
  "meta_keys keys = filter (\<lambda>k. k \<noteq> ''instance_id'') keys"

definition values_at :: "string list \<Rightarrow> index_entry \<Rightarrow> (string \<times> string) list" where
  "values_at keys e = map (\<lambda>k. (k, label_or_none e k)) (meta_keys keys)"

lemma values_plain:
  assumes "plain_entry e" "labelled (meta_keys keys) e"
  shows "list_all plain_label (values_at keys e)"
proof -
  have "plain_label (k, label_or_none e k)" if "k \<in> set (meta_keys keys)" for k
  proof -
    have "label_value e k \<noteq> None" using assms(2) that by (simp add: labelled_def)
    then obtain v where v: "label_value e k = Some v" by blast
    then have "(k, v) \<in> set (labels_of e)"
      by (auto simp: label_value_def labels_of_def bind_eq_Some_conv map_of_SomeD)
    then show ?thesis using assms(1) v by (auto simp: plain_entry_def list_all_iff label_or_none_def)
  qed
  then show ?thesis by (auto simp: values_at_def list_all_iff)
qed

text \<open>A group with the values of a run matches exactly the runs with the same values.\<close>

lemma group_of_values:
  assumes "distinct keys" "labelled (meta_keys keys) e"
  shows "group_matches h \<lparr>gd_client = c, gd_metadata = obj_of (values_at keys e), gd_runs = None\<rparr> e' \<longleftrightarrow>
    ie_suite_hash e' = Some h \<and> client_of e' = c \<and>
    (\<forall>k \<in> set (meta_keys keys). label_value e' k = label_value e k)"
proof -
  have "distinct (map fst (values_at keys e))" using assms(1) by (simp add: values_at_def meta_keys_def comp_def)
  then have "set (obj_of (values_at keys e)) = (\<lambda>k. (k, label_or_none e k)) ` set (meta_keys keys)"
    using set_obj_of [of "values_at keys e"] by (simp add: values_at_def)
  moreover have "Some (label_or_none e k) = label_value e k" if "k \<in> set (meta_keys keys)" for k
    using assms(2) that by (auto simp: labelled_def label_or_none_def)
  ultimately show ?thesis by (auto simp: group_matches_def list_all_iff client_of_def)
qed

lemma values_at_eq:
  assumes "labelled (meta_keys keys) e" "labelled (meta_keys keys) e'"
  shows "values_at keys e = values_at keys e' \<longleftrightarrow> (\<forall>k \<in> set (meta_keys keys). label_value e' k = label_value e k)"
  using assms by (fastforce simp: values_at_def labelled_def label_or_none_def)

lemma obj_of_values_inj:
  assumes "distinct keys" "obj_of (values_at keys e) = obj_of (values_at keys e')"
  shows "values_at keys e = values_at keys e'"
proof -
  have "set (obj_of (values_at keys r)) = set (values_at keys r)" for r
    using assms(1) by (intro set_obj_of) (simp add: values_at_def meta_keys_def comp_def)
  then have "set (values_at keys e) = set (values_at keys e')" using assms(2) by metis
  then show ?thesis by (auto simp: values_at_def)
qed

lemma pairs_text_inj:
  assumes "distinct keys" "list_all plain_label (values_at keys e)" "list_all plain_label (values_at keys e')"
  shows "pairs_text (values_at keys e) = pairs_text (values_at keys e') \<longleftrightarrow> values_at keys e = values_at keys e'"
proof
  assume same: "pairs_text (values_at keys e) = pairs_text (values_at keys e')"
  have free: "free_of '';|:'' []" by (simp add: free_of_def)
  have "obj_of (values_at keys e) = obj_of (values_at keys e')"
    using parse_pairs_segment(1) [OF free assms(2)] parse_pairs_segment(1) [OF free assms(3)] same by simp
  then show "values_at keys e = values_at keys e'" by (rule obj_of_values_inj [OF assms(1)])
qed simp

definition values_group :: "string \<Rightarrow> string list \<Rightarrow> index_entry \<Rightarrow> GroupDef" where
  "values_group c keys e = \<lparr>gd_client = c, gd_metadata = obj_of (values_at keys e), gd_runs = None\<rparr>"

lemma distinct_mapD: "distinct (map f xs) \<Longrightarrow> distinct xs"
  by (simp add: distinct_map)

text \<open>The groups of the link: one for a representative of each combination of values.\<close>

lemma client_link_groups:
  assumes "distinct keys" "free_of '';|:'' c"
    and "\<forall>e \<in> set runs. client_of e = c \<longrightarrow> plain_entry e \<and> labelled (meta_keys keys) e"
  shows "\<exists>reps. groups_of (open_groups (getGroupCompareClientAcrossGroupsHref h keys runs c)) = map (values_group c keys) reps \<and>
    set reps \<subseteq> {e \<in> set runs. client_of e = c} \<and> distinct (map (values_at keys) reps) \<and>
    values_at keys ` {e \<in> set runs. client_of e = c} = values_at keys ` set reps"
proof -
  define es where "es = filter (\<lambda>r. client_of r = c) runs"
  define fs where "fs = sort (js_set_of (map (\<lambda>r. pairs_text (values_at keys r)) es))"
  have plain: "list_all plain_label (values_at keys e)" if "e \<in> set es" for e
    using assms(3) that values_plain by (auto simp: es_def)
  have fs: "set fs = (\<lambda>r. pairs_text (values_at keys r)) ` set es" "distinct fs" by (simp_all add: fs_def)
  then have "\<forall>f \<in> set fs. \<exists>r. r \<in> set es \<and> pairs_text (values_at keys r) = f" by auto
  then obtain w where w: "\<And>f. f \<in> set fs \<Longrightarrow> w f \<in> set es \<and> pairs_text (values_at keys (w f)) = f" by metis
  have texts: "map (\<lambda>r. pairs_text (values_at keys r)) (map w fs) = fs" using w by (simp add: map_idI)
  have "client_filters keys runs c = js_set_of (map (\<lambda>r. pairs_text (values_at keys r)) es)"
    by (simp add: client_filters_def es_def values_at_def meta_keys_def Let_def)
  then have "getGroupCompareClientAcrossGroupsHref h keys runs c =
      groups_href h (join '';'' (map (\<lambda>r. c @ '':'' @ pairs_text (values_at keys r)) (map w fs)))"
    using w by (simp add: getGroupCompareClientAcrossGroupsHref_def fs_def [symmetric] comp_def cong: map_cong)
  then have "groups_of (open_groups (getGroupCompareClientAcrossGroupsHref h keys runs c)) = map (values_group c keys) (map w fs)"
    unfolding values_group_def [abs_def]
    by (simp only: groups_href_read) (rule parse_link_groups, use assms(2) w plain in auto)
  moreover have "distinct (map (values_at keys) (map w fs))"
  proof (rule distinct_mapD)
    show "distinct (map pairs_text (map (values_at keys) (map w fs)))" using texts fs(2) by (simp add: comp_def)
  qed
  moreover have "values_at keys e \<in> values_at keys ` set (map w fs)" if "e \<in> set es" for e
  proof -
    have f: "pairs_text (values_at keys e) \<in> set fs" using that fs(1) by simp
    then have "values_at keys (w (pairs_text (values_at keys e))) = values_at keys e"
      using w [OF f] pairs_text_inj [OF assms(1) plain plain [OF that]] by blast
    then show ?thesis using f by (metis image_eqI image_set)
  qed
  ultimately show ?thesis using w by (intro exI [of _ "map w fs"]) (auto simp: es_def)
qed

lemma group_of_values_eq:
  assumes "distinct keys" "labelled (meta_keys keys) r" "labelled (meta_keys keys) e"
    and "ie_suite_hash e = Some h" "client_of e = c"
  shows "group_matches h (values_group c keys r) e \<longleftrightarrow> values_at keys e = values_at keys r"
  using group_of_values [OF assms(1,2), of h c e] values_at_eq [OF assms(2,3)] assms(4,5)
  by (auto simp: values_group_def)

text \<open>The links to averaged groups of one client. The group comparison opened by the link has one group
  for each combination of values the client's runs have under the keys of the grouping: no two groups are the
  same, and every indexed run of the client in the suite is averaged in exactly one group, together with
  the runs that have the same values. It is assumed that the runs have all labels of the grouping and that no separator occurs
  in clients and labels.\<close>

theorem client_groups_partition:
  assumes "plain_index (Some i)" "h \<noteq> []" "runs = suiteRunsAll (Some i) live h" "distinct keys"
    and "\<forall>e \<in> set runs. plain_entry e \<and> (client_of e = c \<longrightarrow> labelled (meta_keys keys) e)"
    and "q = open_groups (getGroupCompareClientAcrossGroupsHref h keys runs c)"
    and "e \<in> set (ix_entries i)" "ie_suite_hash e = Some h" "client_of e = c"
  shows "distinct (groups_of q) \<and>
    (\<exists>!g. g < length (groups_of q) \<and> e \<in> set (groupMatchedEntries (Some i) q ! g)) \<and>
    (\<forall>g < length (groups_of q). e \<in> set (groupMatchedEntries (Some i) q ! g) \<longrightarrow>
       set (groupMatchedEntries (Some i) q ! g) = {e' \<in> set (ix_entries i). ie_suite_hash e' = Some h \<and>
         client_of e' = c \<and> (\<forall>k \<in> set (meta_keys keys). label_value e' k = label_value e k)})"
proof -
  have indexed: "e' \<in> set runs" if "e' \<in> set (ix_entries i)" "ie_suite_hash e' = Some h" for e'
    using that by (auto simp: assms(3) suiteRunsAll_def Let_def split: option.splits)
  have lab: "labelled (meta_keys keys) e'" if "e' \<in> set runs" "client_of e' = c" for e' using assms(5) that by blast
  have c: "free_of '';|:'' c"
    using assms(5) indexed [OF assms(7,8)] assms(9) by (auto simp: plain_entry_def client_of_def)
  obtain reps where groups: "groups_of q = map (values_group c keys) reps"
    and reps: "set reps \<subseteq> {e \<in> set runs. client_of e = c}" "distinct (map (values_at keys) reps)"
      "values_at keys ` {e \<in> set runs. client_of e = c} = values_at keys ` set reps"
    using client_link_groups [OF assms(4) c, of runs h] assms(5,6) by blast
  have suite: "suite_of q = h" by (simp add: assms(6) getGroupCompareClientAcrossGroupsHref_def groups_href_read)
  have matched: "set (groupMatchedEntries (Some i) q ! g) = {e' \<in> set (ix_entries i). group_matches h (values_group c keys (reps ! g)) e'}"
    if "g < length reps" for g
    using that assms(2) by (auto simp: groupMatchedEntries_def suite groups)
  have mine: "e \<in> set (groupMatchedEntries (Some i) q ! g) \<longleftrightarrow> values_at keys e = values_at keys (reps ! g)"
    if "g < length reps" for g
  proof -
    have "labelled (meta_keys keys) (reps ! g)" using reps(1) lab nth_mem [OF that] by blast
    from group_of_values_eq [OF assms(4) this lab [OF indexed [OF assms(7,8)] assms(9)] assms(8,9)]
    show ?thesis using matched [OF that] assms(7) by blast
  qed
  have "values_at keys e \<in> values_at keys ` set reps" using reps(3) indexed [OF assms(7,8)] assms(9) by blast
  then obtain g where g: "g < length reps" "values_at keys e = values_at keys (reps ! g)"
    by (metis (no_types, lifting) image_iff in_set_conv_nth)
  have unique: "g' = g" if "g' < length reps" "values_at keys e = values_at keys (reps ! g')" for g'
    using nth_eq_iff_index_eq [OF reps(2), of g' g] that g by simp
  have lg: "labelled (meta_keys keys) (reps ! g)" "labelled (meta_keys keys) e"
    using reps(1) lab nth_mem [OF g(1)] indexed [OF assms(7,8)] assms(9) by blast+
  have "\<forall>k \<in> set (meta_keys keys). label_value (reps ! g) k = label_value e k"
    using values_at_eq [OF lg(2,1)] g(2) by simp
  then have peers: "group_matches h (values_group c keys (reps ! g)) e' \<longleftrightarrow> ie_suite_hash e' = Some h \<and>
      client_of e' = c \<and> (\<forall>k \<in> set (meta_keys keys). label_value e' k = label_value e k)" for e'
    using group_of_values [OF assms(4) lg(1), of h c e'] by (auto simp: values_group_def)
  have "inj_on (values_group c keys) (set reps)"
    using reps(2) obj_of_values_inj [OF assms(4)] by (auto simp: inj_on_def values_group_def distinct_map)
  then have "distinct (groups_of q)" using reps(2) by (simp add: groups distinct_map)
  moreover have here: "e \<in> set (groupMatchedEntries (Some i) q ! g') \<longleftrightarrow> g' = g" if "g' < length (groups_of q)" for g'
  proof -
    have g': "g' < length reps" using that by (simp add: groups)
    show ?thesis unfolding mine [OF g'] using unique [OF g'] g(2) by blast
  qed
  moreover from g(1) have gl: "g < length (groups_of q)" by (simp add: groups)
  moreover have "\<exists>!g. g < length (groups_of q) \<and> e \<in> set (groupMatchedEntries (Some i) q ! g)"
    by (rule ex1I [of _ g]) (use here gl in blast)+
  moreover have "set (groupMatchedEntries (Some i) q ! g) = {e' \<in> set (ix_entries i). ie_suite_hash e' = Some h \<and>
         client_of e' = c \<and> (\<forall>k \<in> set (meta_keys keys). label_value e' k = label_value e k)}" (is "?l = ?r")
    unfolding matched [OF g(1)] peers ..
  then have "\<forall>g < length (groups_of q). e \<in> set (groupMatchedEntries (Some i) q ! g) \<longrightarrow>
       set (groupMatchedEntries (Some i) q ! g) = ?r" using here by simp
  ultimately show ?thesis by (intro conjI)
qed

text \<open>The link of the toolbar opens one group per client, of all its runs.\<close>

lemma toolbar_groups:
  assumes "\<forall>c \<in> set clients. free_of '';|:'' c" "groupCompareUrl h clients = Some href"
  shows "suite_of (open_groups href) = h \<and>
    groups_of (open_groups href) = map (\<lambda>c. \<lparr>gd_client = c, gd_metadata = [], gd_runs = None\<rparr>) clients"
proof -
  have href: "href = groups_href h (join '';'' (map (\<lambda>c. c @ '':'') clients))"
    using assms(2) by (simp add: groupCompareUrl_def split: if_splits)
  have "parseGroupsParam (Some (join '';'' (map (\<lambda>c. c @ '':'') clients))) =
      map (\<lambda>c. \<lparr>gd_client = c, gd_metadata = [], gd_runs = None\<rparr>) clients"
    using parse_link_groups [of clients "\<lambda>c. c" "\<lambda>_. []"] assms(1) by (simp add: pairs_text_def obj_of_def)
  then show ?thesis by (simp add: href groups_href_read)
qed

text \<open>A live run is listed only while the index does not have it.\<close>

lemma suite_runs_distinct:
  assumes "distinct (map ie_run_id (ix_entries i))" "distinct (map lr_run_id lrs)"
  shows "distinct (map ie_run_id (suiteRunsAll (Some i) (Some lrs) h)) \<and>
    set (suiteRunsAll (Some i) (Some lrs) h) \<subseteq> {e. ie_suite_hash e = Some h}"
proof -
  let ?indexed = "filter (\<lambda>e. ie_suite_hash e = Some h) (ix_entries i)"
  let ?live = "filter (\<lambda>lr. lr_suite_hash lr = Some h \<and> lr_run_id lr \<notin> ie_run_id ` set ?indexed) lrs"
  have runs: "suiteRunsAll (Some i) (Some lrs) h = map live_entry ?live @ ?indexed"
    by (auto simp: suiteRunsAll_def Let_def)
  have "distinct (map ie_run_id ?indexed)" using assms(1) by (simp add: distinct_map inj_on_def)
  moreover have "map ie_run_id (map live_entry ?live) = map lr_run_id ?live" by (simp add: live_entry_def)
  moreover have "distinct (map lr_run_id ?live)" using assms(2) by (simp add: distinct_map inj_on_def)
  ultimately have "distinct (map ie_run_id (map live_entry ?live @ ?indexed))" by (auto simp del: map_map)
  then show ?thesis unfolding runs by (auto simp: live_entry_def)
qed

section \<open>Witnesses and examples\<close>

definition labelled_entry :: "string \<Rightarrow> string \<Rightarrow> string \<Rightarrow> index_entry" where
  "labelled_entry rid client os = (example_entry rid client 5)\<lparr>ie_metadata := Some [(''os'', os)]\<rparr>"

definition suite_index :: index where
  "suite_index = \<lparr>ix_generated = 1, ix_entries =
     [labelled_entry ''r1'' ''geth'' ''linux'', labelled_entry ''r2'' ''geth'' ''mac'', example_entry ''r3'' ''reth'' 5]\<rparr>"

lemma suite_index_keys: "groupByLabelKeys (ix_entries suite_index) = [''os'']"
  by code_simp

lemma suite_index_runs: "suiteRunsAll (Some suite_index) None ''s1'' = ix_entries suite_index"
  by (simp add: suiteRunsAll_def suite_index_def labelled_entry_def example_entry_def)

theorem latest_links_open_witness:
  "link_shows (latestCompareUrl (ix_entries suite_index)) all_passed client_of (ix_entries suite_index)"
proof -
  have "\<forall>e \<in> set (ix_entries suite_index). plain_id (ie_run_id e)"
    by (auto simp: suite_index_def labelled_entry_def example_entry_def plain_id_def trim_id is_space_def)
  then show ?thesis using latest_links_open by blast
qed

theorem group_by_follows_clicks_witness:
  "set (parseGroupByKeys (run (group_step [''os'']) None [GroupKey ''os'', GroupKey ''instance_id'']) [''os'']) = {''instance_id''}"
  using group_by_follows_clicks [of "ix_entries suite_index" "[GroupKey ''os'', GroupKey ''instance_id'']", unfolded suite_index_keys]
  by (simp add: plain_key_def trim_id is_space_def group_offered_def)

theorem chart_runs_reference_witness:
  "map ie_run_id (chartRuns [''geth''] [] (chartRunsBase True (completedRuns (applyGrouping [''os''] (ix_entries suite_index))))) =
   [''r1'', ''r2'']"
  using chart_runs_reference [of "ix_entries suite_index" _ True "[''os'']" "[''geth'']" "[]"]
  by (simp add: suite_index_def labelled_entry_def example_entry_def client_of_def isRunCompleted_def labels_allow_def)

theorem client_groups_partition_witness:
  "\<exists>!g. g < length (groups_of (open_groups (getGroupCompareClientAcrossGroupsHref ''s1'' [''os''] (ix_entries suite_index) ''geth''))) \<and>
     labelled_entry ''r1'' ''geth'' ''linux'' \<in> set (groupMatchedEntries (Some suite_index)
       (open_groups (getGroupCompareClientAcrossGroupsHref ''s1'' [''os''] (ix_entries suite_index) ''geth'')) ! g)"
proof -
  have plain: "plain_entry (labelled_entry ''r1'' ''geth'' ''linux'')" "plain_entry (labelled_entry ''r2'' ''geth'' ''mac'')"
      "plain_entry (example_entry ''r3'' ''reth'' 5)"
    by (simp_all add: plain_entry_def labelled_entry_def example_entry_def free_of_def labels_of_def plain_label_def)
  then have "plain_index (Some suite_index)" by (simp add: plain_index_def suite_index_def)
  moreover have "\<forall>e \<in> set (ix_entries suite_index). plain_entry e \<and> (client_of e = ''geth'' \<longrightarrow> labelled (meta_keys [''os'']) e)"
    using plain by (auto simp: suite_index_def labelled_def meta_keys_def label_value_def labelled_entry_def
        client_of_def example_entry_def)
  moreover have "labelled_entry ''r1'' ''geth'' ''linux'' \<in> set (ix_entries suite_index)"
      "ie_suite_hash (labelled_entry ''r1'' ''geth'' ''linux'') = Some ''s1''"
      "client_of (labelled_entry ''r1'' ''geth'' ''linux'') = ''geth''"
    by (simp_all add: suite_index_def labelled_entry_def example_entry_def client_of_def)
  ultimately show ?thesis
    using client_groups_partition [OF _ _ suite_index_runs [symmetric] _ _ refl, of "[''os'']" "''geth''"] by simp
qed

text \<open>A run without the label is shown under the value \<open>(none)\<close>, but the group of the link for it asks for a
  label with this value, so it matches no run.\<close>

lemma unlabelled_group_empty:
  "groups_of (open_groups (getGroupCompareClientAcrossGroupsHref ''s1'' [''os''] (ix_entries suite_index) ''reth'')) =
     [\<lparr>gd_client = ''reth'', gd_metadata = [(''os'', ''(none)'')], gd_runs = None\<rparr>]"
  "groupMatchedEntries (Some suite_index)
     (open_groups (getGroupCompareClientAcrossGroupsHref ''s1'' [''os''] (ix_entries suite_index) ''reth'')) = [[]]"
  by code_simp+

text \<open>The toolbar's link to the latest run of each client works on the renamed clients: while the page groups
  by labels, which is the default, it shows one client several times.\<close>

lemma latest_link_repeats_client:
  "map client_of (ix_entries suite_index) = [''geth'', ''geth'', ''reth'']"
  "map ie_run_id (recentSuccessfulPerClient (completedRuns (applyGrouping (groupByLabelKeys (ix_entries suite_index))
     (ix_entries suite_index)))) = [''r1'', ''r2'', ''r3'']"
  by code_simp+

end
