(* ===== verification/Suite_Heatmap.thy ===== *)
theory Suite_Heatmap
  imports Suite_Runs Color_Scale
begin

text \<open>
  The heat map of recent runs on the suite page (\<open>components/suite-detail/RunsHeatmap.tsx\<close>): sections by
  the grouping keys, one row per client with its statistics and scales, the colour of a tile and a click on
  it, and what the link of a section opens on the group comparison page.
\<close>

section \<open>Rows\<close>

definition MAX_RUNS_PER_CLIENT :: nat where
  "MAX_RUNS_PER_CLIENT = 30"

definition calculateDuration :: "real \<Rightarrow> real option" where
  "calculateDuration duration = (if duration \<le> 0 then None else Some duration)"

record ClientStats =
  ct_min :: "real option"
  ct_max :: "real option"
  ct_mean :: "real option"
  ct_p95 :: "real option"
  ct_p99 :: "real option"
  ct_last :: "real option"

definition client_stats :: "real list \<Rightarrow> ClientStats" where
  "client_stats values =
     (if values \<noteq> []
      then let sorted = num_sort values
           in \<lparr>ct_min = Some (sorted ! 0), ct_max = Some (sorted ! (length sorted - 1)),
               ct_mean = Some (sum_list values / real (length values)),
               ct_p95 = calculatePercentile sorted 95, ct_p99 = calculatePercentile sorted 99,
               ct_last = Some (values ! 0)\<rparr>
      else \<lparr>ct_min = None, ct_max = None, ct_mean = None, ct_p95 = None, ct_p99 = None, ct_last = None\<rparr>)"

definition duration_value :: "step_type list \<Rightarrow> index_entry \<Rightarrow> real option" where
  "duration_value fs e = calculateDuration (ia_duration (getIndexAggregatedStats e fs))"

definition mgas_value :: "step_type list \<Rightarrow> index_entry \<Rightarrow> real option" where
  "mgas_value fs e =
     (let stats = getIndexAggregatedStats e fs
      in calculateMGasPerSec (ia_gasUsed stats) (ia_gasUsedDuration stats))"

text \<open>The five objects keyed by the client (\<open>clientRuns\<close>, the two statistics, the two scales) as one object of
  rows.\<close>

record heat_row =
  hr_runs :: "index_entry list"
  hr_durationStats :: ClientStats
  hr_mgasStats :: ClientStats
  hr_durationScale :: ColorScale
  hr_mgasScale :: ColorScale

definition client_row :: "step_type list \<Rightarrow> index_entry list \<Rightarrow> heat_row" where
  "client_row fs clientRunsAll =
     (let shown = take MAX_RUNS_PER_CLIENT (newest_first clientRunsAll);
          durations = List.map_filter (duration_value fs) shown;
          mgasValues = List.map_filter (mgas_value fs) shown
      in \<lparr>hr_runs = shown, hr_durationStats = client_stats durations, hr_mgasStats = client_stats mgasValues,
          hr_durationScale = createColorScale durations False, hr_mgasScale = createColorScale mgasValues True\<rparr>)"

definition bucket :: "('a \<Rightarrow> 'k) \<Rightarrow> 'a list \<Rightarrow> ('k, 'a list) js_map" where
  "bucket key xs =
     fold (\<lambda>x m. map_set (key x) ((case map_of m (key x) of None \<Rightarrow> [] | Some ys \<Rightarrow> ys) @ [x]) m) xs []"

definition heat_rows :: "step_type list \<Rightarrow> index_entry list \<Rightarrow> (string, heat_row) js_map" where
  "heat_rows fs runs = map (\<lambda>(c, es). (c, client_row fs es)) (bucket client_of runs)"

definition row_clients :: "(string, heat_row) js_map \<Rightarrow> string list" where
  "row_clients rows = sort (map fst rows)"

definition suiteDurationScale :: "step_type list \<Rightarrow> (string, heat_row) js_map \<Rightarrow> ColorScale" where
  "suiteDurationScale fs rows =
     createColorScale (concat (map (\<lambda>(c, row). List.map_filter (duration_value fs) (hr_runs row)) rows)) False"

definition suiteMgasScale :: "step_type list \<Rightarrow> (string, heat_row) js_map \<Rightarrow> ColorScale" where
  "suiteMgasScale fs rows =
     createColorScale (concat (map (\<lambda>(c, row). List.map_filter (mgas_value fs) (hr_runs row)) rows)) True"

section \<open>Sections\<close>

definition runGroup :: "index_entry \<Rightarrow> string list \<Rightarrow> string \<times> string js_object" where
  "runGroup e keys =
     (join '', '' (map (\<lambda>key. key @ ''='' @ groupValueForRun e key) keys),
      fold (\<lambda>key metadata. if key \<noteq> ''instance_id'' then obj_set key (groupValueForRun e key) metadata else metadata)
        keys [])"

record GroupSection =
  gn_label :: string
  gn_metadata :: "string js_object"
  gn_rows :: "(string, heat_row) js_map"

definition gn_clients :: "GroupSection \<Rightarrow> string list" where
  "gn_clients s = row_clients (gn_rows s)"

definition group_meta :: "string list \<Rightarrow> index_entry list \<Rightarrow> (string, string js_object) js_map" where
  "group_meta keys runs =
     fold (\<lambda>e m. let (label, metadata) = runGroup e keys
                 in if label \<in> set (map fst m) then m else map_set label metadata m) runs []"

definition groupSections :: "(string \<Rightarrow> string \<Rightarrow> jsnum) \<Rightarrow> string list \<Rightarrow> step_type list \<Rightarrow> index_entry list \<Rightarrow>
    GroupSection list option" where
  "groupSections lc keys fs runs =
     (if keys = [] then None
      else Some (map (\<lambda>(label, es).
             \<lparr>gn_label = label,
              gn_metadata = (case map_of (group_meta keys runs) label of None \<Rightarrow> [] | Some md \<Rightarrow> md),
              gn_rows = heat_rows fs es\<rparr>)
             (js_sort (\<lambda>a b. lc (fst a) (fst b)) (bucket (\<lambda>e. fst (runGroup e keys)) runs))))"

text \<open>Without grouping there is one section, without label.\<close>

definition shown_sections :: "(string \<Rightarrow> string \<Rightarrow> jsnum) \<Rightarrow> string list \<Rightarrow> step_type list \<Rightarrow> index_entry list \<Rightarrow>
    GroupSection list" where
  "shown_sections lc keys fs runs =
     (case groupSections lc keys fs runs of
        None \<Rightarrow> [\<lparr>gn_label = [], gn_metadata = [], gn_rows = heat_rows fs runs\<rparr>]
      | Some ss \<Rightarrow> ss)"

definition section_runs :: "GroupSection \<Rightarrow> index_entry list" where
  "section_runs s =
     concat (map (\<lambda>c. case map_of (gn_rows s) c of None \<Rightarrow> [] | Some row \<Rightarrow> hr_runs row) (gn_clients s))"

section \<open>Tiles\<close>

datatype MetricMode = MgasMode | DurationMode
datatype ColorNormalization = PerSuite | PerClient

definition getColorForRun :: "MetricMode \<Rightarrow> ColorNormalization \<Rightarrow> step_type list \<Rightarrow> (string, heat_row) js_map \<Rightarrow>
    (string, heat_row) js_map \<Rightarrow> index_entry \<Rightarrow> string" where
  "getColorForRun metricMode coloring fs suiteRows rows e =
     (case metricMode of
        MgasMode \<Rightarrow>
          (case mgas_value fs e of
             None \<Rightarrow> NEUTRAL_COLOR
           | Some mgas \<Rightarrow>
               if coloring = PerClient
               then (case map_of rows (client_of e) of None \<Rightarrow> NEUTRAL_COLOR | Some row \<Rightarrow> cs_color (hr_mgasScale row) mgas)
               else cs_color (suiteMgasScale fs suiteRows) mgas)
      | DurationMode \<Rightarrow>
          (let duration = ia_duration (getIndexAggregatedStats e fs)
           in if coloring = PerClient
              then (case map_of rows (client_of e) of None \<Rightarrow> NEUTRAL_COLOR
                    | Some row \<Rightarrow> cs_color (hr_durationScale row) duration)
              else cs_color (suiteDurationScale fs suiteRows) duration))"

definition tile_color :: "MetricMode \<Rightarrow> ColorNormalization \<Rightarrow> step_type list \<Rightarrow> (string, heat_row) js_map \<Rightarrow>
    (string, heat_row) js_map \<Rightarrow> index_entry \<Rightarrow> string" where
  "tile_color metricMode coloring fs suiteRows rows e =
     (if isRunLive e then ''#3b82f6''
      else if isRunCompleted e then getColorForRun metricMode coloring fs suiteRows rows e else ''#6b7280'')"

datatype tile_click = OpenRun string | SelectRun string bool

definition handleRunClick :: "bool \<Rightarrow> string js_set \<Rightarrow> index_entry \<Rightarrow> tile_click" where
  "handleRunClick selecting selectedRunIds e =
     (if selecting
      then (if isRunLive e then OpenRun (ie_run_id e)
            else SelectRun (ie_run_id e) (ie_run_id e \<notin> set selectedRunIds))
      else OpenRun (ie_run_id e))"

section \<open>Legend and formats\<close>

definition formatDurationMinSec :: "real \<Rightarrow> string" where
  "formatDurationMinSec nanoseconds =
     (let seconds = nanoseconds / 1000000000
      in if seconds < 60 then toFixed 1 seconds @ ''s''
         else int_str \<lfloor>seconds / 60\<rfloor> @ ''m '' @ int_str \<lfloor>seconds - 60 * of_int \<lfloor>seconds / 60\<rfloor>\<rfloor> @ ''s'')"

definition formatDurationCompact :: "real \<Rightarrow> string" where
  "formatDurationCompact nanoseconds =
     (let seconds = nanoseconds / 1000000000
      in if seconds < 60 then toFixed 0 seconds @ ''s''
         else int_str \<lfloor>seconds / 60\<rfloor> @ ''m'' @ int_str \<lfloor>seconds - 60 * of_int \<lfloor>seconds / 60\<rfloor>\<rfloor> @ ''s'')"

definition formatStatValue :: "MetricMode \<Rightarrow> real option \<Rightarrow> string" where
  "formatStatValue metricMode v =
     (case v of None \<Rightarrow> ''-''
      | Some x \<Rightarrow> if metricMode = MgasMode then toFixed 1 x else formatDurationCompact x)"

text \<open>An entry of the legend: the range of values when there are some, and the band.\<close>

datatype duration_range = UpTo string | MoreThan string | FromUpTo string string

definition legend_durations :: "ColorScale \<Rightarrow> nat \<Rightarrow> duration_range" where
  "legend_durations scale step =
     (let from = real step * cs_step scale; to = real (step + 1) * cs_step scale; top = cs_top scale
      in if step = 0 then UpTo (formatDurationCompact (top * (1 + to)))
         else if step = LEVELS - 1 then MoreThan (formatDurationCompact (top * (1 + from)))
         else FromUpTo (formatDurationCompact (top * (1 + from))) (formatDurationCompact (top * (1 + to))))"

definition legend_step_width :: "ColorNormalization \<Rightarrow> ColorScale \<Rightarrow> real" where
  "legend_step_width coloring scale = (if coloring = PerSuite \<and> cs_hasData scale then cs_step scale else MIN_DROP / real LEVELS)"
section \<open>Lemmas\<close>

lemma bucket_reference:
  "map_of (bucket key xs) k = (if k \<in> key ` set xs then Some (filter (\<lambda>x. key x = k) xs) else None)"
  "set (map fst (bucket key xs)) = key ` set xs" "distinct (map fst (bucket key xs))"
proof -
  have "map_of (bucket key xs) k = (if k \<in> key ` set xs then Some (filter (\<lambda>x. key x = k) xs) else None) \<and>
      set (map fst (bucket key xs)) = key ` set xs \<and> distinct (map fst (bucket key xs))"
  proof (induction xs arbitrary: k rule: rev_induct)
    case (snoc x xs)
    have step: "bucket key (xs @ [x]) = map_set (key x)
        ((case map_of (bucket key xs) (key x) of None \<Rightarrow> [] | Some ys \<Rightarrow> ys) @ [x]) (bucket key xs)"
      by (simp add: bucket_def)
    have none: "key x \<notin> key ` set xs \<Longrightarrow> filter (\<lambda>y. key y = key x) xs = []"
      by (metis (mono_tags, lifting) filter_False image_eqI)
    show ?case unfolding step using snoc none by (auto simp: jm.get_put distinct_map_set simp del: set_map)
  qed (simp add: bucket_def)
  then show "map_of (bucket key xs) k = (if k \<in> key ` set xs then Some (filter (\<lambda>x. key x = k) xs) else None)"
    "set (map fst (bucket key xs)) = key ` set xs" "distinct (map fst (bucket key xs))" by auto
qed

lemma heat_rows_reference:
  "map_of (heat_rows fs runs) c =
     (if c \<in> client_of ` set runs then Some (client_row fs (filter (\<lambda>e. client_of e = c) runs)) else None)"
  "set (row_clients (heat_rows fs runs)) = client_of ` set runs"
  "distinct (row_clients (heat_rows fs runs))" "sorted (row_clients (heat_rows fs runs))"
proof -
  have fst: "map fst (heat_rows fs runs) = map fst (bucket client_of runs)"
    by (simp add: heat_rows_def comp_def case_prod_unfold)
  have "map_of (heat_rows fs runs) c = map_option (client_row fs) (map_of (bucket client_of runs) c)"
    by (simp add: heat_rows_def map_of_map)
  then show "map_of (heat_rows fs runs) c =
     (if c \<in> client_of ` set runs then Some (client_row fs (filter (\<lambda>e. client_of e = c) runs)) else None)"
    by (simp add: bucket_reference(1))
  show "set (row_clients (heat_rows fs runs)) = client_of ` set runs"
    "distinct (row_clients (heat_rows fs runs))" "sorted (row_clients (heat_rows fs runs))"
    unfolding row_clients_def fst using bucket_reference(2,3) [of client_of runs] by simp_all
qed

lemma runGroup_label: "fst (runGroup e keys) = group_suffix keys e"
  by (simp add: runGroup_def group_suffix_def)




lemma sections_reference:
  assumes "comparator lc" "keys \<noteq> []" "ss = shown_sections lc keys fs runs"
  shows "distinct (map gn_label ss) \<and> set (map gn_label ss) = group_suffix keys ` set runs \<and>
    sorted_wrt (\<lambda>a b. \<not> is_pos (lc a b)) (map gn_label ss) \<and>
    (\<forall>s \<in> set ss. distinct (gn_clients s) \<and> sorted (gn_clients s) \<and>
       set (gn_clients s) = client_of ` {e \<in> set runs. group_suffix keys e = gn_label s} \<and>
       (\<forall>c \<in> set (gn_clients s). map_of (gn_rows s) c =
          Some (client_row fs (filter (\<lambda>e. client_of e = c \<and> group_suffix keys e = gn_label s) runs))))"
proof -
  let ?f = "\<lambda>e. fst (runGroup e keys)"
  define parts where "parts = js_sort (\<lambda>a b. lc (fst a) (fst b)) (bucket ?f runs)"
  define meta where "meta label = (case map_of (group_meta keys runs) label of None \<Rightarrow> [] | Some md \<Rightarrow> md)" for label
  have ss: "ss = map (\<lambda>(label, es). \<lparr>gn_label = label, gn_metadata = meta label, gn_rows = heat_rows fs es\<rparr>) parts"
    using assms(2,3) by (simp add: shown_sections_def groupSections_def parts_def meta_def [abs_def])
  then have labels: "map gn_label ss = map fst parts" by (simp add: comp_def case_prod_unfold)
  have keys: "distinct (map fst parts)" "set (map fst parts) = group_suffix keys ` set runs"
    using bucket_reference(2,3) [of ?f runs] mset_js_sort [of "\<lambda>a b. lc (fst a) (fst b)" "bucket ?f runs"]
    unfolding parts_def
    by (metis (no_types, lifting) mset_map mset_eq_imp_distinct_iff, simp add: runGroup_label)
  have sorted: "sorted_wrt (\<lambda>a b. \<not> is_pos (lc a b)) (map fst parts)"
    using comparator.sorted_js_sort [OF comparator.on_key [OF assms(1), of fst], of "bucket ?f runs"]
    by (simp add: parts_def sorted_wrt_map)
  have part: "es = filter (\<lambda>e. group_suffix keys e = l) runs" if "(l, es) \<in> set parts" for l es
  proof -
    have "map_of (bucket ?f runs) l = Some es"
      using that bucket_reference(3) [of ?f runs] by (simp add: parts_def)
    then show ?thesis by (simp add: bucket_reference(1) runGroup_label split: if_splits)
  qed
  have rows: "distinct (gn_clients s) \<and> sorted (gn_clients s) \<and>
       set (gn_clients s) = client_of ` {e \<in> set runs. group_suffix keys e = gn_label s} \<and>
       (\<forall>c \<in> set (gn_clients s). map_of (gn_rows s) c =
          Some (client_row fs (filter (\<lambda>e. client_of e = c \<and> group_suffix keys e = gn_label s) runs)))"
    if "s \<in> set ss" for s
  proof -
    obtain l es where s: "(l, es) \<in> set parts" "gn_label s = l" "gn_rows s = heat_rows fs es"
      using \<open>s \<in> set ss\<close> by (auto simp: ss)
    show ?thesis unfolding gn_clients_def s(2,3) part [OF s(1)]
      using heat_rows_reference [of fs "filter (\<lambda>e. group_suffix keys e = l) runs"] by (auto simp: conj_commute)
  qed
  show ?thesis using keys sorted rows unfolding labels by blast
qed


definition newest_of :: "nat \<Rightarrow> index_entry list \<Rightarrow> index_entry list \<Rightarrow> bool" where
  "newest_of n es shown \<longleftrightarrow>
     length shown = min n (length es) \<and> sorted_wrt (\<lambda>a b. ie_timestamp b \<le> ie_timestamp a) shown \<and>
     (\<exists>rest. mset es = mset shown + mset rest \<and> (\<forall>a \<in> set shown. \<forall>b \<in> set rest. ie_timestamp b \<le> ie_timestamp a))"

definition row_of_runs :: "step_type list \<Rightarrow> index_entry list \<Rightarrow> heat_row \<Rightarrow> bool" where
  "row_of_runs fs es row \<longleftrightarrow>
     newest_of 30 es (hr_runs row) \<and>
     hr_durationStats row = client_stats (List.map_filter (duration_value fs) (hr_runs row)) \<and>
     hr_mgasStats row = client_stats (List.map_filter (mgas_value fs) (hr_runs row)) \<and>
     hr_durationScale row = createColorScale (List.map_filter (duration_value fs) (hr_runs row)) False \<and>
     hr_mgasScale row = createColorScale (List.map_filter (mgas_value fs) (hr_runs row)) True"

lemma client_row_of_runs: "row_of_runs fs es (client_row fs es)"
proof -
  let ?t = "take 30 (newest_first es)" and ?d = "drop 30 (newest_first es)"
  have sorted: "sorted_wrt (\<lambda>a b. ie_timestamp b \<le> ie_timestamp a) (?t @ ?d)"
    by (simp add: newest_first_sorted)
  have "mset es = mset ?t + mset ?d"
    by (metis append_take_drop_id mset_append mset_js_sort newest_first_def)
  then have "newest_of 30 es ?t"
    using sorted unfolding newest_of_def sorted_wrt_append by (auto simp: newest_first_def)
  then show ?thesis by (simp add: row_of_runs_def client_row_def Let_def MAX_RUNS_PER_CLIENT_def)
qed

text \<open>C25: The sections of the heat map. Every run of the suite is in exactly one section, the one with its
  values of the grouping keys, and there in the row of its client; a row shows the newest thirty runs of
  its client in the section, newest first, with the statistics and the scales of these runs only. Sections
  are in the order of their labels, clients in alphabetical order, none of them twice, none empty.\<close>

theorem heatmap_sections_reference:
  assumes "comparator lc" "keys \<noteq> []" "ss = shown_sections lc keys fs runs"
  shows "distinct (map gn_label ss) \<and> set (map gn_label ss) = group_suffix keys ` set runs \<and>
    sorted_wrt (\<lambda>a b. \<not> is_pos (lc a b)) (map gn_label ss) \<and>
    (\<forall>s \<in> set ss. distinct (gn_clients s) \<and> sorted (gn_clients s) \<and>
       set (gn_clients s) = client_of ` {e \<in> set runs. group_suffix keys e = gn_label s} \<and>
       (\<forall>c \<in> set (gn_clients s). \<exists>row. map_of (gn_rows s) c = Some row \<and>
          row_of_runs fs (filter (\<lambda>e. client_of e = c \<and> group_suffix keys e = gn_label s) runs) row))"
  using sections_reference [OF assms] client_row_of_runs by fastforce

subsection \<open>What a section's link opens\<close>










subsection \<open>Statistics and tiles\<close>

lemma percentile_between:
  assumes "xs \<noteq> []"
  shows "num_sort xs ! 0 \<le> percentile (num_sort xs) 95" "percentile (num_sort xs) 95 \<le> percentile (num_sort xs) 99"
    "percentile (num_sort xs) 99 \<le> num_sort xs ! (length xs - 1)"
proof -
  have s: "sorted (num_sort xs)" "num_sort xs \<noteq> []" using assms by (simp add: num_sort_eq, simp)
  have ends: "hd (num_sort xs) = num_sort xs ! 0" "last (num_sort xs) = num_sort xs ! (length xs - 1)"
    using s(2) by (simp_all add: hd_conv_nth last_conv_nth)
  show "num_sort xs ! 0 \<le> percentile (num_sort xs) 95" "percentile (num_sort xs) 99 \<le> num_sort xs ! (length xs - 1)"
    unfolding ends [symmetric] using percentile_range [OF s(1,2)] by simp_all
  show "percentile (num_sort xs) 95 \<le> percentile (num_sort xs) 99" using percentile_mono [OF s(1)] s(2) by simp
qed

lemma client_stats_sound:
  assumes "values \<noteq> []" "st = client_stats values"
  shows "\<exists>mn mx me p95 p99. st = \<lparr>ct_min = Some mn, ct_max = Some mx, ct_mean = Some me, ct_p95 = Some p95,
      ct_p99 = Some p99, ct_last = Some (hd values)\<rparr> \<and>
    mn \<in> set values \<and> mx \<in> set values \<and> (\<forall>v \<in> set values. mn \<le> v \<and> v \<le> mx) \<and>
    mn \<le> me \<and> me \<le> mx \<and> mn \<le> p95 \<and> p95 \<le> p99 \<and> p99 \<le> mx"
proof -
  have ne: "num_sort values \<noteq> []" using assms(1) by simp
  have st: "st = \<lparr>ct_min = Some (num_sort values ! 0), ct_max = Some (num_sort values ! (length values - 1)),
      ct_mean = Some (sum_list values / real (length values)), ct_p95 = Some (percentile (num_sort values) 95),
      ct_p99 = Some (percentile (num_sort values) 99), ct_last = Some (hd values)\<rparr>"
    using assms by (simp add: client_stats_def Let_def calculatePercentile_eq [OF ne] hd_conv_nth)
  have between: "num_sort values ! 0 \<le> v \<and> v \<le> num_sort values ! (length values - 1)" if "v \<in> set values" for v
    using num_sort_between [of v "values"] that by simp
  have "num_sort values ! 0 \<in> set (num_sort values)" "num_sort values ! (length values - 1) \<in> set (num_sort values)"
    by (rule nth_mem, use assms(1) in simp)+
  then show ?thesis unfolding st using between mean_between [OF assms(1) between] percentile_between [OF assms(1)]
    by (intro exI conjI ballI) (rule refl | simp)+
qed

lemma no_client_stats: "client_stats [] =
    \<lparr>ct_min = None, ct_max = None, ct_mean = None, ct_p95 = None, ct_p99 = None, ct_last = None\<rparr>"
  by (simp add: client_stats_def)

lemma scale_monotone:
  assumes "at_least_as_good (if hib then Mgas else Duration) v w"
  shows "color_rank (cs_color (createColorScale values hib) v) \<le> color_rank (cs_color (createColorScale values hib) w)"
proof (cases "\<exists>v \<in> set values. 0 < v")
  case True
  note sc = scale_unfold [OF True, of hib]
  show ?thesis unfolding sc(1) using sc(2,3) assms
    by (auto intro!: shade_mono simp: shortfall_def at_least_as_good_def divide_right_mono split: if_splits)
next
  case False
  then have "filter (\<lambda>v. 0 < v) values = []" by (auto simp: filter_empty_conv)
  then have "createColorScale values hib = EMPTY_SCALE" by (simp add: createColorScale_def)
  then show ?thesis by (simp add: EMPTY_SCALE_def)
qed

lemma tile_rank:
  assumes "isRunCompleted a" "isRunCompleted b" "coloring = PerClient \<longrightarrow> client_of a = client_of b"
    and "rows = heat_rows fs runs"
  shows "mgas_value fs a = Some v \<Longrightarrow> mgas_value fs b = Some w \<Longrightarrow> w \<le> v \<Longrightarrow>
      color_rank (tile_color MgasMode coloring fs all rows a) \<le> color_rank (tile_color MgasMode coloring fs all rows b)"
    and "ia_duration (getIndexAggregatedStats a fs) \<le> ia_duration (getIndexAggregatedStats b fs) \<Longrightarrow>
      color_rank (tile_color DurationMode coloring fs all rows a) \<le> color_rank (tile_color DurationMode coloring fs all rows b)"
proof -
  have fin: "\<not> isRunLive a" "\<not> isRunLive b" using assms(1,2) by (auto simp: isRunCompleted_def isRunLive_def)
  have row: "\<exists>vs ws. hr_mgasScale r = createColorScale vs True \<and> hr_durationScale r = createColorScale ws False"
    if "map_of rows c = Some r" for c r
    using that by (auto simp: assms(4) heat_rows_reference(1) client_row_def Let_def split: if_splits)
  show "mgas_value fs a = Some v \<Longrightarrow> mgas_value fs b = Some w \<Longrightarrow> w \<le> v \<Longrightarrow>
      color_rank (tile_color MgasMode coloring fs all rows a) \<le> color_rank (tile_color MgasMode coloring fs all rows b)"
    using assms(1-3) fin scale_monotone [of True v w] row [of "client_of b"]
    by (auto simp: tile_color_def getColorForRun_def suiteMgasScale_def at_least_as_good_def split: option.splits)
  show "ia_duration (getIndexAggregatedStats a fs) \<le> ia_duration (getIndexAggregatedStats b fs) \<Longrightarrow>
      color_rank (tile_color DurationMode coloring fs all rows a) \<le> color_rank (tile_color DurationMode coloring fs all rows b)"
    using assms(1-3) fin row [of "client_of b"]
      scale_monotone [of False "ia_duration (getIndexAggregatedStats a fs)" "ia_duration (getIndexAggregatedStats b fs)"]
    by (auto simp: tile_color_def getColorForRun_def suiteDurationScale_def at_least_as_good_def Let_def split: option.splits)
qed

text \<open>The tiles of the heat map rank the runs. Of two finished runs (of the same client, when each client
  has its own scale), the one that is at least as good in the chosen metric never has a worse colour; a run
  that is still going on, one that was interrupted, and in the throughput metric one without throughput have
  colours of their own. The numbers beside a row are those of the runs it shows: every value lies between
  the smallest and the largest, and so do the mean and the two percentiles, in their order; the last is that
  of the newest run that has a value.\<close>

theorem heatmap_tiles_rank:
  assumes "isRunCompleted a" "isRunCompleted b" "coloring = PerClient \<longrightarrow> client_of a = client_of b"
    and "rows = heat_rows fs runs" "row = client_row fs es"
  shows "(\<forall>v w. mgas_value fs a = Some v \<and> mgas_value fs b = Some w \<and> w \<le> v \<longrightarrow>
      color_rank (tile_color MgasMode coloring fs all rows a) \<le> color_rank (tile_color MgasMode coloring fs all rows b)) \<and>
    (ia_duration (getIndexAggregatedStats a fs) \<le> ia_duration (getIndexAggregatedStats b fs) \<longrightarrow>
      color_rank (tile_color DurationMode coloring fs all rows a) \<le> color_rank (tile_color DurationMode coloring fs all rows b)) \<and>
    (mgas_value fs a = None \<longrightarrow> tile_color MgasMode coloring fs all rows a = NEUTRAL_COLOR) \<and>
    (\<forall>vs st. (vs, st) \<in> {(List.map_filter (mgas_value fs) (hr_runs row), hr_mgasStats row),
        (List.map_filter (duration_value fs) (hr_runs row), hr_durationStats row)} \<and> vs \<noteq> [] \<longrightarrow>
      (\<exists>mn mx me p95 p99. st = \<lparr>ct_min = Some mn, ct_max = Some mx, ct_mean = Some me, ct_p95 = Some p95,
          ct_p99 = Some p99, ct_last = Some (hd vs)\<rparr> \<and>
        mn \<in> set vs \<and> mx \<in> set vs \<and> (\<forall>v \<in> set vs. mn \<le> v \<and> v \<le> mx) \<and>
        mn \<le> me \<and> me \<le> mx \<and> mn \<le> p95 \<and> p95 \<le> p99 \<and> p99 \<le> mx))"
proof -
  have fin: "\<not> isRunLive a" using assms(1) by (auto simp: isRunCompleted_def isRunLive_def)
  have "hr_mgasStats row = client_stats (List.map_filter (mgas_value fs) (hr_runs row))"
    "hr_durationStats row = client_stats (List.map_filter (duration_value fs) (hr_runs row))"
    by (simp_all add: assms(5) client_row_def Let_def)
  then have stats: "st = client_stats vs" if "(vs, st) \<in> {(List.map_filter (mgas_value fs) (hr_runs row), hr_mgasStats row),
        (List.map_filter (duration_value fs) (hr_runs row), hr_durationStats row)}" for vs st
    using that by auto
  have "mgas_value fs a = None \<Longrightarrow> tile_color MgasMode coloring fs all rows a = NEUTRAL_COLOR"
    using fin assms(1) by (simp add: tile_color_def getColorForRun_def)
  then show ?thesis using tile_rank [OF assms(1-4)] client_stats_sound [OF _ stats] by blast
qed

section \<open>Witnesses and examples\<close>

text \<open>A comparison of texts, by their order.\<close>

definition text_cmp :: "string \<Rightarrow> string \<Rightarrow> jsnum" where
  "text_cmp a b = (if a = b then Fin 0 else if a < b then Fin (-1) else Fin 1)"

lemma text_cmp_comparator: "comparator text_cmp"
  by unfold_locales (auto simp: text_cmp_def split: if_splits)




definition labelled_index :: index where
  "labelled_index = \<lparr>ix_generated = 1, ix_entries =
     [labelled_entry ''r1'' ''geth'' ''linux'', labelled_entry ''r2'' ''geth'' ''mac'']\<rparr>"


theorem heatmap_sections_reference_witness:
  "set (map gn_label (shown_sections text_cmp [''os''] [Test] (ix_entries labelled_index))) = {''os=linux'', ''os=mac''}"
  using heatmap_sections_reference [OF text_cmp_comparator _ refl, of "[''os'']" "[Test]" "ix_entries labelled_index"]
  by (simp add: labelled_index_def group_suffix_def groupValueForRun_def label_value_def labelled_entry_def)



theorem heatmap_tiles_rank_witness:
  "color_rank (tile_color DurationMode PerSuite [Test] [] (heat_rows [Test] []) (example_entry ''r1'' ''geth'' 5)) \<le>
   color_rank (tile_color DurationMode PerSuite [Test] [] (heat_rows [Test] []) (example_entry ''r2'' ''reth'' 5))"
  using heatmap_tiles_rank [OF _ _ _ refl refl, of "example_entry ''r1'' ''geth'' 5" "example_entry ''r2'' ''reth'' 5"
      PerSuite "[Test]" "[]" "[]" "[]"]
  by (simp add: isRunCompleted_def example_entry_def getIndexAggregatedStats_def zero_agg_def)

text \<open>In the duration metric a finished run that reports no duration for the chosen steps is not kept apart as
  in the throughput metric: it takes the best colour.\<close>

lemma no_duration_tile_best:
  assumes "isRunCompleted e" "ia_duration (getIndexAggregatedStats e fs) = 0" "cs_hasData (suiteDurationScale fs all)"
  shows "tile_color DurationMode PerSuite fs all rows e = THRESHOLD_COLORS ! 0"
proof -
  define vs where "vs = concat (map (\<lambda>(c, row). List.map_filter (duration_value fs) (hr_runs row)) all)"
  have data: "cs_hasData (createColorScale vs False)" using assms(3) by (simp add: suiteDurationScale_def vs_def)
  have pos: "\<exists>v \<in> set vs. 0 < v"
  proof (rule ccontr)
    assume "\<not> (\<exists>v \<in> set vs. 0 < v)"
    then have "filter (\<lambda>v. 0 < v) vs = []" by (auto simp: filter_empty_conv)
    then show False using data by (simp add: createColorScale_def EMPTY_SCALE_def)
  qed
  note sc = scale_unfold [OF pos, of False]
  have "shortfall vs False 0 \<le> 0" using sc(2) by (simp add: shortfall_def)
  moreover have "\<not> isRunLive e" using assms(1) by (auto simp: isRunCompleted_def isRunLive_def)
  ultimately show ?thesis
    using assms(1,2) by (simp add: tile_color_def getColorForRun_def suiteDurationScale_def vs_def [symmetric] sc(1) shade_def)
qed

text \<open>A click on a tile selects runs that the table refuses to select: runs that wait for their deletion.\<close>

lemma tile_selects_pending:
  "handleRunClick True [] ((example_entry ''r1'' ''geth'' 5)\<lparr>ie_deletion_requested_at := Some 1\<rparr>) = SelectRun ''r1'' True"
  "\<not> isEntrySelectable ((example_entry ''r1'' ''geth'' 5)\<lparr>ie_deletion_requested_at := Some 1\<rparr>)"
  by (simp_all add: handleRunClick_def isRunLive_def example_entry_def isEntrySelectable_def isPendingDeletion_def)

end
