(* ===== verification/Suite_Page.thy ===== *)
theory Suite_Page
  imports Suite_Heatmap
begin

text \<open>
  The suite page (\<open>ui/src/pages/SuiteDetailPage.tsx\<close>): its address with every handler that writes it, its own
  state (modes, selection, page of runs, filters of the chart), the rows of its table, and the clicks that
  move it. The address is a record of optional parameters; a handler is a function of the address it
  reads, and a parameter it does not list is absent afterwards. The selection is shown to refine the one of
  the run list, and the filters in the address to implement a page that keeps them as fields.
\<close>

section \<open>The URL\<close>

datatype XAxisMode = RunCount | TimeAxis
datatype OpcodeSortMode = NameSort | CountSort
datatype TestView = General | PayloadSizes | PayloadSizesJson
datatype PsOrder = IndexOrder | SizeOrder
datatype PsEncoding = Ssz | Json

record suite_search =
  u_tab :: "string option"
  u_client :: "string option"
  u_image :: "string option"
  u_status :: "TestStatusFilter option"
  u_sortBy :: "SortColumn option"
  u_sortDir :: "SortDirection option"
  u_filesPage :: "int option"
  u_detail :: "int option"
  u_opcodeSort :: "OpcodeSortMode option"
  u_q :: "string option"
  u_chartMode :: "XAxisMode option"
  u_chartPassingOnly :: "string option"
  u_heatmapColor :: "ColorNormalization option"
  u_steps :: "string option"
  u_labels :: "string option"
  u_hn :: "string option"
  u_hq :: "string option"
  u_hr :: "string option"
  u_hFs :: "string option"
  u_hStat :: "string option"
  u_hCs :: "string option"
  u_hTh :: "string option"
  u_hRpc :: "string option"
  u_hPs :: "string option"
  u_groupBy :: "string option"
  u_testView :: "TestView option"
  u_psort :: "string option"
  u_psortDir :: "SortDirection option"
  u_psOrder :: "PsOrder option"
  u_psEncoding :: "PsEncoding option"

definition no_suite_params :: suite_search where
  "no_suite_params =
     \<lparr>u_tab = None, u_client = None, u_image = None, u_status = None, u_sortBy = None, u_sortDir = None,
      u_filesPage = None, u_detail = None, u_opcodeSort = None, u_q = None, u_chartMode = None,
      u_chartPassingOnly = None, u_heatmapColor = None, u_steps = None, u_labels = None, u_hn = None, u_hq = None,
      u_hr = None, u_hFs = None, u_hStat = None, u_hCs = None, u_hTh = None, u_hRpc = None, u_hPs = None,
      u_groupBy = None, u_testView = None, u_psort = None, u_psortDir = None, u_psOrder = None, u_psEncoding = None\<rparr>"

text \<open>The parameters with their defaults.\<close>

definition suite_status :: "suite_search \<Rightarrow> TestStatusFilter" where
  "suite_status u = or_else (u_status u) AllRuns"

definition suite_sortBy :: "suite_search \<Rightarrow> SortColumn" where
  "suite_sortBy u = or_else (u_sortBy u) ByTimestamp"

definition suite_sortDir :: "suite_search \<Rightarrow> SortDirection" where
  "suite_sortDir u = or_else (u_sortDir u) Descending"

definition chartMode :: "suite_search \<Rightarrow> XAxisMode" where
  "chartMode u = or_else (u_chartMode u) RunCount"

definition heatmapColor_param :: "suite_search \<Rightarrow> ColorNormalization" where
  "heatmapColor_param u = or_else (u_heatmapColor u) PerSuite"

definition chartPassingOnly :: "suite_search \<Rightarrow> bool" where
  "chartPassingOnly u \<longleftrightarrow> u_chartPassingOnly u \<noteq> Some ''false''"

definition suite_stepFilter :: "suite_search \<Rightarrow> step_type list" where
  "suite_stepFilter u = parseStepFilter (u_steps u)"

text \<open>A malformed parameter of labels throws while the page renders; the handlers then do not exist.\<close>

definition suite_labels :: "suite_search \<Rightarrow> LabelFilters" where
  "suite_labels u = (case parseLabelFilters (u_labels u) of Inl _ \<Rightarrow> [] | Inr f \<Rightarrow> f)"

definition renders :: "suite_search \<Rightarrow> bool" where
  "renders u \<longleftrightarrow> (case parseLabelFilters (u_labels u) of Inl _ \<Rightarrow> False | Inr _ \<Rightarrow> True)"

definition PAYLOAD_SORT_COLS :: "string list" where
  "PAYLOAD_SORT_COLS =
     [''index'', ''ssz_full'', ''ssz_bal'', ''ssz_bal_pct'', ''ssz_snappy'', ''ssz_snappy_pct'',
      ''json_full'', ''json_bal'', ''json_bal_pct'']"

definition isPayloadSortCol :: "string \<Rightarrow> bool" where
  "isPayloadSortCol s \<longleftrightarrow> s \<in> set PAYLOAD_SORT_COLS"

record PayloadSort =
  psc_col :: string
  psc_dir :: SortDirection

definition payloadSort :: "suite_search \<Rightarrow> PayloadSort option" where
  "payloadSort u =
     (case u_psort u of
        Some c \<Rightarrow>
          if c \<noteq> [] \<and> isPayloadSortCol c
          then Some \<lparr>psc_col = c, psc_dir = (if u_psortDir u = Some Ascending then Ascending else Descending)\<rparr>
          else None
      | None \<Rightarrow> None)"

definition psOrder :: "suite_search \<Rightarrow> PsOrder" where
  "psOrder u = (if u_psOrder u = Some SizeOrder then SizeOrder else IndexOrder)"

definition psEncoding :: "suite_search \<Rightarrow> PsEncoding" where
  "psEncoding u = (if u_psEncoding u = Some Json then Json else Ssz)"

text \<open>What the test heat map is given: a number is absent when its parameter is absent or empty.\<close>

definition number_param :: "string option \<Rightarrow> jsnum option" where
  "number_param p = (case p of Some (c # cs) \<Rightarrow> Some (js_Number (c # cs)) | _ \<Rightarrow> None)"

definition flag_param :: "string option \<Rightarrow> bool" where
  "flag_param p \<longleftrightarrow> p = Some ''1''"

definition stat_param :: "string option \<Rightarrow> string option" where
  "stat_param p = (case p of Some (c # cs) \<Rightarrow> Some (c # cs) | _ \<Rightarrow> None)"


section \<open>Handlers of the URL\<close>

text \<open>The parameters that most handlers write, before their own change.\<close>

definition run_params :: "suite_search \<Rightarrow> suite_search" where
  "run_params u =
     no_suite_params\<lparr>u_tab := u_tab u, u_client := u_client u, u_image := u_image u, u_status := Some (suite_status u),
       u_sortBy := Some (suite_sortBy u), u_sortDir := Some (suite_sortDir u), u_groupBy := u_groupBy u\<rparr>"

definition kept_params :: "suite_search \<Rightarrow> suite_search" where
  "kept_params u =
     (run_params u)\<lparr>u_steps := serializeStepFilter (suite_stepFilter u),
       u_labels := serializeLabelFilters (suite_labels u)\<rparr>"

definition suite_handleClientChange :: "string option \<Rightarrow> suite_search \<Rightarrow> suite_search" where
  "suite_handleClientChange c u = (kept_params u)\<lparr>u_client := c\<rparr>"

definition suite_handleImageChange :: "string option \<Rightarrow> suite_search \<Rightarrow> suite_search" where
  "suite_handleImageChange i u = (kept_params u)\<lparr>u_image := i\<rparr>"

definition suite_handleStatusChange :: "TestStatusFilter \<Rightarrow> suite_search \<Rightarrow> suite_search" where
  "suite_handleStatusChange st u = (kept_params u)\<lparr>u_status := Some st\<rparr>"

definition suite_handleLabelFiltersChange :: "LabelFilters \<Rightarrow> suite_search \<Rightarrow> suite_search" where
  "suite_handleLabelFiltersChange f u = (kept_params u)\<lparr>u_labels := serializeLabelFilters f\<rparr>"

definition suite_handleSortChange :: "SortColumn \<Rightarrow> SortDirection \<Rightarrow> suite_search \<Rightarrow> suite_search" where
  "suite_handleSortChange col dir u = (kept_params u)\<lparr>u_sortBy := Some col, u_sortDir := Some dir\<rparr>"

definition sourceTabIndex :: "bool \<Rightarrow> nat" where
  "sourceTabIndex hasPreRunSteps = (if hasPreRunSteps then 3 else 2)"

definition getTabIndex :: "bool \<Rightarrow> suite_search \<Rightarrow> nat" where
  "getTabIndex hasPreRunSteps u =
     (if u_tab u = Some ''tests'' then 1
      else if u_tab u = Some ''pre_run_steps'' \<and> hasPreRunSteps then 2
      else if u_tab u = Some ''source'' then sourceTabIndex hasPreRunSteps else 0)"

definition handleTabChange :: "bool \<Rightarrow> nat \<Rightarrow> suite_search \<Rightarrow> suite_search" where
  "handleTabChange hasPreRunSteps i u =
     (let newTab = (if i = 0 then ''runs'' else if i = 1 then ''tests''
                    else if i = sourceTabIndex hasPreRunSteps then ''source'' else ''pre_run_steps'')
      in (run_params u)\<lparr>u_tab := Some newTab\<rparr>)"

definition payload_params :: "suite_search \<Rightarrow> suite_search" where
  "payload_params u =
     (kept_params u)\<lparr>u_q := u_q u, u_testView := u_testView u, u_psort := u_psort u, u_psortDir := u_psortDir u,
       u_psOrder := u_psOrder u, u_psEncoding := u_psEncoding u\<rparr>"

definition test_params :: "suite_search \<Rightarrow> suite_search" where
  "test_params u =
     (payload_params u)\<lparr>u_filesPage := u_filesPage u, u_detail := u_detail u, u_opcodeSort := u_opcodeSort u\<rparr>"

definition handleFilesPageChange :: "int \<Rightarrow> suite_search \<Rightarrow> suite_search" where
  "handleFilesPageChange page u = (payload_params u)\<lparr>u_filesPage := Some page\<rparr>"

definition handleSearchChange :: "string option \<Rightarrow> suite_search \<Rightarrow> suite_search" where
  "handleSearchChange query u = u\<lparr>u_filesPage := Some 1, u_q := stat_param query\<rparr>"

definition handleDetailChange :: "int option \<Rightarrow> suite_search \<Rightarrow> suite_search" where
  "handleDetailChange i u = (test_params u)\<lparr>u_detail := i\<rparr>"

definition handleOpcodeSortChange :: "OpcodeSortMode \<Rightarrow> suite_search \<Rightarrow> suite_search" where
  "handleOpcodeSortChange m u = (test_params u)\<lparr>u_opcodeSort := (if m = NameSort then None else Some m)\<rparr>"

definition handleTestViewChange :: "TestView \<Rightarrow> suite_search \<Rightarrow> suite_search" where
  "handleTestViewChange m u = (test_params u)\<lparr>u_testView := (if m = General then None else Some m)\<rparr>"

definition handlePsOrderChange :: "PsOrder \<Rightarrow> suite_search \<Rightarrow> suite_search" where
  "handlePsOrderChange n u = (test_params u)\<lparr>u_psOrder := (if n = IndexOrder then None else Some n)\<rparr>"

definition handlePsEncodingChange :: "PsEncoding \<Rightarrow> suite_search \<Rightarrow> suite_search" where
  "handlePsEncodingChange n u = (test_params u)\<lparr>u_psEncoding := (if n = Ssz then None else Some n)\<rparr>"

definition handlePayloadSortChange :: "PayloadSort option \<Rightarrow> suite_search \<Rightarrow> suite_search" where
  "handlePayloadSortChange n u =
     (test_params u)\<lparr>u_psort := map_option psc_col n,
       u_psortDir := (case n of Some p \<Rightarrow> if psc_dir p = Ascending then Some Ascending else None | None \<Rightarrow> None)\<rparr>"

definition chartPassingOnlyParam :: "bool \<Rightarrow> string option" where
  "chartPassingOnlyParam passingOnly = (if passingOnly then None else Some ''false'')"

definition with_chart_params :: "suite_search \<Rightarrow> suite_search \<Rightarrow> suite_search" where
  "with_chart_params u v =
     v\<lparr>u_chartMode := Some (chartMode u), u_chartPassingOnly := chartPassingOnlyParam (chartPassingOnly u),
       u_heatmapColor := Some (heatmapColor_param u)\<rparr>"

definition handleChartModeChange :: "XAxisMode \<Rightarrow> suite_search \<Rightarrow> suite_search" where
  "handleChartModeChange m u =
     (kept_params u)\<lparr>u_chartMode := Some m, u_chartPassingOnly := chartPassingOnlyParam (chartPassingOnly u),
       u_heatmapColor := Some (heatmapColor_param u)\<rparr>"

definition handleChartPassingOnlyChange :: "bool \<Rightarrow> suite_search \<Rightarrow> suite_search" where
  "handleChartPassingOnlyChange b u =
     (with_chart_params u (kept_params u))\<lparr>u_chartPassingOnly := chartPassingOnlyParam b\<rparr>"

definition handleHeatmapColorChange :: "ColorNormalization \<Rightarrow> suite_search \<Rightarrow> suite_search" where
  "handleHeatmapColorChange c u = (with_chart_params u (kept_params u))\<lparr>u_heatmapColor := Some c\<rparr>"

definition setGroupBy :: "string option \<Rightarrow> suite_search \<Rightarrow> suite_search" where
  "setGroupBy p u = (with_chart_params u (kept_params u))\<lparr>u_groupBy := p\<rparr>"

definition suite_handleStepFilterChange :: "step_type list \<Rightarrow> suite_search \<Rightarrow> suite_search" where
  "suite_handleStepFilterChange steps u = (with_chart_params u (kept_params u))\<lparr>u_steps := serializeStepFilter steps\<rparr>"

definition suite_click_step :: "step_type \<Rightarrow> suite_search \<Rightarrow> suite_search" where
  "suite_click_step t u =
     (let newFilter = toggle_step t (suite_stepFilter u)
      in if newFilter \<noteq> [] then suite_handleStepFilterChange newFilter u else u)"

text \<open>The options of the test heat map: these handlers do not write the labels.\<close>

definition heat_params :: "suite_search \<Rightarrow> suite_search" where
  "heat_params u =
     (with_chart_params u (run_params u))\<lparr>u_steps := serializeStepFilter (suite_stepFilter u), u_hq := u_hq u,
       u_hn := u_hn u, u_hr := u_hr u, u_hFs := u_hFs u, u_hStat := u_hStat u, u_hCs := u_hCs u, u_hTh := u_hTh u,
       u_hRpc := u_hRpc u, u_hPs := u_hPs u\<rparr>"

definition flag_text :: "bool \<Rightarrow> string option" where
  "flag_text b = (if b then Some ''1'' else None)"

definition handleHeatmapShowNameChange :: "bool \<Rightarrow> suite_search \<Rightarrow> suite_search" where
  "handleHeatmapShowNameChange b u = (heat_params u)\<lparr>u_hn := flag_text b\<rparr>"

definition handleHeatmapRegexChange :: "bool \<Rightarrow> suite_search \<Rightarrow> suite_search" where
  "handleHeatmapRegexChange b u = (heat_params u)\<lparr>u_hr := flag_text b\<rparr>"

definition handleHeatmapFullscreenChange :: "bool \<Rightarrow> suite_search \<Rightarrow> suite_search" where
  "handleHeatmapFullscreenChange b u = (heat_params u)\<lparr>u_hFs := flag_text b\<rparr>"

definition handleHeatmapStatChange :: "string \<Rightarrow> suite_search \<Rightarrow> suite_search" where
  "handleHeatmapStatChange st u = (heat_params u)\<lparr>u_hStat := (if st = ''avgMgas'' then None else Some st)\<rparr>"

definition handleHeatmapClientStatChange :: "bool \<Rightarrow> suite_search \<Rightarrow> suite_search" where
  "handleHeatmapClientStatChange b u = (heat_params u)\<lparr>u_hCs := flag_text b\<rparr>"

definition handleHeatmapThresholdChange :: "nat \<Rightarrow> suite_search \<Rightarrow> suite_search" where
  "handleHeatmapThresholdChange th u = (heat_params u)\<lparr>u_hTh := (if th = 60 then None else Some (nat_str th))\<rparr>"

definition handleHeatmapRunsPerClientChange :: "nat \<Rightarrow> suite_search \<Rightarrow> suite_search" where
  "handleHeatmapRunsPerClientChange n u = (heat_params u)\<lparr>u_hRpc := (if n = 5 then None else Some (nat_str n))\<rparr>"

definition handleHeatmapPageSizeChange :: "nat \<Rightarrow> suite_search \<Rightarrow> suite_search" where
  "handleHeatmapPageSizeChange n u = (heat_params u)\<lparr>u_hPs := (if n = 20 then None else Some (nat_str n))\<rparr>"

section \<open>The page\<close>

record suite_page =
  sp_search :: suite_search
  sp_runsPage :: int
  sp_runsPageSize :: int
  sp_compareMode :: bool
  sp_selected :: "string js_set"
  sp_deleteMode :: bool
  sp_deleteSelected :: "string js_set"
  sp_anchor :: "(string \<times> selection_kind option) option"
  sp_pending :: bool
  sp_deletions :: "string list list"
  sp_compared :: "string option"
  sp_chartClients :: "string js_set"
  sp_chartLabels :: LabelFilters

definition open_suite :: "suite_search \<Rightarrow> suite_page" where
  "open_suite u =
     \<lparr>sp_search = u, sp_runsPage = 1, sp_runsPageSize = DEFAULT_PAGE_SIZE, sp_compareMode = False, sp_selected = [],
      sp_deleteMode = False, sp_deleteSelected = [], sp_anchor = None, sp_pending = False, sp_deletions = [],
      sp_compared = None, sp_chartClients = [], sp_chartLabels = []\<rparr>"

subsection \<open>Selection\<close>

text \<open>The page has its own copies of the two loops over the runs to select.\<close>

fun suite_select_loop :: "string list \<Rightarrow> bool \<Rightarrow> string js_set \<Rightarrow> string js_set" where
  "suite_select_loop [] selected next = next"
| "suite_select_loop (runId # runIds) selected next =
     (if selected
      then (if length next \<ge> MAX_COMPARE_RUNS then next else suite_select_loop runIds selected (set_add runId next))
      else suite_select_loop runIds selected (set_delete runId next))"

fun suite_delete_loop :: "string list \<Rightarrow> bool \<Rightarrow> string js_set \<Rightarrow> string js_set" where
  "suite_delete_loop [] selected next = next"
| "suite_delete_loop (runId # runIds) selected next =
     suite_delete_loop runIds selected (if selected then set_add runId next else set_delete runId next)"

definition suite_handleSelectionChange :: "string list \<Rightarrow> bool \<Rightarrow> suite_page \<Rightarrow> suite_page" where
  "suite_handleSelectionChange ids selected s = s\<lparr>sp_selected := suite_select_loop ids selected (sp_selected s)\<rparr>"

definition suite_handleDeleteSelectionChange :: "string list \<Rightarrow> bool \<Rightarrow> suite_page \<Rightarrow> suite_page" where
  "suite_handleDeleteSelectionChange ids selected s =
     s\<lparr>sp_deleteSelected := suite_delete_loop ids selected (sp_deleteSelected s)\<rparr>"

definition suite_handleExitCompareMode :: "suite_page \<Rightarrow> suite_page" where
  "suite_handleExitCompareMode s = s\<lparr>sp_compareMode := False, sp_selected := []\<rparr>"

definition suite_handleEnterDeleteMode :: "suite_page \<Rightarrow> suite_page" where
  "suite_handleEnterDeleteMode s = s\<lparr>sp_compareMode := False, sp_selected := [], sp_deleteMode := True\<rparr>"

definition suite_handleExitDeleteMode :: "suite_page \<Rightarrow> suite_page" where
  "suite_handleExitDeleteMode s = s\<lparr>sp_deleteMode := False, sp_deleteSelected := []\<rparr>"

definition suite_handleEnterCompareMode :: "suite_page \<Rightarrow> suite_page" where
  "suite_handleEnterCompareMode s = s\<lparr>sp_deleteMode := False, sp_deleteSelected := [], sp_compareMode := True\<rparr>"

definition suite_handleDeleteConfirm :: "bool \<Rightarrow> suite_page \<Rightarrow> suite_page" where
  "suite_handleDeleteConfirm confirmed s =
     (if sp_deleteSelected s = [] \<or> sp_pending s \<or> \<not> confirmed then s
      else s\<lparr>sp_deletions := sp_deletions s @ [sp_deleteSelected s], sp_pending := True\<rparr>)"

definition suite_delete_settled :: "bool \<Rightarrow> suite_page \<Rightarrow> suite_page" where
  "suite_delete_settled success s =
     (let s' = s\<lparr>sp_pending := False\<rparr> in if success then suite_handleExitDeleteMode s' else s')"

definition suite_compare_selected :: "suite_page \<Rightarrow> suite_page" where
  "suite_compare_selected s =
     (if length (sp_selected s) < MIN_COMPARE_RUNS then s
      else s\<lparr>sp_compared := Some (join '','' (sp_selected s))\<rparr>)"

text \<open>A click on a tile of the heat map, which selects in compare mode only.\<close>

definition click_tile :: "index_entry \<Rightarrow> suite_page \<Rightarrow> suite_page" where
  "click_tile e s =
     (case handleRunClick (sp_compareMode s) (sp_selected s) e of
        OpenRun _ \<Rightarrow> s | SelectRun rid selected \<Rightarrow> suite_handleSelectionChange [rid] selected s)"

text \<open>The table of runs is the component of the run list. It is given the modes, the selection of the
  active one and this page's handler for it; \<open>row_select\<close> is the call it makes for a click on a row, with
  the anchor it keeps.\<close>

definition row_select ::
    "index_entry list \<Rightarrow> string js_set \<Rightarrow> selection_kind option \<Rightarrow> (string \<times> selection_kind option) option \<Rightarrow>
     index_entry \<Rightarrow> bool \<Rightarrow> string list \<times> bool \<times> (string \<times> selection_kind option) option" where
  "row_select rows selectedRunIds mode anchor entry shiftKey =
     (let selected = (ie_run_id entry \<notin> set selectedRunIds);
          anchorRunId = (case anchor of
              None \<Rightarrow> None
            | Some (rid, m) \<Rightarrow> if m = mode \<and> selectedRunIds \<noteq> [] then Some rid else None);
          plain = ([ie_run_id entry], selected, Some (ie_run_id entry, mode))
      in case anchorRunId of
           Some a \<Rightarrow>
             if shiftKey \<and> a \<noteq> [] \<and> a \<noteq> ie_run_id entry
             then (case (find_row a rows, find_row (ie_run_id entry) rows) of
                     (Some i, Some j) \<Rightarrow> (range_ids rows i j, selected, anchor)
                   | _ \<Rightarrow> plain)
             else plain
         | None \<Rightarrow> plain)"

definition suite_isSelectable :: "suite_page \<Rightarrow> bool" where
  "suite_isSelectable s \<longleftrightarrow> sp_compareMode s \<or> sp_deleteMode s"

definition suite_table_selected :: "suite_page \<Rightarrow> string js_set" where
  "suite_table_selected s = (if sp_deleteMode s then sp_deleteSelected s else sp_selected s)"

definition suite_onSelectionChange :: "string list \<Rightarrow> bool \<Rightarrow> suite_page \<Rightarrow> suite_page" where
  "suite_onSelectionChange ids selected s =
     (if sp_deleteMode s then suite_handleDeleteSelectionChange ids selected s
      else suite_handleSelectionChange ids selected s)"

definition suite_selection_mode :: "suite_page \<Rightarrow> selection_kind option" where
  "suite_selection_mode s =
     (if suite_isSelectable s then Some (if sp_deleteMode s then ForDelete else ForCompare) else None)"

definition click_suite_row :: "index_entry list \<Rightarrow> nat \<Rightarrow> bool \<Rightarrow> suite_page \<Rightarrow> suite_page" where
  "click_suite_row rows i shiftKey s =
     (if i < length rows \<and> suite_isSelectable s \<and> isEntrySelectable (rows ! i)
      then case row_select rows (suite_table_selected s) (suite_selection_mode s) (sp_anchor s) (rows ! i) shiftKey of
             (ids, selected, anchor) \<Rightarrow> (suite_onSelectionChange ids selected s)\<lparr>sp_anchor := anchor\<rparr>
      else s)"

subsection \<open>Events\<close>

datatype suite_event =
  STab nat | SClient "string option" | SImage "string option" | SStatus TestStatusFilter | SLabels LabelFilters
| SHeader SortColumn | SLive | SFilesPage int | SSearch "string option" | SDetail "int option"
| SOpcodeSort OpcodeSortMode | STestView TestView | SPsOrder PsOrder | SPsEncoding PsEncoding
| SPayloadSort "PayloadSort option" | SChartMode XAxisMode | SPassing bool | SHeatColor ColorNormalization
| SGroup group_click | SStep step_type | SShowName bool | SRegex bool | SFullscreen bool | SStat string
| SClientStat bool | SThreshold nat | SRunsPerClient nat | SHeatSize nat
| SPage int | SSize int | SCompareButton | SDeleteButton | SCompareCancel | SDeleteCancel
| STile index_entry | SRow "index_entry list" nat bool | STableGone | SCompareConfirm | SDeleteConfirm bool
| SDeleteSettled bool | SChartClient string | SChartLabel string string | SChartLabelOff string

fun url_step :: "bool \<Rightarrow> string list \<Rightarrow> suite_search \<Rightarrow> suite_event \<Rightarrow> suite_search" where
  "url_step pre keys u (STab i) = handleTabChange pre i u"
| "url_step pre keys u (SClient c) = suite_handleClientChange c u"
| "url_step pre keys u (SImage i) = suite_handleImageChange i u"
| "url_step pre keys u (SStatus st) = suite_handleStatusChange st u"
| "url_step pre keys u (SLabels f) = suite_handleLabelFiltersChange f u"
| "url_step pre keys u (SHeader col) =
     (let newDirection = (if suite_sortBy u = col \<and> suite_sortDir u = Descending then Ascending else Descending)
      in suite_handleSortChange col (if col = suite_sortBy u then newDirection else Descending) u)"
| "url_step pre keys u SLive =
     suite_handleStatusChange (if suite_status u = RunningRuns then AllRuns else RunningRuns) u"
| "url_step pre keys u (SFilesPage p) = handleFilesPageChange p u"
| "url_step pre keys u (SSearch query) = handleSearchChange query u"
| "url_step pre keys u (SDetail i) = handleDetailChange i u"
| "url_step pre keys u (SOpcodeSort m) = handleOpcodeSortChange m u"
| "url_step pre keys u (STestView m) = handleTestViewChange m u"
| "url_step pre keys u (SPsOrder n) = handlePsOrderChange n u"
| "url_step pre keys u (SPsEncoding n) = handlePsEncodingChange n u"
| "url_step pre keys u (SPayloadSort n) = handlePayloadSortChange n u"
| "url_step pre keys u (SChartMode m) = handleChartModeChange m u"
| "url_step pre keys u (SPassing b) = handleChartPassingOnlyChange b u"
| "url_step pre keys u (SHeatColor c) = handleHeatmapColorChange c u"
| "url_step pre keys u (SGroup c) = setGroupBy (group_step keys (u_groupBy u) c) u"
| "url_step pre keys u (SStep t) = suite_click_step t u"
| "url_step pre keys u (SShowName b) = handleHeatmapShowNameChange b u"
| "url_step pre keys u (SRegex b) = handleHeatmapRegexChange b u"
| "url_step pre keys u (SFullscreen b) = handleHeatmapFullscreenChange b u"
| "url_step pre keys u (SStat st) = handleHeatmapStatChange st u"
| "url_step pre keys u (SClientStat b) = handleHeatmapClientStatChange b u"
| "url_step pre keys u (SThreshold n) = handleHeatmapThresholdChange n u"
| "url_step pre keys u (SRunsPerClient n) = handleHeatmapRunsPerClientChange n u"
| "url_step pre keys u (SHeatSize n) = handleHeatmapPageSizeChange n u"
| "url_step pre keys u _ = u"

text \<open>The handlers of the filters and of the order go back to the first page of runs.\<close>

definition to_first_page :: "suite_event \<Rightarrow> bool" where
  "to_first_page e \<longleftrightarrow>
     (case e of SClient _ \<Rightarrow> True | SImage _ \<Rightarrow> True | SStatus _ \<Rightarrow> True | SLabels _ \<Rightarrow> True | SHeader _ \<Rightarrow> True
      | SLive \<Rightarrow> True | _ \<Rightarrow> False)"

fun local_step :: "suite_page \<Rightarrow> suite_event \<Rightarrow> suite_page" where
  "local_step s (SPage p) = s\<lparr>sp_runsPage := p\<rparr>"
| "local_step s (SSize n) = s\<lparr>sp_runsPageSize := n, sp_runsPage := 1\<rparr>"
| "local_step s SCompareButton =
     (if sp_compareMode s then suite_handleExitCompareMode s else suite_handleEnterCompareMode s)"
| "local_step s SDeleteButton =
     (if sp_deleteMode s then suite_handleExitDeleteMode s else suite_handleEnterDeleteMode s)"
| "local_step s SCompareCancel = suite_handleExitCompareMode s"
| "local_step s SDeleteCancel = suite_handleExitDeleteMode s"
| "local_step s (STile e) = click_tile e s"
| "local_step s (SRow rows i shift) = click_suite_row rows i shift s"
| "local_step s STableGone = s\<lparr>sp_anchor := None\<rparr>"
| "local_step s SCompareConfirm = suite_compare_selected s"
| "local_step s (SDeleteConfirm ok) = suite_handleDeleteConfirm ok s"
| "local_step s (SDeleteSettled ok) = suite_delete_settled ok s"
| "local_step s (SChartClient c) = s\<lparr>sp_chartClients := toggleClient c (sp_chartClients s)\<rparr>"
| "local_step s (SChartLabel k v) = s\<lparr>sp_chartLabels := toggle_label_value (sp_chartLabels s) k v\<rparr>"
| "local_step s (SChartLabelOff k) = s\<lparr>sp_chartLabels := remove_label_filter (sp_chartLabels s) k\<rparr>"
| "local_step s e = (if to_first_page e then s\<lparr>sp_runsPage := 1\<rparr> else s)"

definition suite_step :: "bool \<Rightarrow> string list \<Rightarrow> suite_page \<Rightarrow> suite_event \<Rightarrow> suite_page" where
  "suite_step pre keys s e =
     (if renders (sp_search s) then (local_step s e)\<lparr>sp_search := url_step pre keys (sp_search s) e\<rparr> else s)"

section \<open>The rows of the table\<close>

definition suite_keep :: "suite_search \<Rightarrow> index_entry \<Rightarrow> bool" where
  "suite_keep u e \<longleftrightarrow>
     wants (u_client u) (Some (ii_client (ie_instance e))) \<and> wants (u_image u) (Some (ii_image (ie_instance e))) \<and>
     status_allows (suite_status u) e \<and> labels_allow (suite_labels u) (ie_metadata e)"

definition filteredRuns :: "suite_search \<Rightarrow> index_entry list \<Rightarrow> index_entry list" where
  "filteredRuns u runs = filter (suite_keep u) runs"

definition sortedRuns :: "(string \<Rightarrow> string \<Rightarrow> jsnum) \<Rightarrow> suite_search \<Rightarrow> index_entry list \<Rightarrow> index_entry list" where
  "sortedRuns lc u runs =
     sortIndexEntries lc (filteredRuns u runs) (suite_sortBy u) (suite_sortDir u) (suite_stepFilter u)"

definition totalRunsPages :: "(string \<Rightarrow> string \<Rightarrow> jsnum) \<Rightarrow> suite_page \<Rightarrow> index_entry list \<Rightarrow> jsnum" where
  "totalRunsPages lc s runs = page_count (length (sortedRuns lc (sp_search s) runs)) (sp_runsPageSize s)"

definition paginatedRuns :: "(string \<Rightarrow> string \<Rightarrow> jsnum) \<Rightarrow> suite_page \<Rightarrow> index_entry list \<Rightarrow> index_entry list" where
  "paginatedRuns lc s runs = page_slice (sp_runsPageSize s) (sortedRuns lc (sp_search s) runs) (sp_runsPage s)"

section \<open>Lemmas\<close>

subsection \<open>Selection\<close>

fun table_event :: "suite_event \<Rightarrow> runs_event option" where
  "table_event SCompareButton = Some CompareButton"
| "table_event SDeleteButton = Some DeleteButton"
| "table_event SCompareCancel = Some CompareCancelled"
| "table_event SDeleteCancel = Some DeleteCancelled"
| "table_event (SRow rows i shift) = Some (RowClicked rows i shift)"
| "table_event STableGone = Some TableGone"
| "table_event SCompareConfirm = Some CompareConfirmed"
| "table_event (SDeleteConfirm ok) = Some (DeleteConfirmed ok)"
| "table_event (SDeleteSettled ok) = Some (DeleteSettled ok)"
| "table_event _ = None"

text \<open>The modes, the selection and the requests of the page, as the state of the run list.\<close>

definition as_runs :: "suite_page \<Rightarrow> runs_page" where
  "as_runs s =
     \<lparr>rp_search = empty_search\<lparr>q_page := Some (sp_runsPage s), q_pageSize := Some (sp_runsPageSize s)\<rparr>,
      rp_localPage = sp_runsPage s, rp_localPageSize = sp_runsPageSize s, rp_compareMode = sp_compareMode s,
      rp_selected = sp_selected s, rp_deleteMode = sp_deleteMode s, rp_deleteSelected = sp_deleteSelected s,
      rp_anchor = sp_anchor s, rp_pending = sp_pending s, rp_deletions = sp_deletions s,
      rp_compared = sp_compared s\<rparr>"

lemma suite_select_loop_eq: "suite_select_loop ids b sel = select_capped ids b sel"
  by (induction ids b sel rule: suite_select_loop.induct) simp_all

lemma suite_delete_loop_eq: "suite_delete_loop ids b sel = fold (if b then set_add else set_delete) ids sel"
  by (induction ids b sel rule: suite_delete_loop.induct) simp_all

lemma as_runs_selection:
  "as_runs (suite_onSelectionChange ids b s) = onSelectionChange ids b (as_runs s)"
  by (simp add: suite_onSelectionChange_def suite_handleSelectionChange_def suite_handleDeleteSelectionChange_def
      onSelectionChange_def handleSelectionChange_def handleDeleteSelectionChange_def suite_select_loop_eq
      suite_delete_loop_eq as_runs_def)

lemma as_runs_anchor: "as_runs (s\<lparr>sp_anchor := a\<rparr>) = (as_runs s)\<lparr>rp_anchor := a\<rparr>"
  by (simp add: as_runs_def)

lemma anchor_kept: "(onSelectionChange ids b s)\<lparr>rp_anchor := rp_anchor s\<rparr> = onSelectionChange ids b s"
  by (simp add: onSelectionChange_def handleSelectionChange_def handleDeleteSelectionChange_def)

text \<open>The run list's own use of the table makes the same call.\<close>

lemma handleRowSelect_eq:
  "handleRowSelect rows entry shiftKey s =
     (case row_select rows (table_selected s) (selection_mode s) (rp_anchor s) entry shiftKey of
        (ids, selected, a) \<Rightarrow> (onSelectionChange ids selected s)\<lparr>rp_anchor := a\<rparr>)"
  by (simp add: handleRowSelect_def row_select_def anchor_run_id_def anchor_kept Let_def split: option.split prod.split)

lemma as_runs_table:
  "table_selected (as_runs s) = suite_table_selected s" "selection_mode (as_runs s) = suite_selection_mode s"
  "selectable (as_runs s) = suite_isSelectable s" "rp_anchor (as_runs s) = sp_anchor s"
  by (simp_all add: table_selected_def suite_table_selected_def selection_mode_def suite_selection_mode_def
      selection_variant_def selectable_def suite_isSelectable_def as_runs_def)

lemma as_runs_click: "as_runs (click_suite_row rows i shift s) = click_row rows i shift (as_runs s)"
  by (simp add: click_suite_row_def click_row_def handleRowSelect_eq as_runs_table as_runs_selection as_runs_anchor
      split: prod.split)

lemma as_runs_search [simp]: "as_runs (s\<lparr>sp_search := u\<rparr>) = as_runs s"
  by (simp add: as_runs_def)

lemma as_runs_step:
  assumes "table_event e = Some r" "renders (sp_search s)"
  shows "as_runs (suite_step pre keys s e) = runs_step (as_runs s) r"
proof -
  have "as_runs (local_step s e) = runs_step (as_runs s) r"
    using assms(1) as_runs_click
    by (cases e) (auto simp: suite_handleExitCompareMode_def suite_handleEnterCompareMode_def
        suite_handleEnterDeleteMode_def suite_handleExitDeleteMode_def suite_compare_selected_def
        suite_handleDeleteConfirm_def suite_delete_settled_def handleExitCompareMode_def handleEnterCompareMode_def
        handleEnterDeleteMode_def handleExitDeleteMode_def compare_selected_def handleDeleteConfirm_def
        delete_settled_def as_runs_def Let_def)
  then show ?thesis using assms(2) by (simp add: suite_step_def)
qed

definition suite_shown :: "string set \<Rightarrow> suite_event \<Rightarrow> bool" where
  "suite_shown A e \<longleftrightarrow>
     (case e of SRow rows i shift \<Rightarrow> ie_run_id ` {entry \<in> set rows. isEntrySelectable entry} \<subseteq> A
      | STile t \<Rightarrow> \<not> isRunLive t \<longrightarrow> ie_run_id t \<in> A | _ \<Rightarrow> True)"

text \<open>The page of runs does not matter for the invariant.\<close>

lemma inv_page_irrelevant:
  "runs_inv A (as_runs (s\<lparr>sp_runsPage := p\<rparr>)) = runs_inv A (as_runs s)"
  "runs_inv A (as_runs (s\<lparr>sp_runsPageSize := n\<rparr>)) = runs_inv A (as_runs s)"
  "runs_inv A (as_runs (s\<lparr>sp_chartClients := cs\<rparr>)) = runs_inv A (as_runs s)"
  "runs_inv A (as_runs (s\<lparr>sp_chartLabels := ls\<rparr>)) = runs_inv A (as_runs s)"
  by (simp_all add: runs_inv_def as_runs_def page_of_def page_size_of_def or_else_def)

lemma inv_click_tile:
  assumes "runs_inv A (as_runs s)" "\<not> isRunLive t \<longrightarrow> ie_run_id t \<in> A"
  shows "runs_inv A (as_runs (click_tile t s))"
proof (cases "sp_compareMode s \<and> \<not> isRunLive t")
  case True
  then have "\<not> sp_deleteMode s" using assms(1) by (simp add: runs_inv_def as_runs_def)
  then have "as_runs (click_tile t s) = onSelectionChange [ie_run_id t] (ie_run_id t \<notin> set (sp_selected s)) (as_runs s)"
    using True as_runs_selection [of "[ie_run_id t]" _ s]
    by (simp add: click_tile_def handleRunClick_def suite_onSelectionChange_def)
  also have "runs_inv A \<dots>"
    using True assms by (intro inv_selection) (simp_all add: selectable_def as_runs_def)
  finally show ?thesis .
qed (use assms in \<open>auto simp: click_tile_def handleRunClick_def\<close>)

lemma inv_suite_step:
  assumes "runs_inv A (as_runs s)" "suite_shown A e"
  shows "runs_inv A (as_runs (suite_step pre keys s e))"
proof (cases "renders (sp_search s)")
  case True
  show ?thesis
  proof (cases "table_event e")
    case (Some r)
    have "shown_selectable A r"
      using Some assms(2) by (cases e) (auto simp: suite_shown_def shown_selectable_def)
    then show ?thesis unfolding as_runs_step [OF Some True] by (rule inv_runs_step [OF assms(1)])
  next
    case None
    have "runs_inv A (as_runs (local_step s e))"
      using None assms inv_click_tile inv_page_irrelevant
      by (cases e) (simp_all add: suite_shown_def to_first_page_def)
    then show ?thesis using True by (simp add: suite_step_def)
  qed
qed (use assms(1) in \<open>simp add: suite_step_def\<close>)

interpretation suite: machine "suite_step pre keys" "suite_shown A" "\<lambda>s. runs_inv A (as_runs s)" for pre keys A
  by unfold_locales (rule inv_suite_step)

lemma inv_open_suite: "runs_inv A (as_runs (open_suite u))"
  by (simp add: runs_inv_def as_runs_def open_suite_def page_of_def page_size_of_def or_else_def)

text \<open>What a click on a tile does. The heat map offers every run that is not live: also those waiting for
  their deletion, which the table refuses (\<open>tile_selects_pending\<close>).\<close>

lemma tile_step:
  assumes "renders (sp_search s)"
  shows "suite_step pre keys s (STile t) =
    (if sp_compareMode s \<and> \<not> isRunLive t
     then s\<lparr>sp_selected :=
            if ie_run_id t \<in> set (sp_selected s) then filter (\<lambda>rid. rid \<noteq> ie_run_id t) (sp_selected s)
            else if length (sp_selected s) < 5 then sp_selected s @ [ie_run_id t] else sp_selected s\<rparr>
     else s)"
  using assms
  by (simp add: suite_step_def click_tile_def handleRunClick_def suite_handleSelectionChange_def set_add_def
      set_delete_def MAX_COMPARE_RUNS_def)

text \<open>C27: Selection on the suite page. After any clicks, in the heat map, in the table or elsewhere: compare
  mode and delete mode exclude each other, a mode that is off has no selection, at most five runs are
  selected for comparison, every run selected or sent for deletion was offered by a click (as a selectable
  row of the table, or a tile of a run that is not live), the comparison opened last had two to five runs.
  Each click on the table and its buttons, run through this page's own handlers, does to modes, selection,
  anchor and requests exactly what the same click does on the run list. A click on a tile of the heat map
  changes the selection in compare mode only: it takes the run out when it is selected, and adds it when
  it is not and fewer than five are; the tile of a live run, and a tile outside compare mode, opens the run
  instead.\<close>

theorem suite_selection_refines:
  assumes "list_all (suite_shown A) es" "s = run (suite_step pre keys) (open_suite u) es"
  shows "\<not> (sp_compareMode s \<and> sp_deleteMode s) \<and>
    (\<not> sp_compareMode s \<longrightarrow> sp_selected s = []) \<and> (\<not> sp_deleteMode s \<longrightarrow> sp_deleteSelected s = []) \<and>
    length (sp_selected s) \<le> 5 \<and> distinct (sp_selected s) \<and> distinct (sp_deleteSelected s) \<and>
    set (sp_selected s) \<union> set (sp_deleteSelected s) \<union> \<Union> (set ` set (sp_deletions s)) \<subseteq> A \<and>
    (\<forall>t. sp_compared s = Some t \<longrightarrow> (\<exists>ids. t = join '','' ids \<and> distinct ids \<and> set ids \<subseteq> A \<and> 2 \<le> length ids \<and> length ids \<le> 5)) \<and>
    (renders (sp_search s) \<longrightarrow>
       (\<forall>e r. table_event e = Some r \<longrightarrow> as_runs (suite_step pre keys s e) = runs_step (as_runs s) r) \<and>
       (\<forall>t. suite_step pre keys s (STile t) =
          (if sp_compareMode s \<and> \<not> isRunLive t
           then s\<lparr>sp_selected :=
                  if ie_run_id t \<in> set (sp_selected s) then filter (\<lambda>rid. rid \<noteq> ie_run_id t) (sp_selected s)
                  else if length (sp_selected s) < 5 then sp_selected s @ [ie_run_id t] else sp_selected s\<rparr>
           else s)))"
proof -
  have inv: "runs_inv A (as_runs s)" using suite.inv_run [OF inv_open_suite assms(1)] assms(2) by simp
  have max: "MAX_COMPARE_RUNS = 5" "MIN_COMPARE_RUNS = 2" by (simp_all add: MAX_COMPARE_RUNS_def MIN_COMPARE_RUNS_def)
  have "\<forall>ids \<in> set (sp_deletions s). set ids \<subseteq> A"
    using inv by (auto simp: runs_inv_def as_runs_def ids_ok_def list_all_iff)
  then have del: "\<Union> (set ` set (sp_deletions s)) \<subseteq> A" by blast
  have rows: "as_runs (suite_step pre keys s e) = runs_step (as_runs s) r"
    if "renders (sp_search s)" "table_event e = Some r" for e r
    using as_runs_step [OF that(2,1)] .
  have tiles: "renders (sp_search s) \<Longrightarrow> suite_step pre keys s (STile t) =
      (if sp_compareMode s \<and> \<not> isRunLive t
       then s\<lparr>sp_selected :=
              if ie_run_id t \<in> set (sp_selected s) then filter (\<lambda>rid. rid \<noteq> ie_run_id t) (sp_selected s)
              else if length (sp_selected s) < 5 then sp_selected s @ [ie_run_id t] else sp_selected s\<rparr>
       else s)" for t by (rule tile_step)
  show ?thesis
    by (intro conjI impI allI; (rule rows tiles; assumption)?)
      (use inv del in \<open>auto simp: runs_inv_def as_runs_def [of s] ids_ok_def max\<close>)
qed

subsection \<open>The filters in the URL\<close>

lemma serialize_steps_back:
  assumes "ss \<noteq> []"
  shows "parseStepFilter (serializeStepFilter ss) = ss"
proof (cases "sort (map step_name ss) = sort (map step_name DEFAULT_STEP_FILTER)")
  case True
  then have one: "sort (map step_name ss) = [''test'']" by (simp add: DEFAULT_STEP_FILTER_def)
  then have "length ss = 1" by (metis length_map length_sort One_nat_def list.size(3,4) add_0 plus_1_eq_Suc)
  then obtain t where "ss = [t]" by (auto simp: length_Suc_conv)
  then have "ss = [Test]" using one by (cases t) auto
  then show ?thesis using True by (simp add: serializeStepFilter_def parseStepFilter_def DEFAULT_STEP_FILTER_def)
next
  case False
  then show ?thesis using parse_join_steps [OF assms] by (simp add: serializeStepFilter_def)
qed

lemma step_filter_nonempty: "suite_stepFilter u \<noteq> []"
  by (simp add: suite_stepFilter_def parseStepFilter_def DEFAULT_STEP_FILTER_def Let_def split: option.split)

lemma suite_labels_wf: "wf_labels (suite_labels u)"
  using parse_labels_wf by (auto simp: suite_labels_def wf_labels_def [of "[]"] split: sum.split)

text \<open>The filters of the page, as they are read from the URL.\<close>

record suite_filters =
  fl_client :: "string option"
  fl_image :: "string option"
  fl_status :: TestStatusFilter
  fl_sortBy :: SortColumn
  fl_sortDir :: SortDirection
  fl_groupBy :: "string option"
  fl_steps :: "step_type list"
  fl_labels :: LabelFilters

definition filters_in :: "suite_search \<Rightarrow> suite_filters" where
  "filters_in u =
     \<lparr>fl_client = u_client u, fl_image = u_image u, fl_status = suite_status u, fl_sortBy = suite_sortBy u,
      fl_sortDir = suite_sortDir u, fl_groupBy = u_groupBy u, fl_steps = suite_stepFilter u,
      fl_labels = suite_labels u\<rparr>"

text \<open>What each event means for the filters: most change the one they are about, and the options of the test
  heat map and the tabs lose some. Of the labels chosen, the address has no place for the empty text.\<close>

definition heat_option :: "suite_event \<Rightarrow> bool" where
  "heat_option e \<longleftrightarrow>
     (case e of SShowName _ \<Rightarrow> True | SRegex _ \<Rightarrow> True | SFullscreen _ \<Rightarrow> True | SStat _ \<Rightarrow> True | SClientStat _ \<Rightarrow> True
      | SThreshold _ \<Rightarrow> True | SRunsPerClient _ \<Rightarrow> True | SHeatSize _ \<Rightarrow> True | _ \<Rightarrow> False)"

fun filters_spec :: "string list \<Rightarrow> suite_filters \<Rightarrow> suite_event \<Rightarrow> suite_filters" where
  "filters_spec keys f (SClient c) = f\<lparr>fl_client := c\<rparr>"
| "filters_spec keys f (SImage i) = f\<lparr>fl_image := i\<rparr>"
| "filters_spec keys f (SStatus st) = f\<lparr>fl_status := st\<rparr>"
| "filters_spec keys f SLive = f\<lparr>fl_status := (if fl_status f = RunningRuns then AllRuns else RunningRuns)\<rparr>"
| "filters_spec keys f (SLabels ls) = f\<lparr>fl_labels := named_labels ls\<rparr>"
| "filters_spec keys f (SHeader col) =
     f\<lparr>fl_sortBy := col,
       fl_sortDir := (if fl_sortBy f = col \<and> fl_sortDir f = Descending then Ascending else Descending)\<rparr>"
| "filters_spec keys f (SStep t) =
     (let n = toggle_step t (fl_steps f) in if n = [] then f else f\<lparr>fl_steps := n\<rparr>)"
| "filters_spec keys f (SGroup c) = f\<lparr>fl_groupBy := group_step keys (fl_groupBy f) c\<rparr>"
| "filters_spec keys f (STab i) = f\<lparr>fl_steps := [Test], fl_labels := []\<rparr>"
| "filters_spec keys f e = (if heat_option e then f\<lparr>fl_labels := []\<rparr> else f)"

lemma run_params_fields [simp]:
  "u_client (run_params u) = u_client u" "u_image (run_params u) = u_image u" "u_groupBy (run_params u) = u_groupBy u"
  "u_status (run_params u) = Some (suite_status u)" "u_sortBy (run_params u) = Some (suite_sortBy u)"
  "u_sortDir (run_params u) = Some (suite_sortDir u)" "u_steps (run_params u) = None" "u_labels (run_params u) = None"
  by (simp_all add: run_params_def no_suite_params_def)

lemma parse_None [simp]: "parseStepFilter None = [Test]" "parseLabelFilters None = Inr []"
  by (simp_all add: parseStepFilter_def DEFAULT_STEP_FILTER_def parseLabelFilters_def)

lemmas url_handlers =
  suite_handleClientChange_def suite_handleImageChange_def suite_handleStatusChange_def
  suite_handleLabelFiltersChange_def suite_handleSortChange_def handleTabChange_def handleFilesPageChange_def
  handleSearchChange_def handleDetailChange_def handleOpcodeSortChange_def handleTestViewChange_def
  handlePsOrderChange_def handlePsEncodingChange_def handlePayloadSortChange_def handleChartModeChange_def
  handleChartPassingOnlyChange_def handleHeatmapColorChange_def setGroupBy_def suite_handleStepFilterChange_def
  suite_click_step_def handleHeatmapShowNameChange_def handleHeatmapRegexChange_def handleHeatmapFullscreenChange_def
  handleHeatmapStatChange_def handleHeatmapClientStatChange_def handleHeatmapThresholdChange_def
  handleHeatmapRunsPerClientChange_def handleHeatmapPageSizeChange_def

lemmas url_params = kept_params_def payload_params_def test_params_def with_chart_params_def heat_params_def

text \<open>The parameters the filters are read from, before and after a handler's own change.\<close>

lemma kept_filters:
  assumes "renders u"
  shows "filters_in (kept_params u) = filters_in u" "renders (kept_params u)"
proof -
  have "parseStepFilter (serializeStepFilter (suite_stepFilter u)) = suite_stepFilter u"
    "parseLabelFilters (serializeLabelFilters (suite_labels u)) = Inr (suite_labels u)"
    by (rule serialize_steps_back [OF step_filter_nonempty], rule label_roundtrip [OF suite_labels_wf])
  then have again: "parseStepFilter (u_steps (kept_params u)) = suite_stepFilter u"
    "parseLabelFilters (u_labels (kept_params u)) = Inr (suite_labels u)"
    by (simp_all add: kept_params_def)
  show "renders (kept_params u)" by (simp add: renders_def again)
  have "suite_labels (kept_params u) = suite_labels u" by (subst suite_labels_def) (simp add: again)
  moreover have "suite_stepFilter (kept_params u) = suite_stepFilter u" by (subst suite_stepFilter_def) (simp add: again)
  moreover have "suite_status (kept_params u) = suite_status u" "suite_sortBy (kept_params u) = suite_sortBy u"
    "suite_sortDir (kept_params u) = suite_sortDir u" "u_client (kept_params u) = u_client u"
    "u_image (kept_params u) = u_image u" "u_groupBy (kept_params u) = u_groupBy u"
    by (simp_all add: kept_params_def suite_status_def [of "_\<lparr>u_labels := _\<rparr>"] suite_sortBy_def [of "_\<lparr>u_labels := _\<rparr>"]
        suite_sortDir_def [of "_\<lparr>u_labels := _\<rparr>"] or_else_def)
  ultimately show "filters_in (kept_params u) = filters_in u" by (simp add: filters_in_def)
qed


lemma filters_frame [simp]:
  "filters_in (u\<lparr>u_tab := xtab\<rparr>) = filters_in u" "filters_in (u\<lparr>u_filesPage := xfilesPage\<rparr>) = filters_in u"
  "filters_in (u\<lparr>u_detail := xdetail\<rparr>) = filters_in u" "filters_in (u\<lparr>u_opcodeSort := xopcodeSort\<rparr>) = filters_in u"
  "filters_in (u\<lparr>u_q := xq\<rparr>) = filters_in u" "filters_in (u\<lparr>u_chartMode := xchartMode\<rparr>) = filters_in u"
  "filters_in (u\<lparr>u_chartPassingOnly := xchartPassingOnly\<rparr>) = filters_in u" "filters_in (u\<lparr>u_heatmapColor := xheatmapColor\<rparr>) = filters_in u"
  "filters_in (u\<lparr>u_hn := xhn\<rparr>) = filters_in u" "filters_in (u\<lparr>u_hq := xhq\<rparr>) = filters_in u"
  "filters_in (u\<lparr>u_hr := xhr\<rparr>) = filters_in u" "filters_in (u\<lparr>u_hFs := xhFs\<rparr>) = filters_in u"
  "filters_in (u\<lparr>u_hStat := xhStat\<rparr>) = filters_in u" "filters_in (u\<lparr>u_hCs := xhCs\<rparr>) = filters_in u"
  "filters_in (u\<lparr>u_hTh := xhTh\<rparr>) = filters_in u" "filters_in (u\<lparr>u_hRpc := xhRpc\<rparr>) = filters_in u"
  "filters_in (u\<lparr>u_hPs := xhPs\<rparr>) = filters_in u" "filters_in (u\<lparr>u_testView := xtestView\<rparr>) = filters_in u"
  "filters_in (u\<lparr>u_psort := xpsort\<rparr>) = filters_in u" "filters_in (u\<lparr>u_psortDir := xpsortDir\<rparr>) = filters_in u"
  "filters_in (u\<lparr>u_psOrder := xpsOrder\<rparr>) = filters_in u" "filters_in (u\<lparr>u_psEncoding := xpsEncoding\<rparr>) = filters_in u"
  by (simp_all add: filters_in_def suite_status_def suite_sortBy_def suite_sortDir_def suite_stepFilter_def suite_labels_def)

lemma renders_frame [simp]:
  "renders (u\<lparr>u_tab := xtab\<rparr>) = renders u" "renders (u\<lparr>u_filesPage := xfilesPage\<rparr>) = renders u"
  "renders (u\<lparr>u_detail := xdetail\<rparr>) = renders u" "renders (u\<lparr>u_opcodeSort := xopcodeSort\<rparr>) = renders u"
  "renders (u\<lparr>u_q := xq\<rparr>) = renders u" "renders (u\<lparr>u_chartMode := xchartMode\<rparr>) = renders u"
  "renders (u\<lparr>u_chartPassingOnly := xchartPassingOnly\<rparr>) = renders u" "renders (u\<lparr>u_heatmapColor := xheatmapColor\<rparr>) = renders u"
  "renders (u\<lparr>u_hn := xhn\<rparr>) = renders u" "renders (u\<lparr>u_hq := xhq\<rparr>) = renders u"
  "renders (u\<lparr>u_hr := xhr\<rparr>) = renders u" "renders (u\<lparr>u_hFs := xhFs\<rparr>) = renders u"
  "renders (u\<lparr>u_hStat := xhStat\<rparr>) = renders u" "renders (u\<lparr>u_hCs := xhCs\<rparr>) = renders u"
  "renders (u\<lparr>u_hTh := xhTh\<rparr>) = renders u" "renders (u\<lparr>u_hRpc := xhRpc\<rparr>) = renders u"
  "renders (u\<lparr>u_hPs := xhPs\<rparr>) = renders u" "renders (u\<lparr>u_testView := xtestView\<rparr>) = renders u"
  "renders (u\<lparr>u_psort := xpsort\<rparr>) = renders u" "renders (u\<lparr>u_psortDir := xpsortDir\<rparr>) = renders u"
  "renders (u\<lparr>u_psOrder := xpsOrder\<rparr>) = renders u" "renders (u\<lparr>u_psEncoding := xpsEncoding\<rparr>) = renders u"
  "renders (u\<lparr>u_client := xclient\<rparr>) = renders u" "renders (u\<lparr>u_image := ximage\<rparr>) = renders u"
  "renders (u\<lparr>u_status := xstatus\<rparr>) = renders u" "renders (u\<lparr>u_sortBy := xsortBy\<rparr>) = renders u"
  "renders (u\<lparr>u_sortDir := xsortDir\<rparr>) = renders u" "renders (u\<lparr>u_groupBy := xgroupBy\<rparr>) = renders u"
  "renders (u\<lparr>u_steps := xsteps\<rparr>) = renders u"
  by (simp_all add: renders_def)

lemma filters_write [simp]:
  "filters_in (u\<lparr>u_client := c\<rparr>) = (filters_in u)\<lparr>fl_client := c\<rparr>"
  "filters_in (u\<lparr>u_image := i\<rparr>) = (filters_in u)\<lparr>fl_image := i\<rparr>"
  "filters_in (u\<lparr>u_status := Some st\<rparr>) = (filters_in u)\<lparr>fl_status := st\<rparr>"
  "filters_in (u\<lparr>u_sortBy := Some col\<rparr>) = (filters_in u)\<lparr>fl_sortBy := col\<rparr>"
  "filters_in (u\<lparr>u_sortDir := Some dir\<rparr>) = (filters_in u)\<lparr>fl_sortDir := dir\<rparr>"
  "filters_in (u\<lparr>u_groupBy := g\<rparr>) = (filters_in u)\<lparr>fl_groupBy := g\<rparr>"
  by (simp_all add: filters_in_def suite_status_def suite_sortBy_def suite_sortDir_def suite_stepFilter_def
      suite_labels_def or_else_def)

lemma filters_write_steps:
  "ss \<noteq> [] \<Longrightarrow> filters_in (u\<lparr>u_steps := serializeStepFilter ss\<rparr>) = (filters_in u)\<lparr>fl_steps := ss\<rparr>"
  by (simp add: filters_in_def suite_status_def suite_sortBy_def suite_sortDir_def suite_stepFilter_def suite_labels_def
      serialize_steps_back)

lemma filters_write_labels:
  assumes "js_labels ls"
  shows "filters_in (u\<lparr>u_labels := serializeLabelFilters ls\<rparr>) = (filters_in u)\<lparr>fl_labels := named_labels ls\<rparr>"
    "renders (u\<lparr>u_labels := serializeLabelFilters ls\<rparr>)"
  using label_roundtrip_named [OF assms]
  by (simp_all add: filters_in_def suite_status_def suite_sortBy_def suite_sortDir_def suite_stepFilter_def
      suite_labels_def renders_def)

lemma run_filters:
  "filters_in (run_params u) = (filters_in u)\<lparr>fl_steps := [Test], fl_labels := []\<rparr>" "renders (run_params u)"
  by (simp_all add: filters_in_def suite_status_def [of "run_params _"] suite_sortBy_def [of "run_params _"]
      suite_sortDir_def [of "run_params _"] suite_stepFilter_def [of "run_params _"] suite_labels_def [of "run_params _"]
      renders_def or_else_def)

lemma filters_read [simp]:
  "fl_status (filters_in u) = suite_status u" "fl_sortBy (filters_in u) = suite_sortBy u"
  "fl_sortDir (filters_in u) = suite_sortDir u" "fl_groupBy (filters_in u) = u_groupBy u"
  "fl_steps (filters_in u) = suite_stepFilter u"
  by (simp_all add: filters_in_def)

lemma heat_filters:
  "filters_in (heat_params u) = (filters_in u)\<lparr>fl_labels := []\<rparr>" "renders (heat_params u)"
proof -
  have "filters_in (heat_params u) = (filters_in u)\<lparr>fl_steps := suite_stepFilter u, fl_labels := []\<rparr>"
    by (simp add: heat_params_def with_chart_params_def filters_write_steps [OF step_filter_nonempty] run_filters)
  also have "\<dots> = (filters_in u)\<lparr>fl_labels := []\<rparr>" by (simp add: filters_in_def)
  finally show "filters_in (heat_params u) = (filters_in u)\<lparr>fl_labels := []\<rparr>" .
  show "renders (heat_params u)" by (simp add: heat_params_def with_chart_params_def run_filters)
qed

lemma url_step_spec:
  assumes "renders u" "\<forall>ls. e = SLabels ls \<longrightarrow> js_labels ls"
  shows "filters_in (url_step pre keys u e) = filters_spec keys (filters_in u) e \<and> renders (url_step pre keys u e)"
  using assms(2) kept_filters [OF assms(1)] assms(1)
  by (cases e) (simp_all add: url_handlers payload_params_def test_params_def with_chart_params_def heat_option_def
      run_filters heat_filters filters_write_steps filters_write_labels Let_def)


text \<open>The label filters a choice hands over are a map of sets: no key twice, no value twice.\<close>

definition labels_given :: "suite_event \<Rightarrow> bool" where
  "labels_given e \<longleftrightarrow> (case e of SLabels ls \<Rightarrow> js_labels ls | _ \<Rightarrow> True)"

lemma suite_step_filters:
  assumes "renders (sp_search s)" "labels_given e"
  shows "filters_in (sp_search (suite_step pre keys s e)) = filters_spec keys (filters_in (sp_search s)) e"
    "renders (sp_search (suite_step pre keys s e))"
proof -
  have "\<forall>ls. e = SLabels ls \<longrightarrow> js_labels ls" using assms(2) by (auto simp: labels_given_def)
  from url_step_spec [OF assms(1) this]
  show "filters_in (sp_search (suite_step pre keys s e)) = filters_spec keys (filters_in (sp_search s)) e"
    "renders (sp_search (suite_step pre keys s e))"
    using assms(1) by (simp_all add: suite_step_def)
qed

interpretation suite_url: simulation "suite_step pre keys" labels_given "\<lambda>s. renders (sp_search s)"
    "\<lambda>s. filters_in (sp_search s)" "filters_spec keys" for pre keys
  by unfold_locales (rule suite_step_filters; assumption)+

text \<open>C28: The filters of the suite page follow the user's choices. The address that any sequence of clicks
  writes, read back, gives exactly the filters of an abstract page that has each choice as a field: a choice
  changes its own filter, the empty text is dropped from the labels chosen and their values, the last step of
  the step filter cannot be removed, and only a change of tab (steps and labels) and the options of the test
  heat map (labels) lose filters. The rows of the table are the runs
  these filters keep, in the order they name.\<close>

theorem suite_filters_follow_choices:
  assumes "renders u" "list_all labels_given es"
    and "f = run (filters_spec keys) (filters_in u) es"
    and "v = sp_search (run (suite_step pre keys) (open_suite u) es)"
  shows "filters_in v = f \<and> renders v \<and>
      sortedRuns lc v runs = sortIndexEntries lc
        (filter (\<lambda>e. wants (fl_client f) (Some (ii_client (ie_instance e))) \<and>
                     wants (fl_image f) (Some (ii_image (ie_instance e))) \<and>
                     status_allows (fl_status f) e \<and> labels_allow (fl_labels f) (ie_metadata e)) runs)
        (fl_sortBy f) (fl_sortDir f) (fl_steps f)"
proof -
  have start: "renders (sp_search (open_suite u))" "filters_in (sp_search (open_suite u)) = filters_in u"
    using assms(1) by (simp_all add: open_suite_def)
  have "filters_in v = f" using suite_url.abs_run [OF start(1) assms(2)] start(2) assms(3,4) by simp
  moreover have "renders v" unfolding assms(4) by (rule suite_url.inv_run [OF start(1) assms(2)])
  moreover have "sortedRuns lc v runs = sortIndexEntries lc
           (filter (\<lambda>e. wants (fl_client (filters_in v)) (Some (ii_client (ie_instance e))) \<and>
                        wants (fl_image (filters_in v)) (Some (ii_image (ie_instance e))) \<and>
                        status_allows (fl_status (filters_in v)) e \<and> labels_allow (fl_labels (filters_in v)) (ie_metadata e)) runs)
           (fl_sortBy (filters_in v)) (fl_sortDir (filters_in v)) (fl_steps (filters_in v))"
    by (simp add: sortedRuns_def filteredRuns_def suite_keep_def [abs_def] filters_in_def)
  ultimately show ?thesis by simp
qed

text \<open>The options of the suite page read back. What a handler writes is what the page reads from the
  address afterwards: tab, order and encoding of the payload table and its sort column, mode and runs of the
  chart, colours of the heat map, and the options of the test heat map (60, 5 and 20 being what it takes
  when a number is absent); a default leaves no parameter behind, and a search shows the first page of
  tests.\<close>

theorem suite_options_read_back:
  assumes "i \<le> sourceTabIndex pre" "isPayloadSortCol (psc_col c)"
  shows "getTabIndex pre (handleTabChange pre i u) = i \<and>
    payloadSort (handlePayloadSortChange (Some c) u) = Some c \<and> payloadSort (handlePayloadSortChange None u) = None \<and>
    psOrder (handlePsOrderChange ord u) = ord \<and> psEncoding (handlePsEncodingChange enc u) = enc \<and>
    chartMode (handleChartModeChange m u) = m \<and> chartPassingOnly (handleChartPassingOnlyChange b u) = b \<and>
    chartPassingOnly (handleChartModeChange m u) = chartPassingOnly u \<and>
    heatmapColor_param (handleHeatmapColorChange col u) = col \<and>
    flag_param (u_hn (handleHeatmapShowNameChange b u)) = b \<and> flag_param (u_hr (handleHeatmapRegexChange b u)) = b \<and>
    flag_param (u_hFs (handleHeatmapFullscreenChange b u)) = b \<and>
    flag_param (u_hCs (handleHeatmapClientStatChange b u)) = b \<and>
    or_else (number_param (u_hTh (handleHeatmapThresholdChange n u))) (Fin 60) = Fin (real n) \<and>
    or_else (number_param (u_hRpc (handleHeatmapRunsPerClientChange n u))) (Fin 5) = Fin (real n) \<and>
    or_else (number_param (u_hPs (handleHeatmapPageSizeChange n u))) (Fin 20) = Fin (real n) \<and>
    u_testView (handleTestViewChange General u) = None \<and> u_opcodeSort (handleOpcodeSortChange NameSort u) = None \<and>
    u_filesPage (handleSearchChange query u) = Some 1"
proof -
  have number: "or_else (number_param (if n = d then None else Some (nat_str n))) (Fin (real d)) = Fin (real n)" for d
    using js_Number_nat_str [of n] nat_str_neq_Nil [of n]
    by (cases "nat_str n") (simp_all add: number_param_def or_else_def)
  have flag: "flag_param (flag_text b) = b" by (simp add: flag_param_def flag_text_def)
  have tab: "getTabIndex pre (handleTabChange pre i u) = i"
    using assms(1) by (cases pre) (auto simp: getTabIndex_def handleTabChange_def sourceTabIndex_def)
  have "psc_col c \<noteq> []" using assms(2) by (auto simp: isPayloadSortCol_def PAYLOAD_SORT_COLS_def)
  then have sorts: "payloadSort (handlePayloadSortChange (Some c) u) = Some c" "payloadSort (handlePayloadSortChange None u) = None"
    using assms(2) by (cases "psc_dir c"; simp add: payloadSort_def handlePayloadSortChange_def)+
  show ?thesis
    using number [of 60] number [of 5] number [of 20] tab sorts
    by (cases ord; cases enc) (simp_all add: psOrder_def psEncoding_def chartMode_def chartPassingOnly_def heatmapColor_param_def
        handlePsOrderChange_def handlePsEncodingChange_def handleChartModeChange_def handleChartPassingOnlyChange_def
        handleHeatmapColorChange_def handleHeatmapShowNameChange_def handleHeatmapRegexChange_def
        handleHeatmapFullscreenChange_def handleHeatmapClientStatChange_def handleHeatmapThresholdChange_def
        handleHeatmapRunsPerClientChange_def handleHeatmapPageSizeChange_def handleTestViewChange_def
        handleOpcodeSortChange_def handleSearchChange_def flag or_else_def chartPassingOnlyParam_def)
qed


subsection \<open>Options that overwrite each other\<close>

text \<open>The options of the test heat map do not carry the search and the label filter over, and the handlers of
  the table of tests do not carry the options of the heat map over.\<close>

lemma heat_option_forgets_search:
  "heat_option e \<Longrightarrow> u_q (url_step pre keys u e) = None \<and> u_labels (url_step pre keys u e) = None"
  by (cases e) (simp_all add: heat_option_def url_handlers heat_params_def with_chart_params_def run_params_def no_suite_params_def)

lemma detail_forgets_heat_options:
  "u_hn (handleDetailChange i u) = None" "u_hTh (handleDetailChange i u) = None" "u_hPs (handleDetailChange i u) = None"
  by (simp_all add: handleDetailChange_def test_params_def payload_params_def kept_params_def run_params_def no_suite_params_def)

section \<open>Witnesses\<close>

definition suite_clicks :: "suite_event list" where
  "suite_clicks =
     [SCompareButton, SRow (ix_entries suite_index) 0 False, STile (labelled_entry ''r2'' ''geth'' ''mac''),
      SClient (Some ''geth''), SStep Cleanup, SStep Test, SCompareConfirm, SDeleteButton,
      SRow (ix_entries suite_index) 0 False, SRow (ix_entries suite_index) 1 True, SDeleteConfirm True,
      SLabels [(''os'', [[]])]]"

lemma suite_clicks_shown: "list_all (suite_shown {''r1'', ''r2'', ''r3''}) suite_clicks"
  by (auto simp: suite_clicks_def suite_shown_def suite_index_def labelled_entry_def example_entry_def)

theorem suite_selection_refines_witness:
  "\<exists>s. s = run (suite_step False []) (open_suite no_suite_params) suite_clicks \<and>
     sp_compared s = Some ''r1,r2'' \<and> sp_deletions s = [[''r1'', ''r2'']] \<and> length (sp_selected s) \<le> 5"
proof -
  let ?s = "run (suite_step False []) (open_suite no_suite_params) suite_clicks"
  have "length (sp_selected ?s) \<le> 5"
    using suite_selection_refines [OF suite_clicks_shown, of ?s False "[]" no_suite_params] by blast
  moreover have "sp_compared ?s = Some ''r1,r2'' \<and> sp_deletions ?s = [[''r1'', ''r2'']]" by code_simp
  ultimately show ?thesis by blast
qed

theorem suite_filters_follow_choices_witness:
  "fl_steps (filters_in (sp_search (run (suite_step False []) (open_suite no_suite_params) suite_clicks))) = [Cleanup]"
proof -
  have "renders no_suite_params" by code_simp
  moreover have "list_all labels_given suite_clicks" by (simp add: suite_clicks_def labels_given_def js_labels_def)
  ultimately have "filters_in (sp_search (run (suite_step False []) (open_suite no_suite_params) suite_clicks)) =
      run (filters_spec []) (filters_in no_suite_params) suite_clicks"
    using suite_filters_follow_choices [of no_suite_params suite_clicks _ "[]" _ False] by blast
  also have "fl_steps \<dots> = [Cleanup]" by code_simp
  finally show ?thesis .
qed

theorem suite_options_read_back_witness:
  "getTabIndex True (handleTabChange True 3 no_suite_params) = 3 \<and>
   or_else (number_param (u_hTh (handleHeatmapThresholdChange 75 no_suite_params))) (Fin 60) = Fin 75"
  using suite_options_read_back [of 3 True "\<lparr>psc_col = ''ssz_bal'', psc_dir = Ascending\<rparr>" no_suite_params _ _ _ _ _ 75]
  by (simp add: sourceTabIndex_def isPayloadSortCol_def PAYLOAD_SORT_COLS_def)

end
