(* ===== verification/Test_Heatmap.thy ===== *)
theory Test_Heatmap
  imports Stats Color_Scale Runs_List Eest_Filter Pagination Js_Uri
begin

text \<open>
  The heat map of the tests of a suite (\<open>ui/src/components/suite-detail/TestHeatmap.tsx\<close>): the rows computed
  from the durations of the runs, the selection of the newest runs without sorting, the distribution of the
  values, search, order and pages of the table, the boxes of a cell and the highlighted names. The number of
  runs per client and the threshold are natural and finite; a pattern of the mode with regular expressions
  is a parameter. The theorems compare the routines with reference definitions: the selection with a sort,
  the rows with their description, the bars with the values between their bounds.
\<close>

section \<open>Constants and colours\<close>

definition HEATMAP_PAGE_SIZE :: int where "HEATMAP_PAGE_SIZE = 20"
definition DEFAULT_RUNS_PER_CLIENT :: nat where "DEFAULT_RUNS_PER_CLIENT = 5"
definition BOXES_PER_ROW :: nat where "BOXES_PER_ROW = 5"
definition SLOW_MIN :: real where "SLOW_MIN = 10"
definition SLOW_MAX :: real where "SLOW_MAX = 1000"
definition SLOW_DEFAULT :: real where "SLOW_DEFAULT = 60"

definition BIN_MULTIPLIERS :: "real list" where
  "BIN_MULTIPLIERS = [0, 1 / 4, 1 / 2, 3 / 4, 1, 5 / 4, 3 / 2, 7 / 4, 2, 5 / 2, 3]"

text \<open>The border of a box: the value between the smallest and the largest of its test.\<close>

definition getColorByNormalizedValue :: "real \<Rightarrow> real \<Rightarrow> real \<Rightarrow> string" where
  "getColorByNormalizedValue v mn mx =
     (if mx = mn then THRESHOLD_COLORS ! THRESHOLD_LIMIT_STEP
      else let normalized = 1 - (v - mn) / (mx - mn);
               level = min (int (length THRESHOLD_COLORS) - 1) \<lfloor>normalized * real (length THRESHOLD_COLORS)\<rfloor>
           in THRESHOLD_COLORS ! nat level)"

definition formatMGas :: "real \<Rightarrow> string" where
  "formatMGas mgas = toFixed 2 mgas @ '' MGas/s''"

definition formatMGasCompact :: "real \<Rightarrow> string" where
  "formatMGasCompact mgas = int_str (math_round mgas)"

definition heat_percentile :: "real list \<Rightarrow> nat \<Rightarrow> real" where
  "heat_percentile sorted_values p =
     (if sorted_values = [] then 0
      else if length sorted_values = 1 then sorted_values ! 0
      else let idx = real p / 100 * (real (length sorted_values) - 1);
               lo = \<lfloor>idx\<rfloor>;
               hi = \<lceil>idx\<rceil>
           in if lo = hi then sorted_values ! nat lo
              else sorted_values ! nat lo + (sorted_values ! nat hi - sorted_values ! nat lo) * (idx - of_int lo))"

section \<open>The newest runs\<close>

text \<open>An inner loop moves the element at the given position to the front as long as its neighbour is
  greater.\<close>

fun sift :: "('a \<Rightarrow> 'a \<Rightarrow> jsnum) \<Rightarrow> 'a list \<Rightarrow> nat \<Rightarrow> 'a list" where
  "sift cmp r 0 = r"
| "sift cmp r (Suc i) =
     (if is_pos (cmp (r ! i) (r ! Suc i)) then sift cmp (r[i := r ! Suc i, Suc i := r ! i]) i else r)"

text \<open>With a limit of zero the comparator reads a property of \<open>result[-1]\<close>, which throws.\<close>

fun topN_loop :: "('a \<Rightarrow> 'a \<Rightarrow> jsnum) \<Rightarrow> nat \<Rightarrow> 'a list \<Rightarrow> 'a list \<Rightarrow> js_error + 'a list" where
  "topN_loop cmp n result [] = Inr result"
| "topN_loop cmp n result (item # items) =
     (if length result < n then topN_loop cmp n (sift cmp (result @ [item]) (length result)) items
      else if result = [] then Inl TypeError
      else if is_neg (cmp item (last result))
      then topN_loop cmp n (sift cmp (result[length result - 1 := item]) (length result - 1)) items
      else topN_loop cmp n result items)"

definition topN :: "'a list \<Rightarrow> nat \<Rightarrow> ('a \<Rightarrow> 'a \<Rightarrow> jsnum) \<Rightarrow> js_error + 'a list" where
  "topN arr n cmp = (if length arr \<le> n then Inr (js_sort cmp arr) else topN_loop cmp n [] arr)"

section \<open>Distribution\<close>

record HistogramBin =
  bn_count :: nat
  bn_height :: real
  bn_rangeStart :: real
  bn_rangeEnd :: jsnum
  bn_label :: string
  bn_color :: string

record Histogram =
  hg_bins :: "HistogramBin list"
  hg_slowCount :: nat
  hg_fastCount :: nat

definition next_multiplier :: "nat \<Rightarrow> real option" where
  "next_multiplier i = (if Suc i < length BIN_MULTIPLIERS then Some (BIN_MULTIPLIERS ! Suc i) else None)"

definition find_bin :: "jsnum \<Rightarrow> nat" where
  "find_bin ratio =
     (case find (\<lambda>i. case next_multiplier i of None \<Rightarrow> True | Some m \<Rightarrow> num_lt ratio (Fin m))
        [0..<length BIN_MULTIPLIERS] of
        Some i \<Rightarrow> i
      | None \<Rightarrow> length BIN_MULTIPLIERS - 1)"

definition count_value :: "real \<Rightarrow> real \<Rightarrow> nat list \<times> nat \<times> nat \<Rightarrow> nat list \<times> nat \<times> nat" where
  "count_value threshold v st =
     (case st of (counts, slow, fast) \<Rightarrow>
        let i = find_bin (num_quot v threshold)
        in (counts[i := counts ! i + 1], if v < threshold then slow + 1 else slow,
            if v < threshold then fast else fast + 1))"

definition histogram_bin :: "nat list \<Rightarrow> real \<Rightarrow> nat \<Rightarrow> HistogramBin" where
  "histogram_bin counts threshold i =
     (let maxCount = fold max counts 0;
          m = BIN_MULTIPLIERS ! i;
          rangeStart = m * threshold;
          midpoint = (case next_multiplier i of Some m' \<Rightarrow> (m + m') / 2 * threshold | None \<Rightarrow> m * (5 / 4) * threshold)
      in \<lparr>bn_count = counts ! i,
          bn_height = (if maxCount > 0 then log 10 (real (counts ! i) + 1) / log 10 (real maxCount + 1) * 100 else 0),
          bn_rangeStart = rangeStart,
          bn_rangeEnd = (case next_multiplier i of Some m' \<Rightarrow> Fin (m' * threshold) | None \<Rightarrow> PosInf),
          bn_label = (case next_multiplier i of
                        Some m' \<Rightarrow> toFixed 0 rangeStart @ ''-'' @ toFixed 0 (m' * threshold)
                      | None \<Rightarrow> toFixed 0 rangeStart @ ''+''),
          bn_color = getColorByThreshold midpoint threshold\<rparr>)"

definition computeHistogramBins :: "real list \<Rightarrow> real \<Rightarrow> Histogram" where
  "computeHistogramBins vs threshold =
     (let (counts, slow, fast) = fold (count_value threshold) vs (replicate (length BIN_MULTIPLIERS) 0, 0, 0)
      in \<lparr>hg_bins = map (histogram_bin counts threshold) [0..<length counts], hg_slowCount = slow, hg_fastCount = fast\<rparr>)"

section \<open>The tests\<close>

record RunData =
  rn_runId :: string
  rn_mgas :: real
  rn_runStart :: real

record TestClientStats =
  tc_avg :: real
  tc_min :: real
  tc_p99 :: real

record ProcessedTest =
  pt_name :: string
  pt_testNumber :: "nat option"
  pt_avgMgas :: real
  pt_minMgas :: real
  pt_maxMgas :: real
  pt_p99Mgas :: real
  pt_lastMgas :: real
  pt_clientRuns :: "RunData list js_object"
  pt_clientStats :: "TestClientStats js_object"

type_synonym suite_stats = "run_duration list js_object"

text \<open>Lookup tables of the test numbers (the last test of a name wins) and of the clients.\<close>

definition test_numbers :: "string list \<Rightarrow> (string, nat) js_map" where
  "test_numbers names = fold (\<lambda>(i, name). map_set name (i + 1)) (enumerate 0 names) []"

definition heatmap_clients :: "suite_stats \<Rightarrow> string list" where
  "heatmap_clients stats = sort (js_set_of (map rd_client (concat (map snd stats))))"

text \<open>The runs of a test with a speed, grouped by client.\<close>

definition run_speed :: "step_type list \<Rightarrow> run_duration \<Rightarrow> real option" where
  "run_speed fs d =
     (let a = getRunDurationAggregatedStats d fs in calculateMGasPerSec (da_gasUsed a) (da_timeNs a))"

definition add_run :: "step_type list \<Rightarrow> run_duration \<Rightarrow> RunData list js_object \<Rightarrow> RunData list js_object" where
  "add_run fs d m =
     (case run_speed fs d of
        None \<Rightarrow> m
      | Some mgas \<Rightarrow>
          obj_set (rd_client d)
            ((case map_of m (rd_client d) of None \<Rightarrow> [] | Some rs \<Rightarrow> rs) @
             [\<lparr>rn_runId = rd_id d, rn_mgas = mgas, rn_runStart = rd_run_start d\<rparr>]) m)"

definition clientRunsMap :: "step_type list \<Rightarrow> run_duration list \<Rightarrow> RunData list js_object" where
  "clientRunsMap fs durations = fold (add_run fs) durations []"

text \<open>The accumulators of the loop over the clients; the smallest, largest and latest values start at an
  infinity, which is \<open>None\<close> here.\<close>

record client_acc =
  ca_clientRuns :: "RunData list js_object"
  ca_clientStats :: "TestClientStats js_object"
  ca_allMgas :: "real list"
  ca_total :: real
  ca_count :: nat
  ca_min :: "real option"
  ca_max :: "real option"
  ca_lastStart :: "real option"
  ca_last :: real

definition empty_client_acc :: client_acc where
  "empty_client_acc = \<lparr>ca_clientRuns = [], ca_clientStats = [], ca_allMgas = [], ca_total = 0, ca_count = 0, ca_min = None,
     ca_max = None, ca_lastStart = None, ca_last = 0\<rparr>"

definition opt_with :: "(real \<Rightarrow> real \<Rightarrow> real) \<Rightarrow> real \<Rightarrow> real option \<Rightarrow> real option" where
  "opt_with f x m = Some (case m of None \<Rightarrow> x | Some y \<Rightarrow> f y x)"

definition by_start :: "RunData \<Rightarrow> RunData \<Rightarrow> jsnum" where
  "by_start a b = Fin (rn_runStart b - rn_runStart a)"

definition client_stats_of :: "RunData list \<Rightarrow> TestClientStats" where
  "client_stats_of recentRuns =
     (let xs = map rn_mgas recentRuns
      in \<lparr>tc_avg = fold (\<lambda>x t. t + x) xs 0 / real (length recentRuns),
          tc_min = fold (\<lambda>x m. min m x) (tl xs) (hd xs),
          tc_p99 = heat_percentile (num_sort xs) 99\<rparr>)"

definition add_client :: "string \<Rightarrow> RunData list \<Rightarrow> client_acc \<Rightarrow> client_acc" where
  "add_client client recentRuns a =
     (let newest = hd recentRuns;
          xs = map rn_mgas recentRuns;
          later = (case ca_lastStart a of None \<Rightarrow> True | Some t \<Rightarrow> rn_runStart newest > t)
      in \<lparr>ca_clientRuns = obj_set client recentRuns (ca_clientRuns a),
          ca_clientStats = obj_set client (client_stats_of recentRuns) (ca_clientStats a),
          ca_allMgas = ca_allMgas a @ xs,
          ca_total = fold (\<lambda>x t. t + x) xs (ca_total a),
          ca_count = ca_count a + length recentRuns,
          ca_min = fold (opt_with min) xs (ca_min a),
          ca_max = fold (opt_with max) xs (ca_max a),
          ca_lastStart = (if later then Some (rn_runStart newest) else ca_lastStart a),
          ca_last = (if later then rn_mgas newest else ca_last a)\<rparr>)"

fun client_loop :: "nat \<Rightarrow> client_acc \<Rightarrow> RunData list js_object \<Rightarrow> js_error + client_acc" where
  "client_loop n a [] = Inr a"
| "client_loop n a ((client, runs) # rest) =
     (if runs = [] then client_loop n a rest
      else case topN runs n by_start of
          Inl e \<Rightarrow> Inl e
        | Inr recentRuns \<Rightarrow>
            if recentRuns = [] then Inl TypeError else client_loop n (add_client client recentRuns a) rest)"

definition processTest :: "(string, nat) js_map \<Rightarrow> nat \<Rightarrow> step_type list \<Rightarrow> string \<Rightarrow> run_duration list \<Rightarrow>
    js_error + ProcessedTest option" where
  "processTest numbers n fs name durations =
     (case client_loop n empty_client_acc (clientRunsMap fs durations) of
        Inl e \<Rightarrow> Inl e
      | Inr a \<Rightarrow>
          Inr (if ca_count a = 0 then None
               else Some \<lparr>pt_name = name, pt_testNumber = map_of numbers name,
                 pt_avgMgas = ca_total a / real (ca_count a),
                 pt_minMgas = the (ca_min a), pt_maxMgas = the (ca_max a),
                 pt_p99Mgas = heat_percentile (num_sort (ca_allMgas a)) 99, pt_lastMgas = ca_last a,
                 pt_clientRuns = ca_clientRuns a, pt_clientStats = ca_clientStats a\<rparr>))"

fun process_tests :: "(string, nat) js_map \<Rightarrow> nat \<Rightarrow> step_type list \<Rightarrow> suite_stats \<Rightarrow> js_error + ProcessedTest list" where
  "process_tests numbers n fs [] = Inr []"
| "process_tests numbers n fs ((name, durations) # rest) =
     (case processTest numbers n fs name durations of
        Inl e \<Rightarrow> Inl e
      | Inr p \<Rightarrow>
          (case process_tests numbers n fs rest of
             Inl e \<Rightarrow> Inl e
           | Inr ps \<Rightarrow> Inr (case p of None \<Rightarrow> ps | Some t \<Rightarrow> t # ps)))"

definition allTests :: "suite_stats \<Rightarrow> string list \<Rightarrow> nat \<Rightarrow> step_type list \<Rightarrow> js_error + ProcessedTest list" where
  "allTests stats testFiles n fs = process_tests (test_numbers testFiles) n fs stats"

section \<open>Search, order and pages\<close>

datatype StatColumn = AvgMgas | MinMgas | P99Mgas
datatype TestSortField = TestNumber | StatField StatColumn

definition STAT_COLUMNS :: "StatColumn list" where
  "STAT_COLUMNS = [AvgMgas, MinMgas, P99Mgas]"

fun test_stat :: "StatColumn \<Rightarrow> ProcessedTest \<Rightarrow> real" where
  "test_stat AvgMgas t = pt_avgMgas t"
| "test_stat MinMgas t = pt_minMgas t"
| "test_stat P99Mgas t = pt_p99Mgas t"

fun client_stat :: "StatColumn \<Rightarrow> TestClientStats \<Rightarrow> real" where
  "client_stat AvgMgas s = tc_avg s"
| "client_stat MinMgas s = tc_min s"
| "client_stat P99Mgas s = tc_p99 s"

text \<open>The regular expressions of the platform are a parameter: \<open>None\<close> when the pattern is rejected, else the
  test of a name.\<close>

definition heatmap_filteredTests ::
  "(string \<Rightarrow> (string \<Rightarrow> bool) option) \<Rightarrow> string \<Rightarrow> bool \<Rightarrow> ProcessedTest list \<Rightarrow> ProcessedTest list" where
  "heatmap_filteredTests regexp search useRegex tests =
     (if search = [] then tests
      else if useRegex
      then (case regexp search of None \<Rightarrow> tests | Some re \<Rightarrow> filter (\<lambda>t. re (pt_name t)) tests)
      else filter (\<lambda>t. testNameMatches (pt_name t) search) tests)"

fun sort_value :: "TestSortField \<Rightarrow> ProcessedTest \<Rightarrow> jsnum" where
  "sort_value TestNumber t = (case pt_testNumber t of None \<Rightarrow> PosInf | Some n \<Rightarrow> Fin (real n))"
| "sort_value (StatField c) t = Fin (test_stat c t)"

definition heatmap_cmp :: "TestSortField \<Rightarrow> SortDirection \<Rightarrow> ProcessedTest \<Rightarrow> ProcessedTest \<Rightarrow> jsnum" where
  "heatmap_cmp field dir a b =
     (if dir = Ascending then num_sub (sort_value field a) (sort_value field b)
      else num_sub (sort_value field b) (sort_value field a))"

text \<open>The state of the heat map. An option that the page keeps in its address is the value last set.\<close>

record test_heatmap =
  th_currentPage :: int
  th_pageSize :: int
  th_sortField :: TestSortField
  th_sortDirection :: SortDirection
  th_threshold :: real
  th_histogramStat :: StatColumn
  th_runsPerClient :: nat
  th_search :: string
  th_useRegex :: bool
  th_fullscreen :: bool

definition open_heatmap :: test_heatmap where
  "open_heatmap =
     \<lparr>th_currentPage = 1, th_pageSize = HEATMAP_PAGE_SIZE, th_sortField = StatField AvgMgas,
      th_sortDirection = Ascending, th_threshold = SLOW_DEFAULT, th_histogramStat = AvgMgas,
      th_runsPerClient = DEFAULT_RUNS_PER_CLIENT, th_search = [], th_useRegex = False, th_fullscreen = False\<rparr>"

definition heatmap_handlePageSizeChange :: "int \<Rightarrow> test_heatmap \<Rightarrow> test_heatmap" where
  "heatmap_handlePageSizeChange sz s = s\<lparr>th_pageSize := sz, th_currentPage := 1\<rparr>"

definition tests_handleSort :: "TestSortField \<Rightarrow> test_heatmap \<Rightarrow> test_heatmap" where
  "tests_handleSort field s =
     (let s' = (if th_sortField s = field
                then s\<lparr>th_sortDirection := (if th_sortDirection s = Ascending then Descending else Ascending)\<rparr>
                else s\<lparr>th_sortField := field, th_sortDirection := Ascending\<rparr>)
      in s'\<lparr>th_currentPage := 1\<rparr>)"

definition handleThresholdChange :: "real \<Rightarrow> test_heatmap \<Rightarrow> test_heatmap" where
  "handleThresholdChange v s = (if v \<ge> SLOW_MIN \<and> v \<le> SLOW_MAX then s\<lparr>th_threshold := v\<rparr> else s)"

definition heatmap_handleKey :: "string \<Rightarrow> test_heatmap \<Rightarrow> test_heatmap" where
  "heatmap_handleKey k s =
     (if th_fullscreen s \<and> k = ''Escape'' then s\<lparr>th_fullscreen := False\<rparr> else s)"

datatype heatmap_event =
  HPage int | HSize int | HSort TestSortField | HThreshold real | HReset | HStat StatColumn | HRuns nat
| HSearch string | HRegex bool | HFullscreen | HKey string

fun heatmap_step :: "test_heatmap \<Rightarrow> heatmap_event \<Rightarrow> test_heatmap" where
  "heatmap_step s (HPage p) = s\<lparr>th_currentPage := p\<rparr>"
| "heatmap_step s (HSize n) = heatmap_handlePageSizeChange n s"
| "heatmap_step s (HSort f) = tests_handleSort f s"
| "heatmap_step s (HThreshold v) = handleThresholdChange v s"
| "heatmap_step s HReset = s\<lparr>th_threshold := SLOW_DEFAULT\<rparr>"
| "heatmap_step s (HStat c) = s\<lparr>th_histogramStat := c\<rparr>"
| "heatmap_step s (HRuns n) = s\<lparr>th_runsPerClient := n\<rparr>"
| "heatmap_step s (HSearch q) = s\<lparr>th_search := q\<rparr>"
| "heatmap_step s (HRegex b) = s\<lparr>th_useRegex := b\<rparr>"
| "heatmap_step s HFullscreen = s\<lparr>th_fullscreen := \<not> th_fullscreen s\<rparr>"
| "heatmap_step s (HKey k) = heatmap_handleKey k s"

definition heatmap_sortedTests ::
  "(string \<Rightarrow> (string \<Rightarrow> bool) option) \<Rightarrow> test_heatmap \<Rightarrow> ProcessedTest list \<Rightarrow> ProcessedTest list" where
  "heatmap_sortedTests regexp s tests =
     js_sort (heatmap_cmp (th_sortField s) (th_sortDirection s))
       (heatmap_filteredTests regexp (th_search s) (th_useRegex s) tests)"

definition heatmap_totalPages ::
  "(string \<Rightarrow> (string \<Rightarrow> bool) option) \<Rightarrow> test_heatmap \<Rightarrow> ProcessedTest list \<Rightarrow> jsnum" where
  "heatmap_totalPages regexp s tests = page_count (length (heatmap_sortedTests regexp s tests)) (th_pageSize s)"

definition paginatedTests ::
  "(string \<Rightarrow> (string \<Rightarrow> bool) option) \<Rightarrow> test_heatmap \<Rightarrow> ProcessedTest list \<Rightarrow> ProcessedTest list" where
  "paginatedTests regexp s tests = page_slice (th_pageSize s) (heatmap_sortedTests regexp s tests) (th_currentPage s)"

definition histogramData ::
  "(string \<Rightarrow> (string \<Rightarrow> bool) option) \<Rightarrow> test_heatmap \<Rightarrow> ProcessedTest list \<Rightarrow> Histogram" where
  "histogramData regexp s tests =
     (let kept = heatmap_filteredTests regexp (th_search s) (th_useRegex s) tests
      in if kept = [] then \<lparr>hg_bins = [], hg_slowCount = 0, hg_fastCount = 0\<rparr>
         else computeHistogramBins (map (test_stat (th_histogramStat s)) kept) (th_threshold s))"

definition perClientHistogramData ::
  "(string \<Rightarrow> (string \<Rightarrow> bool) option) \<Rightarrow> test_heatmap \<Rightarrow> string list \<Rightarrow> ProcessedTest list \<Rightarrow> Histogram js_object" where
  "perClientHistogramData regexp s clients tests =
     fold (\<lambda>client result.
       let kept = heatmap_filteredTests regexp (th_search s) (th_useRegex s) tests;
           vs = List.map_filter (\<lambda>t. map_option (client_stat (th_histogramStat s)) (map_of (pt_clientStats t) client)) kept
       in if vs \<noteq> [] then obj_set client (computeHistogramBins vs (th_threshold s)) result else result)
     clients []"

text \<open>The boxes of a cell, row by row; a missing run is a grey box.\<close>

definition cell_rows :: "nat \<Rightarrow> RunData list \<Rightarrow> RunData option list list" where
  "cell_rows runsPerClient runs =
     (let numRows = nat \<lceil>real runsPerClient / real BOXES_PER_ROW\<rceil>
      in map (\<lambda>row. map (\<lambda>col. let i = row * BOXES_PER_ROW + col
                               in if i < length runs then Some (runs ! i) else None) [0..<BOXES_PER_ROW])
           [0..<numRows])"

definition box_colors :: "real \<Rightarrow> ProcessedTest \<Rightarrow> RunData \<Rightarrow> string \<times> string" where
  "box_colors threshold t r =
     (getColorByThreshold (rn_mgas r) threshold,
      getColorByNormalizedValue (rn_mgas r) (pt_minMgas t) (pt_maxMgas t))"

section \<open>Highlighted names\<close>

text \<open>The search is split out of the name without regard to case; in the mode without regular expressions
  all its characters stand for themselves. \<open>String.split\<close> by an expression with a group returns the texts
  between the matches and the matches in turn.\<close>

definition same_text :: "string \<Rightarrow> string \<Rightarrow> bool" where
  "same_text a b \<longleftrightarrow> to_lower a = to_lower b"

definition matches_here :: "string \<Rightarrow> string \<Rightarrow> bool" where
  "matches_here search s \<longleftrightarrow> length search \<le> length s \<and> same_text (take (length search) s) search"

function split_parts :: "string \<Rightarrow> string \<Rightarrow> string \<Rightarrow> string list" where
  "split_parts search cur [] = [cur]"
| "split_parts search cur (c # cs) =
     (if matches_here search (c # cs)
      then cur # take (length search) (c # cs) # split_parts search [] (drop (length search - 1) cs)
      else split_parts search (cur @ [c]) cs)"
  by pat_completeness auto
termination by (relation "measure (\<lambda>(_, _, s). length s)") auto

text \<open>A test by an expression with the global flag starts at the index the test before left behind.\<close>

definition test_from :: "string \<Rightarrow> string \<Rightarrow> nat \<Rightarrow> bool \<times> nat" where
  "test_from search part lastIndex =
     (case find (\<lambda>i. matches_here search (drop i part)) [lastIndex..<length part + 1] of
        Some i \<Rightarrow> (True, i + length search)
      | None \<Rightarrow> (False, 0))"

fun highlight_parts :: "string \<Rightarrow> nat \<Rightarrow> string list \<Rightarrow> (string \<times> bool) list" where
  "highlight_parts search li [] = []"
| "highlight_parts search li (part # parts) =
     (let (hit, li') = test_from search part li in (part, hit) # highlight_parts search li' parts)"

definition splitByMatch :: "string \<Rightarrow> string \<Rightarrow> (string \<times> bool) list" where
  "splitByMatch name search =
     (if search = [] then [(name, False)]
      else let parts = split_parts search [] name
           in if length parts = 1 then [(name, False)]
              else highlight_parts search 0 (filter (\<lambda>p. p \<noteq> []) parts))"

section \<open>Lemmas\<close>

subsection \<open>The newest runs\<close>

text \<open>Where the inner loop leaves the last element: behind the elements that are not greater.\<close>

function place :: "('a \<Rightarrow> 'a \<Rightarrow> jsnum) \<Rightarrow> 'a \<Rightarrow> 'a list \<Rightarrow> 'a list" where
  "place cmp x xs =
     (if xs \<noteq> [] \<and> is_pos (cmp (last xs) x) then place cmp x (butlast xs) @ [last xs] else xs @ [x])"
  by pat_completeness auto
termination by (relation "measure (\<lambda>(_, _, xs). length xs)") auto

declare place.simps [simp del]

lemma place_simps [simp]:
  "place cmp x [] = [x]"
  "place cmp x (xs @ [y]) = (if is_pos (cmp y x) then place cmp x xs @ [y] else xs @ [y, x])"
  by (simp_all add: place.simps)

lemma sift_place: "sift cmp (xs @ x # ys) (length xs) = place cmp x xs @ ys"
proof (induction xs arbitrary: ys rule: rev_induct)
  case (snoc y xs)
  have swap: "(xs @ x # x # ys)[Suc (length xs) := y] = xs @ x # y # ys"
    by (simp add: list_update_append)
  show ?case using snoc.IH [of "y # ys"] by (simp add: nth_append swap)
qed simp

lemma length_place [simp]: "length (place cmp x xs) = Suc (length xs)"
  by (induction xs rule: rev_induct) auto

lemma set_place [simp]: "set (place cmp x xs) = insert x (set xs)"
  by (induction xs rule: rev_induct) auto

lemma place_past: "\<forall>y \<in> set ys. is_pos (cmp y x) \<Longrightarrow> place cmp x (xs @ ys) = place cmp x xs @ ys"
proof (induction ys rule: rev_induct)
  case (snoc y ys)
  then show ?case using place_simps(2) [of cmp x "xs @ ys" y] by simp
qed simp

lemma place_behind:
  assumes "xs \<noteq> []" "\<not> is_pos (cmp (last xs) x)"
  shows "place cmp x (xs @ ys) = xs @ place cmp x ys"
proof (induction ys rule: rev_induct)
  case Nil
  show ?case using assms by (cases xs rule: rev_cases) auto
next
  case (snoc y ys)
  then show ?case using place_simps(2) [of cmp x "xs @ ys" y] by simp
qed

context comparator
begin

lemma sorted_place:
  "sorted_wrt (\<lambda>a b. \<not> is_pos (cmp a b)) xs \<Longrightarrow> sorted_wrt (\<lambda>a b. \<not> is_pos (cmp a b)) (place cmp x xs)"
proof (induction xs rule: rev_induct)
  case (snoc y xs)
  note IH = this
  show ?case
  proof (cases "is_pos (cmp y x)")
    case True
    then have "\<not> is_pos (cmp x y)" by (rule asym)
    then show ?thesis using IH True by (simp add: sorted_wrt_append)
  next
    case False
    then have "\<forall>z \<in> set xs. \<not> is_pos (cmp z x)" using IH trans [of _ y x] by (auto simp: sorted_wrt_append)
    then show ?thesis using IH False by (simp add: sorted_wrt_append)
  qed
qed simp

lemma stable_place: "filter (tied a) (place cmp x xs) = filter (tied a) (xs @ [x])"
proof (induction xs rule: rev_induct)
  case (snoc y xs)
  have "is_pos (cmp y x) \<Longrightarrow> \<not> (tied a x \<and> tied a y)" using trans [of y a x] by (auto simp: tied_def)
  with snoc show ?case by auto
qed simp

lemma place_sort: "place cmp x (js_sort cmp xs) = js_sort cmp (xs @ [x])"
  by (rule js_sort_unique) (simp_all add: sorted_place sorted_js_sort stable_place stable_js_sort)

text \<open>One round of the loop keeps the first elements of the sorted list.\<close>

lemma topN_round:
  assumes "0 < n" "length (take n S) = n" "sorted_wrt (\<lambda>a b. \<not> is_pos (cmp a b)) S" "r = take n S"
  shows "take n (place cmp x S) =
    (if is_neg (cmp x (last r)) then sift cmp (r[length r - 1 := x]) (length r - 1) else r)"
proof -
  have "r \<noteq> []" using assms(1,2,4) by auto
  then obtain r' l where r: "r = r' @ [l]" by (cases r rule: rev_cases) auto
  have "Suc (length r') = n" using assms(2,4) r by (metis length_append_singleton)
  then have len: "length r' = n - 1" by simp
  define T where "T = drop n S"
  have S: "S = r' @ l # T" using r assms(4) append_take_drop_id [of n S] by (simp add: T_def)
  show ?thesis
  proof (cases "is_pos (cmp l x)")
    case True
    have "\<forall>y \<in> set (l # T). is_pos (cmp y x)"
      using True assms(3) trans unfolding S by (auto simp: sorted_wrt_append)
    then have "place cmp x S = place cmp x r' @ l # T" unfolding S by (rule place_past)
    then have "take n (place cmp x S) = place cmp x r'" using len assms(1) by simp
    moreover have "sift cmp (r[length r - 1 := x]) (length r - 1) = place cmp x r'"
      using sift_place [of cmp r' x "[]"] by (simp add: r)
    ultimately show ?thesis using True anti by (simp add: r)
  next
    case False
    then have "place cmp x S = r @ place cmp x T"
      using place_behind [of r cmp x T] by (simp add: S r)
    then show ?thesis using False anti len assms(1) r by simp
  qed
qed

lemma topN_loop_take:
  "0 < n \<Longrightarrow> topN_loop cmp n (take n (js_sort cmp ps)) xs = Inr (take n (js_sort cmp (ps @ xs)))"
proof (induction xs arbitrary: ps)
  case (Cons x xs)
  let ?r = "take n (js_sort cmp ps)"
  have next_step: "topN_loop cmp n (take n (place cmp x (js_sort cmp ps))) xs = Inr (take n (js_sort cmp (ps @ x # xs)))"
    using Cons.IH [OF Cons.prems, of "ps @ [x]"] by (simp add: place_sort)
  show ?case
  proof (cases "length ?r < n")
    case True
    then have short: "?r = js_sort cmp ps" "length ps < n" by simp_all
    then have "sift cmp (?r @ [x]) (length ?r) = take n (place cmp x (js_sort cmp ps))"
      using sift_place [of cmp ?r x "[]"] by simp
    then show ?thesis using True next_step by simp
  next
    case False
    then have "length ?r = n" by simp
    then have "?r \<noteq> []" using Cons.prems by auto
    then show ?thesis
      using False next_step topN_round [OF Cons.prems \<open>length ?r = n\<close> sorted_js_sort HOL.refl] by (auto split: if_splits)
  qed
qed simp

lemma topN_take:
  assumes "0 < n \<or> xs = []"
  shows "topN xs n cmp = Inr (take n (js_sort cmp xs))"
  using assms topN_loop_take [of n "[]" xs] by (auto simp: topN_def)

end

lemma topN_zero: "xs \<noteq> [] \<Longrightarrow> topN xs 0 cmp = Inl TypeError"
  by (cases xs) (auto simp: topN_def)

subsection \<open>Distribution\<close>

lemma multipliers: "length BIN_MULTIPLIERS = 11"
  by (simp add: BIN_MULTIPLIERS_def)

lemma bins_upt: "[0..<11] = [0, 1, 2, 3, 4, 5, 6, 7, 8, 9, 10::nat]"
  by (simp add: upt_rec)

lemma next_multiplier_values:
  "next_multiplier 0 = Some (1 / 4)" "next_multiplier (Suc 0) = Some (1 / 2)" "next_multiplier 2 = Some (3 / 4)"
  "next_multiplier 3 = Some 1" "next_multiplier 4 = Some (5 / 4)" "next_multiplier 5 = Some (3 / 2)"
  "next_multiplier 6 = Some (7 / 4)" "next_multiplier 7 = Some 2" "next_multiplier 8 = Some (5 / 2)"
  "next_multiplier 9 = Some 3" "next_multiplier 10 = None"
  by (simp_all add: next_multiplier_def BIN_MULTIPLIERS_def)

lemma multiplier_values:
  "BIN_MULTIPLIERS ! 0 = 0" "BIN_MULTIPLIERS ! Suc 0 = 1 / 4" "BIN_MULTIPLIERS ! 2 = 1 / 2" "BIN_MULTIPLIERS ! 3 = 3 / 4"
  "BIN_MULTIPLIERS ! 4 = 1" "BIN_MULTIPLIERS ! 5 = 5 / 4" "BIN_MULTIPLIERS ! 6 = 3 / 2" "BIN_MULTIPLIERS ! 7 = 7 / 4"
  "BIN_MULTIPLIERS ! 8 = 2" "BIN_MULTIPLIERS ! 9 = 5 / 2" "BIN_MULTIPLIERS ! 10 = 3"
  by (simp_all add: BIN_MULTIPLIERS_def)

lemma find_bin_cases:
  "find_bin r = (if num_lt r (Fin (1 / 4)) then 0 else if num_lt r (Fin (1 / 2)) then 1
     else if num_lt r (Fin (3 / 4)) then 2 else if num_lt r (Fin 1) then 3 else if num_lt r (Fin (5 / 4)) then 4
     else if num_lt r (Fin (3 / 2)) then 5 else if num_lt r (Fin (7 / 4)) then 6 else if num_lt r (Fin 2) then 7
     else if num_lt r (Fin (5 / 2)) then 8 else if num_lt r (Fin 3) then 9 else 10)"
  by (simp add: find_bin_def multipliers bins_upt next_multiplier_values)

lemma less_11: "i < 11 \<longleftrightarrow> i \<in> {0, 1, 2, 3, 4, 5, 6, 7, 8, 9, 10::nat}"
  by (simp, presburger)

lemma find_bin_less: "find_bin r < 11"
  by (simp add: find_bin_cases)

text \<open>A value that is not negative lies in the bin whose multiples of the threshold enclose it.\<close>

lemma find_bin_iff:
  assumes "i < 11" "0 \<le> x"
  shows "find_bin (Fin x) = i \<longleftrightarrow>
    BIN_MULTIPLIERS ! i \<le> x \<and> (case next_multiplier i of None \<Rightarrow> True | Some m \<Rightarrow> x < m)"
  using assms unfolding less_11
  by (elim insertE emptyE; simp add: find_bin_cases multiplier_values next_multiplier_values)

lemma find_bin_slow: "find_bin (Fin x) < 4 \<longleftrightarrow> x < 1"
  by (auto simp: find_bin_cases)

lemma count_value_eq:
  "count_value th v (counts, slow, fast) =
     (counts[find_bin (num_quot v th) := counts ! find_bin (num_quot v th) + 1],
      if v < th then slow + 1 else slow, if v < th then fast else fast + 1)"
  by (simp add: count_value_def Let_def)

lemma count_values:
  "length counts = 11 \<Longrightarrow> fold (count_value th) vs (counts, slow, fast) = (counts', slow', fast') \<Longrightarrow>
   length counts' = 11 \<and>
   (\<forall>i < 11. counts' ! i = counts ! i + length (filter (\<lambda>v. find_bin (num_quot v th) = i) vs)) \<and>
   slow' = slow + length (filter (\<lambda>v. v < th) vs) \<and> fast' = fast + length (filter (\<lambda>v. \<not> v < th) vs)"
proof (induction vs arbitrary: counts slow fast)
  case (Cons v vs)
  let ?i = "find_bin (num_quot v th)"
  have "fold (count_value th) vs (counts[?i := counts ! ?i + 1], if v < th then slow + 1 else slow,
      if v < th then fast else fast + 1) = (counts', slow', fast')"
    using Cons.prems(2) by (simp only: fold.simps o_apply count_value_eq)
  from Cons.IH [OF _ this] Cons.prems(1) show ?case
    using find_bin_less [of "num_quot v th"] by (auto simp: nth_list_update)
qed simp

lemma counts_sum:
  assumes "\<And>i. i < n \<Longrightarrow> f i = length (filter (\<lambda>v. g v = i) vs)"
  shows "(\<Sum>i\<leftarrow>[0..<n]. f i) = length (filter (\<lambda>v. g v < n) vs)"
  using assms
proof (induction n)
  case (Suc n)
  have "length (filter (\<lambda>v. g v < Suc n) vs) = length (filter (\<lambda>v. g v < n) vs) + length (filter (\<lambda>v. g v = n) vs)"
    by (induction vs) auto
  then show ?case using Suc by simp
qed simp

lemma fold_max: "fold max xs m = Max (insert m (set xs))" for m :: nat
proof (induction xs arbitrary: m)
  case (Cons x xs)
  then show ?case by (cases "xs = []") (simp_all add: insert_commute max.commute)
qed simp

lemma bin_height:
  assumes "i < length counts"
  shows "0 \<le> bn_height (histogram_bin counts th i)" "bn_height (histogram_bin counts th i) \<le> 100"
    "counts ! i \<le> counts ! j \<Longrightarrow> j < length counts \<Longrightarrow>
       bn_height (histogram_bin counts th i) \<le> bn_height (histogram_bin counts th j)"
    "counts ! i = fold max counts 0 \<Longrightarrow> counts ! i > 0 \<Longrightarrow> bn_height (histogram_bin counts th i) = 100"
proof -
  let ?m = "fold max counts 0"
  have le: "counts ! i \<le> ?m" using assms unfolding fold_max by (intro Max_ge) auto
  have scale: "log 10 (real a + 1) / log 10 (real ?m + 1) * 100 \<le> log 10 (real b + 1) / log 10 (real ?m + 1) * 100"
    if "a \<le> b" "0 < ?m" for a b
    using that by (intro mult_right_mono divide_right_mono) auto
  have top: "log 10 (real ?m + 1) / log 10 (real ?m + 1) * 100 = 100" if "0 < ?m"
  proof -
    have "0 < log 10 (real ?m + 1)" using that by simp
    then have "log 10 (real ?m + 1) \<noteq> 0" by (rule less_imp_neq [symmetric])
    then show ?thesis by (simp only: divide_self [OF \<open>log 10 (real ?m + 1) \<noteq> 0\<close>] mult_1_left)
  qed
  show "0 \<le> bn_height (histogram_bin counts th i)"
    by (auto simp: histogram_bin_def Let_def intro!: divide_nonneg_nonneg mult_nonneg_nonneg)
  show "bn_height (histogram_bin counts th i) \<le> 100"
    using scale [OF le] top by (simp add: histogram_bin_def Let_def)
  show "counts ! i \<le> counts ! j \<Longrightarrow> j < length counts \<Longrightarrow>
       bn_height (histogram_bin counts th i) \<le> bn_height (histogram_bin counts th j)"
    using scale by (simp add: histogram_bin_def Let_def)
  show "counts ! i = fold max counts 0 \<Longrightarrow> counts ! i > 0 \<Longrightarrow> bn_height (histogram_bin counts th i) = 100"
    using top by (simp add: histogram_bin_def Let_def)
qed

lemma bin_color_slow:
  assumes "0 < th" "i < 11"
  shows "THRESHOLD_LIMIT_STEP < color_rank (bn_color (histogram_bin counts th i)) \<longleftrightarrow> i < 4"
proof -
  have "bn_color (histogram_bin counts th i) = THRESHOLD_COLORS ! thresholdStep (Fin
      (case next_multiplier i of Some m' \<Rightarrow> (BIN_MULTIPLIERS ! i + m') / 2 | None \<Rightarrow> BIN_MULTIPLIERS ! i * (5 / 4)))"
    using assms(1) by (simp add: histogram_bin_def Let_def getColorByThreshold_def num_quot_Fin split: option.split)
  then have "color_rank (bn_color (histogram_bin counts th i)) \<le> THRESHOLD_LIMIT_STEP \<longleftrightarrow>
      1 \<le> (case next_multiplier i of Some m' \<Rightarrow> (BIN_MULTIPLIERS ! i + m') / 2 | None \<Rightarrow> BIN_MULTIPLIERS ! i * (5 / 4))"
    by (simp add: thresholdStep_limit)
  also have "\<dots> \<longleftrightarrow> \<not> i < 4"
    using assms(2) unfolding less_11
    by (elim insertE emptyE; simp add: multiplier_values next_multiplier_values)
  finally show ?thesis by auto
qed

lemma bin_range:
  assumes "0 < th" "0 \<le> v" "i < 11"
  shows "find_bin (num_quot v th) = i \<longleftrightarrow> bn_rangeStart (histogram_bin counts th i) \<le> v \<and>
    num_lt (Fin v) (bn_rangeEnd (histogram_bin counts th i))"
proof -
  have "find_bin (num_quot v th) = find_bin (Fin (v / th))" using assms(1) by (simp add: num_quot_Fin)
  also have "\<dots> = i \<longleftrightarrow> BIN_MULTIPLIERS ! i \<le> v / th \<and> (case next_multiplier i of None \<Rightarrow> True | Some m \<Rightarrow> v / th < m)"
    using find_bin_iff [OF assms(3), of "v / th"] assms(1,2) by simp
  also have "\<dots> \<longleftrightarrow> bn_rangeStart (histogram_bin counts th i) \<le> v \<and>
      num_lt (Fin v) (bn_rangeEnd (histogram_bin counts th i))"
    using assms(1) by (simp add: histogram_bin_def Let_def pos_le_divide_eq pos_divide_less_eq split: option.split)
  finally show ?thesis .
qed

lemma highest_bin:
  assumes "length counts = 11" "i < 11" "counts ! i > 0"
  shows "\<exists>j < 11. bn_height (histogram_bin counts th j) = 100"
proof -
  have "Max (insert 0 (set counts)) \<in> insert 0 (set counts)" by (rule Max_in) auto
  moreover have "counts ! i \<le> Max (insert 0 (set counts))" using assms(1,2) by (intro Max_ge) auto
  ultimately obtain j where "j < 11" "counts ! j = fold max counts 0" "counts ! j > 0"
    using assms by (auto simp: fold_max in_set_conv_nth)
  then show ?thesis using bin_height(4) [of j counts th] assms(1) by auto
qed

text \<open>The distribution of the test heat map counts every value once. For values that are not negative and
  a positive threshold: a bar counts the values between its bounds, the bars add up to all values, the bars
  left of the line at the threshold add up to the slow ones and are the ones in slow colours, slow and fast
  make up everything; no bar is higher than the frame, a bar with more values is not lower, and the highest
  fills the frame.\<close>

theorem test_histogram_reference:
  assumes "0 < th" "\<forall>v \<in> set vs. 0 \<le> v" "h = computeHistogramBins vs th"
  shows "length (hg_bins h) = 11 \<and>
    (\<forall>b \<in> set (hg_bins h). bn_count b = length (filter (\<lambda>v. bn_rangeStart b \<le> v \<and> num_lt (Fin v) (bn_rangeEnd b)) vs)) \<and>
    sum_list (map bn_count (hg_bins h)) = length vs \<and>
    hg_slowCount h = length (filter (\<lambda>v. v < th) vs) \<and> hg_slowCount h + hg_fastCount h = length vs \<and>
    sum_list (map bn_count (take 4 (hg_bins h))) = hg_slowCount h \<and>
    (\<forall>i < 11. THRESHOLD_LIMIT_STEP < color_rank (bn_color (hg_bins h ! i)) \<longleftrightarrow> i < 4) \<and>
    (\<forall>b \<in> set (hg_bins h). 0 \<le> bn_height b \<and> bn_height b \<le> 100) \<and>
    (\<forall>a \<in> set (hg_bins h). \<forall>b \<in> set (hg_bins h). bn_count a \<le> bn_count b \<longrightarrow> bn_height a \<le> bn_height b) \<and>
    (vs \<noteq> [] \<longrightarrow> (\<exists>b \<in> set (hg_bins h). bn_height b = 100))"
proof -
  obtain counts slow fast where f: "fold (count_value th) vs (replicate 11 0, 0, 0) = (counts, slow, fast)"
    using prod_cases3 by blast
  have c: "length counts = 11" "slow = length (filter (\<lambda>v. v < th) vs)" "fast = length (filter (\<lambda>v. \<not> v < th) vs)"
    "\<And>i. i < 11 \<Longrightarrow> counts ! i = length (filter (\<lambda>v. find_bin (num_quot v th) = i) vs)"
    using count_values [OF _ f] by simp_all
  have h: "h = \<lparr>hg_bins = map (histogram_bin counts th) [0..<11], hg_slowCount = slow, hg_fastCount = fast\<rparr>"
    using assms(3) f c(1) by (simp add: computeHistogramBins_def multipliers)
  have counted: "bn_count (histogram_bin counts th i) = counts ! i" for i
    by (simp add: histogram_bin_def Let_def)
  have total: "(\<Sum>i\<leftarrow>[0..<n]. counts ! i) = length (filter (\<lambda>v. find_bin (num_quot v th) < n) vs)" if "n \<le> 11" for n
    using c(4) that by (intro counts_sum) simp
  have slow: "find_bin (num_quot v th) < 4 \<longleftrightarrow> v < th" for v
    using assms(1) by (simp add: num_quot_Fin find_bin_slow)
  have ranges: "counts ! i = length (filter (\<lambda>v. bn_rangeStart (histogram_bin counts th i) \<le> v \<and>
      num_lt (Fin v) (bn_rangeEnd (histogram_bin counts th i))) vs)" if "i < 11" for i
    using bin_range [OF assms(1) _ that] assms(2) by (simp add: c(4) [OF that] cong: filter_cong)
  have all: "sum_list (map bn_count (hg_bins h)) = length vs"
    using total [of 11] find_bin_less by (simp add: h counted o_def)
  have left: "sum_list (map bn_count (take 4 (hg_bins h))) = hg_slowCount h"
    using total [of 4] slow by (simp add: h counted o_def take_map c(2))
  have both: "slow + fast = length vs" using c(2,3) sum_length_filter_compl [of "\<lambda>v. v < th" vs] by simp
  have top: "\<exists>b \<in> set (hg_bins h). bn_height b = 100" if "vs \<noteq> []"
  proof -
    have "counts ! find_bin (num_quot (hd vs) th) > 0"
      using that c(4) [OF find_bin_less, of "num_quot (hd vs) th"] by (cases vs) auto
    then have "\<exists>j < 11. bn_height (histogram_bin counts th j) = 100"
      using highest_bin [OF c(1) find_bin_less] by blast
    then show ?thesis by (auto simp: h)
  qed
  have bars: "\<forall>b \<in> set (hg_bins h). bn_count b =
      length (filter (\<lambda>v. bn_rangeStart b \<le> v \<and> num_lt (Fin v) (bn_rangeEnd b)) vs)"
    using ranges by (auto simp: h counted)
  have heights: "\<forall>b \<in> set (hg_bins h). 0 \<le> bn_height b \<and> bn_height b \<le> 100"
    "\<forall>a \<in> set (hg_bins h). \<forall>b \<in> set (hg_bins h). bn_count a \<le> bn_count b \<longrightarrow> bn_height a \<le> bn_height b"
    using bin_height(1,2) [of _ counts th] bin_height(3) [of _ counts _ th] c(1) by (auto simp: h counted)
  have colours: "\<forall>i < 11. THRESHOLD_LIMIT_STEP < color_rank (bn_color (hg_bins h ! i)) \<longleftrightarrow> i < 4"
    using bin_color_slow [OF assms(1)] by (simp add: h)
  have counted_slow: "length (hg_bins h) = 11" "hg_slowCount h = length (filter (\<lambda>v. v < th) vs)"
    "hg_slowCount h + hg_fastCount h = length vs"
    using c(2) both by (simp_all add: h)
  show ?thesis using counted_slow bars all left colours heights top by (intro conjI impI) assumption+
qed

subsection \<open>The rows\<close>

text \<open>What a row shows, from the runs of its test: of each client the latest runs that have a speed.\<close>

definition speed_runs :: "step_type list \<Rightarrow> run_duration list \<Rightarrow> string \<Rightarrow> RunData list" where
  "speed_runs fs ds c =
     List.map_filter (\<lambda>d. map_option (\<lambda>m. \<lparr>rn_runId = rd_id d, rn_mgas = m, rn_runStart = rd_run_start d\<rparr>) (run_speed fs d))
       (filter (\<lambda>d. rd_client d = c) ds)"

definition latest :: "nat \<Rightarrow> RunData list \<Rightarrow> RunData list" where
  "latest n rs = take n (sort_key (\<lambda>r. - rn_runStart r) rs)"

lemma clientRunsMap_snoc: "clientRunsMap fs (ds @ [d]) = add_run fs d (clientRunsMap fs ds)"
  by (simp add: clientRunsMap_def)

lemma map_filter_append: "List.map_filter f (xs @ ys) = List.map_filter f xs @ List.map_filter f ys"
  by (simp add: List.map_filter_def)

lemma clientRunsMap_get:
  "map_of (clientRunsMap fs ds) c = (let rs = speed_runs fs ds c in if rs = [] then None else Some rs)"
proof (induction ds rule: rev_induct)
  case Nil
  show ?case by (simp add: clientRunsMap_def speed_runs_def List.map_filter_def)
next
  case (snoc d ds)
  have "speed_runs fs (ds @ [d]) c = speed_runs fs ds c @
      (case run_speed fs d of None \<Rightarrow> []
       | Some m \<Rightarrow> if rd_client d = c then [\<lparr>rn_runId = rd_id d, rn_mgas = m, rn_runStart = rd_run_start d\<rparr>] else [])"
    by (simp add: speed_runs_def map_filter_append List.map_filter_def split: option.split)
  then show ?case
    using snoc.IH by (auto simp: clientRunsMap_snoc add_run_def jo.get_put Let_def split: option.splits if_splits)
qed

lemma canonical_clientRunsMap: "canonical (clientRunsMap fs ds)"
  by (induction ds rule: rev_induct)
     (auto simp: clientRunsMap_snoc add_run_def clientRunsMap_def [of _ "[]"] intro: canonical_obj_set split: option.split)

lemma by_start_key: "by_start = key_cmp (\<lambda>r. - rn_runStart r)"
  by (simp add: fun_eq_iff by_start_def key_cmp_def)

lemma topN_latest: "0 < n \<Longrightarrow> topN rs n by_start = Inr (latest n rs)"
  by (simp add: by_start_key key.topN_take latest_def js_sort_key)

lemma latest_nonempty: "0 < n \<Longrightarrow> rs \<noteq> [] \<Longrightarrow> latest n rs \<noteq> []"
  by (metis latest_def length_sort list.size(3) length_greater_0_conv take_eq_Nil2)

text \<open>The loop over the clients is the fold of its body over the latest runs.\<close>

definition add_clients :: "RunData list js_object \<Rightarrow> client_acc \<Rightarrow> client_acc" where
  "add_clients L a = fold (\<lambda>(c, rs). add_client c rs) L a"

lemma client_loop_fold:
  assumes "0 < n" "\<forall>(c, rs) \<in> set L. rs \<noteq> []"
  shows "client_loop n a L = Inr (add_clients (map (\<lambda>(c, rs). (c, latest n rs)) L) a)"
  using assms(2)
  by (induction L arbitrary: a) (auto simp: topN_latest latest_nonempty assms(1) add_clients_def)

lemma fold_add: "fold (\<lambda>x t. t + x) xs s = s + sum_list xs" for s :: real
  by (induction xs arbitrary: s) auto

lemma add_clients_fields:
  "ca_clientRuns (add_clients L a) = fold (\<lambda>(c, rs). obj_set c rs) L (ca_clientRuns a)"
  "ca_clientStats (add_clients L a) = fold (\<lambda>(c, rs). obj_set c rs) (map (\<lambda>(c, rs). (c, client_stats_of rs)) L) (ca_clientStats a)"
  "ca_allMgas (add_clients L a) = ca_allMgas a @ map rn_mgas (concat (map snd L))"
  "ca_total (add_clients L a) = ca_total a + sum_list (map rn_mgas (concat (map snd L)))"
  "ca_count (add_clients L a) = ca_count a + length (concat (map snd L))"
  "ca_min (add_clients L a) = fold (opt_with min) (map rn_mgas (concat (map snd L))) (ca_min a)"
  "ca_max (add_clients L a) = fold (opt_with max) (map rn_mgas (concat (map snd L))) (ca_max a)"
  by (induction L arbitrary: a) (auto simp: add_clients_def add_client_def Let_def fold_add)

lemma opt_with_some:
  "fold (opt_with f) xs (opt_with f x None) = Some (fold (\<lambda>x m. f m x) xs x)"
proof -
  have "fold (opt_with f) xs (Some m) = Some (fold (\<lambda>x m. f m x) xs m)" for m
    by (induction xs arbitrary: m) (simp_all add: opt_with_def)
  then show ?thesis by (simp add: opt_with_def)
qed

lemma fold_min_max:
  "fold (\<lambda>x m. min m x) xs x = Min (insert x (set xs))" "fold (\<lambda>x m. max m x) xs x = Max (insert x (set xs))"
  for x :: real
proof (induction xs arbitrary: x)
  case (Cons y ys)
  { case 1 then show ?case using Cons.IH(1) [of "min x y"] by (cases "ys = []") (simp_all add: insert_commute min.assoc)
  next
    case 2 then show ?case using Cons.IH(2) [of "max x y"] by (cases "ys = []") (simp_all add: insert_commute max.assoc) }
qed simp_all

text \<open>The latest run of all clients.\<close>

definition last_of :: "RunData set \<Rightarrow> client_acc \<Rightarrow> bool" where
  "last_of R a \<longleftrightarrow>
     (case ca_lastStart a of
        None \<Rightarrow> R = {}
      | Some t \<Rightarrow> (\<exists>r \<in> R. rn_runStart r = t \<and> rn_mgas r = ca_last a \<and> (\<forall>r' \<in> R. rn_runStart r' \<le> t)))"

lemma latest_hd:
  assumes "latest n rs \<noteq> []" "r \<in> set (latest n rs)"
  shows "rn_runStart r \<le> rn_runStart (hd (latest n rs))"
proof -
  have "sorted (map (\<lambda>r. - rn_runStart r) (latest n rs))"
    by (simp add: latest_def take_map [symmetric] sorted_wrt_take)
  then show ?thesis using assms by (cases "latest n rs") auto
qed

lemma last_add_client:
  assumes "last_of R a" "rs \<noteq> []" "\<forall>r \<in> set rs. rn_runStart r \<le> rn_runStart (hd rs)"
  shows "last_of (R \<union> set rs) (add_client c rs a)"
proof (cases "ca_lastStart a")
  case None
  then show ?thesis using assms hd_in_set [OF assms(2)] by (auto simp: last_of_def add_client_def Let_def)
next
  case (Some t)
  then obtain r where r: "r \<in> R" "rn_runStart r = t" "rn_mgas r = ca_last a" "\<forall>r' \<in> R. rn_runStart r' \<le> t"
    using assms(1) by (auto simp: last_of_def)
  show ?thesis
  proof (cases "rn_runStart (hd rs) > t")
    case True
    then have "\<forall>r' \<in> R \<union> set rs. rn_runStart r' \<le> rn_runStart (hd rs)" using r(4) assms(3) by fastforce
    then show ?thesis
      using True Some hd_in_set [OF assms(2)] by (auto simp: last_of_def add_client_def Let_def intro!: bexI [of _ "hd rs"])
  next
    case False
    then have "\<forall>r' \<in> R \<union> set rs. rn_runStart r' \<le> t" using r(4) assms(3) by fastforce
    then show ?thesis using False Some r(1-3) by (auto simp: last_of_def add_client_def Let_def intro!: bexI [of _ r])
  qed
qed

lemma last_add_clients:
  assumes "last_of R a" "\<forall>(c, rs) \<in> set L. rs \<noteq> [] \<and> (\<forall>r \<in> set rs. rn_runStart r \<le> rn_runStart (hd rs))"
  shows "last_of (R \<union> set (concat (map snd L))) (add_clients L a)"
  using assms
proof (induction L arbitrary: R a)
  case (Cons p L)
  obtain c rs where p: "p = (c, rs)" by (cases p)
  have "last_of (R \<union> set rs) (add_client c rs a)" using Cons.prems p by (intro last_add_client) auto
  from Cons.IH [OF this] Cons.prems(2) show ?case by (simp add: add_clients_def p Un_assoc)
qed (simp add: add_clients_def)

text \<open>The percentile of this component is the one of the statistics of the block logs.\<close>

lemma heat_percentile_eq:
  assumes "p \<le> 100"
  shows "heat_percentile xs p = percentile xs p"
proof (cases "length xs \<le> 1")
  case True
  then show ?thesis by (cases xs) (simp_all add: heat_percentile_def percentile_def)
next
  case False
  then have ne: "xs \<noteq> []" "length xs \<noteq> 1" by auto
  have t: "0 \<le> rank_pos xs p" by (rule rank_pos_range [OF ne(1) assms])
  then have lo: "real (nat \<lfloor>rank_pos xs p\<rfloor>) = of_int \<lfloor>rank_pos xs p\<rfloor>" by simp
  have "heat_percentile xs p = interp xs (rank_pos xs p)"
    using ne lo unfolding heat_percentile_def rank_pos_def [symmetric] Let_def by (simp add: interp_def)
  then show ?thesis by (simp add: percentile_interp [OF ne(1) assms])
qed

definition client_stats_spec :: "RunData list \<Rightarrow> TestClientStats \<Rightarrow> bool" where
  "client_stats_spec rs st \<longleftrightarrow>
     (let xs = map rn_mgas rs
      in tc_avg st = sum_list xs / real (length xs) \<and> tc_min st = Min (set xs) \<and> tc_p99 st = percentile (sort xs) 99)"

lemma client_stats_meet: "rs \<noteq> [] \<Longrightarrow> client_stats_spec rs (client_stats_of rs)"
  by (cases rs) (simp_all add: client_stats_spec_def client_stats_of_def Let_def fold_add fold_min_max num_sort_eq heat_percentile_eq)

definition row_spec :: "nat \<Rightarrow> step_type list \<Rightarrow> string list \<Rightarrow> run_duration list \<Rightarrow> ProcessedTest \<Rightarrow> bool" where
  "row_spec n fs names ds t \<longleftrightarrow>
     (\<forall>c. map_of (pt_clientRuns t) c = (if speed_runs fs ds c = [] then None else Some (latest n (speed_runs fs ds c)))) \<and>
     (\<forall>c. case map_of (pt_clientRuns t) c of
            None \<Rightarrow> map_of (pt_clientStats t) c = None
          | Some rs \<Rightarrow> \<exists>st. map_of (pt_clientStats t) c = Some st \<and> client_stats_spec rs st) \<and>
     (let shown = concat (map snd (pt_clientRuns t)); xs = map rn_mgas shown
      in shown \<noteq> [] \<and> pt_avgMgas t = sum_list xs / real (length xs) \<and>
         pt_minMgas t = Min (set xs) \<and> pt_maxMgas t = Max (set xs) \<and> pt_p99Mgas t = percentile (sort xs) 99 \<and>
         (\<exists>r \<in> set shown. pt_lastMgas t = rn_mgas r \<and> (\<forall>r' \<in> set shown. rn_runStart r' \<le> rn_runStart r))) \<and>
     (case pt_testNumber t of
        None \<Rightarrow> pt_name t \<notin> set names
      | Some k \<Rightarrow> 1 \<le> k \<and> k \<le> length names \<and> names ! (k - 1) = pt_name t \<and> pt_name t \<notin> set (drop k names))"

lemma test_numbers_get:
  "case map_of (test_numbers names) x of
     None \<Rightarrow> x \<notin> set names
   | Some k \<Rightarrow> 1 \<le> k \<and> k \<le> length names \<and> names ! (k - 1) = x \<and> x \<notin> set (drop k names)"
proof (induction names rule: rev_induct)
  case Nil
  show ?case by (simp add: test_numbers_def)
next
  case (snoc y ys)
  have "test_numbers (ys @ [y]) = map_set y (length ys + 1) (test_numbers ys)"
    by (simp add: test_numbers_def enumerate_append_eq)
  then show ?case using snoc by (auto simp: jm.get_put nth_append split: option.splits)
qed

lemma map_of_map_snd: "map_of (map (\<lambda>(k, v). (k, f v)) m) k = map_option f (map_of m k)"
  by (induction m) auto

lemma add_clients_start:
  assumes "canonical L"
  shows "ca_clientRuns (add_clients L empty_client_acc) = L"
    "ca_clientStats (add_clients L empty_client_acc) = map (\<lambda>(c, rs). (c, client_stats_of rs)) L"
proof -
  have "canonical (map (\<lambda>(c, rs). (c, client_stats_of rs)) L)"
    using assms by (simp add: canonical_def o_def case_prod_unfold)
  then show "ca_clientRuns (add_clients L empty_client_acc) = L"
    "ca_clientStats (add_clients L empty_client_acc) = map (\<lambda>(c, rs). (c, client_stats_of rs)) L"
    using assms obj_of_canonical [of L] obj_of_canonical [of "map (\<lambda>(c, rs). (c, client_stats_of rs)) L"]
    by (simp_all add: add_clients_fields obj_of_def empty_client_acc_def)
qed

text \<open>The aggregates over the clients.\<close>

lemma add_clients_values:
  assumes "concat (map snd L) \<noteq> []" "xs = map rn_mgas (concat (map snd L))"
  shows "ca_total (add_clients L empty_client_acc) / real (ca_count (add_clients L empty_client_acc)) = sum_list xs / real (length xs)"
    "ca_min (add_clients L empty_client_acc) = Some (Min (set xs))" "ca_max (add_clients L empty_client_acc) = Some (Max (set xs))"
    "heat_percentile (num_sort (ca_allMgas (add_clients L empty_client_acc))) 99 = percentile (sort xs) 99"
    "ca_count (add_clients L empty_client_acc) \<noteq> 0"
proof -
  obtain y ys where xs: "map rn_mgas (concat (map snd L)) = y # ys"
    using assms(1) by (cases "concat (map snd L)") auto
  have len: "length (concat (map snd L)) = Suc (length ys)" using arg_cong [OF xs, of length] by simp
  show "ca_total (add_clients L empty_client_acc) / real (ca_count (add_clients L empty_client_acc)) = sum_list xs / real (length xs)"
    "ca_min (add_clients L empty_client_acc) = Some (Min (set xs))" "ca_max (add_clients L empty_client_acc) = Some (Max (set xs))"
    "heat_percentile (num_sort (ca_allMgas (add_clients L empty_client_acc))) 99 = percentile (sort xs) 99"
    "ca_count (add_clients L empty_client_acc) \<noteq> 0"
    unfolding add_clients_fields assms(2) xs len
    by (simp_all add: empty_client_acc_def opt_with_some fold_min_max num_sort_eq js_insort_key heat_percentile_eq)
qed

lemma clients_latest:
  assumes "0 < n" "L = map (\<lambda>(c, rs). (c, latest n rs)) (clientRunsMap fs ds)"
  shows "canonical L" "client_loop n empty_client_acc (clientRunsMap fs ds) = Inr (add_clients L empty_client_acc)"
    "map_of L c = (if speed_runs fs ds c = [] then None else Some (latest n (speed_runs fs ds c)))"
    "\<forall>(c, rs) \<in> set L. rs \<noteq> []" "(\<forall>d \<in> set ds. run_speed fs d = None) \<longleftrightarrow> L = []"
proof -
  show "canonical L"
    using canonical_clientRunsMap [of fs ds] by (simp add: assms(2) canonical_def o_def case_prod_unfold)
  have runs_ne: "\<forall>(c, rs) \<in> set (clientRunsMap fs ds). rs \<noteq> []"
  proof (clarify)
    fix c assume "(c, []) \<in> set (clientRunsMap fs ds)"
    then have "map_of (clientRunsMap fs ds) c = Some []"
      using canonical_clientRunsMap [of fs ds] by (simp add: canonical_def)
    then show False by (simp add: clientRunsMap_get Let_def split: if_splits)
  qed
  show "client_loop n empty_client_acc (clientRunsMap fs ds) = Inr (add_clients L empty_client_acc)"
    using client_loop_fold [OF assms(1) runs_ne] by (simp add: assms(2))
  show "\<forall>(c, rs) \<in> set L. rs \<noteq> []"
    using runs_ne latest_nonempty [OF assms(1)] by (auto simp: assms(2))
  have get: "map_of L c = (if speed_runs fs ds c = [] then None else Some (latest n (speed_runs fs ds c)))" for c
    by (simp add: assms(2) map_of_map_snd clientRunsMap_get Let_def)
  then show "map_of L c = (if speed_runs fs ds c = [] then None else Some (latest n (speed_runs fs ds c)))" .
  have "L = [] \<longleftrightarrow> (\<forall>c. map_of L c = None)" by (cases L) auto
  also have "\<dots> \<longleftrightarrow> (\<forall>d \<in> set ds. run_speed fs d = None)"
    unfolding get by (auto simp: speed_runs_def List.map_filter_def filter_empty_conv)
  finally show "(\<forall>d \<in> set ds. run_speed fs d = None) \<longleftrightarrow> L = []" by simp
qed

lemma last_of_some:
  "last_of R a \<Longrightarrow> R \<noteq> {} \<Longrightarrow> \<exists>r \<in> R. ca_last a = rn_mgas r \<and> (\<forall>r' \<in> R. rn_runStart r' \<le> rn_runStart r)"
  by (fastforce simp: last_of_def split: option.splits)

text \<open>One test: no row without a speed, else a row that meets its description.\<close>

lemma processTest_row:
  assumes "0 < n"
  shows "\<exists>p. processTest (test_numbers names) n fs name ds = Inr p \<and>
    (if \<forall>d \<in> set ds. run_speed fs d = None then p = None
     else \<exists>t. p = Some t \<and> pt_name t = name \<and> row_spec n fs names ds t)"
proof -
  define L where "L = map (\<lambda>(c, rs). (c, latest n rs)) (clientRunsMap fs ds)"
  note L = clients_latest [OF assms L_def]
  show ?thesis
  proof (cases "L = []")
    case True
    then show ?thesis using L(2,5) by (simp add: processTest_def add_clients_def empty_client_acc_def)
  next
    case False
    let ?a = "add_clients L empty_client_acc" and ?shown = "concat (map snd L)"
    have shown: "?shown \<noteq> []" using False L(4) by (cases L) auto
    note values_of_L = add_clients_values [OF shown HOL.refl]
    have "\<forall>(c, rs) \<in> set L. rs \<noteq> [] \<and> (\<forall>r \<in> set rs. rn_runStart r \<le> rn_runStart (hd rs))"
      using L(4) latest_hd unfolding L_def by fastforce
    moreover have "last_of {} empty_client_acc" by (simp add: last_of_def empty_client_acc_def)
    ultimately have "last_of (set ?shown) ?a" using last_add_clients [of "{}" empty_client_acc L] by simp
    then have last: "\<exists>r \<in> set ?shown. ca_last ?a = rn_mgas r \<and> (\<forall>r' \<in> set ?shown. rn_runStart r' \<le> rn_runStart r)"
      using shown by (intro last_of_some) simp_all
    define t where "t = \<lparr>pt_name = name, pt_testNumber = map_of (test_numbers names) name,
      pt_avgMgas = ca_total ?a / real (ca_count ?a), pt_minMgas = the (ca_min ?a), pt_maxMgas = the (ca_max ?a),
      pt_p99Mgas = heat_percentile (num_sort (ca_allMgas ?a)) 99, pt_lastMgas = ca_last ?a,
      pt_clientRuns = ca_clientRuns ?a, pt_clientStats = ca_clientStats ?a\<rparr>"
    have name: "pt_name t = name" "pt_testNumber t = map_of (test_numbers names) name" by (simp_all add: t_def)
    have runs: "pt_clientRuns t = L" "pt_clientStats t = map (\<lambda>(c, rs). (c, client_stats_of rs)) L"
      by (simp_all add: t_def add_clients_start [OF L(1)])
    have "case map_of (pt_clientRuns t) c of None \<Rightarrow> map_of (pt_clientStats t) c = None
        | Some rs \<Rightarrow> \<exists>st. map_of (pt_clientStats t) c = Some st \<and> client_stats_spec rs st" for c
      using L(4) client_stats_meet by (auto simp: runs map_of_map_snd dest: map_of_SomeD split: option.split)
    moreover have "processTest (test_numbers names) n fs name ds = Inr (Some t)"
      using L(2) values_of_L(5) by (simp add: processTest_def t_def)
    ultimately have "processTest (test_numbers names) n fs name ds = Inr (Some t)" "row_spec n fs names ds t"
      using shown last values_of_L(1-4) test_numbers_get [of name names] L(3)
      unfolding row_spec_def runs name Let_def by (simp_all add: t_def)
    then show ?thesis using L(5) False by (simp add: t_def)
  qed
qed

lemma process_tests_rows:
  assumes "0 < n"
  shows "\<exists>ts. process_tests (test_numbers names) n fs stats = Inr ts \<and>
      map pt_name ts = map fst (filter (\<lambda>(name, ds). \<exists>d \<in> set ds. run_speed fs d \<noteq> None) stats) \<and>
      (\<forall>t \<in> set ts. \<exists>ds. (pt_name t, ds) \<in> set stats \<and> row_spec n fs names ds t)"
proof (induction stats)
  case (Cons p stats)
  obtain name ds where p: "p = (name, ds)" by (cases p)
  obtain ts where ts: "process_tests (test_numbers names) n fs stats = Inr ts"
      "map pt_name ts = map fst (filter (\<lambda>(name, ds). \<exists>d \<in> set ds. run_speed fs d \<noteq> None) stats)"
      "\<forall>t \<in> set ts. \<exists>ds. (pt_name t, ds) \<in> set stats \<and> row_spec n fs names ds t"
    using Cons.IH by blast
  obtain q where q: "processTest (test_numbers names) n fs name ds = Inr q"
      "if \<forall>d \<in> set ds. run_speed fs d = None then q = None
       else \<exists>t. q = Some t \<and> pt_name t = name \<and> row_spec n fs names ds t"
    using processTest_row [OF assms, of names fs name ds] by blast
  show ?case
  proof (cases "\<forall>d \<in> set ds. run_speed fs d = None")
    case True
    then show ?thesis using q ts by (auto simp: p)
  next
    case False
    then obtain t where "q = Some t" "pt_name t = name" "row_spec n fs names ds t" using q(2) by (simp only: if_False) blast
    then show ?thesis using q(1) ts False by (auto simp: p)
  qed
qed simp

lemma client_loop_zero:
  "\<exists>(c, rs) \<in> set L. rs \<noteq> [] \<Longrightarrow> client_loop 0 a L = Inl TypeError"
proof (induction L arbitrary: a)
  case (Cons p L)
  obtain c rs where p: "p = (c, rs)" by (cases p)
  show ?case using Cons by (cases "rs = []") (simp_all add: p topN_zero)
qed simp

lemma processTest_zero:
  "processTest numbers 0 fs name ds = (if \<exists>d \<in> set ds. run_speed fs d \<noteq> None then Inl TypeError else Inr None)"
proof (cases "\<exists>d \<in> set ds. run_speed fs d \<noteq> None")
  case True
  then obtain d where "d \<in> set ds" "run_speed fs d \<noteq> None" by blast
  then have "speed_runs fs ds (rd_client d) \<noteq> []"
    by (auto simp: speed_runs_def List.map_filter_def filter_empty_conv)
  then have "map_of (clientRunsMap fs ds) (rd_client d) = Some (speed_runs fs ds (rd_client d))"
    by (simp add: clientRunsMap_get)
  then have "\<exists>(c, rs) \<in> set (clientRunsMap fs ds). rs \<noteq> []"
    using \<open>speed_runs fs ds (rd_client d) \<noteq> []\<close> by (auto dest!: map_of_SomeD)
  then show ?thesis using True by (simp add: processTest_def client_loop_zero)
next
  case False
  then have "fold (add_run fs) ds [] = []" by (induction ds) (auto simp: add_run_def)
  then show ?thesis using False by (simp add: processTest_def clientRunsMap_def empty_client_acc_def)
qed

lemma process_tests_zero:
  "\<exists>(name, ds) \<in> set stats. \<exists>d \<in> set ds. run_speed fs d \<noteq> None \<Longrightarrow>
   process_tests numbers 0 fs stats = Inl TypeError"
proof (induction stats)
  case (Cons p stats)
  obtain name ds where p: "p = (name, ds)" by (cases p)
  show ?case
  proof (cases "\<exists>d \<in> set ds. run_speed fs d \<noteq> None")
    case True
    then show ?thesis by (simp add: p processTest_zero)
  next
    case False
    then have "process_tests numbers 0 fs stats = Inl TypeError" using Cons by (simp add: p)
    then show ?thesis using False by (simp add: p processTest_zero)
  qed
qed simp

text \<open>C29: The rows of the test heat map. For any number of runs per client above zero, there is one row for
  each test that some run finished with a speed, in the order of the statistics; a row shows, of every client,
  exactly its latest runs with a speed, up to that number, newest first; average, minimum, maximum and 99th
  percentile are those of the values shown, per client and over all, the last value is that of a latest run
  shown, and the number is the position of the last test of that name in the suite. With zero runs per client
  (which the address can ask for) the page throws as soon as a test has a run with a speed.\<close>

theorem test_rows_reference:
  "(0 < n \<longrightarrow> (\<exists>ts. allTests stats names n fs = Inr ts \<and>
      map pt_name ts = map fst (filter (\<lambda>(name, ds). \<exists>d \<in> set ds. run_speed fs d \<noteq> None) stats) \<and>
      (\<forall>t \<in> set ts. \<exists>ds. (pt_name t, ds) \<in> set stats \<and> row_spec n fs names ds t))) \<and>
    ((\<exists>(name, ds) \<in> set stats. \<exists>d \<in> set ds. run_speed fs d \<noteq> None) \<longrightarrow>
       allTests stats names 0 fs = Inl TypeError)"
proof (intro conjI impI)
  assume "0 < n"
  show "\<exists>ts. allTests stats names n fs = Inr ts \<and>
      map pt_name ts = map fst (filter (\<lambda>(name, ds). \<exists>d \<in> set ds. run_speed fs d \<noteq> None) stats) \<and>
      (\<forall>t \<in> set ts. \<exists>ds. (pt_name t, ds) \<in> set stats \<and> row_spec n fs names ds t)"
    unfolding allTests_def by (rule process_tests_rows [OF \<open>0 < n\<close>])
next
  assume "\<exists>(name, ds) \<in> set stats. \<exists>d \<in> set ds. run_speed fs d \<noteq> None"
  then show "allTests stats names 0 fs = Inl TypeError"
    unfolding allTests_def by (rule process_tests_zero)
qed

subsection \<open>Order and pages\<close>

lemma sort_value_sub:
  "is_pos (num_sub (sort_value f a) (sort_value f b)) \<longleftrightarrow> num_lt (sort_value f b) (sort_value f a)"
  "is_neg (num_sub (sort_value f a) (sort_value f b)) \<longleftrightarrow> num_lt (sort_value f a) (sort_value f b)"
  by (cases f; auto simp: num_sub_def split: option.split)+

lemma sort_value_trans:
  "\<not> num_lt (sort_value f b) (sort_value f a) \<Longrightarrow> \<not> num_lt (sort_value f c) (sort_value f b) \<Longrightarrow>
   \<not> num_lt (sort_value f c) (sort_value f a)"
  by (cases f) (auto split: option.splits)

interpretation tests: comparator "heatmap_cmp field dir" for field dir
proof
  show "is_neg (heatmap_cmp field dir a b) \<longleftrightarrow> is_pos (heatmap_cmp field dir b a)" for a b
    by (simp add: heatmap_cmp_def sort_value_sub)
  show "\<not> is_pos (heatmap_cmp field dir a b) \<Longrightarrow> \<not> is_pos (heatmap_cmp field dir b c) \<Longrightarrow>
      \<not> is_pos (heatmap_cmp field dir a c)" for a b c
    using sort_value_trans [of field] by (auto simp: heatmap_cmp_def sort_value_sub)
qed

definition threshold_ok :: "test_heatmap \<Rightarrow> bool" where
  "threshold_ok s \<longleftrightarrow> SLOW_MIN \<le> th_threshold s \<and> th_threshold s \<le> SLOW_MAX"

lemma threshold_step_ok: "threshold_ok s \<Longrightarrow> threshold_ok (heatmap_step s e)"
  by (cases e) (auto simp: threshold_ok_def heatmap_handlePageSizeChange_def tests_handleSort_def handleThresholdChange_def
      heatmap_handleKey_def SLOW_MIN_def SLOW_MAX_def SLOW_DEFAULT_def Let_def)

interpretation heatmap: machine heatmap_step "\<lambda>_. True" threshold_ok
  by unfold_locales (rule threshold_step_ok)

lemma all_pages:
  assumes "0 < k" "page_count (length rows) (int k) = Fin (of_int m)"
  shows "concat (map (page_slice (int k) rows) [1..m]) = rows"
proof -
  have "concat (map (page_slice (int k) rows) [1..int (nat m)]) = take (nat m * k) rows" by (rule pages_prefix)
  also have "\<dots> = rows" using page_count_bounds(2) [OF assms] by simp
  finally show ?thesis using page_count_bounds(1) [OF assms] by simp
qed

text \<open>The table of the test heat map. After any events the threshold lies between 10 and 1000. The rows,
  over all pages in turn, are each test that the search keeps exactly once, in the order of the chosen column
  (tests without a number counting as the largest), tests that tie staying in the order of the statistics; a
  click on the header of another column sorts by it upwards, a second click turns the order round, and both
  go to the first page.\<close>

theorem test_table_pages:
  assumes "s = run heatmap_step open_heatmap es" "th_pageSize s = int k" "0 < k"
    and "rows = heatmap_sortedTests regexp s tests" "kept = heatmap_filteredTests regexp (th_search s) (th_useRegex s) tests"
    and "cmp = heatmap_cmp (th_sortField s) (th_sortDirection s)"
  shows "10 \<le> th_threshold s \<and> th_threshold s \<le> 1000 \<and>
    (\<exists>m. heatmap_totalPages regexp s tests = Fin (of_int m) \<and>
       concat (map (\<lambda>p. paginatedTests regexp (heatmap_step s (HPage p)) tests) [1..m]) = rows) \<and>
    mset rows = mset kept \<and> sorted_wrt (\<lambda>a b. \<not> is_pos (cmp a b)) rows \<and>
    (\<forall>t. filter (\<lambda>u. \<not> is_pos (cmp t u) \<and> \<not> is_pos (cmp u t)) rows =
         filter (\<lambda>u. \<not> is_pos (cmp t u) \<and> \<not> is_pos (cmp u t)) kept) \<and>
    (\<forall>f. let s1 = heatmap_step s (HSort f); s2 = heatmap_step s1 (HSort f)
         in th_sortField s1 = f \<and> th_currentPage s1 = 1 \<and> (f \<noteq> th_sortField s \<longrightarrow> th_sortDirection s1 = Ascending) \<and>
            th_sortField s2 = f \<and> th_currentPage s2 = 1 \<and> th_sortDirection s2 \<noteq> th_sortDirection s1)"
proof -
  have "threshold_ok open_heatmap" by (simp add: threshold_ok_def open_heatmap_def SLOW_MIN_def SLOW_MAX_def SLOW_DEFAULT_def)
  then have "threshold_ok s" unfolding assms(1) by (rule heatmap.inv_run) (simp add: list_all_iff)
  then have threshold: "10 \<le> th_threshold s \<and> th_threshold s \<le> 1000"
    by (simp add: threshold_ok_def SLOW_MIN_def SLOW_MAX_def)
  have "heatmap_totalPages regexp s tests = Fin (of_int \<lceil>real (length rows) / real k\<rceil>)"
    using page_count_pos [OF assms(3)] by (simp add: heatmap_totalPages_def assms(2,4))
  moreover have "paginatedTests regexp (heatmap_step s (HPage p)) tests = page_slice (int k) rows p" for p
    by (simp add: paginatedTests_def heatmap_sortedTests_def assms(2,4))
  ultimately have pages: "\<exists>m. heatmap_totalPages regexp s tests = Fin (of_int m) \<and>
      concat (map (\<lambda>p. paginatedTests regexp (heatmap_step s (HPage p)) tests) [1..m]) = rows"
    using all_pages [OF assms(3), of rows] page_count_pos [OF assms(3)] by simp
  have rows: "rows = js_sort cmp kept" by (simp add: assms(4-6) heatmap_sortedTests_def)
  have "filter (tests.tied (th_sortField s) (th_sortDirection s) t) rows =
      filter (tests.tied (th_sortField s) (th_sortDirection s) t) kept" for t
    unfolding rows assms(6) by (rule tests.stable_js_sort)
  then have stable: "\<forall>t. filter (\<lambda>u. \<not> is_pos (cmp t u) \<and> \<not> is_pos (cmp u t)) rows =
      filter (\<lambda>u. \<not> is_pos (cmp t u) \<and> \<not> is_pos (cmp u t)) kept"
    by (simp add: tests.tied_def [abs_def] assms(6))
  have header: "\<forall>f. let s1 = heatmap_step s (HSort f); s2 = heatmap_step s1 (HSort f)
      in th_sortField s1 = f \<and> th_currentPage s1 = 1 \<and> (f \<noteq> th_sortField s \<longrightarrow> th_sortDirection s1 = Ascending) \<and>
         th_sortField s2 = f \<and> th_currentPage s2 = 1 \<and> th_sortDirection s2 \<noteq> th_sortDirection s1"
    by (auto simp: tests_handleSort_def Let_def)
  have "mset rows = mset kept" "sorted_wrt (\<lambda>a b. \<not> is_pos (cmp a b)) rows"
    using tests.sorted_js_sort [of "th_sortField s" "th_sortDirection s" kept] by (simp_all add: rows assms(6))
  then show ?thesis using threshold pages stable header by blast
qed

text \<open>A search leaves the page number as it is: with fewer results than before the page can lie past the end,
  and with a single page of results there are no buttons to leave it.\<close>

lemma search_past_end:
  assumes "th_currentPage s = 2" "th_pageSize s = int k" "0 < k"
    and "kept = heatmap_filteredTests regexp search (th_useRegex s) tests" "kept \<noteq> []" "length kept \<le> k"
  shows "paginatedTests regexp (heatmap_step s (HSearch search)) tests = []"
    "heatmap_totalPages regexp (heatmap_step s (HSearch search)) tests = Fin 1"
proof -
  let ?s = "heatmap_step s (HSearch search)"
  have len: "length (heatmap_sortedTests regexp ?s tests) = length kept"
    by (simp add: heatmap_sortedTests_def assms(4))
  have "paginatedTests regexp ?s tests = page_slice (int k) (heatmap_sortedTests regexp ?s tests) (int 1 + 1)"
    by (simp add: paginatedTests_def heatmap_sortedTests_def assms(1,2))
  also have "\<dots> = []" unfolding page_slice_nat using len assms(6) by simp
  finally show "paginatedTests regexp ?s tests = []" .
  have "0 < length kept" using assms(5) by simp
  then have "0 < real (length kept) / real k" "real (length kept) / real k \<le> 1"
    using assms(3,6) by (simp_all add: divide_le_eq)
  then have "\<lceil>real (length kept) / real k\<rceil> = 1" by linarith
  then show "heatmap_totalPages regexp ?s tests = Fin 1"
    using page_count_pos [OF assms(3)] len by (simp add: heatmap_totalPages_def assms(2))
qed

subsection \<open>Boxes\<close>

lemma normalized_level:
  assumes "mn < mx" "mn \<le> v" "v \<le> mx"
  shows "color_rank (getColorByNormalizedValue v mn mx) = nat (min 9 \<lfloor>(mx - v) / (mx - mn) * 10\<rfloor>)"
proof -
  have norm: "1 - (v - mn) / (mx - mn) = (mx - v) / (mx - mn)" using assms(1) by (simp add: field_simps)
  have "0 \<le> (mx - v) / (mx - mn) * 10" using assms by simp
  then have "0 \<le> \<lfloor>(mx - v) / (mx - mn) * 10\<rfloor>" by simp
  then have "nat (min 9 \<lfloor>(mx - v) / (mx - mn) * 10\<rfloor>) < length THRESHOLD_COLORS" by simp
  then have "color_rank (THRESHOLD_COLORS ! nat (min 9 \<lfloor>(mx - v) / (mx - mn) * 10\<rfloor>)) = nat (min 9 \<lfloor>(mx - v) / (mx - mn) * 10\<rfloor>)"
    using colors_distinct by (simp add: color_rank_def takeWhile_neq_nth)
  then show ?thesis using assms(1) by (simp add: getColorByNormalizedValue_def norm Let_def)
qed

lemma cell_boxes:
  "concat (cell_rows n rs) =
     map (\<lambda>i. if i < length rs then Some (rs ! i) else None) [0..<nat \<lceil>real n / 5\<rceil> * 5]"
proof -
  have "concat (map (\<lambda>row. map (\<lambda>col. f (row * 5 + col)) [0..<5]) [0..<m]) = map f [0..<m * 5]" for m :: nat and f :: "nat \<Rightarrow> 'x"
  proof (induction m)
    case (Suc m)
    have "[0..<Suc m * 5] = [0..<m * 5] @ map (\<lambda>i. m * 5 + i) [0..<5]"
      using upt_add_eq_append [of 0 "m * 5" 5] by (simp add: map_add_upt add.commute)
    then show ?case using Suc by (simp add: comp_def)
  qed simp
  from this [of "\<lambda>i. if i < length rs then Some (rs ! i) else None" "nat \<lceil>real n / 5\<rceil>"] show ?thesis
    by (simp add: cell_rows_def BOXES_PER_ROW_def Let_def)
qed

text \<open>The boxes of a cell. The runs of a client fill the boxes row by row, newest first, each in one box,
  and the rest of the grid is grey; the grid has room for the number of runs asked for, and less than a row
  more. The fill never gets a worse colour for a faster run, nor does the border, where the fastest run of the
  test has the best colour and the slowest the worst.\<close>

theorem test_boxes_rank:
  assumes "length rs \<le> n" "0 < th" "v \<le> w" "pt_minMgas t \<le> v" "w \<le> pt_maxMgas t"
    and "rn_mgas a = v" "rn_mgas b = w"
  shows "concat (cell_rows n rs) = map Some rs @ replicate (length (concat (cell_rows n rs)) - length rs) None \<and>
    n \<le> length (concat (cell_rows n rs)) \<and> length (concat (cell_rows n rs)) < n + 5 \<and>
    color_rank (fst (box_colors th t b)) \<le> color_rank (fst (box_colors th t a)) \<and>
    color_rank (snd (box_colors th t b)) \<le> color_rank (snd (box_colors th t a)) \<and>
    (pt_minMgas t < pt_maxMgas t \<longrightarrow>
       (w = pt_maxMgas t \<longrightarrow> color_rank (snd (box_colors th t b)) = 0) \<and>
       (v = pt_minMgas t \<longrightarrow> color_rank (snd (box_colors th t a)) = 9))"
proof -
  define m where "m = nat \<lceil>real n / 5\<rceil> * 5"
  have m: "n \<le> m" "m < n + 5" unfolding m_def by linarith+
  have boxes: "concat (cell_rows n rs) = map (\<lambda>i. if i < length rs then Some (rs ! i) else None) [0..<m]"
    unfolding m_def by (rule cell_boxes)
  have "concat (cell_rows n rs) = map Some rs @ replicate (m - length rs) None"
    unfolding boxes using assms(1) m(1) by (intro nth_equalityI) (auto simp: nth_append)
  then have grid: "concat (cell_rows n rs) = map Some rs @ replicate (length (concat (cell_rows n rs)) - length rs) None"
    by simp
  have size: "n \<le> length (concat (cell_rows n rs))" "length (concat (cell_rows n rs)) < n + 5"
    using m by (simp_all add: boxes)
  have fill: "color_rank (fst (box_colors th t b)) \<le> color_rank (fst (box_colors th t a))"
    using assms(2,3,6,7) rank_mono [OF num_quot_mono] by (simp add: box_colors_def getColorByThreshold_def)
  have border: "color_rank (snd (box_colors th t b)) \<le> color_rank (snd (box_colors th t a)) \<and>
    (pt_minMgas t < pt_maxMgas t \<longrightarrow>
       (w = pt_maxMgas t \<longrightarrow> color_rank (snd (box_colors th t b)) = 0) \<and>
       (v = pt_minMgas t \<longrightarrow> color_rank (snd (box_colors th t a)) = 9))"
  proof (cases "pt_minMgas t < pt_maxMgas t")
    case True
    let ?r = "\<lambda>x. (pt_maxMgas t - x) / (pt_maxMgas t - pt_minMgas t) * 10"
    have "?r w \<le> ?r v" using True assms(3) by (intro mult_right_mono divide_right_mono) auto
    then have "nat (min 9 \<lfloor>?r w\<rfloor>) \<le> nat (min 9 \<lfloor>?r v\<rfloor>)" by (intro nat_mono min.mono floor_mono) auto
    moreover have "color_rank (snd (box_colors th t b)) = nat (min 9 \<lfloor>?r w\<rfloor>)"
      "color_rank (snd (box_colors th t a)) = nat (min 9 \<lfloor>?r v\<rfloor>)"
      using assms(3-7) normalized_level [OF True, of w] normalized_level [OF True, of v] by (simp_all add: box_colors_def)
    moreover have "?r (pt_maxMgas t) = 0" "?r (pt_minMgas t) = 10" using True by simp_all
    then have "nat (min 9 \<lfloor>?r (pt_maxMgas t)\<rfloor>) = 0" "nat (min 9 \<lfloor>?r (pt_minMgas t)\<rfloor>) = 9" by simp_all
    ultimately show ?thesis by metis
  next
    case False
    then have "w = v" using assms(3-5) by linarith
    then show ?thesis using assms(6,7) False by (simp add: box_colors_def)
  qed
  show ?thesis using grid size fill border by blast
qed

subsection \<open>Highlighted names\<close>

lemma split_parts_concat: "search \<noteq> [] \<Longrightarrow> concat (split_parts search cur s) = cur @ s"
proof (induction search cur s rule: split_parts.induct)
  case (2 search cur c cs)
  show ?case
  proof (cases "matches_here search (c # cs)")
    case True
    have "take (length search) (c # cs) @ drop (length search - 1) cs = c # cs"
      using 2(3) append_take_drop_id [of "length search - 1" cs] by (cases search) auto
    then show ?thesis using True 2 by simp
  next
    case False
    then show ?thesis using 2(2,3) by simp
  qed
qed simp

lemma highlight_texts: "map fst (highlight_parts search li parts) = parts"
  by (induction parts arbitrary: li) (auto split: prod.split)

lemma find_hit: "find P xs = Some x \<Longrightarrow> x \<in> set xs \<and> P x"
  by (induction xs) (auto split: if_splits)

lemma highlight_hits:
  "(part, True) \<in> set (highlight_parts search li parts) \<Longrightarrow> \<exists>i \<le> length part. matches_here search (drop i part)"
proof (induction parts arbitrary: li)
  case (Cons p parts)
  obtain hit li' where t: "test_from search p li = (hit, li')" by (cases "test_from search p li")
  have "\<exists>i \<le> length p. matches_here search (drop i p)" if "hit"
    using t that by (fastforce simp: test_from_def dest!: find_hit split: option.splits)
  then show ?case using Cons t by auto
qed simp

lemma concat_nonempty: "concat (filter (\<lambda>p. p \<noteq> []) ps) = concat ps"
  by (induction ps) auto

text \<open>Highlighting changes no text: for every name and every search the parts put together are the name,
  and every part that is marked contains the search, without regard to case.\<close>

theorem highlight_keeps_name:
  "concat (map fst (splitByMatch name search)) = name \<and>
   (\<forall>part. (part, True) \<in> set (splitByMatch name search) \<longrightarrow>
      (\<exists>i \<le> length part. same_text (take (length search) (drop i part)) search))"
proof -
  have "concat (map fst (splitByMatch name search)) = name"
    using split_parts_concat [of search "[]" name] by (simp add: splitByMatch_def Let_def highlight_texts concat_nonempty)
  moreover have "\<exists>i \<le> length part. same_text (take (length search) (drop i part)) search"
    if "(part, True) \<in> set (splitByMatch name search)" for part
    using that highlight_hits unfolding splitByMatch_def Let_def matches_here_def
    by (auto split: if_splits) blast
  ultimately show ?thesis by blast
qed

text \<open>The expression is tested with the global flag, so that a match right behind a match is not marked.\<close>

lemma adjacent_match_unmarked: "splitByMatch ''foo'' ''o'' = [(''f'', False), (''o'', True), (''o'', False)]"
  by code_simp

section \<open>Witnesses\<close>

definition example_duration :: "string \<Rightarrow> string \<Rightarrow> real \<Rightarrow> real \<Rightarrow> run_duration" where
  "example_duration rid client gas start =
     \<lparr>rd_id = rid, rd_client = client, rd_gas_used = gas, rd_time_ns = 1000, rd_run_start = start, rd_run_end = None,
      rd_steps = None\<rparr>"

definition example_stats :: suite_stats where
  "example_stats =
     [(''t1'', [example_duration ''r1'' ''geth'' 100 1, example_duration ''r2'' ''geth'' 300 2,
                example_duration ''r3'' ''reth'' 200 1]),
      (''t2'', [example_duration ''r1'' ''geth'' 0 1])]"

lemma example_speeds:
  "run_speed fs (example_duration rid client gas start) = (if gas \<le> 0 then None else Some gas)"
  by (simp add: run_speed_def example_duration_def getRunDurationAggregatedStats_def calculateMGasPerSec_def)

theorem test_histogram_reference_witness:
  "map bn_count (hg_bins (computeHistogramBins [30, 60, 300] 60)) = [0, 0, 1, 0, 1, 0, 0, 0, 0, 0, 1] \<and>
   hg_slowCount (computeHistogramBins [30, 60, 300] 60) + hg_fastCount (computeHistogramBins [30, 60, 300] 60) = 3"
proof -
  have "hg_slowCount (computeHistogramBins [30, 60, 300] 60) + hg_fastCount (computeHistogramBins [30, 60, 300] 60) =
      length [30, 60, 300 :: real]"
    using test_histogram_reference [of 60 "[30, 60, 300]"] by simp
  moreover have "map bn_count (hg_bins (computeHistogramBins [30, 60, 300] 60)) = [0, 0, 1, 0, 1, 0, 0, 0, 0, 0, 1]"
    by (simp add: computeHistogramBins_def count_value_def find_bin_cases num_quot_Fin multipliers histogram_bin_def
        bins_upt Let_def numeral_eq_Suc)
  ultimately show ?thesis by simp
qed

theorem test_rows_reference_witness:
  "(\<exists>ts. allTests example_stats [''t1'', ''t2''] 1 [Test] = Inr ts \<and> map pt_name ts = [''t1'']) \<and>
   allTests example_stats [''t1'', ''t2''] 0 [Test] = Inl TypeError"
  using test_rows_reference [of 1 example_stats "[''t1'', ''t2'']" "[Test]"]
  by (auto simp: example_stats_def example_speeds)

theorem test_table_pages_witness:
  "th_currentPage (heatmap_step (run heatmap_step open_heatmap [HPage 3, HThreshold 5]) (HSort TestNumber)) = 1 \<and>
   10 \<le> th_threshold (run heatmap_step open_heatmap [HPage 3, HThreshold 5])"
  using test_table_pages [of "run heatmap_step open_heatmap [HPage 3, HThreshold 5]" "[HPage 3, HThreshold 5]" 20 _ "\<lambda>_. None" "[]"]
  by (auto simp: open_heatmap_def HEATMAP_PAGE_SIZE_def handleThresholdChange_def SLOW_MIN_def Let_def)

theorem test_boxes_rank_witness:
  "color_rank (snd (box_colors 60 \<lparr>pt_name = ''t1'', pt_testNumber = Some 1, pt_avgMgas = 50, pt_minMgas = 10,
      pt_maxMgas = 90, pt_p99Mgas = 90, pt_lastMgas = 10, pt_clientRuns = [], pt_clientStats = []\<rparr>
      \<lparr>rn_runId = ''r2'', rn_mgas = 90, rn_runStart = 2\<rparr>)) = 0"
  using test_boxes_rank [of "[]" 5 60 10 90 "\<lparr>pt_name = ''t1'', pt_testNumber = Some 1, pt_avgMgas = 50,
      pt_minMgas = 10, pt_maxMgas = 90, pt_p99Mgas = 90, pt_lastMgas = 10, pt_clientRuns = [], pt_clientStats = []\<rparr>"
      "\<lparr>rn_runId = ''r1'', rn_mgas = 10, rn_runStart = 1\<rparr>" "\<lparr>rn_runId = ''r2'', rn_mgas = 90, rn_runStart = 2\<rparr>"]
  by simp

theorem highlight_keeps_name_witness:
  "concat (map fst (splitByMatch ''test_Add'' ''ADD'')) = ''test_Add'' \<and> (''Add'', True) \<in> set (splitByMatch ''test_Add'' ''ADD'')"
proof -
  have "splitByMatch ''test_Add'' ''ADD'' = [(''test_'', False), (''Add'', True)]" by code_simp
  then show ?thesis using highlight_keeps_name [of "''test_Add''" "''ADD''"] by simp
qed

end
