(* ===== verification/Run_Heatmap.thy ===== *)
theory Run_Heatmap
  imports Test_Heatmap Suite_Heatmap Step_Metrics Formats
begin

text \<open>
  The heat map of the tests of a run (\<open>ui/src/components/run-detail/TestHeatmap.tsx\<close>): one tile per test of the
  suite or of the result, with the sums over the selected steps, the ranges and counters of the caption, the
  order and the groups of the tiles, their colours and filters, the distribution of the values, and the
  effect that makes a tile flash when a live run completes its test. The threshold and the limit of a slow
  payload are finite. The styles of the tiles, the tooltip and the dialogue of a test are not modelled.
\<close>

section \<open>Statistics of a test\<close>

text \<open>This component merges the statistics of the methods by copying those of the first step.\<close>

definition merge_copy :: "string \<times> method_stats \<Rightarrow> method_stats js_object \<Rightarrow> method_stats js_object" where
  "merge_copy kv m =
     (let (method, stats) = kv
      in case map_of m method of
           None \<Rightarrow> obj_set method stats m
         | Some t \<Rightarrow> map_set method (t\<lparr>ms_count := ms_count t + ms_count stats, ms_last := ms_last stats\<rparr>) m)"

definition tile_add_stats :: "aggregated_stats \<Rightarrow> aggregated_stats \<Rightarrow> aggregated_stats" where
  "tile_add_stats s acc =
     \<lparr>time_total = time_total acc + time_total s, gas_used_total = gas_used_total acc + gas_used_total s,
      gas_used_time_total = gas_used_time_total acc + gas_used_time_total s,
      ag_success = ag_success acc + ag_success s, ag_fail = ag_fail acc + ag_fail s, msg_count = 0,
      ag_resource_totals = None, ag_times = fold merge_copy (ag_times s) (ag_times acc),
      ag_mgas_s = fold merge_copy (ag_mgas_s s) (ag_mgas_s acc)\<rparr>"

definition tile_stats :: "test_entry \<Rightarrow> step_type list \<Rightarrow> aggregated_stats option" where
  "tile_stats entry stepFilter =
     (case te_steps entry of
        None \<Rightarrow> None
      | Some st \<Rightarrow>
          let found = List.map_filter (step_stats st) stepFilter
          in if found = [] then None else Some (fold tile_add_stats found zero_stats))"

section \<open>Tiles\<close>

definition GAS_GROUP_STEP :: int where "GAS_GROUP_STEP = 30000000"

definition getGasGroup :: "real \<Rightarrow> int" where
  "getGasGroup gas = math_round (gas / of_int GAS_GROUP_STEP) * GAS_GROUP_STEP"

definition formatGasGroup :: "int \<Rightarrow> string" where
  "formatGasGroup gasGroup = int_str (math_round (of_int gasGroup / 1000000)) @ ''M''"

record TestData =
  td_testKey :: string
  td_filename :: string
  td_order :: jsnum
  td_mgasPerSec :: real
  td_gasUsedTotal :: real
  td_gasUsedTimeTotal :: real
  td_maxPayloadNs :: real
  td_payloadCount :: real
  td_isSlow :: bool
  td_hasFail :: bool
  td_noData :: bool
  td_notProcessed :: bool

text \<open>The tests of the suite are given by their names; without a suite there is no order.\<close>

definition executionOrder :: "string list option \<Rightarrow> (string, nat) js_map" where
  "executionOrder suiteTests = (case suiteTests of None \<Rightarrow> [] | Some names \<Rightarrow> test_numbers names)"

definition allTestNames :: "test_entry js_object \<Rightarrow> string list option \<Rightarrow> string js_set" where
  "allTestNames tests suiteTests =
     fold set_add (case suiteTests of None \<Rightarrow> [] | Some names \<Rightarrow> names) (js_set_of (map fst tests))"

definition tile_of :: "test_entry js_object \<Rightarrow> (string, nat) js_map \<Rightarrow> step_type list \<Rightarrow> real \<Rightarrow> string \<Rightarrow> TestData" where
  "tile_of tests order stepFilter slowMs name =
     (let ord = (case map_of order name of None \<Rightarrow> PosInf | Some k \<Rightarrow> Fin (real k))
      in case map_of tests name of
           None \<Rightarrow>
             \<lparr>td_testKey = name, td_filename = name, td_order = ord, td_mgasPerSec = 0, td_gasUsedTotal = 0, td_gasUsedTimeTotal = 0,
              td_maxPayloadNs = 0, td_payloadCount = 0, td_isSlow = False, td_hasFail = False, td_noData = True,
              td_notProcessed = True\<rparr>
         | Some entry \<Rightarrow>
             let statsFiltered = tile_stats entry stepFilter;
                 statsAll = tile_stats entry ALL_STEP_TYPES;
                 mgasPerSec = Option.bind statsFiltered
                   (\<lambda>s. calculateMGasPerSec (gas_used_total s) (gas_used_time_total s));
                 noData = (mgasPerSec = None);
                 payloads = getPayloadTimes entry stepFilter
             in \<lparr>td_testKey = name, td_filename = name, td_order = ord,
                 td_mgasPerSec = (case mgasPerSec of None \<Rightarrow> 0 | Some v \<Rightarrow> v),
                 td_gasUsedTotal = (case statsFiltered of None \<Rightarrow> 0 | Some s \<Rightarrow> gas_used_total s),
                 td_gasUsedTimeTotal = (case statsFiltered of None \<Rightarrow> 0 | Some s \<Rightarrow> gas_used_time_total s),
                 td_maxPayloadNs = pt_maxNs payloads, td_payloadCount = PayloadTimes.pt_count payloads,
                 td_isSlow = (\<not> noData \<and> isSlowPayload (pt_maxNs payloads) slowMs),
                 td_hasFail = (case statsAll of None \<Rightarrow> False | Some s \<Rightarrow> ag_fail s > 0),
                 td_noData = noData, td_notProcessed = False\<rparr>)"

text \<open>The tiles with the ranges of their values; a range starts at an infinity (\<open>None\<close>) and is zero when no
  tile has data.\<close>

record run_tiles =
  rt_testData :: "TestData list"
  rt_minMgas :: "real option"
  rt_maxMgas :: "real option"
  rt_minPayloadNs :: "real option"
  rt_maxPayloadNs :: "real option"
  rt_slowTestCount :: nat

definition add_tile :: "TestData \<Rightarrow> run_tiles \<Rightarrow> run_tiles" where
  "add_tile t r =
     (let r' = (if td_noData t then r
                else r\<lparr>rt_minMgas := opt_with min (td_mgasPerSec t) (rt_minMgas r),
                       rt_maxMgas := opt_with max (td_mgasPerSec t) (rt_maxMgas r),
                       rt_minPayloadNs := opt_with min (td_maxPayloadNs t) (rt_minPayloadNs r),
                       rt_maxPayloadNs := opt_with max (td_maxPayloadNs t) (rt_maxPayloadNs r),
                       rt_slowTestCount := (if td_isSlow t then rt_slowTestCount r + 1 else rt_slowTestCount r)\<rparr>)
      in r'\<lparr>rt_testData := rt_testData r @ [t]\<rparr>)"

definition or_zero_range :: "real option \<Rightarrow> real option" where
  "or_zero_range m = Some (case m of None \<Rightarrow> 0 | Some v \<Rightarrow> v)"

definition run_heatmap :: "test_entry js_object \<Rightarrow> string list option \<Rightarrow> step_type list \<Rightarrow> real \<Rightarrow> run_tiles" where
  "run_heatmap tests suiteTests stepFilter slowMs =
     (let r = fold (\<lambda>name. add_tile (tile_of tests (executionOrder suiteTests) stepFilter slowMs name))
                (allTestNames tests suiteTests)
                \<lparr>rt_testData = [], rt_minMgas = None, rt_maxMgas = None, rt_minPayloadNs = None,
                 rt_maxPayloadNs = None, rt_slowTestCount = 0\<rparr>
      in r\<lparr>rt_minMgas := or_zero_range (rt_minMgas r), rt_maxMgas := or_zero_range (rt_maxMgas r),
           rt_minPayloadNs := or_zero_range (rt_minPayloadNs r),
           rt_maxPayloadNs := or_zero_range (rt_maxPayloadNs r)\<rparr>)"

section \<open>Order and groups\<close>

datatype TileSort = TileOrder | TileMgas | TileGas | TileDuration
datatype TileColour = ColourMgas | ColourDuration

definition tile_cmp :: "TileSort \<Rightarrow> TestData \<Rightarrow> TestData \<Rightarrow> jsnum" where
  "tile_cmp sm a b =
     (case sm of
        TileOrder \<Rightarrow> num_sub (td_order a) (td_order b)
      | TileGas \<Rightarrow> Fin (td_gasUsedTotal b - td_gasUsedTotal a)
      | TileDuration \<Rightarrow> Fin (td_maxPayloadNs b - td_maxPayloadNs a)
      | TileMgas \<Rightarrow> Fin (td_mgasPerSec a - td_mgasPerSec b))"

definition sortedData :: "TileSort \<Rightarrow> TestData list \<Rightarrow> TestData list" where
  "sortedData sm tiles = js_sort (tile_cmp sm) tiles"

record GasGroup =
  gg_label :: string
  gg_gasGroup :: int
  gg_tests :: "TestData list"

definition groupedData :: "TestData list \<Rightarrow> GasGroup list" where
  "groupedData sorted_tiles =
     map (\<lambda>(g, items). \<lparr>gg_label = formatGasGroup g, gg_gasGroup = g, gg_tests = items\<rparr>)
       (js_sort (\<lambda>a b. Fin (of_int (fst b - fst a))) (bucket (\<lambda>t. getGasGroup (td_gasUsedTotal t)) sorted_tiles))"

section \<open>Filters, cells and distribution\<close>

datatype TileStatus = AllTiles | PassedTiles | FailedTiles

definition cell_matches :: "TileStatus \<Rightarrow> string \<Rightarrow> TestData \<Rightarrow> bool" where
  "cell_matches statusFilter searchQuery t \<longleftrightarrow>
     (statusFilter = AllTiles \<or> (\<not> td_notProcessed t \<and> statusFilter = PassedTiles \<and> \<not> td_hasFail t) \<or>
      (\<not> td_notProcessed t \<and> statusFilter = FailedTiles \<and> td_hasFail t)) \<and>
     (searchQuery = [] \<or> testNameMatches (td_testKey t) searchQuery)"

datatype tile_fill = NotProcessedFill | NoDataFill | Colour string
datatype tile_animation = Pop nat | LivePulse

record tile_style =
  ts_fill :: tile_fill
  ts_dimmed :: bool
  ts_slowOutline :: bool
  ts_failRing :: bool
  ts_animation :: "tile_animation option"

definition heatmap_cell ::
  "TileColour \<Rightarrow> real \<Rightarrow> real \<Rightarrow> TileStatus \<Rightarrow> string \<Rightarrow> nat option \<Rightarrow> bool \<Rightarrow> TestData \<Rightarrow> tile_style" where
  "heatmap_cell mode threshold slowMs statusFilter searchQuery popDelayMs isInProgress t =
     \<lparr>ts_fill = (if td_notProcessed t then NotProcessedFill else if td_noData t then NoDataFill
                 else if mode = ColourDuration then Colour (getColorByDuration (td_maxPayloadNs t) slowMs)
                 else Colour (getColorByThreshold (td_mgasPerSec t) threshold)),
      ts_dimmed = (\<not> cell_matches statusFilter searchQuery t),
      ts_slowOutline = td_isSlow t, ts_failRing = td_hasFail t,
      ts_animation = (case popDelayMs of Some d \<Rightarrow> Some (Pop d) | None \<Rightarrow> if isInProgress then Some LivePulse else None)\<rparr>"

definition filteredTestData :: "TileStatus \<Rightarrow> string \<Rightarrow> TestData list \<Rightarrow> TestData list" where
  "filteredTestData statusFilter searchQuery tiles =
     (let matchesQuery = (if searchQuery \<noteq> [] then Some (compileQuery searchQuery) else None)
      in filter (\<lambda>t.
           if statusFilter \<noteq> AllTiles \<and> td_notProcessed t then False
           else if statusFilter = PassedTiles \<and> td_hasFail t then False
           else if statusFilter = FailedTiles \<and> \<not> td_hasFail t then False
           else case matchesQuery of Some f \<Rightarrow> f (td_testKey t) | None \<Rightarrow> True) tiles)"

definition tile_value :: "TileColour \<Rightarrow> TestData \<Rightarrow> real" where
  "tile_value mode t = (if mode = ColourDuration then td_maxPayloadNs t else td_mgasPerSec t)"

definition bump_bin :: "real \<Rightarrow> real \<Rightarrow> nat list \<Rightarrow> nat list" where
  "bump_bin limit v bins = (let i = find_bin (num_quot v limit) in bins[i := bins ! i + 1])"

definition run_bin :: "(real \<Rightarrow> string) \<Rightarrow> TileColour \<Rightarrow> real \<Rightarrow> real \<Rightarrow> nat list \<Rightarrow> real \<Rightarrow> nat \<Rightarrow> HistogramBin" where
  "run_bin num mode threshold slowMs bins limit i =
     (let m = BIN_MULTIPLIERS ! i;
          midpoint = (case next_multiplier i of Some m' \<Rightarrow> (m + m') / 2 * limit | None \<Rightarrow> m * (5 / 4) * limit);
          format = (\<lambda>v. if mode = ColourDuration then formatDuration num v else toFixed 0 v)
      in (histogram_bin bins limit i)
           \<lparr>bn_label := (case next_multiplier i of
                           None \<Rightarrow> format (m * limit) @ ''+''
                         | Some m' \<Rightarrow> format (m * limit) @ ''-'' @ format (m' * limit)),
            bn_color := (if mode = ColourDuration then getColorByDuration midpoint slowMs
                         else getColorByThreshold midpoint threshold)\<rparr>)"

definition run_histogram ::
  "(real \<Rightarrow> string) \<Rightarrow> TileColour \<Rightarrow> real \<Rightarrow> real \<Rightarrow> TestData list \<Rightarrow> HistogramBin list" where
  "run_histogram num mode threshold slowMs kept =
     (let testsWithData = filter (\<lambda>t. \<not> td_noData t) kept
      in if testsWithData = [] then []
         else let limit = (if mode = ColourDuration then slowMs * 1000000 else threshold);
                  bins = fold (\<lambda>t. bump_bin limit (tile_value mode t)) testsWithData (replicate (length BIN_MULTIPLIERS) 0)
              in map (run_bin num mode threshold slowMs bins limit) [0..<length bins])"

definition slow_fast :: "TileColour \<Rightarrow> real \<Rightarrow> TestData list \<Rightarrow> nat \<times> nat" where
  "slow_fast mode threshold kept =
     (let withData = filter (\<lambda>t. \<not> td_noData t) kept;
          slow = (if mode = ColourDuration then length (filter td_isSlow withData)
                  else length (filter (\<lambda>t. td_mgasPerSec t < threshold) withData))
      in (slow, length withData - slow))"

section \<open>New tiles\<close>

text \<open>An effect compares each snapshot with the one before. The timer that ends the animation, in the
  milliseconds that are left, belongs to the effect: the next run of the effect cancels it first.\<close>

record pops =
  pp_prevCompleted :: "string js_set option"
  pp_popDelays :: "(string, nat) js_map"
  pp_timer :: "nat option"

definition no_pops :: pops where
  "no_pops = \<lparr>pp_prevCompleted = None, pp_popDelays = [], pp_timer = None\<rparr>"

definition completed_keys :: "TestData list \<Rightarrow> string js_set" where
  "completed_keys tiles = js_set_of (map td_testKey (filter (\<lambda>t. \<not> td_notProcessed t) tiles))"

definition newly_completed :: "string list \<Rightarrow> TestData list \<Rightarrow> TestData list" where
  "newly_completed prev tiles =
     js_sort (\<lambda>a b. num_sub (td_order a) (td_order b))
       (filter (\<lambda>t. td_testKey t \<notin> set prev) (filter (\<lambda>t. \<not> td_notProcessed t) tiles))"

definition STEP_MS :: nat where "STEP_MS = 60"
definition MAX_STAGGER_MS :: nat where "MAX_STAGGER_MS = 1800"

definition pop_delays :: "TestData list \<Rightarrow> (string, nat) js_map" where
  "pop_delays newly =
     fold (\<lambda>(i, t). map_set (td_testKey t) (min (i * STEP_MS) MAX_STAGGER_MS)) (enumerate 0 newly) []"

definition longest :: "TestData list \<Rightarrow> nat" where
  "longest newly = min ((length newly - 1) * STEP_MS) MAX_STAGGER_MS + 600 + 100"

definition pop_effect :: "TestData list \<Rightarrow> pops \<Rightarrow> pops" where
  "pop_effect tiles s0 =
     (let s = s0\<lparr>pp_timer := None\<rparr>;
          completed = completed_keys tiles
      in case pp_prevCompleted s of
           None \<Rightarrow> s\<lparr>pp_prevCompleted := Some completed\<rparr>
         | Some prev \<Rightarrow>
             let newly = newly_completed prev tiles;
                 s' = s\<lparr>pp_prevCompleted := Some completed\<rparr>
             in if newly = [] then s' else s'\<lparr>pp_popDelays := pop_delays newly, pp_timer := Some (longest newly)\<rparr>)"

text \<open>Time passes, some milliseconds at once; the timer runs when none are left.\<close>

datatype pop_event = Snapshot "TestData list" | Elapsed nat

fun pop_step :: "pops \<Rightarrow> pop_event \<Rightarrow> pops" where
  "pop_step s (Snapshot tiles) = pop_effect tiles s"
| "pop_step s (Elapsed ms) =
     (case pp_timer s of
        None \<Rightarrow> s
      | Some left \<Rightarrow> if left \<le> ms then s\<lparr>pp_popDelays := [], pp_timer := None\<rparr> else s\<lparr>pp_timer := Some (left - ms)\<rparr>)"

section \<open>Lemmas\<close>

subsection \<open>Tiles\<close>

text \<open>What one step of an entry contributes; an absent step contributes nothing.\<close>

definition entry_val :: "(aggregated_stats \<Rightarrow> real) \<Rightarrow> test_entry \<Rightarrow> step_type \<Rightarrow> real" where
  "entry_val sel e t =
     (case te_steps e of None \<Rightarrow> 0
      | Some st \<Rightarrow> (case step_stats st t of None \<Rightarrow> 0 | Some s \<Rightarrow> sel s))"

lemma fold_tile_stats:
  "gas_used_total (fold tile_add_stats ss acc) = gas_used_total acc + (\<Sum>s\<leftarrow>ss. gas_used_total s)"
  "gas_used_time_total (fold tile_add_stats ss acc) = gas_used_time_total acc + (\<Sum>s\<leftarrow>ss. gas_used_time_total s)"
  "ag_fail (fold tile_add_stats ss acc) = ag_fail acc + (\<Sum>s\<leftarrow>ss. ag_fail s)"
  by (induction ss arbitrary: acc) (simp_all add: tile_add_stats_def)

lemma step_sums:
  "te_steps e = Some st \<Longrightarrow> (\<Sum>s\<leftarrow>List.map_filter (step_stats st) fs. sel s) = (\<Sum>t\<leftarrow>fs. entry_val sel e t)"
  by (induction fs) (auto simp: map_filter_simps entry_val_def split: option.splits)

lemma tile_stats_totals:
  "(case tile_stats e fs of None \<Rightarrow> 0 | Some s \<Rightarrow> gas_used_total s) = (\<Sum>t\<leftarrow>fs. entry_val gas_used_total e t)"
  "(case tile_stats e fs of None \<Rightarrow> 0 | Some s \<Rightarrow> gas_used_time_total s) = (\<Sum>t\<leftarrow>fs. entry_val gas_used_time_total e t)"
  "(case tile_stats e fs of None \<Rightarrow> 0 | Some s \<Rightarrow> ag_fail s) = (\<Sum>t\<leftarrow>fs. entry_val ag_fail e t)"
proof -
  have none: "(\<Sum>t\<leftarrow>fs. entry_val sel e t) = 0" if "te_steps e = None" for sel
    using that by (induction fs) (simp_all add: entry_val_def)
  show "(case tile_stats e fs of None \<Rightarrow> 0 | Some s \<Rightarrow> gas_used_total s) = (\<Sum>t\<leftarrow>fs. entry_val gas_used_total e t)"
    "(case tile_stats e fs of None \<Rightarrow> 0 | Some s \<Rightarrow> gas_used_time_total s) = (\<Sum>t\<leftarrow>fs. entry_val gas_used_time_total e t)"
    "(case tile_stats e fs of None \<Rightarrow> 0 | Some s \<Rightarrow> ag_fail s) = (\<Sum>t\<leftarrow>fs. entry_val ag_fail e t)"
    using none by (cases "te_steps e";
        simp add: tile_stats_def Let_def fold_tile_stats zero_stats_def step_sums [symmetric])+
qed

text \<open>The sums are those of the statistics on the run page.\<close>

lemma tile_stats_agree:
  "(case tile_stats e fs of None \<Rightarrow> 0 | Some s \<Rightarrow> gas_used_total s) =
   (case getAggregatedStats e fs of None \<Rightarrow> 0 | Some s \<Rightarrow> gas_used_total s)"
  "(case tile_stats e fs of None \<Rightarrow> 0 | Some s \<Rightarrow> gas_used_time_total s) =
   (case getAggregatedStats e fs of None \<Rightarrow> 0 | Some s \<Rightarrow> gas_used_time_total s)"
  by (cases "te_steps e"; simp add: tile_stats_def getAggregatedStats_def Let_def fold_tile_stats fold_add_stats zero_stats_def)+

definition tile_spec :: "test_entry js_object \<Rightarrow> step_type list \<Rightarrow> real \<Rightarrow> TestData \<Rightarrow> bool" where
  "tile_spec tests fs slowMs t \<longleftrightarrow>
     (case map_of tests (td_testKey t) of
        None \<Rightarrow> td_notProcessed t \<and> td_noData t \<and> \<not> td_isSlow t \<and> \<not> td_hasFail t \<and> td_gasUsedTotal t = 0
      | Some e \<Rightarrow>
          \<not> td_notProcessed t \<and>
          td_gasUsedTotal t = (\<Sum>u\<leftarrow>fs. entry_val gas_used_total e u) \<and>
          td_gasUsedTimeTotal t = (\<Sum>u\<leftarrow>fs. entry_val gas_used_time_total e u) \<and>
          (td_noData t \<longleftrightarrow> td_gasUsedTotal t \<le> 0 \<or> td_gasUsedTimeTotal t \<le> 0) \<and>
          td_mgasPerSec t = (if td_noData t then 0 else td_gasUsedTotal t * 1000 / td_gasUsedTimeTotal t) \<and>
          td_maxPayloadNs t = pt_maxNs (getPayloadTimes e fs) \<and>
          (td_isSlow t \<longleftrightarrow> \<not> td_noData t \<and> td_maxPayloadNs t > slowMs * 1000000) \<and>
          (td_hasFail t \<longleftrightarrow> (\<Sum>u\<leftarrow>ALL_STEP_TYPES. entry_val ag_fail e u) > 0))"

lemma tile_of_key [simp]: "td_testKey (tile_of tests ord fs slowMs name) = name"
  by (simp add: tile_of_def Let_def split: option.split)

lemma tile_of_spec: "tile_spec tests fs slowMs (tile_of tests ord fs slowMs name)"
proof (cases "map_of tests name")
  case None
  then show ?thesis by (simp add: tile_spec_def tile_of_def Let_def)
next
  case (Some e)
  let ?g = "\<Sum>u\<leftarrow>fs. entry_val gas_used_total e u" and ?t = "\<Sum>u\<leftarrow>fs. entry_val gas_used_time_total e u"
  have m: "Option.bind (tile_stats e fs) (\<lambda>s. calculateMGasPerSec (gas_used_total s) (gas_used_time_total s)) =
      (if ?g \<le> 0 \<or> ?t \<le> 0 then None else Some (?g * 1000 / ?t))"
    using tile_stats_totals [where e = e and fs = fs] by (cases "tile_stats e fs") (auto simp: calculateMGasPerSec_def)
  have f: "(case tile_stats e ALL_STEP_TYPES of None \<Rightarrow> False | Some s \<Rightarrow> ag_fail s > 0) \<longleftrightarrow>
      (\<Sum>u\<leftarrow>ALL_STEP_TYPES. entry_val ag_fail e u) > 0"
    using tile_stats_totals(3) [where e = e and fs = ALL_STEP_TYPES] by (cases "tile_stats e ALL_STEP_TYPES") auto
  show ?thesis
    unfolding tile_spec_def tile_of_key Some
    by (simp add: tile_of_def Some Let_def m f tile_stats_totals isSlowPayload_def)
qed

lemma add_tiles:
  "rt_testData (fold add_tile ts r) = rt_testData r @ ts"
  "rt_slowTestCount (fold add_tile ts r) = rt_slowTestCount r + length (filter (\<lambda>t. \<not> td_noData t \<and> td_isSlow t) ts)"
  "rt_minMgas (fold add_tile ts r) = fold (opt_with min) (map td_mgasPerSec (filter (\<lambda>t. \<not> td_noData t) ts)) (rt_minMgas r)"
  "rt_maxMgas (fold add_tile ts r) = fold (opt_with max) (map td_mgasPerSec (filter (\<lambda>t. \<not> td_noData t) ts)) (rt_maxMgas r)"
  "rt_minPayloadNs (fold add_tile ts r) = fold (opt_with min) (map td_maxPayloadNs (filter (\<lambda>t. \<not> td_noData t) ts)) (rt_minPayloadNs r)"
  "rt_maxPayloadNs (fold add_tile ts r) = fold (opt_with max) (map td_maxPayloadNs (filter (\<lambda>t. \<not> td_noData t) ts)) (rt_maxPayloadNs r)"
  by (induction ts arbitrary: r) (simp_all add: add_tile_def Let_def)

definition range_of :: "(real set \<Rightarrow> real) \<Rightarrow> real list \<Rightarrow> real" where
  "range_of f xs = (if xs = [] then 0 else f (set xs))"

lemma fold_range:
  "or_zero_range (fold (opt_with min) xs None) = Some (range_of Min xs)"
  "or_zero_range (fold (opt_with max) xs None) = Some (range_of Max xs)"
  by (cases xs; simp add: or_zero_range_def range_of_def opt_with_some fold_min_max)+

text \<open>C30: The tiles of the run heat map. There is one tile for every test of the suite and every test with a
  result, no test twice; a test without result is marked as not processed; a tile shows the sums over the
  selected steps, its speed is gas over time and absent exactly when one of them is not positive; it is slow
  when its longest payload is above the limit, and has failed when some step has, selected or not. The
  ranges and the counter of slow tests in the caption are those of the tiles with data.\<close>

theorem run_tiles_reference:
  assumes "r = run_heatmap tests suiteTests fs slowMs" "ts = rt_testData r" "data = filter (\<lambda>t. \<not> td_noData t) ts"
  shows "distinct (map td_testKey ts) \<and>
    set (map td_testKey ts) = set (map fst tests) \<union> (case suiteTests of None \<Rightarrow> {} | Some names \<Rightarrow> set names) \<and>
    (\<forall>t \<in> set ts. tile_spec tests fs slowMs t) \<and>
    rt_slowTestCount r = length (filter td_isSlow data) \<and>
    rt_minMgas r = Some (range_of Min (map td_mgasPerSec data)) \<and> rt_maxMgas r = Some (range_of Max (map td_mgasPerSec data)) \<and>
    rt_minPayloadNs r = Some (range_of Min (map td_maxPayloadNs data)) \<and>
    rt_maxPayloadNs r = Some (range_of Max (map td_maxPayloadNs data))"
proof -
  let ?tile = "tile_of tests (executionOrder suiteTests) fs slowMs"
  let ?names = "allTestNames tests suiteTests"
  have fold: "fold (\<lambda>name. add_tile (?tile name)) ns x = fold add_tile (map ?tile ns) x" for ns x
    by (simp add: fold_map comp_def)
  have ts: "ts = map ?tile ?names"
    using assms(1,2) by (simp add: run_heatmap_def Let_def fold add_tiles)
  have "map td_testKey ts = ?names" by (simp add: ts comp_def)
  moreover have "distinct ?names" "set ?names = set (map fst tests) \<union> (case suiteTests of None \<Rightarrow> {} | Some names \<Rightarrow> set names)"
    by (auto simp: allTestNames_def set_fold_add distinct_fold_add split: option.split)
  moreover have "\<forall>t \<in> set ts. tile_spec tests fs slowMs t" using tile_of_spec by (auto simp: ts)
  moreover have "rt_slowTestCount r = length (filter td_isSlow data)"
    "rt_minMgas r = Some (range_of Min (map td_mgasPerSec data))" "rt_maxMgas r = Some (range_of Max (map td_mgasPerSec data))"
    "rt_minPayloadNs r = Some (range_of Min (map td_maxPayloadNs data))"
    "rt_maxPayloadNs r = Some (range_of Max (map td_maxPayloadNs data))"
    unfolding assms(1,3) ts run_heatmap_def Let_def fold by (simp_all add: add_tiles fold_range conj_commute)
  ultimately show ?thesis by simp
qed

lemma run_tile_spec:
  "t \<in> set (rt_testData (run_heatmap tests suiteTests fs slowMs)) \<Longrightarrow> tile_spec tests fs slowMs t"
proof -
  have fold: "fold (\<lambda>name. add_tile (f name)) ns x = fold add_tile (map f ns) x" for ns x and f :: "string \<Rightarrow> TestData"
    by (simp add: fold_map comp_def)
  show "t \<in> set (rt_testData (run_heatmap tests suiteTests fs slowMs)) \<Longrightarrow> tile_spec tests fs slowMs t"
    using tile_of_spec by (auto simp: run_heatmap_def Let_def fold add_tiles)
qed


subsection \<open>Distribution\<close>

lemma filtered_matches: "filteredTestData sf q tiles = filter (cell_matches sf q) tiles"
  unfolding filteredTestData_def Let_def cell_matches_def
  by (intro filter_cong HOL.refl) (cases sf; cases "q = []"; auto simp: testNameMatches_def)

lemma bump_bins:
  "length bins = 11 \<Longrightarrow>
   length (fold (\<lambda>t. bump_bin limit (f t)) ts bins) = 11 \<and>
   (\<forall>i < 11. fold (\<lambda>t. bump_bin limit (f t)) ts bins ! i =
      bins ! i + length (filter (\<lambda>t. find_bin (num_quot (f t) limit) = i) ts))"
proof (induction ts arbitrary: bins)
  case (Cons t ts)
  have "length (bump_bin limit (f t) bins) = 11" using Cons.prems by (simp add: bump_bin_def Let_def)
  from Cons.IH [OF this] Cons.prems show ?case
    using find_bin_less [of "num_quot (f t) limit"] by (auto simp: bump_bin_def Let_def nth_list_update)
qed simp

lemma run_histogram_counts:
  assumes "data = filter (\<lambda>t. \<not> td_noData t) kept" "data \<noteq> []"
    and "limit = (if mode = ColourDuration then slowMs * 1000000 else threshold)"
  shows "map bn_count (run_histogram num mode threshold slowMs kept) =
    map (\<lambda>i. length (filter (\<lambda>t. find_bin (num_quot (tile_value mode t) limit) = i) data)) [0..<11]"
proof -
  define bins where "bins = fold (\<lambda>t. bump_bin limit (tile_value mode t)) data (replicate 11 0)"
  have bins: "length bins = 11" "\<And>i. i < 11 \<Longrightarrow> bins ! i = length (filter (\<lambda>t. find_bin (num_quot (tile_value mode t) limit) = i) data)"
    using bump_bins [of "replicate 11 0" limit "tile_value mode" data] by (simp_all add: bins_def)
  have "run_histogram num mode threshold slowMs kept = map (run_bin num mode threshold slowMs bins limit) [0..<11]"
    using bins(1) assms by (simp add: run_histogram_def Let_def multipliers bins_def)
  moreover have "bn_count (run_bin num mode threshold slowMs bins limit i) = bins ! i" for i
    by (simp add: run_bin_def histogram_bin_def Let_def)
  ultimately show ?thesis using bins(2) by (simp add: comp_def)
qed

definition slow_colour :: "tile_style \<Rightarrow> bool" where
  "slow_colour st \<longleftrightarrow> (case ts_fill st of Colour c \<Rightarrow> THRESHOLD_LIMIT_STEP < color_rank c | _ \<Rightarrow> False)"

lemma slow_threshold:
  "0 < th \<Longrightarrow> THRESHOLD_LIMIT_STEP < color_rank (getColorByThreshold v th) \<longleftrightarrow> v < th"
  using thresholdStep_limit [of "num_quot v th"] by (auto simp: getColorByThreshold_def num_quot_Fin le_divide_eq not_less [symmetric])

lemma slow_tile_colour:
  assumes "tile_spec tests fs slowMs t" "\<not> td_noData t" "0 < threshold" "0 < slowMs"
  shows "slow_colour (heatmap_cell mode threshold slowMs sf q pop live t) \<longleftrightarrow>
    (if mode = ColourDuration then td_isSlow t else td_mgasPerSec t < threshold)"
proof -
  have "\<not> td_notProcessed t" "td_isSlow t \<longleftrightarrow> isSlowPayload (td_maxPayloadNs t) slowMs"
    using assms(1,2) by (auto simp: tile_spec_def isSlowPayload_def split: option.splits)
  then show ?thesis
    using assms(2) slow_threshold [OF assms(3)] slow_iff_past_limit [OF assms(4), of "td_maxPayloadNs t"]
    by (cases mode) (auto simp: slow_colour_def heatmap_cell_def)
qed

text \<open>C31: The distribution of the run heat map describes the tiles that are not dimmed. For a positive
  threshold, in both modes: its bars count every tile that has data and is not dimmed once, and there is no
  bar without such tiles; the counters of slow and fast tests are the number of these tiles in a colour past
  the limit and the number of the others; by speed the slow ones are exactly those left of the line.\<close>

theorem run_histogram_shows_visible:
  assumes "tiles = rt_testData (run_heatmap tests suiteTests fs slowMs)" "0 < threshold"
    and "kept = filteredTestData statusFilter query tiles"
    and "cell = heatmap_cell mode threshold slowMs statusFilter query None False"
    and "shown = filter (\<lambda>t. \<not> td_noData t \<and> \<not> ts_dimmed (cell t)) tiles"
    and "h = run_histogram num mode threshold slowMs kept" "0 < slowMs"
  shows "sum_list (map bn_count h) = length shown \<and> (h = [] \<longleftrightarrow> shown = []) \<and>
    fst (slow_fast mode threshold kept) = length (filter (\<lambda>t. slow_colour (cell t)) shown) \<and>
    snd (slow_fast mode threshold kept) = length (filter (\<lambda>t. \<not> slow_colour (cell t)) shown) \<and>
    (mode = ColourMgas \<longrightarrow> sum_list (map bn_count (take 4 h)) = fst (slow_fast mode threshold kept))"
proof -
  define limit where "limit = (if mode = ColourDuration then slowMs * 1000000 else threshold)"
  let ?bin = "\<lambda>t. find_bin (num_quot (tile_value mode t) limit)"
  have data: "filter (\<lambda>t. \<not> td_noData t) kept = shown"
    unfolding assms(3,5) filtered_matches filter_filter by (simp add: assms(4) heatmap_cell_def conj_commute)
  have slow: "slow_colour (cell t) \<longleftrightarrow> (if mode = ColourDuration then td_isSlow t else td_mgasPerSec t < threshold)" if "t \<in> set shown" for t
    using that slow_tile_colour [OF run_tile_spec [where t = t and tests = tests and fs = fs and slowMs = slowMs] _ assms(2,7)]
    unfolding assms(1,4,5) set_filter mem_Collect_eq by blast
  have split: "fst (slow_fast mode threshold kept) = length (filter (\<lambda>t. slow_colour (cell t)) shown)"
    unfolding slow_fast_def Let_def data fst_conv using slow by (auto intro!: arg_cong [where f = length] filter_cong)
  moreover have "snd (slow_fast mode threshold kept) = length shown - fst (slow_fast mode threshold kept)"
    by (simp add: slow_fast_def Let_def data)
  ultimately have "snd (slow_fast mode threshold kept) = length (filter (\<lambda>t. \<not> slow_colour (cell t)) shown)"
    using sum_length_filter_compl [of "\<lambda>t. slow_colour (cell t)" shown] by simp
  note split = split this
  show ?thesis
  proof (cases "shown = []")
    case True
    then have "h = []" using data by (simp add: assms(6) run_histogram_def)
    then show ?thesis using True split by auto
  next
    case False
    have h: "map bn_count h = map (\<lambda>i. length (filter (\<lambda>t. ?bin t = i) shown)) [0..<11]"
      unfolding assms(6) by (rule run_histogram_counts [OF data [symmetric] False limit_def])
    have total: "(\<Sum>i\<leftarrow>[0..<n]. length (filter (\<lambda>t. ?bin t = i) shown)) = length (filter (\<lambda>t. ?bin t < n) shown)" for n
      by (rule counts_sum) simp
    have "sum_list (map bn_count h) = length shown" unfolding h total using find_bin_less by simp
    moreover have "h \<noteq> []" using arg_cong [OF h, of length] by auto
    moreover have "sum_list (map bn_count (take 4 h)) = fst (slow_fast mode threshold kept)" if "mode = ColourMgas"
    proof -
      have "map bn_count (take 4 h) = map (\<lambda>i. length (filter (\<lambda>t. ?bin t = i) shown)) [0..<4]"
        unfolding take_map [symmetric] h by (simp add: take_map)
      then have "sum_list (map bn_count (take 4 h)) = length (filter (\<lambda>t. ?bin t < 4) shown)" using total by simp
      also have "\<dots> = length (filter (\<lambda>t. slow_colour (cell t)) shown)"
        using slow that assms(2)
        by (intro arg_cong [where f = length] filter_cong HOL.refl) (simp add: limit_def tile_value_def num_quot_Fin find_bin_slow)
      finally show ?thesis using split by simp
    qed
    ultimately show ?thesis using False split by simp
  qed
qed

subsection \<open>Groups\<close>

lemma gas_group_near: "\<bar>x - of_int (getGasGroup x)\<bar> \<le> 15000000"
proof -
  have "\<bar>real_of_int (math_round (x / 30000000)) - x / 30000000\<bar> \<le> 1 / 2" by (rule math_round_error)
  then show ?thesis by (simp add: getGasGroup_def GAS_GROUP_STEP_def abs_if field_simps split: if_splits)
qed

lemma sorted_buckets:
  fixes key :: "'a \<Rightarrow> int"
  assumes "ps = js_sort (\<lambda>a b. Fin (of_int (fst b - fst a))) (bucket key xs)"
  shows "sorted_wrt (\<lambda>p q. fst q < fst p) ps"
    "(g, its) \<in> set ps \<longleftrightarrow> g \<in> key ` set xs \<and> its = filter (\<lambda>t. key t = g) xs"
proof -
  note b = bucket_reference [of key xs]
  have ps: "ps = js_sort (key_cmp (\<lambda>p. - real_of_int (fst p))) (bucket key xs)"
    by (simp add: assms key_cmp_def [abs_def])
  have keys: "distinct (map fst ps)"
    using b(3) mset_map [of fst ps] by (metis ps mset_js_sort mset_map mset_eq_imp_distinct_iff)
  have "sorted_wrt (\<lambda>p q. fst q \<le> fst p) ps"
    using key.sorted_js_sort [of "\<lambda>p. - real_of_int (fst p)" "bucket key xs"] by (simp add: ps key_cmp_def not_less)
  moreover have "sorted_wrt (\<lambda>p q. fst p \<noteq> fst q) ps"
    using keys by (simp add: distinct_conv_nth sorted_wrt_iff_nth_less)
  ultimately show "sorted_wrt (\<lambda>p q. fst q < fst p) ps"
    unfolding sorted_wrt_iff_nth_less by (metis order.not_eq_order_implies_strict)
  have "(g, its) \<in> set ps \<longleftrightarrow> map_of (bucket key xs) g = Some its" using b(3) by (simp add: ps)
  then show "(g, its) \<in> set ps \<longleftrightarrow> g \<in> key ` set xs \<and> its = filter (\<lambda>t. key t = g) xs"
    using b(1) [of g] by auto
qed

text \<open>Grouping by gas loses no tile. The groups come in strictly falling order of gas; a group holds the
  tiles whose gas is nearest to its label (within fifteen million), in the order of the sort, and each tile
  is in exactly one group.\<close>

theorem gas_groups_partition:
  assumes "gs = groupedData (sortedData sm tiles)"
  shows "sorted_wrt (\<lambda>a b. gg_gasGroup b < gg_gasGroup a) gs \<and>
    (\<forall>g \<in> set gs. gg_tests g \<noteq> [] \<and>
       gg_tests g = filter (\<lambda>t. getGasGroup (td_gasUsedTotal t) = gg_gasGroup g) (sortedData sm tiles) \<and>
       (\<forall>t \<in> set (gg_tests g). \<bar>td_gasUsedTotal t - of_int (gg_gasGroup g)\<bar> \<le> 15000000)) \<and>
    (\<forall>t \<in> set tiles. \<exists>!g. g \<in> set gs \<and> t \<in> set (gg_tests g))"
proof -
  let ?key = "\<lambda>t. getGasGroup (td_gasUsedTotal t)" and ?s = "sortedData sm tiles"
  define ps where "ps = js_sort (\<lambda>a b. Fin (of_int (fst b - fst a))) (bucket ?key ?s)"
  note items = sorted_buckets(2) [OF ps_def]
  have gs: "gs = map (\<lambda>(g, items). \<lparr>gg_label = formatGasGroup g, gg_gasGroup = g, gg_tests = items\<rparr>) ps"
    by (simp add: assms groupedData_def ps_def)
  have falling: "sorted_wrt (\<lambda>a b. gg_gasGroup b < gg_gasGroup a) gs"
    using sorted_buckets(1) [OF ps_def] by (simp add: gs sorted_wrt_map case_prod_unfold)
  have groups: "\<forall>g \<in> set gs. gg_tests g \<noteq> [] \<and> gg_tests g = filter (\<lambda>t. ?key t = gg_gasGroup g) ?s \<and>
       (\<forall>t \<in> set (gg_tests g). \<bar>td_gasUsedTotal t - of_int (gg_gasGroup g)\<bar> \<le> 15000000)"
    using items gas_group_near by (auto simp: gs filter_empty_conv)
  have "\<exists>!g. g \<in> set gs \<and> t \<in> set (gg_tests g)" if "t \<in> set tiles" for t
  proof -
    have "t \<in> set ?s" using that by (simp add: sortedData_def)
    then have "(?key t, filter (\<lambda>u. ?key u = ?key t) ?s) \<in> set ps" using items by auto
    define G where "G = \<lparr>gg_label = formatGasGroup (?key t), gg_gasGroup = ?key t, gg_tests = filter (\<lambda>u. ?key u = ?key t) ?s\<rparr>"
    have "G \<in> set gs"
      unfolding gs G_def using \<open>(?key t, filter (\<lambda>u. ?key u = ?key t) ?s) \<in> set ps\<close> by (force intro: image_eqI)
    moreover have "t \<in> set (gg_tests G)" using \<open>t \<in> set ?s\<close> by (simp add: G_def)
    moreover have "g = G" if "g \<in> set gs \<and> t \<in> set (gg_tests g)" for g
      using that items by (auto simp: gs G_def)
    ultimately show ?thesis by blast
  qed
  then show ?thesis using falling groups by blast
qed

subsection \<open>New tiles\<close>

text \<open>What each snapshot of a list sets: nothing, or the delays of the tiles it completes.\<close>

fun pop_trace :: "string list \<Rightarrow> TestData list list \<Rightarrow> (string, nat) js_map list" where
  "pop_trace prev [] = []"
| "pop_trace prev (tiles # snaps) =
     pop_delays (newly_completed prev tiles) # pop_trace (completed_keys tiles) snaps"

lemma enumerate_keys: "map (\<lambda>p. f (snd p)) (enumerate k xs) = map f xs"
  by (induction xs arbitrary: k) auto

lemma fold_fresh_keys:
  "distinct (map f ys) \<Longrightarrow> f ` set ys \<inter> set (map fst m) = {} \<Longrightarrow>
   fold (\<lambda>x. map_set (f x) (g x)) ys m = m @ map (\<lambda>x. (f x, g x)) ys"
proof (induction ys arbitrary: m)
  case (Cons y ys)
  have "f y \<notin> set (map fst m)" using Cons.prems(2) by auto
  then have "map_set (f y) (g y) m = m @ [(f y, g y)]" by (induction m) auto
  then show ?case using Cons by simp
qed simp

lemma pop_delays_eq:
  assumes "distinct (map td_testKey newly)"
  shows "pop_delays newly = map (\<lambda>(i, t). (td_testKey t, min (i * 60) 1800)) (enumerate 0 newly)"
proof -
  have "distinct (map (\<lambda>p. td_testKey (snd p)) (enumerate 0 newly))"
    using assms by (simp only: enumerate_keys)
  from fold_fresh_keys [OF this, of "[]" "\<lambda>p. min (fst p * 60) 1800"]
  show ?thesis by (simp add: pop_delays_def STEP_MS_def MAX_STAGGER_MS_def case_prod_unfold)
qed

lemma distinct_newly:
  "distinct (map td_testKey tiles) \<Longrightarrow> distinct (map td_testKey (newly_completed prev tiles))"
proof -
  assume d: "distinct (map td_testKey tiles)"
  have "distinct (map td_testKey (filter (\<lambda>t. td_testKey t \<notin> set prev) (filter (\<lambda>t. \<not> td_notProcessed t) tiles)))"
    using d by (intro distinct_map_filter) (simp add: distinct_map_filter)
  then show ?thesis
    by (metis (no_types, lifting) newly_completed_def mset_js_sort mset_map mset_eq_imp_distinct_iff)
qed

lemma set_newly: "td_testKey ` set (newly_completed prev tiles) = set (completed_keys tiles) - set prev"
  by (auto simp: newly_completed_def completed_keys_def)

lemma pop_trace_once:
  assumes "\<forall>tiles \<in> set snaps. distinct (map td_testKey tiles)"
    and "sorted_wrt (\<subseteq>) (set prev # map (\<lambda>tiles. set (completed_keys tiles)) snaps)"
  shows "distinct (map fst (concat (pop_trace prev snaps))) \<and>
    set (map fst (concat (pop_trace prev snaps))) = (\<Union>tiles \<in> set snaps. set (completed_keys tiles)) - set prev"
  using assms
proof (induction snaps arbitrary: prev)
  case (Cons tiles snaps)
  let ?c = "completed_keys tiles"
  have d: "distinct (map td_testKey (newly_completed prev tiles))" using Cons.prems(1) distinct_newly by simp
  have here: "map fst (pop_delays (newly_completed prev tiles)) = map td_testKey (newly_completed prev tiles)"
    unfolding pop_delays_eq [OF d] by (simp only: map_map comp_def case_prod_unfold fst_conv enumerate_keys)
  have rest: "distinct (map fst (concat (pop_trace ?c snaps)))"
      "set (map fst (concat (pop_trace ?c snaps))) = (\<Union>tiles \<in> set snaps. set (completed_keys tiles)) - set ?c"
    using Cons.IH [of ?c] Cons.prems by simp_all
  have keys: "set (map fst (pop_delays (newly_completed prev tiles))) = set ?c - set prev"
    unfolding here using set_newly by simp
  have "set prev \<subseteq> set ?c" using Cons.prems(2) by simp
  moreover have "map fst (concat (pop_trace prev (tiles # snaps))) =
      map fst (pop_delays (newly_completed prev tiles)) @ map fst (concat (pop_trace ?c snaps))" by simp
  moreover have "distinct (map fst (pop_delays (newly_completed prev tiles)))" using d here by simp
  ultimately show ?case using rest keys Cons.prems(2) unfolding distinct_append set_append
    by (simp only: list.set UN_insert distinct_append set_append) blast
qed simp

text \<open>The effect writes exactly these delays.\<close>

lemma pop_effect_trace:
  assumes "pp_prevCompleted s = Some prev"
  shows "pp_prevCompleted (pop_step s (Snapshot tiles)) = Some (completed_keys tiles)"
    "pp_popDelays (pop_step s (Snapshot tiles)) =
      (if newly_completed prev tiles = [] then pp_popDelays s else pop_delays (newly_completed prev tiles))"
    "newly_completed prev tiles \<noteq> [] \<Longrightarrow>
     pp_popDelays (pop_step (pop_step s (Snapshot tiles)) (Elapsed ms)) =
       (if ms < longest (newly_completed prev tiles) then pop_delays (newly_completed prev tiles) else [])"
  using assms by (simp_all add: pop_effect_def Let_def)

lemma pop_trace_nth:
  "k < length snaps \<Longrightarrow>
   pop_trace (completed_keys first) snaps ! k = pop_delays (newly_completed (completed_keys ((first # snaps) ! k)) (snaps ! k))"
proof (induction snaps arbitrary: first k)
  case (Cons tiles snaps)
  then show ?case by (cases k) simp_all
qed simp

lemma length_pop_trace [simp]: "length (pop_trace prev snaps) = length snaps"
  by (induction snaps arbitrary: prev) simp_all

text \<open>C32: Each tile of the live heat map flashes once. The first snapshot flashes nothing. When tests only go
  from waiting to done, every later snapshot sets the delays of exactly the tiles it completes, and over all
  snapshots these are the tiles that were completed after the first one, each once; the tiles of a snapshot
  follow each other sixty milliseconds apart, at most 1.8 seconds late. As long as no other snapshot comes, the
  delays stay until 0.7 seconds after the last tile has started, longer than the 0.6 seconds of its animation, and
  are gone then. The timer does not touch what is remembered.\<close>

theorem tiles_flash_once:
  assumes "\<forall>tiles \<in> set (first # snaps). distinct (map td_testKey tiles)"
    and "sorted_wrt (\<subseteq>) (map (\<lambda>tiles. set (completed_keys tiles)) (first # snaps))"
    and "tr = pop_trace (completed_keys first) snaps"
  shows "pp_popDelays (pop_step no_pops (Snapshot first)) = [] \<and>
    pp_prevCompleted (pop_step no_pops (Snapshot first)) = Some (completed_keys first) \<and>
    distinct (map fst (concat tr)) \<and>
    set (map fst (concat tr)) = (\<Union>tiles \<in> set snaps. set (completed_keys tiles)) - set (completed_keys first) \<and>
    (\<forall>k < length snaps. \<forall>s. pp_prevCompleted s = Some (completed_keys ((first # snaps) ! k)) \<longrightarrow>
       pp_prevCompleted (pop_step s (Snapshot (snaps ! k))) = Some (completed_keys (snaps ! k)) \<and>
       pp_popDelays (pop_step s (Snapshot (snaps ! k))) = (if tr ! k = [] then pp_popDelays s else tr ! k) \<and>
       map snd (tr ! k) = map (\<lambda>i. min (i * 60) 1800) [0..<length (tr ! k)] \<and>
       (tr ! k \<noteq> [] \<longrightarrow>
          (\<forall>ms. pp_popDelays (pop_step (pop_step s (Snapshot (snaps ! k))) (Elapsed ms)) =
                (if ms < snd (last (tr ! k)) + 700 then tr ! k else [])))) \<and>
    (\<forall>s ms. pp_prevCompleted (pop_step s (Elapsed ms)) = pp_prevCompleted s)"
proof -
  have once: "distinct (map fst (concat tr))"
    "set (map fst (concat tr)) = (\<Union>tiles \<in> set snaps. set (completed_keys tiles)) - set (completed_keys first)"
    using pop_trace_once [of snaps "completed_keys first"] assms by simp_all
  have "pp_prevCompleted (pop_step s (Snapshot (snaps ! k))) = Some (completed_keys (snaps ! k)) \<and>
       pp_popDelays (pop_step s (Snapshot (snaps ! k))) = (if tr ! k = [] then pp_popDelays s else tr ! k) \<and>
       map snd (tr ! k) = map (\<lambda>i. min (i * 60) 1800) [0..<length (tr ! k)] \<and>
       (tr ! k \<noteq> [] \<longrightarrow>
          (\<forall>ms. pp_popDelays (pop_step (pop_step s (Snapshot (snaps ! k))) (Elapsed ms)) =
                (if ms < snd (last (tr ! k)) + 700 then tr ! k else [])))"
    if k: "k < length snaps" and s: "pp_prevCompleted s = Some (completed_keys ((first # snaps) ! k))" for k s
  proof -
    let ?n = "newly_completed (completed_keys ((first # snaps) ! k)) (snaps ! k)"
    have "distinct (map td_testKey ?n)" using assms(1) k by (intro distinct_newly) simp
    then have tr: "tr ! k = map (\<lambda>(i, t). (td_testKey t, min (i * 60) 1800)) (enumerate 0 ?n)"
      unfolding assms(3) pop_trace_nth [OF k] by (rule pop_delays_eq)
    then have "map snd (tr ! k) = map (\<lambda>i. min (i * 60) 1800) (map fst (enumerate 0 ?n))"
      by (simp only: map_map comp_def case_prod_unfold snd_conv)
    moreover have same: "tr ! k = [] \<longleftrightarrow> ?n = []" "length (tr ! k) = length ?n" unfolding tr by (cases ?n; simp)+
    ultimately have delays: "map snd (tr ! k) = map (\<lambda>i. min (i * 60) 1800) [0..<length (tr ! k)]"
      by (simp add: enumerate_eq_zip)
    have long: "longest ?n = snd (last (tr ! k)) + 700" if "tr ! k \<noteq> []"
    proof -
      have "snd (last (tr ! k)) = last (map snd (tr ! k))" using that by (simp add: last_map)
      also have "\<dots> = min ((length ?n - 1) * 60) 1800" using that unfolding delays by (simp add: last_map same(2) [symmetric])
      finally show ?thesis by (simp add: longest_def STEP_MS_def MAX_STAGGER_MS_def)
    qed
    have "tr ! k = pop_delays ?n" by (simp only: assms(3) pop_trace_nth [OF k])
    then show ?thesis
      using pop_effect_trace [OF s, of "snaps ! k"] delays same(1) long by simp
  qed
  then show ?thesis using once by (simp add: pop_effect_def no_pops_def split: option.split)
qed

text \<open>A comment promises a second render after each change that clears the delays. A change of the data that
  completes nothing cancels the timer and starts none: the delays stay.\<close>

lemma delays_stay:
  assumes "pp_prevCompleted s = Some (completed_keys tiles)" "newly_completed (completed_keys tiles) tiles = []"
  shows "pp_popDelays (pop_step (pop_step s (Snapshot tiles)) (Elapsed ms)) = pp_popDelays s"
  using assms by (simp add: pop_effect_def Let_def)
section \<open>Witnesses\<close>

definition tile_entry :: "real \<Rightarrow> real \<Rightarrow> test_entry" where
  "tile_entry gas time =
     \<lparr>te_dir = [], te_filename_hash = None,
      te_steps = Some \<lparr>st_setup = None,
        st_test = Some \<lparr>sr_aggregated = Some (zero_stats\<lparr>gas_used_total := gas, gas_used_time_total := time\<rparr>)\<rparr>,
        st_cleanup = None\<rparr>\<rparr>"

definition shown_tile :: TestData where
  "shown_tile = \<lparr>td_testKey = ''a'', td_filename = ''a'', td_order = Fin 2, td_mgasPerSec = 5, td_gasUsedTotal = 50,
     td_gasUsedTimeTotal = 10000, td_maxPayloadNs = 10000, td_payloadCount = 1, td_isSlow = False, td_hasFail = False,
     td_noData = False, td_notProcessed = False\<rparr>"

definition waiting_tile :: TestData where
  "waiting_tile = \<lparr>td_testKey = ''b'', td_filename = ''b'', td_order = Fin 1, td_mgasPerSec = 0, td_gasUsedTotal = 0,
     td_gasUsedTimeTotal = 0, td_maxPayloadNs = 0, td_payloadCount = 0, td_isSlow = False, td_hasFail = False,
     td_noData = True, td_notProcessed = True\<rparr>"

lemma sample_tiles:
  "rt_testData (run_heatmap [(''a'', tile_entry 50 10000)] (Some [''b'', ''a'']) [Test] 1000) = [shown_tile, waiting_tile]"
proof -
  have names: "allTestNames [(''a'', tile_entry 50 10000)] (Some [''b'', ''a'']) = [''a'', ''b'']"
    by (simp add: allTestNames_def js_set_of_def set_add_def)
  have order: "map_of (executionOrder (Some [''b'', ''a''])) ''a'' = Some 2" "map_of (executionOrder (Some [''b'', ''a''])) ''b'' = Some 1"
    by (simp_all add: executionOrder_def test_numbers_def numeral_2_eq_2)
  have stats: "tile_stats (tile_entry 50 10000) fs = Some (tile_add_stats (zero_stats\<lparr>gas_used_total := 50, gas_used_time_total := 10000\<rparr>) zero_stats)"
    if "fs = [Test] \<or> fs = ALL_STEP_TYPES" for fs
    using that by (auto simp: tile_stats_def tile_entry_def step_stats_def map_filter_simps ALL_STEP_TYPES_def Let_def)
  have payloads: "getPayloadTimes (tile_entry 50 10000) [Test] = \<lparr>pt_totalNs = 10000, pt_maxNs = 10000, pt_count = 1\<rparr>"
    by (simp add: getPayloadTimes_def tile_entry_def add_step_payloads_def step_aggregated_def zero_stats_def
        no_payload_def Let_def)
  show ?thesis
    unfolding run_heatmap_def names
    by (simp add: add_tile_def Let_def tile_of_def order stats shown_tile_def waiting_tile_def)
      (simp add: tile_add_stats_def zero_stats_def calculateMGasPerSec_def payloads isSlowPayload_def)
qed

theorem run_tiles_reference_witness:
  "rt_slowTestCount (run_heatmap [(''a'', tile_entry 50 10000)] (Some [''b'', ''a'']) [Test] 1000) = 0 \<and>
   rt_minMgas (run_heatmap [(''a'', tile_entry 50 10000)] (Some [''b'', ''a'']) [Test] 1000) = Some 5 \<and>
   rt_maxMgas (run_heatmap [(''a'', tile_entry 50 10000)] (Some [''b'', ''a'']) [Test] 1000) = Some 5"
  using run_tiles_reference [OF HOL.refl HOL.refl HOL.refl,
      of "[(''a'', tile_entry 50 10000)]" "Some [''b'', ''a'']" "[Test]" 1000]
  unfolding sample_tiles by (simp add: shown_tile_def waiting_tile_def range_of_def)

theorem run_histogram_shows_visible_witness:
  "sum_list (map bn_count (run_histogram (\<lambda>_. ''0'') ColourMgas 60 1000
     (filteredTestData AllTiles [] [shown_tile, waiting_tile]))) = 1 \<and>
   fst (slow_fast ColourMgas 60 (filteredTestData AllTiles [] [shown_tile, waiting_tile])) = 1"
proof -
  have "slow_colour (heatmap_cell ColourMgas 60 1000 AllTiles [] None False shown_tile)"
    using slow_threshold [of 60 5] by (simp add: slow_colour_def heatmap_cell_def shown_tile_def)
  moreover have "filter (\<lambda>t. \<not> td_noData t \<and> \<not> ts_dimmed (heatmap_cell ColourMgas 60 1000 AllTiles [] None False t))
      [shown_tile, waiting_tile] = [shown_tile]"
    by (simp add: heatmap_cell_def cell_matches_def shown_tile_def waiting_tile_def)
  ultimately show ?thesis
    using run_histogram_shows_visible [OF HOL.refl _ HOL.refl HOL.refl HOL.refl HOL.refl,
      where threshold = 60 and slowMs = 1000 and tests = "[(''a'', tile_entry 50 10000)]" and fs = "[Test]" and
        suiteTests = "Some [''b'', ''a'']" and mode = ColourMgas and statusFilter = AllTiles and query = "[]" and num = "\<lambda>_. ''0''"]
    unfolding sample_tiles by simp
qed

theorem gas_groups_partition_witness:
  "\<exists>!g. g \<in> set (groupedData (sortedData TileOrder [shown_tile, waiting_tile])) \<and> shown_tile \<in> set (gg_tests g)"
  using gas_groups_partition [OF HOL.refl, of TileOrder "[shown_tile, waiting_tile]"] by simp

theorem tiles_flash_once_witness:
  "set (map fst (concat (pop_trace [] [[shown_tile, waiting_tile]]))) = {''a''}"
  using tiles_flash_once [OF _ _ HOL.refl, of "[waiting_tile]" "[[shown_tile, waiting_tile]]"]
  by (simp add: completed_keys_def js_set_of_def set_add_def shown_tile_def waiting_tile_def)

end
