(* ===== verification/Suite_Tests.thy ===== *)
theory Suite_Tests
  imports Suite_Page Formats Opcodes Compare_Page Data_Client Test_Heatmap
begin

text \<open>
  The tests of a suite: the table (\<open>ui/src/components/suite-detail/TestFilesList.tsx\<close>) with its search, order,
  pages and the dialogue of a test, and the charts of payload sizes and transactions beside it
  (\<open>PayloadSizesSection.tsx\<close>, \<open>TxCountsSection.tsx\<close>). The position of a click on a chart is turned into a
  coordinate by the chart library, which is a parameter; the formatting of counts by the browser and the
  options of the charts are not modelled. The theorems show that a click opens the test it was made on, that
  the order is the one of the header and the address, when the table shows a page that exists, and that
  the table, the dialogue and the charts agree about sizes and about the search.
\<close>

section \<open>Documents\<close>

record SuiteFile =
  sf_og_path :: string

text \<open>The arrays are optional: the code that adds them up allows for a missing one.\<close>

record PayloadSizeBuckets =
  pb_ssz_full :: "real list option"
  pb_ssz_bal :: "real list option"
  pb_ssz_full_snappy :: "real list option"
  pb_json_full :: "real list option"
  pb_json_bal :: "real list option"

record EESTInfo =
  ei_description :: "string option"
  ei_comment :: "string option"
  ei_fixture_format :: "string option"
  ei_filling_tool :: "string option"
  ei_hash :: "string option"
  ei_url :: "string option"
  ei_opcode_count :: "real js_object option"

record SuiteTest =
  tt_name :: string
  tt_genesis :: "string option"
  tt_files :: "SuiteFile steps"
  tt_info :: "EESTInfo option"
  tt_opcode_count :: "real js_object option"
  tt_payload_sizes :: "PayloadSizeBuckets steps option"
  tt_tx_counts :: "real list steps option"

section \<open>Payload sizes\<close>

record PayloadTotals =
  pl_sszFull :: "real option"
  pl_sszBal :: "real option"
  pl_sszSnappy :: "real option"
  pl_sszBalPct :: "real option"
  pl_sszSnappyPct :: "real option"
  pl_jsonFull :: "real option"
  pl_jsonBal :: "real option"
  pl_jsonBalPct :: "real option"

definition EMPTY_PAYLOAD_TOTALS :: PayloadTotals where
  "EMPTY_PAYLOAD_TOTALS =
     \<lparr>pl_sszFull = None, pl_sszBal = None, pl_sszSnappy = None, pl_sszBalPct = None, pl_sszSnappyPct = None,
      pl_jsonFull = None, pl_jsonBal = None, pl_jsonBalPct = None\<rparr>"

definition add_up :: "real list \<Rightarrow> real" where
  "add_up xs = fold (\<lambda>x t. t + x) xs 0"

definition sum_optional :: "real list option \<Rightarrow> real" where
  "sum_optional xs = (case xs of Some ys \<Rightarrow> add_up ys | None \<Rightarrow> 0)"

definition test_buckets :: "SuiteTest \<Rightarrow> PayloadSizeBuckets option" where
  "test_buckets t = Option.bind (tt_payload_sizes t) st_test"

definition payloadTotals :: "SuiteTest \<Rightarrow> PayloadTotals" where
  "payloadTotals test =
     (case test_buckets test of
        None \<Rightarrow> EMPTY_PAYLOAD_TOTALS
      | Some t \<Rightarrow>
          let sszFull = sum_optional (pb_ssz_full t); sszBal = sum_optional (pb_ssz_bal t);
              sszSnappy = sum_optional (pb_ssz_full_snappy t);
              jsonFull = sum_optional (pb_json_full t); jsonBal = sum_optional (pb_json_bal t)
          in \<lparr>pl_sszFull = Some sszFull, pl_sszBal = Some sszBal, pl_sszSnappy = Some sszSnappy,
              pl_sszBalPct = (if sszFull > 0 then Some (sszBal / sszFull * 100) else None),
              pl_sszSnappyPct = (if sszFull > 0 then Some (sszSnappy / sszFull * 100) else None),
              pl_jsonFull = Some jsonFull, pl_jsonBal = Some jsonBal,
              pl_jsonBalPct = (if jsonFull > 0 then Some (jsonBal / jsonFull * 100) else None)\<rparr>)"

definition compareNullsLast :: "real option \<Rightarrow> real option \<Rightarrow> SortDirection \<Rightarrow> jsnum" where
  "compareNullsLast a b dir =
     (case (a, b) of
        (None, None) \<Rightarrow> Fin 0
      | (None, Some y) \<Rightarrow> Fin 1
      | (Some x, None) \<Rightarrow> Fin (- 1)
      | (Some x, Some y) \<Rightarrow> if dir = Ascending then Fin (x - y) else Fin (y - x))"

section \<open>The list of tests\<close>

text \<open>An item is a test (or a file) with its number in the suite, from 1.\<close>

definition suite_numbered :: "'a list \<Rightarrow> ('a \<times> nat) list" where
  "suite_numbered xs = map (\<lambda>(i, x). (x, i + 1)) (enumerate 0 xs)"

definition filtered_files :: "string \<Rightarrow> SuiteFile list \<Rightarrow> (SuiteFile \<times> nat) list" where
  "filtered_files search files =
     filter (\<lambda>(f, i). str_includes (to_lower (sf_og_path f)) (to_lower search)) (suite_numbered files)"

definition list_filtered :: "string \<Rightarrow> SuiteTest list \<Rightarrow> (SuiteTest \<times> nat) list" where
  "list_filtered search tests = filter (\<lambda>(t, i). testNameMatches (tt_name t) search) (suite_numbered tests)"

definition pick_total :: "string \<Rightarrow> PayloadTotals \<Rightarrow> real option" where
  "pick_total col t =
     (if col = ''ssz_full'' then pl_sszFull t else if col = ''ssz_bal'' then pl_sszBal t
      else if col = ''ssz_bal_pct'' then pl_sszBalPct t else if col = ''ssz_snappy'' then pl_sszSnappy t
      else if col = ''ssz_snappy_pct'' then pl_sszSnappyPct t else if col = ''json_full'' then pl_jsonFull t
      else if col = ''json_bal'' then pl_jsonBal t else if col = ''json_bal_pct'' then pl_jsonBalPct t else None)"

definition payload_value :: "string \<Rightarrow> SuiteTest \<times> nat \<Rightarrow> real option" where
  "payload_value col a = (if col = ''index'' then Some (real (snd a)) else pick_total col (payloadTotals (fst a)))"

definition payload_cmp :: "PayloadSort \<Rightarrow> SuiteTest \<times> nat \<Rightarrow> SuiteTest \<times> nat \<Rightarrow> jsnum" where
  "payload_cmp ps a b = compareNullsLast (payload_value (psc_col ps) a) (payload_value (psc_col ps) b) (psc_dir ps)"

definition sorted_tests ::
  "TestView \<Rightarrow> PayloadSort option \<Rightarrow> (SuiteTest \<times> nat) list \<Rightarrow> (SuiteTest \<times> nat) list" where
  "sorted_tests viewMode active items =
     (case active of
        Some ps \<Rightarrow> if viewMode \<noteq> General then js_sort (payload_cmp ps) items else items
      | None \<Rightarrow> items)"

definition togglePayloadSort :: "string \<Rightarrow> PayloadSort option \<Rightarrow> PayloadSort option" where
  "togglePayloadSort col active =
     (case active of
        None \<Rightarrow> Some \<lparr>psc_col = col, psc_dir = Descending\<rparr>
      | Some p \<Rightarrow>
          if psc_col p \<noteq> col then Some \<lparr>psc_col = col, psc_dir = Descending\<rparr>
          else if psc_dir p = Descending then Some \<lparr>psc_col = col, psc_dir = Ascending\<rparr>
          else None)"

text \<open>The list on the page of the suite: the size of its pages is its own state, everything else is in the
  address.\<close>

record tests_list =
  tl_pageSize :: int
  tl_url :: suite_search

definition FILES_PAGE_SIZE :: int where "FILES_PAGE_SIZE = 100"

definition list_search :: "suite_search \<Rightarrow> string" where
  "list_search u = or_else (u_q u) []"

definition list_view :: "suite_search \<Rightarrow> TestView" where
  "list_view u = or_else (u_testView u) General"

definition list_rows :: "SuiteTest list \<Rightarrow> suite_search \<Rightarrow> (SuiteTest \<times> nat) list" where
  "list_rows tests u = sorted_tests (list_view u) (payloadSort u) (list_filtered (list_search u) tests)"

definition list_totalPages :: "SuiteTest list \<Rightarrow> tests_list \<Rightarrow> jsnum" where
  "list_totalPages tests s = page_count (length (list_rows tests (tl_url s))) (tl_pageSize s)"

definition list_page :: "SuiteTest list \<Rightarrow> tests_list \<Rightarrow> (SuiteTest \<times> nat) list" where
  "list_page tests s = page_slice (tl_pageSize s) (list_rows tests (tl_url s)) (or_else (u_filesPage (tl_url s)) 1)"

definition list_handlePageSizeChange :: "int \<Rightarrow> tests_list \<Rightarrow> tests_list" where
  "list_handlePageSizeChange sz s = s\<lparr>tl_pageSize := sz, tl_url := handleFilesPageChange 1 (tl_url s)\<rparr>"

definition list_handleSearchChange :: "string \<Rightarrow> tests_list \<Rightarrow> tests_list" where
  "list_handleSearchChange v s = s\<lparr>tl_url := handleSearchChange (stat_param (Some v)) (tl_url s)\<rparr>"

datatype list_event =
  LPage int | LSize int | LSearch string | LChip string | LView TestView | LHeader string | LOpen nat | LClose
| LOpcodeSort OpcodeSortMode

fun list_step :: "tests_list \<Rightarrow> list_event \<Rightarrow> tests_list" where
  "list_step s (LPage p) = s\<lparr>tl_url := handleFilesPageChange p (tl_url s)\<rparr>"
| "list_step s (LSize n) = list_handlePageSizeChange n s"
| "list_step s (LSearch v) = list_handleSearchChange v s"
| "list_step s (LChip term) = list_handleSearchChange (toggleSearchTerm (list_search (tl_url s)) term) s"
| "list_step s (LView m) = s\<lparr>tl_url := handleTestViewChange m (tl_url s)\<rparr>"
| "list_step s (LHeader col) =
     s\<lparr>tl_url := handlePayloadSortChange (togglePayloadSort col (payloadSort (tl_url s))) (tl_url s)\<rparr>"
| "list_step s (LOpen i) = s\<lparr>tl_url := handleDetailChange (Some (int i)) (tl_url s)\<rparr>"
| "list_step s LClose = s\<lparr>tl_url := handleDetailChange None (tl_url s)\<rparr>"
| "list_step s (LOpcodeSort m) = s\<lparr>tl_url := handleOpcodeSortChange m (tl_url s)\<rparr>"

text \<open>The test of the dialogue; an index outside the array is \<open>undefined\<close>, and the dialogue stays closed.\<close>

definition selected_item :: "'a list \<Rightarrow> suite_search \<Rightarrow> 'a option" where
  "selected_item xs u =
     (case u_detail u of
        None \<Rightarrow> None
      | Some i \<Rightarrow> if 1 \<le> i \<and> i \<le> int (length xs) then Some (xs ! nat (i - 1)) else None)"
section \<open>The dialogue of a test\<close>

definition getOpcodeCount :: "SuiteTest \<Rightarrow> real js_object option" where
  "getOpcodeCount test =
     (case tt_opcode_count test of
        Some c \<Rightarrow> Some c
      | None \<Rightarrow> Option.bind (tt_info test) ei_opcode_count)"

text \<open>An optional text that is empty counts as absent.\<close>

definition present_text :: "string \<times> string option \<Rightarrow> (string \<times> string) option" where
  "present_text f = (case snd f of Some (c # cs) \<Rightarrow> Some (fst f, c # cs) | _ \<Rightarrow> None)"

definition info_fields :: "EESTInfo option \<Rightarrow> (string \<times> string) list" where
  "info_fields info =
     (case info of
        None \<Rightarrow> []
      | Some i \<Rightarrow> List.map_filter present_text
          [(''Description'', ei_description i), (''Comment'', ei_comment i), (''Fixture Format'', ei_fixture_format i),
           (''Filling Tool'', ei_filling_tool i), (''Hash'', ei_hash i), (''URL'', ei_url i)])"

definition opcode_cmp ::
  "(string \<Rightarrow> string \<Rightarrow> jsnum) \<Rightarrow> OpcodeSortMode \<Rightarrow> string \<times> real \<Rightarrow> string \<times> real \<Rightarrow> jsnum" where
  "opcode_cmp lc m a b = (if m = NameSort then lc (fst a) (fst b) else Fin (snd b - snd a))"

record opcode_chip =
  oc_opcode :: string
  oc_count :: real
  oc_title :: string
  oc_color :: string

definition opcode_chips ::
  "(string \<Rightarrow> string \<Rightarrow> jsnum) \<Rightarrow> bool \<Rightarrow> OpcodeSortMode \<Rightarrow> real js_object \<Rightarrow> opcode_chip list" where
  "opcode_chips lc isDark m opcodes =
     map (\<lambda>(op, c). \<lparr>oc_opcode = op, oc_count = c, oc_title = getOpcodeCategory op,
                     oc_color = getCategoryColor (getOpcodeCategory op) isDark\<rparr>)
       (js_sort (opcode_cmp lc m) opcodes)"

record info_panel =
  ip_title :: string
  ip_fields :: "(string \<times> string) list"
  ip_opcodes :: "opcode_chip list"

definition EESTInfoContent ::
  "(string \<Rightarrow> string \<Rightarrow> jsnum) \<Rightarrow> bool \<Rightarrow> SuiteTest \<Rightarrow> OpcodeSortMode \<Rightarrow> info_panel option" where
  "EESTInfoContent lc isDark test m =
     (let fields = info_fields (tt_info test);
          opcodes = (case getOpcodeCount test of None \<Rightarrow> [] | Some c \<Rightarrow> c)
      in if fields = [] \<and> opcodes = [] then None
         else Some \<lparr>ip_title = (if tt_info test = None then ''Opcode Info'' else ''EEST Info''),
                    ip_fields = fields, ip_opcodes = opcode_chips lc isDark m opcodes\<rparr>)"

text \<open>A cell of the payload table: the size and, for the last two kinds, its share.\<close>

record size_row =
  sz_full :: real
  sz_bal :: real
  sz_snappy :: real
  sz_jsonFull :: real
  sz_jsonBal :: real

record size_table =
  sb_label :: string
  sb_count :: nat
  sb_rows :: "size_row list"
  sb_total :: "size_row option"

definition pctCell :: "real \<Rightarrow> real \<Rightarrow> string option" where
  "pctCell numerator denom =
     (if denom \<le> 0 then None else Some (''('' @ toFixed 1 (numerator / denom * 100) @ ''%)''))"

text \<open>The texts of a row, column by column.\<close>

definition size_cells :: "(real \<Rightarrow> string) \<Rightarrow> size_row \<Rightarrow> (string \<times> string option) list" where
  "size_cells num r =
     (let bytes = (\<lambda>v. formatBytes num (Some (Fin v)))
      in [(bytes (sz_full r), None), (bytes (sz_bal r), pctCell (sz_bal r) (sz_full r)),
          (bytes (sz_snappy r), pctCell (sz_snappy r) (sz_full r)),
          (bytes (sz_jsonFull r), None), (bytes (sz_jsonBal r), pctCell (sz_jsonBal r) (sz_jsonFull r))])"

definition at_or_zero :: "real list \<Rightarrow> nat \<Rightarrow> real" where
  "at_or_zero xs i = (if i < length xs then xs ! i else 0)"

text \<open>Reading the length of a missing array throws.\<close>

definition size_table_of :: "string \<Rightarrow> PayloadSizeBuckets \<Rightarrow> js_error + size_table" where
  "size_table_of label b =
     (case (pb_ssz_full b, pb_ssz_bal b, pb_ssz_full_snappy b, pb_json_full b, pb_json_bal b) of
        (Some f, Some l, Some s, Some jf, Some jl) \<Rightarrow>
          let n = fold max [length l, length s, length jf, length jl] (length f)
          in Inr \<lparr>sb_label = label, sb_count = n,
               sb_rows = map (\<lambda>i. \<lparr>sz_full = at_or_zero f i, sz_bal = at_or_zero l i, sz_snappy = at_or_zero s i,
                                   sz_jsonFull = at_or_zero jf i, sz_jsonBal = at_or_zero jl i\<rparr>) [0..<n],
               sb_total = (if n > 1 then Some \<lparr>sz_full = add_up f, sz_bal = add_up l, sz_snappy = add_up s,
                                               sz_jsonFull = add_up jf, sz_jsonBal = add_up jl\<rparr> else None)\<rparr>
      | _ \<Rightarrow> Inl TypeError)"

definition populated :: "'a steps \<Rightarrow> (string \<times> 'a) list" where
  "populated ps =
     List.map_filter (\<lambda>(l, x). map_option (Pair l) x)
       [(''Setup'', st_setup ps), (''Test'', st_test ps), (''Cleanup'', st_cleanup ps)]"

fun size_tables :: "(string \<times> PayloadSizeBuckets) list \<Rightarrow> js_error + size_table list" where
  "size_tables [] = Inr []"
| "size_tables ((l, b) # rest) =
     and_then (size_table_of l b) (\<lambda>t. and_then (size_tables rest) (\<lambda>ts. Inr (t # ts)))"

text \<open>\<open>null\<close> is the empty list: nothing is rendered in both cases.\<close>

definition PayloadSizesContent :: "SuiteTest \<Rightarrow> js_error + size_table list" where
  "PayloadSizesContent test =
     (case tt_payload_sizes test of None \<Rightarrow> Inr [] | Some ps \<Rightarrow> size_tables (populated ps))"

record tx_table =
  xt_label :: string
  xt_rows :: "real list"
  xt_total :: real
  xt_totalRow :: bool

definition TxCountsContent :: "SuiteTest \<Rightarrow> tx_table list" where
  "TxCountsContent test =
     (case tt_tx_counts test of
        None \<Rightarrow> []
      | Some tc \<Rightarrow>
          map (\<lambda>(l, counts). \<lparr>xt_label = l, xt_rows = counts, xt_total = add_up counts, xt_totalRow = (length counts > 1)\<rparr>)
            (filter (\<lambda>(l, counts). counts \<noteq> []) (populated tc)))"

text \<open>The file of a step.\<close>

definition file_path :: "string \<Rightarrow> string \<Rightarrow> string option \<Rightarrow> SuiteFile \<Rightarrow> string" where
  "file_path suiteHash stepType test_name file =
     (case test_name of
        Some (c # cs) \<Rightarrow> ''suites/'' @ suiteHash @ ''/'' @ (c # cs) @ ''/'' @ stepType @ ''.request''
      | _ \<Rightarrow> ''suites/'' @ suiteHash @ ''/'' @ sf_og_path file @ ''/pre_run.request'')"

text \<open>What the query of the file delivers: a text, or an error whose message carries the status.\<close>

datatype file_view = FileText string | FileError string | FetchError js_error

definition file_result :: "js_error + string FetchResult \<Rightarrow> file_view" where
  "file_result r =
     (case r of
        Inl e \<Rightarrow> FetchError e
      | Inr res \<Rightarrow>
          (case fr_data res of
             Some (c # cs) \<Rightarrow> FileText (c # cs)
           | _ \<Rightarrow> FileError (''Failed to fetch file: '' @ nat_str (fr_status res))))"

definition FileContent ::
  "hash_lib \<Rightarrow> string network \<Rightarrow> client_state \<Rightarrow> string \<Rightarrow> string \<Rightarrow> string option \<Rightarrow> SuiteFile \<Rightarrow> file_view" where
  "FileContent L net st suiteHash stepType test_name file =
     file_result (fst (fetchText L net (file_path suiteHash stepType test_name file) None st))"

definition step_files :: "SuiteTest \<Rightarrow> (string \<times> string \<times> SuiteFile) list" where
  "step_files test =
     List.map_filter (\<lambda>(k, l, f). map_option (\<lambda>x. (k, l, x)) f)
       [(''setup'', ''Setup step'', st_setup (tt_files test)), (''test'', ''Test step'', st_test (tt_files test)),
        (''cleanup'', ''Cleanup step'', st_cleanup (tt_files test))]"

definition test_hasInfo :: "SuiteTest \<Rightarrow> bool" where
  "test_hasInfo test \<longleftrightarrow>
     tt_info test \<noteq> None \<or> (case tt_opcode_count test of None \<Rightarrow> False | Some c \<Rightarrow> c \<noteq> []) \<or>
     tt_payload_sizes test \<noteq> None \<or>
     (case tt_tx_counts test of
        None \<Rightarrow> False
      | Some tc \<Rightarrow> \<exists>x \<in> {st_setup tc, st_test tc, st_cleanup tc}. x \<noteq> None \<and> x \<noteq> Some [])"

section \<open>Charts\<close>

text \<open>Texts that go into the markup of a tooltip.\<close>

definition escape_char :: "char \<Rightarrow> string" where
  "escape_char c =
     (if c = CHR ''&'' then ''&amp;'' else if c = CHR ''<'' then ''&lt;'' else if c = CHR ''>'' then ''&gt;''
      else if c = CHR 0x22 then ''&quot;'' else if c = CHR 0x27 then ''&#39;'' else [c])"

definition escapeHtml :: "string \<Rightarrow> string" where
  "escapeHtml s = concat (map escape_char s)"

record PayloadRow =
  pw_index :: nat
  pw_name :: string
  pw_sszFull :: real
  pw_sszBal :: real
  pw_sszSnappy :: real
  pw_jsonFull :: real
  pw_jsonBal :: real

definition payload_toRow :: "SuiteTest \<Rightarrow> nat \<Rightarrow> PayloadRow option" where
  "payload_toRow t i =
     (case test_buckets t of
        None \<Rightarrow> None
      | Some b \<Rightarrow>
          let sszFull = sum_optional (pb_ssz_full b); sszBal = sum_optional (pb_ssz_bal b);
              sszSnappy = sum_optional (pb_ssz_full_snappy b);
              jsonFull = sum_optional (pb_json_full b); jsonBal = sum_optional (pb_json_bal b)
          in if sszFull = 0 \<and> sszBal = 0 \<and> sszSnappy = 0 \<and> jsonFull = 0 \<and> jsonBal = 0 then None
             else Some \<lparr>pw_index = i, pw_name = tt_name t, pw_sszFull = sszFull, pw_sszBal = sszBal,
                        pw_sszSnappy = sszSnappy, pw_jsonFull = jsonFull, pw_jsonBal = jsonBal\<rparr>)"

definition chart_rows :: "(SuiteTest \<Rightarrow> nat \<Rightarrow> 'r option) \<Rightarrow> SuiteTest list \<Rightarrow> 'r list" where
  "chart_rows toRow tests = List.map_filter (\<lambda>(t, i). toRow t i) (suite_numbered tests)"

definition chart_filter :: "('r \<Rightarrow> string) \<Rightarrow> string \<Rightarrow> 'r list \<Rightarrow> 'r list" where
  "chart_filter name searchQuery rows =
     (if trim searchQuery = [] then rows else filter (\<lambda>r. compileQuery searchQuery (name r)) rows)"

definition fullOf :: "PsEncoding \<Rightarrow> PayloadRow \<Rightarrow> real" where
  "fullOf encoding r = (if encoding = Json then pw_jsonFull r else pw_sszFull r)"

definition payload_bars :: "PsOrder \<Rightarrow> PsEncoding \<Rightarrow> string \<Rightarrow> SuiteTest list \<Rightarrow> PayloadRow list" where
  "payload_bars order encoding q tests =
     (let filtered = chart_filter pw_name q (chart_rows payload_toRow tests)
      in if order = SizeOrder then js_sort (\<lambda>a b. Fin (fullOf encoding b - fullOf encoding a)) filtered else filtered)"

text \<open>The series of the stacked bars: \<open>Non-BAL\<close>, \<open>BAL\<close> and, for SSZ, \<open>Snappy\<close>.\<close>

definition payload_series :: "PsEncoding \<Rightarrow> PayloadRow list \<Rightarrow> (string \<times> real list) list" where
  "payload_series encoding rows =
     (if encoding = Ssz
      then [(''Non-BAL'', map (\<lambda>r. max 0 (pw_sszFull r - pw_sszBal r)) rows), (''BAL'', map pw_sszBal rows),
            (''Snappy'', map pw_sszSnappy rows)]
      else [(''Non-BAL'', map (\<lambda>r. max 0 (pw_jsonFull r - pw_jsonBal r)) rows), (''BAL'', map pw_jsonBal rows)])"

record TxRow =
  xr_index :: nat
  xr_name :: string
  xr_total :: real
  xr_blocks :: nat

definition tx_toRow :: "SuiteTest \<Rightarrow> nat \<Rightarrow> TxRow option" where
  "tx_toRow t i =
     (case Option.bind (tt_tx_counts t) st_test of
        None \<Rightarrow> None
      | Some counts \<Rightarrow>
          if counts = [] then None
          else Some \<lparr>xr_index = i, xr_name = tt_name t, xr_total = sum_optional (Some counts), xr_blocks = length counts\<rparr>)"

datatype TxOrder = TxIndex | TxCount

definition tx_bars :: "TxOrder \<Rightarrow> string \<Rightarrow> SuiteTest list \<Rightarrow> TxRow list" where
  "tx_bars order q tests =
     (let filtered = chart_filter xr_name q (chart_rows tx_toRow tests)
      in if order = TxCount then js_sort (\<lambda>a b. Fin (xr_total b - xr_total a)) filtered else filtered)"

text \<open>A click in the plot area. The chart library turns the position into a coordinate on the axis of the
  cats; \<open>None\<close> is anything but a finite number, or a position outside the plot.\<close>

definition chart_click :: "string list \<Rightarrow> real option \<Rightarrow> int option" where
  "chart_click cats raw =
     (case raw of
        None \<Rightarrow> None
      | Some x \<Rightarrow>
          let i = math_round x
          in if i < 0 \<or> i \<ge> int (length cats) then None
             else (case js_parseInt (cats ! nat i) of
                     Some idx \<Rightarrow> if idx > 0 then Some idx else None
                   | None \<Rightarrow> None))"

definition bar_categories :: "('r \<Rightarrow> nat) \<Rightarrow> 'r list \<Rightarrow> string list" where
  "bar_categories index rows = map (\<lambda>r. nat_str (index r)) rows"

definition click_bar :: "string list \<Rightarrow> real option \<Rightarrow> suite_search \<Rightarrow> suite_search" where
  "click_bar cats raw u =
     (case chart_click cats raw of None \<Rightarrow> u | Some idx \<Rightarrow> handleDetailChange (Some idx) u)"
section \<open>Lemmas\<close>

subsection \<open>Numbers and pages\<close>

lemma length_suite_numbered [simp]: "length (suite_numbered xs) = length xs"
  by (simp add: suite_numbered_def)

lemma nth_suite_numbered [simp]: "i < length xs \<Longrightarrow> suite_numbered xs ! i = (xs ! i, i + 1)"
  by (simp add: suite_numbered_def nth_enumerate_eq)

lemma in_suite_numbered: "(x, i) \<in> set (suite_numbered xs) \<longleftrightarrow> 1 \<le> i \<and> i \<le> length xs \<and> x = xs ! (i - 1)"
  unfolding in_set_conv_nth by (auto simp: intro!: exI [of _ "i - 1"])

lemma selected_number: "(t, i) \<in> set (suite_numbered tests) \<Longrightarrow> u_detail u = Some (int i) \<Longrightarrow> selected_item tests u = Some t"
  by (auto simp: in_suite_numbered selected_item_def nat_diff_distrib)

lemma set_page_slice: "set (page_slice sz xs p) \<subseteq> set xs"
  by (auto simp: page_slice_def js_slice_def dest: in_set_dropD in_set_takeD)

lemma list_rows_numbered: "set (list_rows tests u) \<subseteq> set (suite_numbered tests)"
  by (auto simp: list_rows_def sorted_tests_def list_filtered_def split: option.split)

subsection \<open>Clicks\<close>

text \<open>The handlers of the dialogue keep the list as it is.\<close>

lemma detail_keeps_list:
  "list_rows tests (handleDetailChange d u) = list_rows tests u"
  "u_filesPage (handleDetailChange d u) = u_filesPage u" "u_detail (handleDetailChange d u) = d"
  by (simp_all add: list_rows_def list_view_def list_search_def payloadSort_def handleDetailChange_def test_params_def
      payload_params_def kept_params_def)

lemma chart_click_at:
  assumes "k < length cats" "cats ! k = nat_str n" "0 < n" "math_round x = int k"
  shows "chart_click cats (Some x) = Some (int n)"
  using assms by (simp add: chart_click_def)

lemma chart_click_outside: "math_round x \<notin> {0..<int (length cats)} \<Longrightarrow> click_bar cats (Some x) u = u"
  by (auto simp: click_bar_def chart_click_def Let_def)

lemma in_chart_rows: "r \<in> set (chart_rows toRow tests) \<Longrightarrow> \<exists>t i. (t, i) \<in> set (suite_numbered tests) \<and> toRow t i = Some r"
  unfolding chart_rows_def map_filter_def by force

lemma set_chart_filter: "set (chart_filter name q rows) \<subseteq> set rows"
  by (auto simp: chart_filter_def)

text \<open>A click on a bar opens the test of the bar, whatever the order and the search of the chart.\<close>

lemma bar_opens_test:
  assumes "set bars \<subseteq> set (chart_rows toRow tests)" "\<forall>t i r. toRow t i = Some r \<longrightarrow> index r = i"
    and "k < length bars" "math_round x = int k"
  shows "\<exists>t. selected_item tests (click_bar (bar_categories index bars) (Some x) u) = Some t \<and>
    toRow t (index (bars ! k)) = Some (bars ! k)"
proof -
  obtain t i where t: "(t, i) \<in> set (suite_numbered tests)" "toRow t i = Some (bars ! k)"
    using in_chart_rows assms(1,3) by (meson nth_mem subsetD)
  then have i: "index (bars ! k) = i" "0 < i" using assms(2) by (auto simp: in_suite_numbered)
  have "chart_click (bar_categories index bars) (Some x) = Some (int i)"
    using assms(3,4) i by (intro chart_click_at [of k]) (simp_all add: bar_categories_def)
  then have "selected_item tests (click_bar (bar_categories index bars) (Some x) u) = Some t"
    using t(1) by (intro selected_number) (simp_all add: click_bar_def detail_keeps_list)
  then show ?thesis using t(2) i by simp
qed

lemma row_index:
  "\<forall>t i r. payload_toRow t i = Some r \<longrightarrow> pw_index r = i" "\<forall>t i r. tx_toRow t i = Some r \<longrightarrow> xr_index r = i"
  by (auto simp: payload_toRow_def tx_toRow_def Let_def split: option.splits if_splits)

text \<open>C33: A click opens the test it was made on. The dialogue shows the very test of a row of the table, whatever
  the search, the order and the page; the test of a bar of the two charts, which have an order and a search of
  their own; a click beside the bars changes nothing, and opening and closing leave the table as it is.\<close>

theorem clicks_open_test:
  assumes "bars = payload_bars order encoding q tests" "txs = tx_bars txOrder q tests"
  shows "(\<forall>t i. (t, i) \<in> set (list_page tests s) \<longrightarrow> selected_item tests (tl_url (list_step s (LOpen i))) = Some t) \<and>
    (\<forall>k < length bars. \<forall>x. math_round x = int k \<longrightarrow>
       (\<exists>t. selected_item tests (click_bar (bar_categories pw_index bars) (Some x) u) = Some t \<and>
            payload_toRow t (pw_index (bars ! k)) = Some (bars ! k))) \<and>
    (\<forall>k < length txs. \<forall>x. math_round x = int k \<longrightarrow>
       (\<exists>t. selected_item tests (click_bar (bar_categories xr_index txs) (Some x) u) = Some t \<and>
            tx_toRow t (xr_index (txs ! k)) = Some (txs ! k))) \<and>
    (\<forall>x. math_round x \<notin> {0..<int (length bars)} \<longrightarrow> click_bar (bar_categories pw_index bars) (Some x) u = u) \<and>
    (\<forall>i. \<forall>e \<in> {LOpen i, LClose}. list_page tests (list_step s e) = list_page tests s) \<and>
    selected_item tests (tl_url (list_step s LClose)) = None"
proof -
  have rows: "selected_item tests (tl_url (list_step s (LOpen i))) = Some t" if "(t, i) \<in> set (list_page tests s)" for t i
  proof -
    have "(t, i) \<in> set (suite_numbered tests)"
      using subsetD [OF set_page_slice that [unfolded list_page_def]] list_rows_numbered by blast
    then show ?thesis by (rule selected_number) (simp add: detail_keeps_list)
  qed
  have "set bars \<subseteq> set (chart_rows payload_toRow tests)" "set txs \<subseteq> set (chart_rows tx_toRow tests)"
    using set_chart_filter by (simp_all add: assms payload_bars_def tx_bars_def Let_def)
  note opens1 = bar_opens_test [where index = pw_index, OF this(1)] and opens2 = bar_opens_test [where index = xr_index, OF this(2)]
  note opens1 = opens1 [OF row_index(1)] and opens2 = opens2 [OF row_index(2)]
  have outside: "click_bar (bar_categories pw_index bars) (Some x) u = u" if "math_round x \<notin> {0..<int (length bars)}" for x
    using that chart_click_outside [of x "bar_categories pw_index bars"] by (simp add: bar_categories_def)
  have keeps: "list_page tests (list_step s e) = list_page tests s" if "e \<in> {LOpen i, LClose}" for e i
    using that by (auto simp: list_page_def detail_keeps_list)
  have closed: "selected_item tests (tl_url (list_step s LClose)) = None" by (simp add: selected_item_def detail_keeps_list)
  show ?thesis
    by (intro conjI allI ballI impI closed; (erule rows | erule (1) opens1 | erule (1) opens2 | erule outside | erule keeps))
qed

subsection \<open>Order\<close>

interpretation payload: comparator "payload_cmp ps" for ps
  by unfold_locales
    (auto simp: payload_cmp_def compareNullsLast_def split: option.splits if_splits)

text \<open>\<open>before\<close> is the order the header asks for.\<close>

definition in_direction :: "SortDirection \<Rightarrow> real \<Rightarrow> real \<Rightarrow> bool" where
  "in_direction dir x y \<longleftrightarrow> (if dir = Ascending then x \<le> y else y \<le> x)"

lemma payload_cmp_le:
  "\<not> is_pos (payload_cmp ps a b) \<longleftrightarrow>
   (case (payload_value (psc_col ps) a, payload_value (psc_col ps) b) of
      (_, None) \<Rightarrow> True | (None, Some _) \<Rightarrow> False | (Some x, Some y) \<Rightarrow> in_direction (psc_dir ps) x y)"
  by (auto simp: payload_cmp_def compareNullsLast_def in_direction_def split: option.split)

lemma sorted_split:
  assumes "sorted_wrt R xs" "\<And>a b. R a b \<Longrightarrow> P b \<Longrightarrow> P a"
  shows "xs = filter P xs @ filter (\<lambda>a. \<not> P a) xs"
  using assms
proof (induction xs)
  case (Cons x xs)
  show ?case
  proof (cases "P x")
    case True
    then show ?thesis using Cons by simp
  next
    case False
    then have "filter P xs = []" using Cons.prems by (auto simp: filter_empty_conv)
    then have "filter (\<lambda>a. \<not> P a) xs = xs" by (simp add: filter_empty_conv)
    then show ?thesis using False \<open>filter P xs = []\<close> by simp
  qed
qed simp

text \<open>Values that tie are equal, and the tests without a value tie.\<close>

lemma payload_tied: "payload.tied ps a b \<longleftrightarrow> payload_value (psc_col ps) a = payload_value (psc_col ps) b"
  by (cases "payload_value (psc_col ps) a"; cases "payload_value (psc_col ps) b")
    (auto simp: payload.tied_def payload_cmp_le in_direction_def)

lemma same_value_filter:
  "filter (\<lambda>a. payload_value (psc_col ps) a = v) (js_sort (payload_cmp ps) xs) =
   filter (\<lambda>a. payload_value (psc_col ps) a = v) xs"
proof (cases "\<exists>a \<in> set xs. payload_value (psc_col ps) a = v")
  case True
  then obtain a where "payload_value (psc_col ps) a = v" by blast
  then have "payload.tied ps a = (\<lambda>b. payload_value (psc_col ps) b = v)" by (auto simp: payload_tied)
  then show ?thesis using payload.stable_js_sort [of ps a xs] by simp
next
  case False
  then have "filter (\<lambda>a. payload_value (psc_col ps) a = v) xs = []"
    "filter (\<lambda>a. payload_value (psc_col ps) a = v) (js_sort (payload_cmp ps) xs) = []"
    by (auto simp: filter_empty_conv)
  then show ?thesis by simp
qed

lemma payload_sorted:
  fixes ps kept
  defines "rows \<equiv> js_sort (payload_cmp ps) kept" and "v \<equiv> payload_value (psc_col ps)"
  shows "\<exists>valued. rows = valued @ filter (\<lambda>a. v a = None) kept \<and> (\<forall>a \<in> set valued. v a \<noteq> None) \<and>
    sorted_wrt (\<lambda>a b. in_direction (psc_dir ps) (the (v a)) (the (v b))) valued \<and>
    (\<forall>x. filter (\<lambda>a. v a = Some x) rows = filter (\<lambda>a. v a = Some x) kept)"
proof -
  let ?A = "filter (\<lambda>a. v a \<noteq> None) rows"
  have sorted: "sorted_wrt (\<lambda>a b. \<not> is_pos (payload_cmp ps a b)) rows"
    unfolding rows_def by (rule payload.sorted_js_sort)
  have "rows = ?A @ filter (\<lambda>a. \<not> v a \<noteq> None) rows"
    using sorted by (rule sorted_split) (auto simp: payload_cmp_le v_def split: option.splits)
  moreover have "filter (\<lambda>a. \<not> v a \<noteq> None) rows = filter (\<lambda>a. v a = None) kept"
    using same_value_filter [of ps None kept] by (simp add: rows_def v_def)
  moreover have "sorted_wrt (\<lambda>a b. in_direction (psc_dir ps) (the (v a)) (the (v b))) ?A"
    using sorted_wrt_filter [OF sorted, of "\<lambda>a. v a \<noteq> None"]
    by (rule sorted_wrt_mono_rel [rotated]) (auto simp: payload_cmp_le v_def)
  ultimately have "rows = ?A @ filter (\<lambda>a. v a = None) kept \<and> (\<forall>a \<in> set ?A. v a \<noteq> None) \<and>
    sorted_wrt (\<lambda>a b. in_direction (psc_dir ps) (the (v a)) (the (v b))) ?A" by simp
  then show ?thesis using same_value_filter [of ps _ kept] unfolding rows_def v_def by blast
qed

lemma files_page_keeps_list:
  "list_rows tests (handleFilesPageChange p u) = list_rows tests u" "u_filesPage (handleFilesPageChange p u) = Some p"
  by (simp_all add: list_rows_def list_view_def list_search_def payloadSort_def handleFilesPageChange_def
      payload_params_def kept_params_def)

text \<open>C34: The order of the table of payload sizes. The rows of all pages, one after the other, are the tests that
  the search keeps, each once: first those with a value in the chosen column in the chosen direction, tests of
  the same value in the order of the suite, then those without a value in the order of the suite, in both
  directions. Outside the two views of sizes, and without a header clicked, the order is that of the suite.\<close>

theorem payload_order_reference:
  assumes "kept = list_filtered (list_search (tl_url s)) tests" "rows = list_rows tests (tl_url s)"
    and "tl_pageSize s = int k" "0 < k"
  shows "mset rows = mset kept \<and>
    (\<exists>m. list_totalPages tests s = Fin (of_int m) \<and>
       concat (map (\<lambda>p. list_page tests (list_step s (LPage p))) [1..m]) = rows) \<and>
    (list_view (tl_url s) = General \<or> payloadSort (tl_url s) = None \<longrightarrow> rows = kept) \<and>
    (\<forall>ps. list_view (tl_url s) \<noteq> General \<and> payloadSort (tl_url s) = Some ps \<longrightarrow>
       (\<exists>valued. rows = valued @ filter (\<lambda>a. payload_value (psc_col ps) a = None) kept \<and>
          (\<forall>a \<in> set valued. payload_value (psc_col ps) a \<noteq> None) \<and>
          sorted_wrt (\<lambda>a b. in_direction (psc_dir ps) (the (payload_value (psc_col ps) a)) (the (payload_value (psc_col ps) b))) valued \<and>
          (\<forall>v. filter (\<lambda>a. payload_value (psc_col ps) a = Some v) rows = filter (\<lambda>a. payload_value (psc_col ps) a = Some v) kept)))"
proof -
  have rows: "rows = sorted_tests (list_view (tl_url s)) (payloadSort (tl_url s)) kept" by (simp add: assms(1,2) list_rows_def)
  have page: "list_page tests (list_step s (LPage p)) = page_slice (int k) rows p" for p
    by (simp add: list_page_def assms(2,3) files_page_keeps_list or_else_def)
  have "list_totalPages tests s = page_count (length rows) (int k)" by (simp add: list_totalPages_def assms(2,3))
  then have pages: "\<exists>m. list_totalPages tests s = Fin (of_int m) \<and>
      concat (map (\<lambda>p. list_page tests (list_step s (LPage p))) [1..m]) = rows"
    unfolding page using all_pages [OF assms(4), of rows] page_count_pos [OF assms(4)] by simp
  have order: "\<exists>valued. rows = valued @ filter (\<lambda>a. payload_value (psc_col ps) a = None) kept \<and>
      (\<forall>a \<in> set valued. payload_value (psc_col ps) a \<noteq> None) \<and>
      sorted_wrt (\<lambda>a b. in_direction (psc_dir ps) (the (payload_value (psc_col ps) a)) (the (payload_value (psc_col ps) b))) valued \<and>
      (\<forall>v. filter (\<lambda>a. payload_value (psc_col ps) a = Some v) rows = filter (\<lambda>a. payload_value (psc_col ps) a = Some v) kept)"
    if "list_view (tl_url s) \<noteq> General" "payloadSort (tl_url s) = Some ps" for ps
    using payload_sorted [of ps kept] that by (simp add: rows sorted_tests_def)
  then show ?thesis using pages by (auto simp: rows sorted_tests_def split: option.split)
qed
subsection \<open>Headers\<close>

text \<open>The order in the address, seen as a value of its own.\<close>

definition sort_event :: "PayloadSort option \<Rightarrow> list_event \<Rightarrow> PayloadSort option" where
  "sort_event p e = (case e of LHeader col \<Rightarrow> togglePayloadSort col p | _ \<Rightarrow> p)"

definition column_event :: "list_event \<Rightarrow> bool" where
  "column_event e \<longleftrightarrow> (case e of LHeader col \<Rightarrow> isPayloadSortCol col | _ \<Rightarrow> True)"

lemma payloadSort_written:
  assumes "\<forall>p. n = Some p \<longrightarrow> isPayloadSortCol (psc_col p)"
  shows "payloadSort (handlePayloadSortChange n u) = n"
proof (cases n)
  case (Some p)
  then have "psc_col p \<noteq> []" using assms by (auto simp: isPayloadSortCol_def PAYLOAD_SORT_COLS_def)
  then show ?thesis using assms Some by (cases "psc_dir p"; simp add: payloadSort_def handlePayloadSortChange_def)
qed (simp add: payloadSort_def handlePayloadSortChange_def)

lemma payloadSort_valid: "payloadSort u = Some p \<Longrightarrow> isPayloadSortCol (psc_col p)"
  by (auto simp: payloadSort_def split: option.splits if_splits)

lemma toggled_valid:
  "isPayloadSortCol col \<Longrightarrow> togglePayloadSort col (payloadSort u) = Some p \<Longrightarrow> isPayloadSortCol (psc_col p)"
  by (auto simp: togglePayloadSort_def split: option.splits if_splits dest: payloadSort_valid)

lemma list_frame:
  "payloadSort (handleFilesPageChange p u) = payloadSort u" "payloadSort (handleSearchChange q u) = payloadSort u"
  "payloadSort (handleTestViewChange m u) = payloadSort u" "payloadSort (handleDetailChange d u) = payloadSort u"
  "payloadSort (handleOpcodeSortChange o' u) = payloadSort u"
  by (simp_all add: payloadSort_def handleFilesPageChange_def handleSearchChange_def handleTestViewChange_def
      handleDetailChange_def handleOpcodeSortChange_def test_params_def payload_params_def kept_params_def)

interpretation headers: simulation list_step column_event "\<lambda>_. True" "\<lambda>s. payloadSort (tl_url s)" sort_event
proof
  show "payloadSort (tl_url (list_step s e)) = sort_event (payloadSort (tl_url s)) e" if "column_event e" for s e
  proof (cases e)
    case (LHeader col)
    then show ?thesis
      using that payloadSort_written [of "togglePayloadSort col (payloadSort (tl_url s))"] toggled_valid [of col]
      by (simp add: sort_event_def column_event_def)
  qed (simp_all add: sort_event_def list_frame list_handlePageSizeChange_def list_handleSearchChange_def)
qed simp

text \<open>The headers of the table of payload sizes. The address stands for an order that only the headers change:
  after any events it is what the clicks on headers alone make of the order at the start. Another column sorts
  downwards, a second click upwards, and a third one removes the order.\<close>

theorem payload_headers_refine:
  assumes "list_all column_event es" "isPayloadSortCol col"
  shows "payloadSort (tl_url (run list_step s es)) = run sort_event (payloadSort (tl_url s)) es \<and>
    (let s1 = list_step s (LHeader col); s2 = list_step s1 (LHeader col); s3 = list_step s2 (LHeader col)
     in (\<forall>p. payloadSort (tl_url s) = Some p \<longrightarrow> psc_col p \<noteq> col) \<longrightarrow>
        payloadSort (tl_url s1) = Some \<lparr>psc_col = col, psc_dir = Descending\<rparr> \<and>
        payloadSort (tl_url s2) = Some \<lparr>psc_col = col, psc_dir = Ascending\<rparr> \<and>
        payloadSort (tl_url s3) = None)"
proof -
  have step: "payloadSort (tl_url (list_step x (LHeader col))) = togglePayloadSort col (payloadSort (tl_url x))" for x
    using headers.abs_step [of "LHeader col" x] assms(2) by (simp add: column_event_def sort_event_def)
  show ?thesis
    using headers.abs_run [of es s] assms(1) unfolding Let_def step
    by (auto simp: togglePayloadSort_def split: option.split)
qed

subsection \<open>Pages\<close>

text \<open>The buttons under the list: those with a number, and the two arrows, which step from the page in the address
  even when there is no such page.\<close>

definition page_in_url :: "tests_list \<Rightarrow> int" where
  "page_in_url s = or_else (u_filesPage (tl_url s)) 1"

definition numbered_buttons :: "SuiteTest list \<Rightarrow> tests_list \<Rightarrow> int list" where
  "numbered_buttons tests s =
     (case list_totalPages tests s of
        Fin n \<Rightarrow> (case page_items \<lfloor>n\<rfloor> (page_in_url s) of None \<Rightarrow> [] | Some items \<Rightarrow> [p. Page p \<leftarrow> items])
      | _ \<Rightarrow> [])"

definition arrow_buttons :: "SuiteTest list \<Rightarrow> tests_list \<Rightarrow> int list" where
  "arrow_buttons tests s =
     (case list_totalPages tests s of
        Fin n \<Rightarrow>
          if 1 < \<lfloor>n\<rfloor>
          then (case previous_page (page_in_url s) of None \<Rightarrow> [] | Some p \<Rightarrow> [p]) @
               (case next_page \<lfloor>n\<rfloor> (page_in_url s) of None \<Rightarrow> [] | Some p \<Rightarrow> [p])
          else []
      | _ \<Rightarrow> [])"

definition list_click :: "SuiteTest list \<Rightarrow> tests_list \<Rightarrow> list_event \<Rightarrow> tests_list" where
  "list_click tests s e =
     (case e of
        LPage p \<Rightarrow> if p \<in> set (numbered_buttons tests s @ arrow_buttons tests s) then list_step s e else s
      | _ \<Rightarrow> list_step s e)"

definition size_event :: "list_event \<Rightarrow> bool" where
  "size_event e \<longleftrightarrow> (case e of LSize n \<Rightarrow> 0 < n | _ \<Rightarrow> True)"

text \<open>The page in the address is the first one, or there is a row on it.\<close>

definition list_in_range :: "SuiteTest list \<Rightarrow> tests_list \<Rightarrow> bool" where
  "list_in_range tests s \<longleftrightarrow>
     1 \<le> page_in_url s \<and>
     (page_in_url s = 1 \<or> (page_in_url s - 1) * tl_pageSize s < int (length (list_rows tests (tl_url s))))"

text \<open>The events that choose a page of their own, whatever the address says.\<close>

definition picks_page :: "SuiteTest list \<Rightarrow> tests_list \<Rightarrow> list_event \<Rightarrow> bool" where
  "picks_page tests s e \<longleftrightarrow>
     (case e of
        LPage p \<Rightarrow> p \<in> set (numbered_buttons tests s)
      | LSize n \<Rightarrow> True | LSearch v \<Rightarrow> True | LChip term \<Rightarrow> True
      | _ \<Rightarrow> False)"

lemma length_list_rows: "length (list_rows tests u) = length (list_filtered (list_search u) tests)"
  by (simp add: list_rows_def sorted_tests_def split: option.split)

lemma list_search_frame:
  "list_search (handleFilesPageChange p u) = list_search u" "list_search (handleTestViewChange m u) = list_search u"
  "list_search (handleDetailChange d u) = list_search u" "list_search (handleOpcodeSortChange o' u) = list_search u"
  "list_search (handlePayloadSortChange n u) = list_search u"
  by (simp_all add: list_search_def handleFilesPageChange_def handleTestViewChange_def handleDetailChange_def
      handleOpcodeSortChange_def handlePayloadSortChange_def test_params_def payload_params_def kept_params_def)

lemma files_page_frame:
  "u_filesPage (handleTestViewChange m u) = u_filesPage u" "u_filesPage (handleOpcodeSortChange o' u) = u_filesPage u"
  "u_filesPage (handlePayloadSortChange n u) = u_filesPage u" "u_filesPage (handleSearchChange q u) = Some 1"
  by (simp_all add: handleTestViewChange_def handleOpcodeSortChange_def handlePayloadSortChange_def
      handleSearchChange_def test_params_def)

lemma page_in_url_frame:
  "page_in_url (s\<lparr>tl_url := handleFilesPageChange p u\<rparr>) = p"
  "page_in_url (s\<lparr>tl_url := handleSearchChange q u\<rparr>) = 1"
  by (simp_all add: page_in_url_def files_page_keeps_list files_page_frame or_else_def)

lemma pages_of_list: "0 < tl_pageSize s \<Longrightarrow>
    list_totalPages tests s = Fin (of_int \<lceil>real (length (list_rows tests (tl_url s))) / of_int (tl_pageSize s)\<rceil>)"
  by (simp add: list_totalPages_def page_count_def num_quot_Fin)

lemma page_with_row:
  assumes "0 < sz"
  shows "p \<le> \<lceil>real n / of_int sz\<rceil> \<longleftrightarrow> (p - 1) * sz < int n"
proof -
  have "p \<le> \<lceil>real n / of_int sz\<rceil> \<longleftrightarrow> of_int (p - 1) < real n / of_int sz" by (simp add: le_ceiling_iff)
  also have "\<dots> \<longleftrightarrow> real_of_int ((p - 1) * sz) < real_of_int (int n)" using assms by (simp add: field_simps)
  finally show ?thesis by (simp only: of_int_less_iff)
qed

lemma numbered_pages: "page_items t c = Some items \<Longrightarrow> Page p \<in> set items \<Longrightarrow> 1 \<le> p \<and> p \<le> t"
proof -
  have gaps: "Page p \<in> set (with_gaps is) \<Longrightarrow> p \<in> set is" for "is"
    by (induction "is" rule: with_gaps.induct) (auto split: if_splits)
  assume *: "page_items t c = Some items" "Page p \<in> set items"
  then have "1 < t" by (simp add: page_items_def split: if_splits)
  from page_items_with_gaps [OF this, of c] * gaps have "p \<in> set (shown_pages t c t)" by simp
  then show ?thesis by (simp add: set_shown)
qed

lemma numbered_in_range:
  "0 < tl_pageSize s \<Longrightarrow> p \<in> set (numbered_buttons tests s) \<Longrightarrow>
   1 \<le> p \<and> (p - 1) * tl_pageSize s < int (length (list_rows tests (tl_url s)))"
  by (auto simp: numbered_buttons_def pages_of_list page_with_row [symmetric] dest: numbered_pages [OF sym] split: option.splits page_item.splits)

lemma arrow_in_range:
  assumes "0 < tl_pageSize s" "list_in_range tests s" "p \<in> set (arrow_buttons tests s)"
  shows "1 \<le> p \<and> (p - 1) * tl_pageSize s < int (length (list_rows tests (tl_url s)))"
  using assms(2,3) unfolding list_in_range_def page_with_row [OF assms(1), symmetric]
  by (auto simp: arrow_buttons_def pages_of_list [OF assms(1)] previous_page_def next_page_def split: if_splits option.splits)

lemma picked_in_range:
  assumes "0 < tl_pageSize s" "picks_page tests s e"
  shows "list_in_range tests (list_click tests s e)"
  using assms numbered_in_range [OF assms(1)]
  by (cases e) (auto simp: picks_page_def list_click_def list_in_range_def list_handlePageSizeChange_def
      list_handleSearchChange_def page_in_url_frame files_page_keeps_list)

interpretation list_sizes: machine "list_click tests" size_event "\<lambda>s. 0 < tl_pageSize s" for tests
  by unfold_locales (auto simp: list_click_def size_event_def list_handlePageSizeChange_def list_handleSearchChange_def
      split: list_event.splits)

interpretation list_pages: machine "list_click tests" size_event "\<lambda>s. 0 < tl_pageSize s \<and> list_in_range tests s" for tests
proof
  fix s e assume s: "0 < tl_pageSize s \<and> list_in_range tests s" and e: "size_event e"
  have "list_in_range tests (list_click tests s e)"
  proof (cases "picks_page tests s e")
    case True
    then show ?thesis using s picked_in_range by blast
  next
    case False
    show ?thesis
    proof (cases e)
      case (LPage p)
      then show ?thesis using s arrow_in_range [of s tests p] False
        by (auto simp: picks_page_def list_click_def list_in_range_def page_in_url_frame files_page_keeps_list)
    qed (use s False in \<open>simp_all add: picks_page_def list_click_def list_in_range_def page_in_url_def files_page_frame
        length_list_rows list_search_frame detail_keeps_list\<close>)
  qed
  then show "0 < tl_pageSize (list_click tests s e) \<and> list_in_range tests (list_click tests s e)"
    using s e list_sizes.inv_step by blast
qed

lemma page_in_range_shown:
  assumes "0 < tl_pageSize s" "1 \<le> page_in_url s" "list_rows tests (tl_url s) \<noteq> []"
  shows "list_page tests s \<noteq> [] \<longleftrightarrow> list_in_range tests s"
proof -
  let ?n = "length (list_rows tests (tl_url s))"
  obtain p k where pk: "page_in_url s = int p + 1" "tl_pageSize s = int k" "0 < k"
    by (rule that [of "nat (page_in_url s - 1)" "nat (tl_pageSize s)"]) (use assms(1,2) in simp_all)
  have "list_page tests s = take k (drop (p * k) (list_rows tests (tl_url s)))"
    unfolding list_page_def page_in_url_def [symmetric] pk(1,2) by (rule page_slice_nat)
  moreover have "list_in_range tests s \<longleftrightarrow> p = 0 \<or> p * k < ?n"
    by (simp add: list_in_range_def pk(1,2) flip: of_nat_mult)
  ultimately show ?thesis using pk(3) assms(3) by (cases "p = 0") auto
qed

text \<open>C36: When the list of tests shows an empty page. The page is in the address, which a link, a reload or the
  browser's history sets to anything, and the size of the pages is not. For every size, and every page from one
  on, a list with rows is empty exactly if the page of the address lies behind the last row. A list that has left that state
  does not come back to it: once a page with rows is shown, or the page is the first one, every later search,
  chip, size, arrow, numbered button, view, header or dialogue leads to a page with rows if there are rows. And it
  leaves that state with the first search, chip, size or numbered button. In particular a list opened at the
  first page, or without a page in the address, is never empty while there are rows.\<close>

theorem list_page_not_empty:
  assumes "0 < tl_pageSize s" "list_all size_event es" "s' = run (list_click tests) s es" "list_rows tests (tl_url s') \<noteq> []"
  shows "(1 \<le> page_in_url s' \<longrightarrow>
       (list_page tests s' = [] \<longleftrightarrow> int (length (list_rows tests (tl_url s'))) \<le> (page_in_url s' - 1) * tl_pageSize s')) \<and>
    (page_in_url s = 1 \<or> 1 \<le> page_in_url s \<and> list_page tests s \<noteq> [] \<longrightarrow> list_page tests s' \<noteq> []) \<and>
    (\<forall>es1 e es2. es = es1 @ e # es2 \<and> picks_page tests (run (list_click tests) s es1) e \<longrightarrow> list_page tests s' \<noteq> [])"
proof -
  have shown: "list_page tests (run (list_click tests) x ds) \<noteq> []"
    if "0 < tl_pageSize x" "list_in_range tests x" "list_all size_event ds" "list_rows tests (tl_url (run (list_click tests) x ds)) \<noteq> []" for x ds
  proof -
    have "0 < tl_pageSize (run (list_click tests) x ds) \<and> list_in_range tests (run (list_click tests) x ds)"
      using list_pages.inv_run [of x tests ds] that(1-3) by blast
    then show ?thesis using page_in_range_shown that(4) by (simp add: list_in_range_def)
  qed
  have "0 < tl_pageSize s'" unfolding assms(3) using assms(1,2) by (rule list_sizes.inv_run)
  then have exact: "list_page tests s' = [] \<longleftrightarrow> int (length (list_rows tests (tl_url s'))) \<le> (page_in_url s' - 1) * tl_pageSize s'"
    if "1 \<le> page_in_url s'"
    using page_in_range_shown [OF _ that assms(4)] assms(4) that by (auto simp: list_in_range_def)
  have start: "list_in_range tests s" if "page_in_url s = 1 \<or> 1 \<le> page_in_url s \<and> list_page tests s \<noteq> []"
  proof (cases "list_rows tests (tl_url s) = []")
    case True
    then have "list_page tests s = []" by (simp add: list_page_def page_slice_def js_slice_def)
    then show ?thesis using that by (simp add: list_in_range_def)
  qed (use that page_in_range_shown [OF assms(1)] in \<open>auto simp: list_in_range_def\<close>)
  have kept: "list_page tests s' \<noteq> []" if "page_in_url s = 1 \<or> 1 \<le> page_in_url s \<and> list_page tests s \<noteq> []"
    using shown [OF assms(1) start [OF that] assms(2)] assms(3,4) by simp
  have left: "list_page tests s' \<noteq> []" if "es = es1 @ e # es2" "picks_page tests (run (list_click tests) s es1) e" for es1 e es2
  proof -
    let ?x = "list_click tests (run (list_click tests) s es1) e"
    have size: "0 < tl_pageSize (run (list_click tests) s es1)"
      using list_sizes.inv_run [of s es1 tests] assms(1,2) that(1) by simp
    have "s' = run (list_click tests) ?x es2" by (simp add: assms(3) that(1))
    then show ?thesis
      using shown [of ?x es2] picked_in_range [OF size that(2)] list_sizes.inv_step [OF size, of e tests] assms(2,4) that(1) by simp
  qed
  show ?thesis using exact kept left by blast
qed

text \<open>The state is reached by a reload: the size of the pages is forgotten, the page is not.\<close>

lemma reload_past_end:
  assumes "100 < length (list_rows tests (tl_url s))" "length (list_rows tests (tl_url s)) \<le> 150" "tl_pageSize s = 50"
    and "u_filesPage (tl_url s) = Some 3"
  shows "list_page tests s \<noteq> []" "list_page tests \<lparr>tl_pageSize = FILES_PAGE_SIZE, tl_url = tl_url s\<rparr> = []"
proof -
  have p: "page_in_url \<lparr>tl_pageSize = n, tl_url = tl_url s\<rparr> = 3" "page_in_url s = 3" for n
    by (simp_all add: page_in_url_def assms(4) or_else_def)
  have rows: "list_rows tests (tl_url s) \<noteq> []" using assms(1) by auto
  show "list_page tests s \<noteq> []"
    using page_in_range_shown [of s tests] rows assms(1,3) by (simp add: p list_in_range_def)
  show "list_page tests \<lparr>tl_pageSize = FILES_PAGE_SIZE, tl_url = tl_url s\<rparr> = []"
    using page_in_range_shown [of "\<lparr>tl_pageSize = FILES_PAGE_SIZE, tl_url = tl_url s\<rparr>" tests] rows assms(2)
    by (simp add: p list_in_range_def FILES_PAGE_SIZE_def)
qed

subsection \<open>Sizes\<close>

text \<open>The five sums, as a row.\<close>

definition sum_rows :: "size_row list \<Rightarrow> size_row" where
  "sum_rows rows =
     \<lparr>sz_full = (\<Sum>r\<leftarrow>rows. sz_full r), sz_bal = (\<Sum>r\<leftarrow>rows. sz_bal r), sz_snappy = (\<Sum>r\<leftarrow>rows. sz_snappy r),
      sz_jsonFull = (\<Sum>r\<leftarrow>rows. sz_jsonFull r), sz_jsonBal = (\<Sum>r\<leftarrow>rows. sz_jsonBal r)\<rparr>"

definition pct_text :: "real \<Rightarrow> string" where
  "pct_text p = ''('' @ toFixed 1 p @ ''%)''"

definition totals_show :: "PayloadTotals \<Rightarrow> size_row \<Rightarrow> bool" where
  "totals_show p r \<longleftrightarrow>
     pl_sszFull p = Some (sz_full r) \<and> pl_sszBal p = Some (sz_bal r) \<and> pl_sszSnappy p = Some (sz_snappy r) \<and>
     pl_jsonFull p = Some (sz_jsonFull r) \<and> pl_jsonBal p = Some (sz_jsonBal r) \<and>
     map_option pct_text (pl_sszBalPct p) = pctCell (sz_bal r) (sz_full r) \<and>
     map_option pct_text (pl_sszSnappyPct p) = pctCell (sz_snappy r) (sz_full r) \<and>
     map_option pct_text (pl_jsonBalPct p) = pctCell (sz_jsonBal r) (sz_jsonFull r)"

definition bar_of :: "string \<Rightarrow> nat \<Rightarrow> size_row \<Rightarrow> PayloadRow" where
  "bar_of name i r =
     \<lparr>pw_index = i, pw_name = name, pw_sszFull = sz_full r, pw_sszBal = sz_bal r, pw_sszSnappy = sz_snappy r,
      pw_jsonFull = sz_jsonFull r, pw_jsonBal = sz_jsonBal r\<rparr>"

definition no_bytes :: size_row where
  "no_bytes = \<lparr>sz_full = 0, sz_bal = 0, sz_snappy = 0, sz_jsonFull = 0, sz_jsonBal = 0\<rparr>"

lemma add_up_sum: "add_up xs = sum_list xs"
proof -
  have "fold (\<lambda>x t. t + x) xs a = a + sum_list xs" for a by (induction xs arbitrary: a) simp_all
  then show ?thesis by (simp add: add_up_def)
qed

lemma sum_padded: "length xs \<le> n \<Longrightarrow> (\<Sum>i\<leftarrow>[0..<n]. at_or_zero xs i) = sum_list xs"
proof (induction n arbitrary: xs)
  case (Suc n)
  show ?case
  proof (cases xs rule: rev_cases)
    case (snoc ys y)
    show ?thesis
    proof (cases "length xs = Suc n")
      case True
      then have "(\<Sum>i\<leftarrow>[0..<n]. at_or_zero xs i) = (\<Sum>i\<leftarrow>[0..<n]. at_or_zero ys i)"
        by (intro arg_cong [where f = sum_list] map_cong HOL.refl) (auto simp: snoc at_or_zero_def nth_append)
      then show ?thesis using Suc.IH [of ys] True by (simp add: snoc at_or_zero_def nth_append)
    qed (use Suc in \<open>simp add: at_or_zero_def\<close>)
  qed (use Suc.IH [of "[]"] in \<open>simp add: at_or_zero_def\<close>)
qed simp

lemma size_table_totals:
  assumes "size_table_of l b = Inr tab"
  shows "sum_rows (sb_rows tab) =
      \<lparr>sz_full = sum_optional (pb_ssz_full b), sz_bal = sum_optional (pb_ssz_bal b),
       sz_snappy = sum_optional (pb_ssz_full_snappy b), sz_jsonFull = sum_optional (pb_json_full b),
       sz_jsonBal = sum_optional (pb_json_bal b)\<rparr>"
    "sb_total tab = (if length (sb_rows tab) > 1 then Some (sum_rows (sb_rows tab)) else None)"
    "sb_label tab = l" "sb_count tab = length (sb_rows tab)"
proof -
  obtain f bl sn jf jl where b: "pb_ssz_full b = Some f" "pb_ssz_bal b = Some bl" "pb_ssz_full_snappy b = Some sn"
    "pb_json_full b = Some jf" "pb_json_bal b = Some jl"
    using assms by (auto simp: size_table_of_def split: option.splits)
  define n where "n = fold max [length bl, length sn, length jf, length jl] (length f)"
  have le: "length f \<le> n" "length bl \<le> n" "length sn \<le> n" "length jf \<le> n" "length jl \<le> n" by (auto simp: n_def)
  have "tab = \<lparr>sb_label = l, sb_count = n,
      sb_rows = map (\<lambda>i. \<lparr>sz_full = at_or_zero f i, sz_bal = at_or_zero bl i, sz_snappy = at_or_zero sn i,
                          sz_jsonFull = at_or_zero jf i, sz_jsonBal = at_or_zero jl i\<rparr>) [0..<n],
      sb_total = (if n > 1 then Some \<lparr>sz_full = add_up f, sz_bal = add_up bl, sz_snappy = add_up sn,
                                      sz_jsonFull = add_up jf, sz_jsonBal = add_up jl\<rparr> else None)\<rparr>"
    using assms unfolding size_table_of_def b prod.case option.case Let_def n_def by (simp only: sum.inject)
  then have tab: "sb_rows tab = map (\<lambda>i. \<lparr>sz_full = at_or_zero f i, sz_bal = at_or_zero bl i, sz_snappy = at_or_zero sn i,
      sz_jsonFull = at_or_zero jf i, sz_jsonBal = at_or_zero jl i\<rparr>) [0..<n]"
    "sb_total tab = (if n > 1 then Some \<lparr>sz_full = add_up f, sz_bal = add_up bl, sz_snappy = add_up sn,
      sz_jsonFull = add_up jf, sz_jsonBal = add_up jl\<rparr> else None)" "sb_label tab = l" "sb_count tab = n"
    by simp_all
  show rows: "sum_rows (sb_rows tab) = \<lparr>sz_full = sum_optional (pb_ssz_full b), sz_bal = sum_optional (pb_ssz_bal b),
       sz_snappy = sum_optional (pb_ssz_full_snappy b), sz_jsonFull = sum_optional (pb_json_full b),
       sz_jsonBal = sum_optional (pb_json_bal b)\<rparr>"
    by (simp add: sum_rows_def tab(1) comp_def b sum_optional_def add_up_sum sum_padded [OF le(1)] sum_padded [OF le(2)]
        sum_padded [OF le(3)] sum_padded [OF le(4)] sum_padded [OF le(5)])
  show "sb_total tab = (if length (sb_rows tab) > 1 then Some (sum_rows (sb_rows tab)) else None)"
    unfolding rows by (simp add: tab(1,2) b sum_optional_def)
  show "sb_label tab = l" "sb_count tab = length (sb_rows tab)" using tab by simp_all
qed

lemma in_size_tables:
  "size_tables ps = Inr tabs \<Longrightarrow> tab \<in> set tabs \<Longrightarrow> \<exists>l b. (l, b) \<in> set ps \<and> size_table_of l b = Inr tab"
proof (induction ps arbitrary: tabs rule: size_tables.induct)
  case (2 l b rest)
  then obtain t ts where "size_table_of l b = Inr t" "size_tables rest = Inr ts" "tabs = t # ts"
    by (auto simp: and_then_def split: sum.splits)
  with 2 show ?case by auto
qed simp

lemma in_populated:
  "(l, x) \<in> set (populated ps) \<longleftrightarrow>
   l = ''Setup'' \<and> st_setup ps = Some x \<or> l = ''Test'' \<and> st_test ps = Some x \<or> l = ''Cleanup'' \<and> st_cleanup ps = Some x"
  by (auto simp: populated_def map_filter_simps split: option.splits)

text \<open>C35: The sizes of a test are the same in all places. In the dialogue the rows of the table of the test step add
  up to its total, which is shown exactly when there is more than one row; the table of tests shows the same
  five sums, with the percentages of the total row, and the chart a bar of these sums, and none exactly when
  they are all zero.\<close>

theorem payload_sizes_agree:
  assumes "PayloadSizesContent t = Inr tabs" "tab \<in> set tabs" "sb_label tab = ''Test''"
  shows "sb_count tab = length (sb_rows tab) \<and>
    sb_total tab = (if length (sb_rows tab) > 1 then Some (sum_rows (sb_rows tab)) else None) \<and>
    totals_show (payloadTotals t) (sum_rows (sb_rows tab)) \<and>
    payload_toRow t i = (if sum_rows (sb_rows tab) = no_bytes then None else Some (bar_of (tt_name t) i (sum_rows (sb_rows tab))))"
proof -
  obtain ps where ps: "tt_payload_sizes t = Some ps" "size_tables (populated ps) = Inr tabs"
    using assms(1,2) by (auto simp: PayloadSizesContent_def split: option.splits)
  obtain l b where b: "(l, b) \<in> set (populated ps)" "size_table_of l b = Inr tab"
    using in_size_tables [OF ps(2) assms(2)] by blast
  note tot = size_table_totals [OF b(2)]
  have "st_test ps = Some b" using b(1) tot(3) assms(3) by (auto simp: in_populated)
  then have buckets: "test_buckets t = Some b" by (simp add: test_buckets_def ps(1))
  have "totals_show (payloadTotals t) (sum_rows (sb_rows tab))"
    unfolding tot(1) by (simp add: totals_show_def payloadTotals_def buckets Let_def pctCell_def pct_text_def)
  moreover have "payload_toRow t i =
      (if sum_rows (sb_rows tab) = no_bytes then None else Some (bar_of (tt_name t) i (sum_rows (sb_rows tab))))"
    unfolding tot(1) by (simp add: payload_toRow_def buckets Let_def no_bytes_def bar_of_def)
  ultimately show ?thesis using tot(2,4) by blast
qed

text \<open>The table and the chart allow for a missing array, the dialogue does not.\<close>

lemma missing_array_throws:
  assumes "tt_payload_sizes t = Some \<lparr>st_setup = None, st_test = Some b, st_cleanup = None\<rparr>" "pb_json_full b = None"
  shows "PayloadSizesContent t = Inl TypeError" "payloadTotals t \<noteq> EMPTY_PAYLOAD_TOTALS"
proof -
  have "size_table_of ''Test'' b = Inl TypeError"
    using assms(2) by (simp add: size_table_of_def split: option.split)
  then show "PayloadSizesContent t = Inl TypeError"
    using assms(1) by (simp add: PayloadSizesContent_def populated_def map_filter_simps and_then_def)
  show "payloadTotals t \<noteq> EMPTY_PAYLOAD_TOTALS"
    using assms(1) by (simp add: payloadTotals_def test_buckets_def EMPTY_PAYLOAD_TOTALS_def Let_def)
qed

subsection \<open>Search and bars\<close>

lemma chart_filter_matches: "chart_filter name q rows = filter (\<lambda>r. testNameMatches (name r) q) rows"
  by (auto simp: chart_filter_def testNameMatches_def compileQuery_def)

lemma chart_rows_search:
  assumes "\<And>t i r. toRow t i = Some r \<Longrightarrow> name r = tt_name t"
  shows "chart_filter name q (chart_rows toRow tests) = List.map_filter (\<lambda>(t, i). toRow t i) (list_filtered q tests)"
proof -
  have "filter (\<lambda>r. testNameMatches (name r) q) (List.map_filter (\<lambda>(t, i). toRow t i) xs) =
      List.map_filter (\<lambda>(t, i). toRow t i) (filter (\<lambda>(t, i). testNameMatches (tt_name t) q) xs)" for xs
    by (induction xs) (auto simp: map_filter_simps assms split: option.splits)
  then show ?thesis by (simp add: chart_filter_matches chart_rows_def list_filtered_def)
qed

lemma bars_search:
  "chart_filter pw_name q (chart_rows payload_toRow tests) = List.map_filter (\<lambda>(t, i). payload_toRow t i) (list_filtered q tests)"
  "chart_filter xr_name q (chart_rows tx_toRow tests) = List.map_filter (\<lambda>(t, i). tx_toRow t i) (list_filtered q tests)"
  by (rule chart_rows_search; auto simp: payload_toRow_def tx_toRow_def Let_def split: option.splits if_splits)+

lemma js_sort_key_stable: "filter (\<lambda>r. f r = v) (js_sort (key_cmp f) xs) = filter (\<lambda>r. f r = v) xs"
proof (cases "\<exists>a \<in> set xs. f a = v")
  case True
  then obtain a where "f a = v" by blast
  then have "key.tied f a = (\<lambda>r. f r = v)" by (auto simp: key.tied_def key_cmp_def fun_eq_iff)
  then show ?thesis using key.stable_js_sort [of f a xs] by simp
next
  case False
  then have "filter (\<lambda>r. f r = v) xs = []" "filter (\<lambda>r. f r = v) (js_sort (key_cmp f) xs) = []"
    by (auto simp: filter_empty_conv)
  then show ?thesis by simp
qed

text \<open>One search drives the table and the two charts. The bars are those of the tests in the table that have
  data, each once; by number they stand in the order of the suite, by size from the largest down, bars of the
  same size in the order of the suite; and a stack of bars is as high as the payload whenever the access list is
  not larger than the payload.\<close>

theorem bars_follow_table:
  assumes "rows = List.map_filter (\<lambda>(t, i). payload_toRow t i) (list_filtered q tests)"
    and "bars = payload_bars order encoding q tests"
    and "txRows = List.map_filter (\<lambda>(t, i). tx_toRow t i) (list_filtered q tests)" "txs = tx_bars txOrder q tests"
  shows "(order = IndexOrder \<longrightarrow> bars = rows) \<and> mset bars = mset rows \<and>
    (order = SizeOrder \<longrightarrow> sorted_wrt (\<lambda>a b. fullOf encoding b \<le> fullOf encoding a) bars \<and>
       (\<forall>v. filter (\<lambda>r. fullOf encoding r = v) bars = filter (\<lambda>r. fullOf encoding r = v) rows)) \<and>
    (txOrder = TxIndex \<longrightarrow> txs = txRows) \<and> mset txs = mset txRows \<and>
    (txOrder = TxCount \<longrightarrow> sorted_wrt (\<lambda>a b. xr_total b \<le> xr_total a) txs) \<and>
    (\<forall>k < length bars. pw_sszBal (bars ! k) \<le> pw_sszFull (bars ! k) \<and> pw_jsonBal (bars ! k) \<le> pw_jsonFull (bars ! k) \<longrightarrow>
       snd (payload_series encoding bars ! 0) ! k + snd (payload_series encoding bars ! 1) ! k = fullOf encoding (bars ! k))"
proof -
  have bars: "bars = (if order = SizeOrder then js_sort (key_cmp (\<lambda>r. - fullOf encoding r)) rows else rows)"
    by (simp add: assms(1,2) payload_bars_def bars_search key_cmp_def [abs_def])
  have txs: "txs = (if txOrder = TxCount then js_sort (key_cmp (\<lambda>r. - xr_total r)) txRows else txRows)"
    by (simp add: assms(3,4) tx_bars_def bars_search key_cmp_def [abs_def])
  have stable: "filter (\<lambda>r. fullOf encoding r = v) (js_sort (key_cmp (\<lambda>r. - fullOf encoding r)) rows) =
      filter (\<lambda>r. fullOf encoding r = v) rows" for v
    using js_sort_key_stable [of "\<lambda>r. - fullOf encoding r" "- v" rows] by simp
  have order: "order = IndexOrder \<longleftrightarrow> order \<noteq> SizeOrder" "txOrder = TxIndex \<longleftrightarrow> txOrder \<noteq> TxCount"
    by (cases order; cases txOrder; simp)+
  have stack: "snd (payload_series encoding bars ! 0) ! k + snd (payload_series encoding bars ! 1) ! k = fullOf encoding (bars ! k)"
    if "k < length bars" "pw_sszBal (bars ! k) \<le> pw_sszFull (bars ! k) \<and> pw_jsonBal (bars ! k) \<le> pw_jsonFull (bars ! k)" for k
    using that by (cases encoding) (simp_all add: payload_series_def fullOf_def)
  show ?thesis
    using stable stack key.sorted_js_sort [of "\<lambda>r. - fullOf encoding r" rows] key.sorted_js_sort [of "\<lambda>r. - xr_total r" txRows]
    by (simp add: bars txs order key_cmp_def not_less)
qed
subsection \<open>Escaped names\<close>

text \<open>What a reader of markup makes of a text without tags: it replaces the five entities.\<close>

definition entities :: "(string \<times> char) list" where
  "entities = [(''&amp;'', CHR ''&''), (''&lt;'', CHR ''<''), (''&gt;'', CHR ''>''), (''&quot;'', CHR 0x22), (''&#39;'', CHR 0x27)]"

definition entity_at :: "string \<Rightarrow> string \<Rightarrow> bool" where
  "entity_at p s \<longleftrightarrow> take (length p) s = p"

fun unescapeHtml :: "nat \<Rightarrow> string \<Rightarrow> string" where
  "unescapeHtml skip [] = []"
| "unescapeHtml (Suc skip) (c # s) = unescapeHtml skip s"
| "unescapeHtml 0 (c # s) =
     (case find (\<lambda>(p, ch). entity_at p (c # s)) entities of
        Some (p, ch) \<Rightarrow> ch # unescapeHtml (length p - 1) s
      | None \<Rightarrow> c # unescapeHtml 0 s)"

lemma unescape_char: "unescapeHtml 0 (escape_char c @ s) = c # unescapeHtml 0 s"
proof -
  consider "c = CHR ''&''" | "c = CHR ''<''" | "c = CHR ''>''" | "c = CHR 0x22" | "c = CHR 0x27"
    | "c \<notin> {CHR ''&'', CHR ''<'', CHR ''>'', CHR 0x22, CHR 0x27}" by blast
  then show ?thesis
    by cases (simp_all add: escape_char_def entities_def entity_at_def numeral_eq_Suc)
qed

text \<open>C37: A name in a tooltip stays text. The escaped name has no character that opens a tag or ends an attribute,
  and reading it back gives the name.\<close>

theorem escaped_name_is_text:
  "unescapeHtml 0 (escapeHtml s) = s \<and> set (escapeHtml s) \<inter> {CHR ''<'', CHR ''>'', CHR 0x22, CHR 0x27} = {}"
proof (induction s)
  case (Cons c s)
  have "escapeHtml (c # s) = escape_char c @ escapeHtml s" by (simp add: escapeHtml_def)
  moreover have "set (escape_char c) \<inter> {CHR ''<'', CHR ''>'', CHR 0x22, CHR 0x27} = {}"
    by (auto simp: escape_char_def)
  ultimately show ?case using Cons by (auto simp: unescape_char)
qed (simp add: escapeHtml_def)

subsection \<open>Files and opcodes\<close>

text \<open>A file of a step that is empty is reported as a failure, with the status of a success.\<close>

lemma empty_file_fails:
  "file_result (Inr \<lparr>fr_data = Some [], fr_status = 200\<rparr>) = FileError ''Failed to fetch file: 200''"
  by (simp add: file_result_def nat_str.simps char_eval)

text \<open>Two steps of a test, or of two tests, never share a file.\<close>

lemma step_paths_distinct:
  assumes "CHR ''/'' \<notin> set k" "CHR ''/'' \<notin> set k'" "n \<noteq> []" "n' \<noteq> []"
    and "file_path h k (Some n) f = file_path h k' (Some n') f'"
  shows "n = n' \<and> k = k'"
proof -
  obtain c cs c' cs' where n: "n = c # cs" "n' = c' # cs'" using assms(3,4) by (meson neq_Nil_conv)
  have "n @ CHR ''/'' # k @ ''.request'' = n' @ CHR ''/'' # k' @ ''.request''"
    using assms(5) by (simp add: n file_path_def)
  then have eq: "(n @ [CHR ''/'']) @ k = (n' @ [CHR ''/'']) @ k'"
    using append_same_eq [of "(n @ [CHR ''/'']) @ k" "''.request''" "(n' @ [CHR ''/'']) @ k'"] by simp
  have rev: "rev k @ CHR ''/'' # rev n = rev k' @ CHR ''/'' # rev n'"
    using arg_cong [OF eq, of rev] by (simp only: rev_append rev.simps append.simps append_assoc)
  have "takeWhile (\<lambda>c. c \<noteq> CHR ''/'') (rev x @ CHR ''/'' # y) = rev x" if "CHR ''/'' \<notin> set x" for x y :: string
    using that by (subst takeWhile_append2) auto
  then have "rev k = rev k'" using rev assms(1,2) by metis
  then show ?thesis using rev by simp
qed

text \<open>The panel lists every opcode of the test once, by count from the largest down.\<close>

lemma opcode_chips_sorted:
  assumes "chips = opcode_chips lc isDark CountSort opcodes"
  shows "mset (map (\<lambda>c. (oc_opcode c, oc_count c)) chips) = mset opcodes \<and>
    sorted_wrt (\<lambda>a b. oc_count b \<le> oc_count a) chips \<and>
    (\<forall>c \<in> set chips. oc_title c = getOpcodeCategory (oc_opcode c) \<and> oc_color c = getCategoryColor (oc_title c) isDark)"
proof -
  have cmp: "opcode_cmp lc CountSort = key_cmp (\<lambda>p. - snd p)"
    by (simp add: opcode_cmp_def [abs_def] key_cmp_def [abs_def])
  have "mset (map (\<lambda>c. (oc_opcode c, oc_count c)) chips) = mset opcodes"
    by (simp add: assms opcode_chips_def comp_def case_prod_unfold)
  moreover have "sorted_wrt (\<lambda>a b. oc_count b \<le> oc_count a) chips"
    using key.sorted_js_sort [of "\<lambda>p. - snd p" opcodes]
    by (simp add: assms opcode_chips_def cmp sorted_wrt_map case_prod_unfold key_cmp_def not_less)
  ultimately show ?thesis by (auto simp: assms opcode_chips_def)
qed

section \<open>Witnesses\<close>

definition sized_test :: "string \<Rightarrow> real list \<Rightarrow> SuiteTest" where
  "sized_test name sizes =
     \<lparr>tt_name = name, tt_genesis = None, tt_files = \<lparr>st_setup = None, st_test = None, st_cleanup = None\<rparr>, tt_info = None,
      tt_opcode_count = None,
      tt_payload_sizes = Some \<lparr>st_setup = None,
        st_test = Some \<lparr>pb_ssz_full = Some sizes, pb_ssz_bal = Some [], pb_ssz_full_snappy = Some [], pb_json_full = Some [],
                        pb_json_bal = Some []\<rparr>, st_cleanup = None\<rparr>,
      tt_tx_counts = None\<rparr>"

definition open_list :: tests_list where
  "open_list = \<lparr>tl_pageSize = FILES_PAGE_SIZE, tl_url = no_suite_params\<rparr>"

lemma empty_query_matches: "testNameMatches n []"
  by (simp add: testNameMatches_def compileQuery_iff splitQuery_def toks_Nil trim_def trim_start_def)

lemma open_list_rows: "list_rows tests (tl_url open_list) = suite_numbered tests"
  by (simp add: empty_query_matches list_rows_def open_list_def no_suite_params_def list_view_def list_search_def or_else_def
      payloadSort_def sorted_tests_def list_filtered_def)


lemma sized_bars:
  "payload_bars IndexOrder Ssz [] [sized_test ''a'' [3, 4]] =
   [\<lparr>pw_index = 1, pw_name = ''a'', pw_sszFull = 7, pw_sszBal = 0, pw_sszSnappy = 0, pw_jsonFull = 0, pw_jsonBal = 0\<rparr>]"
  by (simp add: payload_bars_def chart_filter_def trim_def trim_start_def chart_rows_def suite_numbered_def map_filter_simps
      payload_toRow_def test_buckets_def sized_test_def sum_optional_def add_up_def)

theorem clicks_open_test_witness:
  "selected_item [sized_test ''a'' [3, 4]]
     (click_bar (bar_categories pw_index (payload_bars IndexOrder Ssz [] [sized_test ''a'' [3, 4]])) (Some (1 / 4)) no_suite_params) =
   Some (sized_test ''a'' [3, 4])"
proof -
  have "math_round (1 / 4) = int 0" by (simp add: math_round_def)
  then have "\<exists>t. selected_item [sized_test ''a'' [3, 4]]
     (click_bar (bar_categories pw_index (payload_bars IndexOrder Ssz [] [sized_test ''a'' [3, 4]])) (Some (1 / 4)) no_suite_params) = Some t"
    using clicks_open_test [OF HOL.refl HOL.refl, where order = IndexOrder and encoding = Ssz and q = "[]" and
        tests = "[sized_test ''a'' [3, 4]]"] unfolding sized_bars
    by (metis length_Cons zero_less_Suc)
  then show ?thesis by (auto simp: selected_item_def split: option.splits if_splits)
qed

theorem payload_order_reference_witness:
  "\<exists>m. list_totalPages [sized_test ''a'' [3]] open_list = Fin (of_int m) \<and>
     concat (map (\<lambda>p. list_page [sized_test ''a'' [3]] (list_step open_list (LPage p))) [1..m]) = [(sized_test ''a'' [3], 1)]"
  using payload_order_reference [OF HOL.refl HOL.refl, of open_list 100 "[sized_test ''a'' [3]]"]
  unfolding open_list_rows by (simp add: open_list_def FILES_PAGE_SIZE_def suite_numbered_def)

theorem payload_headers_refine_witness:
  "payloadSort (tl_url (run list_step open_list [LHeader ''index'', LHeader ''ssz_bal''])) =
   Some \<lparr>psc_col = ''ssz_bal'', psc_dir = Descending\<rparr>"
  using payload_headers_refine [of "[LHeader ''index'', LHeader ''ssz_bal'']" "''index''" open_list]
  by (simp add: column_event_def isPayloadSortCol_def PAYLOAD_SORT_COLS_def sort_event_def togglePayloadSort_def
      open_list_def no_suite_params_def payloadSort_def)

theorem list_page_not_empty_witness:
  "list_page [sized_test ''a'' [3]]
     (run (list_click [sized_test ''a'' [3]]) \<lparr>tl_pageSize = FILES_PAGE_SIZE, tl_url = no_suite_params\<lparr>u_filesPage := Some 3\<rparr>\<rparr>
        [LHeader ''index'', LSize 50, LClose]) \<noteq> []"
proof -
  let ?tests = "[sized_test ''a'' [3]]" and ?s = "\<lparr>tl_pageSize = FILES_PAGE_SIZE, tl_url = no_suite_params\<lparr>u_filesPage := Some 3\<rparr>\<rparr>"
  have "list_rows ?tests (tl_url (run (list_click ?tests) ?s [LHeader ''index'', LSize 50, LClose])) \<noteq> []"
    unfolding length_0_conv [symmetric] length_list_rows
    by (simp add: list_click_def list_handlePageSizeChange_def list_search_frame detail_keeps_list files_page_keeps_list)
       (simp add: list_search_def no_suite_params_def or_else_def list_filtered_def suite_numbered_def empty_query_matches)
  moreover have "picks_page ?tests (run (list_click ?tests) ?s [LHeader ''index'']) (LSize 50)" by (simp add: picks_page_def)
  moreover have "0 < tl_pageSize ?s" "list_all size_event [LHeader ''index'', LSize 50, LClose]"
    by (simp_all add: FILES_PAGE_SIZE_def size_event_def)
  moreover have "[LHeader ''index'', LSize 50, LClose] = [LHeader ''index''] @ LSize 50 # [LClose]" by simp
  ultimately show ?thesis using list_page_not_empty [OF _ _ HOL.refl] by blast
qed

theorem payload_sizes_agree_witness:
  "totals_show (payloadTotals (sized_test ''a'' [3, 4])) \<lparr>sz_full = 7, sz_bal = 0, sz_snappy = 0, sz_jsonFull = 0, sz_jsonBal = 0\<rparr>"
proof -
  let ?tab = "\<lparr>sb_label = ''Test'', sb_count = 2,
      sb_rows = [\<lparr>sz_full = 3, sz_bal = 0, sz_snappy = 0, sz_jsonFull = 0, sz_jsonBal = 0\<rparr>,
                 \<lparr>sz_full = 4, sz_bal = 0, sz_snappy = 0, sz_jsonFull = 0, sz_jsonBal = 0\<rparr>],
      sb_total = Some \<lparr>sz_full = 7, sz_bal = 0, sz_snappy = 0, sz_jsonFull = 0, sz_jsonBal = 0\<rparr>\<rparr>"
  have "PayloadSizesContent (sized_test ''a'' [3, 4]) = Inr [?tab]"
    by (simp add: PayloadSizesContent_def sized_test_def populated_def map_filter_simps size_table_of_def and_then_def
        at_or_zero_def add_up_def upt_conv_Cons)
  from payload_sizes_agree [OF this, of ?tab 1] show ?thesis by (simp add: sum_rows_def)
qed

theorem bars_follow_table_witness:
  "sorted_wrt (\<lambda>a b. fullOf Ssz b \<le> fullOf Ssz a) (payload_bars SizeOrder Ssz [] [sized_test ''a'' [1], sized_test ''b'' [3]])"
  using bars_follow_table [OF HOL.refl HOL.refl HOL.refl HOL.refl, where order = SizeOrder and encoding = Ssz and
      q = "[]" and tests = "[sized_test ''a'' [1], sized_test ''b'' [3]]"] by simp

end
