(* ===== verification/Opcode_Heatmap.thy ===== *)
theory Opcode_Heatmap
  imports Suite_Tests
begin

text \<open>
  The heat map of the opcodes of a suite (\<open>ui/src/components/suite-detail/OpcodeHeatmap.tsx\<close>): its tests and
  columns, with the stack opcodes grouped or not, the counts and their colours, the order, and the geometry of
  the canvas: which rows and columns are drawn where, what a click and the pointer hit. Coordinates are exact
  reals; the painting itself, the labels that have to fit, and full-screen mode are not modelled. The theorems show that
  the columns conserve the counts, that colours rank, that the rows are sorted, and that clicks hit what is
  drawn under them.
\<close>

section \<open>Colours\<close>

definition CELL_SIZE :: real where "CELL_SIZE = 16"
definition ROW_HEIGHT :: real where "ROW_HEIGHT = 20"
definition HEADER_HEIGHT_COLLAPSED :: real where "HEADER_HEIGHT_COLLAPSED = 90"
definition ROW_LABEL_WIDTH :: real where "ROW_LABEL_WIDTH = 50"

definition logRatio :: "real \<Rightarrow> real \<Rightarrow> real" where
  "logRatio n m = (if n \<le> 0 \<or> m \<le> 0 then 0 else ln (1 + n) / ln (1 + m))"

definition COLORS_LIGHT :: "string list" where
  "COLORS_LIGHT =
     [''transparent'', ''#eff6ff'', ''#dbeafe'', ''#bfdbfe'', ''#93c5fd'', ''#818cf8'', ''#7c3aed'', ''#6d28d9'', ''#5b21b6'']"

definition COLORS_DARK :: "string list" where
  "COLORS_DARK =
     [''transparent'', ''#1e293b'', ''#1e3a5f'', ''#1d4ed8'', ''#3b82f6'', ''#6366f1'', ''#7c3aed'', ''#9333ea'', ''#a855f7'']"

definition getColorIndex :: "real \<Rightarrow> nat" where
  "getColorIndex ratio =
     (if ratio = 0 then 0 else if ratio \<le> 0.125 then 1 else if ratio \<le> 0.25 then 2 else if ratio \<le> 0.375 then 3
      else if ratio \<le> 0.5 then 4 else if ratio \<le> 0.625 then 5 else if ratio \<le> 0.75 then 6
      else if ratio \<le> 0.875 then 7 else 8)"

definition getCellColor :: "real \<Rightarrow> bool \<Rightarrow> string" where
  "getCellColor ratio isDark = (if isDark then COLORS_DARK else COLORS_LIGHT) ! getColorIndex ratio"

definition LEGEND_STEPS :: "real list" where
  "LEGEND_STEPS = [0.125, 0.25, 0.375, 0.5, 0.625, 0.75, 0.875, 1]"

section \<open>Tests and columns\<close>

text \<open>A test with its position in the suite, from 0.\<close>

type_synonym heat_test = "SuiteTest \<times> nat"

definition testsWithOpcodes :: "SuiteTest list \<Rightarrow> heat_test list" where
  "testsWithOpcodes tests =
     filter (\<lambda>(t, i). case getOpcodeCount t of None \<Rightarrow> False | Some c \<Rightarrow> c \<noteq> [])
       (map (\<lambda>(i, t). (t, i)) (enumerate 0 tests))"

definition opcode_filteredTests :: "string \<Rightarrow> heat_test list \<Rightarrow> heat_test list" where
  "opcode_filteredTests search ts = (if search = [] then ts else filter (\<lambda>(t, i). testNameMatches (tt_name t) search) ts)"

definition allOpcodes :: "heat_test list \<Rightarrow> string js_set" where
  "allOpcodes ts =
     fold (\<lambda>(t, i) set. case getOpcodeCount t of None \<Rightarrow> set | Some c \<Rightarrow> fold set_add (map fst c) set) ts []"

text \<open>The columns with the stack opcodes grouped: one column per subcategory.\<close>

definition span_subs :: "CategorySpan \<Rightarrow> SubcategorySpan list" where
  "span_subs sp = (case cs_subcategories sp of None \<Rightarrow> [] | Some subs \<Rightarrow> subs)"

definition stack_span :: "CategorySpan \<Rightarrow> string list \<times> CategorySpan list \<Rightarrow> string list \<times> CategorySpan list" where
  "stack_span sp acc =
     (let (columns, spans) = acc; startCol = length columns
      in if span_subs sp \<noteq> []
         then (columns @ map ss_name (span_subs sp),
               spans @ [sp\<lparr>cs_startCol := startCol, cs_count := length (span_subs sp), cs_subcategories := None\<rparr>])
         else (columns @ cs_opcodes sp, spans @ [sp\<lparr>cs_startCol := startCol, cs_count := length (cs_opcodes sp)\<rparr>]))"

definition stackGrouped :: "bool \<Rightarrow> GroupedResult \<Rightarrow> string list \<times> CategorySpan list" where
  "stackGrouped groupStack grouped =
     (if groupStack then fold stack_span (gr_categorySpans grouped) ([], [])
      else (gr_columns grouped, gr_categorySpans grouped))"

definition collapsedColumns :: "GroupedResult \<Rightarrow> string list" where
  "collapsedColumns grouped = map cs_name (gr_categorySpans grouped)"

definition categoryOpcodeMap :: "GroupedResult \<Rightarrow> (string, string list) js_map" where
  "categoryOpcodeMap grouped = fold (\<lambda>g. map_set (cs_name g) (cs_opcodes g)) (gr_categorySpans grouped) []"

definition subCategoryOpcodeMap :: "GroupedResult \<Rightarrow> (string, string list) js_map" where
  "subCategoryOpcodeMap grouped =
     fold (\<lambda>sp. fold (\<lambda>sub. map_set (ss_name sub) (ss_opcodes sub)) (span_subs sp)) (gr_categorySpans grouped) []"

definition count_of :: "real js_object \<Rightarrow> string \<Rightarrow> real" where
  "count_of counts op = (case map_of counts op of None \<Rightarrow> 0 | Some n \<Rightarrow> n)"

definition total_of :: "real js_object \<Rightarrow> string list \<Rightarrow> real" where
  "total_of counts ops = fold (\<lambda>op total. total + count_of counts op) ops 0"

definition getCount :: "bool \<Rightarrow> bool \<Rightarrow> GroupedResult \<Rightarrow> SuiteTest \<Rightarrow> string \<Rightarrow> real" where
  "getCount expanded groupStack grouped test col =
     (case getOpcodeCount test of
        None \<Rightarrow> 0
      | Some counts \<Rightarrow>
          if expanded
          then (case (if groupStack then map_of (subCategoryOpcodeMap grouped) col else None) of
                  Some ops \<Rightarrow> total_of counts ops
                | None \<Rightarrow> count_of counts col)
          else (case map_of (categoryOpcodeMap grouped) col of
                  None \<Rightarrow> 0
                | Some ops \<Rightarrow> total_of counts ops))"

section \<open>Order\<close>

record ExtraColumn =
  ec_name :: string
  ec_getValue :: "nat \<Rightarrow> real option"
  ec_width :: "real option"
  ec_format :: "(real \<Rightarrow> string) option"

record opcode_heatmap =
  om_groupStack :: bool
  om_sortCol :: "string option"
  om_sortDir :: SortDirection
  om_fullscreen :: bool

definition open_opcodes :: opcode_heatmap where
  "open_opcodes = \<lparr>om_groupStack = True, om_sortCol = None, om_sortDir = Descending, om_fullscreen = False\<rparr>"

definition opcode_handleSortChange :: "string \<Rightarrow> opcode_heatmap \<Rightarrow> opcode_heatmap" where
  "opcode_handleSortChange col s =
     (if om_sortCol s = Some col
      then (if om_sortDir s = Descending then s\<lparr>om_sortDir := Ascending\<rparr> else s\<lparr>om_sortCol := None\<rparr>)
      else s\<lparr>om_sortCol := Some col, om_sortDir := Descending\<rparr>)"

text \<open>The value a column sorts by; a test without a value of an extra column counts as minus infinity.\<close>

definition column_value ::
  "(SuiteTest \<Rightarrow> string \<Rightarrow> real) \<Rightarrow> ExtraColumn list \<Rightarrow> string \<Rightarrow> heat_test \<Rightarrow> jsnum" where
  "column_value counts extra col a =
     (if col = ''#'' then Fin (real (snd a))
      else (case find (\<lambda>ec. ec_name ec = col) extra of
              Some ec \<Rightarrow> (case ec_getValue ec (snd a) of None \<Rightarrow> NegInf | Some v \<Rightarrow> Fin v)
            | None \<Rightarrow> Fin (counts (fst a) col)))"

definition opcode_cmp_by ::
  "(SuiteTest \<Rightarrow> string \<Rightarrow> real) \<Rightarrow> ExtraColumn list \<Rightarrow> string \<Rightarrow> SortDirection \<Rightarrow> heat_test \<Rightarrow> heat_test \<Rightarrow> jsnum" where
  "opcode_cmp_by counts extra col dir a b =
     (if dir = Descending then num_sub (column_value counts extra col b) (column_value counts extra col a)
      else num_sub (column_value counts extra col a) (column_value counts extra col b))"

definition opcode_sortedTests ::
  "(SuiteTest \<Rightarrow> string \<Rightarrow> real) \<Rightarrow> ExtraColumn list \<Rightarrow> opcode_heatmap \<Rightarrow> heat_test list \<Rightarrow> heat_test list" where
  "opcode_sortedTests counts extra s ts =
     (case om_sortCol s of
        Some (c # cs) \<Rightarrow> js_sort (opcode_cmp_by counts extra (c # cs) (om_sortDir s)) ts
      | _ \<Rightarrow> ts)"

definition max_count :: "(SuiteTest \<Rightarrow> string \<Rightarrow> real) \<Rightarrow> heat_test list \<Rightarrow> string \<Rightarrow> real" where
  "max_count counts ts col = fold (\<lambda>(t, i) m. if counts t col > m then counts t col else m) ts 0"

definition maxPerColumn :: "(SuiteTest \<Rightarrow> string \<Rightarrow> real) \<Rightarrow> heat_test list \<Rightarrow> string list \<Rightarrow> real js_object" where
  "maxPerColumn counts ts columns = fold (\<lambda>col. obj_set col (max_count counts ts col)) columns []"

text \<open>The colours of all cells, row after row.\<close>

definition cell_index :: "(SuiteTest \<Rightarrow> string \<Rightarrow> real) \<Rightarrow> real js_object \<Rightarrow> SuiteTest \<Rightarrow> string \<Rightarrow> nat" where
  "cell_index counts maxes t col =
     getColorIndex (logRatio (counts t col) (case map_of maxes col of None \<Rightarrow> 1 | Some m \<Rightarrow> m))"

definition colorGrid ::
  "(SuiteTest \<Rightarrow> string \<Rightarrow> real) \<Rightarrow> real js_object \<Rightarrow> heat_test list \<Rightarrow> string list \<Rightarrow> nat list" where
  "colorGrid counts maxes ts columns =
     concat (map (\<lambda>(t, i). map (\<lambda>col. cell_index counts maxes t col) columns) ts)"
section \<open>Canvas\<close>

text \<open>What is drawn, and the scroll position and size of the window on it. Coordinates of the pointer are those
  of the window.\<close>

record canvas =
  cv_tests :: "heat_test list"
  cv_columns :: "string list"
  cv_expanded :: bool
  cv_spans :: "CategorySpan list"
  cv_extra :: "ExtraColumn list"

record viewport =
  vw_scrollX :: real
  vw_scrollY :: real
  vw_width :: real
  vw_height :: real

definition computeExpandedHeaderHeight :: "CategorySpan list \<Rightarrow> real" where
  "computeExpandedHeaderHeight spans =
     (let hasSubcategories = list_ex (\<lambda>s. span_subs s \<noteq> []) spans
      in ROW_HEIGHT + (if hasSubcategories then ROW_HEIGHT else 0) + 90)"

definition headerHeight :: "canvas \<Rightarrow> real" where
  "headerHeight c = (if cv_expanded c then computeExpandedHeaderHeight (cv_spans c) else HEADER_HEIGHT_COLLAPSED)"

definition extra_width :: "ExtraColumn \<Rightarrow> real" where
  "extra_width ec = (case ec_width ec of None \<Rightarrow> 48 | Some w \<Rightarrow> w)"

definition leftWidth :: "canvas \<Rightarrow> real" where
  "leftWidth c = ROW_LABEL_WIDTH + fold (\<lambda>ec sum. sum + extra_width ec) (cv_extra c) 0"

text \<open>The rows and columns that are drawn, and the corner of a cell.\<close>

definition first_row :: "canvas \<Rightarrow> viewport \<Rightarrow> int" where
  "first_row c v = max 0 \<lfloor>(vw_scrollY v - headerHeight c) / CELL_SIZE\<rfloor>"

definition last_row :: "canvas \<Rightarrow> viewport \<Rightarrow> int" where
  "last_row c v = min (int (length (cv_tests c)) - 1) \<lceil>(vw_scrollY v + vw_height v - headerHeight c) / CELL_SIZE\<rceil>"

definition first_col :: "canvas \<Rightarrow> viewport \<Rightarrow> int" where
  "first_col c v = max 0 \<lfloor>(vw_scrollX v - leftWidth c) / CELL_SIZE\<rfloor>"

definition last_col :: "canvas \<Rightarrow> viewport \<Rightarrow> int" where
  "last_col c v = min (int (length (cv_columns c)) - 1) \<lceil>(vw_scrollX v + vw_width v - leftWidth c) / CELL_SIZE\<rceil>"

definition cell_x :: "canvas \<Rightarrow> viewport \<Rightarrow> int \<Rightarrow> real" where
  "cell_x c v col = leftWidth c + of_int col * CELL_SIZE - vw_scrollX v"

definition cell_y :: "canvas \<Rightarrow> viewport \<Rightarrow> int \<Rightarrow> real" where
  "cell_y c v row = headerHeight c + of_int row * CELL_SIZE - vw_scrollY v"

text \<open>The left edge of each extra column; these, the numbers of the rows and their headers do not scroll to the
  side.\<close>

fun extra_edges :: "real \<Rightarrow> ExtraColumn list \<Rightarrow> (ExtraColumn \<times> real) list" where
  "extra_edges exOff [] = []"
| "extra_edges exOff (ec # ecs) = (ec, ROW_LABEL_WIDTH + exOff) # extra_edges (exOff + extra_width ec) ecs"

text \<open>The extra column at a coordinate.\<close>

fun extra_at :: "real \<Rightarrow> real \<Rightarrow> ExtraColumn list \<Rightarrow> ExtraColumn option" where
  "extra_at mx exOff [] = None"
| "extra_at mx exOff (ec # ecs) =
     (if mx \<ge> ROW_LABEL_WIDTH + exOff \<and> mx < ROW_LABEL_WIDTH + exOff + extra_width ec then Some ec
      else extra_at mx (exOff + extra_width ec) ecs)"

datatype canvas_click = SortBy string | OpenTest int | NoClick

definition canvas_handleClick :: "canvas \<Rightarrow> viewport \<Rightarrow> real \<Rightarrow> real \<Rightarrow> canvas_click" where
  "canvas_handleClick c v px py =
     (let mx = px + vw_scrollX v
      in if py \<le> headerHeight c
         then (if mx < ROW_LABEL_WIDTH then SortBy ''#''
               else if cv_extra c \<noteq> [] \<and> mx \<ge> ROW_LABEL_WIDTH \<and> mx < leftWidth c
               then (case extra_at mx 0 (cv_extra c) of Some ec \<Rightarrow> SortBy (ec_name ec) | None \<Rightarrow> NoClick)
               else let col = \<lfloor>(mx - leftWidth c) / CELL_SIZE\<rfloor>
                    in if col \<ge> 0 \<and> col < int (length (cv_columns c)) then SortBy (cv_columns c ! nat col) else NoClick)
         else let my = py + vw_scrollY v; row = \<lfloor>(my - headerHeight c) / CELL_SIZE\<rfloor>
              in if row \<ge> 0 \<and> row < int (length (cv_tests c)) then OpenTest (int (snd (cv_tests c ! nat row)) + 1) else NoClick)"

text \<open>The tooltip: its lines, bold or not, and the name of the test.\<close>

record canvas_tip =
  cp_lines :: "(string \<times> bool) list"
  cp_name :: "string option"

definition test_line :: "heat_test \<Rightarrow> string \<times> bool" where
  "test_line t = (''Test #'' @ nat_str (snd t + 1), False)"

definition span_at :: "CategorySpan list \<Rightarrow> int \<Rightarrow> CategorySpan option" where
  "span_at spans col = find (\<lambda>s. col \<ge> int (cs_startCol s) \<and> col < int (cs_startCol s + cs_count s)) spans"

definition sub_at :: "CategorySpan list \<Rightarrow> int \<Rightarrow> (CategorySpan \<times> SubcategorySpan) option" where
  "sub_at spans col =
     find (\<lambda>(s, b). col \<ge> int (ss_startCol b) \<and> col < int (ss_startCol b + ss_count b))
       (concat (map (\<lambda>s. map (Pair s) (span_subs s)) spans))"

definition bold_tip :: "string \<Rightarrow> canvas_tip" where
  "bold_tip t = \<lparr>cp_lines = [(t, True)], cp_name = None\<rparr>"

text \<open>The cell under the pointer that is outlined, and the tooltip.\<close>

definition handleMouseMove ::
  "(real \<Rightarrow> string) \<Rightarrow> (real \<Rightarrow> string) \<Rightarrow> (SuiteTest \<Rightarrow> string \<Rightarrow> real) \<Rightarrow> canvas \<Rightarrow> viewport \<Rightarrow> real \<Rightarrow> real \<Rightarrow>
   (int \<times> int) option \<times> canvas_tip option" where
  "handleMouseMove num locale_num counts c v px py =
     (let mx = px + vw_scrollX v; my = py + vw_scrollY v;
          col = \<lfloor>(mx - leftWidth c) / CELL_SIZE\<rfloor>; row = \<lfloor>(my - headerHeight c) / CELL_SIZE\<rfloor>;
          in_extra = (cv_extra c \<noteq> [] \<and> mx \<ge> ROW_LABEL_WIDTH \<and> mx < leftWidth c)
      in if in_extra \<and> py > headerHeight c
         then (None,
               case extra_at mx 0 (cv_extra c) of
                 None \<Rightarrow> None
               | Some ec \<Rightarrow>
                   if row \<ge> 0 \<and> row < int (length (cv_tests c))
                   then let t = cv_tests c ! nat row
                        in (case ec_getValue ec (snd t) of
                              None \<Rightarrow> None
                            | Some val \<Rightarrow>
                                Some \<lparr>cp_lines = [test_line t,
                                        (ec_name ec @ '': '' @ (case ec_format ec of Some f \<Rightarrow> f val | None \<Rightarrow> num val), True)],
                                      cp_name = Some (tt_name (fst t))\<rparr>)
                   else None)
         else if in_extra
         then (None, map_option (\<lambda>ec. bold_tip (ec_name ec)) (extra_at mx 0 (cv_extra c)))
         else if cv_expanded c \<and> py < headerHeight c \<and> py < ROW_HEIGHT * 2 \<and> mx \<ge> leftWidth c
         then (None,
               if py < ROW_HEIGHT then map_option (\<lambda>s. bold_tip (cs_name s)) (span_at (cv_spans c) col)
               else map_option (\<lambda>(s, b). bold_tip (cs_name s @ '' / '' @ ss_name b)) (sub_at (cv_spans c) col))
         else if col \<ge> 0 \<and> col < int (length (cv_columns c)) \<and> row \<ge> 0 \<and> row < int (length (cv_tests c))
         then (Some (row, col),
               let t = cv_tests c ! nat row; colName = cv_columns c ! nat col; n = counts (fst t) colName
               in if n > 0 then Some \<lparr>cp_lines = [test_line t, (colName @ '': '' @ locale_num n, True)],
                                      cp_name = Some (tt_name (fst t))\<rparr>
                  else None)
         else (None, None))"

text \<open>The heat map of a suite as the canvas shows it.\<close>

definition opcode_canvas :: "ExtraColumn list \<Rightarrow> opcode_heatmap \<Rightarrow> string \<Rightarrow> SuiteTest list \<Rightarrow> canvas" where
  "opcode_canvas extra s search tests =
     (let withOpcodes = testsWithOpcodes tests;
          grouped = getGroupedOpcodes (allOpcodes withOpcodes);
          (columns, spans) = stackGrouped (om_groupStack s) grouped;
          kept = opcode_filteredTests search withOpcodes
      in \<lparr>cv_tests = opcode_sortedTests (getCount True (om_groupStack s) grouped) extra s kept, cv_columns = columns,
          cv_expanded = True, cv_spans = spans, cv_extra = extra\<rparr>)"
section \<open>Lemmas\<close>

subsection \<open>Columns\<close>

text \<open>A category with subcategories is divided by them.\<close>

definition divided :: "CategorySpan \<Rightarrow> bool" where
  "divided sp \<longleftrightarrow> span_subs sp = [] \<or> concat (map ss_opcodes (span_subs sp)) = cs_opcodes sp"

definition sub_names :: "CategorySpan list \<Rightarrow> string list" where
  "sub_names spans = map ss_name (concat (map span_subs spans))"

definition category_subs :: "OpcodeCategory \<Rightarrow> OpcodeSubcategory list" where
  "category_subs c = (case c of FlatCat n ops \<Rightarrow> [] | SubCat n subs \<Rightarrow> subs)"

lemma add_sub_names:
  "fold (add_sub P) subs (columns, spans, cat) = (columns', spans', cat') \<Longrightarrow>
   map ss_name spans' = map ss_name spans @ map sc_name (filter (\<lambda>s. filter (\<lambda>op. op \<in> P) (sc_opcodes s) \<noteq> []) subs)"
proof (induction subs arbitrary: columns spans cat)
  case (Cons s subs)
  then show ?case
  proof (cases "filter (\<lambda>op. op \<in> P) (sc_opcodes s) = []")
    case True
    then have "add_sub P s (columns, spans, cat) = (columns, spans, cat)" by (simp add: add_sub_def)
    then show ?thesis using Cons True by simp
  next
    case False
    obtain c1 s1 k1 where st: "add_sub P s (columns, spans, cat) = (c1, s1, k1)" by (metis prod_cases3)
    have "map ss_name s1 = map ss_name spans @ [sc_name s]"
      using st False unfolding add_sub_def Let_def prod.case by (auto split: if_splits)
    then show ?thesis using Cons.IH [of c1 s1 k1] Cons.prems st False by simp
  qed
qed simp

lemma add_category_subs:
  assumes "add_category P c (columns, spans, cat) = (columns', spans', cat')" "list_all divided spans"
  shows "list_all divided spans' \<and> sub_names spans' =
    sub_names spans @ map sc_name (filter (\<lambda>s. filter (\<lambda>op. op \<in> P) (sc_opcodes s) \<noteq> []) (category_subs c))"
proof (cases c)
  case (FlatCat n ops)
  then show ?thesis using assms
    by (auto simp: Let_def sub_names_def category_subs_def divided_def span_subs_def split: if_splits)
next
  case (SubCat n subs)
  obtain c1 s1 k1 where sub: "fold (add_sub P) subs (columns, [], cat) = (c1, s1, k1)" by (metis prod_cases3)
  have names: "map ss_name s1 = map sc_name (filter (\<lambda>s. filter (\<lambda>op. op \<in> P) (sc_opcodes s) \<noteq> []) subs)"
    using add_sub_names [OF sub] by simp
  have "spans' = (if s1 \<noteq> [] then spans @ [\<lparr>cs_name = n, cs_opcodes = concat (map ss_opcodes s1),
      cs_startCol = length columns, cs_count = length (concat (map ss_opcodes s1)), cs_subcategories = Some s1\<rparr>] else spans)"
    using assms(1) SubCat sub by (auto simp: Let_def)
  then show ?thesis
    using assms(2) names SubCat by (auto simp: sub_names_def category_subs_def divided_def span_subs_def)
qed

lemma fold_categories_subs:
  "fold (add_category P) cats (columns, spans, cat) = (columns', spans', cat') \<Longrightarrow> list_all divided spans \<Longrightarrow>
   list_all divided spans' \<and> sub_names spans' =
     sub_names spans @ map sc_name (filter (\<lambda>s. filter (\<lambda>op. op \<in> P) (sc_opcodes s) \<noteq> []) (concat (map category_subs cats)))"
proof (induction cats arbitrary: columns spans cat)
  case (Cons c cats)
  obtain c1 s1 k1 where st: "add_category P c (columns, spans, cat) = (c1, s1, k1)" by (metis prod_cases3)
  note a = add_category_subs [OF st Cons.prems(2)]
  show ?case using Cons.IH [of c1 s1 k1] Cons.prems(1) st a by simp
qed simp

definition STACK_NAMES :: "string list" where
  "STACK_NAMES = [''Pop'', ''Push'', ''Dup'', ''Swap'']"

lemma grouped_subs:
  assumes "g = getGroupedOpcodes present"
  shows "list_all divided (gr_categorySpans g)" "distinct (sub_names (gr_categorySpans g))"
    "set (sub_names (gr_categorySpans g)) \<subseteq> set STACK_NAMES"
proof -
  obtain cols spans cat where st: "fold (add_category (set present)) OPCODE_CATEGORIES ([], [], []) = (cols, spans, cat)"
    by (metis prod_cases3)
  define cat_subs where "cat_subs = concat (map category_subs OPCODE_CATEGORIES)"
  define kept where "kept = filter (\<lambda>s. filter (\<lambda>op. op \<in> set present) (sc_opcodes s) \<noteq> []) cat_subs"
  have all: "map sc_name cat_subs = STACK_NAMES"
    by (simp add: cat_subs_def OPCODE_CATEGORIES_def category_subs_def STACK_NAMES_def)
  have "list_all divided spans \<and> sub_names spans = map sc_name kept"
    using fold_categories_subs [OF st] by (simp add: sub_names_def kept_def cat_subs_def)
  moreover have "distinct (map sc_name cat_subs)" unfolding all by (simp add: STACK_NAMES_def)
  then have "distinct (map sc_name kept)" unfolding kept_def by (rule distinct_map_filter)
  moreover have "set (map sc_name kept) \<subseteq> set (map sc_name cat_subs)" by (auto simp: kept_def)
  ultimately have spans: "list_all divided spans" "distinct (sub_names spans)" "set (sub_names spans) \<subseteq> set STACK_NAMES"
    unfolding all by simp_all
  have "gr_categorySpans g = spans \<or>
      (\<exists>sp. gr_categorySpans g = spans @ [sp] \<and> cs_subcategories sp = None)"
    unfolding assms getGroupedOpcodes_def st Let_def prod.case by auto
  then have "list_all divided (gr_categorySpans g) \<and> sub_names (gr_categorySpans g) = sub_names spans"
    using spans(1) by (auto simp: sub_names_def divided_def span_subs_def)
  then show "list_all divided (gr_categorySpans g)" "distinct (sub_names (gr_categorySpans g))"
    "set (sub_names (gr_categorySpans g)) \<subseteq> set STACK_NAMES" using spans by simp_all
qed

text \<open>The columns with the stack grouped, and what the maps of names give.\<close>

definition stack_columns :: "CategorySpan \<Rightarrow> string list" where
  "stack_columns sp = (if span_subs sp \<noteq> [] then map ss_name (span_subs sp) else cs_opcodes sp)"

lemma fold_stack_span:
  "fst (fold stack_span spans (columns, done_spans)) = columns @ concat (map stack_columns spans)"
  by (induction spans arbitrary: columns done_spans) (simp_all add: stack_span_def stack_columns_def Let_def)

lemma sub_map:
  assumes "distinct (sub_names (gr_categorySpans g))"
  shows "map_of (subCategoryOpcodeMap g) =
    map_of (map (\<lambda>b. (ss_name b, ss_opcodes b)) (concat (map span_subs (gr_categorySpans g))))"
proof -
  let ?kvs = "map (\<lambda>b. (ss_name b, ss_opcodes b)) (concat (map span_subs (gr_categorySpans g)))"
  have flat: "fold (\<lambda>sp. fold (\<lambda>sub. map_set (ss_name sub) (ss_opcodes sub)) (span_subs sp)) sps m =
      fold (\<lambda>(k, v). map_set k v) (map (\<lambda>b. (ss_name b, ss_opcodes b)) (concat (map span_subs sps))) m" for sps m
    by (induction sps arbitrary: m) (simp_all add: fold_map comp_def)
  have "distinct (map fst ?kvs)" using assms by (simp add: sub_names_def comp_def)
  then show ?thesis
    unfolding subCategoryOpcodeMap_def flat using jm.get_puts [of ?kvs "[]"] map_of_rev_distinct [of ?kvs]
    by (simp del: map_map)
qed

lemma total_of_sum: "total_of counts ops = (\<Sum>op\<leftarrow>ops. count_of counts op)"
proof -
  have "fold (\<lambda>op total. total + count_of counts op) ops a = a + (\<Sum>op\<leftarrow>ops. count_of counts op)" for a
    by (induction ops arbitrary: a) simp_all
  then show ?thesis by (simp add: total_of_def)
qed

text \<open>The counts of a test, added up over the columns of a category, are those of its opcodes.\<close>

lemma span_total:
  assumes "getOpcodeCount t = Some counts" "distinct (sub_names (gr_categorySpans g))" "list_all divided (gr_categorySpans g)"
    and "sp \<in> set (gr_categorySpans g)" "set (cs_opcodes sp) \<inter> set (sub_names (gr_categorySpans g)) = {}"
  shows "(\<Sum>col\<leftarrow>stack_columns sp. getCount True True g t col) = (\<Sum>op\<leftarrow>cs_opcodes sp. count_of counts op)"
proof -
  let ?subs = "concat (map span_subs (gr_categorySpans g))"
  have keys: "distinct (map fst (map (\<lambda>b. (ss_name b, ss_opcodes b)) ?subs))"
    using assms(2) by (simp add: sub_names_def comp_def)
  have named: "getCount True True g t (ss_name b) = (\<Sum>op\<leftarrow>ss_opcodes b. count_of counts op)" if "b \<in> set (span_subs sp)" for b
  proof -
    have "(ss_name b, ss_opcodes b) \<in> set (map (\<lambda>b. (ss_name b, ss_opcodes b)) ?subs)" using that assms(4) by auto
    then have "map_of (subCategoryOpcodeMap g) (ss_name b) = Some (ss_opcodes b)"
      unfolding sub_map [OF assms(2)] using keys by (simp del: map_map)
    then show ?thesis by (simp add: getCount_def assms(1) total_of_sum)
  qed
  have plain: "getCount True True g t op = count_of counts op" if "op \<in> set (cs_opcodes sp)" for op
  proof -
    have "op \<notin> fst ` set (map (\<lambda>b. (ss_name b, ss_opcodes b)) ?subs)" using that assms(5) by (force simp: sub_names_def)
    then have "map_of (subCategoryOpcodeMap g) op = None" unfolding sub_map [OF assms(2)] by (rule map_of_eq_None_iff [THEN iffD2])
    then show ?thesis by (simp add: getCount_def assms(1))
  qed
  show ?thesis
  proof (cases "span_subs sp = []")
    case True
    then show ?thesis using plain by (simp add: stack_columns_def cong: map_cong)
  next
    case False
    have sums: "(\<Sum>b\<leftarrow>bs. \<Sum>op\<leftarrow>ss_opcodes b. count_of counts op) =
        (\<Sum>op\<leftarrow>concat (map ss_opcodes bs). count_of counts op)" for bs
      by (induction bs) simp_all
    have "concat (map ss_opcodes (span_subs sp)) = cs_opcodes sp"
      using assms(3,4) False by (auto simp: list_all_iff divided_def)
    then show ?thesis using False named sums [of "span_subs sp"]
      by (simp only: stack_columns_def if_True not_False_eq_True map_map comp_def cong: map_cong)
  qed
qed

lemma sum_counts:
  assumes "distinct (map fst counts)" "fst ` set counts \<subseteq> set ops" "distinct ops"
  shows "(\<Sum>op\<leftarrow>ops. count_of counts op) = (\<Sum>c\<leftarrow>counts. snd c)"
proof -
  have zero: "count_of counts op = 0" if "op \<notin> fst ` set counts" for op
    using map_of_eq_None_iff [THEN iffD2, OF that] by (simp add: count_of_def)
  have "(\<Sum>op\<leftarrow>ops. count_of counts op) = (\<Sum>op \<in> set ops. count_of counts op)"
    using assms(3) by (simp add: sum_list_distinct_conv_sum_set)
  also have "\<dots> = (\<Sum>op \<in> fst ` set counts. count_of counts op)"
    using assms(2) by (intro sum.mono_neutral_right) (simp_all add: zero)
  also have "\<dots> = (\<Sum>op\<leftarrow>map fst counts. count_of counts op)"
    using sum_list_distinct_conv_sum_set [OF assms(1), of "count_of counts"] by (simp only: set_map)
  also have "\<dots> = (\<Sum>c\<leftarrow>counts. snd c)"
    unfolding map_map comp_def using map_of_is_SomeI [OF assms(1)]
    by (intro arg_cong [where f = sum_list] map_cong HOL.refl) (auto simp: count_of_def split: option.split)
  finally show ?thesis .
qed

definition opcode_keys :: "SuiteTest \<Rightarrow> string list" where
  "opcode_keys t = (case getOpcodeCount t of None \<Rightarrow> [] | Some c \<Rightarrow> map fst c)"

lemma in_allOpcodes:
  "set (allOpcodes ts) = (\<Union>p \<in> set ts. set (opcode_keys (fst p)))" "distinct (allOpcodes ts)"
proof -
  have step: "(\<lambda>(t, i) acc. case getOpcodeCount t of None \<Rightarrow> acc | Some c \<Rightarrow> fold set_add (map fst c) acc) =
      (\<lambda>p. fold set_add (opcode_keys (fst p)))"
    by (intro ext) (simp add: opcode_keys_def case_prod_unfold split: option.split)
  have flat: "fold (\<lambda>p. fold set_add (opcode_keys (fst p))) xs acc = fold set_add (concat (map (\<lambda>p. opcode_keys (fst p)) xs)) acc" for xs acc
    by (induction xs arbitrary: acc) simp_all
  have all: "allOpcodes ts = fold set_add (concat (map (\<lambda>p. opcode_keys (fst p)) ts)) []"
    unfolding allOpcodes_def step by (rule flat)
  show "set (allOpcodes ts) = (\<Union>p \<in> set ts. set (opcode_keys (fst p)))" "distinct (allOpcodes ts)"
    unfolding all by (simp_all add: set_fold_add distinct_fold_add)
qed

text \<open>C38: The columns of the opcode heat map leave nothing out and count nothing twice. With the stack opcodes
  grouped or not, the counts in the row of a test add up to the number of opcodes the test executes, provided
  no opcode has the name of one of the four groups.\<close>

theorem opcode_counts_conserved:
  assumes "ts = testsWithOpcodes tests" "(t, i) \<in> set ts" "getOpcodeCount t = Some counts" "distinct (map fst counts)"
    and "set (allOpcodes ts) \<inter> {''Pop'', ''Push'', ''Dup'', ''Swap''} = {}"
    and "g = getGroupedOpcodes (allOpcodes ts)" "columns = fst (stackGrouped groupStack g)"
  shows "(\<Sum>col\<leftarrow>columns. getCount True groupStack g t col) = (\<Sum>c\<leftarrow>counts. snd c)"
proof -
  note subs = grouped_subs [OF assms(6)] and sound = grouped_opcodes_sound [OF in_allOpcodes(2) assms(6)]
  have keys: "fst ` set counts \<subseteq> set (allOpcodes ts)"
  proof
    fix op assume "op \<in> fst ` set counts"
    then show "op \<in> set (allOpcodes ts)"
      using assms(2,3) unfolding in_allOpcodes(1) by (intro UN_I [of "(t, i)"]) (simp_all add: opcode_keys_def)
  qed
  have perm: "mset (gr_columns g) = mset (allOpcodes ts)" using sound by blast
  have "set (gr_columns g) = set (allOpcodes ts)" "distinct (gr_columns g)"
    using perm in_allOpcodes(2) by (metis set_mset_mset, metis mset_eq_imp_distinct_iff)
  then have total: "(\<Sum>op\<leftarrow>gr_columns g. count_of counts op) = (\<Sum>c\<leftarrow>counts. snd c)"
    using sum_counts [OF assms(4), of "gr_columns g"] keys by simp
  have tiled: "concat (map cs_opcodes (gr_categorySpans g)) = gr_columns g" using sound by (simp add: tiles_def)
  have fresh: "set (cs_opcodes sp) \<inter> set (sub_names (gr_categorySpans g)) = {}" if "sp \<in> set (gr_categorySpans g)" for sp
  proof -
    have "set (cs_opcodes sp) \<subseteq> set (allOpcodes ts)"
      using that \<open>set (gr_columns g) = set (allOpcodes ts)\<close> by (auto simp flip: tiled)
    then show ?thesis using subs(3) assms(5) by (auto simp: STACK_NAMES_def)
  qed
  show ?thesis
  proof (cases groupStack)
    case True
    have "(\<Sum>col\<leftarrow>concat (map stack_columns sps). getCount True True g t col) =
        (\<Sum>op\<leftarrow>concat (map cs_opcodes sps). count_of counts op)" if "set sps \<subseteq> set (gr_categorySpans g)" for sps
      using that span_total [OF assms(3) subs(2,1) _ fresh] by (induction sps) simp_all
    from this [OF order.refl] show ?thesis
      using True fold_stack_span [of "gr_categorySpans g" "[]" "[]"] total tiled by (simp add: assms(7) stackGrouped_def)
  next
    case False
    then show ?thesis using total by (simp add: assms(3,7) stackGrouped_def getCount_def)
  qed
qed
subsection \<open>Colours\<close>

lemma color_index_mono: "0 \<le> r \<Longrightarrow> r \<le> r' \<Longrightarrow> getColorIndex r \<le> getColorIndex r'"
  by (simp add: getColorIndex_def)

lemma log_ratio_mono: "0 < n \<Longrightarrow> n \<le> n' \<Longrightarrow> 0 < m \<Longrightarrow> logRatio n m \<le> logRatio n' m"
  by (simp add: logRatio_def divide_right_mono)

lemma log_ratio_pos: "0 < n \<Longrightarrow> 0 < m \<Longrightarrow> 0 < logRatio n m"
  by (simp add: logRatio_def)

lemma max_count_upper: "(t, i) \<in> set ts \<Longrightarrow> counts t col \<le> max_count counts ts col" "0 \<le> max_count counts ts col"
proof -
  have "a \<le> fold (\<lambda>(t, i) m. if counts t col > m then counts t col else m) xs a \<and>
      (\<forall>(t, i) \<in> set xs. counts t col \<le> fold (\<lambda>(t, i) m. if counts t col > m then counts t col else m) xs a)" for a xs
  proof (induction xs arbitrary: a)
    case (Cons x xs)
    show ?case using Cons.IH [of "if counts (fst x) col > a then counts (fst x) col else a"]
      by (auto simp: case_prod_unfold split: if_splits)
  qed simp
  then show "(t, i) \<in> set ts \<Longrightarrow> counts t col \<le> max_count counts ts col" "0 \<le> max_count counts ts col"
    unfolding max_count_def by fastforce+
qed

lemma max_per_column: "col \<in> set columns \<Longrightarrow> map_of (maxPerColumn counts ts columns) col = Some (max_count counts ts col)"
proof -
  have "map_of (fold (\<lambda>col. obj_set col (max_count counts ts col)) cols m) col =
      (if col \<in> set cols then Some (max_count counts ts col) else map_of m col)" for cols m
    by (induction cols arbitrary: m) (auto simp: jo.get_put)
  then show "col \<in> set columns \<Longrightarrow> map_of (maxPerColumn counts ts columns) col = Some (max_count counts ts col)"
    by (simp add: maxPerColumn_def)
qed

lemma concat_rows_nth:
  "(\<forall>r \<in> set rows. length r = n) \<Longrightarrow> i < length rows \<Longrightarrow> j < n \<Longrightarrow> concat rows ! (i * n + j) = rows ! i ! j"
proof (induction rows arbitrary: i)
  case (Cons r rows)
  then show ?case
  proof (cases i)
    case (Suc k)
    have "concat (r # rows) ! (i * n + j) = concat rows ! (k * n + j)"
      using Cons.prems(1) by (simp add: Suc nth_append)
    then show ?thesis using Cons Suc by simp
  qed (simp add: nth_append)
qed simp

text \<open>C39: The colours of the opcode heat map rank the tests of a column. A cell is blank exactly when the test does
  not execute the opcode; a test that executes it more often never has a paler colour, and the largest count
  of the column has the darkest one. The grid holds at the position that is drawn the colour of that cell.\<close>

theorem opcode_cells_rank:
  assumes "maxes = maxPerColumn counts ts columns" "col < length columns" "row < length ts" "row' < length ts"
    and "n = counts (fst (ts ! row)) (columns ! col)" "n' = counts (fst (ts ! row')) (columns ! col)"
    and "colour = (\<lambda>r. colorGrid counts maxes ts columns ! (r * length columns + col))"
  shows "(colour row = 0 \<longleftrightarrow> n \<le> 0) \<and> (n \<le> n' \<longrightarrow> colour row \<le> colour row') \<and>
    (0 < n \<and> n = max_count counts ts (columns ! col) \<longrightarrow> colour row = 8) \<and> colour row \<le> 8"
proof -
  let ?m = "max_count counts ts (columns ! col)"
  have cell: "colour r = getColorIndex (logRatio (counts (fst (ts ! r)) (columns ! col)) ?m)" if "r < length ts" for r
  proof -
    have "colour r = map (\<lambda>(t, i). map (cell_index counts maxes t) columns) ts ! r ! col"
      unfolding assms(7) colorGrid_def by (rule concat_rows_nth) (use that assms(2) in auto)
    also have "\<dots> = cell_index counts maxes (fst (ts ! r)) (columns ! col)"
      using that assms(2) by (simp add: case_prod_unfold)
    finally show ?thesis using assms(2) by (simp add: cell_index_def assms(1) max_per_column)
  qed
  have upper: "n \<le> ?m" "n' \<le> ?m"
    using max_count_upper(1) [of "fst (ts ! row)" "snd (ts ! row)" ts] max_count_upper(1) [of "fst (ts ! row')" "snd (ts ! row')" ts]
      assms(3-6) by simp_all
  have zero: "colour row = 0 \<longleftrightarrow> n \<le> 0"
    using upper(1) log_ratio_pos [of n ?m] unfolding cell [OF assms(3)] assms(5) [symmetric]
    by (cases "n \<le> 0") (auto simp: getColorIndex_def logRatio_def)
  have mono: "colour row \<le> colour row'" if "n \<le> n'"
  proof (cases "n \<le> 0")
    case True
    then show ?thesis using zero by simp
  next
    case False
    then show ?thesis
      using that upper log_ratio_mono [of n n' ?m] log_ratio_pos [of n ?m]
      unfolding cell [OF assms(3)] cell [OF assms(4)] assms(5,6) [symmetric] by (intro color_index_mono) simp_all
  qed
  have "colour row = 8" if "0 < n" "n = ?m"
    using that unfolding cell [OF assms(3)] assms(5) [symmetric] by (simp add: logRatio_def getColorIndex_def)
  moreover have "colour row \<le> 8" unfolding cell [OF assms(3)] by (simp add: getColorIndex_def)
  ultimately show ?thesis using zero mono by blast
qed

subsection \<open>Order\<close>

lemma column_value_cases: "(\<exists>x. column_value counts extra col a = Fin x) \<or> column_value counts extra col a = NegInf"
  by (auto simp: column_value_def split: option.split)

lemma sub_signs:
  assumes "a \<in> range Fin \<union> {NegInf}" "b \<in> range Fin \<union> {NegInf}"
  shows "\<not> is_pos (num_sub a b) \<longleftrightarrow> num_le a b" "is_neg (num_sub a b) \<longleftrightarrow> is_pos (num_sub b a)"
  using assms by (auto simp: num_sub_def)

interpretation opcode_order: comparator "opcode_cmp_by counts extra col dir" for counts extra col dir
proof
  have range: "column_value counts extra col a \<in> range Fin \<union> {NegInf}" for a
    using column_value_cases [of counts extra col a] by auto
  show "is_neg (opcode_cmp_by counts extra col dir a b) \<longleftrightarrow> is_pos (opcode_cmp_by counts extra col dir b a)" for a b
    using sub_signs(2) [OF range range] by (simp add: opcode_cmp_by_def)
  have "num_le x z" if "num_le x y" "num_le y z" for x y z
    using that by (cases x; cases y; cases z) auto
  then show "\<not> is_pos (opcode_cmp_by counts extra col dir a b) \<Longrightarrow> \<not> is_pos (opcode_cmp_by counts extra col dir b c) \<Longrightarrow>
      \<not> is_pos (opcode_cmp_by counts extra col dir a c)" for a b c
    using sub_signs(1) [OF range range] by (auto simp: opcode_cmp_by_def split: if_splits)
qed

lemma opcode_cmp_le:
  "\<not> is_pos (opcode_cmp_by counts extra col dir a b) \<longleftrightarrow>
   (if dir = Descending then num_le (column_value counts extra col b) (column_value counts extra col a)
    else num_le (column_value counts extra col a) (column_value counts extra col b))"
proof -
  have range: "column_value counts extra col a \<in> range Fin \<union> {NegInf}" for a
    using column_value_cases [of counts extra col a] by auto
  show ?thesis using sub_signs(1) [OF range range] by (simp add: opcode_cmp_by_def)
qed

lemma opcode_tied: "opcode_order.tied counts extra col dir a b \<longleftrightarrow> column_value counts extra col a = column_value counts extra col b"
proof -
  have "num_le x y \<and> num_le y x \<longleftrightarrow> x = y" if "x \<in> range Fin \<union> {NegInf}" "y \<in> range Fin \<union> {NegInf}" for x y
    using that by auto
  moreover have "column_value counts extra col c \<in> range Fin \<union> {NegInf}" for c
    using column_value_cases [of counts extra col c] by auto
  ultimately show ?thesis unfolding opcode_order.tied_def opcode_cmp_le by metis
qed

text \<open>The rows of the opcode heat map. Without an order they are the tests that the search keeps in the order of
  the suite. A click on a header sorts downwards by its column, a second click upwards, a third one restores
  the order of the suite; rows with the same value stay in the order of the suite, and tests without a value
  of an extra column stand at the lower end.\<close>

theorem opcode_rows_sorted:
  assumes "om_sortCol s \<noteq> Some col" "col \<noteq> []"
    and "s1 = opcode_handleSortChange col s" "s2 = opcode_handleSortChange col s1" "s3 = opcode_handleSortChange col s2"
    and "rows = (\<lambda>s. opcode_sortedTests counts extra s kept)" "v = column_value counts extra col"
  shows "mset (rows s1) = mset kept \<and> sorted_wrt (\<lambda>a b. num_le (v b) (v a)) (rows s1) \<and>
    mset (rows s2) = mset kept \<and> sorted_wrt (\<lambda>a b. num_le (v a) (v b)) (rows s2) \<and>
    (\<forall>x. filter (\<lambda>a. v a = x) (rows s1) = filter (\<lambda>a. v a = x) kept \<and>
         filter (\<lambda>a. v a = x) (rows s2) = filter (\<lambda>a. v a = x) kept) \<and>
    om_sortCol s3 = None \<and> rows s3 = kept"
proof -
  have r1: "rows s1 = js_sort (opcode_cmp_by counts extra col Descending) kept"
    and r2: "rows s2 = js_sort (opcode_cmp_by counts extra col Ascending) kept"
    and s3: "om_sortCol s3 = None" "rows s3 = kept"
    using assms(1,2) by (cases col; simp add: assms(3-6) opcode_handleSortChange_def opcode_sortedTests_def)+
  have stable: "filter (\<lambda>a. v a = x) (js_sort (opcode_cmp_by counts extra col dir) kept) = filter (\<lambda>a. v a = x) kept" for x dir
  proof (cases "\<exists>a \<in> set kept. v a = x")
    case True
    then obtain a where "v a = x" by blast
    then have "opcode_order.tied counts extra col dir a = (\<lambda>b. v b = x)" by (auto simp: opcode_tied assms(7))
    then show ?thesis using opcode_order.stable_js_sort [of counts extra col dir a kept] by simp
  next
    case False
    then have "filter (\<lambda>a. v a = x) kept = []" "filter (\<lambda>a. v a = x) (js_sort (opcode_cmp_by counts extra col dir) kept) = []"
      by (auto simp: filter_empty_conv)
    then show ?thesis by simp
  qed
  show ?thesis
    using opcode_order.sorted_js_sort [of counts extra col Descending kept]
      opcode_order.sorted_js_sort [of counts extra col Ascending kept] s3 stable
    unfolding opcode_cmp_le r1 r2 assms(7) by simp
qed

text \<open>A column of the grouped stack stays chosen when the stack is no longer grouped: no test has a count for it,
  and the rows are in the order of the suite although the caption names the column.\<close>

lemma sorted_column_lost:
  assumes "\<forall>(t, i) \<in> set kept. \<forall>c. getOpcodeCount t = Some c \<longrightarrow> ''Push'' \<notin> fst ` set c" "om_sortCol s = Some ''Push''"
  shows "opcode_sortedTests (getCount True False g) [] s kept = kept"
proof -
  have "getCount True False g t ''Push'' = 0" if "(t, i) \<in> set kept" for t i
    using assms(1) that by (force simp: getCount_def count_of_def map_of_eq_None_iff split: option.split dest: map_of_SomeD)
  then have "\<forall>a \<in> set kept. column_value (getCount True False g) [] ''Push'' a = Fin 0"
    by (auto simp: column_value_def)
  then have "sorted_wrt (\<lambda>a b. \<not> is_pos (opcode_cmp_by (getCount True False g) [] ''Push'' (om_sortDir s) a b)) kept"
    by (intro sorted_wrt_mono_rel [OF _ iffD2 [OF sorted_wrt_iff_nth_less]]) (auto simp: opcode_cmp_le)
  then show ?thesis using opcode_order.js_sort_id by (simp add: opcode_sortedTests_def assms(2))
qed
subsection \<open>Clicks\<close>

lemma heat_tests_numbered: "(t, i) \<in> set (testsWithOpcodes tests) \<Longrightarrow> i < length tests \<and> tests ! i = t"
  by (auto simp: testsWithOpcodes_def in_set_enumerate_eq)

lemma canvas_tests: "set (cv_tests (opcode_canvas extra s search tests)) \<subseteq> set (testsWithOpcodes tests)"
  by (auto simp: opcode_canvas_def Let_def case_prod_unfold opcode_sortedTests_def opcode_filteredTests_def
      split: option.splits list.splits if_splits)

lemma extra_widths: "fold (\<lambda>ec sum. sum + extra_width ec) ecs a = a + (\<Sum>ec\<leftarrow>ecs. extra_width ec)"
  by (induction ecs arbitrary: a) simp_all

lemma widths_nonneg: "\<forall>ec \<in> set ecs. 0 \<le> extra_width ec \<Longrightarrow> 0 \<le> (\<Sum>ec\<leftarrow>ecs. extra_width ec)"
  by (induction ecs) simp_all

lemma left_width_ge: "\<forall>ec \<in> set (cv_extra c). 0 \<le> extra_width ec \<Longrightarrow> ROW_LABEL_WIDTH \<le> leftWidth c"
  by (simp add: leftWidth_def extra_widths widths_nonneg)

lemma edges_in:
  "\<forall>ec \<in> set ecs. 0 \<le> extra_width ec \<Longrightarrow> (ec, x) \<in> set (extra_edges off ecs) \<Longrightarrow>
   ROW_LABEL_WIDTH + off \<le> x \<and> x + extra_width ec \<le> ROW_LABEL_WIDTH + off + (\<Sum>ec\<leftarrow>ecs. extra_width ec)"
proof (induction ecs arbitrary: off)
  case (Cons e ecs)
  have "0 \<le> (\<Sum>ec\<leftarrow>ecs. extra_width ec)" "0 \<le> extra_width e" using Cons.prems(1) widths_nonneg by simp_all
  then show ?case using Cons.IH [of "off + extra_width e"] Cons.prems by fastforce
qed simp

lemma extra_at_edge:
  "\<forall>ec \<in> set ecs. 0 \<le> extra_width ec \<Longrightarrow> (ec, x) \<in> set (extra_edges off ecs) \<Longrightarrow> x \<le> mx \<Longrightarrow> mx < x + extra_width ec \<Longrightarrow>
   extra_at mx off ecs = Some ec"
proof (induction ecs arbitrary: off)
  case (Cons e ecs)
  show ?case
  proof (cases "(ec, x) \<in> set (extra_edges (off + extra_width e) ecs)")
    case True
    then have "ROW_LABEL_WIDTH + (off + extra_width e) \<le> x" using edges_in [of ecs] Cons.prems(1) by simp
    then show ?thesis using Cons True by simp
  next
    case False
    then show ?thesis using Cons.prems by simp
  qed
qed simp

text \<open>The cell of a coordinate.\<close>

lemma floor_cell: "a + of_int k * 16 - s \<le> p \<Longrightarrow> p < a + of_int k * 16 - s + 16 \<Longrightarrow> \<lfloor>(p + s - a) / 16\<rfloor> = k"
  for a s p :: real
  by (rule floor_unique) (simp_all add: field_simps)

lemma ceiling_cell: "x \<le> y \<Longrightarrow> \<lfloor>x / 16\<rfloor> \<le> \<lceil>y / 16\<rceil>" for x y :: real
  by (meson divide_right_mono floor_le_ceiling floor_mono order_trans zero_le_numeral)

lemma row_hit:
  assumes "0 \<le> row" "row < int (length (cv_tests c))" "headerHeight c < py" "cell_y c v row \<le> py"
    "py < cell_y c v row + CELL_SIZE" "py < vw_height v"
  shows "\<lfloor>(py + vw_scrollY v - headerHeight c) / CELL_SIZE\<rfloor> = row" "first_row c v \<le> row" "row \<le> last_row c v"
proof -
  have fl: "\<lfloor>(py + vw_scrollY v - headerHeight c) / 16\<rfloor> = row"
    using assms(4,5) by (intro floor_cell) (simp_all add: cell_y_def CELL_SIZE_def)
  then show "\<lfloor>(py + vw_scrollY v - headerHeight c) / CELL_SIZE\<rfloor> = row" by (simp add: CELL_SIZE_def)
  have "0 \<le> headerHeight c"
    by (simp add: headerHeight_def computeExpandedHeaderHeight_def ROW_HEIGHT_def HEADER_HEIGHT_COLLAPSED_def Let_def)
  then have "\<lfloor>(vw_scrollY v - headerHeight c) / 16\<rfloor> \<le> row" "row \<le> \<lceil>(vw_scrollY v + vw_height v - headerHeight c) / 16\<rceil>"
    unfolding fl [symmetric] using assms(3,6) by (intro floor_mono ceiling_cell; simp)+
  then show "first_row c v \<le> row" "row \<le> last_row c v"
    using assms(1,2) by (simp_all add: first_row_def last_row_def CELL_SIZE_def)
qed

lemma col_hit:
  assumes "0 \<le> col" "col < int (length (cv_columns c))" "leftWidth c \<le> px" "cell_x c v col \<le> px"
    "px < cell_x c v col + CELL_SIZE" "px < vw_width v" "0 \<le> leftWidth c"
  shows "\<lfloor>(px + vw_scrollX v - leftWidth c) / CELL_SIZE\<rfloor> = col" "first_col c v \<le> col" "col \<le> last_col c v"
proof -
  have fl: "\<lfloor>(px + vw_scrollX v - leftWidth c) / 16\<rfloor> = col"
    using assms(4,5) by (intro floor_cell) (simp_all add: cell_x_def CELL_SIZE_def)
  then show "\<lfloor>(px + vw_scrollX v - leftWidth c) / CELL_SIZE\<rfloor> = col" by (simp add: CELL_SIZE_def)
  have "\<lfloor>(vw_scrollX v - leftWidth c) / 16\<rfloor> \<le> col" "col \<le> \<lceil>(vw_scrollX v + vw_width v - leftWidth c) / 16\<rceil>"
    unfolding fl [symmetric] using assms(3,6,7) by (intro floor_mono ceiling_cell; simp)+
  then show "first_col c v \<le> col" "col \<le> last_col c v"
    using assms(1,2) by (simp_all add: first_col_def last_col_def CELL_SIZE_def)
qed

text \<open>A click on a row opens its test on the page of the suite.\<close>

lemma click_row:
  assumes "c = opcode_canvas extra s search tests" "0 \<le> row" "row < int (length (cv_tests c))" "headerHeight c < py"
    and "\<lfloor>(py + vw_scrollY v - headerHeight c) / CELL_SIZE\<rfloor> = row"
  shows "\<exists>i. canvas_handleClick c v px py = OpenTest i \<and>
    selected_item tests (handleDetailChange (Some i) u) = Some (fst (cv_tests c ! nat row))"
proof (intro exI conjI)
  show "canvas_handleClick c v px py = OpenTest (int (snd (cv_tests c ! nat row)) + 1)"
    unfolding canvas_handleClick_def Let_def assms(5) using assms(2-4) by simp
  have "(fst (cv_tests c ! nat row), snd (cv_tests c ! nat row)) \<in> set (testsWithOpcodes tests)"
    using subsetD [OF canvas_tests nth_mem, of "nat row" extra s search tests] assms(1-3) by (simp add: nat_less_iff)
  from heat_tests_numbered [OF this]
  show "selected_item tests (handleDetailChange (Some (int (snd (cv_tests c ! nat row)) + 1)) u) = Some (fst (cv_tests c ! nat row))"
    by (simp add: selected_item_def detail_keeps_list)
qed

text \<open>C40: What the pointer is over, outside the fixed header and the fixed columns at the left, is what is drawn
  there. For a position inside the window: if it lies in the box of a cell, the cell is among those that are drawn
  and is the one that is outlined, and a click on its row opens the test of the row, in every order and with every
  search; if it lies in the header above a column, a click sorts by that column. The fixed headers are right only
  in a window that is not scrolled to the side: there they sort by the numbers and by the extra columns. In a
  scrolled window a click in the header does what the same click, further right by the scrolled distance, does in
  one that is not scrolled, which the column headers need and the fixed headers, drawn without the distance, do
  not: they sort by whatever lies there.\<close>

theorem canvas_hits:
  assumes "c = opcode_canvas extra s search tests" "\<forall>ec \<in> set extra. 0 \<le> extra_width ec"
    and "0 \<le> vw_scrollX v" "px < vw_width v" "py < vw_height v"
  shows "(\<forall>row. 0 \<le> row \<and> row < int (length (cv_tests c)) \<and> headerHeight c < py \<and>
           cell_y c v row \<le> py \<and> py < cell_y c v row + CELL_SIZE \<longrightarrow>
           first_row c v \<le> row \<and> row \<le> last_row c v \<and>
           (\<exists>i. canvas_handleClick c v px py = OpenTest i \<and>
                selected_item tests (handleDetailChange (Some i) u) = Some (fst (cv_tests c ! nat row))) \<and>
           (\<forall>col. 0 \<le> col \<and> col < int (length (cv_columns c)) \<and> leftWidth c \<le> px \<and>
              cell_x c v col \<le> px \<and> px < cell_x c v col + CELL_SIZE \<longrightarrow>
              first_col c v \<le> col \<and> col \<le> last_col c v \<and>
              fst (handleMouseMove num locale_num counts c v px py) = Some (row, col))) \<and>
    (\<forall>col. 0 \<le> col \<and> col < int (length (cv_columns c)) \<and> py \<le> headerHeight c \<and> leftWidth c \<le> px \<and>
       cell_x c v col \<le> px \<and> px < cell_x c v col + CELL_SIZE \<longrightarrow>
       canvas_handleClick c v px py = SortBy (cv_columns c ! nat col)) \<and>
    (vw_scrollX v = 0 \<and> py \<le> headerHeight c \<longrightarrow>
       (px < ROW_LABEL_WIDTH \<longrightarrow> canvas_handleClick c v px py = SortBy ''#'') \<and>
       (\<forall>(ec, x) \<in> set (extra_edges 0 extra). x \<le> px \<and> px < x + extra_width ec \<longrightarrow>
          canvas_handleClick c v px py = SortBy (ec_name ec))) \<and>
    (py \<le> headerHeight c \<longrightarrow> canvas_handleClick c v px py = canvas_handleClick c (v\<lparr>vw_scrollX := 0\<rparr>) (px + vw_scrollX v) py)"
proof -
  have extra: "cv_extra c = extra" by (simp add: assms(1) opcode_canvas_def Let_def case_prod_unfold)
  have left: "50 \<le> leftWidth c" using left_width_ge [of c] assms(2) by (simp add: extra ROW_LABEL_WIDTH_def)
  then have nonneg: "0 \<le> leftWidth c" by simp
  have hover: "fst (handleMouseMove num locale_num counts c v px py) = Some (row, col)"
    if "\<lfloor>(px + vw_scrollX v - leftWidth c) / CELL_SIZE\<rfloor> = col" "\<lfloor>(py + vw_scrollY v - headerHeight c) / CELL_SIZE\<rfloor> = row"
      "0 \<le> row \<and> row < int (length (cv_tests c))" "0 \<le> col \<and> col < int (length (cv_columns c))"
      "headerHeight c < py" "leftWidth c \<le> px" for row col
    using that assms(3) by (simp add: handleMouseMove_def Let_def)
  have column: "canvas_handleClick c v px py = SortBy (cv_columns c ! nat col)"
    if "\<lfloor>(px + vw_scrollX v - leftWidth c) / CELL_SIZE\<rfloor> = col" "0 \<le> col" "col < int (length (cv_columns c))"
      "py \<le> headerHeight c" "leftWidth c \<le> px" for col
    using that assms(3) left by (simp add: canvas_handleClick_def Let_def ROW_LABEL_WIDTH_def)
  have number: "canvas_handleClick c v px py = SortBy ''#''"
    if "vw_scrollX v = 0" "py \<le> headerHeight c" "px < ROW_LABEL_WIDTH"
    using that by (simp add: canvas_handleClick_def)
  have extra_header: "canvas_handleClick c v px py = SortBy (ec_name ec)"
    if "vw_scrollX v = 0" "py \<le> headerHeight c" "(ec, x) \<in> set (extra_edges 0 extra)" "x \<le> px" "px < x + extra_width ec" for ec x
  proof -
    have "ROW_LABEL_WIDTH \<le> x \<and> x + extra_width ec \<le> leftWidth c"
      using edges_in [OF assms(2) that(3)] by (simp add: leftWidth_def extra extra_widths)
    moreover have "extra \<noteq> []" using that(3) by auto
    ultimately show ?thesis
      using that extra_at_edge [OF assms(2) that(3-5)] by (simp add: canvas_handleClick_def extra)
  qed
  note rows = row_hit [OF _ _ _ _ _ assms(5)] and cols = col_hit [OF _ _ _ _ _ assms(4) nonneg]
  show ?thesis
  proof (intro conjI allI impI; (elim conjE)?)
    fix row col
    assume r: "0 \<le> row" "row < int (length (cv_tests c))" "headerHeight c < py" "cell_y c v row \<le> py" "py < cell_y c v row + CELL_SIZE"
    then show "first_row c v \<le> row" "row \<le> last_row c v" by (rule rows)+
    show "\<exists>i. canvas_handleClick c v px py = OpenTest i \<and>
        selected_item tests (handleDetailChange (Some i) u) = Some (fst (cv_tests c ! nat row))"
      using assms(1) r(1-3) rows(1) [OF r] by (rule click_row)
    assume k: "0 \<le> col" "col < int (length (cv_columns c))" "leftWidth c \<le> px" "cell_x c v col \<le> px" "px < cell_x c v col + CELL_SIZE"
    then show "first_col c v \<le> col" "col \<le> last_col c v" by (rule cols)+
    show "fst (handleMouseMove num locale_num counts c v px py) = Some (row, col)"
      using cols(1) [OF k] rows(1) [OF r] r k by (intro hover) simp_all
  next
    fix col assume k: "0 \<le> col" "col < int (length (cv_columns c))" "py \<le> headerHeight c" "leftWidth c \<le> px"
      "cell_x c v col \<le> px" "px < cell_x c v col + CELL_SIZE"
    show "canvas_handleClick c v px py = SortBy (cv_columns c ! nat col)"
      using cols(1) [OF k(1,2,4-6)] k(1-4) by (rule column)
  next
    assume h: "vw_scrollX v = 0" "py \<le> headerHeight c"
    then show "px < ROW_LABEL_WIDTH \<Longrightarrow> canvas_handleClick c v px py = SortBy ''#''" by (rule number)
    show "\<forall>(ec, x) \<in> set (extra_edges 0 extra). x \<le> px \<and> px < x + extra_width ec \<longrightarrow>
        canvas_handleClick c v px py = SortBy (ec_name ec)"
      using extra_header [OF h] by blast
  next
    show "py \<le> headerHeight c \<Longrightarrow>
        canvas_handleClick c v px py = canvas_handleClick c (v\<lparr>vw_scrollX := 0\<rparr>) (px + vw_scrollX v) py"
      by (simp add: canvas_handleClick_def)
  qed
qed

text \<open>The fixed header is hit with the scrolled coordinate: in a scrolled window a click on the label of the numbers
  sorts by the column that is hidden beneath it.\<close>

lemma scrolled_header_sorts_column:
  assumes "cv_extra c = []" "vw_scrollX v = 16 * real k + 50" "k < length (cv_columns c)" "0 \<le> px" "px < 16" "py \<le> headerHeight c"
  shows "canvas_handleClick c v px py = SortBy (cv_columns c ! k)"
proof -
  have "\<lfloor>(px + vw_scrollX v - leftWidth c) / CELL_SIZE\<rfloor> = int k"
    using assms(2,4,5) by (intro floor_unique) (simp_all add: leftWidth_def ROW_LABEL_WIDTH_def CELL_SIZE_def assms(1) field_simps)
  then show ?thesis using assms by (simp add: canvas_handleClick_def Let_def ROW_LABEL_WIDTH_def)
qed
section \<open>Witnesses\<close>

definition counted_test :: "string \<Rightarrow> real js_object \<Rightarrow> SuiteTest" where
  "counted_test name counts =
     \<lparr>tt_name = name, tt_genesis = None, tt_files = \<lparr>st_setup = None, st_test = None, st_cleanup = None\<rparr>, tt_info = None,
      tt_opcode_count = Some counts, tt_payload_sizes = None, tt_tx_counts = None\<rparr>"

definition two_tests :: "SuiteTest list" where
  "two_tests = [counted_test ''a'' [(''ADD'', 2), (''PUSH1'', 3)], counted_test ''b'' [(''ADD'', 5)]]"

lemma two_tests_opcodes:
  "testsWithOpcodes two_tests = [(two_tests ! 0, 0), (two_tests ! Suc 0, Suc 0)]"
  "allOpcodes (testsWithOpcodes two_tests) = [''ADD'', ''PUSH1'']"
  "getOpcodeCount (two_tests ! 0) = Some [(''ADD'', 2), (''PUSH1'', 3)]"
  by (simp_all add: testsWithOpcodes_def two_tests_def counted_test_def getOpcodeCount_def allOpcodes_def set_add_def)

theorem opcode_counts_conserved_witness:
  "(\<Sum>col\<leftarrow>fst (stackGrouped True (getGroupedOpcodes [''ADD'', ''PUSH1''])).
      getCount True True (getGroupedOpcodes [''ADD'', ''PUSH1'']) (two_tests ! 0) col) = 5"
  using opcode_counts_conserved [OF HOL.refl _ two_tests_opcodes(3) _ _ HOL.refl HOL.refl, of 0 two_tests True]
  unfolding two_tests_opcodes(2) by (simp add: two_tests_opcodes(1))

theorem opcode_cells_rank_witness:
  "colorGrid (getCount True False (getGroupedOpcodes [''ADD''])) [(''ADD'', 5)] (testsWithOpcodes two_tests) [''ADD''] ! 1 = 8"
proof -
  let ?counts = "getCount True False (getGroupedOpcodes [''ADD''])"
  have counts: "?counts (two_tests ! 0) ''ADD'' = 2" "?counts (two_tests ! Suc 0) ''ADD'' = 5"
    by (simp_all add: getCount_def two_tests_def counted_test_def getOpcodeCount_def count_of_def)
  have max: "max_count ?counts (testsWithOpcodes two_tests) ''ADD'' = 5"
    by (simp add: max_count_def two_tests_opcodes counts)
  have "maxPerColumn ?counts (testsWithOpcodes two_tests) [''ADD''] = [(''ADD'', 5)]"
    by (simp add: maxPerColumn_def max obj_set_def)
  moreover have "length (testsWithOpcodes two_tests) = 2" "testsWithOpcodes two_tests ! 0 = (two_tests ! 0, 0)"
    "testsWithOpcodes two_tests ! Suc 0 = (two_tests ! Suc 0, Suc 0)" by (simp_all add: two_tests_opcodes)
  ultimately show ?thesis
    using opcode_cells_rank [OF HOL.refl, of 0 "[''ADD'']" 1 "testsWithOpcodes two_tests" 0 _ ?counts, OF _ _ _ HOL.refl HOL.refl HOL.refl]
    by (simp add: max counts)
qed

theorem opcode_rows_sorted_witness:
  "opcode_sortedTests (\<lambda>_ _. 1) [] (opcode_handleSortChange ''ADD'' (opcode_handleSortChange ''ADD''
     (opcode_handleSortChange ''ADD'' open_opcodes))) (testsWithOpcodes two_tests) = testsWithOpcodes two_tests"
  using opcode_rows_sorted [OF _ _ HOL.refl HOL.refl HOL.refl HOL.refl HOL.refl, of open_opcodes "''ADD''" "\<lambda>_ _. 1" "[]" "testsWithOpcodes two_tests"]
  by (simp add: open_opcodes_def)

theorem canvas_hits_witness:
  "canvas_handleClick (opcode_canvas [] open_opcodes [] two_tests)
     \<lparr>vw_scrollX = 0, vw_scrollY = 0, vw_width = 800, vw_height = 600\<rparr> 10 20 = SortBy ''#''"
proof -
  have "20 \<le> headerHeight (opcode_canvas [] open_opcodes [] two_tests)"
    by (simp add: headerHeight_def computeExpandedHeaderHeight_def ROW_HEIGHT_def HEADER_HEIGHT_COLLAPSED_def Let_def)
  then show ?thesis
    using canvas_hits [OF HOL.refl, of "[]" "\<lparr>vw_scrollX = 0, vw_scrollY = 0, vw_width = 800, vw_height = 600\<rparr>" 10 20 open_opcodes "[]" two_tests]
    by (simp add: ROW_LABEL_WIDTH_def)
qed

end
