(* ===== verification/Spec2Isabelle.thy ===== *)
theory Spec2Isabelle
  imports Color_Scale Dashboard Dashboard_State Compare_Groups Average_Results Opcodes Ansi
    Index_Sources Line_Stream Limiter Live_Log Step_Metrics Cpu_Topology Preferences Formats Compare_Page Query_Server Groups_Page Suite_Page Test_Heatmap Run_Heatmap Suite_Tests Opcode_Heatmap
begin

text \<open>
  The web UI of benchmarkoor (\<open>ui/src\<close>, TypeScript).

  benchmarkoor runs benchmarks of Ethereum execution clients and stores their results as documents in
  directories (the discovery paths) of a file system, of an S3 bucket or of its API server. The UI is a
  single-page application that loads an index of all runs, lets the user filter, compare and average
  them, shows the results of one run with its logs, and keeps nearly all of its state in the URL. This
  development models the part of the UI that computes, without the rendering: parsers and printers,
  aggregation and statistics, the state machines of the pages, and the data access.

  Reading order, with the source each theory follows (paths under \<open>ui/src\<close>):

  \<^item> \<open>Js_Core\<close>, \<open>Js_String\<close>, \<open>Js_Text\<close>, \<open>Js_Uri\<close>: the run-time library. Numbers are exact reals with
    infinities and NaN (\<open>jsnum\<close>), counters and identifiers of documents are integers; strings are lists
    of characters below 256; a \<open>Map\<close> is an association list and a \<open>Set\<close> a list without duplicates, both
    in insertion order; \<open>js_sort\<close> is the stable sort. The locales of the development stand here:
    \<open>comparator\<close> (a total preorder given by the sign of a comparison; sortedness, stability and
    uniqueness of the sort are proved in it and interpreted for every comparison of the code),
    \<open>kv_store\<close> (lookup after store) and \<open>machine\<close> (a step function and an invariant all steps keep;
    interpreted for the page and connection state machines). \<open>Preferences\<close> adds \<open>stored_preference\<close>.
  \<^item> \<open>Api_Types\<close> (\<open>api/types.ts\<close>, step filter and aggregation of \<open>pages/RunDetailPage.tsx\<close>): the
    documents as records, the sums over steps.
  \<^item> Data access. \<open>Runtime_Config\<close> (\<open>config/resultPath.ts\<close>, \<open>config/runtime.ts\<close>, and
    \<open>sanitizeResultPath\<close> of \<open>pkg/executor/results.go\<close>, which wrote the files): result paths, the
    configuration, the URL of a document. \<open>Data_Client\<close> (\<open>api/client.ts\<close>): the fetch functions over a
    network parameter. \<open>Limiter\<close> (\<open>api/client.ts\<close>): the request limiter as a step relation.
    \<open>Index_Sources\<close> (\<open>api/hooks/useIndex.ts\<close>): the index from the API, from S3 or from local paths.
    \<open>Line_Stream\<close> (\<open>api/client.ts\<close>, \<open>api/hooks/useTestDetails.ts\<close>): readers of line files, whole and
    in chunks, and the hook that shows them. \<open>Live_Log\<close> (\<open>api/hooks/useLiveRunLogsWS.ts\<close>): the
    WebSocket connection with its buffering, truncation, and reconnection.
  \<^item> Test names. \<open>Eest_Name\<close> (\<open>utils/eestName.ts\<close>): the regular expressions as backtracking matchers,
    the grammar of names, the memo cache. \<open>Eest_Filter\<close> (\<open>utils/eestNameFilter.ts\<close>): queries.
  \<^item> The run list. \<open>Runs_List\<close> (\<open>components/runs/\<close>, rows of \<open>pages/RunsPage.tsx\<close>): merging live runs,
    filters, order, label filters and their URL form. \<open>Pagination\<close> (\<open>components/shared/Pagination.tsx\<close>).
    \<open>Runs_Page\<close> (\<open>pages/RunsPage.tsx\<close>, \<open>components/runs/RunsTable.tsx\<close>): the page as a state machine
    of 22 events, with URL parameters, compare mode, delete mode and range selection.
  \<^item> Comparison. \<open>Compare_Page\<close> (\<open>pages/ComparePage.tsx\<close>, \<open>components/compare/compareMetrics.ts\<close>,
    \<open>constants.ts\<close>): runs and options of the URL, gas buckets, metrics. \<open>Compare_Groups\<close>
    (\<open>components/compare/groupUtils.ts\<close>, \<open>utils/clientPeerRuns.ts\<close>): groups of runs.
    \<open>Average_Results\<close> (\<open>utils/averageResults.ts\<close>): averages over the runs of a group.
    \<open>Groups_Page\<close> (\<open>pages/CompareGroupsPage.tsx\<close>, \<open>components/compare/GroupBuilder.tsx\<close>): the
    page that compares averaged groups and the builder of the groups, as a state machine over the URL.
  \<^item> The page of a suite. \<open>Suite_Runs\<close> (\<open>pages/SuiteDetailPage.tsx\<close>): the runs of a suite, their
    grouping by labels, the links to comparisons. \<open>Suite_Heatmap\<close> (\<open>suite-detail/RunsHeatmap.tsx\<close>): the
    heat map of the runs, its sections, rows and tiles. \<open>Suite_Page\<close> (\<open>pages/SuiteDetailPage.tsx\<close>): the
    page as a state machine over the URL; its selection runs its own handlers, and the locale
    \<open>simulation\<close> of \<open>Js_Core\<close> shows that they select as \<open>Runs_Page\<close> does. \<open>Test_Heatmap\<close> (\<open>suite-detail/TestHeatmap.tsx\<close>): the heat map of the tests
    over the newest runs of each client. \<open>Suite_Tests\<close> (\<open>suite-detail/TestFilesList.tsx\<close>,
    \<open>PayloadSizesSection.tsx\<close>, \<open>TxCountsSection.tsx\<close>): the table of the tests with its search, its order,
    its pages and the dialogue in the URL, and the bars of the payload and transaction charts.
    \<open>Opcode_Heatmap\<close> (\<open>suite-detail/OpcodeHeatmap.tsx\<close>): the counts of opcodes per test, their grouped
    columns, the order of the rows, and the cell of the canvas a pointer hits.
  \<^item> \<open>Query_Builder\<close> (\<open>pages/QueryBuilderPage.tsx\<close>): the reducer, the page's address, the URL of the
    query. \<open>Query_Server\<close> (\<open>pkg/api/indexstore/query.go\<close>): the parser of the query on the server.
  \<^item> One run. \<open>Dashboard_Types\<close>, \<open>Stats\<close>, \<open>Dashboard\<close>, \<open>Dashboard_State\<close>
    (\<open>components/run-detail/block-logs-dashboard/\<close>): the block-log dashboard, its data processing,
    statistics and URL state. \<open>Step_Metrics\<close> (\<open>utils/payloadTime.ts\<close>, \<open>utils/resourceStep.ts\<close>),
    \<open>Cpu_Topology\<close> (\<open>utils/cpuTopology.ts\<close>), \<open>Opcodes\<close> (\<open>utils/opcodeCategories.ts\<close>), \<open>Ansi\<close>
    (\<open>utils/ansi.ts\<close>, \<open>components/shared/AnsiLine.tsx\<close>). \<open>Run_Heatmap\<close>
    (\<open>run-detail/TestHeatmap.tsx\<close>): the tiles of the tests of a run and the flashing of new ones.
  \<^item> Colours, formats, settings. \<open>Perf_Threshold\<close> (\<open>utils/perfThreshold.ts\<close>,
    \<open>components/compare/heatmapColor.ts\<close>), \<open>Color_Scale\<close> (\<open>utils/runColorScale.ts\<close>), \<open>Formats\<close>
    (\<open>utils/format.ts\<close>, \<open>utils/date.ts\<close>, \<open>components/runs/liveEta.ts\<close>), \<open>Preferences\<close>
    (\<open>hooks/useNameDisplayMode.ts\<close>, \<open>hooks/useLayoutWidth.ts\<close>).

  What the lemmas show, by kind. Round trips: what a page writes to the URL, it reads back (label
  filters, groups, dashboard state, comparison options; the theorems name what a URL cannot hold, as the
  empty value of a label, or an order of the query builder by a column it does not list), and names parse to
  what they were printed from. Invariants and bounds: of the run list, of the limiter, of the live log, of normalised scores.
  Refinement: filters behave as sets of values under any clicks, the live log shows the text the server
  sent over all connections of a session, as long as the browser shows a frame between two of them, the memo
  cache is invisible. Equivalence with direct definitions: the averages, the line readers,
  the matcher and the grammar, the page buttons, the rows of the dashboard, the outcome of a request, the
  UI's and the executor's result paths (of ASCII names). Termination:
  the limiter drains. Composition: the files of a run are fetched from the place its index entry came
  from; the comparison shows the runs selected on the run list; paging shows all rows; the server accepts exactly
  the queries of the builder that it can run, and reads what they mean; the links of the suite page average the
  newest runs of the section they stand at.
  Selections without sorting, one-pass aggregations and histograms are compared with sorts, sums and counts
  of the whole list; a tile of a live run flashes exactly once; grouping the opcode columns keeps the
  counts of every test, and a click on the canvas selects the row that is painted there. A list with rows shows
  an empty page only when its address names one that does not exist, which only a link, a reload or the history
  bring about. Some lemmas
  record where the code does not do what it says (a limiter that can exceed its limit, a step selection
  that is lost in the URL, and others).

  Bounds and fuel. No definition uses fuel: every loop is structural or over a list computed before,
  except the threshold search of \<open>Perf_Threshold\<close>, which has a measure. Hypotheses on parameters are
  stated in the theorems: the locale comparison of texts is a total preorder, the hash of the hash
  library has 64 hexadecimal digits, the S3 and API answers are arbitrary.

  Not modelled. Characters above 255 (a decoder meeting one answers \<open>WideChar\<close>), rounding of IEEE
  doubles, the JSON parser (a response carries its parsed document), the query cache of the data
  library, promises that never settle, the rendering of React components and the options of the chart
  library. Of the pages: the list of suites, the file browser, the sign-in and administration pages, and of
  the page of one run what only lays out the components above. The Go programs of the repository are not
  the subject; of them only the two functions the UI has to agree with are modelled (the result paths of
  the executor and the query parser of the server).
\<close>

end
